(* ===== verification/TorPrelude.thy ===== *)
theory TorPrelude
  imports Main "HOL-Library.Word" "HOL-Library.Code_Target_Numeral"
begin

text \<open>
  What every component of the development shares: the C integer conversions (a value of a C
  integer type is an \<^typ>\<open>int\<close> in the range of the type, and every conversion or wrapping
  operation of the source is written out with one of the functions below), comparison results
  in the style of \<^verbatim>\<open>strcmp\<close>, and the interface that the sorted containers expect of a
  comparison function.
\<close>

named_theorems c_conv "conversions between C integer types that change nothing in range"
named_theorems c_range "ranges of the C integer conversions"

section \<open>C integer types\<close>

text \<open>Unsigned conversion is reduction modulo \<open>2 ^ w\<close>; conversion to a signed type is the
  two's complement reading, as gcc and clang define it on every target of the library.\<close>

definition to_unsigned :: "nat \<Rightarrow> int \<Rightarrow> int" where
  "to_unsigned w x = x mod 2 ^ w"

definition to_signed :: "nat \<Rightarrow> int \<Rightarrow> int" where
  "to_signed w x = (x + 2 ^ (w - 1)) mod 2 ^ w - 2 ^ (w - 1)"

abbreviation UINT32_MAX :: int where "UINT32_MAX \<equiv> 4294967295"
abbreviation INT32_MAX :: int where "INT32_MAX \<equiv> 2147483647"
abbreviation INT32_MIN :: int where "INT32_MIN \<equiv> - 2147483648"
abbreviation UINT64_MAX :: int where "UINT64_MAX \<equiv> 18446744073709551615"
abbreviation INT64_MAX :: int where "INT64_MAX \<equiv> 9223372036854775807"

abbreviation u32 :: "int \<Rightarrow> int" where "u32 \<equiv> to_unsigned 32"
abbreviation u64 :: "int \<Rightarrow> int" where "u64 \<equiv> to_unsigned 64"
abbreviation i32 :: "int \<Rightarrow> int" where "i32 \<equiv> to_signed 32"
abbreviation i64 :: "int \<Rightarrow> int" where "i64 \<equiv> to_signed 64"

lemma to_unsigned_id [c_conv]: "0 \<le> x \<Longrightarrow> x < 2 ^ w \<Longrightarrow> to_unsigned w x = x"
  by (simp add: to_unsigned_def)

lemma to_unsigned_range [c_range]: "0 \<le> to_unsigned w x" "to_unsigned w x < 2 ^ w"
  by (simp_all add: to_unsigned_def)

lemma to_signed_id [c_conv]:
  assumes "0 < w" "- (2 ^ (w - 1)) \<le> x" "x < 2 ^ (w - 1)"
  shows "to_signed w x = x"
proof -
  have "(2::int) ^ w = 2 * 2 ^ (w - 1)"
    using assms(1) by (cases w) auto
  then have "(x + 2 ^ (w - 1)) mod 2 ^ w = x + 2 ^ (w - 1)"
    using assms by (intro mod_pos_pos_trivial) auto
  then show ?thesis by (simp add: to_signed_def)
qed

lemma to_signed_range [c_range]:
  assumes "0 < w"
  shows "- (2 ^ (w - 1)) \<le> to_signed w x" "to_signed w x < 2 ^ (w - 1)"
proof -
  have *: "(2::int) ^ w = 2 * 2 ^ (w - 1)"
    using assms by (cases w) auto
  have "(x + 2 ^ (w - 1)) mod 2 ^ w < (2::int) ^ w" by simp
  with * show "to_signed w x < 2 ^ (w - 1)" by (simp add: to_signed_def)
  show "- (2 ^ (w - 1)) \<le> to_signed w x" by (simp add: to_signed_def)
qed

lemma u32_id [c_conv]: "0 \<le> x \<Longrightarrow> x \<le> UINT32_MAX \<Longrightarrow> u32 x = x"
  by (simp add: to_unsigned_def)

lemma u64_id [c_conv]: "0 \<le> x \<Longrightarrow> x \<le> UINT64_MAX \<Longrightarrow> u64 x = x"
  by (simp add: to_unsigned_def)

lemma i32_id [c_conv]: "INT32_MIN \<le> x \<Longrightarrow> x \<le> INT32_MAX \<Longrightarrow> i32 x = x"
  by (rule to_signed_id) auto

lemma i64_id [c_conv]: "- INT64_MAX - 1 \<le> x \<Longrightarrow> x \<le> INT64_MAX \<Longrightarrow> i64 x = x"
  by (rule to_signed_id) auto

lemma u32_range [c_range]: "0 \<le> u32 x" "u32 x \<le> UINT32_MAX"
  using to_unsigned_range [of 32 x] by simp_all

lemma u64_range [c_range]: "0 \<le> u64 x" "u64 x \<le> UINT64_MAX"
  using to_unsigned_range [of 64 x] by simp_all

lemma i32_range [c_range]: "INT32_MIN \<le> i32 x" "i32 x \<le> INT32_MAX"
  using to_signed_range [of 32 x] by simp_all

lemma int_le_div_iff:
  fixes e g r :: int
  assumes "0 < r"
  shows "e \<le> g div r \<longleftrightarrow> e * r \<le> g"
proof
  assume "e \<le> g div r"
  then have "e * r \<le> g div r * r" using assms by simp
  also have "\<dots> \<le> g" using assms by (simp add: minus_mod_eq_div_mult [symmetric])
  finally show "e * r \<le> g" .
next
  assume "e * r \<le> g"
  then have "e * r div r \<le> g div r" using assms by (rule zdiv_mono1)
  then show "e \<le> g div r" using assms by simp
qed

lemma int_div_less_iff:
  fixes e g r :: int
  shows "0 < r \<Longrightarrow> g div r < e \<longleftrightarrow> g < e * r"
  using int_le_div_iff [of r e g] by linarith

section \<open>Lists\<close>

lemma upt_split: "a \<le> b \<Longrightarrow> b \<le> c \<Longrightarrow> [a..<c] = [a..<b] @ [b..<c]"
  using upt_add_eq_append [of a b "c - b"] by simp

section \<open>Outcomes of a call\<close>

text \<open>A function that can fail an assertion, return an error or return a value.\<close>

datatype 'a assertable = Aborts | Fails | Returns 'a

fun and_then :: "'a assertable \<Rightarrow> ('a \<Rightarrow> 'b assertable) \<Rightarrow> 'b assertable" where
  "and_then Aborts f = Aborts"
| "and_then Fails f = Fails"
| "and_then (Returns x) f = f x"

fun assert_some :: "'a option \<Rightarrow> 'a assertable" where
  "assert_some None = Aborts"
| "assert_some (Some x) = Returns x"

lemma and_then_cong [fundef_cong]:
  "m = m' \<Longrightarrow> (\<And>x. m' = Returns x \<Longrightarrow> f x = g x) \<Longrightarrow> and_then m f = and_then m' g"
  by (cases m') auto

lemma and_then_Returns_iff: "and_then m f = Returns y \<longleftrightarrow> (\<exists>x. m = Returns x \<and> f x = Returns y)"
  by (cases m) auto

lemma and_then_not_Aborts:
  "m \<noteq> Aborts \<Longrightarrow> (\<And>x. m = Returns x \<Longrightarrow> f x \<noteq> Aborts) \<Longrightarrow> and_then m f \<noteq> Aborts"
  by (cases m) auto

lemma if_Fails_Returns_iff: "(if P then Fails else m) = Returns y \<longleftrightarrow> \<not> P \<and> m = Returns y"
  by simp

lemmas Returns_iffs = and_then_Returns_iff if_Fails_Returns_iff split_paired_Ex prod.case

lemma and_then_Aborts_iff: "and_then m f = Aborts \<longleftrightarrow> m = Aborts \<or> (\<exists>x. m = Returns x \<and> f x = Aborts)"
  by (cases m) auto

lemma assert_some_iff [simp]: "assert_some x = Returns y \<longleftrightarrow> x = Some y" "assert_some x = Aborts \<longleftrightarrow> x = None"
  "assert_some x \<noteq> Fails"
  by (cases x; simp)+

section \<open>Machine words\<close>

lemma unat_exp2: "n < LENGTH('a) \<Longrightarrow> unat (2 ^ n :: 'a::len word) = 2 ^ n"
  by (simp add: unat_of_nat [where 'a = 'a, of "2 ^ n", simplified])

lemma unat_bound: "unat (x :: 'a::len word) < 2 ^ LENGTH('a)"
  by (rule unsigned_less)

lemma unat_minus_1_word: "unat (- 1 :: 'a::len word) = 2 ^ LENGTH('a) - 1"
  by (simp add: unsigned_minus_1_eq_mask mask_eq_exp_minus_1)

section \<open>Comparison functions\<close>

text \<open>The sign of a difference, the shape in which the code's comparison functions return
  their result.\<close>

definition cmp_int :: "int \<Rightarrow> int \<Rightarrow> int" where
  "cmp_int a b = (if a < b then - 1 else if a = b then 0 else 1)"

text \<open>
  What a container that sorts or searches with a comparison function relies on: the function
  is a total preorder. The laws are those of the C library's \<^verbatim>\<open>qsort\<close> contract.
\<close>

locale comparison =
  fixes cmp :: "'a \<Rightarrow> 'a \<Rightarrow> int"
  assumes cmp_flip: "cmp a b < 0 \<longleftrightarrow> 0 < cmp b a"
    and cmp_trans: "cmp a b \<le> 0 \<Longrightarrow> cmp b c \<le> 0 \<Longrightarrow> cmp a c \<le> 0"
begin

lemma cmp_refl [simp]: "cmp a a = 0"
  using cmp_flip [of a a] by linarith

lemma cmp_total: "cmp a b \<le> 0 \<or> cmp b a \<le> 0"
  using cmp_flip [of b a] by linarith

lemma cmp_ge_iff: "0 \<le> cmp a b \<longleftrightarrow> cmp b a \<le> 0"
  using cmp_flip [of a b] by linarith

lemma cmp_eq_sym: "cmp a b = 0 \<longleftrightarrow> cmp b a = 0"
  using cmp_flip [of a b] cmp_flip [of b a] by linarith

lemma cmp_less_trans: "cmp a b < 0 \<Longrightarrow> cmp b c \<le> 0 \<Longrightarrow> cmp a c < 0"
proof -
  assume ab: "cmp a b < 0" and bc: "cmp b c \<le> 0"
  have "\<not> cmp c a \<le> 0"
  proof
    assume "cmp c a \<le> 0"
    with bc have "cmp b a \<le> 0" by (rule cmp_trans)
    with ab show False using cmp_flip [of a b] by linarith
  qed
  then show "cmp a c < 0" using cmp_flip [of a c] by linarith
qed

lemma cmp_less_trans': "cmp a b \<le> 0 \<Longrightarrow> cmp b c < 0 \<Longrightarrow> cmp a c < 0"
proof -
  assume ab: "cmp a b \<le> 0" and bc: "cmp b c < 0"
  have "\<not> cmp c a \<le> 0"
  proof
    assume "cmp c a \<le> 0"
    from this ab have "cmp c b \<le> 0" by (rule cmp_trans)
    with bc show False using cmp_flip [of b c] by linarith
  qed
  then show "cmp a c < 0" using cmp_flip [of a c] by linarith
qed

lemma cmp_eq_trans: "cmp a b = 0 \<Longrightarrow> cmp b c = 0 \<Longrightarrow> cmp a c = 0"
  using cmp_trans [of a b c] cmp_trans [of c b a] cmp_eq_sym [of b c] cmp_eq_sym [of a b]
    cmp_ge_iff [of a c] by linarith

lemmas cmp_order = cmp_refl cmp_total cmp_ge_iff cmp_less_trans cmp_less_trans'

end

interpretation cmp_int: comparison cmp_int
  by unfold_locales (auto simp: cmp_int_def split: if_splits)

lemma cmp_int_simps [simp]:
  "cmp_int a b < 0 \<longleftrightarrow> a < b" "cmp_int a b = 0 \<longleftrightarrow> a = b" "0 < cmp_int a b \<longleftrightarrow> b < a"
  "cmp_int a b \<le> 0 \<longleftrightarrow> a \<le> b"
  by (auto simp: cmp_int_def)

end
