(* ===== verification/IntMath.thy ===== *)
theory IntMath
  imports TorPrelude
begin

unbundle bit_operations_syntax

text \<open>
  \<^verbatim>\<open>src/lib/intmath\<close>: binary logarithm, rounding and population count (\<^verbatim>\<open>bits.c\<close>),
  rounding to multiples, saturating product, fractions (\<^verbatim>\<open>muldiv.c\<close>) and the saturating
  sum (\<^verbatim>\<open>addsub.c\<close>). Values of unsigned types are machine words, so that every
  operation wraps as in C.
\<close>

section \<open>bits.c\<close>

text \<open>One \<^verbatim>\<open>if (u64 >= 1<<n) { u64 >>= n; r += n; }\<close> of the source.\<close>

fun log2_halve :: "nat \<Rightarrow> 64 word \<times> nat \<Rightarrow> 64 word \<times> nat" where
  "log2_halve n (u, r) = (if u \<ge> 2 ^ n then (drop_bit n u, r + n) else (u, r))"

definition tor_log2 :: "64 word \<Rightarrow> nat" where
  "tor_log2 v =
    (let (u, r) = log2_halve 2 (log2_halve 4 (log2_halve 8 (log2_halve 16 (log2_halve 32 (v, 0)))))
     in if u \<ge> 2 ^ 1 then r + 1 else r)"

definition round_to_power_of_2 :: "64 word \<Rightarrow> 64 word" where
  "round_to_power_of_2 u =
    (if u = 0 then 1
     else let lg2 = tor_log2 u; low = push_bit lg2 1
          in if lg2 = 63 then low
             else let high = push_bit (lg2 + 1) 1
                  in if high - u < u - low then high else low)"

definition nybble_table :: "nat list" where
  "nybble_table = [0, 1, 1, 2, 1, 2, 2, 3, 1, 2, 2, 3, 2, 3, 3, 4]"

definition n_bits_set_u8 :: "8 word \<Rightarrow> nat" where
  "n_bits_set_u8 v = nybble_table ! unat (v AND 15) + nybble_table ! unat (drop_bit 4 v)"

section \<open>muldiv.c\<close>

text \<open>\<^verbatim>\<open>raw_assert(divisor > 0)\<close> aborts the process: \<^const>\<open>None\<close>.\<close>

definition round_uint32_to_next_multiple_of :: "32 word \<Rightarrow> 32 word \<Rightarrow> 32 word option" where
  "round_uint32_to_next_multiple_of number divisor =
    (if divisor = 0 then None
     else if - 1 - divisor + 1 < number then Some (- 1)
     else let number = number + (divisor - 1) in Some (number - number mod divisor))"

definition round_uint64_to_next_multiple_of :: "64 word \<Rightarrow> 64 word \<Rightarrow> 64 word option" where
  "round_uint64_to_next_multiple_of number divisor =
    (if divisor = 0 then None
     else if - 1 - divisor + 1 < number then Some (- 1)
     else let number = number + (divisor - 1) in Some (number - number mod divisor))"

function gcd64 :: "64 word \<Rightarrow> 64 word \<Rightarrow> 64 word" where
  "gcd64 a b = (if b = 0 then a else gcd64 b (a mod b))"
  by pat_completeness auto
termination
  by (relation "measure (\<lambda>(a, b). unat b)")
     (auto simp: unat_mod unat_gt_0)

declare gcd64.simps [simp del]

definition tor_mul_u64_nowrap :: "64 word \<Rightarrow> 64 word \<Rightarrow> 64 word" where
  "tor_mul_u64_nowrap a b =
    (if a = 0 \<or> b = 0 then 0 else if (- 1) div a < b then - 1 else a * b)"

text \<open>Dividing by the greatest common divisor of \<open>0 / 0\<close> traps: \<^const>\<open>None\<close>.\<close>

definition simplify_fraction64 :: "64 word \<Rightarrow> 64 word \<Rightarrow> (64 word \<times> 64 word) option" where
  "simplify_fraction64 numer denom =
    (let g = gcd64 numer denom
     in if g = 0 then None else Some (numer div g, denom div g))"

section \<open>addsub.c\<close>

definition tor_add_u32_nowrap :: "32 word \<Rightarrow> 32 word \<Rightarrow> 32 word" where
  "tor_add_u32_nowrap a b = (if a > - 1 - b then - 1 else a + b)"

section \<open>Correctness\<close>

lemma unat_drop_bit_div: "unat (drop_bit n w) = unat w div 2 ^ n"
  by (subst unat_drop_bit_eq) (rule drop_bit_eq_div)

lemma unat_le_numeral: "(numeral k :: 'a::len word) \<le> u \<longleftrightarrow> unat (numeral k :: 'a word) \<le> unat u"
  by (simp only: word_le_nat_alt)

text \<open>One halving step of the binary logarithm keeps the shifted value and its bound.\<close>

definition log2_inv :: "64 word \<Rightarrow> nat \<Rightarrow> 64 word \<times> nat \<Rightarrow> bool" where
  "log2_inv x n = (\<lambda>(u, r). unat u = unat x div 2 ^ r \<and> unat u < 2 ^ n \<and> (u = 0 \<longrightarrow> x = 0))"

lemma log2_halve_inv:
  assumes "log2_inv x (2 * n) ur" "n < 64"
  shows "log2_inv x n (log2_halve n ur)"
proof -
  obtain u r where [simp]: "ur = (u, r)" by (cases ur)
  have b: "unat (2 ^ n :: 64 word) = 2 ^ n" using assms(2) by (simp add: unat_exp2)
  show ?thesis
  proof (cases "2 ^ n \<le> u")
    case True
    then have le: "2 ^ n \<le> unat u" using b by (simp add: word_le_nat_alt)
    have "unat u < 2 ^ n * 2 ^ n"
      using assms(1) by (simp add: log2_inv_def mult_2 power_add)
    then have "unat u div 2 ^ n < 2 ^ n" by (simp add: less_mult_imp_div_less)
    moreover have "0 < unat u div 2 ^ n" using le by (simp add: div_greater_zero_iff)
    then have "drop_bit n u \<noteq> 0"
      by (metis unat_0 unat_drop_bit_div less_numeral_extra(3))
    ultimately show ?thesis using True assms(1)
      by (simp add: log2_inv_def unat_drop_bit_div div_mult2_eq power_add)
  next
    case False
    then show ?thesis using assms b by (simp add: log2_inv_def word_le_nat_alt not_le)
  qed
qed

lemma tor_log2_stages:
  obtains u where "log2_inv x 1 (u, tor_log2 x)"
proof -
  have "log2_inv x (2 * 32) (x, 0)"
    using unat_bound [of x] by (simp add: log2_inv_def)
  from log2_halve_inv [OF this] have "log2_inv x (2 * 16) (log2_halve 32 (x, 0))" by simp
  from log2_halve_inv [OF this]
  have "log2_inv x (2 * 8) (log2_halve 16 (log2_halve 32 (x, 0)))" by simp
  from log2_halve_inv [OF this]
  have "log2_inv x (2 * 4) (log2_halve 8 (log2_halve 16 (log2_halve 32 (x, 0))))" by simp
  from log2_halve_inv [OF this]
  have "log2_inv x (2 * 2) (log2_halve 4 (log2_halve 8 (log2_halve 16 (log2_halve 32 (x, 0)))))"
    by simp
  from log2_halve_inv [OF this] obtain u r where
    s: "log2_halve 2 (log2_halve 4 (log2_halve 8 (log2_halve 16 (log2_halve 32 (x, 0))))) = (u, r)"
    and inv: "log2_inv x (2 * 1) (u, r)"
    by (metis mult_1_right one_less_numeral_iff numeral_less_iff prod.collapse semiring_norm(68,75,76,77,78))
  have "log2_inv x 1 (log2_halve 1 (u, r))" using log2_halve_inv [OF inv] by simp
  moreover have "snd (log2_halve 1 (u, r)) = tor_log2 x"
    unfolding tor_log2_def Let_def s by simp
  ultimately show ?thesis using that [of "fst (log2_halve 1 (u, r))"] by (metis prod.collapse)
qed

text \<open>\<open>tor_log2\<close> is the integer part of the binary logarithm: for a nonzero argument
  \<open>2 ^ r \<le> u < 2 ^ (r + 1)\<close>, and its value always fits in the 64 shift positions.\<close>

lemma tor_log2_floor:
  assumes "u \<noteq> 0"
  shows "2 ^ tor_log2 u \<le> unat u" "unat u < 2 ^ (tor_log2 u + 1)"
proof -
  obtain v where inv: "log2_inv u 1 (v, tor_log2 u)" by (rule tor_log2_stages)
  with assms have v: "unat v = 1"
    by (cases "unat v = 0") (auto simp: log2_inv_def unat_eq_0)
  with inv have "unat u div 2 ^ tor_log2 u = 1" by (simp add: log2_inv_def)
  then show "2 ^ tor_log2 u \<le> unat u" "unat u < 2 ^ (tor_log2 u + 1)"
    using div_mult_mod_eq [of "unat u" "2 ^ tor_log2 u"] mod_less_divisor [of "2 ^ tor_log2 u" "unat u"]
    by (auto simp: simp del: mod_less_divisor)
qed

lemma tor_log2_less: "tor_log2 u < 64"
proof (cases "u = 0")
  case True
  then show ?thesis by (simp add: tor_log2_def)
next
  case False
  have "(2::nat) ^ tor_log2 u < 2 ^ 64"
    using tor_log2_floor(1) [OF False] unat_bound [of u] by simp
  then show ?thesis by (rule power_less_imp_less_exp [rotated]) simp
qed

lemma unat_push_bit_1: "n < 64 \<Longrightarrow> unat (push_bit n 1 :: 64 word) = 2 ^ n"
  by (simp add: push_bit_eq_mult unat_exp2)

text \<open>rounding returns a power of two, and no power of two that fits in 64 bits is nearer.\<close>

theorem round_to_power_of_2_nearest:
  "\<exists>k < 64. unat (round_to_power_of_2 u) = 2 ^ k \<and>
     (\<forall>j < 64. \<bar>int (unat u) - 2 ^ k\<bar> \<le> \<bar>int (unat u) - 2 ^ j\<bar>)"
proof (cases "u = 0")
  case True
  have "(1::int) \<le> 2 ^ j" for j :: nat by simp
  with True show ?thesis
    by (intro exI [of _ 0]) (auto simp: round_to_power_of_2_def)
next
  case False
  define l where "l = tor_log2 u"
  have lo: "2 ^ l \<le> unat u" and hi: "unat u < 2 * 2 ^ l"
    using tor_log2_floor [OF False] by (simp_all add: l_def)
  have l: "l < 64" unfolding l_def by (rule tor_log2_less)
  have low: "unat (push_bit l 1 :: 64 word) = 2 ^ l" using l by (rule unat_push_bit_1)
  have below: "j \<le> l \<Longrightarrow> (2::int) ^ j \<le> 2 ^ l" for j by (rule power_increasing) auto
  have above: "l < j \<Longrightarrow> 2 * (2::int) ^ l \<le> 2 ^ j" for j
    using power_increasing [of "Suc l" j "2::int"] by simp
  have apart: "(2::int) ^ j \<le> 2 ^ l \<or> 2 * 2 ^ l \<le> (2::int) ^ j" for j
    using below [of j] above [of j] by linarith
  have "int (2 ^ l) \<le> int (unat u)" and "int (unat u) < int (2 * 2 ^ l)"
    using lo hi by (simp_all only: of_nat_le_iff of_nat_less_iff)
  then have lo': "(2::int) ^ l \<le> uint u" and hi': "uint u < 2 * 2 ^ l" by simp_all
  show ?thesis
  proof (cases "l = 63")
    case True
    then have "round_to_power_of_2 u = push_bit l 1"
      using False by (simp add: round_to_power_of_2_def l_def Let_def)
    moreover have "\<bar>uint u - 2 ^ l\<bar> \<le> \<bar>uint u - 2 ^ j\<bar>" if "j < 64" for j
      using that True lo' below [of j] by linarith
    ultimately show ?thesis using low l by (intro exI [of _ l]) simp
  next
    case neq: False
    with l have l': "l + 1 < 64" by simp
    have high: "unat (push_bit (l + 1) 1 :: 64 word) = 2 * 2 ^ l"
      using unat_push_bit_1 [OF l'] by simp
    have "push_bit l 1 \<le> u" "u \<le> push_bit (l + 1) 1"
      using lo hi low high by (simp_all add: word_le_nat_alt)
    then have cmp: "push_bit (l + 1) 1 - u < u - push_bit l 1
        \<longleftrightarrow> 2 * 2 ^ l - unat u < unat u - 2 ^ l"
      unfolding word_less_nat_alt by (simp only: unat_sub low high)
    have val: "round_to_power_of_2 u =
        (if 2 * 2 ^ l - unat u < unat u - 2 ^ l then push_bit (l + 1) 1 else push_bit l 1)"
      using False neq unfolding round_to_power_of_2_def Let_def l_def [symmetric] cmp by simp
    show ?thesis
    proof (cases "2 * 2 ^ l - unat u < unat u - 2 ^ l")
      case True
      then have "int (2 * 2 ^ l) - int (unat u) < int (unat u) - int (2 ^ l)"
        using lo hi by linarith
      then have near: "2 * (2::int) ^ l - uint u < uint u - 2 ^ l" by simp
      have "\<bar>uint u - 2 ^ (l + 1)\<bar> \<le> \<bar>uint u - 2 ^ j\<bar>" for j
        using near lo' hi' apart [of j] by (simp only: power_add power_one_right) arith
      with True l' val high show ?thesis by (intro exI [of _ "l + 1"]) simp
    next
      case False
      then have "int (unat u) - int (2 ^ l) \<le> int (2 * 2 ^ l) - int (unat u)"
        using lo hi by linarith
      then have near: "uint u - 2 ^ l \<le> 2 * (2::int) ^ l - uint u" by simp
      have "\<bar>uint u - 2 ^ l\<bar> \<le> \<bar>uint u - 2 ^ j\<bar>" for j
        using near lo' hi' apart [of j] by arith
      with False l val low show ?thesis by (intro exI [of _ l]) simp
    qed
  qed
qed

theorem round_to_power_of_2_nearest_witness:
  "round_to_power_of_2 100 = 128 \<and> (\<exists>k < 64. (128::nat) = 2 ^ k \<and>
     (\<forall>j < 64. \<bar>(100::int) - 2 ^ k\<bar> \<le> \<bar>100 - 2 ^ j\<bar>))"
proof -
  have eq: "round_to_power_of_2 100 = 128" by code_simp
  show ?thesis using round_to_power_of_2_nearest [of 100] unfolding eq by simp
qed

lemma nybble_table_count:
  assumes "n < 16"
  shows "nybble_table ! n = length (filter (bit n) [0..<4])"
proof -
  have "\<forall>n \<in> set [0..<16]. nybble_table ! n = length (filter (bit n) [0..<4])"
    by code_simp
  with assms show ?thesis by simp
qed

lemma n_bits_set_u8_count: "n_bits_set_u8 v = card {i. i < 8 \<and> bit v i}"
proof -
  have and15: "v AND 15 = take_bit 4 v"
    by (simp only: take_bit_eq_mask mask_eq_exp_minus_1) simp
  have low1: "unat (v AND 15) < 16"
    unfolding and15 by (simp add: unsigned_take_bit_eq take_bit_nat_def)
  have low2: "bit (unat (v AND 15)) i \<longleftrightarrow> i < 4 \<and> bit v i" for i
    unfolding and15 bit_unsigned_iff bit_take_bit_iff by (auto dest: bit_imp_le_length)
  have high1: "unat (drop_bit 4 v) < 16"
    using unat_bound [of v] by (simp add: unat_drop_bit_div less_mult_imp_div_less)
  have high2: "bit (unat (drop_bit 4 v)) i \<longleftrightarrow> bit v (i + 4)" for i
    unfolding bit_unsigned_iff bit_drop_bit_eq
    by (auto simp: add.commute dest: bit_imp_le_length)
  have "[0..<8] = [0..<4] @ map (\<lambda>i. i + 4) [0..<4]" by (simp add: upt_rec)
  moreover have "filter (\<lambda>i. i < 4 \<and> bit v i) [0..<4] = filter (bit v) [0..<4]"
    by (rule filter_cong) auto
  ultimately have "length (filter (bit v) [0..<8]) = n_bits_set_u8 v"
    by (simp add: n_bits_set_u8_def nybble_table_count low1 high1 low2 [abs_def]
        high2 [abs_def] filter_map comp_def cong: filter_cong)
  also have "length (filter (bit v) [0..<8]) = card (set (filter (bit v) [0..<8]))"
    by (subst distinct_card) auto
  also have "set (filter (bit v) [0..<8]) = {i. i < 8 \<and> bit v i}" by auto
  finally show ?thesis ..
qed

lemma gcd64_gcd: "unat (gcd64 a b) = gcd (unat a) (unat b)"
proof (induction a b rule: gcd64.induct)
  case (1 a b)
  then show ?case
    by (subst gcd64.simps) (auto simp: unat_mod gcd_red_nat [of "unat a"] gcd.commute)
qed

lemma simplify_fraction64_lowest:
  assumes "d \<noteq> 0"
  obtains n' d' where "simplify_fraction64 n d = Some (n', d')"
    "unat n' * unat d = unat n * unat d'" "coprime (unat n') (unat d')" "d' \<noteq> 0"
proof -
  have g: "unat (gcd64 n d) \<noteq> 0" using assms by (simp add: gcd64_gcd unat_eq_0)
  then have "gcd64 n d \<noteq> 0" by auto
  then have eq: "simplify_fraction64 n d = Some (n div gcd64 n d, d div gcd64 n d)"
    by (simp add: simplify_fraction64_def Let_def)
  have d': "unat (d div gcd64 n d) \<noteq> 0"
    using assms by (simp add: unat_div gcd64_gcd unat_eq_0 div_eq_0_iff not_less dvd_imp_le)
  show ?thesis
  proof (rule that [OF eq])
    show "unat (n div gcd64 n d) * unat d = unat n * unat (d div gcd64 n d)"
      by (simp add: unat_div gcd64_gcd div_mult_swap dvd_div_mult)
    show "coprime (unat (n div gcd64 n d)) (unat (d div gcd64 n d))"
      using g by (simp add: unat_div gcd64_gcd) (rule div_gcd_coprime, auto)
    show "d div gcd64 n d \<noteq> 0" using d' by auto
  qed
qed

lemma tor_mul_u64_nowrap_sat:
  "unat (tor_mul_u64_nowrap a b) = min (unat a * unat b) (2 ^ 64 - 1)"
proof (cases "a = 0 \<or> b = 0")
  case True
  then show ?thesis by (auto simp: tor_mul_u64_nowrap_def)
next
  case False
  then have "0 < unat a" by (simp add: unat_gt_0)
  have lt: "(- 1) div a < b \<longleftrightarrow> (2 ^ 64 - 1) div unat a < unat b"
    by (simp add: word_less_nat_alt unat_div unat_minus_1_word)
  also have "\<dots> \<longleftrightarrow> 2 ^ 64 - 1 < unat a * unat b"
    using \<open>0 < unat a\<close> by (simp add: div_less_iff_less_mult mult.commute)
  finally have "(- 1) div a < b \<longleftrightarrow> 2 ^ 64 - 1 < unat a * unat b" .
  then show ?thesis using False
    by (auto simp: tor_mul_u64_nowrap_def unat_word_ariths unat_minus_1_word min_def)
qed

lemma tor_add_u32_nowrap_sat:
  "unat (tor_add_u32_nowrap a b) = min (unat a + unat b) (2 ^ 32 - 1)"
proof -
  have "b \<le> - 1" by simp
  then have "unat (- 1 - b) = 2 ^ 32 - 1 - unat b"
    by (simp add: unat_sub unat_minus_1_word)
  then show ?thesis using unat_bound [of b]
    by (auto simp: tor_add_u32_nowrap_def unat_word_ariths unat_minus_1_word word_less_nat_alt
        min_def)
qed

lemma round_uint32_to_next_multiple_of_spec:
  assumes "d \<noteq> 0"
  obtains r where "round_uint32_to_next_multiple_of n d = Some r"
    "unat r = (let m = (unat n + unat d - 1) div unat d * unat d in
                if unat n + unat d - 1 < 2 ^ 32 then m else 2 ^ 32 - 1)"
proof -
  have d: "0 < unat d" "unat d < 2 ^ 32" using assms unat_bound [of d] by (simp_all add: unat_gt_0)
  have sub: "unat (- 1 - d + 1) = 2 ^ 32 - unat d"
    using d unat_sub_if' [of 0 d] by simp
  show ?thesis
  proof (cases "- 1 - d + 1 < n")
    case True
    then have "\<not> unat n + unat d - 1 < 2 ^ 32" using sub d by (simp add: word_less_nat_alt)
    with True assms show ?thesis
      by (intro that [of "- 1"])
         (simp_all add: round_uint32_to_next_multiple_of_def unat_minus_1_word Let_def)
  next
    case False
    then have small: "unat n + unat d - 1 < 2 ^ 32" using sub d by (simp add: word_less_nat_alt)
    have d1: "unat (d - 1) = unat d - 1" using assms by (rule unat_minus_one)
    have sum: "unat (n + (d - 1)) = unat n + unat d - 1"
      using small d by (simp add: unat_word_ariths d1)
    define s where "s = n + (d - 1)"
    have "s mod d \<le> s" by (simp add: word_le_nat_alt unat_mod)
    then have "unat (s - s mod d) = unat s - unat s mod unat d"
      by (simp add: unat_sub unat_mod)
    also have "\<dots> = unat s div unat d * unat d" by (rule minus_mod_eq_div_mult)
    finally have res: "unat (s - s mod d) = (unat n + unat d - 1) div unat d * unat d"
      using sum by (simp add: s_def)
    have "round_uint32_to_next_multiple_of n d = Some (s - s mod d)"
      using False assms by (simp add: round_uint32_to_next_multiple_of_def Let_def s_def)
    then show ?thesis using res small by (intro that) (simp_all add: Let_def)
  qed
qed

end
