(* ===== verification/TokenBucket.thy ===== *)
theory TokenBucket
  imports TorPrelude
begin

text \<open>
  \<^verbatim>\<open>src/lib/evloop/token_bucket.c\<close> and \<^verbatim>\<open>token_bucket.h\<close>: token buckets
  that limit rates. Levels and timestamps are integers with the conversions of the C types
  written out; \<open>w\<close> is the width of \<^verbatim>\<open>size_t\<close>, 32 or 64 on the supported targets.
  Operations that divide by the configured rate return \<^const>\<open>None\<close> when it is 0, where
  the processor traps. At the end, the interface \<open>token_meter\<close> states what a user of a bucket
  relies on, and both kinds of bucket are shown to provide it.
\<close>

section \<open>State\<close>

record token_bucket_cfg =
  cfg_rate :: int
  cfg_burst :: int

record token_bucket_raw =
  bucket :: int

record token_bucket_rw =
  rw_cfg :: token_bucket_cfg
  read_bucket :: token_bucket_raw
  write_bucket :: token_bucket_raw
  rw_last_refilled_at :: int

record token_bucket_ctr =
  ctr_cfg :: token_bucket_cfg
  counter :: token_bucket_raw
  ctr_last_refilled_at :: int

definition TOKEN_BUCKET_MAX_BURST :: int where
  "TOKEN_BUCKET_MAX_BURST = INT32_MAX"

definition TICKS_PER_STEP :: int where "TICKS_PER_STEP = 16"

section \<open>Raw buckets\<close>

text \<open>The two nonfatal assertions on \<open>rate\<close> and \<open>burst\<close> only log.\<close>

definition token_bucket_cfg_init :: "int \<Rightarrow> int \<Rightarrow> token_bucket_cfg" where
  "token_bucket_cfg_init rate burst =
    (let burst = (if burst > TOKEN_BUCKET_MAX_BURST then TOKEN_BUCKET_MAX_BURST else burst)
     in \<lparr>cfg_rate = rate, cfg_burst = i32 burst\<rparr>)"

definition token_bucket_raw_reset :: "token_bucket_cfg \<Rightarrow> token_bucket_raw" where
  "token_bucket_raw_reset cfg = \<lparr>bucket = cfg_burst cfg\<rparr>"

definition token_bucket_raw_adjust :: "token_bucket_raw \<Rightarrow> token_bucket_cfg \<Rightarrow> token_bucket_raw" where
  "token_bucket_raw_adjust b cfg = b\<lparr>bucket := min (bucket b) (cfg_burst cfg)\<rparr>"

definition token_bucket_raw_refill_steps ::
    "nat \<Rightarrow> token_bucket_raw \<Rightarrow> token_bucket_cfg \<Rightarrow> int \<Rightarrow> (bool \<times> token_bucket_raw) option" where
  "token_bucket_raw_refill_steps w b cfg elapsed =
    (let was_empty = (bucket b \<le> 0);
         gap = to_unsigned w (to_unsigned w (cfg_burst cfg) - to_unsigned w (bucket b))
     in if cfg_rate cfg = 0 then None
        else let level = (if elapsed > gap div cfg_rate cfg then cfg_burst cfg
                          else i32 (u32 (u32 (bucket b) + u32 (cfg_rate cfg * elapsed))))
             in Some (was_empty \<and> level > 0, b\<lparr>bucket := level\<rparr>))"

text \<open>\<^verbatim>\<open>BUG(n < 0)\<close> logs and returns 0 with the bucket unchanged.\<close>

definition token_bucket_raw_dec :: "token_bucket_raw \<Rightarrow> int \<Rightarrow> bool \<times> token_bucket_raw" where
  "token_bucket_raw_dec b n =
    (if n < 0 then (False, b)
     else let becomes_empty = (bucket b > 0 \<and> n \<ge> bucket b)
          in (becomes_empty, b\<lparr>bucket := i32 (bucket b - n)\<rparr>))"

definition token_bucket_raw_get :: "token_bucket_raw \<Rightarrow> int" where
  "token_bucket_raw_get b = (if bucket b \<ge> 0 then bucket b else 0)"

section \<open>Read and write buckets\<close>

definition STAMP_TICKS_PER_SECOND :: int where "STAMP_TICKS_PER_SECOND = 953"

definition monotime_coarse_stamp_units_to_approx_msec :: "int \<Rightarrow> int" where
  "monotime_coarse_stamp_units_to_approx_msec units =
    u64 (units * 1000) div STAMP_TICKS_PER_SECOND"

definition rate_per_sec_to_rate_per_step :: "int \<Rightarrow> int" where
  "rate_per_sec_to_rate_per_step rate =
    (let units = u64 (u64 rate * TICKS_PER_STEP);
         val = u32 (monotime_coarse_stamp_units_to_approx_msec units div 1000)
     in if val \<noteq> 0 then val else 1)"

definition token_bucket_rw_adjust :: "token_bucket_rw \<Rightarrow> int \<Rightarrow> int \<Rightarrow> token_bucket_rw" where
  "token_bucket_rw_adjust b rate burst =
    (let cfg = token_bucket_cfg_init (rate_per_sec_to_rate_per_step rate) burst
     in b\<lparr>rw_cfg := cfg,
          read_bucket := token_bucket_raw_adjust (read_bucket b) cfg,
          write_bucket := token_bucket_raw_adjust (write_bucket b) cfg\<rparr>)"

definition token_bucket_rw_reset :: "token_bucket_rw \<Rightarrow> int \<Rightarrow> token_bucket_rw" where
  "token_bucket_rw_reset b now =
    b\<lparr>read_bucket := token_bucket_raw_reset (rw_cfg b),
      write_bucket := token_bucket_raw_reset (rw_cfg b),
      rw_last_refilled_at := now\<rparr>"

definition token_bucket_rw_init :: "int \<Rightarrow> int \<Rightarrow> int \<Rightarrow> token_bucket_rw" where
  "token_bucket_rw_init rate burst now =
    (let zero = \<lparr>rw_cfg = \<lparr>cfg_rate = 0, cfg_burst = 0\<rparr>, read_bucket = \<lparr>bucket = 0\<rparr>,
                 write_bucket = \<lparr>bucket = 0\<rparr>, rw_last_refilled_at = 0\<rparr>
     in token_bucket_rw_reset (token_bucket_rw_adjust zero rate burst) now)"

text \<open>The result bitmask is \<^verbatim>\<open>TB_READ\<close> (1) or-ed with \<^verbatim>\<open>TB_WRITE\<close> (2).\<close>

definition tb_flags :: "bool \<Rightarrow> bool \<Rightarrow> int" where
  "tb_flags r w = (if r then 1 else 0) + (if w then 2 else 0)"

definition token_bucket_rw_refill :: "nat \<Rightarrow> token_bucket_rw \<Rightarrow> int \<Rightarrow> (int \<times> token_bucket_rw) option" where
  "token_bucket_rw_refill w b now =
    (let elapsed_ticks = u32 (now - rw_last_refilled_at b)
     in if elapsed_ticks \<le> UINT32_MAX div 4
        then let elapsed_steps = elapsed_ticks div TICKS_PER_STEP
             in if elapsed_steps = 0 then Some (0, b)
                else case token_bucket_raw_refill_steps w (read_bucket b) (rw_cfg b) elapsed_steps of
                    None \<Rightarrow> None
                  | Some (fr, rb) \<Rightarrow>
                    (case token_bucket_raw_refill_steps w (write_bucket b) (rw_cfg b) elapsed_steps of
                       None \<Rightarrow> None
                     | Some (fw, wb) \<Rightarrow>
                       Some (tb_flags fr fw,
                         b\<lparr>read_bucket := rb, write_bucket := wb, rw_last_refilled_at := now\<rparr>))
        else Some (0, b\<lparr>rw_last_refilled_at := now\<rparr>))"

definition token_bucket_rw_dec_read :: "token_bucket_rw \<Rightarrow> int \<Rightarrow> bool \<times> token_bucket_rw" where
  "token_bucket_rw_dec_read b n =
    (let (e, rb) = token_bucket_raw_dec (read_bucket b) n in (e, b\<lparr>read_bucket := rb\<rparr>))"

definition token_bucket_rw_dec_write :: "token_bucket_rw \<Rightarrow> int \<Rightarrow> bool \<times> token_bucket_rw" where
  "token_bucket_rw_dec_write b n =
    (let (e, wb) = token_bucket_raw_dec (write_bucket b) n in (e, b\<lparr>write_bucket := wb\<rparr>))"

definition token_bucket_rw_dec :: "token_bucket_rw \<Rightarrow> int \<Rightarrow> int \<Rightarrow> int \<times> token_bucket_rw" where
  "token_bucket_rw_dec b n_read n_written =
    (let (er, b1) = token_bucket_rw_dec_read b n_read;
         (ew, b2) = token_bucket_rw_dec_write b1 n_written
     in (tb_flags er ew, b2))"

definition token_bucket_rw_get_read :: "token_bucket_rw \<Rightarrow> int" where
  "token_bucket_rw_get_read b = token_bucket_raw_get (read_bucket b)"

definition token_bucket_rw_get_write :: "token_bucket_rw \<Rightarrow> int" where
  "token_bucket_rw_get_write b = token_bucket_raw_get (write_bucket b)"

section \<open>Counter buckets\<close>

definition token_bucket_ctr_adjust :: "token_bucket_ctr \<Rightarrow> int \<Rightarrow> int \<Rightarrow> token_bucket_ctr" where
  "token_bucket_ctr_adjust b rate burst =
    (let cfg = token_bucket_cfg_init rate burst
     in b\<lparr>ctr_cfg := cfg, counter := token_bucket_raw_adjust (counter b) cfg\<rparr>)"

definition token_bucket_ctr_reset :: "token_bucket_ctr \<Rightarrow> int \<Rightarrow> token_bucket_ctr" where
  "token_bucket_ctr_reset b now =
    b\<lparr>counter := token_bucket_raw_reset (ctr_cfg b), ctr_last_refilled_at := now\<rparr>"

definition token_bucket_ctr_init :: "int \<Rightarrow> int \<Rightarrow> int \<Rightarrow> token_bucket_ctr" where
  "token_bucket_ctr_init rate burst now =
    (let zero = \<lparr>ctr_cfg = \<lparr>cfg_rate = 0, cfg_burst = 0\<rparr>, counter = \<lparr>bucket = 0\<rparr>,
                 ctr_last_refilled_at = 0\<rparr>
     in token_bucket_ctr_reset (token_bucket_ctr_adjust zero rate burst) now)"

definition token_bucket_ctr_refill :: "nat \<Rightarrow> token_bucket_ctr \<Rightarrow> int \<Rightarrow> token_bucket_ctr option" where
  "token_bucket_ctr_refill w b now =
    (let elapsed_sec = u32 (now - ctr_last_refilled_at b)
     in if elapsed_sec \<le> UINT32_MAX div 4
        then case token_bucket_raw_refill_steps w (counter b) (ctr_cfg b) elapsed_sec of
            None \<Rightarrow> None
          | Some (_, rb) \<Rightarrow> Some (b\<lparr>counter := rb, ctr_last_refilled_at := now\<rparr>)
        else Some (b\<lparr>ctr_last_refilled_at := now\<rparr>))"

definition token_bucket_ctr_dec :: "token_bucket_ctr \<Rightarrow> int \<Rightarrow> bool \<times> token_bucket_ctr" where
  "token_bucket_ctr_dec b n =
    (let (e, rb) = token_bucket_raw_dec (counter b) n in (e, b\<lparr>counter := rb\<rparr>))"

definition token_bucket_ctr_get :: "token_bucket_ctr \<Rightarrow> int" where
  "token_bucket_ctr_get b = token_bucket_raw_get (counter b)"

section \<open>Well-formed buckets\<close>

definition cfg_ok :: "token_bucket_cfg \<Rightarrow> bool" where
  "cfg_ok cfg \<longleftrightarrow> 0 < cfg_rate cfg \<and> cfg_rate cfg \<le> UINT32_MAX
     \<and> 0 < cfg_burst cfg \<and> cfg_burst cfg \<le> INT32_MAX"

definition raw_ok :: "token_bucket_cfg \<Rightarrow> token_bucket_raw \<Rightarrow> bool" where
  "raw_ok cfg b \<longleftrightarrow> cfg_ok cfg \<and> INT32_MIN \<le> bucket b \<and> bucket b \<le> cfg_burst cfg"

definition ctr_ok :: "token_bucket_ctr \<Rightarrow> bool" where
  "ctr_ok b \<longleftrightarrow> raw_ok (ctr_cfg b) (counter b)"

definition rw_ok :: "token_bucket_rw \<Rightarrow> bool" where
  "rw_ok b \<longleftrightarrow> raw_ok (rw_cfg b) (read_bucket b) \<and> raw_ok (rw_cfg b) (write_bucket b)"

lemmas bucket_ok_defs = cfg_ok_def raw_ok_def ctr_ok_def rw_ok_def

lemma to_unsigned_diff: "to_unsigned w (to_unsigned w a - to_unsigned w b) = to_unsigned w (a - b)"
  by (simp add: to_unsigned_def mod_diff_eq)

lemma to_unsigned_sum: "to_unsigned w (to_unsigned w a + to_unsigned w b) = to_unsigned w (a + b)"
  by (simp add: to_unsigned_def mod_add_eq)

lemma to_signed_to_unsigned: "to_signed w (to_unsigned w a) = to_signed w a"
  by (simp add: to_signed_def to_unsigned_def mod_add_left_eq)

lemma to_unsigned_le: "0 \<le> x \<Longrightarrow> to_unsigned w x \<le> x"
  by (simp add: to_unsigned_def zmod_le_nonneg_dividend)

lemma cfg_init_ok:
  "0 < r \<Longrightarrow> r \<le> UINT32_MAX \<Longrightarrow> 0 < b \<Longrightarrow> cfg_ok (token_bucket_cfg_init r b)"
  by (auto simp: token_bucket_cfg_init_def cfg_ok_def TOKEN_BUCKET_MAX_BURST_def Let_def i32_id)

lemma raw_adjust_ok:
  "cfg_ok cfg \<Longrightarrow> INT32_MIN \<le> bucket b \<Longrightarrow> raw_ok cfg (token_bucket_raw_adjust b cfg)"
  by (auto simp: bucket_ok_defs token_bucket_raw_adjust_def)

lemma raw_reset_ok: "cfg_ok cfg \<Longrightarrow> raw_ok cfg (token_bucket_raw_reset cfg)"
  by (auto simp: bucket_ok_defs token_bucket_raw_reset_def)

text \<open>The step computation of the source, with its unsigned differences and products, is the
  exact capped sum: no intermediate value wraps in a way that changes the result.\<close>

lemma refill_steps_exact:
  assumes ok: "raw_ok cfg b" and w: "32 \<le> w" and el: "0 \<le> elapsed"
  shows "token_bucket_raw_refill_steps w b cfg elapsed =
    Some (bucket b \<le> 0 \<and> 0 < min (cfg_burst cfg) (bucket b + cfg_rate cfg * elapsed),
          b\<lparr>bucket := min (cfg_burst cfg) (bucket b + cfg_rate cfg * elapsed)\<rparr>)"
proof -
  let ?g = "cfg_burst cfg - bucket b" and ?r = "cfg_rate cfg"
  have r: "0 < ?r" and b: "INT32_MIN \<le> bucket b" "bucket b \<le> cfg_burst cfg"
    "cfg_burst cfg \<le> INT32_MAX"
    using ok by (auto simp: bucket_ok_defs)
  have "?g < 2 ^ 32" using b by simp
  also have "(2::int) ^ 32 \<le> 2 ^ w" using w by (intro power_increasing) auto
  finally have gap: "to_unsigned w (to_unsigned w (cfg_burst cfg) - to_unsigned w (bucket b)) = ?g"
    using b by (simp add: to_unsigned_diff to_unsigned_id)
  have iff: "elapsed > ?g div ?r \<longleftrightarrow> ?g < elapsed * ?r"
    using r by (rule int_div_less_iff)
  have level: "(if elapsed > ?g div ?r then cfg_burst cfg
      else i32 (u32 (u32 (bucket b) + u32 (?r * elapsed))))
      = min (cfg_burst cfg) (bucket b + ?r * elapsed)"
  proof (cases "elapsed > ?g div ?r")
    case True
    with iff show ?thesis by (simp add: mult.commute)
  next
    case False
    then have "?r * elapsed \<le> ?g" using iff by (simp add: mult.commute)
    moreover have "0 \<le> ?r * elapsed" using r el by simp
    ultimately show ?thesis using False b
      by (simp add: to_unsigned_sum to_signed_to_unsigned i32_id)
  qed
  show ?thesis
    using r unfolding token_bucket_raw_refill_steps_def Let_def gap level by simp
qed

text \<open>C31: Refilling computes the exact capped level: for a well-formed bucket, any width of
  \<^verbatim>\<open>size_t\<close> from 32 bits on and any number of elapsed steps, the new level is
  \<open>min burst (level + rate * elapsed)\<close>, the result says whether the bucket became nonempty,
  and the bucket stays well formed.\<close>

theorem token_bucket_refill_exact:
  assumes "raw_ok cfg b" "32 \<le> w" "0 \<le> elapsed"
  shows "\<exists>b'. token_bucket_raw_refill_steps w b cfg elapsed
      = Some (bucket b \<le> 0 \<and> 0 < bucket b', b')
    \<and> bucket b' = min (cfg_burst cfg) (bucket b + cfg_rate cfg * elapsed)
    \<and> bucket b \<le> bucket b' \<and> raw_ok cfg b'"
proof -
  have "0 \<le> cfg_rate cfg * elapsed" using assms by (auto simp: bucket_ok_defs)
  then show ?thesis
    using assms(1) by (simp add: refill_steps_exact [OF assms]) (auto simp: bucket_ok_defs)
qed

theorem token_bucket_refill_exact_witness:
  "raw_ok \<lparr>cfg_rate = 10, cfg_burst = 100\<rparr> \<lparr>bucket = - 5\<rparr> \<and> (\<exists>b'.
     token_bucket_raw_refill_steps 64 \<lparr>bucket = - 5\<rparr> \<lparr>cfg_rate = 10, cfg_burst = 100\<rparr> 3
       = Some (True, b') \<and> bucket b' = 25)"
proof -
  have ok: "raw_ok \<lparr>cfg_rate = 10, cfg_burst = 100\<rparr> \<lparr>bucket = - 5\<rparr>"
    by (simp add: bucket_ok_defs)
  from token_bucket_refill_exact [OF ok, of 64 3] ok show ?thesis by force
qed

lemma raw_refilled_ok:
  assumes "raw_ok cfg b" "0 \<le> t"
  shows "raw_ok cfg (b\<lparr>bucket := min (cfg_burst cfg) (bucket b + cfg_rate cfg * t)\<rparr>)"
    "bucket b \<le> min (cfg_burst cfg) (bucket b + cfg_rate cfg * t)"
proof -
  have "0 \<le> cfg_rate cfg * t" using assms by (auto simp: bucket_ok_defs)
  then show "raw_ok cfg (b\<lparr>bucket := min (cfg_burst cfg) (bucket b + cfg_rate cfg * t)\<rparr>)"
    "bucket b \<le> min (cfg_burst cfg) (bucket b + cfg_rate cfg * t)"
    using assms(1) by (auto simp: bucket_ok_defs)
qed

lemma raw_refilled_mono:
  "raw_ok cfg b \<Longrightarrow> bucket b \<le> cfg_burst cfg"
  "raw_ok cfg b \<Longrightarrow> 0 \<le> t \<Longrightarrow> 0 \<le> cfg_rate cfg * t"
  by (auto simp: bucket_ok_defs)

lemma raw_dec_exact:
  assumes "raw_ok cfg b" "0 \<le> n" "INT32_MIN \<le> bucket b - n"
  shows "token_bucket_raw_dec b n = (0 < bucket b \<and> bucket b \<le> n, b\<lparr>bucket := bucket b - n\<rparr>)"
  using assms by (auto simp: token_bucket_raw_dec_def bucket_ok_defs i32_id)

lemma raw_dec_ok:
  "raw_ok cfg b \<Longrightarrow> 0 \<le> n \<Longrightarrow> INT32_MIN \<le> bucket b - n
    \<Longrightarrow> raw_ok cfg (snd (token_bucket_raw_dec b n))"
  by (subst raw_dec_exact, assumption+) (auto simp: bucket_ok_defs)

lemma rate_per_step_pos: "0 < rate_per_sec_to_rate_per_step r"
  "rate_per_sec_to_rate_per_step r \<le> UINT32_MAX"
proof -
  have "0 \<le> u32 x" "u32 x \<le> UINT32_MAX" for x by (rule u32_range)+
  then show "0 < rate_per_sec_to_rate_per_step r"
    "rate_per_sec_to_rate_per_step r \<le> UINT32_MAX"
    by (auto simp: rate_per_sec_to_rate_per_step_def Let_def order.strict_iff_order)
qed

lemma rw_init_ok: "0 < burst \<Longrightarrow> rw_ok (token_bucket_rw_init rate burst now)"
  using cfg_init_ok [OF rate_per_step_pos]
  by (auto simp: token_bucket_rw_init_def token_bucket_rw_adjust_def token_bucket_rw_reset_def
      Let_def rw_ok_def intro: raw_reset_ok)

lemma ctr_init_ok:
  "0 < rate \<Longrightarrow> rate \<le> UINT32_MAX \<Longrightarrow> 0 < burst \<Longrightarrow> ctr_ok (token_bucket_ctr_init rate burst now)"
  using cfg_init_ok [of rate burst]
  by (auto simp: token_bucket_ctr_init_def token_bucket_ctr_adjust_def token_bucket_ctr_reset_def
      Let_def ctr_ok_def intro: raw_reset_ok)

section \<open>What a bucket promises to its user\<close>

text \<open>
  A user lets time pass and spends tokens when there are enough of them. The contract bounds
  what it can spend: one tick of waiting credits at most \<open>rate / quantum\<close> tokens, where time
  not credited yet is \<open>pending\<close>.
\<close>

datatype meter_event = Pass int | Spend int

fun meter_spent :: "(int \<Rightarrow> 's \<Rightarrow> 's) \<Rightarrow> (int \<Rightarrow> 's \<Rightarrow> 's) \<Rightarrow> ('s \<Rightarrow> int)
    \<Rightarrow> meter_event list \<Rightarrow> 's \<Rightarrow> int" where
  "meter_spent tick spend level [] s = 0"
| "meter_spent tick spend level (Pass t # es) s = meter_spent tick spend level es (tick t s)"
| "meter_spent tick spend level (Spend n # es) s =
     (if 0 \<le> n \<and> n \<le> level s then n + meter_spent tick spend level es (spend n s)
      else meter_spent tick spend level es s)"

fun meter_time :: "meter_event list \<Rightarrow> int" where
  "meter_time [] = 0"
| "meter_time (Pass t # es) = t + meter_time es"
| "meter_time (Spend n # es) = meter_time es"

definition passes_nonneg :: "meter_event list \<Rightarrow> bool" where
  "passes_nonneg es \<longleftrightarrow> (\<forall>t. Pass t \<in> set es \<longrightarrow> 0 \<le> t)"

lemma passes_nonneg_simps [simp]:
  "passes_nonneg []" "passes_nonneg (Spend n # es) \<longleftrightarrow> passes_nonneg es"
  "passes_nonneg (Pass t # es) \<longleftrightarrow> 0 \<le> t \<and> passes_nonneg es"
  by (auto simp: passes_nonneg_def)

locale token_meter =
  fixes ok :: "'s \<Rightarrow> bool" and level :: "'s \<Rightarrow> int" and pending :: "'s \<Rightarrow> int"
    and rate :: "'s \<Rightarrow> int" and quantum :: int
    and tick :: "int \<Rightarrow> 's \<Rightarrow> 's" and spend :: "int \<Rightarrow> 's \<Rightarrow> 's"
  assumes quantum_pos: "0 < quantum"
    and rate_nonneg: "ok s \<Longrightarrow> 0 \<le> rate s"
    and pending_nonneg: "ok s \<Longrightarrow> 0 \<le> pending s"
    and tick_ok: "ok s \<Longrightarrow> 0 \<le> t \<Longrightarrow> ok (tick t s)"
    and tick_rate: "ok s \<Longrightarrow> 0 \<le> t \<Longrightarrow> rate (tick t s) = rate s"
    and tick_credit: "ok s \<Longrightarrow> 0 \<le> t \<Longrightarrow>
      quantum * level (tick t s) + rate s * pending (tick t s)
        \<le> quantum * level s + rate s * (pending s + t)"
    and tick_mono: "ok s \<Longrightarrow> 0 \<le> t \<Longrightarrow> level s \<le> level (tick t s)"
    and spend_ok: "ok s \<Longrightarrow> 0 \<le> n \<Longrightarrow> n \<le> level s \<Longrightarrow> ok (spend n s)"
    and spend_rate: "ok s \<Longrightarrow> 0 \<le> n \<Longrightarrow> n \<le> level s \<Longrightarrow> rate (spend n s) = rate s"
    and spend_level: "ok s \<Longrightarrow> 0 \<le> n \<Longrightarrow> n \<le> level s \<Longrightarrow> level (spend n s) = level s - n"
    and spend_pending: "ok s \<Longrightarrow> 0 \<le> n \<Longrightarrow> n \<le> level s \<Longrightarrow> pending (spend n s) = pending s"
begin

lemma meter_balance:
  assumes "ok s" "0 \<le> level s" "passes_nonneg es"
  obtains s' where "ok s'" "0 \<le> level s'" "rate s' = rate s"
    "quantum * (meter_spent tick spend level es s + level s') + rate s * pending s'
        \<le> quantum * level s + rate s * (pending s + meter_time es)"
  using assms
proof (induction es arbitrary: s thesis rule: meter_time.induct)
  case 1
  then show ?case by (auto intro: "1.prems"(1) [of s])
next
  case (2 t es)
  then have t: "0 \<le> t" and es: "passes_nonneg es" by auto
  note tk = "2.prems"(2) t
  have lev: "0 \<le> level (tick t s)" using tick_mono [OF tk] "2.prems"(3) by linarith
  obtain s' where "ok s'" "0 \<le> level s'" "rate s' = rate s"
    "quantum * (meter_spent tick spend level es (tick t s) + level s') + rate s * pending s'
        \<le> quantum * level (tick t s) + rate s * (pending (tick t s) + meter_time es)"
    by (rule "2.IH" [OF _ tick_ok [OF tk] lev es]) (simp add: tick_rate [OF tk])
  with tick_credit [OF tk] show ?case
    by (intro "2.prems"(1) [of s']) (auto simp: algebra_simps)
next
  case (3 n es)
  show ?case
  proof (cases "0 \<le> n \<and> n \<le> level s")
    case True
    note sp = "3.prems"(2) True [THEN conjunct1] True [THEN conjunct2]
    note eqs = spend_rate [OF sp] spend_level [OF sp] spend_pending [OF sp]
    have lev: "0 \<le> level (spend n s)" using True eqs by simp
    obtain s' where "ok s'" "0 \<le> level s'" "rate s' = rate s"
      "quantum * (meter_spent tick spend level es (spend n s) + level s') + rate s * pending s'
        \<le> quantum * (level s - n) + rate s * (pending s + meter_time es)"
      by (rule "3.IH" [OF _ spend_ok [OF sp] lev]) (use "3.prems" in \<open>simp_all add: eqs\<close>)
    with True show ?thesis
      by (intro "3.prems"(1) [of s']) (auto simp: algebra_simps)
  next
    case False
    with "3.IH" [of s] "3.prems" show ?thesis by auto
  qed
qed

lemma meter_bound:
  assumes "ok s" "0 \<le> level s" "passes_nonneg es"
  shows "quantum * meter_spent tick spend level es s
    \<le> quantum * level s + rate s * (pending s + meter_time es)"
proof -
  obtain s' where "ok s'" "0 \<le> level s'" "rate s' = rate s" and
    bal: "quantum * (meter_spent tick spend level es s + level s') + rate s * pending s'
        \<le> quantum * level s + rate s * (pending s + meter_time es)"
    using assms by (rule meter_balance)
  then have "0 \<le> quantum * level s'" "0 \<le> rate s * pending s'"
    using quantum_pos rate_nonneg [of s'] pending_nonneg [of s'] by auto
  with bal show ?thesis by (simp add: distrib_left)
qed

end

section \<open>The buckets are meters\<close>

text \<open>A bucket in use: the width of \<^verbatim>\<open>size_t\<close>, the clock and the bucket. Waiting moves the
  clock (which wraps) and refills.\<close>

type_synonym 'b metered = "nat \<times> int \<times> 'b"

definition ctr_tick :: "int \<Rightarrow> token_bucket_ctr metered \<Rightarrow> token_bucket_ctr metered" where
  "ctr_tick t = (\<lambda>(w, now, b). let now' = u32 (now + t) in
     (w, now', case token_bucket_ctr_refill w b now' of None \<Rightarrow> b | Some b' \<Rightarrow> b'))"

definition ctr_spend :: "int \<Rightarrow> token_bucket_ctr metered \<Rightarrow> token_bucket_ctr metered" where
  "ctr_spend n = (\<lambda>(w, now, b). (w, now, snd (token_bucket_ctr_dec b n)))"

definition ctr_level :: "token_bucket_ctr metered \<Rightarrow> int" where
  "ctr_level = (\<lambda>(w, now, b). bucket (counter b))"

definition ctr_pending :: "token_bucket_ctr metered \<Rightarrow> int" where
  "ctr_pending = (\<lambda>(w, now, b). u32 (now - ctr_last_refilled_at b))"

definition ctr_rate :: "token_bucket_ctr metered \<Rightarrow> int" where
  "ctr_rate = (\<lambda>(w, now, b). cfg_rate (ctr_cfg b))"

definition ctr_meter_ok :: "token_bucket_ctr metered \<Rightarrow> bool" where
  "ctr_meter_ok = (\<lambda>(w, now, b). 32 \<le> w \<and> ctr_ok b)"

lemmas ctr_meter_defs = ctr_tick_def ctr_spend_def ctr_level_def ctr_pending_def ctr_rate_def
  ctr_meter_ok_def

lemma ctr_refill_exact:
  assumes "ctr_ok b" "32 \<le> w"
  shows "token_bucket_ctr_refill w b now = Some
    (b\<lparr>counter := (if u32 (now - ctr_last_refilled_at b) \<le> UINT32_MAX div 4
        then (counter b)\<lparr>bucket := min (cfg_burst (ctr_cfg b))
          (bucket (counter b) + cfg_rate (ctr_cfg b) * u32 (now - ctr_last_refilled_at b))\<rparr>
        else counter b),
      ctr_last_refilled_at := now\<rparr>)"
  using refill_steps_exact [OF _ assms(2) u32_range(1), of "ctr_cfg b" "counter b"] assms(1)
  by (simp add: token_bucket_ctr_refill_def Let_def ctr_ok_def)

lemma ctr_dec_exact:
  assumes "ctr_ok b" "0 \<le> n" "n \<le> bucket (counter b)"
  shows "snd (token_bucket_ctr_dec b n)
    = b\<lparr>counter := (counter b)\<lparr>bucket := bucket (counter b) - n\<rparr>\<rparr>"
proof -
  have "raw_ok (ctr_cfg b) (counter b)" using assms(1) by (simp add: ctr_ok_def)
  from raw_dec_exact [OF this assms(2)] assms(3) show ?thesis
    by (simp add: token_bucket_ctr_dec_def split: prod.splits)
qed

lemma pending_advance: "u32 (u32 (now + t) - l) \<le> u32 (now - l) + t" if "0 \<le> t"
proof -
  have "u32 (u32 (now + t) - l) = u32 (u32 (now - l) + t)"
    by (simp add: to_unsigned_def mod_simps algebra_simps)
  also have "\<dots> \<le> u32 (now - l) + t"
    using that u32_range(1) [of "now - l"] by (intro to_unsigned_le) simp
  finally show ?thesis .
qed

interpretation ctr_meter: token_meter ctr_meter_ok ctr_level ctr_pending ctr_rate 1 ctr_tick ctr_spend
proof (unfold_locales, goal_cases)
  case (4 s t)
  then show ?case
    by (cases s) (simp add: ctr_meter_defs Let_def ctr_refill_exact ctr_ok_def raw_refilled_ok u32_range)
next
  case (6 s t)
  obtain w now b where s: "s = (w, now, b)" by (cases s) auto
  with 6 have ok: "ctr_ok b" "32 \<le> w" by (auto simp: ctr_meter_ok_def)
  define e where "e = u32 (u32 (now + t) - ctr_last_refilled_at b)"
  have r: "0 \<le> cfg_rate (ctr_cfg b)" using ok by (auto simp: bucket_ok_defs)
  have "e \<le> u32 (now - ctr_last_refilled_at b) + t"
    unfolding e_def using 6(2) by (rule pending_advance)
  then have "cfg_rate (ctr_cfg b) * e \<le> cfg_rate (ctr_cfg b) * (u32 (now - ctr_last_refilled_at b) + t)"
    using r by (rule mult_left_mono)
  moreover have "0 \<le> cfg_rate (ctr_cfg b) * e" using r u32_range(1) by (simp add: e_def)
  ultimately show ?case
    by (simp add: s ctr_meter_defs Let_def ctr_refill_exact [OF ok] flip: e_def)
       (auto simp: to_unsigned_def min_le_iff_disj)
qed (auto simp: ctr_meter_defs Let_def ctr_refill_exact ctr_dec_exact u32_range bucket_ok_defs)

text \<open>C17: A user of a counter bucket that takes a token only when one is there never gets more
  than the initial level plus \<open>rate\<close> per second: whatever the clock and its wrap-around do,
  over any sequence of waits and withdrawals the total taken is at most
  \<open>level + rate * (seconds since the last refill + seconds waited)\<close>.\<close>

theorem ctr_rate_limited:
  assumes "ctr_ok b" "32 \<le> w" "0 \<le> bucket (counter b)" "passes_nonneg es"
  shows "meter_spent ctr_tick ctr_spend ctr_level es (w, now, b)
    \<le> bucket (counter b)
      + cfg_rate (ctr_cfg b) * (u32 (now - ctr_last_refilled_at b) + meter_time es)"
  using ctr_meter.meter_bound [of "(w, now, b)" es] assms
  by (simp add: ctr_meter_ok_def ctr_level_def ctr_rate_def ctr_pending_def)

theorem ctr_rate_limited_witness:
  "meter_spent ctr_tick ctr_spend ctr_level [Spend 3, Pass 2, Spend 4, Spend 1]
     (64, 0, token_bucket_ctr_init 2 3 0) \<le> 3 + 2 * (u32 (0 - 0) + 2)
   \<and> meter_spent ctr_tick ctr_spend ctr_level [Spend 3, Pass 2, Spend 4, Spend 1]
     (64, 0, token_bucket_ctr_init 2 3 0) = 4"
proof -
  have ok: "ctr_ok (token_bucket_ctr_init 2 3 0)" by (rule ctr_init_ok) simp_all
  have val: "token_bucket_ctr_init 2 3 0 = \<lparr>ctr_cfg = \<lparr>cfg_rate = 2, cfg_burst = 3\<rparr>,
      counter = \<lparr>bucket = 3\<rparr>, ctr_last_refilled_at = 0\<rparr>"
    by (simp add: token_bucket_ctr_init_def token_bucket_ctr_adjust_def token_bucket_ctr_reset_def
        token_bucket_cfg_init_def token_bucket_raw_reset_def token_bucket_raw_adjust_def TOKEN_BUCKET_MAX_BURST_def to_signed_def Let_def)
  have "meter_spent ctr_tick ctr_spend ctr_level [Spend 3, Pass 2, Spend 4, Spend 1]
     (64, 0, token_bucket_ctr_init 2 3 0) = 4"
    by code_simp
  with ctr_rate_limited [OF ok, of 64 "[Spend 3, Pass 2, Spend 4, Spend 1]" 0] val
  show ?thesis by simp
qed

text \<open>The state of a read-write bucket in use says first which side is spent.\<close>

definition rw_tick :: "int \<Rightarrow> bool \<times> token_bucket_rw metered \<Rightarrow> bool \<times> token_bucket_rw metered" where
  "rw_tick t = (\<lambda>(side, w, now, b). let now' = u32 (now + t) in
     (side, w, now', case token_bucket_rw_refill w b now' of None \<Rightarrow> b | Some (_, b') \<Rightarrow> b'))"

definition rw_spend :: "int \<Rightarrow> bool \<times> token_bucket_rw metered \<Rightarrow> bool \<times> token_bucket_rw metered" where
  "rw_spend n = (\<lambda>(side, w, now, b). (side, w, now,
     snd ((if side then token_bucket_rw_dec_read else token_bucket_rw_dec_write) b n)))"

definition rw_level :: "bool \<times> token_bucket_rw metered \<Rightarrow> int" where
  "rw_level = (\<lambda>(side, w, now, b). bucket ((if side then read_bucket else write_bucket) b))"

definition rw_pending :: "bool \<times> token_bucket_rw metered \<Rightarrow> int" where
  "rw_pending = (\<lambda>(side, w, now, b). u32 (now - rw_last_refilled_at b))"

definition rw_rate :: "bool \<times> token_bucket_rw metered \<Rightarrow> int" where
  "rw_rate = (\<lambda>(side, w, now, b). cfg_rate (rw_cfg b))"

definition rw_meter_ok :: "bool \<times> token_bucket_rw metered \<Rightarrow> bool" where
  "rw_meter_ok = (\<lambda>(side, w, now, b). 32 \<le> w \<and> rw_ok b)"

lemmas rw_meter_defs = rw_tick_def rw_spend_def rw_level_def rw_pending_def rw_rate_def
  rw_meter_ok_def

lemma rw_refill_exact:
  fixes now :: int
  assumes "rw_ok b" "32 \<le> w"
  defines "e \<equiv> u32 (now - rw_last_refilled_at b)"
  defines "lift \<equiv> \<lambda>r. r\<lparr>bucket := min (cfg_burst (rw_cfg b))
      (bucket r + cfg_rate (rw_cfg b) * (e div TICKS_PER_STEP))\<rparr>"
  shows "\<exists>flags. token_bucket_rw_refill w b now = Some (flags,
    if e \<le> UINT32_MAX div 4 then
      if e div TICKS_PER_STEP = 0 then b
      else b\<lparr>read_bucket := lift (read_bucket b), write_bucket := lift (write_bucket b),
             rw_last_refilled_at := now\<rparr>
    else b\<lparr>rw_last_refilled_at := now\<rparr>)"
proof -
  have "raw_ok (rw_cfg b) (read_bucket b)" "raw_ok (rw_cfg b) (write_bucket b)"
    using assms(1) by (simp_all add: rw_ok_def)
  moreover have "0 \<le> e div TICKS_PER_STEP"
    using u32_range(1) by (simp add: e_def TICKS_PER_STEP_def pos_imp_zdiv_nonneg_iff)
  ultimately show ?thesis
    using assms(2)
    by (simp add: token_bucket_rw_refill_def Let_def refill_steps_exact lift_def flip: e_def)
qed

lemma rw_dec_exact:
  assumes "rw_ok b" "0 \<le> n"
  shows "n \<le> bucket (read_bucket b) \<Longrightarrow> snd (token_bucket_rw_dec_read b n)
      = b\<lparr>read_bucket := (read_bucket b)\<lparr>bucket := bucket (read_bucket b) - n\<rparr>\<rparr>"
    "n \<le> bucket (write_bucket b) \<Longrightarrow> snd (token_bucket_rw_dec_write b n)
      = b\<lparr>write_bucket := (write_bucket b)\<lparr>bucket := bucket (write_bucket b) - n\<rparr>\<rparr>"
proof -
  have ok: "raw_ok (rw_cfg b) (read_bucket b)" "raw_ok (rw_cfg b) (write_bucket b)"
    using assms(1) by (simp_all add: rw_ok_def)
  show "n \<le> bucket (read_bucket b) \<Longrightarrow> snd (token_bucket_rw_dec_read b n)
      = b\<lparr>read_bucket := (read_bucket b)\<lparr>bucket := bucket (read_bucket b) - n\<rparr>\<rparr>"
    using raw_dec_exact [OF ok(1) assms(2)]
    by (simp add: token_bucket_rw_dec_read_def split: prod.splits)
  show "n \<le> bucket (write_bucket b) \<Longrightarrow> snd (token_bucket_rw_dec_write b n)
      = b\<lparr>write_bucket := (write_bucket b)\<lparr>bucket := bucket (write_bucket b) - n\<rparr>\<rparr>"
    using raw_dec_exact [OF ok(2) assms(2)]
    by (simp add: token_bucket_rw_dec_write_def split: prod.splits)
qed

lemma rw_tick_cases:
  fixes now :: int
  assumes "rw_meter_ok (side, w, now, b)" "0 \<le> t"
  defines "e \<equiv> u32 (u32 (now + t) - rw_last_refilled_at b)"
  obtains (still) "rw_tick t (side, w, now, b) = (side, w, u32 (now + t), b)"
  | (jump) "rw_tick t (side, w, now, b)
      = (side, w, u32 (now + t), b\<lparr>rw_last_refilled_at := u32 (now + t)\<rparr>)"
  | (fill) "rw_tick t (side, w, now, b) = (side, w, u32 (now + t),
      b\<lparr>read_bucket := (read_bucket b)\<lparr>bucket := min (cfg_burst (rw_cfg b))
          (bucket (read_bucket b) + cfg_rate (rw_cfg b) * (e div TICKS_PER_STEP))\<rparr>,
        write_bucket := (write_bucket b)\<lparr>bucket := min (cfg_burst (rw_cfg b))
          (bucket (write_bucket b) + cfg_rate (rw_cfg b) * (e div TICKS_PER_STEP))\<rparr>,
        rw_last_refilled_at := u32 (now + t)\<rparr>)"
proof -
  have ok: "rw_ok b" "32 \<le> w" using assms(1) by (auto simp: rw_meter_ok_def)
  obtain flags where r: "token_bucket_rw_refill w b (u32 (now + t)) = Some (flags,
    if e \<le> UINT32_MAX div 4 then
      if e div TICKS_PER_STEP = 0 then b
      else b\<lparr>read_bucket := (read_bucket b)\<lparr>bucket := min (cfg_burst (rw_cfg b))
          (bucket (read_bucket b) + cfg_rate (rw_cfg b) * (e div TICKS_PER_STEP))\<rparr>,
        write_bucket := (write_bucket b)\<lparr>bucket := min (cfg_burst (rw_cfg b))
          (bucket (write_bucket b) + cfg_rate (rw_cfg b) * (e div TICKS_PER_STEP))\<rparr>,
        rw_last_refilled_at := u32 (now + t)\<rparr>
    else b\<lparr>rw_last_refilled_at := u32 (now + t)\<rparr>)"
    using rw_refill_exact [OF ok, of "u32 (now + t)"] unfolding e_def by blast
  show thesis
  proof (cases "e \<le> UINT32_MAX div 4")
    case False
    then show ?thesis by (intro jump) (simp add: rw_tick_def r Let_def)
  next
    case small: True
    show ?thesis
    proof (cases "e div TICKS_PER_STEP = 0")
      case True
      with small show ?thesis by (intro still) (simp add: rw_tick_def r Let_def)
    next
      case False
      with small show ?thesis by (intro fill) (simp add: rw_tick_def r Let_def)
    qed
  qed
qed

interpretation rw_meter: token_meter rw_meter_ok rw_level rw_pending rw_rate TICKS_PER_STEP
  rw_tick rw_spend
proof (unfold_locales, goal_cases)
  case 1
  show ?case by (simp add: TICKS_PER_STEP_def)
next
  case (4 s t)
  obtain side w now b where s: "s = (side, w, now, b)" by (cases s) auto
  have "0 \<le> u32 (u32 (now + t) - rw_last_refilled_at b) div TICKS_PER_STEP"
    using u32_range(1) by (simp add: TICKS_PER_STEP_def pos_imp_zdiv_nonneg_iff)
  with 4(1) show ?case unfolding s
    by (cases rule: rw_tick_cases [OF 4 [unfolded s]])
       (simp_all add: rw_meter_ok_def rw_ok_def raw_refilled_ok)
next
  case (5 s t)
  obtain side w now b where s: "s = (side, w, now, b)" by (cases s) auto
  show ?case unfolding s
    by (cases rule: rw_tick_cases [OF 5 [unfolded s]]) (simp_all add: rw_rate_def)
next
  case (6 s t)
  obtain side w now b where s: "s = (side, w, now, b)" by (cases s) auto
  define e where "e = u32 (u32 (now + t) - rw_last_refilled_at b)"
  have e: "0 \<le> e" "e \<le> u32 (now - rw_last_refilled_at b) + t"
    using u32_range(1) pending_advance [OF 6(2)] by (auto simp: e_def)
  have r: "0 \<le> cfg_rate (rw_cfg b)" using 6(1) by (auto simp: s rw_meter_ok_def bucket_ok_defs)
  have "TICKS_PER_STEP * (e div TICKS_PER_STEP) \<le> e" by (simp add: TICKS_PER_STEP_def)
  then have "cfg_rate (rw_cfg b) * (TICKS_PER_STEP * (e div TICKS_PER_STEP))
      \<le> cfg_rate (rw_cfg b) * (u32 (now - rw_last_refilled_at b) + t)"
    using e r by (intro mult_left_mono) auto
  moreover have "cfg_rate (rw_cfg b) * e
      \<le> cfg_rate (rw_cfg b) * (u32 (now - rw_last_refilled_at b) + t)"
    using e r by (intro mult_left_mono) auto
  moreover have "0 \<le> cfg_rate (rw_cfg b) * e" using e r by simp
  ultimately show ?case
    using 6(1) unfolding s
    by (cases rule: rw_tick_cases [OF 6 [unfolded s]])
       (auto simp: rw_level_def rw_pending_def rw_rate_def e_def [symmetric] TICKS_PER_STEP_def
          min_def algebra_simps to_unsigned_def [of _ 0])
next
  case (7 s t)
  obtain side w now b where s: "s = (side, w, now, b)" by (cases s) auto
  have "0 \<le> u32 (u32 (now + t) - rw_last_refilled_at b) div TICKS_PER_STEP"
    using u32_range(1) by (simp add: TICKS_PER_STEP_def pos_imp_zdiv_nonneg_iff)
  moreover have "0 < cfg_rate (rw_cfg b)"
    using 7(1) by (auto simp: s rw_meter_ok_def bucket_ok_defs)
  ultimately have "0 \<le> cfg_rate (rw_cfg b)
      * (u32 (u32 (now + t) - rw_last_refilled_at b) div TICKS_PER_STEP)"
    by (intro mult_nonneg_nonneg) auto
  with 7(1) show ?case unfolding s
    by (cases rule: rw_tick_cases [OF 7 [unfolded s]])
       (simp_all add: rw_level_def rw_meter_ok_def rw_ok_def raw_refilled_mono)
qed (auto simp: rw_meter_defs rw_dec_exact u32_range bucket_ok_defs)

theorem rw_rate_limited:
  assumes "rw_ok b" "32 \<le> w" "passes_nonneg es"
    "0 \<le> bucket ((if side then read_bucket else write_bucket) b)"
  shows "16 * meter_spent rw_tick rw_spend rw_level es (side, w, now, b)
    \<le> 16 * bucket ((if side then read_bucket else write_bucket) b)
      + cfg_rate (rw_cfg b) * (u32 (now - rw_last_refilled_at b) + meter_time es)"
  using rw_meter.meter_bound [of "(side, w, now, b)" es] assms
  by (simp add: rw_meter_ok_def rw_level_def rw_rate_def rw_pending_def TICKS_PER_STEP_def
      split: if_splits)

end
