(* ===== verification/CText.thy ===== *)
theory CText
  imports TorPrelude
begin

text \<open>
  Text at the level of C strings: the character classes of \<^verbatim>\<open>lib/string/compat_ctype\<close>,
  number parsing (\<^verbatim>\<open>lib/string/parse_int.c\<close>) with the \<^verbatim>\<open>strtol\<close> family
  it calls, the \<^verbatim>\<open>"%d"\<close> conversion, the helpers of \<^verbatim>\<open>lib/string/util_string.c\<close>
  that the parsers use, and splitting and joining of strings
  (\<^verbatim>\<open>smartlist_split.c\<close>, \<^verbatim>\<open>smartlist_join_strings2\<close> of \<^verbatim>\<open>smartlist.c\<close>). A C string is
  the list of its characters before the terminating NUL; a buffer of bytes is a list of
  characters too, one per byte.
\<close>

abbreviation code :: "char \<Rightarrow> nat" where "code c \<equiv> of_char c"

abbreviation NL :: char where "NL \<equiv> CHR 0x0A"
abbreviation NUL :: char where "NUL \<equiv> CHR 0x00"

lemma code_less [simp]: "code c < 256"
  using of_char_mod_256 [of c] by (metis mod_less_divisor zero_less_numeral)

lemma char_of_code [simp]: "char_of (code c) = c"
  by simp

lemma code_char_of: "n < 256 \<Longrightarrow> code (char_of n) = n"
  by simp

lemma code_eq_iff: "code c = code d \<longleftrightarrow> c = d"
  by simp

section \<open>Character classes\<close>

text \<open>The bit tables of \<^verbatim>\<open>compat_ctype.c\<close>, written as the ranges whose bits they set.\<close>

definition TOR_ISDIGIT :: "char \<Rightarrow> bool" where
  "TOR_ISDIGIT c \<longleftrightarrow> 48 \<le> code c \<and> code c \<le> 57"

definition TOR_ISSPACE :: "char \<Rightarrow> bool" where
  "TOR_ISSPACE c \<longleftrightarrow> 9 \<le> code c \<and> code c \<le> 13 \<or> code c = 32"

definition TOR_ISPRINT :: "char \<Rightarrow> bool" where
  "TOR_ISPRINT c \<longleftrightarrow> 32 \<le> code c \<and> code c \<le> 126"

definition TOR_ISUPPER :: "char \<Rightarrow> bool" where
  "TOR_ISUPPER c \<longleftrightarrow> 65 \<le> code c \<and> code c \<le> 90"

definition TOR_ISLOWER :: "char \<Rightarrow> bool" where
  "TOR_ISLOWER c \<longleftrightarrow> 97 \<le> code c \<and> code c \<le> 122"

definition TOR_TOLOWER :: "char \<Rightarrow> char" where
  "TOR_TOLOWER c = (if TOR_ISUPPER c then char_of (code c + 32) else c)"

definition TOR_TOUPPER :: "char \<Rightarrow> char" where
  "TOR_TOUPPER c = (if TOR_ISLOWER c then char_of (code c - 32) else c)"

definition hex_decode_digit :: "char \<Rightarrow> int" where
  "hex_decode_digit c =
    (if 48 \<le> code c \<and> code c \<le> 57 then int (code c - 48)
     else if 65 \<le> code c \<and> code c \<le> 70 then int (code c - 55)
     else if 97 \<le> code c \<and> code c \<le> 102 then int (code c - 87)
     else - 1)"

section \<open>Printing and parsing of numbers\<close>

text \<open>The \<^verbatim>\<open>"%d"\<close> conversion of \<^verbatim>\<open>snprintf\<close> on a nonnegative value.\<close>

definition digit_char :: "nat \<Rightarrow> char" where
  "digit_char d = char_of (48 + d)"

fun show_nat :: "nat \<Rightarrow> string" where
  "show_nat n = (if n < 10 then [digit_char n] else show_nat (n div 10) @ [digit_char (n mod 10)])"

declare show_nat.simps [simp del]

definition digits_val :: "string \<Rightarrow> nat" where
  "digits_val = foldl (\<lambda>v c. 10 * v + (code c - 48)) 0"

text \<open>\<^verbatim>\<open>strtol (s, &endptr, 10)\<close> and \<^verbatim>\<open>strtoull\<close>: the value, what
  \<open>endptr\<close> points to, and whether \<^verbatim>\<open>errno\<close> is \<^verbatim>\<open>ERANGE\<close>.\<close>

definition strto_parts :: "string \<Rightarrow> bool \<times> string \<times> string" where
  "strto_parts s =
    (let t = dropWhile TOR_ISSPACE s;
         (neg, t) = (case t of [] \<Rightarrow> (False, t)
            | c # cs \<Rightarrow> if c = CHR ''-'' then (True, cs) else if c = CHR ''+'' then (False, cs)
                       else (False, t))
     in (neg, takeWhile TOR_ISDIGIT t, dropWhile TOR_ISDIGIT t))"

definition strtol10 :: "string \<Rightarrow> int \<times> string \<times> bool" where
  "strtol10 s =
    (let (neg, ds, rest) = strto_parts s
     in if ds = [] then (0, s, False)
        else let v = (if neg then - int (digits_val ds) else int (digits_val ds))
             in if v > INT64_MAX then (INT64_MAX, rest, True)
                else if v < - INT64_MAX - 1 then (- INT64_MAX - 1, rest, True)
                else (v, rest, False))"

definition strtoull10 :: "string \<Rightarrow> int \<times> string \<times> bool" where
  "strtoull10 s =
    (let (neg, ds, rest) = strto_parts s
     in if ds = [] then (0, s, False)
        else let v = int (digits_val ds)
             in if v > UINT64_MAX then (UINT64_MAX, rest, True)
                else (if neg then u64 (- v) else v, rest, False))"

text \<open>\<^verbatim>\<open>CHECK_STRTOX_RESULT\<close>: the returned value, \<open>*ok\<close>, and \<open>*next\<close>. \<open>endptr == s\<close>
  compares two suffixes of one string.\<close>

definition check_strtox :: "string \<Rightarrow> int \<Rightarrow> int \<Rightarrow> bool \<Rightarrow> int \<times> string \<times> bool \<Rightarrow> int \<times> bool \<times> string" where
  "check_strtox s mn mx next = (\<lambda>(r, endptr, erange).
     if erange then (0, False, endptr)
     else if endptr = s then (0, False, endptr)
     else if \<not> next \<and> endptr \<noteq> [] then (0, False, endptr)
     else if mx < mn then (0, False, endptr)
     else if r < mn \<or> r > mx then (0, False, endptr)
     else (r, True, endptr))"

text \<open>In base 10, which every caller modelled here passes.\<close>

definition tor_parse_long :: "string \<Rightarrow> int \<Rightarrow> int \<Rightarrow> bool \<Rightarrow> int \<times> bool \<times> string" where
  "tor_parse_long s mn mx next = check_strtox s mn mx next (strtol10 s)"

definition tor_parse_uint64 :: "string \<Rightarrow> int \<Rightarrow> int \<Rightarrow> bool \<Rightarrow> int \<times> bool \<times> string" where
  "tor_parse_uint64 s mn mx next = check_strtox s mn mx next (strtoull10 s)"

section \<open>String helpers\<close>

definition tor_strstrip :: "string \<Rightarrow> string \<Rightarrow> string" where
  "tor_strstrip s strip = filter (\<lambda>c. c \<notin> set strip) s"

definition tor_strlower :: "string \<Rightarrow> string" where
  "tor_strlower s = map TOR_TOLOWER s"

definition tor_strisprint :: "string \<Rightarrow> bool" where
  "tor_strisprint s = list_all TOR_ISPRINT s"

definition tor_strisnonupper :: "string \<Rightarrow> bool" where
  "tor_strisnonupper s = list_all (\<lambda>c. \<not> TOR_ISUPPER c) s"

text \<open>\<^verbatim>\<open>strcmp\<close>: the sign of the first difference of two strings as unsigned characters.\<close>

fun strcmp :: "string \<Rightarrow> string \<Rightarrow> int" where
  "strcmp [] [] = 0"
| "strcmp [] (b # bs) = - 1"
| "strcmp (a # as) [] = 1"
| "strcmp (a # as) (b # bs) =
     (if code a < code b then - 1 else if code b < code a then 1 else strcmp as bs)"

definition strcmp_opt :: "string option \<Rightarrow> string option \<Rightarrow> int" where
  "strcmp_opt s1 s2 =
    (case s1 of None \<Rightarrow> (case s2 of None \<Rightarrow> 0 | Some _ \<Rightarrow> - 1)
     | Some a \<Rightarrow> (case s2 of None \<Rightarrow> 1 | Some b \<Rightarrow> strcmp a b))"

definition strcmpstart :: "string \<Rightarrow> string \<Rightarrow> int" where
  "strcmpstart s1 s2 = strcmp (take (length s2) s1) s2"

function eat_whitespace :: "string \<Rightarrow> string" where
  "eat_whitespace [] = []"
| "eat_whitespace (c # s) =
     (if c = CHR '' '' \<or> c = CHR 0x09 \<or> c = NL \<or> c = CHR 0x0D then eat_whitespace s
      else if c = CHR ''#'' then eat_whitespace (dropWhile (\<lambda>d. d \<noteq> NL) s)
      else c # s)"
  by pat_completeness auto
termination
  by (relation "measure length") (auto simp: le_imp_less_Suc length_dropWhile_le)

section \<open>Splitting and joining\<close>

text \<open>\<^verbatim>\<open>strstr\<close>: what is before the first occurrence of \<open>sep\<close>, and the rest from there.\<close>

fun strstr_at :: "string \<Rightarrow> string \<Rightarrow> string \<times> string" where
  "strstr_at sep [] = ([], [])"
| "strstr_at sep (c # cs) =
     (if take (length sep) (c # cs) = sep then ([], c # cs)
      else let (b, r) = strstr_at sep cs in (c # b, r))"

lemma strstr_at_append: "strstr_at sep s = (b, r) \<Longrightarrow> s = b @ r"
  by (induction sep s arbitrary: b r rule: strstr_at.induct) (auto split: if_splits prod.splits)

definition is_hspace :: "char \<Rightarrow> bool" where
  "is_hspace c \<longleftrightarrow> c = CHR 0x09 \<or> c = CHR '' ''"

text \<open>The flags are \<^verbatim>\<open>SPLIT_SKIP_SPACE\<close>, \<^verbatim>\<open>SPLIT_IGNORE_BLANK\<close> and
  \<^verbatim>\<open>SPLIT_STRIP_SPACE\<close>; one call of the function below is one turn of the loop,
  started at \<open>cp\<close> with \<open>n\<close> strings added before.\<close>

record split_flags =
  skip_space :: bool
  ignore_blank :: bool
  strip_space :: bool

definition split_word :: "string option \<Rightarrow> split_flags \<Rightarrow> int \<Rightarrow> int \<Rightarrow> string \<Rightarrow> string \<times> string option" where
  "split_word sep fl mx n cp0 =
    (let cp = (if skip_space fl then dropWhile TOR_ISSPACE cp0 else cp0);
         (word, end) = (if mx > 0 \<and> n = mx - 1 then (cp, [])
            else case sep of Some sp \<Rightarrow> strstr_at sp cp
            | None \<Rightarrow> (takeWhile (\<lambda>c. \<not> is_hspace c) cp, dropWhile (\<lambda>c. \<not> is_hspace c) cp));
         next = (if end = [] then None
            else case sep of Some sp \<Rightarrow> Some (drop (length sp) end)
            | None \<Rightarrow> Some (dropWhile is_hspace (tl end)));
         word = (if skip_space fl then rev (dropWhile TOR_ISSPACE (rev word)) else word)
     in (word, next))"

lemma split_word_shorter:
  assumes "split_word sep fl mx n cp = (w, Some cp')" "sep \<noteq> Some []"
  shows "length cp' < length cp"
proof -
  define c where "c = (if skip_space fl then dropWhile TOR_ISSPACE cp else cp)"
  have c: "length c \<le> length cp" by (simp add: c_def length_dropWhile_le)
  define we where "we = (if mx > 0 \<and> n = mx - 1 then (c, [])
            else case sep of Some sp \<Rightarrow> strstr_at sp c
            | None \<Rightarrow> (takeWhile (\<lambda>c. \<not> is_hspace c) c, dropWhile (\<lambda>c. \<not> is_hspace c) c))"
  have app: "c = fst we @ snd we"
    by (auto simp: we_def split: option.splits intro: strstr_at_append [OF prod.collapse [symmetric]])
  have nx: "(if snd we = [] then None
            else case sep of Some sp \<Rightarrow> Some (drop (length sp) (snd we))
            | None \<Rightarrow> Some (dropWhile is_hspace (tl (snd we)))) = Some cp'"
    using assms(1) unfolding split_word_def Let_def c_def [symmetric] we_def [symmetric]
    by (simp add: split_def)
  then have ne: "snd we \<noteq> []" by (auto split: if_splits)
  have "length cp' < length (snd we)"
  proof (cases sep)
    case None
    then have "cp' = dropWhile is_hspace (tl (snd we))" using nx ne by simp
    then have "length cp' \<le> length (tl (snd we))" by (simp only: length_dropWhile_le)
    with ne show ?thesis by (cases "snd we") auto
  next
    case (Some sp)
    then show ?thesis using nx ne assms(2) by (cases "snd we"; cases sp) auto
  qed
  then show ?thesis using app c by simp
qed

function split_loop :: "string option \<Rightarrow> split_flags \<Rightarrow> int \<Rightarrow> int \<Rightarrow> string \<Rightarrow> string list" where
  "split_loop sep fl mx n cp =
    (if sep = Some [] then []
     else case split_word sep fl mx n cp of (word, next) \<Rightarrow>
       let keep = (word \<noteq> [] \<or> \<not> ignore_blank fl);
           out = (if keep then [if strip_space fl then tor_strstrip word '' '' else word] else []);
           n = (if keep then n + 1 else n)
       in case next of None \<Rightarrow> out | Some cp' \<Rightarrow> out @ split_loop sep fl mx n cp')"
  by pat_completeness auto
termination
  by (relation "measure (\<lambda>(sep, fl, mx, n, cp). length cp)") (auto dest: split_word_shorter [OF sym])

declare split_loop.simps [simp del]

text \<open>With an empty separator the loop never ends: \<^const>\<open>None\<close>.\<close>

definition smartlist_split_string :: "string list \<Rightarrow> string \<Rightarrow> string option \<Rightarrow> split_flags \<Rightarrow> int
    \<Rightarrow> (int \<times> string list) option" where
  "smartlist_split_string sl str sep fl mx =
    (if sep = Some [] then None
     else let ws = split_loop sep fl mx 0 str in Some (int (length ws), sl @ ws))"

definition no_flags :: split_flags where
  "no_flags = \<lparr>skip_space = False, ignore_blank = False, strip_space = False\<rparr>"

text \<open>\<^verbatim>\<open>smartlist_join_strings\<close> with \<open>terminate\<close>, by the copy loop of
  \<^verbatim>\<open>smartlist_join_strings2\<close>: \<open>join\<close> after every string but the last, and after the last
  one too when terminating.\<close>

fun smartlist_join_strings :: "string list \<Rightarrow> string \<Rightarrow> bool \<Rightarrow> string" where
  "smartlist_join_strings [] join terminate = (if terminate then join else [])"
| "smartlist_join_strings [s] join terminate = s @ (if terminate then join else [])"
| "smartlist_join_strings (s # t # sl) join terminate =
     s @ join @ smartlist_join_strings (t # sl) join terminate"

section \<open>Numbers\<close>

lemma digit_char_code [simp]: "d < 10 \<Longrightarrow> code (digit_char d) = 48 + d"
  by (simp add: digit_char_def)

lemma digit_char_isdigit [simp]: "d < 10 \<Longrightarrow> TOR_ISDIGIT (digit_char d)"
  by (simp add: TOR_ISDIGIT_def)

lemma show_nat_digits: "list_all TOR_ISDIGIT (show_nat n)"
proof (induction n rule: show_nat.induct)
  case (1 n)
  then show ?case by (subst show_nat.simps) simp
qed

lemma show_nat_nonempty [simp]: "show_nat n \<noteq> []"
  by (subst show_nat.simps) simp

lemma digits_val_snoc: "digits_val (s @ [c]) = 10 * digits_val s + (code c - 48)"
  by (simp add: digits_val_def)

lemma digits_val_show_nat [simp]: "digits_val (show_nat n) = n"
proof (induction n rule: show_nat.induct)
  case (1 n)
  show ?case
  proof (cases "n < 10")
    case True
    then show ?thesis by (subst show_nat.simps) (simp add: digits_val_def)
  next
    case False
    then show ?thesis using 1 by (subst show_nat.simps) (simp add: digits_val_snoc)
  qed
qed

lemma show_nat_inject [simp]: "show_nat m = show_nat n \<longleftrightarrow> m = n"
  by (metis digits_val_show_nat)

lemma isdigit_not_space: "TOR_ISDIGIT c \<Longrightarrow> \<not> TOR_ISSPACE c"
  by (auto simp: TOR_ISDIGIT_def TOR_ISSPACE_def)

lemma isdigit_not_sign: "TOR_ISDIGIT c \<Longrightarrow> c \<noteq> CHR ''-'' \<and> c \<noteq> CHR ''+''"
  by (auto simp: TOR_ISDIGIT_def)

lemma strto_parts_digit:
  "TOR_ISDIGIT c \<Longrightarrow> strto_parts (c # s) = (False, takeWhile TOR_ISDIGIT (c # s), dropWhile TOR_ISDIGIT (c # s))"
  using isdigit_not_space [of c] isdigit_not_sign [of c] by (simp add: strto_parts_def)

text \<open>Parsing a printed number gives it back, whatever follows that is not a digit.\<close>

lemma takeWhile_show_nat:
  assumes "rest = [] \<or> \<not> TOR_ISDIGIT (hd rest)"
  shows "takeWhile TOR_ISDIGIT (show_nat n @ rest) = show_nat n"
    "dropWhile TOR_ISDIGIT (show_nat n @ rest) = rest"
proof -
  have all: "\<forall>c \<in> set (show_nat n). TOR_ISDIGIT c"
    using show_nat_digits [of n] by (simp add: list_all_iff)
  then show "takeWhile TOR_ISDIGIT (show_nat n @ rest) = show_nat n"
    using assms by (cases rest) (auto simp: takeWhile_append2)
  show "dropWhile TOR_ISDIGIT (show_nat n @ rest) = rest"
    using all assms by (cases rest) (auto simp: dropWhile_append2)
qed

lemma strto_parts_show_nat:
  assumes "rest = [] \<or> \<not> TOR_ISDIGIT (hd rest)"
  shows "strto_parts (show_nat n @ rest) = (False, show_nat n, rest)"
proof -
  obtain c s where c: "show_nat n = c # s" by (cases "show_nat n") auto
  then have "TOR_ISDIGIT c" using show_nat_digits [of n] by simp
  from strto_parts_digit [OF this, of "s @ rest"] show ?thesis
    using takeWhile_show_nat [OF assms, of n] unfolding c by simp
qed

lemma tor_parse_long_show_nat:
  assumes "rest = [] \<or> next \<and> \<not> TOR_ISDIGIT (hd rest)" "mn \<le> int n" "int n \<le> mx" "int n \<le> INT64_MAX"
  shows "tor_parse_long (show_nat n @ rest) mn mx next = (int n, True, rest)"
proof -
  have r: "rest = [] \<or> \<not> TOR_ISDIGIT (hd rest)" using assms(1) by blast
  show ?thesis
    using assms by (auto simp: tor_parse_long_def strtol10_def check_strtox_def
        strto_parts_show_nat [OF r])
qed

lemma check_strtox_ok:
  "check_strtox s mn mx nx (r, e, er) = (v, True, rest) \<longleftrightarrow>
     \<not> er \<and> e \<noteq> s \<and> (nx \<or> e = []) \<and> mn \<le> r \<and> r \<le> mx \<and> v = r \<and> rest = e"
  unfolding check_strtox_def by auto

lemma tor_parse_long_bounds:
  assumes "tor_parse_long s mn mx nx = (v, True, rest)"
  shows "mn \<le> v" "v \<le> mx" "nx \<or> rest = []"
proof -
  obtain r e er where "strtol10 s = (r, e, er)" by (cases "strtol10 s")
  with assms show "mn \<le> v" "v \<le> mx" "nx \<or> rest = []"
    by (auto simp: tor_parse_long_def check_strtox_ok)
qed

section \<open>Comparison of strings\<close>

lemma strcmp_flip: "strcmp a b < 0 \<longleftrightarrow> 0 < strcmp b a"
  by (induction a b rule: strcmp.induct) auto

lemma strcmp_trans: "strcmp a b \<le> 0 \<Longrightarrow> strcmp b c \<le> 0 \<Longrightarrow> strcmp a c \<le> 0"
proof (induction a c arbitrary: b rule: strcmp.induct)
  case (3 x xs)
  then show ?case by (cases b) (auto split: if_splits)
next
  case (4 x xs y ys)
  then show ?case by (cases b) (auto split: if_splits)
qed auto

interpretation strcmp: comparison strcmp
  by unfold_locales (fact strcmp_flip, fact strcmp_trans)

lemma strcmp_eq_iff: "strcmp a b = 0 \<longleftrightarrow> a = b"
  by (induction a b rule: strcmp.induct) (auto simp: not_less dest: le_antisym)

interpretation strcmp_opt: comparison strcmp_opt
proof (unfold_locales, goal_cases)
  case (1 a b)
  then show ?case using strcmp_flip by (auto simp: strcmp_opt_def split: option.splits)
next
  case (2 a b c)
  then show ?case using strcmp_trans by (auto simp: strcmp_opt_def split: option.splits)
qed

section \<open>Splitting what was joined\<close>

lemma strstr_at_single:
  "c \<notin> set w \<Longrightarrow> strstr_at [c] (w @ r) = (let (b, r') = strstr_at [c] r in (w @ b, r'))"
  by (induction w) (auto split: prod.splits)

text \<open>Splitting on a separator character undoes joining with it: if no part holds the
  separator and there is a part at all, \<^verbatim>\<open>smartlist_split_string\<close> of the
  \<^verbatim>\<open>smartlist_join_strings\<close> of the parts gives the parts back.\<close>

theorem split_join_roundtrip:
  assumes "ws \<noteq> []" "\<forall>w \<in> set ws. c \<notin> set w"
  shows "smartlist_split_string [] (smartlist_join_strings ws [c] False) (Some [c]) no_flags 0
    = Some (int (length ws), ws)"
proof -
  have "split_loop (Some [c]) no_flags 0 n (smartlist_join_strings ws [c] False) = ws" for n
    using assms
  proof (induction ws arbitrary: n rule: induct_list012)
    case (2 w)
    then show ?case
      using strstr_at_single [of c w "[]"]
      by (subst split_loop.simps) (simp add: split_word_def no_flags_def)
  next
    case (3 w v ws)
    then show ?case
      using strstr_at_single [of c w "c # smartlist_join_strings (v # ws) [c] False"]
      by (subst split_loop.simps) (simp add: split_word_def no_flags_def)
  qed simp
  then show ?thesis by (simp add: smartlist_split_string_def Let_def)
qed

theorem split_join_roundtrip_witness:
  "smartlist_split_string [] (smartlist_join_strings [''a'', [], ''bc''] '','' False)
     (Some '','') no_flags 0 = Some (3, [''a'', [], ''bc''])"
  using split_join_roundtrip [of "[''a'', [], ''bc'']" "CHR '',''"] by simp

end
