(* ===== verification/Binascii.thy ===== *)
theory Binascii
  imports CText
begin

text \<open>
  \<^verbatim>\<open>src/lib/encoding/binascii.c\<close>: base 16, base 32 and base 64. A buffer of bytes
  is a string (one character per byte); an encoder's result is the C string it leaves in the
  destination. \<^const>\<open>None\<close> is an assertion failure in the encoders and the result \<open>-1\<close> in the
  decoders. The lookup tables of the decoder are given by ranges of character codes.
\<close>

definition CEIL_DIV :: "nat \<Rightarrow> nat \<Rightarrow> nat" where "CEIL_DIV a b = (a + (b - 1)) div b"

definition INT_MAX :: nat where "INT_MAX = 2147483647"

text \<open>\<^verbatim>\<open>SIZE_T_CEILING\<close> on a target with 64-bit \<^verbatim>\<open>ssize_t\<close>.\<close>

definition SIZE_T_CEILING :: nat where "SIZE_T_CEILING = 9223372036854775791"

section \<open>Base 16\<close>

definition hex_digits :: string where "hex_digits = ''0123456789ABCDEF''"

definition base16_encode :: "nat \<Rightarrow> string \<Rightarrow> string option" where
  "base16_encode destlen src =
    (if \<not> length src < SIZE_T_CEILING div 2 - 1 \<or> \<not> destlen \<ge> length src * 2 + 1
        \<or> \<not> destlen < SIZE_T_CEILING then None
     else Some (concat (map (\<lambda>c. [hex_digits ! (code c div 16), hex_digits ! (code c mod 16)]) src)))"

fun base16_decode_loop :: "string \<Rightarrow> string option" where
  "base16_decode_loop [] = Some []"
| "base16_decode_loop [c] = None"
| "base16_decode_loop (c # d # src) =
     (let v1 = hex_decode_digit c; v2 = hex_decode_digit d
      in if v1 < 0 \<or> v2 < 0 then None
         else map_option ((#) (char_of (nat (v1 * 16 + v2)))) (base16_decode_loop src))"

definition base16_decode :: "nat \<Rightarrow> string \<Rightarrow> string option" where
  "base16_decode destlen src =
    (if length src mod 2 \<noteq> 0 then None
     else if destlen < length src div 2 \<or> destlen > INT_MAX then None
     else base16_decode_loop src)"

section \<open>Base 64\<close>

definition base64_encode_table :: "string" where
  "base64_encode_table = ''ABCDEFGHIJKLMNOPQRSTUVWXYZabcdefghijklmnopqrstuvwxyz0123456789+/''"

datatype base64_class = Val nat | SP | PAD | X

definition base64_decode_table :: "char \<Rightarrow> base64_class" where
  "base64_decode_table ch =
    (let c = code ch in
     if 9 \<le> c \<and> c \<le> 11 \<or> c = 13 \<or> c = 32 then SP
     else if c = 43 then Val 62
     else if c = 47 then Val 63
     else if 48 \<le> c \<and> c \<le> 57 then Val (c + 4)
     else if c = 61 then PAD
     else if 65 \<le> c \<and> c \<le> 90 then Val (c - 65)
     else if 97 \<le> c \<and> c \<le> 122 then Val (c - 71)
     else X)"

definition base64_encode_size :: "nat \<Rightarrow> bool \<Rightarrow> nat option" where
  "base64_encode_size srclen multiline =
    (if \<not> srclen < INT_MAX \<or> \<not> CEIL_DIV srclen 3 < INT_MAX div 4 then None
     else let enclen = CEIL_DIV srclen 3 * 4;
              enclen = (if multiline then enclen + CEIL_DIV enclen 64 else enclen)
          in if enclen < INT_MAX \<and> (enclen = 0 \<or> enclen > srclen) then Some enclen else None)"

text \<open>The macros \<^verbatim>\<open>ENCODE_CHAR\<close> and \<^verbatim>\<open>ENCODE_N\<close>; the state is the output and
  the length of the current line.\<close>

definition encode_char :: "bool \<Rightarrow> char \<Rightarrow> string \<times> nat \<Rightarrow> string \<times> nat" where
  "encode_char multiline ch = (\<lambda>(d, linelen).
     if multiline then
       (if (linelen + 1) mod 64 = 0 then (d @ [ch, NL], 0) else (d @ [ch], linelen + 1))
     else (d @ [ch], linelen))"

definition encode_n :: "bool \<Rightarrow> nat \<Rightarrow> nat \<Rightarrow> string \<times> nat \<Rightarrow> string \<times> nat" where
  "encode_n multiline n idx = encode_char multiline (base64_encode_table ! (n div 2 ^ ((3 - idx) * 6) mod 64))"

text \<open>The loop over the source bytes: \<open>n\<close> gathers up to 24 bits of \<open>n_idx\<close> bytes.\<close>

fun base64_encode_loop :: "bool \<Rightarrow> string \<Rightarrow> nat \<Rightarrow> nat \<Rightarrow> string \<times> nat \<Rightarrow> nat \<times> nat \<times> string \<times> nat" where
  "base64_encode_loop ml [] n n_idx st = (n, n_idx, st)"
| "base64_encode_loop ml (u # us) n n_idx st =
     (let n = n * 256 + code u in
      if n_idx + 1 = 3
      then base64_encode_loop ml us 0 0 (encode_n ml n 3 (encode_n ml n 2 (encode_n ml n 1 (encode_n ml n 0 st))))
      else base64_encode_loop ml us n (n_idx + 1) st)"

definition base64_encode_tail :: "bool \<Rightarrow> nat \<Rightarrow> nat \<Rightarrow> string \<times> nat \<Rightarrow> string \<times> nat" where
  "base64_encode_tail ml n n_idx st =
    (if n_idx = 1 then let n = n * 16 in
       encode_char ml CHR ''='' (encode_char ml CHR ''='' (encode_n ml n 3 (encode_n ml n 2 st)))
     else if n_idx = 2 then let n = n * 4 in
       encode_char ml CHR ''='' (encode_n ml n 3 (encode_n ml n 2 (encode_n ml n 1 st)))
     else st)"

definition base64_encode :: "nat \<Rightarrow> string \<Rightarrow> bool \<Rightarrow> string assertable" where
  "base64_encode destlen src multiline =
    (case base64_encode_size (length src) multiline of
       None \<Rightarrow> Aborts
     | Some enclen \<Rightarrow>
       if destlen < enclen + 1 then Fails
       else if destlen > SIZE_T_CEILING then Fails
       else if enclen > INT_MAX then Fails
       else let (n, n_idx, st) = base64_encode_loop multiline src 0 0 ([], 0);
                (d, linelen) = base64_encode_tail multiline n n_idx st;
                d = (if multiline \<and> linelen \<noteq> 0 then d @ [NL] else d)
            in if length d = enclen then Returns d else Aborts)"

definition base64_encode_nopad :: "nat \<Rightarrow> string \<Rightarrow> string assertable" where
  "base64_encode_nopad destlen src =
    (case base64_encode destlen src False of
       Returns d \<Rightarrow> if d = [] then Returns []
         else if length d < destlen then Returns (filter (\<lambda>c. c \<noteq> CHR ''='' \<and> c \<noteq> NL) d) else Aborts
     | r \<Rightarrow> r)"

text \<open>The decoder's loop returns the gathered bits and the output at the end of the data;
  \<open>(unsigned char)\<close> stores keep the low 8 bits.\<close>

definition byte_of :: "nat \<Rightarrow> char" where "byte_of n = char_of (n mod 256)"

fun base64_decode_loop :: "nat \<Rightarrow> string \<Rightarrow> nat \<Rightarrow> nat \<Rightarrow> string \<Rightarrow> (nat \<times> nat \<times> string) option" where
  "base64_decode_loop destlen [] n n_idx dest = Some (n, n_idx, dest)"
| "base64_decode_loop destlen (c # src) n n_idx dest =
     (case base64_decode_table c of
        X \<Rightarrow> None
      | SP \<Rightarrow> base64_decode_loop destlen src n n_idx dest
      | PAD \<Rightarrow> Some (n, n_idx, dest)
      | Val v \<Rightarrow>
        let n = n * 64 + v in
        if n_idx + 1 = 4 then
          (if destlen < 3 \<or> length dest > destlen - 3 then None
           else base64_decode_loop destlen src 0 0
                  (dest @ [byte_of (n div 2 ^ 16), byte_of (n div 2 ^ 8), byte_of n]))
        else base64_decode_loop destlen src n (n_idx + 1) dest)"

definition base64_decode :: "nat \<Rightarrow> string \<Rightarrow> string option" where
  "base64_decode destlen src =
    (if destlen > INT_MAX then None
     else case base64_decode_loop destlen src 0 0 [] of
       None \<Rightarrow> None
     | Some (n, n_idx, dest) \<Rightarrow>
       if n_idx = 1 then None
       else if n_idx = 2 then
         (if destlen < 1 \<or> length dest > destlen - 1 then None else Some (dest @ [byte_of (n div 2 ^ 4)]))
       else if n_idx = 3 then
         (if destlen < 2 \<or> length dest > destlen - 2 then None
          else Some (dest @ [byte_of (n div 2 ^ 10), byte_of (n div 2 ^ 2)]))
       else Some dest)"

section \<open>Base 32\<close>

definition BASE32_CHARS :: string where "BASE32_CHARS = ''abcdefghijklmnopqrstuvwxyz234567''"

definition base32_encoded_size :: "nat \<Rightarrow> nat option" where
  "base32_encoded_size srclen =
    (if \<not> srclen < SIZE_T_CEILING div 8 then None
     else let enclen = CEIL_DIV (srclen * 8) 5 + 1
          in if enclen < INT_MAX \<and> enclen > srclen then Some enclen else None)"

text \<open>The loop \<^verbatim>\<open>for (i = 0, bit = 0; bit < nbits; ++i, bit += 5)\<close> writes one
  character per turn.\<close>

definition base32_digit :: "string \<Rightarrow> nat \<Rightarrow> nat" where
  "base32_digit src bitno =
    (let idx = bitno div 8;
         v = code (src ! idx) * 256;
         v = (if idx + 1 < length src then v + code (src ! (idx + 1)) else v)
     in v div 2 ^ (11 - bitno mod 8) mod 32)"

definition base32_encode :: "nat \<Rightarrow> string \<Rightarrow> string option" where
  "base32_encode destlen src =
    (case base32_encoded_size (length src) of
       None \<Rightarrow> None
     | Some sz \<Rightarrow>
       if \<not> sz \<le> destlen \<or> \<not> destlen < SIZE_T_CEILING then None
       else Some (map (\<lambda>i. BASE32_CHARS ! base32_digit src (5 * i)) [0..<CEIL_DIV (length src * 8) 5]))"

definition base32_value :: "char \<Rightarrow> nat option" where
  "base32_value c =
    (if code c > 0x60 \<and> code c < 0x7B then Some (code c - 0x61)
     else if code c > 0x31 \<and> code c < 0x38 then Some (code c - 0x18)
     else if code c > 0x40 \<and> code c < 0x5B then Some (code c - 0x41)
     else None)"

fun base32_values :: "string \<Rightarrow> nat list option" where
  "base32_values [] = Some []"
| "base32_values (c # cs) =
     (case base32_value c of None \<Rightarrow> None | Some v \<Rightarrow> map_option ((#) v) (base32_values cs))"

definition base32_byte :: "nat list \<Rightarrow> nat \<Rightarrow> char" where
  "base32_byte tmp bitno =
    (let k = bitno div 5 in
     byte_of (if bitno mod 40 = 0 then tmp ! k * 2 ^ 3 + tmp ! (k + 1) div 2 ^ 2
       else if bitno mod 40 = 8 then tmp ! k * 2 ^ 6 + tmp ! (k + 1) * 2 + tmp ! (k + 2) div 2 ^ 4
       else if bitno mod 40 = 16 then tmp ! k * 2 ^ 4 + tmp ! (k + 1) div 2
       else if bitno mod 40 = 24 then tmp ! k * 2 ^ 7 + tmp ! (k + 1) * 2 ^ 2 + tmp ! (k + 2) div 2 ^ 3
       else tmp ! k * 2 ^ 5 + tmp ! (k + 1)))"

definition base32_decode :: "nat \<Rightarrow> string \<Rightarrow> string assertable" where
  "base32_decode destlen src =
    (let nbits = length src * 5 div 8 * 8 in
     if \<not> length src < SIZE_T_CEILING div 5 \<or> \<not> nbits div 8 \<le> destlen \<or> \<not> destlen < SIZE_T_CEILING
     then Aborts
     else case base32_values src of
         None \<Rightarrow> Fails
       | Some tmp \<Rightarrow> Returns (map (\<lambda>i. base32_byte tmp (8 * i)) [0..<nbits div 8]))"

section \<open>Round trip of base 16\<close>

lemma hex_digit_roundtrip:
  assumes "n < 16"
  shows "hex_decode_digit (hex_digits ! n) = int n"
proof -
  have "\<forall>n \<in> set [0..<16]. hex_decode_digit (hex_digits ! n) = int n" by code_simp
  with assms show ?thesis by simp
qed

lemma base16_decode_loop_encode:
  "base16_decode_loop (concat (map (\<lambda>c. [hex_digits ! (code c div 16), hex_digits ! (code c mod 16)]) src))
    = Some src"
proof (induction src)
  case (Cons c src)
  have "code c div 16 < 16" using code_less [of c] by (simp add: less_mult_imp_div_less)
  moreover have "int (code c div 16) * 16 + int (code c mod 16) = int (code c)"
    by (metis div_mult_mod_eq of_nat_add of_nat_mult of_nat_numeral)
  ultimately show ?case using Cons by (simp add: hex_digit_roundtrip)
qed simp

lemma length_base16_encode:
  "base16_encode n src = Some h \<Longrightarrow> length h = 2 * length src"
  by (auto simp: base16_encode_def length_concat comp_def sum_list_triv split: if_splits)

text \<open>Base 16 decoding undoes encoding: whenever the encoder does not abort on its buffer
  size, decoding its output into any buffer of sufficient size that an \<^verbatim>\<open>int\<close> can
  count returns the source bytes.\<close>

theorem base16_roundtrip:
  assumes "base16_encode n src = Some h" "length src \<le> destlen" "destlen \<le> INT_MAX"
  shows "base16_decode destlen h = Some src"
  using assms length_base16_encode [OF assms(1)]
  by (auto simp: base16_decode_def base16_encode_def base16_decode_loop_encode split: if_splits)

theorem base16_roundtrip_witness:
  "base16_encode 9 ''AZ*1'' = Some ''415A2A31'' \<and> base16_decode 4 ''415A2A31'' = Some ''AZ*1''"
proof -
  have e: "base16_encode 9 ''AZ*1'' = Some ''415A2A31''" by code_simp
  show ?thesis using e base16_roundtrip [OF e, of 4] by (simp add: INT_MAX_def)
qed

lemma hex_digits_not_space: "n < 16 \<Longrightarrow> hex_digits ! n \<noteq> CHR '' ''"
proof -
  have "\<forall>n \<in> set [0..<16]. hex_digits ! n \<noteq> CHR '' '' \<and> hex_digits ! n \<noteq> NL \<and> hex_digits ! n \<noteq> NUL"
    by code_simp
  then show "n < 16 \<Longrightarrow> hex_digits ! n \<noteq> CHR '' ''" by simp
qed

section \<open>Round trip of base 64\<close>

lemma base64_char_roundtrip:
  assumes "n < 64"
  shows "base64_decode_table (base64_encode_table ! n) = Val n"
proof -
  have "map base64_decode_table base64_encode_table = map Val [0..<64]" by code_simp
  then have "map base64_decode_table base64_encode_table ! n = map Val [0..<64] ! n" by (rule arg_cong)
  moreover have "length base64_encode_table = 64" by (simp add: base64_encode_table_def)
  ultimately show ?thesis using assms by simp
qed

lemma base64_class_NL: "base64_decode_table NL = SP" "base64_decode_table CHR ''='' = PAD"
  by (simp_all add: base64_decode_table_def)

text \<open>Whitespace in the input changes nothing, so the line breaks of the multi-line format can
  be left out when decoding.\<close>

lemma base64_decode_loop_NL:
  "base64_decode_loop destlen (filter (\<lambda>c. c \<noteq> NL) src) n k dest = base64_decode_loop destlen src n k dest"
  by (induction destlen src n k dest rule: base64_decode_loop.induct)
     (auto simp: base64_class_NL Let_def split: base64_class.splits)

text \<open>The output of the encoder without its line breaks.\<close>

abbreviation strip_nl :: "string \<Rightarrow> string" where "strip_nl \<equiv> filter (\<lambda>c. c \<noteq> NL)"

definition b64_char :: "nat \<Rightarrow> nat \<Rightarrow> char" where
  "b64_char n idx = base64_encode_table ! (n div 2 ^ ((3 - idx) * 6) mod 64)"

fun b64_plain :: "string \<Rightarrow> string" where
  "b64_plain (a # b # c # r) =
     (let n = (code a * 256 + code b) * 256 + code c
      in [b64_char n 0, b64_char n 1, b64_char n 2, b64_char n 3] @ b64_plain r)"
| "b64_plain [a, b] =
     (let n = (code a * 256 + code b) * 4
      in [b64_char n 1, b64_char n 2, b64_char n 3, CHR ''=''])"
| "b64_plain [a] = (let n = code a * 16 in [b64_char n 2, b64_char n 3, CHR ''='', CHR ''=''])"
| "b64_plain [] = []"

lemma b64_char_decode: "base64_decode_table (b64_char n idx) = Val (n div 2 ^ ((3 - idx) * 6) mod 64)"
  by (simp add: b64_char_def base64_char_roundtrip)

lemma b64_char_not_NL [simp]: "b64_char n idx \<noteq> NL"
  using b64_char_decode [of n idx] base64_class_NL by (metis base64_class.distinct(1))

lemma strip_nl_encode_char:
  "c \<noteq> NL \<Longrightarrow> strip_nl (fst (encode_char ml c st)) = strip_nl (fst st) @ [c]"
  by (auto simp: encode_char_def split: prod.splits)

lemma strip_nl_encode_n:
  "strip_nl (fst (encode_n ml n idx st)) = strip_nl (fst st) @ [b64_char n idx]"
  unfolding encode_n_def b64_char_def [symmetric] by (simp add: strip_nl_encode_char)

lemma base64_encode_strip_nl:
  "base64_encode_loop ml src 0 0 st = (n, k, st') \<Longrightarrow>
    strip_nl (fst (base64_encode_tail ml n k st')) = strip_nl (fst st) @ b64_plain src"
proof (induction src arbitrary: st rule: b64_plain.induct)
  case (1 a b c r)
  from "1.prems" have "base64_encode_loop ml r 0 0 (encode_n ml ((code a * 256 + code b) * 256 + code c) 3
      (encode_n ml ((code a * 256 + code b) * 256 + code c) 2
      (encode_n ml ((code a * 256 + code b) * 256 + code c) 1
      (encode_n ml ((code a * 256 + code b) * 256 + code c) 0 st)))) = (n, k, st')"
    by (simp add: Let_def)
  from "1.IH" [OF refl this] show ?case
    by (simp add: strip_nl_encode_n Let_def)
qed (auto simp: base64_encode_tail_def Let_def strip_nl_encode_n strip_nl_encode_char)

lemma split_bytes3:
  assumes "a < 256" "b < 256" "c < (256::nat)"
  defines "n \<equiv> (a * 256 + b) * 256 + c"
  shows "((n div 2 ^ 18 mod 64 * 64 + n div 2 ^ 12 mod 64) * 64 + n div 2 ^ 6 mod 64) * 64 + n mod 64 = n"
    "n div 2 ^ 16 = a" "n div 2 ^ 8 mod 256 = b" "n mod 256 = c" "n div 2 ^ 18 mod 64 = n div 2 ^ 18"
proof -
  have "n < 2 ^ 24" using assms by (simp add: n_def)
  then have "n div 2 ^ 18 < 64" by (simp add: less_mult_imp_div_less)
  then show top: "n div 2 ^ 18 mod 64 = n div 2 ^ 18" by (rule mod_less)
  have "n div 2 ^ 18 mod 64 = n div 2 ^ 18" by (rule top)
  moreover have "n div 2 ^ 18 * 64 + n div 2 ^ 12 mod 64 = n div 2 ^ 12"
    using div_mult_mod_eq [of "n div 2 ^ 12" 64] by (simp add: div_mult2_eq [symmetric])
  moreover have "n div 2 ^ 12 * 64 + n div 2 ^ 6 mod 64 = n div 2 ^ 6"
    using div_mult_mod_eq [of "n div 2 ^ 6" 64] by (simp add: div_mult2_eq [symmetric])
  moreover have "n div 2 ^ 6 * 64 + n mod 64 = n"
    using div_mult_mod_eq [of n 64] by simp
  ultimately show "((n div 2 ^ 18 mod 64 * 64 + n div 2 ^ 12 mod 64) * 64 + n div 2 ^ 6 mod 64) * 64 + n mod 64 = n"
    by (simp only:)
  have "n mod 256 = c" unfolding n_def using assms(3) by (metis mod_less mod_mult_self3)
  moreover have "n div 2 ^ 8 = a * 256 + b" unfolding n_def using assms(3) by simp
  ultimately show "n div 2 ^ 16 = a" "n div 2 ^ 8 mod 256 = b" "n mod 256 = c"
    using assms by simp_all
qed

lemma base64_decode_plain:
  assumes "length dest + length src \<le> destlen"
  shows "case base64_decode_loop destlen (b64_plain src) 0 0 dest of None \<Rightarrow> False
    | Some (n, k, d) \<Rightarrow> length d + k - 1 \<le> destlen \<and>
        dest @ src = d @ (if k = 2 then [byte_of (n div 2 ^ 4)]
          else if k = 3 then [byte_of (n div 2 ^ 10), byte_of (n div 2 ^ 2)] else [])
        \<and> k \<in> {0, 2, 3}"
  using assms
proof (induction src arbitrary: dest rule: b64_plain.induct)
  case (1 a b c r)
  define n where "n = (code a * 256 + code b) * 256 + code c"
  note sb = split_bytes3 [OF code_less [of a] code_less [of b] code_less [of c], folded n_def]
  have bytes: "byte_of (n div 2 ^ 16) = a" "byte_of (n div 2 ^ 8) = b" "byte_of n = c"
    using sb by (simp_all add: byte_of_def)
  define d0 d1 d2 d3 where d: "d0 = n div 2 ^ 18 mod 64" "d1 = n div 2 ^ 12 mod 64"
    "d2 = n div 2 ^ 6 mod 64" "d3 = n mod 64"
  have chars: "base64_decode_table (b64_char n 0) = Val d0" "base64_decode_table (b64_char n 1) = Val d1"
    "base64_decode_table (b64_char n 2) = Val d2" "base64_decode_table (b64_char n 3) = Val d3"
    by (simp_all add: b64_char_decode d)
  have acc: "((d0 * 64 + d1) * 64 + d2) * 64 + d3 = n" using sb(1) by (simp only: d)
  have "base64_decode_loop destlen (b64_plain (a # b # c # r)) 0 0 dest
      = (if destlen < 3 \<or> length dest > destlen - 3 then None
         else base64_decode_loop destlen (b64_plain r) 0 0
           (dest @ [byte_of (n div 2 ^ 16), byte_of (n div 2 ^ 8), byte_of n]))"
    unfolding b64_plain.simps Let_def n_def [symmetric]
    by (simp add: chars chars [unfolded One_nat_def] acc [simplified])
  also have "\<dots> = base64_decode_loop destlen (b64_plain r) 0 0 (dest @ [a, b, c])"
    using "1.prems" bytes by (auto simp: not_less)
  finally have "base64_decode_loop destlen (b64_plain (a # b # c # r)) 0 0 dest
      = base64_decode_loop destlen (b64_plain r) 0 0 (dest @ [a, b, c])" .
  with "1.IH" [OF refl, of "dest @ [a, b, c]"] "1.prems" show ?case
    by (auto split: option.splits)
next
  case (2 a b)
  define n where "n = (code a * 256 + code b) * 4"
  have "x < 256 \<Longrightarrow> y < 256 \<Longrightarrow> (x * 256 + y) * 4 < 262144" for x y :: nat by simp
  from this [OF code_less [of a] code_less [of b]] have "n < 262144" unfolding n_def .
  then have lt: "n < 2 ^ 18" by simp
  then have top: "n div 2 ^ 12 < 64" by (simp add: less_mult_imp_div_less)
  have acc: "((0 * 64 + n div 2 ^ 12 mod 64) * 64 + n div 2 ^ 6 mod 64) * 64 + n mod 64 = n"
  proof -
    have "n div 2 ^ 12 mod 64 = n div 2 ^ 12" using top by (rule mod_less)
    moreover have "n div 2 ^ 12 * 64 + n div 2 ^ 6 mod 64 = n div 2 ^ 6"
      using div_mult_mod_eq [of "n div 2 ^ 6" 64] by (simp add: div_mult2_eq [symmetric])
    moreover have "n div 2 ^ 6 * 64 + n mod 64 = n" using div_mult_mod_eq [of n 64] by simp
    ultimately show ?thesis by simp
  qed
  have "n div 2 ^ 2 = code a * 256 + code b" by (simp add: n_def)
  moreover have "n div 2 ^ 10 = (code a * 256 + code b) div 256"
    using div_mult2_eq [of n "2 ^ 2" "2 ^ 8"] calculation by simp
  ultimately have "byte_of (n div 2 ^ 10) = a" "byte_of (n div 2 ^ 2) = b"
    using code_less [of a] code_less [of b] by (simp_all add: byte_of_def)
  then show ?case using "2.prems" acc top unfolding b64_plain.simps Let_def n_def [symmetric]
    by (simp add: b64_char_decode base64_class_NL)
next
  case (3 a)
  define n where "n = code a * 16"
  have lt: "n < 2 ^ 12" using code_less [of a] unfolding n_def by simp
  then have "n div 2 ^ 6 < 64" by (simp add: less_mult_imp_div_less)
  then have "n div 2 ^ 6 mod 64 = n div 2 ^ 6" by (rule mod_less)
  then have acc: "(0 * 64 + n div 2 ^ 6 mod 64) * 64 + n mod 64 = n"
    using div_mult_mod_eq [of n 64] by simp
  have "byte_of (n div 2 ^ 4) = a" by (simp add: n_def byte_of_def)
  then show ?case using "3.prems" acc unfolding b64_plain.simps Let_def n_def [symmetric]
    by (simp add: b64_char_decode base64_class_NL)
qed simp

text \<open>Base 64 decoding undoes encoding, in the single-line and in the multi-line format:
  whenever the encoder returns a string, decoding it into any buffer that has room for the
  source returns the source bytes.\<close>

theorem base64_roundtrip:
  assumes "base64_encode n src ml = Returns e" "length src \<le> destlen" "destlen \<le> INT_MAX"
  shows "base64_decode destlen e = Some src"
proof -
  obtain n0 k0 st0 where loop: "base64_encode_loop ml src 0 0 ([], 0) = (n0, k0, st0)"
    by (cases "base64_encode_loop ml src 0 0 ([], 0)") auto
  from assms(1) loop have "strip_nl e = strip_nl (fst (base64_encode_tail ml n0 k0 st0))"
    by (auto simp: base64_encode_def Let_def split: option.splits if_splits prod.splits)
  also have "\<dots> = b64_plain src" using base64_encode_strip_nl [OF loop] by simp
  finally have strip: "strip_nl e = b64_plain src" .
  have "base64_decode_loop destlen e 0 0 [] = base64_decode_loop destlen (b64_plain src) 0 0 []"
    using base64_decode_loop_NL [of destlen e 0 0 "[]"] strip by simp
  moreover obtain m k d where m: "base64_decode_loop destlen (b64_plain src) 0 0 [] = Some (m, k, d)"
    "src = d @ (if k = 2 then [byte_of (m div 2 ^ 4)]
       else if k = 3 then [byte_of (m div 2 ^ 10), byte_of (m div 2 ^ 2)] else [])" "k \<in> {0, 2, 3}"
    using base64_decode_plain [of "[]" src destlen] assms(2) by (auto split: option.splits)
  moreover have "length d + (if k = 2 then 1 else if k = 3 then 2 else 0) \<le> destlen"
    using arg_cong [OF m(2), of length] assms(2) by (auto split: if_splits)
  ultimately show ?thesis using assms(3)
    by (cases "k = 2"; cases "k = 3") (auto simp: base64_decode_def)
qed

theorem base64_roundtrip_witness:
  "base64_encode 10 ''Tor!'' True = Returns (''VG9yIQ=='' @ [NL])
    \<and> base64_decode 4 (''VG9yIQ=='' @ [NL]) = Some ''Tor!''"
proof -
  have e: "base64_encode 10 ''Tor!'' True = Returns (''VG9yIQ=='' @ [NL])" by code_simp
  show ?thesis using e base64_roundtrip [OF e, of 4] by (simp add: INT_MAX_def)
qed

end
