(* ===== verification/ConsDiffLines.thy ===== *)
theory ConsDiffLines
  imports Binascii
begin

text \<open>
  The data of consensus diffs, \<^verbatim>\<open>src/feature/dircommon/consdiff.c\<close>: lines, the splitting
  of a document into lines and back, and the router entries that the generator synchronises
  on. A \<^verbatim>\<open>cdline_t\<close> is the string of the characters it refers to; a NULL \<open>s\<close> (which only
  the router iterators hold) is \<^const>\<open>None\<close>. A document is the byte string \<open>s\<close> of the
  given length, NUL bytes included.
\<close>

type_synonym cdline = string

definition ns_diff_version :: string where "ns_diff_version = ''network-status-diff-version 1''"
definition hash_token :: string where "hash_token = ''hash''"

section \<open>Lines\<close>

definition lines_eq :: "cdline \<Rightarrow> cdline \<Rightarrow> bool" where
  "lines_eq a b \<longleftrightarrow> length a = length b \<and> a = b"

definition line_str_eq :: "cdline \<Rightarrow> string \<Rightarrow> bool" where
  "line_str_eq a b \<longleftrightarrow> lines_eq a b"

definition line_starts_with_str :: "cdline \<Rightarrow> string \<Rightarrow> bool" where
  "line_starts_with_str a b \<longleftrightarrow> length a \<ge> length b \<and> take (length b) a = b"

definition CONSENSUS_LINE_MAX_LEN :: nat where "CONSENSUS_LINE_MAX_LEN = 2 ^ 20"

text \<open>The lines are added to \<open>out\<close>; the function adds nothing that its callers use when it
  fails.\<close>

function consensus_split_lines :: "cdline list \<Rightarrow> string \<Rightarrow> nat \<Rightarrow> cdline list option" where
  "consensus_split_lines out s max_lines =
    (if s = [] then Some out
     else let line = takeWhile (\<lambda>c. c \<noteq> NL) s; eol = dropWhile (\<lambda>c. c \<noteq> NL) s
     in if eol = [] then None
        else if length line > CONSENSUS_LINE_MAX_LEN then None
        else if length out \<ge> max_lines then None
        else consensus_split_lines (out @ [line]) (tl eol) max_lines)"
  by pat_completeness auto
termination
proof (relation "measure (\<lambda>(out, s, m). length s)")
  fix out m and s line eol :: string
  assume eol: "eol = dropWhile (\<lambda>c. c \<noteq> NL) s" "eol \<noteq> []"
  have "length eol \<le> length s" unfolding eol(1) by (rule length_dropWhile_le)
  with eol(2) have "length (tl eol) < length s" by (cases eol) auto
  then show "((out @ [line], tl eol, m), out, s, m) \<in> measure (\<lambda>(out, s, m). length s)" by simp
qed simp

declare consensus_split_lines.simps [simp del]

definition consensus_join_lines :: "cdline list \<Rightarrow> string" where
  "consensus_join_lines inp = concat (map (\<lambda>l. l @ [NL]) inp)"

section \<open>Router entries\<close>

definition NOT_VALID_BASE64 :: nat where "NOT_VALID_BASE64 = 255"

definition base64_compare_table :: "char \<Rightarrow> nat" where
  "base64_compare_table ch =
    (let c = code ch in
     if c = 43 then 62
     else if c = 47 then 63
     else if 48 \<le> c \<and> c \<le> 57 then c + 4
     else if 65 \<le> c \<and> c \<le> 90 then c - 65
     else if 97 \<le> c \<and> c \<le> 122 then c - 71
     else NOT_VALID_BASE64)"

definition get_id_hash :: "cdline \<Rightarrow> cdline option" where
  "get_id_hash line =
    (if length line < 2 then None
     else case dropWhile (\<lambda>c. c \<noteq> CHR '' '') (drop 2 line) of
       [] \<Rightarrow> None
     | _ # hash \<Rightarrow>
       let h = takeWhile (\<lambda>c. base64_compare_table c \<noteq> NOT_VALID_BASE64) hash
       in if h = [] then None else Some h)"

definition is_valid_router_entry :: "cdline \<Rightarrow> bool" where
  "is_valid_router_entry line \<longleftrightarrow>
    \<not> (length line < 2 \<or> take 2 line \<noteq> ''r '') \<and> get_id_hash line \<noteq> None"

text \<open>\<^const>\<open>None\<close> is the failed assertion on \<open>cur\<close>. The loop passes the lines that are no
  router entries.\<close>

definition next_router :: "cdline list \<Rightarrow> int \<Rightarrow> int option" where
  "next_router cons cur =
    (if \<not> (cur \<ge> - 1 \<and> cur < int (length cons)) then None
     else let cur = nat (cur + 1)
          in Some (int (cur + length (takeWhile (\<lambda>l. \<not> is_valid_router_entry l) (drop cur cons)))))"

text \<open>The comparison loop on two nonempty hashes; it stops at the end of a hash before it
  reads past it, so the last equation is never reached from \<open>base64cmp\<close> on the hashes that
  \<^const>\<open>get_id_hash\<close> returns.\<close>

fun base64cmp_loop :: "string \<Rightarrow> string \<Rightarrow> int" where
  "base64cmp_loop (a # as) (b # bs) =
    (let av = base64_compare_table a; bv = base64_compare_table b in
     if av = NOT_VALID_BASE64 then (if bv = NOT_VALID_BASE64 then 0 else - 1)
     else if bv = NOT_VALID_BASE64 then 1
     else if av < bv then - 1
     else if av > bv then 1
     else if as = [] then (if bs = [] then 0 else - 1)
     else if bs = [] then 1
     else base64cmp_loop as bs)"
| "base64cmp_loop _ _ = 0"

definition base64cmp :: "cdline option \<Rightarrow> cdline option \<Rightarrow> int" where
  "base64cmp hash1 hash2 =
    (case (hash1, hash2) of
       (None, None) \<Rightarrow> 0
     | (None, Some _) \<Rightarrow> - 1
     | (Some _, None) \<Rightarrow> 1
     | (Some a, Some b) \<Rightarrow> base64cmp_loop a b)"

record router_id_iterator =
  last_hash :: "cdline option"
  hash :: "cdline option"

definition ROUTER_ID_ITERATOR_INIT :: router_id_iterator where
  "ROUTER_ID_ITERATOR_INIT = \<lparr>last_hash = None, hash = None\<rparr>"

definition find_next_router_line :: "cdline list \<Rightarrow> int \<Rightarrow> router_id_iterator
    \<Rightarrow> (int \<times> router_id_iterator) assertable" where
  "find_next_router_line cons idx iter =
    and_then (assert_some (next_router cons idx)) (\<lambda>idx.
      if idx < int (length cons) then
        let iter = iter\<lparr>last_hash := hash iter\<rparr>
        in case get_id_hash (cons ! nat idx) of
             None \<Rightarrow> Fails
           | Some h \<Rightarrow>
             let iter = iter\<lparr>hash := Some h\<rparr>
             in if base64cmp (hash iter) (last_hash iter) \<le> 0 then Fails else Returns (idx, iter)
      else Returns (idx, iter))"

section \<open>Splitting and joining\<close>

lemma consensus_split_lines_append:
  assumes "consensus_split_lines out s n = Some ls"
  shows "\<exists>new. ls = out @ new \<and> s = consensus_join_lines new \<and> list_all (\<lambda>l. NL \<notin> set l) new
    \<and> (length ls \<le> n \<or> new = []) \<and> list_all (\<lambda>l. length l \<le> CONSENSUS_LINE_MAX_LEN) new"
  using assms
proof (induction out s n rule: consensus_split_lines.induct)
  case (1 out s n)
  show ?case
  proof (cases "s = []")
    case False
    define line eol where le: "line = takeWhile (\<lambda>c. c \<noteq> NL) s" "eol = dropWhile (\<lambda>c. c \<noteq> NL) s"
    have "consensus_split_lines out s n =
      (if eol = [] then None else if length line > CONSENSUS_LINE_MAX_LEN then None
       else if length out \<ge> n then None else consensus_split_lines (out @ [line]) (tl eol) n)"
      using False unfolding le by (subst consensus_split_lines.simps) (simp only: Let_def if_False)
    with "1.prems" have c: "eol \<noteq> []" "\<not> length line > CONSENSUS_LINE_MAX_LEN"
      "\<not> length out \<ge> n" "consensus_split_lines (out @ [line]) (tl eol) n = Some ls"
      by (simp_all split: if_splits)
    from "1.IH" [OF False le c] obtain new where new: "ls = (out @ [line]) @ new"
      "tl eol = consensus_join_lines new" "list_all (\<lambda>l. NL \<notin> set l) new"
      "length ls \<le> n \<or> new = []" "list_all (\<lambda>l. length l \<le> CONSENSUS_LINE_MAX_LEN) new" by blast
    have "s = line @ eol" by (simp add: le)
    moreover have "eol = NL # tl eol"
      using hd_dropWhile [of "\<lambda>c. c \<noteq> NL" s] c(1) unfolding le(2) [symmetric] by (cases eol) auto
    ultimately have "s = consensus_join_lines (line # new)"
      using new(2) by (simp add: consensus_join_lines_def)
    moreover have "NL \<notin> set line" unfolding le by (auto dest: set_takeWhileD)
    moreover have "length ls \<le> n" using new(1,4) c(3) by auto
    ultimately show ?thesis using new(1,3,5) c(2) by (intro exI [of _ "line # new"]) auto
  qed (use "1.prems" in \<open>simp add: consensus_split_lines.simps consensus_join_lines_def\<close>)
qed

lemma consensus_split_lines_join:
  assumes "list_all (\<lambda>l. NL \<notin> set l) ls" "list_all (\<lambda>l. length l \<le> CONSENSUS_LINE_MAX_LEN) ls"
    "length out + length ls \<le> n"
  shows "consensus_split_lines out (consensus_join_lines ls) n = Some (out @ ls)"
  using assms
proof (induction ls arbitrary: out)
  case Nil
  then show ?case by (simp add: consensus_join_lines_def consensus_split_lines.simps)
next
  case (Cons l ls)
  have "takeWhile (\<lambda>c. c \<noteq> NL) (l @ [NL] @ r) = l" "dropWhile (\<lambda>c. c \<noteq> NL) (l @ [NL] @ r) = NL # r"
    for r using Cons.prems(1) by (auto simp: takeWhile_append dropWhile_append)
  note tw = this [of "consensus_join_lines ls"]
  have j: "consensus_join_lines (l # ls) = l @ [NL] @ consensus_join_lines ls"
    by (simp add: consensus_join_lines_def)
  show ?case
    unfolding j using Cons.IH [of "out @ [l]"] Cons.prems
    by (subst consensus_split_lines.simps) (simp add: tw [simplified])
qed

lemma filter_NL_join:
  "list_all (\<lambda>l. NL \<notin> set l) ls \<Longrightarrow> length (filter (\<lambda>c. c = NL) (consensus_join_lines ls)) = length ls"
proof (induction ls)
  case (Cons l ls)
  have "filter (\<lambda>c. c = NL) l = []" using Cons.prems by (auto simp: filter_empty_conv)
  then show ?case using Cons by (simp add: consensus_join_lines_def)
qed (simp add: consensus_join_lines_def)

section \<open>Order of the router hashes\<close>

lemma next_router_advances:
  assumes "next_router cons cur = Some k"
  shows "cur < k" "k \<le> int (length cons)" "0 \<le> k"
    "k < int (length cons) \<Longrightarrow> is_valid_router_entry (cons ! nat k)"
proof -
  define t where "t = takeWhile (\<lambda>l. \<not> is_valid_router_entry l) (drop (nat (cur + 1)) cons)"
  have c: "- 1 \<le> cur" "cur < int (length cons)" "k = int (nat (cur + 1) + length t)"
    using assms by (auto simp: next_router_def t_def Let_def split: if_splits)
  have t: "length t \<le> length cons - nat (cur + 1)"
    unfolding t_def by (metis length_drop length_takeWhile_le)
  show "cur < k" "k \<le> int (length cons)" "0 \<le> k" using c t by auto
  assume "k < int (length cons)"
  then have "length t < length (drop (nat (cur + 1)) cons)" using c by simp
  moreover have "nat k = nat (cur + 1) + length t" using c by simp
  ultimately show "is_valid_router_entry (cons ! nat k)"
    using nth_length_takeWhile [of "\<lambda>l. \<not> is_valid_router_entry l" "drop (nat (cur + 1)) cons"]
    by (simp add: t_def [symmetric])
qed

lemma find_next_router_line_advances:
  assumes "find_next_router_line cons idx iter = Returns (k, iter')"
  shows "idx < k" "k \<le> int (length cons)" "0 \<le> k"
  using assms next_router_advances [of cons idx]
  by (auto simp: find_next_router_line_def and_then_Returns_iff Let_def split: if_splits option.splits)

lemma find_next_router_line_no_abort:
  "- 1 \<le> idx \<Longrightarrow> idx < int (length cons) \<Longrightarrow> find_next_router_line cons idx iter \<noteq> Aborts"
  by (auto simp: find_next_router_line_def next_router_def Let_def and_then_Aborts_iff
      split: option.splits)

end
