(* ===== verification/ConsDiffGen.thy ===== *)
theory ConsDiffGen
  imports ConsDiffLines
begin

text \<open>
  The generator of consensus diffs, \<^verbatim>\<open>src/feature/dircommon/consdiff.c\<close>: slices, the
  computation of the changed lines of two slices (\<^verbatim>\<open>calc_changes\<close>), the scan that walks
  through both consensuses router by router and the loop that writes the ed commands
  (\<^verbatim>\<open>gen_ed_diff\<close>). A bit array is a list of booleans of its length. The lists are shorter
  than \<open>2 ^ 31\<close>, as the \<^verbatim>\<open>int\<close> length of a \<^verbatim>\<open>smartlist_t\<close> is, so the
  \<^verbatim>\<open>int\<close> indices do not wrap.
\<close>

section \<open>Slices\<close>

record smartlist_slice =
  sl_list :: "cdline list"
  sl_offset :: nat
  sl_len :: nat

definition smartlist_slice :: "cdline list \<Rightarrow> int \<Rightarrow> int \<Rightarrow> smartlist_slice option" where
  "smartlist_slice list start end =
    (if \<not> start \<ge> 0 \<or> \<not> start \<le> int (length list) then None
     else let end = (if end = - 1 then int (length list) else end)
          in if \<not> start \<le> end then None
             else Some \<lparr>sl_list = list, sl_offset = nat start, sl_len = nat (end - start)\<rparr>)"

text \<open>The line that the index \<open>si\<close> reaches after \<open>k\<close> steps in a direction, and the inner loop
  of \<^verbatim>\<open>lcs_lengths\<close>, whose \<open>result\<close> starts as the copy \<open>prev\<close> of the last row.\<close>

definition slice_line :: "smartlist_slice \<Rightarrow> int \<Rightarrow> nat \<Rightarrow> cdline" where
  "slice_line s direction k =
    sl_list s ! (if direction = - 1 then sl_offset s + (sl_len s - 1) - k else sl_offset s + k)"

definition lcs_row :: "smartlist_slice \<Rightarrow> int \<Rightarrow> cdline \<Rightarrow> nat list \<Rightarrow> nat list" where
  "lcs_row sl2 direction line1 prev =
    fold (\<lambda>j result.
        result[j + 1 := (if lines_eq line1 (slice_line sl2 direction j) then prev ! j + 1
                         else max (result ! j) (prev ! (j + 1)))])
      [0..<sl_len sl2] prev"

definition lcs_lengths :: "smartlist_slice \<Rightarrow> smartlist_slice \<Rightarrow> int \<Rightarrow> nat list option" where
  "lcs_lengths sl1 sl2 direction =
    (if \<not> (direction = 1 \<or> direction = - 1) then None
     else Some (fold (\<lambda>i result. lcs_row sl2 direction (slice_line sl1 direction i) result)
                  [0..<sl_len sl1] (replicate (sl_len sl2 + 1) 0)))"

definition first_line :: "smartlist_slice \<Rightarrow> cdline" where
  "first_line s = sl_list s ! sl_offset s"

definition last_line :: "smartlist_slice \<Rightarrow> cdline" where
  "last_line s = sl_list s ! (sl_offset s + sl_len s - 1)"

definition drop_first :: "smartlist_slice \<Rightarrow> smartlist_slice" where
  "drop_first s = s\<lparr>sl_offset := sl_offset s + 1, sl_len := sl_len s - 1\<rparr>"

definition drop_last :: "smartlist_slice \<Rightarrow> smartlist_slice" where
  "drop_last s = s\<lparr>sl_len := sl_len s - 1\<rparr>"

text \<open>The two loops of \<^verbatim>\<open>trim_slices\<close>.\<close>

function trim_start :: "smartlist_slice \<Rightarrow> smartlist_slice \<Rightarrow> smartlist_slice \<times> smartlist_slice" where
  "trim_start s1 s2 =
    (if sl_len s1 > 0 \<and> sl_len s2 > 0 \<and> lines_eq (first_line s1) (first_line s2)
     then trim_start (drop_first s1) (drop_first s2) else (s1, s2))"
  by pat_completeness auto
termination by (relation "measure (\<lambda>(s1, s2). sl_len s1)") (auto simp: drop_first_def)

function trim_end :: "smartlist_slice \<Rightarrow> smartlist_slice \<Rightarrow> smartlist_slice \<times> smartlist_slice" where
  "trim_end s1 s2 =
    (if sl_len s1 > 0 \<and> sl_len s2 > 0 \<and> lines_eq (last_line s1) (last_line s2)
     then trim_end (drop_last s1) (drop_last s2) else (s1, s2))"
  by pat_completeness auto
termination by (relation "measure (\<lambda>(s1, s2). sl_len s1)") (auto simp: drop_last_def)

declare trim_start.simps [simp del] trim_end.simps [simp del]

definition trim_slices :: "smartlist_slice \<Rightarrow> smartlist_slice \<Rightarrow> smartlist_slice \<times> smartlist_slice" where
  "trim_slices s1 s2 = (let (s1, s2) = trim_start s1 s2 in trim_end s1 s2)"

definition smartlist_slice_string_pos :: "smartlist_slice \<Rightarrow> cdline \<Rightarrow> int" where
  "smartlist_slice_string_pos sl string =
    (case filter (\<lambda>i. lines_eq (sl_list sl ! i) string) [sl_offset sl..<sl_offset sl + sl_len sl] of
       [] \<Rightarrow> - 1 | i # _ \<Rightarrow> int i)"

section \<open>Changed lines\<close>

type_synonym bitarray = "bool list"

definition bitarray_set :: "bitarray \<Rightarrow> nat \<Rightarrow> bitarray" where
  "bitarray_set b i = b[i := True]"

definition set_changed :: "bitarray \<Rightarrow> bitarray \<Rightarrow> smartlist_slice \<Rightarrow> smartlist_slice
    \<Rightarrow> (bitarray \<times> bitarray) option" where
  "set_changed changed1 changed2 sl1 sl2 =
    (if \<not> (sl_len sl1 = 0 \<or> sl_len sl1 = 1) then None
     else let toskip = (if sl_len sl1 = 1 then smartlist_slice_string_pos sl2 (first_line sl1) else - 1);
              changed1 = (if sl_len sl1 = 1 \<and> toskip = - 1 then bitarray_set changed1 (sl_offset sl1)
                          else changed1);
              changed2 = fold (\<lambda>i ch. if int i \<noteq> toskip then bitarray_set ch i else ch)
                [sl_offset sl2..<sl_offset sl2 + sl_len sl2] changed2
          in Some (changed1, changed2))"

text \<open>The loop keeps the first column of the largest sum, from \<open>column = 0\<close> and
  \<open>max_sum = -1\<close>.\<close>

definition optimal_column_to_split :: "smartlist_slice \<Rightarrow> smartlist_slice \<Rightarrow> smartlist_slice \<Rightarrow> nat option" where
  "optimal_column_to_split tops bots sl2 =
    (case (lcs_lengths tops sl2 1, lcs_lengths bots sl2 (- 1)) of
       (Some lens_top, Some lens_bot) \<Rightarrow>
         Some (fst (fold (\<lambda>i (column, max_sum).
             let sum = int (lens_top ! i + lens_bot ! (sl_len sl2 - i))
             in if sum > max_sum then (i, sum) else (column, max_sum))
           [0..<sl_len sl2 + 1] (0, - 1)))
     | _ \<Rightarrow> None)"

lemma trim_start_len: "trim_start s1 s2 = (t1, t2) \<Longrightarrow> sl_len t1 \<le> sl_len s1"
  by (induction s1 s2 rule: trim_start.induct)
    (subst (asm) (2) trim_start.simps, auto simp: drop_first_def split: if_splits)

lemma trim_end_len: "trim_end s1 s2 = (t1, t2) \<Longrightarrow> sl_len t1 \<le> sl_len s1"
  by (induction s1 s2 rule: trim_end.induct)
    (subst (asm) (2) trim_end.simps, auto simp: drop_last_def split: if_splits)

lemma trim_slices_len: "trim_slices s1 s2 = (t1, t2) \<Longrightarrow> sl_len t1 \<le> sl_len s1"
  by (auto simp: trim_slices_def split: prod.splits dest!: trim_start_len trim_end_len)

lemma smartlist_slice_len:
  "smartlist_slice l a b = Some s \<Longrightarrow> b \<noteq> - 1 \<Longrightarrow> sl_len s = nat (b - a)"
  by (auto simp: smartlist_slice_def Let_def split: if_splits)

function calc_changes :: "smartlist_slice \<Rightarrow> smartlist_slice \<Rightarrow> bitarray \<Rightarrow> bitarray
    \<Rightarrow> (bitarray \<times> bitarray) option" where
  "calc_changes s1 s2 changed1 changed2 =
    (case trim_slices s1 s2 of (sl1, sl2) \<Rightarrow>
     if sl_len sl1 \<le> 1 then set_changed changed1 changed2 sl1 sl2
     else if sl_len sl2 \<le> 1 then
       map_option prod.swap (set_changed changed2 changed1 sl2 sl1)
     else
       let mid = sl_len sl1 div 2; o1 = int (sl_offset sl1); o2 = int (sl_offset sl2) in
       case smartlist_slice (sl_list sl1) o1 (o1 + int mid) of None \<Rightarrow> None | Some tops \<Rightarrow>
       case smartlist_slice (sl_list sl1) (o1 + int mid) (o1 + int (sl_len sl1)) of
         None \<Rightarrow> None | Some bots \<Rightarrow>
       case optimal_column_to_split tops bots sl2 of None \<Rightarrow> None | Some mid2 \<Rightarrow>
       case smartlist_slice (sl_list sl2) o2 (o2 + int mid2) of None \<Rightarrow> None | Some left \<Rightarrow>
       case smartlist_slice (sl_list sl2) (o2 + int mid2) (o2 + int (sl_len sl2)) of
         None \<Rightarrow> None | Some right \<Rightarrow>
       case calc_changes tops left changed1 changed2 of None \<Rightarrow> None | Some (changed1, changed2) \<Rightarrow>
       calc_changes bots right changed1 changed2)"
  by pat_completeness auto
termination
  by (relation "measure (\<lambda>(s1, s2, c1, c2). sl_len s1)")
    (auto dest!: smartlist_slice_len trim_slices_len [OF sym])

declare calc_changes.simps [simp del]

section \<open>Generating the ed script\<close>

definition START_OF_SIGNATURES_SECTION :: string where
  "START_OF_SIGNATURES_SECTION = ''directory-signature ''"

text \<open>The consensus without its signatures, and the delete command if there were any.\<close>

definition preprocess_consensus :: "cdline list \<Rightarrow> cdline list \<times> cdline option" where
  "preprocess_consensus cons =
    (let dirsig_idx = length (takeWhile (\<lambda>l. \<not> line_starts_with_str l START_OF_SIGNATURES_SECTION) cons)
     in if dirsig_idx < length cons
        then (take dirsig_idx cons, Some (show_nat (dirsig_idx + 1) @ '',$d''))
        else (cons, None))"

text \<open>The inner loop of the scan: advance the lower router until both iterators agree or one
  document ends.\<close>

function gen_sync :: "cdline list \<Rightarrow> cdline list \<Rightarrow> int \<Rightarrow> int \<Rightarrow> router_id_iterator \<Rightarrow> router_id_iterator
    \<Rightarrow> (int \<times> int \<times> router_id_iterator \<times> router_id_iterator) assertable" where
  "gen_sync cons1 cons2 i1 i2 iter1 iter2 =
    (let cmp = base64cmp (hash iter1) (hash iter2);
         len1 = int (length cons1); len2 = int (length cons2) in
     if cmp = 0 then Returns (i1, i2, iter1, iter2)
     else if i1 < len1 \<and> cmp < 0 then
       and_then (find_next_router_line cons1 i1 iter1) (\<lambda>(i1, iter1).
         if i1 = len1 then Returns (i1, len2, iter1, iter2)
         else gen_sync cons1 cons2 i1 i2 iter1 iter2)
     else if i2 < len2 \<and> cmp > 0 then
       and_then (find_next_router_line cons2 i2 iter2) (\<lambda>(i2, iter2).
         if i2 = len2 then Returns (len1, i2, iter1, iter2)
         else gen_sync cons1 cons2 i1 i2 iter1 iter2)
     else Returns (len1, len2, iter1, iter2))"
  by pat_completeness auto
termination
  by (relation "measure (\<lambda>(c1, c2, i1, i2, it1, it2). nat (int (length c1) - i1) + nat (int (length c2) - i2))")
    (auto dest: find_next_router_line_advances)

declare gen_sync.simps [simp del]

lemma gen_sync_advances:
  "gen_sync c1 c2 i1 i2 it1 it2 = Returns (k1, k2, jt1, jt2) \<Longrightarrow>
    min i1 (int (length c1)) \<le> k1 \<and> (i1 \<le> int (length c1) \<longrightarrow> k1 \<le> int (length c1)) \<and>
    min i2 (int (length c2)) \<le> k2 \<and> (i2 \<le> int (length c2) \<longrightarrow> k2 \<le> int (length c2))"
proof (induction c1 c2 i1 i2 it1 it2 rule: gen_sync.induct)
  case (1 c1 c2 i1 i2 it1 it2)
  let ?cmp = "base64cmp (hash it1) (hash it2)"
  consider (eq) "?cmp = 0" | (lt) "?cmp \<noteq> 0" "i1 < int (length c1) \<and> ?cmp < 0"
    | (gt) "?cmp \<noteq> 0" "\<not> (i1 < int (length c1) \<and> ?cmp < 0)" "i2 < int (length c2) \<and> ?cmp > 0"
    | (stuck) "?cmp \<noteq> 0" "\<not> (i1 < int (length c1) \<and> ?cmp < 0)" "\<not> (i2 < int (length c2) \<and> ?cmp > 0)"
    by blast
  then show ?case
  proof cases
    case lt
    from "1.prems"(1) lt obtain m jt where f: "find_next_router_line c1 i1 it1 = Returns (m, jt)"
      "(if m = int (length c1) then Returns (m, int (length c2), jt, it2) else gen_sync c1 c2 m i2 jt it2)
        = Returns (k1, k2, jt1, jt2)"
      by (subst (asm) gen_sync.simps) (auto simp: Let_def and_then_Returns_iff)
    from "1.IH"(1) [OF refl refl refl lt f(1) refl] find_next_router_line_advances [OF f(1)] f(2)
      "1.prems" show ?thesis by (auto split: if_splits)
  next
    case gt
    from "1.prems"(1) gt obtain m jt where f: "find_next_router_line c2 i2 it2 = Returns (m, jt)"
      "(if m = int (length c2) then Returns (int (length c1), m, it1, jt) else gen_sync c1 c2 i1 m it1 jt)
        = Returns (k1, k2, jt1, jt2)"
      by (subst (asm) gen_sync.simps) (auto simp: Let_def and_then_Returns_iff)
    from "1.IH"(2) [OF refl refl refl gt f(1) refl] find_next_router_line_advances [OF f(1)] f(2)
      "1.prems" show ?thesis by (auto split: if_splits)
  qed (use "1.prems" in \<open>auto simp: gen_sync.simps Let_def\<close>)
qed

definition MAX_LINE_COUNT :: int where "MAX_LINE_COUNT = 10000"

record gen_scan_state =
  g_i1 :: int
  g_i2 :: int
  g_start1 :: int
  g_start2 :: int
  g_iter1 :: router_id_iterator
  g_iter2 :: router_id_iterator
  g_changed1 :: bitarray
  g_changed2 :: bitarray

text \<open>The end of one turn of the outer loop, which computes the changes of the chunk up to
  \<open>i1\<close> and \<open>i2\<close>, and the whole turn.\<close>

definition gen_chunk :: "cdline list \<Rightarrow> cdline list \<Rightarrow> gen_scan_state \<Rightarrow> int \<Rightarrow> int \<Rightarrow> router_id_iterator
    \<Rightarrow> router_id_iterator \<Rightarrow> gen_scan_state assertable" where
  "gen_chunk cons1 cons2 st i1 i2 iter1 iter2 =
    (if i1 - g_start1 st > MAX_LINE_COUNT \<or> i2 - g_start2 st > MAX_LINE_COUNT then Fails
     else
       and_then (assert_some (smartlist_slice cons1 (g_start1 st) i1)) (\<lambda>cons1_sl.
       and_then (assert_some (smartlist_slice cons2 (g_start2 st) i2)) (\<lambda>cons2_sl.
       and_then (assert_some (calc_changes cons1_sl cons2_sl (g_changed1 st) (g_changed2 st)))
         (\<lambda>(changed1, changed2).
       Returns \<lparr>g_i1 = i1, g_i2 = i2, g_start1 = i1, g_start2 = i2, g_iter1 = iter1, g_iter2 = iter2,
                g_changed1 = changed1, g_changed2 = changed2\<rparr>))))"

definition gen_scan_step :: "cdline list \<Rightarrow> cdline list \<Rightarrow> gen_scan_state \<Rightarrow> gen_scan_state assertable" where
  "gen_scan_step cons1 cons2 st =
    (let len1 = int (length cons1); len2 = int (length cons2) in
     and_then (if g_i1 st < len1 then find_next_router_line cons1 (g_i1 st) (g_iter1 st)
               else Returns (g_i1 st, g_iter1 st)) (\<lambda>(i1, iter1).
     and_then (if g_i2 st < len2 then find_next_router_line cons2 (g_i2 st) (g_iter2 st)
               else Returns (g_i2 st, g_iter2 st)) (\<lambda>(i2, iter2).
     and_then (if i1 < len1 \<or> i2 < len2 then gen_sync cons1 cons2 i1 i2 iter1 iter2
               else Returns (i1, i2, iter1, iter2)) (\<lambda>(i1, i2, iter1, iter2).
     gen_chunk cons1 cons2 st i1 i2 iter1 iter2))))"

lemma gen_scan_stepE:
  assumes "gen_scan_step c1 c2 st = Returns st'"
  obtains i1 it1 i2 it2 k1 k2 jt1 jt2 where
    "(if g_i1 st < int (length c1) then find_next_router_line c1 (g_i1 st) (g_iter1 st)
      else Returns (g_i1 st, g_iter1 st)) = Returns (i1, it1)"
    "(if g_i2 st < int (length c2) then find_next_router_line c2 (g_i2 st) (g_iter2 st)
      else Returns (g_i2 st, g_iter2 st)) = Returns (i2, it2)"
    "(if i1 < int (length c1) \<or> i2 < int (length c2) then gen_sync c1 c2 i1 i2 it1 it2
      else Returns (i1, i2, it1, it2)) = Returns (k1, k2, jt1, jt2)"
    "gen_chunk c1 c2 st k1 k2 jt1 jt2 = Returns st'"
  using assms [unfolded gen_scan_step_def Let_def Returns_iffs]
  by (elim exE conjE) (erule that, assumption+)

lemma gen_chunk_position:
  "gen_chunk c1 c2 st k1 k2 jt1 jt2 = Returns st' \<Longrightarrow> g_i1 st' = k1 \<and> g_i2 st' = k2"
  by (auto simp: gen_chunk_def and_then_Returns_iff split: if_splits)

lemma gen_scan_step_advances:
  assumes "gen_scan_step c1 c2 st = Returns st'"
  shows "min (g_i1 st) (int (length c1)) \<le> g_i1 st'" "min (g_i2 st) (int (length c2)) \<le> g_i2 st'"
    "g_i1 st < int (length c1) \<Longrightarrow> g_i1 st < g_i1 st'" "g_i2 st < int (length c2) \<Longrightarrow> g_i2 st < g_i2 st'"
    "g_i1 st \<le> int (length c1) \<Longrightarrow> g_i1 st' \<le> int (length c1)"
    "g_i2 st \<le> int (length c2) \<Longrightarrow> g_i2 st' \<le> int (length c2)"
proof -
  from assms(1) obtain i1 it1 i2 it2 k1 k2 jt1 jt2 where
    a: "(if g_i1 st < int (length c1) then find_next_router_line c1 (g_i1 st) (g_iter1 st)
         else Returns (g_i1 st, g_iter1 st)) = Returns (i1, it1)"
    and b: "(if g_i2 st < int (length c2) then find_next_router_line c2 (g_i2 st) (g_iter2 st)
         else Returns (g_i2 st, g_iter2 st)) = Returns (i2, it2)"
    and c: "(if i1 < int (length c1) \<or> i2 < int (length c2) then gen_sync c1 c2 i1 i2 it1 it2
         else Returns (i1, i2, it1, it2)) = Returns (k1, k2, jt1, jt2)"
    and d: "g_i1 st' = k1" "g_i2 st' = k2"
    by (rule gen_scan_stepE) (auto dest: gen_chunk_position)
  let ?l1 = "int (length c1)" and ?l2 = "int (length c2)"
  have 1: "g_i1 st \<le> i1 \<and> (g_i1 st < ?l1 \<longrightarrow> g_i1 st < i1) \<and> (g_i1 st \<le> ?l1 \<longrightarrow> i1 \<le> ?l1)"
    using a find_next_router_line_advances [of c1] by (fastforce split: if_splits)
  have 2: "g_i2 st \<le> i2 \<and> (g_i2 st < ?l2 \<longrightarrow> g_i2 st < i2) \<and> (g_i2 st \<le> ?l2 \<longrightarrow> i2 \<le> ?l2)"
    using b find_next_router_line_advances [of c2] by (fastforce split: if_splits)
  have 3: "min i1 ?l1 \<le> k1 \<and> (i1 \<le> ?l1 \<longrightarrow> k1 \<le> ?l1) \<and> min i2 ?l2 \<le> k2 \<and> (i2 \<le> ?l2 \<longrightarrow> k2 \<le> ?l2)"
    using c gen_sync_advances [of c1 c2 i1 i2 it1 it2 k1 k2 jt1 jt2] by (auto split: if_splits)
  from 1 2 3 d show "min (g_i1 st) ?l1 \<le> g_i1 st'" "min (g_i2 st) ?l2 \<le> g_i2 st'"
    "g_i1 st < ?l1 \<Longrightarrow> g_i1 st < g_i1 st'" "g_i2 st < ?l2 \<Longrightarrow> g_i2 st < g_i2 st'"
    "g_i1 st \<le> ?l1 \<Longrightarrow> g_i1 st' \<le> ?l1" "g_i2 st \<le> ?l2 \<Longrightarrow> g_i2 st' \<le> ?l2"
    by linarith+
qed

lemma gen_scan_step_measure:
  assumes "gen_scan_step c1 c2 st = Returns st'" "g_i1 st < int (length c1) \<or> g_i2 st < int (length c2)"
  shows "nat (int (length c1) - g_i1 st') + nat (int (length c2) - g_i2 st')
    < nat (int (length c1) - g_i1 st) + nat (int (length c2) - g_i2 st)"
  using gen_scan_step_advances(1-4) [OF assms(1)] assms(2) by linarith

function gen_scan :: "cdline list \<Rightarrow> cdline list \<Rightarrow> gen_scan_state \<Rightarrow> (bitarray \<times> bitarray) assertable" where
  "gen_scan cons1 cons2 st =
    (if g_i1 st < int (length cons1) \<or> g_i2 st < int (length cons2) then
       and_then (gen_scan_step cons1 cons2 st) (\<lambda>st. gen_scan cons1 cons2 st)
     else Returns (g_changed1 st, g_changed2 st))"
  by pat_completeness auto
termination
  by (relation "measure (\<lambda>(c1, c2, st). nat (int (length c1) - g_i1 st) + nat (int (length c2) - g_i2 st))")
    (auto dest: gen_scan_step_measure)

declare gen_scan.simps [simp del]

text \<open>The reverse loop. The arguments \<open>n1\<close> and \<open>n2\<close> are the source's \<open>i1 + 1\<close> and
  \<open>i2 + 1\<close>; \<open>skip_changed\<close> is the loop that takes the contiguous changed lines.\<close>

fun skip_changed :: "bitarray \<Rightarrow> nat \<Rightarrow> nat" where
  "skip_changed ch 0 = 0"
| "skip_changed ch (Suc i) = (if ch ! i then skip_changed ch i else Suc i)"

definition gen_command :: "nat \<Rightarrow> nat \<Rightarrow> nat \<Rightarrow> cdline" where
  "gen_command start1x added deleted =
    (if added = 0 then
       (if deleted = 1 then show_nat (start1x + 1) @ ''d''
        else show_nat (start1x + 1) @ '','' @ show_nat (start1x + deleted) @ ''d'')
     else if deleted = 0 then show_nat start1x @ ''a''
     else if deleted = 1 then show_nat (start1x + 1) @ ''c''
     else show_nat (start1x + 1) @ '','' @ show_nat (start1x + deleted) @ ''c'')"

lemma skip_changed_le: "skip_changed ch n \<le> n"
  by (induction n) auto

lemma skip_changed_less: "0 < n \<Longrightarrow> ch ! (n - 1) \<Longrightarrow> skip_changed ch n < n"
  using skip_changed_le [of ch "n - 1"] by (cases n) auto

function gen_commands :: "cdline list \<Rightarrow> bitarray \<Rightarrow> bitarray \<Rightarrow> nat \<Rightarrow> nat \<Rightarrow> cdline list option" where
  "gen_commands cons2 changed1 changed2 n1 n2 =
    (if n1 = 0 \<and> n2 = 0 then Some []
     else if \<not> (n1 > 0 \<and> changed1 ! (n1 - 1)) \<and> \<not> (n2 > 0 \<and> changed2 ! (n2 - 1)) then
       gen_commands cons2 changed1 changed2 (n1 - 1) (n2 - 1)
     else
       let m1 = skip_changed changed1 n1; m2 = skip_changed changed2 n2;
           added = n2 - m2; deleted = n1 - m1;
           cmd = gen_command m1 added deleted;
           new = map ((!) cons2) [m2..<n2]
       in if added = 0 then map_option (\<lambda>r. cmd # r) (gen_commands cons2 changed1 changed2 m1 m2)
          else if list_ex (\<lambda>l. line_str_eq l ''.'') new then None
          else map_option (\<lambda>r. cmd # new @ ''.'' # r) (gen_commands cons2 changed1 changed2 m1 m2))"
  by pat_completeness auto
termination
proof (relation "measure (\<lambda>(c, ch1, ch2, n1, n2). n1 + n2)")
  show "wf (measure (\<lambda>(c, ch1, ch2, n1, n2). n1 + n2))" by simp
next
  fix c :: "cdline list" and ch1 ch2 :: bitarray and n1 n2 :: nat
  assume "\<not> (n1 = 0 \<and> n2 = 0)"
  then show "((c, ch1, ch2, n1 - 1, n2 - 1), c, ch1, ch2, n1, n2)
    \<in> measure (\<lambda>(c, ch1, ch2, n1, n2). n1 + n2)" by auto
next
  fix c :: "cdline list" and ch1 ch2 :: bitarray and n1 n2 m1 m2 :: nat
  assume c: "\<not> (\<not> (0 < n1 \<and> ch1 ! (n1 - 1)) \<and> \<not> (0 < n2 \<and> ch2 ! (n2 - 1)))"
    and m: "m1 = skip_changed ch1 n1" "m2 = skip_changed ch2 n2"
  then have "m1 + m2 < n1 + n2"
    using skip_changed_less [of n1 ch1] skip_changed_less [of n2 ch2]
      skip_changed_le [of ch1 n1] skip_changed_le [of ch2 n2] by auto
  then show "((c, ch1, ch2, m1, m2), c, ch1, ch2, n1, n2) \<in> measure (\<lambda>(c, ch1, ch2, n1, n2). n1 + n2)"
    by simp
  from this show "((c, ch1, ch2, m1, m2), c, ch1, ch2, n1, n2) \<in> measure (\<lambda>(c, ch1, ch2, n1, n2). n1 + n2)" .
qed

declare gen_commands.simps [simp del]

definition gen_scan_init :: "cdline list \<Rightarrow> cdline list \<Rightarrow> gen_scan_state" where
  "gen_scan_init cons1 cons2 = \<lparr>g_i1 = - 1, g_i2 = - 1, g_start1 = 0, g_start2 = 0,
     g_iter1 = ROUTER_ID_ITERATOR_INIT, g_iter2 = ROUTER_ID_ITERATOR_INIT,
     g_changed1 = replicate (length cons1) False, g_changed2 = replicate (length cons2) False\<rparr>"

definition gen_ed_diff :: "cdline list \<Rightarrow> cdline list \<Rightarrow> cdline list assertable" where
  "gen_ed_diff cons1_orig cons2 =
    (let (cons1, remove_trailer) = preprocess_consensus cons1_orig;
         trailer = (case remove_trailer of None \<Rightarrow> [] | Some l \<Rightarrow> [l])
     in and_then (gen_scan cons1 cons2 (gen_scan_init cons1 cons2)) (\<lambda>(changed1, changed2).
        case gen_commands cons2 changed1 changed2 (length cons1) (length cons2) of
          None \<Rightarrow> Fails | Some cmds \<Rightarrow> Returns (trailer @ cmds)))"

end
