(* ===== verification/Lcs.thy ===== *)
theory Lcs
  imports Main "HOL-Library.Sublist"
begin

text \<open>
  The length of a longest common subsequence of two lists, as the reference that the consensus
  diff generator is compared with: the maximum over all common subsequences, its recurrences at
  both ends of the lists, and the law by which one list is split in two.
\<close>

definition lcs :: "'a list \<Rightarrow> 'a list \<Rightarrow> nat" where
  "lcs a b = Max (length ` {z. subseq z a \<and> subseq z b})"

lemma finite_common: "finite {z. subseq z a \<and> subseq z b}"
  by (rule finite_subset [of _ "set (subseqs a)"]) (auto simp: subseqs_powset)

lemma lcs_upper: "subseq z a \<Longrightarrow> subseq z b \<Longrightarrow> length z \<le> lcs a b"
  unfolding lcs_def by (rule Max_ge) (auto simp: finite_common)

lemma lcs_witness: obtains z where "subseq z a" "subseq z b" "length z = lcs a b"
proof -
  have "lcs a b \<in> length ` {z. subseq z a \<and> subseq z b}"
    unfolding lcs_def by (rule Max_in) (auto simp: finite_common intro: exI [of _ "[]"])
  then show thesis using that by auto
qed

lemma lcs_eqI:
  assumes "subseq w a" "subseq w b" "length w = n"
    and "\<And>z. subseq z a \<Longrightarrow> subseq z b \<Longrightarrow> length z \<le> n"
  shows "lcs a b = n"
proof -
  obtain z where z: "subseq z a" "subseq z b" "length z = lcs a b" by (rule lcs_witness)
  show ?thesis using lcs_upper [OF assms(1,2)] assms(3,4) z by (metis le_antisym)
qed

lemma lcs_commute: "lcs a b = lcs b a"
  by (simp add: lcs_def conj_commute)

lemma lcs_Nil [simp]: "lcs [] b = 0" "lcs a [] = 0"
  by (rule lcs_eqI [of "[]"]; auto)+

lemma subseq_rev_imp: "subseq a b \<Longrightarrow> subseq (rev a) (rev b)"
proof (induction a b rule: list_emb.induct)
  case (list_emb_Cons a b y)
  then show ?case by (simp add: subseq_rev_drop_many)
next
  case (list_emb_Cons2 x y a b)
  then show ?case by (auto intro: list_emb_append_mono)
qed simp

lemma subseq_rev: "subseq (rev a) (rev b) \<longleftrightarrow> subseq a b"
  using subseq_rev_imp [of a b] subseq_rev_imp [of "rev a" "rev b"] by auto

lemma lcs_rev: "lcs (rev a) (rev b) = lcs a b"
proof -
  obtain z where z: "subseq z a" "subseq z b" "length z = lcs a b" by (rule lcs_witness)
  show ?thesis
  proof (rule lcs_eqI [of "rev z"])
    fix w assume w: "subseq w (rev a)" "subseq w (rev b)"
    then have "subseq (rev w) a" "subseq (rev w) b"
      using subseq_rev [of "rev w" a] subseq_rev [of "rev w" b] by simp_all
    then show "length w \<le> lcs a b" using lcs_upper [of "rev w"] by simp
  qed (use z in \<open>simp_all add: subseq_rev\<close>)
qed

lemma lcs_Cons_eq: "lcs (x # a) (x # b) = Suc (lcs a b)"
proof -
  obtain z where z: "subseq z a" "subseq z b" "length z = lcs a b" by (rule lcs_witness)
  show ?thesis
  proof (rule lcs_eqI [of "x # z"])
    fix w assume w: "subseq w (x # a)" "subseq w (x # b)"
    show "length w \<le> Suc (lcs a b)"
    proof (cases w)
      case (Cons u v)
      have "subseq v a" "subseq v b"
        using w unfolding Cons by (auto split: if_splits dest: subseq_Cons')
      then show ?thesis using lcs_upper [of v] Cons by simp
    qed simp
  qed (use z in auto)
qed

lemma lcs_mono: "subseq a a' \<Longrightarrow> subseq b b' \<Longrightarrow> lcs a b \<le> lcs a' b'"
  using lcs_witness [of a b] lcs_upper by (metis subseq_order.order_trans)

lemma lcs_Cons_neq:
  assumes "x \<noteq> y"
  shows "lcs (x # a) (y # b) = max (lcs (x # a) b) (lcs a (y # b))"
proof (rule antisym)
  obtain z where z: "subseq z (x # a)" "subseq z (y # b)" "length z = lcs (x # a) (y # b)"
    by (rule lcs_witness)
  have "subseq z a \<or> subseq z b"
  proof (cases z)
    case (Cons u v)
    then show ?thesis using z(1,2) assms by (auto split: if_splits)
  qed simp
  then show "lcs (x # a) (y # b) \<le> max (lcs (x # a) b) (lcs a (y # b))"
    using z lcs_upper [of z a "y # b"] lcs_upper [of z "x # a" b] by auto
  show "max (lcs (x # a) b) (lcs a (y # b)) \<le> lcs (x # a) (y # b)"
    using lcs_mono [of "x # a" "x # a" b "y # b"] lcs_mono [of a "x # a" "y # b" "y # b"]
    by (simp add: subseq_order.order_refl list_emb_Cons)
qed

lemma lcs_snoc:
  "lcs (a @ [x]) (b @ [y]) = (if x = y then lcs a b + 1 else max (lcs (a @ [x]) b) (lcs a (b @ [y])))"
  using lcs_Cons_eq [of x "rev a" "rev b"] lcs_Cons_neq [of x y "rev a" "rev b"]
    lcs_rev [of a b] lcs_rev [of "a @ [x]" b] lcs_rev [of a "b @ [y]"] lcs_rev [of "a @ [x]" "b @ [y]"]
  by auto

lemma lcs_prefix: "lcs (p @ a) (p @ b) = length p + lcs a b"
  by (induction p) (auto simp: lcs_Cons_eq)

lemma lcs_suffix: "lcs (a @ q) (b @ q) = lcs a b + length q"
  using lcs_prefix [of "rev q" "rev a" "rev b"] lcs_rev [of "a @ q" "b @ q"] lcs_rev [of a b] by simp

lemma lcs_single: "lcs [x] b = (if x \<in> set b then 1 else 0)"
proof (induction b)
  case (Cons y b)
  then show ?case by (cases "x = y") (auto simp: lcs_Cons_eq lcs_Cons_neq)
qed simp

text \<open>Splitting the first list: no split of the second one gives more, and one gives as much.\<close>

lemma lcs_split_le: "lcs a (take k b) + lcs a' (drop k b) \<le> lcs (a @ a') b"
proof -
  obtain z where z: "subseq z a" "subseq z (take k b)" "length z = lcs a (take k b)" by (rule lcs_witness)
  obtain w where w: "subseq w a'" "subseq w (drop k b)" "length w = lcs a' (drop k b)" by (rule lcs_witness)
  have "subseq (z @ w) (a @ a')" using z(1) w(1) by (rule list_emb_append_mono)
  moreover have "subseq (z @ w) (take k b @ drop k b)" using z(2) w(2) by (rule list_emb_append_mono)
  ultimately show ?thesis using lcs_upper [of "z @ w" "a @ a'" b] z(3) w(3) by simp
qed

lemma lcs_split_ex: "\<exists>k \<le> length b. lcs (a @ a') b = lcs a (take k b) + lcs a' (drop k b)"
proof -
  obtain z where z: "subseq z (a @ a')" "subseq z b" "length z = lcs (a @ a') b" by (rule lcs_witness)
  then obtain u v where uv: "z = u @ v" "subseq u a" "subseq v a'" by (auto simp: subseq_append_iff)
  then obtain b1 b2 where b: "b = b1 @ b2" "subseq u b1" "subseq v b2"
    using z(2) list_emb_appendD by metis
  have "lcs (a @ a') b \<le> lcs a (take (length b1) b) + lcs a' (drop (length b1) b)"
    using lcs_upper [of u a b1] lcs_upper [of v a' b2] uv b z(3) by simp
  then show ?thesis using lcs_split_le [of a "length b1" b a'] b(1)
    by (intro exI [of _ "length b1"]) auto
qed

end
