(* ===== verification/ConsDiffCalc.thy ===== *)
theory ConsDiffCalc
  imports ConsDiffGen Lcs
begin

text \<open>
  Correctness of \<^verbatim>\<open>calc_changes\<close>: \<^verbatim>\<open>lcs_lengths\<close> computes the lengths of the longest
  common subsequences, \<^verbatim>\<open>optimal_column_to_split\<close> finds a column at which nothing is lost,
  and the lines that \<^verbatim>\<open>calc_changes\<close> leaves unmarked are the same on both sides and form a
  longest common subsequence of the two slices.
\<close>

definition slice_lines :: "smartlist_slice \<Rightarrow> cdline list" where
  "slice_lines s = map ((!) (sl_list s)) [sl_offset s..<sl_offset s + sl_len s]"

definition kept :: "cdline list \<Rightarrow> bitarray \<Rightarrow> nat \<Rightarrow> nat \<Rightarrow> cdline list" where
  "kept l ch a b = map ((!) l) (filter (\<lambda>i. \<not> ch ! i) [a..<b])"

text \<open>A slice of a list whose bits in \<open>ch\<close> are all clear.\<close>

definition slice_ok :: "smartlist_slice \<Rightarrow> bitarray \<Rightarrow> bool" where
  "slice_ok s ch \<longleftrightarrow> sl_offset s + sl_len s \<le> length (sl_list s) \<and> length ch = length (sl_list s) \<and>
     (\<forall>i. sl_offset s \<le> i \<and> i < sl_offset s + sl_len s \<longrightarrow> \<not> ch ! i)"

definition changed_within :: "smartlist_slice \<Rightarrow> bitarray \<Rightarrow> bitarray \<Rightarrow> bool" where
  "changed_within s ch ch' \<longleftrightarrow> length ch' = length ch \<and>
     (\<forall>i. \<not> (sl_offset s \<le> i \<and> i < sl_offset s + sl_len s) \<longrightarrow> ch' ! i = ch ! i)"

definition slice_kept :: "smartlist_slice \<Rightarrow> bitarray \<Rightarrow> cdline list" where
  "slice_kept s ch = kept (sl_list s) ch (sl_offset s) (sl_offset s + sl_len s)"

lemma kept_split: "a \<le> b \<Longrightarrow> b \<le> c \<Longrightarrow> kept l ch a c = kept l ch a b @ kept l ch b c"
  by (simp add: kept_def upt_split [of a b c])

lemma kept_cong: "(\<And>i. a \<le> i \<Longrightarrow> i < b \<Longrightarrow> ch ! i = ch' ! i) \<Longrightarrow> kept l ch a b = kept l ch' a b"
  unfolding kept_def by (intro arg_cong [where f = "map ((!) l)"] filter_cong) auto

lemma kept_all: "(\<And>i. a \<le> i \<Longrightarrow> i < b \<Longrightarrow> \<not> ch ! i) \<Longrightarrow> kept l ch a b = map ((!) l) [a..<b]"
  unfolding kept_def by (simp add: filter_id_conv)

lemma kept_none: "(\<And>i. a \<le> i \<Longrightarrow> i < b \<Longrightarrow> ch ! i) \<Longrightarrow> kept l ch a b = []"
  unfolding kept_def by (simp add: filter_empty_conv)

lemma length_slice_lines [simp]: "length (slice_lines s) = sl_len s"
  by (simp add: slice_lines_def)

lemma nth_slice_lines: "k < sl_len s \<Longrightarrow> slice_lines s ! k = sl_list s ! (sl_offset s + k)"
  by (simp add: slice_lines_def)

section \<open>The rows of the dynamic program\<close>

definition dir_lines :: "int \<Rightarrow> smartlist_slice \<Rightarrow> cdline list" where
  "dir_lines d s = (if d = - 1 then rev (slice_lines s) else slice_lines s)"

lemma length_dir_lines [simp]: "length (dir_lines d s) = sl_len s"
  by (simp add: dir_lines_def)

lemma nth_dir_lines: "k < sl_len s \<Longrightarrow> dir_lines d s ! k = slice_line s d k"
  by (simp add: dir_lines_def slice_line_def rev_nth nth_slice_lines algebra_simps)

lemma lcs_row:
  assumes "length prev = sl_len s + 1" "\<And>j. j \<le> sl_len s \<Longrightarrow> prev ! j = lcs a (take j (dir_lines d s))"
  shows "length (lcs_row s d x prev) = sl_len s + 1"
    "\<And>j. j \<le> sl_len s \<Longrightarrow> lcs_row s d x prev ! j = lcs (a @ [x]) (take j (dir_lines d s))"
proof -
  define b where "b = dir_lines d s"
  define f where "f = (\<lambda>j result. result[j + 1 := (if lines_eq x (slice_line s d j)
    then prev ! j + 1 else max (result ! j) (prev ! (j + 1)))])"
  have row: "lcs_row s d x prev = fold f [0..<sl_len s] prev" by (simp add: lcs_row_def f_def)
  have "k \<le> sl_len s \<Longrightarrow> length (fold f [0..<k] prev) = sl_len s + 1 \<and>
    (\<forall>j \<le> sl_len s. fold f [0..<k] prev ! j = lcs (if j \<le> k then a @ [x] else a) (take j b))" for k
  proof (induction k)
    case 0
    then show ?case using assms by (auto simp: b_def)
  next
    case (Suc k)
    define r where "r = fold f [0..<k] prev"
    from Suc have k: "k < sl_len s" and r: "length r = sl_len s + 1"
      "\<And>j. j \<le> sl_len s \<Longrightarrow> r ! j = lcs (if j \<le> k then a @ [x] else a) (take j b)"
      by (auto simp: r_def)
    have b: "take (Suc k) b = take k b @ [slice_line s d k]"
      using k by (simp add: take_Suc_conv_app_nth b_def nth_dir_lines)
    have "f k r ! (k + 1) = lcs (a @ [x]) (take (Suc k) b)"
      using r(1) r(2) [of k] assms(2) [of k] assms(2) [of "Suc k"] k
      by (simp add: f_def b lcs_snoc lines_eq_def b_def [symmetric] del: take_Suc)
    moreover have "length (f k r) = length r" "\<And>j. j \<noteq> k + 1 \<Longrightarrow> f k r ! j = r ! j"
      by (simp_all add: f_def)
    moreover have "fold f [0..<Suc k] prev = f k r" by (simp add: r_def)
    ultimately show ?case using k r by (auto simp: le_Suc_eq)
  qed
  from this [of "sl_len s"] show "length (lcs_row s d x prev) = sl_len s + 1"
    "\<And>j. j \<le> sl_len s \<Longrightarrow> lcs_row s d x prev ! j = lcs (a @ [x]) (take j (dir_lines d s))"
    by (auto simp: row b_def)
qed

lemma lcs_lengths_correct:
  assumes "d = 1 \<or> d = - 1" "lcs_lengths s1 s2 d = Some r"
  shows "length r = sl_len s2 + 1"
    "\<And>j. j \<le> sl_len s2 \<Longrightarrow> r ! j = lcs (dir_lines d s1) (take j (dir_lines d s2))"
proof -
  define g where "g = (\<lambda>i result. lcs_row s2 d (slice_line s1 d i) result)"
  have "k \<le> sl_len s1 \<Longrightarrow> length (fold g [0..<k] (replicate (sl_len s2 + 1) 0)) = sl_len s2 + 1 \<and>
    (\<forall>j \<le> sl_len s2. fold g [0..<k] (replicate (sl_len s2 + 1) 0) ! j
       = lcs (take k (dir_lines d s1)) (take j (dir_lines d s2)))" for k
  proof (induction k)
    case 0
    then show ?case by (auto simp del: replicate_Suc)
  next
    case (Suc k)
    then have a: "take (Suc k) (dir_lines d s1) = take k (dir_lines d s1) @ [slice_line s1 d k]"
      by (simp add: take_Suc_conv_app_nth nth_dir_lines)
    have b: "fold g [0..<Suc k] x = lcs_row s2 d (slice_line s1 d k) (fold g [0..<k] x)" for x
      by (simp add: g_def)
    have len: "length (fold g [0..<k] (replicate (sl_len s2 + 1) 0)) = sl_len s2 + 1"
      and rw: "\<And>j. j \<le> sl_len s2 \<Longrightarrow> fold g [0..<k] (replicate (sl_len s2 + 1) 0) ! j
       = lcs (take k (dir_lines d s1)) (take j (dir_lines d s2))"
      using Suc by auto
    show ?case
      unfolding b a using lcs_row [OF len rw, where x = "slice_line s1 d k"] by blast
  qed
  from this [of "sl_len s1"] show "length r = sl_len s2 + 1"
    "\<And>j. j \<le> sl_len s2 \<Longrightarrow> r ! j = lcs (dir_lines d s1) (take j (dir_lines d s2))"
    using assms by (auto simp: lcs_lengths_def g_def split: if_splits)
qed

lemma argmax_fold:
  fixes f :: "nat \<Rightarrow> nat"
  assumes "fold (\<lambda>i (column, max_sum). if int (f i) > max_sum then (i, int (f i)) else (column, max_sum))
    [0..<Suc n] (0, - 1) = (c, m)"
  shows "c \<le> n \<and> m = int (f c) \<and> (\<forall>i \<le> n. f i \<le> f c)"
  using assms
proof (induction n arbitrary: c m)
  case (Suc n)
  obtain c' m' where p: "fold (\<lambda>i (column, max_sum). if int (f i) > max_sum then (i, int (f i)) else (column, max_sum))
    [0..<Suc n] (0, - 1) = (c', m')" by fastforce
  from Suc.IH [OF this] have IH: "c' \<le> n" "m' = int (f c')" "\<And>i. i \<le> n \<Longrightarrow> f i \<le> f c'" by auto
  have "(c, m) = (if int (f (Suc n)) > m' then (Suc n, int (f (Suc n))) else (c', m'))"
    using Suc.prems p by (simp del: upt_Suc add: upt_Suc_append [of 0 "Suc n"])
  then show ?case using IH by (auto simp: le_Suc_eq split: if_splits intro: order_trans less_imp_le)
qed auto

text \<open>The chosen column loses nothing: the two halves have a longest common subsequence of the
  whole between them.\<close>

lemma optimal_column_to_split_correct:
  obtains c where "optimal_column_to_split t u s2 = Some c" "c \<le> sl_len s2"
    "lcs (slice_lines t) (take c (slice_lines s2)) + lcs (slice_lines u) (drop c (slice_lines s2))
      = lcs (slice_lines t @ slice_lines u) (slice_lines s2)"
proof -
  let ?b = "slice_lines s2" and ?n = "sl_len s2"
  obtain lt where lt: "lcs_lengths t s2 1 = Some lt" by (auto simp: lcs_lengths_def)
  obtain lb where lb: "lcs_lengths u s2 (- 1) = Some lb" by (auto simp: lcs_lengths_def)
  define f where "f i = lt ! i + lb ! (?n - i)" for i
  obtain c m where cm: "fold (\<lambda>i (column, max_sum). if int (f i) > max_sum then (i, int (f i))
    else (column, max_sum)) [0..<Suc ?n] (0, - 1) = (c, m)" by fastforce
  have col: "optimal_column_to_split t u s2 = Some c"
    using cm unfolding f_def optimal_column_to_split_def lt lb Let_def Suc_eq_plus1
    by (simp only: prod.case option.case fst_conv)
  have f: "f i = lcs (slice_lines t) (take i ?b) + lcs (slice_lines u) (drop i ?b)" if "i \<le> ?n" for i
  proof -
    have "take (?n - i) (rev ?b) = rev (drop i ?b)" using that by (simp add: rev_drop)
    then show ?thesis
      using lcs_lengths_correct(2) [OF _ lt, of i] lcs_lengths_correct(2) [OF _ lb, of "?n - i"] that
      by (simp add: f_def dir_lines_def lcs_rev)
  qed
  note best = argmax_fold [OF cm]
  obtain k where k: "k \<le> ?n" "lcs (slice_lines t @ slice_lines u) ?b = f k"
    using lcs_split_ex [of ?b "slice_lines t" "slice_lines u"] f by auto
  have "f c = lcs (slice_lines t @ slice_lines u) ?b"
    using best k f [of c] lcs_split_le [of "slice_lines t" c ?b "slice_lines u"] by (metis le_antisym)
  with best f [of c] show thesis by (intro that [OF col]) auto
qed

section \<open>Parts of a slice\<close>

text \<open>\<open>t\<close> is \<open>s\<close> without the lines \<open>p\<close> at its start and \<open>q\<close> at its end.\<close>

definition sub_slice :: "cdline list \<Rightarrow> cdline list \<Rightarrow> smartlist_slice \<Rightarrow> smartlist_slice \<Rightarrow> bool" where
  "sub_slice p q s t \<longleftrightarrow> sl_list t = sl_list s \<and> sl_offset t = sl_offset s + length p \<and>
     sl_len s = length p + sl_len t + length q \<and> slice_lines s = p @ slice_lines t @ q"

lemma sub_slice_refl: "sub_slice [] [] s s"
  by (simp add: sub_slice_def)

lemma sub_slice_trans: "sub_slice p q s t \<Longrightarrow> sub_slice p' q' t u \<Longrightarrow> sub_slice (p @ p') (q' @ q) s u"
  by (simp add: sub_slice_def)

lemma sub_slice_drop_first:
  assumes "0 < sl_len s"
  shows "sub_slice [first_line s] [] s (drop_first s)"
proof -
  have "[sl_offset s..<sl_offset s + sl_len s] = sl_offset s # [Suc (sl_offset s)..<sl_offset s + sl_len s]"
    using assms by (simp add: upt_conv_Cons)
  then show ?thesis using assms
    by (simp add: sub_slice_def drop_first_def first_line_def slice_lines_def)
qed

lemma sub_slice_drop_last:
  assumes "0 < sl_len s"
  shows "sub_slice [] [last_line s] s (drop_last s)"
proof -
  obtain n where n: "sl_len s = Suc n" using assms by (cases "sl_len s") auto
  then show ?thesis
    by (simp add: sub_slice_def drop_last_def last_line_def slice_lines_def)
qed

lemma sub_slice_trim_start:
  "trim_start s1 s2 = (t1, t2) \<Longrightarrow> \<exists>p. sub_slice p [] s1 t1 \<and> sub_slice p [] s2 t2"
proof (induction s1 s2 rule: trim_start.induct)
  case (1 s1 s2)
  show ?case
  proof (cases "sl_len s1 > 0 \<and> sl_len s2 > 0 \<and> lines_eq (first_line s1) (first_line s2)")
    case True
    with 1 obtain p where "sub_slice p [] (drop_first s1) t1" "sub_slice p [] (drop_first s2) t2"
      by (subst (asm) (2) trim_start.simps) auto
    from this [THEN sub_slice_trans [OF sub_slice_drop_first, rotated]] True show ?thesis
      by (auto simp: lines_eq_def)
  next
    case False
    with 1 show ?thesis by (subst (asm) (2) trim_start.simps) (auto intro: sub_slice_refl)
  qed
qed

lemma sub_slice_trim_end:
  "trim_end s1 s2 = (t1, t2) \<Longrightarrow> \<exists>q. sub_slice [] q s1 t1 \<and> sub_slice [] q s2 t2"
proof (induction s1 s2 rule: trim_end.induct)
  case (1 s1 s2)
  show ?case
  proof (cases "sl_len s1 > 0 \<and> sl_len s2 > 0 \<and> lines_eq (last_line s1) (last_line s2)")
    case True
    with 1 obtain p where "sub_slice [] p (drop_last s1) t1" "sub_slice [] p (drop_last s2) t2"
      by (subst (asm) (2) trim_end.simps) auto
    from this [THEN sub_slice_trans [OF sub_slice_drop_last, rotated]] True show ?thesis
      by (auto simp: lines_eq_def)
  next
    case False
    with 1 show ?thesis by (subst (asm) (2) trim_end.simps) (auto intro: sub_slice_refl)
  qed
qed

lemma sub_slice_trim:
  assumes "trim_slices s1 s2 = (t1, t2)"
  obtains p q where "sub_slice p q s1 t1" "sub_slice p q s2 t2"
proof -
  obtain u1 u2 where u: "trim_start s1 s2 = (u1, u2)" "trim_end u1 u2 = (t1, t2)"
    using assms by (auto simp: trim_slices_def split: prod.splits)
  from sub_slice_trim_start [OF u(1)] sub_slice_trim_end [OF u(2)] show thesis
    using sub_slice_trans [of _ "[]" _ _ "[]"] that by fastforce
qed

lemma sub_slice_lift:
  assumes "sub_slice p q s t" "slice_ok s ch"
  shows "slice_ok t ch"
    and "changed_within t ch ch' \<Longrightarrow> changed_within s ch ch' \<and> slice_kept s ch' = p @ slice_kept t ch' @ q"
proof -
  let ?a = "sl_offset s" and ?b = "sl_offset t" and ?c = "sl_offset t + sl_len t"
    and ?d = "sl_offset s + sl_len s" and ?l = "sl_list s"
  from assms(1) have st: "sl_list t = ?l" "?b = ?a + length p" "?d = ?c + length q"
    "slice_lines s = p @ slice_lines t @ q" by (auto simp: sub_slice_def)
  have ord: "?a \<le> ?b" "?b \<le> ?c" "?c \<le> ?d" "?b \<le> ?d" using st(2,3) by linarith+
  show "slice_ok t ch" using assms(2) st(1-3) by (auto simp: slice_ok_def)
  assume w: "changed_within t ch ch'"
  have clear: "\<not> ch' ! i" if "?a \<le> i" "i < ?d" "i < ?b \<or> ?c \<le> i" for i
    using assms(2) w that by (auto simp: slice_ok_def changed_within_def)
  have "map ((!) ?l) [?a..<?d] = map ((!) ?l) [?a..<?b] @ map ((!) ?l) [?b..<?c] @ map ((!) ?l) [?c..<?d]"
    using upt_split [of ?a ?b ?d] upt_split [of ?b ?c ?d] ord by (simp only: map_append)
  then have "map ((!) ?l) [?a..<?b] @ slice_lines t @ map ((!) ?l) [?c..<?d] = p @ slice_lines t @ q"
    using st(1,4) by (simp add: slice_lines_def)
  moreover have "length (map ((!) ?l) [?a..<?b]) = length p" using st(2) by simp
  ultimately have pq: "map ((!) ?l) [?a..<?b] = p" "map ((!) ?l) [?c..<?d] = q"
    by (simp_all only: append_eq_append_conv same_append_eq simp_thms)
  have "slice_kept s ch' = kept ?l ch' ?a ?b @ kept ?l ch' ?b ?c @ kept ?l ch' ?c ?d"
    using kept_split [of ?a ?b ?d ?l ch'] kept_split [of ?b ?c ?d ?l ch'] ord
    by (simp only: slice_kept_def)
  moreover have "kept ?l ch' ?a ?b = p"
    by (rule trans [OF kept_all pq(1)]) (use clear ord in auto)
  moreover have "kept ?l ch' ?c ?d = q"
    by (rule trans [OF kept_all pq(2)]) (use clear ord in auto)
  moreover have "slice_kept t ch' = kept ?l ch' ?b ?c" by (simp only: slice_kept_def st(1))
  ultimately show "changed_within s ch ch' \<and> slice_kept s ch' = p @ slice_kept t ch' @ q"
    using w st(2,3) by (auto simp: changed_within_def)
qed

text \<open>A slice cut in two after \<open>k\<close> lines.\<close>

definition front :: "nat \<Rightarrow> smartlist_slice \<Rightarrow> smartlist_slice" where
  "front k s = \<lparr>sl_list = sl_list s, sl_offset = sl_offset s, sl_len = k\<rparr>"

definition rear :: "nat \<Rightarrow> smartlist_slice \<Rightarrow> smartlist_slice" where
  "rear k s = \<lparr>sl_list = sl_list s, sl_offset = sl_offset s + k, sl_len = sl_len s - k\<rparr>"

lemma smartlist_slice_halves:
  assumes "k \<le> sl_len s" "sl_offset s + sl_len s \<le> length (sl_list s)"
  shows "smartlist_slice (sl_list s) (int (sl_offset s)) (int (sl_offset s) + int k) = Some (front k s)"
    "smartlist_slice (sl_list s) (int (sl_offset s) + int k) (int (sl_offset s) + int (sl_len s))
      = Some (rear k s)"
  using assms by (auto simp: smartlist_slice_def front_def rear_def Let_def nat_add_distrib)

lemma slice_lines_halves:
  assumes "k \<le> sl_len s"
  shows "slice_lines (front k s) = take k (slice_lines s)" "slice_lines (rear k s) = drop k (slice_lines s)"
  using assms by (simp_all add: slice_lines_def front_def rear_def take_map drop_map)

lemma halves_lift:
  assumes "slice_ok s ch" "k \<le> sl_len s" "changed_within (front k s) ch ch1"
  shows "slice_ok (rear k s) ch1"
    and "changed_within (rear k s) ch1 ch2 \<Longrightarrow>
      changed_within s ch ch2 \<and> slice_kept s ch2 = slice_kept (front k s) ch1 @ slice_kept (rear k s) ch2"
proof -
  show "slice_ok (rear k s) ch1"
    using assms by (auto simp: slice_ok_def changed_within_def front_def rear_def)
  assume w: "changed_within (rear k s) ch1 ch2"
  let ?a = "sl_offset s" and ?l = "sl_list s"
  have "kept ?l ch2 ?a (?a + k) = kept ?l ch1 ?a (?a + k)"
    using w by (intro kept_cong) (auto simp: changed_within_def rear_def)
  then have "slice_kept s ch2 = slice_kept (front k s) ch1 @ slice_kept (rear k s) ch2"
    using kept_split [of ?a "?a + k" "?a + sl_len s" ?l ch2] assms(2)
    by (simp add: slice_kept_def front_def rear_def)
  then show "changed_within s ch ch2 \<and> slice_kept s ch2 = slice_kept (front k s) ch1 @ slice_kept (rear k s) ch2"
    using assms(2,3) w by (auto simp: changed_within_def front_def rear_def)
qed

section \<open>The changed lines\<close>

text \<open>What a computation of changes achieves: bits change only within the slices, the lines left
  unmarked are the same on both sides, and there are as many as possible.\<close>

definition changes_ok :: "smartlist_slice \<Rightarrow> smartlist_slice \<Rightarrow> bitarray \<Rightarrow> bitarray \<Rightarrow> bitarray \<Rightarrow> bitarray \<Rightarrow> bool" where
  "changes_ok s1 s2 ch1 ch2 ch1' ch2' \<longleftrightarrow>
     changed_within s1 ch1 ch1' \<and> changed_within s2 ch2 ch2' \<and>
     slice_kept s1 ch1' = slice_kept s2 ch2' \<and>
     length (slice_kept s1 ch1') = lcs (slice_lines s1) (slice_lines s2)"

lemma changes_ok_swap: "changes_ok s2 s1 ch2 ch1 ch2' ch1' \<Longrightarrow> changes_ok s1 s2 ch1 ch2 ch1' ch2'"
  by (auto simp: changes_ok_def lcs_commute)

lemma fold_bitarray_set:
  fixes b0 :: bitarray and P :: "nat \<Rightarrow> bool" and a b :: nat
  defines "r \<equiv> fold (\<lambda>i ch. if P i then bitarray_set ch i else ch) [a..<b] b0"
  shows "length r = length b0"
    "\<And>j. \<not> (a \<le> j \<and> j < b \<and> P j) \<Longrightarrow> r ! j = b0 ! j"
    "\<And>j. a \<le> j \<Longrightarrow> j < b \<Longrightarrow> P j \<Longrightarrow> j < length b0 \<Longrightarrow> r ! j"
proof -
  have "length r = length b0 \<and> (\<forall>j. \<not> (a \<le> j \<and> j < b \<and> P j) \<longrightarrow> r ! j = b0 ! j) \<and>
    (\<forall>j. a \<le> j \<longrightarrow> j < b \<longrightarrow> P j \<longrightarrow> j < length b0 \<longrightarrow> r ! j)"
    unfolding r_def
  proof (induction b)
    case (Suc b)
    define q where "q = fold (\<lambda>i ch. if P i then bitarray_set ch i else ch) [a..<b] b0"
    have "fold (\<lambda>i ch. if P i then bitarray_set ch i else ch) [a..<Suc b] b0
      = (if a \<le> b \<and> P b then q[b := True] else q)"
      by (simp add: q_def bitarray_set_def)
    moreover have "q[b := True] ! j = (if j = b \<and> b < length q then True else q ! j)" for j
      by (cases "b < length q") (auto simp: nth_list_update list_update_beyond)
    moreover note Suc.IH [folded q_def]
    ultimately show ?case by (auto simp: less_Suc_eq)
  qed simp
  then show "length r = length b0" "\<And>j. \<not> (a \<le> j \<and> j < b \<and> P j) \<Longrightarrow> r ! j = b0 ! j"
    "\<And>j. a \<le> j \<Longrightarrow> j < b \<Longrightarrow> P j \<Longrightarrow> j < length b0 \<Longrightarrow> r ! j" by blast+
qed

lemma kept_one:
  assumes "a \<le> k" "k < b" "\<not> ch ! k" "\<And>j. a \<le> j \<Longrightarrow> j < b \<Longrightarrow> j \<noteq> k \<Longrightarrow> ch ! j"
  shows "kept l ch a b = [l ! k]"
proof -
  have "kept l ch a b = kept l ch a k @ kept l ch k (Suc k) @ kept l ch (Suc k) b"
    using kept_split [of a k b l ch] kept_split [of k "Suc k" b l ch] assms(1,2) by simp
  moreover have "kept l ch a k = []" using assms by (intro kept_none) auto
  moreover have "kept l ch (Suc k) b = []" using assms by (intro kept_none) auto
  ultimately show ?thesis using assms(3) by (simp add: kept_def)
qed

lemma smartlist_slice_string_pos_spec:
  "smartlist_slice_string_pos s x = - 1 \<and> x \<notin> set (slice_lines s) \<or>
   (\<exists>k. smartlist_slice_string_pos s x = int k \<and> sl_offset s \<le> k \<and> k < sl_offset s + sl_len s \<and>
      sl_list s ! k = x \<and> x \<in> set (slice_lines s))"
proof (cases "filter (\<lambda>i. lines_eq (sl_list s ! i) x) [sl_offset s..<sl_offset s + sl_len s]")
  case Nil
  then show ?thesis
    by (auto simp: smartlist_slice_string_pos_def filter_empty_conv lines_eq_def slice_lines_def)
next
  case (Cons k ks)
  then have "k \<in> set (filter (\<lambda>i. lines_eq (sl_list s ! i) x) [sl_offset s..<sl_offset s + sl_len s])"
    by simp
  then show ?thesis using Cons
    by (auto simp: smartlist_slice_string_pos_def lines_eq_def slice_lines_def)
qed

lemma set_changed_correct:
  assumes "slice_ok s1 ch1" "slice_ok s2 ch2" "sl_len s1 \<le> 1"
  obtains ch1' ch2' where "set_changed ch1 ch2 s1 s2 = Some (ch1', ch2')" "changes_ok s1 s2 ch1 ch2 ch1' ch2'"
proof -
  define toskip where "toskip = (if sl_len s1 = 1 then smartlist_slice_string_pos s2 (first_line s1) else - 1)"
  define ch1' where "ch1' = (if sl_len s1 = 1 \<and> toskip = - 1 then bitarray_set ch1 (sl_offset s1) else ch1)"
  define ch2' where "ch2' = fold (\<lambda>i ch. if int i \<noteq> toskip then bitarray_set ch i else ch)
    [sl_offset s2..<sl_offset s2 + sl_len s2] ch2"
  have run: "set_changed ch1 ch2 s1 s2 = Some (ch1', ch2')"
    using assms(3) by (auto simp: set_changed_def ch1'_def ch2'_def toskip_def Let_def)
  note f = fold_bitarray_set [where P = "\<lambda>i. int i \<noteq> toskip" and a = "sl_offset s2"
      and b = "sl_offset s2 + sl_len s2" and ?b0.0 = ch2, folded ch2'_def]
  have w2: "changed_within s2 ch2 ch2'" using f(1,2) by (auto simp: changed_within_def)
  have w1: "changed_within s1 ch1 ch1'"
    by (auto simp: changed_within_def ch1'_def bitarray_set_def nth_list_update)
  have len2: "\<And>j. j < sl_offset s2 + sl_len s2 \<Longrightarrow> j < length ch2" using assms(2) by (auto simp: slice_ok_def)
  have clear2: "\<And>j. sl_offset s2 \<le> j \<Longrightarrow> j < sl_offset s2 + sl_len s2 \<Longrightarrow> \<not> ch2 ! j"
    using assms(2) by (auto simp: slice_ok_def)
  have none2: "toskip = - 1 \<Longrightarrow> slice_kept s2 ch2' = []"
    unfolding slice_kept_def using f(3) len2 by (intro kept_none) auto
  show thesis
  proof (cases "sl_len s1 = 0")
    case True
    then have "toskip = - 1" "slice_lines s1 = []" "slice_kept s1 ch1' = []"
      by (auto simp: toskip_def slice_lines_def slice_kept_def kept_def)
    then show thesis using that [OF run] w1 w2 none2 by (simp add: changes_ok_def)
  next
    case False
    then have one: "sl_len s1 = 1" using assms(3) by simp
    then have l1: "slice_lines s1 = [first_line s1]" by (simp add: slice_lines_def first_line_def)
    from one have ts: "toskip = smartlist_slice_string_pos s2 (first_line s1)" by (simp add: toskip_def)
    have off1: "sl_offset s1 < length ch1" "\<not> ch1 ! sl_offset s1"
      using assms(1) one by (auto simp: slice_ok_def)
    consider (absent) "toskip = - 1" "first_line s1 \<notin> set (slice_lines s2)"
      | (found) k where "toskip = int k" "sl_offset s2 \<le> k" "k < sl_offset s2 + sl_len s2"
        "sl_list s2 ! k = first_line s1" "first_line s1 \<in> set (slice_lines s2)"
      using smartlist_slice_string_pos_spec [of s2 "first_line s1"] unfolding ts by auto
    then show thesis
    proof cases
      case absent
      have "slice_kept s1 ch1' = []"
        unfolding slice_kept_def using absent one off1
        by (intro kept_none) (auto simp: ch1'_def bitarray_set_def nth_list_update less_Suc_eq)
      then show thesis using that [OF run] w1 w2 none2 absent by (simp add: changes_ok_def l1 lcs_single)
    next
      case found
      have "slice_kept s1 ch1' = [first_line s1]"
        using found(1) one off1 by (simp add: slice_kept_def kept_def ch1'_def first_line_def)
      moreover have "slice_kept s2 ch2' = [sl_list s2 ! k]"
        unfolding slice_kept_def using f(2,3) found len2 clear2 by (intro kept_one) auto
      ultimately show thesis using that [OF run] w1 w2 found by (simp add: changes_ok_def l1 lcs_single)
    qed
  qed
qed

lemma changes_ok_sub:
  assumes "sub_slice p q s1 t1" "sub_slice p q s2 t2" "slice_ok s1 ch1" "slice_ok s2 ch2"
    "changes_ok t1 t2 ch1 ch2 ch1' ch2'"
  shows "changes_ok s1 s2 ch1 ch2 ch1' ch2'"
proof -
  have w: "changed_within t1 ch1 ch1'" "changed_within t2 ch2 ch2'" "slice_kept t1 ch1' = slice_kept t2 ch2'"
    "length (slice_kept t1 ch1') = lcs (slice_lines t1) (slice_lines t2)"
    using assms(5) by (auto simp: changes_ok_def)
  have "slice_lines s1 = p @ slice_lines t1 @ q" "slice_lines s2 = p @ slice_lines t2 @ q"
    using assms(1,2) by (auto simp: sub_slice_def)
  then show ?thesis
    using sub_slice_lift(2) [OF assms(1,3) w(1)] sub_slice_lift(2) [OF assms(2,4) w(2)] w(3,4)
    by (simp add: changes_ok_def lcs_prefix lcs_suffix)
qed

text \<open>The base and the recursive case after the trimming.\<close>

definition calc_rest :: "smartlist_slice \<Rightarrow> smartlist_slice \<Rightarrow> bitarray \<Rightarrow> bitarray \<Rightarrow> (bitarray \<times> bitarray) option" where
  "calc_rest t1 t2 ch1 ch2 =
    (if sl_len t1 \<le> 1 then set_changed ch1 ch2 t1 t2
     else if sl_len t2 \<le> 1 then map_option prod.swap (set_changed ch2 ch1 t2 t1)
     else let k = sl_len t1 div 2; m = the (optimal_column_to_split (front k t1) (rear k t1) t2)
          in case calc_changes (front k t1) (front m t2) ch1 ch2 of None \<Rightarrow> None
             | Some (c1, c2) \<Rightarrow> calc_changes (rear k t1) (rear m t2) c1 c2)"

lemma calc_changes_rest:
  assumes "trim_slices s1 s2 = (t1, t2)" "slice_ok t1 ch1" "slice_ok t2 ch2"
  shows "calc_changes s1 s2 ch1 ch2 = calc_rest t1 t2 ch1 ch2"
proof -
  let ?k = "sl_len t1 div 2"
  obtain c where c: "optimal_column_to_split (front ?k t1) (rear ?k t1) t2 = Some c" "c \<le> sl_len t2"
    using optimal_column_to_split_correct [of "front ?k t1" "rear ?k t1" t2] by blast
  have l: "sl_offset t1 + sl_len t1 \<le> length (sl_list t1)" "sl_offset t2 + sl_len t2 \<le> length (sl_list t2)"
    using assms(2,3) by (auto simp: slice_ok_def)
  have "?k \<le> sl_len t1" by simp
  note h = smartlist_slice_halves [OF this l(1)] smartlist_slice_halves [OF c(2) l(2)]
  show ?thesis
    by (subst calc_changes.simps)
      (simp only: assms(1) prod.case Let_def h c(1) option.case calc_rest_def option.sel)
qed

lemma calc_changes_correct:
  assumes "slice_ok s1 ch1" "slice_ok s2 ch2"
  obtains ch1' ch2' where "calc_changes s1 s2 ch1 ch2 = Some (ch1', ch2')" "changes_ok s1 s2 ch1 ch2 ch1' ch2'"
proof -
  have "\<exists>ch1' ch2'. calc_changes s1 s2 ch1 ch2 = Some (ch1', ch2') \<and> changes_ok s1 s2 ch1 ch2 ch1' ch2'"
    using assms
  proof (induction "sl_len s1" arbitrary: s1 s2 ch1 ch2 rule: less_induct)
    case less
    obtain t1 t2 where t: "trim_slices s1 s2 = (t1, t2)" by fastforce
    obtain p q where pq: "sub_slice p q s1 t1" "sub_slice p q s2 t2" using sub_slice_trim [OF t] by blast
    have ok: "slice_ok t1 ch1" "slice_ok t2 ch2"
      using sub_slice_lift(1) [OF pq(1) less.prems(1)] sub_slice_lift(1) [OF pq(2) less.prems(2)] .
    have "\<exists>ch1' ch2'. calc_rest t1 t2 ch1 ch2 = Some (ch1', ch2') \<and> changes_ok t1 t2 ch1 ch2 ch1' ch2'"
    proof -
      consider (a) "sl_len t1 \<le> 1" | (b) "\<not> sl_len t1 \<le> 1" "sl_len t2 \<le> 1"
        | (c) "\<not> sl_len t1 \<le> 1" "\<not> sl_len t2 \<le> 1" by blast
      then show ?thesis
      proof cases
        case a
        with set_changed_correct [OF ok a] show ?thesis by (metis calc_rest_def)
      next
        case b
        obtain c2 c1 where "set_changed ch2 ch1 t2 t1 = Some (c2, c1)" "changes_ok t2 t1 ch2 ch1 c2 c1"
          using set_changed_correct [OF ok(2,1) b(2)] by blast
        then show ?thesis using b by (auto simp: calc_rest_def intro: changes_ok_swap)
      next
        case c
        let ?k = "sl_len t1 div 2"
        obtain m where m: "optimal_column_to_split (front ?k t1) (rear ?k t1) t2 = Some m" "m \<le> sl_len t2"
          "lcs (slice_lines (front ?k t1)) (take m (slice_lines t2))
            + lcs (slice_lines (rear ?k t1)) (drop m (slice_lines t2))
            = lcs (slice_lines (front ?k t1) @ slice_lines (rear ?k t1)) (slice_lines t2)"
          using optimal_column_to_split_correct [of "front ?k t1" "rear ?k t1" t2] by blast
        have k: "?k \<le> sl_len t1" by simp
        have small: "sl_len (front ?k t1) < sl_len s1" "sl_len (rear ?k t1) < sl_len s1"
          using c(1) pq(1) by (auto simp: front_def rear_def sub_slice_def)
        have fr: "slice_ok (front ?k t1) ch1" "slice_ok (front m t2) ch2"
          using ok k m(2) by (auto simp: slice_ok_def front_def)
        obtain c1 c2 where A: "calc_changes (front ?k t1) (front m t2) ch1 ch2 = Some (c1, c2)"
          "changes_ok (front ?k t1) (front m t2) ch1 ch2 c1 c2"
          using less.hyps [OF small(1) fr] by blast
        then have wa: "changed_within (front ?k t1) ch1 c1" "changed_within (front m t2) ch2 c2"
          by (auto simp: changes_ok_def)
        have re: "slice_ok (rear ?k t1) c1" "slice_ok (rear m t2) c2"
          using halves_lift(1) [OF ok(1) k wa(1)] halves_lift(1) [OF ok(2) m(2) wa(2)] .
        obtain d1 d2 where B: "calc_changes (rear ?k t1) (rear m t2) c1 c2 = Some (d1, d2)"
          "changes_ok (rear ?k t1) (rear m t2) c1 c2 d1 d2"
          using less.hyps [OF small(2) re] by blast
        then have wb: "changed_within (rear ?k t1) c1 d1" "changed_within (rear m t2) c2 d2"
          by (auto simp: changes_ok_def)
        have run: "calc_rest t1 t2 ch1 ch2 = Some (d1, d2)"
          using c m(1) A(1) B(1) by (simp add: calc_rest_def Let_def)
        have t1: "slice_lines t1 = slice_lines (front ?k t1) @ slice_lines (rear ?k t1)"
          using slice_lines_halves [OF k] by simp
        have "changes_ok t1 t2 ch1 ch2 d1 d2"
          using halves_lift(2) [OF ok(1) k wa(1) wb(1)] halves_lift(2) [OF ok(2) m(2) wa(2) wb(2)]
            A(2) B(2) m(3) slice_lines_halves [OF m(2)]
          unfolding changes_ok_def t1 by auto
        with run show ?thesis by blast
      qed
    qed
    then show ?case
      using changes_ok_sub [OF pq less.prems] calc_changes_rest [OF t ok] by metis
  qed
  with that show thesis by blast
qed

end
