(* ===== verification/ConsDiffScan.thy ===== *)
theory ConsDiffScan
  imports ConsDiffCalc
begin

text \<open>
  The scan of \<^verbatim>\<open>gen_ed_diff\<close>: its assertions never fail, and when it does not refuse the
  inputs, the lines left unmarked in the two consensuses are the same.
\<close>

definition scan_inv :: "cdline list \<Rightarrow> cdline list \<Rightarrow> gen_scan_state \<Rightarrow> bool" where
  "scan_inv c1 c2 st \<longleftrightarrow>
     g_i1 st \<le> int (length c1) \<and> (g_i1 st = - 1 \<and> g_start1 st = 0 \<or> g_start1 st = g_i1 st \<and> 0 \<le> g_i1 st) \<and>
     g_i2 st \<le> int (length c2) \<and> (g_i2 st = - 1 \<and> g_start2 st = 0 \<or> g_start2 st = g_i2 st \<and> 0 \<le> g_i2 st) \<and>
     length (g_changed1 st) = length c1 \<and> length (g_changed2 st) = length c2 \<and>
     (\<forall>i. nat (g_start1 st) \<le> i \<and> i < length c1 \<longrightarrow> \<not> g_changed1 st ! i) \<and>
     (\<forall>i. nat (g_start2 st) \<le> i \<and> i < length c2 \<longrightarrow> \<not> g_changed2 st ! i) \<and>
     kept c1 (g_changed1 st) 0 (nat (g_start1 st)) = kept c2 (g_changed2 st) 0 (nat (g_start2 st))"

lemma gen_sync_no_abort:
  "- 1 \<le> i1 \<Longrightarrow> - 1 \<le> i2 \<Longrightarrow> gen_sync c1 c2 i1 i2 it1 it2 \<noteq> Aborts"
proof (induction c1 c2 i1 i2 it1 it2 rule: gen_sync.induct)
  case (1 c1 c2 i1 i2 it1 it2)
  let ?cmp = "base64cmp (hash it1) (hash it2)"
  consider (eq) "?cmp = 0" | (lt) "?cmp \<noteq> 0" "i1 < int (length c1) \<and> ?cmp < 0"
    | (gt) "?cmp \<noteq> 0" "\<not> (i1 < int (length c1) \<and> ?cmp < 0)" "i2 < int (length c2) \<and> ?cmp > 0"
    | (stuck) "?cmp \<noteq> 0" "\<not> (i1 < int (length c1) \<and> ?cmp < 0)" "\<not> (i2 < int (length c2) \<and> ?cmp > 0)"
    by blast
  then show ?case
  proof cases
    case lt
    have "gen_sync c1 c2 m i2 jt it2 \<noteq> Aborts"
      if "find_next_router_line c1 i1 it1 = Returns (m, jt)" "m \<noteq> int (length c1)" for m jt
      using "1.IH"(1) [OF refl refl refl lt that(1) refl that(2)] find_next_router_line_advances [OF that(1)]
        "1.prems" by simp
    then show ?thesis
      using lt find_next_router_line_no_abort [of i1 c1 it1] "1.prems"
      by (subst gen_sync.simps) (auto simp: Let_def and_then_Aborts_iff split: if_splits)
  next
    case gt
    have "gen_sync c1 c2 i1 m it1 jt \<noteq> Aborts"
      if "find_next_router_line c2 i2 it2 = Returns (m, jt)" "m \<noteq> int (length c2)" for m jt
      using "1.IH"(2) [OF refl refl refl gt that(1) refl that(2)] find_next_router_line_advances [OF that(1)]
        "1.prems" by simp
    then show ?thesis
      using gt find_next_router_line_no_abort [of i2 c2 it2] "1.prems"
      by (subst gen_sync.simps) (auto simp: Let_def and_then_Aborts_iff split: if_splits)
  next
    case eq
    then show ?thesis by (subst gen_sync.simps) (simp add: Let_def)
  next
    case stuck
    then show ?thesis
      by (subst gen_sync.simps) (simp only: Let_def if_False assertable.distinct not_False_eq_True)
  qed
qed

text \<open>The computation on one chunk.\<close>

lemma chunk_changes:
  assumes inv: "scan_inv c1 c2 st"
    and k: "g_start1 st \<le> k1" "0 \<le> k1" "k1 \<le> int (length c1)" "g_start2 st \<le> k2" "0 \<le> k2" "k2 \<le> int (length c2)"
  shows "gen_chunk c1 c2 st k1 k2 jt1 jt2 = Fails \<or>
    (\<exists>st'. gen_chunk c1 c2 st k1 k2 jt1 jt2 = Returns st' \<and> scan_inv c1 c2 st')"
proof -
  let ?a1 = "nat (g_start1 st)" and ?a2 = "nat (g_start2 st)"
  define s1 where "s1 = \<lparr>sl_list = c1, sl_offset = ?a1, sl_len = nat (k1 - g_start1 st)\<rparr>"
  define s2 where "s2 = \<lparr>sl_list = c2, sl_offset = ?a2, sl_len = nat (k2 - g_start2 st)\<rparr>"
  have start: "0 \<le> g_start1 st" "0 \<le> g_start2 st" using inv by (auto simp: scan_inv_def)
  have s: "smartlist_slice c1 (g_start1 st) k1 = Some s1" "smartlist_slice c2 (g_start2 st) k2 = Some s2"
    using k start by (auto simp: smartlist_slice_def s1_def s2_def Let_def)
  have e: "sl_offset s1 + sl_len s1 = nat k1" "sl_offset s2 + sl_len s2 = nat k2"
    using k start by (auto simp: s1_def s2_def nat_diff_distrib nat_mono)
  have ok: "slice_ok s1 (g_changed1 st)" "slice_ok s2 (g_changed2 st)"
    using inv k e unfolding slice_ok_def by (auto simp: scan_inv_def s1_def s2_def)
  obtain ch1 ch2 where c: "calc_changes s1 s2 (g_changed1 st) (g_changed2 st) = Some (ch1, ch2)"
    "changes_ok s1 s2 (g_changed1 st) (g_changed2 st) ch1 ch2" by (rule calc_changes_correct [OF ok])
  then have w: "changed_within s1 (g_changed1 st) ch1" "changed_within s2 (g_changed2 st) ch2"
    "slice_kept s1 ch1 = slice_kept s2 ch2" by (auto simp: changes_ok_def)
  have old: "kept c1 ch1 0 ?a1 = kept c1 (g_changed1 st) 0 ?a1" "kept c2 ch2 0 ?a2 = kept c2 (g_changed2 st) 0 ?a2"
    using w(1,2) by (auto intro!: kept_cong simp: changed_within_def s1_def s2_def)
  have new: "kept c1 ch1 ?a1 (nat k1) = kept c2 ch2 ?a2 (nat k2)"
    using w(3) e by (simp add: slice_kept_def) (simp add: s1_def s2_def)
  have "kept c1 ch1 0 (nat k1) = kept c2 ch2 0 (nat k2)"
    using kept_split [of 0 ?a1 "nat k1" c1 ch1] kept_split [of 0 ?a2 "nat k2" c2 ch2] old new inv k
    by (simp add: scan_inv_def nat_mono)
  moreover have "\<not> ch1 ! i" if "nat k1 \<le> i" "i < length c1" for i
  proof -
    have "ch1 ! i = g_changed1 st ! i" using w(1) e(1) that by (simp add: changed_within_def)
    then show ?thesis using inv k that start by (auto simp: scan_inv_def)
  qed
  moreover have "\<not> ch2 ! i" if "nat k2 \<le> i" "i < length c2" for i
  proof -
    have "ch2 ! i = g_changed2 st ! i" using w(2) e(2) that by (simp add: changed_within_def)
    then show ?thesis using inv k that start by (auto simp: scan_inv_def)
  qed
  ultimately show ?thesis
    using k w(1,2) inv by (simp add: gen_chunk_def s c(1) scan_inv_def changed_within_def)
qed

lemma gen_scan_step_inv:
  assumes inv: "scan_inv c1 c2 st"
  shows "gen_scan_step c1 c2 st \<noteq> Aborts" "gen_scan_step c1 c2 st = Returns st' \<Longrightarrow> scan_inv c1 c2 st'"
proof -
  let ?l1 = "int (length c1)" and ?l2 = "int (length c2)"
  let ?n1 = "if g_i1 st < ?l1 then find_next_router_line c1 (g_i1 st) (g_iter1 st)
    else Returns (g_i1 st, g_iter1 st)"
  let ?n2 = "if g_i2 st < ?l2 then find_next_router_line c2 (g_i2 st) (g_iter2 st)
    else Returns (g_i2 st, g_iter2 st)"
  have lo: "- 1 \<le> g_i1 st" "- 1 \<le> g_i2 st" "g_i1 st \<le> ?l1" "g_i2 st \<le> ?l2"
    using inv by (auto simp: scan_inv_def)
  have na: "?n1 \<noteq> Aborts" "?n2 \<noteq> Aborts"
    using lo find_next_router_line_no_abort by simp_all
  have r1: "g_start1 st \<le> i1 \<and> 0 \<le> i1 \<and> i1 \<le> ?l1" if "?n1 = Returns (i1, it1)" for i1 it1
    using that inv find_next_router_line_advances [of c1 "g_i1 st" "g_iter1 st" i1 it1]
    by (auto simp: scan_inv_def split: if_splits)
  have r2: "g_start2 st \<le> i2 \<and> 0 \<le> i2 \<and> i2 \<le> ?l2" if "?n2 = Returns (i2, it2)" for i2 it2
    using that inv find_next_router_line_advances [of c2 "g_i2 st" "g_iter2 st" i2 it2]
    by (auto simp: scan_inv_def split: if_splits)
  let ?sync = "\<lambda>i1 i2 it1 it2. if i1 < ?l1 \<or> i2 < ?l2 then gen_sync c1 c2 i1 i2 it1 it2
    else Returns (i1, i2, it1, it2)"
  have ns: "?sync i1 i2 it1 it2 \<noteq> Aborts" if "?n1 = Returns (i1, it1)" "?n2 = Returns (i2, it2)" for i1 i2 it1 it2
    using gen_sync_no_abort [of i1 i2 c1 c2 it1 it2] r1 [OF that(1)] r2 [OF that(2)] by simp
  have k: "g_start1 st \<le> k1 \<and> 0 \<le> k1 \<and> k1 \<le> ?l1 \<and> g_start2 st \<le> k2 \<and> 0 \<le> k2 \<and> k2 \<le> ?l2"
    if "?n1 = Returns (i1, it1)" "?n2 = Returns (i2, it2)" "?sync i1 i2 it1 it2 = Returns (k1, k2, jt1, jt2)"
    for i1 it1 i2 it2 k1 k2 jt1 jt2
    using r1 [OF that(1)] r2 [OF that(2)] that(3) gen_sync_advances [of c1 c2 i1 i2 it1 it2 k1 k2 jt1 jt2]
    by (auto split: if_splits)
  have chunk: "gen_chunk c1 c2 st k1 k2 jt1 jt2 = Fails \<or>
      (\<exists>st'. gen_chunk c1 c2 st k1 k2 jt1 jt2 = Returns st' \<and> scan_inv c1 c2 st')"
    if "?n1 = Returns (i1, it1)" "?n2 = Returns (i2, it2)" "?sync i1 i2 it1 it2 = Returns (k1, k2, jt1, jt2)"
    for i1 it1 i2 it2 k1 k2 jt1 jt2
    using k [OF that] by (intro chunk_changes [OF inv]) auto
  have nc: "gen_chunk c1 c2 st k1 k2 jt1 jt2 \<noteq> Aborts"
    if "?n1 = Returns (i1, it1)" "?n2 = Returns (i2, it2)" "?sync i1 i2 it1 it2 = Returns (k1, k2, jt1, jt2)"
    for i1 it1 i2 it2 k1 k2 jt1 jt2
    using chunk [OF that] by auto
  show "gen_scan_step c1 c2 st \<noteq> Aborts"
    unfolding gen_scan_step_def Let_def
    by (simp only: and_then_Aborts_iff split_paired_Ex prod.case) (use na ns nc in blast)
  show "scan_inv c1 c2 st'" if "gen_scan_step c1 c2 st = Returns st'"
    using that by (rule gen_scan_stepE) (use chunk in fastforce)
qed

lemma gen_scan_correct:
  assumes "scan_inv c1 c2 st"
  shows "gen_scan c1 c2 st \<noteq> Aborts"
    "gen_scan c1 c2 st = Returns (ch1, ch2) \<Longrightarrow> kept c1 ch1 0 (length c1) = kept c2 ch2 0 (length c2)"
proof -
  have "gen_scan c1 c2 st \<noteq> Aborts \<and>
    (gen_scan c1 c2 st = Returns (ch1, ch2) \<longrightarrow> kept c1 ch1 0 (length c1) = kept c2 ch2 0 (length c2))"
    using assms
  proof (induction c1 c2 st rule: gen_scan.induct)
    case (1 c1 c2 st)
    show ?case
    proof (cases "g_i1 st < int (length c1) \<or> g_i2 st < int (length c2)")
      case True
      then have run: "gen_scan c1 c2 st = and_then (gen_scan_step c1 c2 st) (gen_scan c1 c2)"
        by (subst gen_scan.simps) simp
      from gen_scan_step_inv [OF "1.prems"] "1.IH" [OF True] show ?thesis
        unfolding run by (cases "gen_scan_step c1 c2 st") auto
    next
      case False
      then have "gen_scan c1 c2 st = Returns (g_changed1 st, g_changed2 st)"
        by (subst gen_scan.simps) simp
      moreover have "nat (g_start1 st) = length c1" "nat (g_start2 st) = length c2"
        using False "1.prems" by (auto simp: scan_inv_def)
      ultimately show ?thesis using "1.prems" by (auto simp: scan_inv_def)
    qed
  qed
  then show "gen_scan c1 c2 st \<noteq> Aborts"
    "gen_scan c1 c2 st = Returns (ch1, ch2) \<Longrightarrow> kept c1 ch1 0 (length c1) = kept c2 ch2 0 (length c2)" by auto
qed

lemma scan_inv_init: "scan_inv c1 c2 (gen_scan_init c1 c2)"
  by (simp add: scan_inv_def gen_scan_init_def kept_def)

end
