(* ===== verification/ConsDiffApply.thy ===== *)
theory ConsDiffApply
  imports ConsDiffScan
begin

text \<open>
  Applying ed scripts (\<^verbatim>\<open>apply_ed_diff\<close> of \<^verbatim>\<open>src/feature/dircommon/consdiff.c\<close>) and
  the refinement between the generator and the applier: whatever script the generator writes,
  applying it to the base consensus gives the target. The indices \<open>start\<close>, \<open>end\<close> and \<open>j\<close>
  are integers since \<open>j\<close> reaches \<open>-1\<close> on commands with line number 0. All the format checks
  of a command return the same error, and the command line is a C string of the copied line.
\<close>

definition get_linenum :: "string \<Rightarrow> (int \<times> string) option" where
  "get_linenum s =
    (case s of [] \<Rightarrow> None | c # _ \<Rightarrow>
     if \<not> TOR_ISDIGIT c then None
     else case tor_parse_long s 0 INT32_MAX True of
       (num, ok, next) \<Rightarrow> if ok then Some (num, next) else None)"

definition SIZEOF_DIFF_LINE :: nat where "SIZEOF_DIFF_LINE = 128"

text \<open>The start, the end and the action of the command in a line, with all checks up to those
  on the action; \<open>len1\<close> is the length of the base consensus.\<close>

definition parse_ed_command :: "int \<Rightarrow> int \<Rightarrow> cdline \<Rightarrow> (int \<times> int \<times> char) option" where
  "parse_ed_command len1 j diff_cdline =
    (if length diff_cdline > SIZEOF_DIFF_LINE - 1 then None
     else case get_linenum (takeWhile (\<lambda>c. c \<noteq> NUL) diff_cdline) of None \<Rightarrow> None
     | Some (start, ptr) \<Rightarrow>
       let range = (case ptr of
           CHR '','' # ptr \<Rightarrow>
             (case ptr of
                CHR ''$'' # ptr \<Rightarrow> if len1 \<le> start then None else Some (len1, ptr, True, True)
              | _ \<Rightarrow> (case get_linenum ptr of None \<Rightarrow> None
                   | Some (end, ptr) \<Rightarrow> if end \<le> start then None else Some (end, ptr, True, False)))
         | _ \<Rightarrow> Some (start, ptr, False, False))
       in case range of None \<Rightarrow> None
       | Some (end, ptr, had_range, end_was_eof) \<Rightarrow>
         if end > j then None
         else case ptr of
           [] \<Rightarrow> None
         | _ # _ # _ \<Rightarrow> None
         | [action] \<Rightarrow>
           if action \<notin> {CHR ''a'', CHR ''c'', CHR ''d''} then None
           else if end_was_eof \<and> action \<noteq> CHR ''d'' then None
           else if had_range \<and> action = CHR ''a'' then None
           else Some (start, end, action))"

text \<open>The lines from index \<open>e\<close> up to below \<open>j\<close>, last first: the loops that copy
  unchanged lines.\<close>

definition copy_unchanged :: "cdline list \<Rightarrow> int \<Rightarrow> int \<Rightarrow> cdline list" where
  "copy_unchanged cons1 j e = rev (drop (nat e) (take (nat j) cons1))"

function apply_ed_loop :: "cdline list \<Rightarrow> cdline list \<Rightarrow> int \<Rightarrow> cdline list \<Rightarrow> (int \<times> cdline list) option" where
  "apply_ed_loop cons1 [] j cons2 = Some (j, cons2)"
| "apply_ed_loop cons1 (l # diff) j cons2 =
     (case parse_ed_command (int (length cons1)) j l of None \<Rightarrow> None
      | Some (start, end, action) \<Rightarrow>
        let cons2 = cons2 @ copy_unchanged cons1 j end;
            j = (if j > end then end else j);
            j = (if action \<noteq> CHR ''a'' then min (j - 1) (start - 1) else j)
        in if action = CHR ''d'' then apply_ed_loop cons1 diff j cons2
           else let new = takeWhile (\<lambda>l. \<not> line_str_eq l ''.'') diff
                in if length new = length diff then None
                   else if new = [] then None
                   else apply_ed_loop cons1 (drop (length new + 1) diff) j (cons2 @ rev new))"
  by pat_completeness auto
termination by (relation "measure (\<lambda>(c, d, j, a). length d)") auto

declare apply_ed_loop.simps(2) [simp del]

definition apply_ed_diff :: "cdline list \<Rightarrow> cdline list \<Rightarrow> nat \<Rightarrow> cdline list option" where
  "apply_ed_diff cons1 diff diff_starting_line =
    (case apply_ed_loop cons1 (drop diff_starting_line diff) (int (length cons1)) [] of None \<Rightarrow> None
     | Some (j, cons2) \<Rightarrow> Some (rev (cons2 @ copy_unchanged cons1 j 0)))"

section \<open>The commands that the generator prints\<close>

lemma show_nat_length: "n < 10 ^ k \<Longrightarrow> 0 < k \<Longrightarrow> length (show_nat n) \<le> k"
proof (induction n arbitrary: k rule: show_nat.induct)
  case (1 n)
  show ?case
  proof (cases "n < 10")
    case False
    then obtain k' where k: "k = Suc k'" "0 < k'" using "1.prems" by (cases k; cases "k - 1") auto
    then have "length (show_nat (n div 10)) \<le> k'" using "1.IH" [OF False, of k'] "1.prems" by auto
    then show ?thesis using False k by (simp add: show_nat.simps)
  qed (use "1.prems" in \<open>simp add: show_nat.simps\<close>)
qed

lemma show_nat_no_NUL: "c \<in> set (show_nat n) \<Longrightarrow> TOR_ISDIGIT c"
  using show_nat_digits [of n] by (simp add: list_all_iff)

lemma digit_not_NUL: "TOR_ISDIGIT c \<Longrightarrow> c \<noteq> NUL"
  by (auto simp: TOR_ISDIGIT_def)

lemma get_linenum_show_nat:
  assumes "rest = [] \<or> \<not> TOR_ISDIGIT (hd rest)" "int n \<le> INT32_MAX"
  shows "get_linenum (show_nat n @ rest) = Some (int n, rest)"
proof -
  obtain c s where c: "show_nat n = c # s" by (cases "show_nat n") auto
  then have "TOR_ISDIGIT c" using show_nat_digits [of n] by simp
  with tor_parse_long_show_nat [of rest True 0 n INT32_MAX] assms c show ?thesis
    by (auto simp: get_linenum_def)
qed

lemma takeWhile_not_NUL:
  "takeWhile (\<lambda>c. c \<noteq> NUL) (show_nat n @ rest) = show_nat n @ takeWhile (\<lambda>c. c \<noteq> NUL) rest"
  by (rule takeWhile_append2) (auto dest: show_nat_no_NUL digit_not_NUL)

lemma not_digits: "\<not> TOR_ISDIGIT CHR ''a''" "\<not> TOR_ISDIGIT CHR ''c''" "\<not> TOR_ISDIGIT CHR ''d''"
  "\<not> TOR_ISDIGIT CHR '',''" "\<not> TOR_ISDIGIT CHR ''$''"
  by code_simp+

lemma show_nat_not_dollar:
  "(case show_nat n @ r of CHR ''$'' # p \<Rightarrow> f p | _ \<Rightarrow> x) = x"
proof -
  obtain c s where c: "show_nat n = c # s" by (cases "show_nat n") auto
  then have "c \<noteq> CHR ''$''" using show_nat_digits [of n] not_digits(5) by auto
  then show ?thesis unfolding c by (auto split: char.splits bool.splits)
qed

lemma parse_single:
  assumes "int n \<le> INT32_MAX" "int n \<le> j" "a \<in> {CHR ''a'', CHR ''c'', CHR ''d''}"
  shows "parse_ed_command len1 j (show_nat n @ [a]) = Some (int n, int n, a)"
proof -
  have "length (show_nat n) \<le> 10" using assms(1) by (intro show_nat_length) auto
  moreover have "get_linenum (show_nat n @ [a]) = Some (int n, [a])"
    using assms not_digits by (intro get_linenum_show_nat) auto
  ultimately show ?thesis
    using assms by (auto simp: parse_ed_command_def SIZEOF_DIFF_LINE_def takeWhile_not_NUL)
qed

lemma parse_range:
  assumes "int m \<le> INT32_MAX" "int m \<le> j" "n < m" "a \<in> {CHR ''c'', CHR ''d''}"
  shows "parse_ed_command len1 j (show_nat n @ '','' @ show_nat m @ [a]) = Some (int n, int m, a)"
proof -
  have "length (show_nat n) \<le> 10" "length (show_nat m) \<le> 10"
    using assms(1,3) by (auto intro!: show_nat_length)
  moreover have "get_linenum (show_nat n @ '','' @ show_nat m @ [a]) = Some (int n, '','' @ show_nat m @ [a])"
    using assms not_digits by (intro get_linenum_show_nat) auto
  moreover have "get_linenum (show_nat m @ [a]) = Some (int m, [a])"
    using assms not_digits by (intro get_linenum_show_nat) auto
  ultimately show ?thesis
    using assms by (auto simp: parse_ed_command_def SIZEOF_DIFF_LINE_def takeWhile_not_NUL show_nat_not_dollar)
qed

lemma parse_trailer:
  assumes "int n \<le> INT32_MAX" "int n < len1" "len1 \<le> j"
  shows "parse_ed_command len1 j (show_nat n @ '',$d'') = Some (int n, len1, CHR ''d'')"
proof -
  have "length (show_nat n) \<le> 10" using assms(1) by (intro show_nat_length) auto
  moreover have "get_linenum (show_nat n @ '',$d'') = Some (int n, '',$d'')"
    using assms not_digits by (intro get_linenum_show_nat) auto
  ultimately show ?thesis
    using assms by (auto simp: parse_ed_command_def SIZEOF_DIFF_LINE_def takeWhile_not_NUL)
qed

section \<open>The script of the generator, applied\<close>

lemma skip_changed_spec:
  "\<And>i. skip_changed ch n \<le> i \<Longrightarrow> i < n \<Longrightarrow> ch ! i"
  "0 < skip_changed ch n \<Longrightarrow> \<not> ch ! (skip_changed ch n - 1)"
  by (induction n) (auto simp: less_Suc_eq split: if_splits)

lemma kept_skip: "kept l ch 0 (skip_changed ch n) = kept l ch 0 n"
  using kept_split [of 0 "skip_changed ch n" n l ch] skip_changed_le [of ch n]
    kept_none [of "skip_changed ch n" n ch l] skip_changed_spec(1) [of ch n] by simp

lemma parse_gen_command:
  assumes "n1 \<le> j" "int j \<le> INT32_MAX" "m1 \<le> n1" "0 < added \<or> m1 < n1"
  shows "parse_ed_command len1 (int j) (gen_command m1 added (n1 - m1))
    = Some (if m1 < n1 then int m1 + 1 else int m1, int n1,
        if added = 0 then CHR ''d'' else if m1 < n1 then CHR ''c'' else CHR ''a'')"
proof -
  have b: "int n1 \<le> INT32_MAX" "int n1 \<le> int j" using assms(1,2) by auto
  consider (zero) "n1 = m1" | (one) "n1 = m1 + 1" | (more) "m1 + 1 < n1" using assms(3) by linarith
  then show ?thesis
  proof cases
    case zero
    then show ?thesis using parse_single [OF b, of "CHR ''a''" len1] assms(4) by (simp add: gen_command_def)
  next
    case one
    then show ?thesis
      using parse_single [OF b, of "CHR ''c''" len1] parse_single [OF b, of "CHR ''d''" len1]
      by (simp add: gen_command_def)
  next
    case more
    then have "m1 + (n1 - m1) = n1" "m1 \<noteq> n1" "n1 - m1 \<noteq> 1" "n1 - m1 \<noteq> 0" by auto
    then show ?thesis
      using parse_range [OF b more, of "CHR ''c''" len1] parse_range [OF b more, of "CHR ''d''" len1] more
      by (simp add: gen_command_def)
  qed
qed

lemma copy_unchanged_app:
  "e \<le> j \<Longrightarrow> rev (acc @ copy_unchanged c1 (int j) (int e)) = drop e (take j c1) @ rev acc"
  by (simp add: copy_unchanged_def)

text \<open>One command of the script: the applier's position moves from \<open>j\<close> to \<open>m1\<close>.\<close>

lemma apply_gen_command:
  assumes "n1 \<le> j" "int j \<le> INT32_MAX" "m1 \<le> n1" "new \<noteq> [] \<or> m1 < n1"
    and "list_all (\<lambda>l. \<not> line_str_eq l ''.'') new"
  shows "apply_ed_loop c1 (gen_command m1 (length new) (n1 - m1) # (if new = [] then r else new @ ''.'' # r))
      (int j) acc
    = apply_ed_loop c1 r (int m1) (acc @ copy_unchanged c1 (int j) (int n1) @ rev new)"
proof -
  have p: "parse_ed_command (int (length c1)) (int j) (gen_command m1 (length new) (n1 - m1))
    = Some (if m1 < n1 then int m1 + 1 else int m1, int n1,
        if new = [] then CHR ''d'' else if m1 < n1 then CHR ''c'' else CHR ''a'')"
    using parse_gen_command [OF assms(1-3), of "length new"] assms(4) by simp
  have dot: "line_str_eq ''.'' ''.''" by (simp add: line_str_eq_def lines_eq_def)
  have tw: "takeWhile (\<lambda>l. \<not> line_str_eq l ''.'') (new @ ''.'' # r) = new"
    using assms(5) dot by (simp add: list_all_iff takeWhile_append2)
  show ?thesis
    using assms(1,3,4) by (subst apply_ed_loop.simps) (auto simp: p Let_def tw)
qed

lemma gen_commands_unchanged:
  assumes "kept c1 ch1 0 n1 = kept c2 ch2 0 n2" "\<not> (n1 = 0 \<and> n2 = 0)"
    "\<not> (n1 > 0 \<and> ch1 ! (n1 - 1)) \<and> \<not> (n2 > 0 \<and> ch2 ! (n2 - 1))"
  obtains m1 m2 where "n1 = Suc m1" "n2 = Suc m2" "c1 ! m1 = c2 ! m2" "kept c1 ch1 0 m1 = kept c2 ch2 0 m2"
  using assms by (cases n1; cases n2) (auto simp: kept_def)

lemma gen_commands_applies:
  assumes "gen_commands c2 ch1 ch2 n1 n2 = Some d" "kept c1 ch1 0 n1 = kept c2 ch2 0 n2"
    "n1 \<le> j" "j \<le> length c1" "int (length c1) \<le> INT32_MAX" "n2 \<le> length c2"
    "drop n1 (take j c1) @ rev acc = drop n2 c2"
  shows "\<exists>m acc'. apply_ed_loop c1 d (int j) acc = Some (int m, acc') \<and> take m c1 @ rev acc' = c2"
  using assms
proof (induction c2 ch1 ch2 n1 n2 arbitrary: d j acc rule: gen_commands.induct)
  case (1 c2 ch1 ch2 n1 n2)
  let ?changed = "\<not> (\<not> (n1 > 0 \<and> ch1 ! (n1 - 1)) \<and> \<not> (n2 > 0 \<and> ch2 ! (n2 - 1)))"
  consider (fin) "n1 = 0 \<and> n2 = 0" | (same) "\<not> (n1 = 0 \<and> n2 = 0)" "\<not> ?changed"
    | (chunk) "\<not> (n1 = 0 \<and> n2 = 0)" "?changed" by blast
  then show ?case
  proof cases
    case fin
    then have "d = []" using "1.prems"(1) by (subst (asm) gen_commands.simps) simp
    then show ?thesis using "1.prems"(7) fin by auto
  next
    case same
    obtain m1 m2 where m: "n1 = Suc m1" "n2 = Suc m2" "c1 ! m1 = c2 ! m2" "kept c1 ch1 0 m1 = kept c2 ch2 0 m2"
      using gen_commands_unchanged [OF "1.prems"(2) same(1)] same(2) by blast
    have "gen_commands c2 ch1 ch2 m1 m2 = Some d"
      using "1.prems"(1) same m(1,2) by (subst (asm) gen_commands.simps) simp
    moreover have "drop m1 (take j c1) @ rev acc = drop m2 c2"
    proof -
      have "drop m1 (take j c1) = c1 ! m1 # drop n1 (take j c1)"
        using "1.prems"(3,4) m(1) Cons_nth_drop_Suc [of m1 "take j c1"] by simp
      moreover have "drop m2 c2 = c2 ! m2 # drop n2 c2"
        using "1.prems"(6) m(2) Cons_nth_drop_Suc [of m2 c2] by simp
      ultimately show ?thesis using "1.prems"(7) m(3) by simp
    qed
    ultimately show ?thesis
      using "1.IH"(1) [OF same(1)] same(2) m "1.prems"(3-6) by simp
  next
    case chunk
    let ?m1 = "skip_changed ch1 n1" and ?m2 = "skip_changed ch2 n2"
    let ?new = "map ((!) c2) [?m2..<n2]"
    have le: "?m1 \<le> n1" "?m2 \<le> n2" by (rule skip_changed_le)+
    have less: "?m2 < n2 \<or> ?m1 < n1"
      using chunk(2) skip_changed_less [of n1 ch1] skip_changed_less [of n2 ch2] by auto
    have dots: "list_all (\<lambda>l. \<not> line_str_eq l ''.'') ?new"
      using "1.prems"(1) chunk by (subst (asm) gen_commands.simps) (auto simp: Let_def list_all_iff list_ex_iff split: if_splits)
    obtain r where r: "gen_commands c2 ch1 ch2 ?m1 ?m2 = Some r"
      "d = gen_command ?m1 (length ?new) (n1 - ?m1) # (if ?new = [] then r else ?new @ ''.'' # r)"
      using "1.prems"(1) chunk by (subst (asm) gen_commands.simps) (auto simp: Let_def split: if_splits)
    let ?acc = "acc @ copy_unchanged c1 (int j) (int n1) @ rev ?new"
    have run: "apply_ed_loop c1 d (int j) acc = apply_ed_loop c1 r (int ?m1) ?acc"
      unfolding r(2) using "1.prems"(3-5) le less dots by (intro apply_gen_command) auto
    have "rev ?acc = ?new @ drop n1 (take j c1) @ rev acc" by (simp add: copy_unchanged_def)
    also have "\<dots> = ?new @ drop n2 c2" by (simp only: "1.prems"(7))
    also have "\<dots> = drop ?m2 c2"
    proof -
      have "?new = take (n2 - ?m2) (drop ?m2 c2)" using "1.prems"(6) le(2)
        by (intro nth_equalityI) auto
      then show ?thesis using le(2) by (metis append_take_drop_id drop_drop le_add_diff_inverse2)
    qed
    finally have acc: "drop ?m1 (take ?m1 c1) @ rev ?acc = drop ?m2 c2" by simp
    have kept: "kept c1 ch1 0 ?m1 = kept c2 ch2 0 ?m2" using "1.prems"(2) by (simp add: kept_skip)
    have b: "?m1 \<le> length c1" "?m2 \<le> length c2" using le "1.prems"(3,4,6) by auto
    show ?thesis
      unfolding run
    proof (cases "?new = []")
      case True
      then show "\<exists>m acc'. apply_ed_loop c1 r (int ?m1) ?acc = Some (int m, acc') \<and> take m c1 @ rev acc' = c2"
        by (intro "1.IH"(2) [OF chunk refl refl refl refl refl refl _ r(1) kept order_refl b(1) "1.prems"(5) b(2) acc])
          (use le in auto)
    next
      case False
      then show "\<exists>m acc'. apply_ed_loop c1 r (int ?m1) ?acc = Some (int m, acc') \<and> take m c1 @ rev acc' = c2"
        by (intro "1.IH"(3) [OF chunk refl refl refl refl refl refl _ _ r(1) kept order_refl b(1) "1.prems"(5) b(2) acc])
          (use le dots in \<open>auto simp: list_all_iff list_ex_iff\<close>)
    qed
  qed
qed

lemma kept_take: "b \<le> k \<Longrightarrow> kept (take k l) ch a b = kept l ch a b"
  by (auto simp: kept_def)

lemma gen_ed_diff_applies:
  assumes "gen_ed_diff c1 c2 = Returns d" "int (length c1) \<le> INT32_MAX"
    "c1 = [] \<or> \<not> line_starts_with_str (last c1) START_OF_SIGNATURES_SECTION
      \<or> list_ex (\<lambda>l. line_starts_with_str l START_OF_SIGNATURES_SECTION) (butlast c1)"
  shows "apply_ed_diff c1 d 0 = Some c2"
proof -
  let ?k = "length (takeWhile (\<lambda>l. \<not> line_starts_with_str l START_OF_SIGNATURES_SECTION) c1)"
  obtain c1' tr where pre: "preprocess_consensus c1 = (c1', tr)" by fastforce
  have klen: "?k \<le> length c1" by (rule length_takeWhile_le)
  then have c1': "c1' = take ?k c1"
    using pre by (auto simp: preprocess_consensus_def Let_def split: if_splits)
  have len: "length c1' = ?k" using c1' klen by simp
  from assms(1) obtain ch1 ch2 cmds where g: "gen_scan c1' c2 (gen_scan_init c1' c2) = Returns (ch1, ch2)"
    "gen_commands c2 ch1 ch2 (length c1') (length c2) = Some cmds"
    "d = (case tr of None \<Rightarrow> [] | Some l \<Rightarrow> [l]) @ cmds"
    by (auto simp: gen_ed_diff_def pre and_then_Returns_iff split: option.splits)
  have k1: "kept c1' ch1 0 (length c1') = kept c2 ch2 0 (length c2)"
    using gen_scan_correct(2) [OF scan_inv_init g(1)] .
  have k: "kept c1 ch1 0 ?k = kept c2 ch2 0 (length c2)"
    using k1 kept_take [of ?k ?k c1 ch1] c1' unfolding len by simp
  have main: "\<exists>m acc'. apply_ed_loop c1 cmds (int ?k) [] = Some (int m, acc') \<and> take m c1 @ rev acc' = c2"
    using gen_commands_applies [OF g(2) [unfolded len] k order_refl klen assms(2) order_refl, of "[]"] by simp
  have "apply_ed_loop c1 d (int (length c1)) [] = apply_ed_loop c1 cmds (int ?k) []"
  proof (cases "?k < length c1")
    case False
    then show ?thesis using pre g(3) klen by (auto simp: preprocess_consensus_def Let_def)
  next
    case True
    then have tr: "tr = Some (show_nat (?k + 1) @ '',$d'')"
      using pre by (auto simp: preprocess_consensus_def Let_def)
    have "?k + 1 < length c1"
    proof (rule ccontr)
      assume "\<not> ?k + 1 < length c1"
      with True have l: "?k = length c1 - 1" by simp
      then have "takeWhile (\<lambda>l. \<not> line_starts_with_str l START_OF_SIGNATURES_SECTION) c1 = butlast c1"
        by (metis butlast_conv_take takeWhile_eq_take)
      then have "\<not> list_ex (\<lambda>l. line_starts_with_str l START_OF_SIGNATURES_SECTION) (butlast c1)"
        by (metis (mono_tags, lifting) list_ex_iff set_takeWhileD)
      moreover have "line_starts_with_str (last c1) START_OF_SIGNATURES_SECTION"
        using nth_length_takeWhile [OF True] l True last_conv_nth [of c1] by (cases "c1 = []") auto
      ultimately show False using assms(3) True by auto
    qed
    then have p: "parse_ed_command (int (length c1)) (int (length c1)) (show_nat (?k + 1) @ '',$d'')
      = Some (int (?k + 1), int (length c1), CHR ''d'')"
      using assms(2) by (intro parse_trailer) auto
    show ?thesis
      using \<open>?k + 1 < length c1\<close>
      by (simp add: g(3) tr, subst apply_ed_loop.simps)
        (simp add: p [simplified] copy_unchanged_def Let_def min_def)
  qed
  with main show ?thesis by (auto simp: apply_ed_diff_def copy_unchanged_def)
qed

end
