(* ===== verification/ConsDiff.thy ===== *)
theory ConsDiff
  imports ConsDiffApply
begin

text \<open>
  Consensus diffs as documents (\<^verbatim>\<open>src/feature/dircommon/consdiff.c\<close>): the header with
  the digests of both consensuses, generation with its self-test, application with its checks,
  and the properties of the whole component. The two digest functions (SHA3-256 of a byte
  string, and of the signed part of a consensus, which \<^verbatim>\<open>router_get_networkstatus_v3_sha3_as_signed\<close>
  cuts out) are parameters that return the bytes of the digest, or \<^const>\<open>None\<close> on failure. A
  returned \<^verbatim>\<open>char *\<close> is the C string that its readers see.
\<close>

definition DIGEST256_LEN :: nat where "DIGEST256_LEN = 32"
definition HEX_DIGEST256_LEN :: nat where "HEX_DIGEST256_LEN = 64"
definition SIZE_MAX :: nat where "SIZE_MAX = 18446744073709551615"

definition c_string :: "string \<Rightarrow> string" where
  "c_string s = takeWhile (\<lambda>c. c \<noteq> NUL) s"

definition consdiff_gen_diff :: "cdline list \<Rightarrow> cdline list \<Rightarrow> string \<Rightarrow> string \<Rightarrow> cdline list assertable" where
  "consdiff_gen_diff cons1 cons2 digests1 digests2 =
    and_then (gen_ed_diff cons1 cons2) (\<lambda>ed_diff.
      case apply_ed_diff cons1 ed_diff 0 of
        None \<Rightarrow> Fails
      | Some ed_cons2 \<Rightarrow>
        if \<not> (length cons2 = length ed_cons2 \<and> list_all2 lines_eq cons2 ed_cons2) then Fails
        else and_then (assert_some (base16_encode (HEX_DIGEST256_LEN + 1) digests1)) (\<lambda>cons1_hash_hex.
             and_then (assert_some (base16_encode (HEX_DIGEST256_LEN + 1) digests2)) (\<lambda>cons2_hash_hex.
             Returns (ns_diff_version
               # (hash_token @ '' '' @ cons1_hash_hex @ '' '' @ cons2_hash_hex) # ed_diff))))"

definition consdiff_get_digests :: "cdline list \<Rightarrow> (string \<times> string) option" where
  "consdiff_get_digests diff =
    (if length diff < 2 then None
     else if \<not> line_str_eq (diff ! 0) ns_diff_version then None
     else case smartlist_split_string [] (c_string (diff ! 1)) (Some '' '') no_flags 4 of
       None \<Rightarrow> None
     | Some (_, hash_words) \<Rightarrow>
       if length hash_words \<noteq> 3 \<or> strcmp (hash_words ! 0) hash_token \<noteq> 0 then None
       else let cons1_hash_hex = hash_words ! 1; cons2_hash_hex = hash_words ! 2
         in if length cons1_hash_hex \<noteq> HEX_DIGEST256_LEN \<or> length cons2_hash_hex \<noteq> HEX_DIGEST256_LEN
            then None
            else case (base16_decode DIGEST256_LEN cons1_hash_hex, base16_decode DIGEST256_LEN cons2_hash_hex) of
              (Some cons1_hash, Some cons2_hash) \<Rightarrow>
                if length cons1_hash \<noteq> DIGEST256_LEN \<or> length cons2_hash \<noteq> DIGEST256_LEN then None
                else Some (cons1_hash, cons2_hash)
            | _ \<Rightarrow> None)"

definition consdiff_apply_diff :: "(string \<Rightarrow> string option) \<Rightarrow> cdline list \<Rightarrow> cdline list \<Rightarrow> string \<Rightarrow> string option" where
  "consdiff_apply_diff consensus_compute_digest cons1 diff digests1 =
    (case consdiff_get_digests diff of None \<Rightarrow> None
     | Some (e_cons1_hash, e_cons2_hash) \<Rightarrow>
       if digests1 \<noteq> e_cons1_hash then None
       else case apply_ed_diff cons1 diff 2 of None \<Rightarrow> None
       | Some cons2 \<Rightarrow>
         let cons2_str = c_string (consensus_join_lines cons2)
         in case consensus_compute_digest cons2_str of None \<Rightarrow> None
            | Some cons2_digests \<Rightarrow> if cons2_digests \<noteq> e_cons2_hash then None else Some cons2_str)"

definition consensus_diff_generate :: "(string \<Rightarrow> string option) \<Rightarrow> (string \<Rightarrow> string option)
    \<Rightarrow> string \<Rightarrow> string \<Rightarrow> string assertable" where
  "consensus_diff_generate digest_as_signed compute_digest cons1 cons2 =
    (case (digest_as_signed cons1, compute_digest cons2) of
       (Some d1, Some d2) \<Rightarrow>
         (case consensus_split_lines [] cons1 SIZE_MAX of None \<Rightarrow> Fails
          | Some lines1 \<Rightarrow>
            (case consensus_split_lines [] cons2 SIZE_MAX of None \<Rightarrow> Fails
             | Some lines2 \<Rightarrow>
               and_then (consdiff_gen_diff lines1 lines2 d1 d2)
                 (\<lambda>result_lines. Returns (c_string (consensus_join_lines result_lines)))))
     | _ \<Rightarrow> Fails)"

definition consensus_diff_apply :: "(string \<Rightarrow> string option) \<Rightarrow> (string \<Rightarrow> string option)
    \<Rightarrow> string \<Rightarrow> string \<Rightarrow> string option" where
  "consensus_diff_apply digest_as_signed compute_digest cons diff =
    (if length diff \<ge> 64 * 1024 \<and> length diff div 2 \<ge> length cons then None
     else case digest_as_signed cons of None \<Rightarrow> None
     | Some d1 \<Rightarrow>
       (case consensus_split_lines [] cons SIZE_MAX of None \<Rightarrow> None
        | Some lines1 \<Rightarrow>
          if length lines1 > SIZE_MAX div 3 then None
          else case consensus_split_lines [] diff (max (length lines1 * 3) 1024) of None \<Rightarrow> None
          | Some lines2 \<Rightarrow> consdiff_apply_diff compute_digest lines1 lines2 d1))"

definition looks_like_a_consensus_diff :: "string \<Rightarrow> bool" where
  "looks_like_a_consensus_diff document \<longleftrightarrow>
    length document \<ge> length ns_diff_version \<and> take (length ns_diff_version) document = ns_diff_version"

section \<open>The changed lines and the script\<close>

text \<open>C22: \<^verbatim>\<open>calc_changes\<close> is a correct and optimal diff. On two slices whose bits are
  clear it never fails an assertion; it sets bits only inside the slices; the lines it leaves
  unmarked are the same in both; and there are as many of them as in a longest common
  subsequence of the two slices, so no smaller set of changes exists.\<close>

theorem calc_changes_optimal:
  assumes "slice_ok s1 ch1" "slice_ok s2 ch2"
  shows "\<exists>ch1' ch2'. calc_changes s1 s2 ch1 ch2 = Some (ch1', ch2')
    \<and> changed_within s1 ch1 ch1' \<and> changed_within s2 ch2 ch2'
    \<and> slice_kept s1 ch1' = slice_kept s2 ch2'
    \<and> length (slice_kept s1 ch1') = lcs (slice_lines s1) (slice_lines s2)"
  using calc_changes_correct [OF assms] unfolding changes_ok_def by metis

theorem calc_changes_optimal_witness:
  "\<exists>ch1' ch2'. calc_changes \<lparr>sl_list = [''a'', ''b'', ''c'', ''d''], sl_offset = 0, sl_len = 4\<rparr>
      \<lparr>sl_list = [''b'', ''x'', ''d''], sl_offset = 0, sl_len = 3\<rparr>
      (replicate 4 False) (replicate 3 False) = Some (ch1', ch2')
    \<and> slice_kept \<lparr>sl_list = [''a'', ''b'', ''c'', ''d''], sl_offset = 0, sl_len = 4\<rparr> ch1'
      = slice_kept \<lparr>sl_list = [''b'', ''x'', ''d''], sl_offset = 0, sl_len = 3\<rparr> ch2'"
proof -
  have nth: "\<not> replicate n False ! i" if "i < n" for n i using that by simp
  have "slice_ok \<lparr>sl_list = [''a'', ''b'', ''c'', ''d''], sl_offset = 0, sl_len = 4\<rparr> (replicate 4 False)"
    "slice_ok \<lparr>sl_list = [''b'', ''x'', ''d''], sl_offset = 0, sl_len = 3\<rparr> (replicate 3 False)"
    using nth [of _ 4] nth [of _ 3] by (auto simp: slice_ok_def)
  from calc_changes_optimal [OF this] show ?thesis by blast
qed

text \<open>C8: The generator and the applier of ed scripts are inverse to each other. The generator's
  assertions never fail, and whatever script it returns, applying it to the base consensus gives
  exactly the target, unless the first line that starts the signatures of the base is its very
  last line.\<close>

theorem gen_ed_diff_correct:
  assumes "int (length c1) \<le> INT32_MAX"
    "c1 = [] \<or> \<not> line_starts_with_str (last c1) START_OF_SIGNATURES_SECTION
      \<or> list_ex (\<lambda>l. line_starts_with_str l START_OF_SIGNATURES_SECTION) (butlast c1)"
  shows "gen_ed_diff c1 c2 \<noteq> Aborts \<and>
    (\<forall>d. gen_ed_diff c1 c2 = Returns d \<longrightarrow> apply_ed_diff c1 d 0 = Some c2)"
proof -
  have "gen_ed_diff c1 c2 \<noteq> Aborts"
    using gen_scan_correct(1) [OF scan_inv_init]
    by (auto simp: gen_ed_diff_def and_then_Aborts_iff split: prod.splits option.splits)
  with gen_ed_diff_applies [OF _ assms] show ?thesis by blast
qed

theorem gen_ed_diff_correct_witness:
  "gen_ed_diff [''a'', ''r x AAA'', ''s'', ''b''] [''a'', ''r x AAA'', ''q'', ''b'', ''c'']
     = Returns [''4a'', ''c'', ''.'', ''3c'', ''q'', ''.'']
   \<and> apply_ed_diff [''a'', ''r x AAA'', ''s'', ''b''] [''4a'', ''c'', ''.'', ''3c'', ''q'', ''.''] 0
     = Some [''a'', ''r x AAA'', ''q'', ''b'', ''c'']"
proof -
  have d: "gen_ed_diff [''a'', ''r x AAA'', ''s'', ''b''] [''a'', ''r x AAA'', ''q'', ''b'', ''c'']
     = Returns [''4a'', ''c'', ''.'', ''3c'', ''q'', ''.'']" by code_simp
  have s: "\<not> line_starts_with_str ''b'' START_OF_SIGNATURES_SECTION" by code_simp
  have "int (length [''a'', ''r x AAA'', ''s'', ''b'']) \<le> INT32_MAX" by simp
  from gen_ed_diff_correct [OF this, of "[''a'', ''r x AAA'', ''q'', ''b'', ''c'']"] s d
  show ?thesis by auto
qed

text \<open>C35: A base consensus whose signatures start on its very last line is refused: the
  generator writes the delete command of the trailer as \<^verbatim>\<open>N,$d\<close> where the applier
  demands a range of at least two lines, so the self-test of \<^verbatim>\<open>consdiff_gen_diff\<close> fails for
  every target.\<close>

theorem last_line_signature_refused:
  assumes "c1 \<noteq> []" "line_starts_with_str (last c1) START_OF_SIGNATURES_SECTION"
    "\<not> list_ex (\<lambda>l. line_starts_with_str l START_OF_SIGNATURES_SECTION) (butlast c1)"
    "int (length c1) \<le> INT32_MAX"
  shows "consdiff_gen_diff c1 c2 d1 d2 = Fails"
proof -
  let ?p = "\<lambda>l. \<not> line_starts_with_str l START_OF_SIGNATURES_SECTION"
  have "c1 = butlast c1 @ [last c1]" using assms(1) by simp
  moreover have "\<And>l. l \<in> set (butlast c1) \<Longrightarrow> ?p l" using assms(3) by (auto simp: list_ex_iff)
  ultimately have tw: "takeWhile ?p c1 = butlast c1"
    using assms(2) takeWhile_append2 [of "butlast c1" ?p "[last c1]"] by simp
  have "parse_ed_command (int (length c1)) (int (length c1)) (show_nat (length c1) @ '',$d'') = None"
  proof -
    have "length (show_nat (length c1)) \<le> 10" using assms(4) by (intro show_nat_length) auto
    moreover have "get_linenum (show_nat (length c1) @ '',$d'') = Some (int (length c1), '',$d'')"
      using assms not_digits by (intro get_linenum_show_nat) auto
    ultimately show ?thesis by (simp add: parse_ed_command_def SIZEOF_DIFF_LINE_def takeWhile_not_NUL)
  qed
  then have no: "apply_ed_diff c1 ((show_nat (length c1) @ '',$d'') # cmds) 0 = None" for cmds
    by (simp add: apply_ed_diff_def apply_ed_loop.simps)
  have na: "gen_ed_diff c1 c2 \<noteq> Aborts"
    using gen_scan_correct(1) [OF scan_inv_init]
    by (auto simp: gen_ed_diff_def and_then_Aborts_iff split: prod.splits option.splits)
  have pre: "preprocess_consensus c1 = (butlast c1, Some (show_nat (length c1) @ '',$d''))"
    using assms(1) by (simp add: preprocess_consensus_def tw Let_def butlast_conv_take)
  have "\<exists>cmds. d = (show_nat (length c1) @ '',$d'') # cmds" if "gen_ed_diff c1 c2 = Returns d" for d
    using that by (auto simp: gen_ed_diff_def pre and_then_Returns_iff split: option.splits)
  with no have "apply_ed_diff c1 d 0 = None" if "gen_ed_diff c1 c2 = Returns d" for d
    using that by fastforce
  then show ?thesis
    using na by (cases "gen_ed_diff c1 c2") (auto simp: consdiff_gen_diff_def)
qed

theorem last_line_signature_refused_witness:
  "consdiff_gen_diff [''a'', ''directory-signature x''] [''b''] (replicate 32 NUL) (replicate 32 NUL) = Fails"
proof -
  have s: "line_starts_with_str ''directory-signature x'' START_OF_SIGNATURES_SECTION"
    "\<not> line_starts_with_str ''a'' START_OF_SIGNATURES_SECTION" by code_simp+
  show ?thesis by (rule last_line_signature_refused) (use s in simp_all)
qed

text \<open>C9: The applier returns a document only if the header of the diff names the digest
  as signed of the base it was given and the digest of the very document returned, and only if
  the diff is within the size limits; so a successful application is always the consensus the
  diff's author named.\<close>

theorem consensus_diff_apply_sound:
  assumes "consensus_diff_apply das cd cons diff = Some res"
  shows "\<exists>lines h1 h2. diff = consensus_join_lines lines \<and> consdiff_get_digests lines = Some (h1, h2)
    \<and> das cons = Some h1 \<and> cd res = Some h2
    \<and> (length diff < 65536 \<or> length diff div 2 < length cons)
    \<and> length lines \<le> max (3 * length (filter (\<lambda>c. c = NL) cons)) 1024"
proof -
  from assms obtain d1 lines1 lines2 where s: "length diff < 65536 \<or> length diff div 2 < length cons"
    "das cons = Some d1" "consensus_split_lines [] cons SIZE_MAX = Some lines1"
    "consensus_split_lines [] diff (max (length lines1 * 3) 1024) = Some lines2"
    "consdiff_apply_diff cd lines1 lines2 d1 = Some res"
    by (auto simp: consensus_diff_apply_def not_le split: if_splits option.splits)
  from s(5) obtain h1 h2 where h: "consdiff_get_digests lines2 = Some (h1, h2)" "d1 = h1" "cd res = Some h2"
    by (auto simp: consdiff_apply_diff_def Let_def split: option.splits if_splits)
  note sp1 = consensus_split_lines_append [OF s(3)] and sp2 = consensus_split_lines_append [OF s(4)]
  have "length (filter (\<lambda>c. c = NL) cons) = length lines1"
  proof -
    from sp1 have "cons = consensus_join_lines lines1" "list_all (\<lambda>l. NL \<notin> set l) lines1" by auto
    then show ?thesis by (simp add: filter_NL_join)
  qed
  moreover from sp2 have "diff = consensus_join_lines lines2" "length lines2 \<le> max (length lines1 * 3) 1024"
    by auto
  ultimately show ?thesis using s(1,2) h by (intro exI [of _ lines2]) (auto simp: mult.commute)
qed

section \<open>The round trip of documents\<close>

definition plain_line :: "cdline \<Rightarrow> bool" where
  "plain_line l \<longleftrightarrow> NL \<notin> set l \<and> NUL \<notin> set l \<and> length l \<le> CONSENSUS_LINE_MAX_LEN"

lemma digit_plain: "TOR_ISDIGIT c \<Longrightarrow> c \<noteq> NL \<and> c \<noteq> NUL"
  by (auto simp: TOR_ISDIGIT_def)

lemma gen_command_plain:
  assumes "m1 \<le> n1" "n1 < 10 ^ 20" "0 < added \<or> m1 < n1"
  shows "plain_line (gen_command m1 added (n1 - m1))"
proof -
  have len: "n \<le> n1 \<Longrightarrow> length (show_nat n) \<le> 20" for n
    using assms(2) by (intro show_nat_length) auto
  have plain: "NL \<notin> set (show_nat n) \<and> NUL \<notin> set (show_nat n)" for n
    using show_nat_no_NUL [of _ n] digit_plain by blast
  consider (zero) "n1 = m1" | (one) "n1 = m1 + 1" | (more) "m1 + 1 < n1" using assms(1) by linarith
  then show ?thesis
  proof cases
    case zero
    then show ?thesis using len [of m1] plain [of m1] assms
      by (simp add: gen_command_def plain_line_def CONSENSUS_LINE_MAX_LEN_def)
  next
    case one
    then show ?thesis using len [of n1] plain [of n1]
      by (simp add: gen_command_def plain_line_def CONSENSUS_LINE_MAX_LEN_def)
  next
    case more
    then have "m1 + (n1 - m1) = n1" "n1 - m1 \<noteq> 1" "n1 - m1 \<noteq> 0" by auto
    then show ?thesis using len [of n1] plain [of n1] len [of "m1 + 1"] plain [of "m1 + 1"] more
      by (simp add: gen_command_def plain_line_def CONSENSUS_LINE_MAX_LEN_def)
  qed
qed

lemma gen_commands_plain:
  "gen_commands c2 ch1 ch2 n1 n2 = Some d \<Longrightarrow> n1 < 10 ^ 20 \<Longrightarrow> n2 \<le> length c2 \<Longrightarrow> list_all plain_line c2
    \<Longrightarrow> list_all plain_line d"
proof (induction c2 ch1 ch2 n1 n2 arbitrary: d rule: gen_commands.induct)
  case (1 c2 ch1 ch2 n1 n2)
  let ?changed = "\<not> (\<not> (n1 > 0 \<and> ch1 ! (n1 - 1)) \<and> \<not> (n2 > 0 \<and> ch2 ! (n2 - 1)))"
  consider (fin) "n1 = 0 \<and> n2 = 0" | (same) "\<not> (n1 = 0 \<and> n2 = 0)" "\<not> ?changed"
    | (chunk) "\<not> (n1 = 0 \<and> n2 = 0)" "?changed" by blast
  then show ?case
  proof cases
    case fin
    then show ?thesis using "1.prems"(1) by (subst (asm) gen_commands.simps) simp
  next
    case same
    then have "gen_commands c2 ch1 ch2 (n1 - 1) (n2 - 1) = Some d"
      using "1.prems"(1) by (subst (asm) gen_commands.simps) (simp only: if_False if_True simp_thms)
    then show ?thesis using "1.IH"(1) [OF same(1)] same(2) "1.prems"(2-4) by simp
  next
    case chunk
    let ?m1 = "skip_changed ch1 n1" and ?m2 = "skip_changed ch2 n2"
    let ?new = "map ((!) c2) [?m2..<n2]"
    have le: "?m1 \<le> n1" "?m2 \<le> n2" by (rule skip_changed_le)+
    have less: "?m2 < n2 \<or> ?m1 < n1"
      using chunk(2) skip_changed_less [of n1 ch1] skip_changed_less [of n2 ch2] by auto
    have dots: "\<not> list_ex (\<lambda>l. line_str_eq l ''.'') ?new"
      using "1.prems"(1) chunk by (subst (asm) gen_commands.simps) (auto simp: Let_def list_all_iff list_ex_iff split: if_splits)
    obtain r where r: "gen_commands c2 ch1 ch2 ?m1 ?m2 = Some r"
      "d = gen_command ?m1 (length ?new) (n1 - ?m1) # (if ?new = [] then r else ?new @ ''.'' # r)"
      using "1.prems"(1) chunk by (subst (asm) gen_commands.simps) (auto simp: Let_def split: if_splits)
    have "plain_line (gen_command ?m1 (length ?new) (n1 - ?m1))"
      using le less "1.prems"(2) by (intro gen_command_plain) auto
    moreover have "list_all plain_line ?new" using "1.prems"(3,4) by (auto simp: list_all_length)
    moreover have "plain_line ''.''" by (simp add: plain_line_def CONSENSUS_LINE_MAX_LEN_def)
    moreover have "list_all plain_line r"
    proof (cases "n2 - ?m2 = 0")
      case True
      show ?thesis
        by (rule "1.IH"(2) [OF chunk refl refl refl refl refl refl True r(1) _ _ "1.prems"(4)])
          (use le "1.prems"(2,3) in auto)
    next
      case False
      show ?thesis
        by (rule "1.IH"(3) [OF chunk refl refl refl refl refl refl False dots r(1) _ _ "1.prems"(4)])
          (use le "1.prems"(2,3) in auto)
    qed
    ultimately show ?thesis by (simp add: r(2))
  qed
qed

lemma gen_ed_diff_plain:
  assumes "gen_ed_diff c1 c2 = Returns d" "length c1 < 10 ^ 20 - 1" "list_all plain_line c2"
  shows "list_all plain_line d"
proof -
  obtain c1' tr where pre: "preprocess_consensus c1 = (c1', tr)" by fastforce
  from assms(1) obtain ch1 ch2 cmds where g:
    "gen_commands c2 ch1 ch2 (length c1') (length c2) = Some cmds"
    "d = (case tr of None \<Rightarrow> [] | Some l \<Rightarrow> [l]) @ cmds"
    by (auto simp: gen_ed_diff_def pre and_then_Returns_iff split: option.splits)
  have len: "length c1' \<le> length c1"
    using pre by (auto simp: preprocess_consensus_def Let_def split: if_splits)
  have "list_all plain_line cmds"
    by (rule gen_commands_plain [OF g(1)]) (use len assms in auto)
  moreover have "plain_line l" if tr: "tr = Some l" for l
  proof -
    from tr pre obtain k where k: "k < length c1" "l = show_nat (k + 1) @ '',$d''"
      by (auto simp: preprocess_consensus_def Let_def split: if_splits)
    have "length (show_nat (k + 1)) \<le> 20" using k(1) assms(2) by (intro show_nat_length) auto
    moreover have "NL \<notin> set (show_nat (k + 1)) \<and> NUL \<notin> set (show_nat (k + 1))"
      using show_nat_no_NUL [of _ "k + 1"] digit_plain by blast
    ultimately show ?thesis by (simp add: k(2) plain_line_def CONSENSUS_LINE_MAX_LEN_def)
  qed
  ultimately show ?thesis by (auto simp: g(2) split: option.splits)
qed

lemma split_three_words:
  assumes "c \<notin> set u" "c \<notin> set v" "c \<notin> set w"
  shows "smartlist_split_string [] (u @ [c] @ v @ [c] @ w) (Some [c]) no_flags 4 = Some (3, [u, v, w])"
proof -
  have u: "strstr_at [c] (u @ c # v @ c # w) = (u, c # v @ c # w)"
    and v: "strstr_at [c] (v @ c # w) = (v, c # w)" and w: "strstr_at [c] w = (w, [])"
    using strstr_at_single [OF assms(1), of "c # v @ c # w"] strstr_at_single [OF assms(2), of "c # w"]
      strstr_at_single [OF assms(3), of "[]"] by simp_all
  have "split_loop (Some [c]) no_flags 4 2 w = [w]"
    using w by (subst split_loop.simps) (simp add: split_word_def no_flags_def)
  then have "split_loop (Some [c]) no_flags 4 1 (v @ c # w) = [v, w]"
    using v by (subst split_loop.simps) (simp add: split_word_def no_flags_def)
  then have "split_loop (Some [c]) no_flags 4 0 (u @ c # v @ c # w) = [u, v, w]"
    using u by (subst split_loop.simps) (simp add: split_word_def no_flags_def)
  then show ?thesis by (simp add: smartlist_split_string_def Let_def)
qed

lemma hex_digest:
  assumes "base16_encode n d = Some h" "length d = DIGEST256_LEN"
  shows "length h = HEX_DIGEST256_LEN" "base16_decode DIGEST256_LEN h = Some d" "plain_line h" "CHR '' '' \<notin> set h"
proof -
  show len: "length h = HEX_DIGEST256_LEN"
    using length_base16_encode [OF assms(1)] assms(2) by (simp add: DIGEST256_LEN_def HEX_DIGEST256_LEN_def)
  have h: "h = concat (map (\<lambda>c. [hex_digits ! (code c div 16), hex_digits ! (code c mod 16)]) d)"
    using assms(1) by (auto simp: base16_encode_def split: if_splits)
  then show "base16_decode DIGEST256_LEN h = Some d"
    using len assms(2) by (simp add: base16_decode_def DIGEST256_LEN_def HEX_DIGEST256_LEN_def INT_MAX_def
        base16_decode_loop_encode)
  have "\<forall>n \<in> set [0..<16]. hex_digits ! n \<notin> {CHR '' '', NL, NUL}" by code_simp
  then have hd: "n < 16 \<Longrightarrow> hex_digits ! n \<notin> {CHR '' '', NL, NUL}" for n by simp
  have "x \<notin> {CHR '' '', NL, NUL}" if "x \<in> set h" for x
  proof -
    from that obtain c where "x = hex_digits ! (code c div 16) \<or> x = hex_digits ! (code c mod 16)"
      unfolding h by auto
    moreover have "code c div 16 < 16" using code_less [of c] by (simp add: less_mult_imp_div_less)
    ultimately show ?thesis using hd [of "code c div 16"] hd [of "code c mod 16"] by auto
  qed
  then show "plain_line h" "CHR '' '' \<notin> set h"
    using len by (auto simp: plain_line_def CONSENSUS_LINE_MAX_LEN_def HEX_DIGEST256_LEN_def)
qed

lemma lines_eq_is_eq: "lines_eq = (=)"
  by (auto simp: fun_eq_iff lines_eq_def)

lemma c_string_id: "NUL \<notin> set s \<Longrightarrow> c_string s = s"
  by (auto simp: c_string_def)

lemma header_digests:
  assumes "base16_encode n d1 = Some h1" "base16_encode n d2 = Some h2"
    "length d1 = DIGEST256_LEN" "length d2 = DIGEST256_LEN"
  defines "l \<equiv> hash_token @ '' '' @ h1 @ '' '' @ h2"
  shows "consdiff_get_digests (ns_diff_version # l # ed) = Some (d1, d2)" "plain_line l"
proof -
  note x1 = hex_digest [OF assms(1,3)] and x2 = hex_digest [OF assms(2,4)]
  have t: "CHR '' '' \<notin> set hash_token" "NL \<notin> set hash_token" "NUL \<notin> set hash_token" "length hash_token = 4"
    by (simp_all add: hash_token_def)
  show p: "plain_line l"
    using t x1 x2 by (auto simp: l_def plain_line_def CONSENSUS_LINE_MAX_LEN_def HEX_DIGEST256_LEN_def)
  then have "c_string l = l" by (intro c_string_id) (simp add: plain_line_def)
  moreover have "smartlist_split_string [] l (Some '' '') no_flags 4 = Some (3, [hash_token, h1, h2])"
    unfolding l_def using split_three_words [OF t(1) x1(4) x2(4)] by simp
  moreover have "strcmp hash_token hash_token = 0" by (simp add: strcmp_eq_iff)
  ultimately show "consdiff_get_digests (ns_diff_version # l # ed) = Some (d1, d2)"
    using x1(1,2) x2(1,2) assms(3,4) by (simp add: consdiff_get_digests_def line_str_eq_def lines_eq_def Let_def)
qed

lemma NUL_join: "NUL \<in> set (consensus_join_lines ls) \<longleftrightarrow> list_ex (\<lambda>l. NUL \<in> set l) ls"
  by (auto simp: consensus_join_lines_def list_ex_iff)

text \<open>C15: The round trip of documents: a diff that \<^verbatim>\<open>consensus_diff_generate\<close> returns for two
  consensuses, if it stays within the applier's size limits, turns the first consensus into
  exactly the second one when \<^verbatim>\<open>consensus_diff_apply\<close> applies it. The target is a text
  without NUL bytes and the digests are 32 bytes long.\<close>

theorem consensus_diff_roundtrip:
  assumes gen: "consensus_diff_generate das cd cons1 cons2 = Returns diff"
    and no_nul: "NUL \<notin> set cons2"
    and digests: "\<And>s d. das s = Some d \<Longrightarrow> length d = DIGEST256_LEN"
      "\<And>s d. cd s = Some d \<Longrightarrow> length d = DIGEST256_LEN"
    and bytes: "length diff < 65536 \<or> length diff div 2 < length cons1"
    and lines: "length (filter (\<lambda>c. c = NL) diff) \<le> max (3 * length (filter (\<lambda>c. c = NL) cons1)) 1024"
      "3 * length (filter (\<lambda>c. c = NL) cons1) \<le> SIZE_MAX"
  shows "consensus_diff_apply das cd cons1 diff = Some cons2"
proof -
  from gen obtain d1 d2 l1 l2 dl where g: "das cons1 = Some d1" "cd cons2 = Some d2"
    "consensus_split_lines [] cons1 SIZE_MAX = Some l1" "consensus_split_lines [] cons2 SIZE_MAX = Some l2"
    "consdiff_gen_diff l1 l2 d1 d2 = Returns dl" "diff = c_string (consensus_join_lines dl)"
    by (auto simp: consensus_diff_generate_def and_then_Returns_iff split: option.splits)
  from g(5) obtain ed h1 h2 where e: "gen_ed_diff l1 l2 = Returns ed" "apply_ed_diff l1 ed 0 = Some l2"
    "base16_encode (HEX_DIGEST256_LEN + 1) d1 = Some h1" "base16_encode (HEX_DIGEST256_LEN + 1) d2 = Some h2"
    "dl = ns_diff_version # (hash_token @ '' '' @ h1 @ '' '' @ h2) # ed"
    by (auto simp: consdiff_gen_diff_def and_then_Returns_iff lines_eq_is_eq list.rel_eq
        split: option.splits if_splits)
  note s1 = consensus_split_lines_append [OF g(3)] and s2 = consensus_split_lines_append [OF g(4)]
  from s1 have n1: "length (filter (\<lambda>c. c = NL) cons1) = length l1" by (auto simp: filter_NL_join)
  from s2 have c2: "cons2 = consensus_join_lines l2" by auto
  have "list_all plain_line l2" using s2 no_nul NUL_join [of l2]
    by (auto simp: plain_line_def list_all_iff list_ex_iff)
  then have "list_all plain_line ed"
    by (intro gen_ed_diff_plain [OF e(1)]) (use lines(2) n1 in \<open>auto simp: SIZE_MAX_def\<close>)
  moreover have "plain_line ns_diff_version" by code_simp
  moreover note hdr = header_digests [OF e(3,4) digests(1) [OF g(1)] digests(2) [OF g(2)]]
  ultimately have plain: "list_all plain_line dl" unfolding e(5) by simp
  then have nl: "list_all (\<lambda>l. NL \<notin> set l) dl" "list_all (\<lambda>l. length l \<le> CONSENSUS_LINE_MAX_LEN) dl"
    "\<not> NUL \<in> set (consensus_join_lines dl)"
    unfolding NUL_join by (auto simp: plain_line_def list_all_iff list_ex_iff)
  have diff: "diff = consensus_join_lines dl" using g(6) c_string_id [OF nl(3)] by simp
  have "consensus_split_lines [] diff (max (length l1 * 3) 1024) = Some dl"
    using consensus_split_lines_join [OF nl(1,2), of "[]" "max (length l1 * 3) 1024"] lines(1)
    by (simp add: diff filter_NL_join [OF nl(1)] n1 mult.commute)
  moreover have "consdiff_apply_diff cd l1 dl d1 = Some cons2"
    using hdr(1) e(2) g(2) c_string_id [OF no_nul]
    by (simp add: consdiff_apply_diff_def e(5) apply_ed_diff_def c2 [symmetric])
  ultimately show ?thesis
    using g(1,3) bytes lines(2) n1 by (auto simp: consensus_diff_apply_def)
qed

text \<open>The witnesses run on digest functions that return the first 32 bytes of the padded
  document.\<close>

definition padded_digest :: "char \<Rightarrow> string \<Rightarrow> string option" where
  "padded_digest c s = Some (take 32 (s @ replicate 32 c))"

lemma length_padded_digest: "padded_digest c s = Some d \<Longrightarrow> length d = DIGEST256_LEN"
  by (auto simp: padded_digest_def DIGEST256_LEN_def)

definition sample_diff :: string where
  "sample_diff = ns_diff_version @ [NL] @ ''hash '' @ ''610A620A'' @ concat (replicate 28 ''41'')
    @ '' '' @ ''610A630A'' @ concat (replicate 28 ''42'') @ [NL] @ ''2c'' @ [NL] @ ''c'' @ [NL] @ ''.'' @ [NL]"

lemma sample_diff_generated:
  "consensus_diff_generate (padded_digest CHR ''A'') (padded_digest CHR ''B'')
     (''a'' @ [NL] @ ''b'' @ [NL]) (''a'' @ [NL] @ ''c'' @ [NL]) = Returns sample_diff"
  by code_simp

theorem consensus_diff_roundtrip_witness:
  "consensus_diff_apply (padded_digest CHR ''A'') (padded_digest CHR ''B'')
     (''a'' @ [NL] @ ''b'' @ [NL]) sample_diff = Some (''a'' @ [NL] @ ''c'' @ [NL])"
proof -
  have "length sample_diff < 65536" by code_simp
  moreover have "length (filter (\<lambda>c. c = NL) sample_diff) \<le> 1024" by code_simp
  ultimately show ?thesis
    using consensus_diff_roundtrip [OF sample_diff_generated _ length_padded_digest length_padded_digest]
    by (simp add: SIZE_MAX_def)
qed

theorem consensus_diff_apply_sound_witness:
  "\<exists>lines h1 h2. sample_diff = consensus_join_lines lines \<and> consdiff_get_digests lines = Some (h1, h2)
    \<and> padded_digest CHR ''B'' (''a'' @ [NL] @ ''c'' @ [NL]) = Some h2"
proof -
  have "consensus_diff_apply (padded_digest CHR ''A'') (padded_digest CHR ''B'')
     (''a'' @ [NL] @ ''b'' @ [NL]) sample_diff = Some (''a'' @ [NL] @ ''c'' @ [NL])" by code_simp
  from consensus_diff_apply_sound [OF this] show ?thesis by blast
qed

end
