(* ===== verification/NetParams.thy ===== *)
theory NetParams
  imports CText "HOL-Library.Monad_Syntax"
begin

text \<open>
  Consensus parameters, \<^verbatim>\<open>src/feature/nodelist/networkstatus.c\<close>: the list of
  \<^verbatim>\<open>name=value\<close> strings of a consensus, searched for a name, with the value forced into
  the caller's range. Only \<^verbatim>\<open>net_params\<close> of a \<^verbatim>\<open>networkstatus_t\<close> is
  modelled (\<^const>\<open>None\<close> is a NULL list); the latest consensus is an argument. \<^const>\<open>None\<close>
  as a result is a failed assertion.
\<close>

record networkstatus =
  net_params :: "string list option"

fun find_net_param :: "string list \<Rightarrow> string \<Rightarrow> int option" where
  "find_net_param [] param_name = None"
| "find_net_param (p # ps) param_name =
     (if strcmpstart p param_name = 0 \<and> length p > length param_name \<and> p ! length param_name = CHR ''=''
      then case tor_parse_long (drop (length param_name + 1) p) INT32_MIN INT32_MAX False of
             (v, ok, _) \<Rightarrow> if ok then Some v else find_net_param ps param_name
      else find_net_param ps param_name)"

definition get_net_param_from_list :: "string list \<Rightarrow> string \<Rightarrow> int \<Rightarrow> int \<Rightarrow> int \<Rightarrow> int option" where
  "get_net_param_from_list params param_name default_val min_val max_val =
    (if \<not> max_val > min_val \<or> \<not> min_val \<le> default_val \<or> \<not> max_val \<ge> default_val then None
     else let res = (case find_net_param params param_name of None \<Rightarrow> default_val | Some v \<Rightarrow> v);
              res = (if res < min_val then min_val else if res > max_val then max_val else res)
          in if \<not> res \<ge> min_val \<or> \<not> res \<le> max_val then None else Some res)"

definition networkstatus_get_param :: "networkstatus option \<Rightarrow> networkstatus option \<Rightarrow> string \<Rightarrow> int \<Rightarrow> int \<Rightarrow> int
    \<Rightarrow> int option" where
  "networkstatus_get_param latest ns param_name default_val min_val max_val =
    (let ns = (case ns of None \<Rightarrow> latest | Some _ \<Rightarrow> ns)
     in case ns of None \<Rightarrow> Some default_val
        | Some n \<Rightarrow> (case net_params n of None \<Rightarrow> Some default_val
          | Some ps \<Rightarrow> get_net_param_from_list ps param_name default_val min_val max_val))"

definition networkstatus_get_overridable_param :: "networkstatus option \<Rightarrow> networkstatus option \<Rightarrow> int \<Rightarrow> string
    \<Rightarrow> int \<Rightarrow> int \<Rightarrow> int \<Rightarrow> int option" where
  "networkstatus_get_overridable_param latest ns torrc_value param_name default_val min_val max_val =
    (if torrc_value \<ge> min_val \<and> torrc_value \<le> max_val then Some torrc_value
     else networkstatus_get_param latest ns param_name default_val min_val max_val)"

section \<open>Values in range\<close>

lemma networkstatus_get_param_range:
  assumes "mn < mx" "mn \<le> d" "d \<le> mx"
  obtains v where "networkstatus_get_param latest ns name d mn mx = Some v" "mn \<le> v" "v \<le> mx"
proof -
  have "\<exists>v. networkstatus_get_param latest ns name d mn mx = Some v \<and> mn \<le> v \<and> v \<le> mx"
    using assms
    by (auto simp: networkstatus_get_param_def get_net_param_from_list_def Let_def split: option.splits)
  with that show thesis by blast
qed

lemma networkstatus_get_param_value:
  "networkstatus_get_param latest ns name d mn mx = Some v \<Longrightarrow> mn \<le> d \<Longrightarrow> d \<le> mx \<Longrightarrow> mn \<le> v \<and> v \<le> mx"
  by (auto simp: networkstatus_get_param_def get_net_param_from_list_def Let_def split: option.splits if_splits)

lemma find_net_param_skip:
  "(\<And>p. p \<in> set ps \<Longrightarrow> take (length name + 1) p \<noteq> name @ ''='') \<Longrightarrow>
    find_net_param (ps @ qs) name = find_net_param qs name"
proof (induction ps)
  case (Cons p ps)
  have "\<not> (strcmpstart p name = 0 \<and> length p > length name \<and> p ! length name = CHR ''='')"
  proof
    assume a: "strcmpstart p name = 0 \<and> length p > length name \<and> p ! length name = CHR ''=''"
    then have "take (length name) p = name" by (simp add: strcmpstart_def strcmp_eq_iff)
    with a have "take (length name + 1) p = name @ ''=''" by (simp add: take_Suc_conv_app_nth)
    with Cons.prems show False by simp
  qed
  then have "find_net_param ((p # ps) @ qs) name = find_net_param (ps @ qs) name"
    by (simp only: append_Cons find_net_param.simps if_False)
  with Cons show ?case by simp
qed simp

text \<open>A consensus parameter is the clamped value of the first entry for its name: when no
  earlier string of the consensus starts with \<^verbatim>\<open>name=\<close>, the entry \<^verbatim>\<open>name=n\<close> gives
  \<open>n\<close> raised to the minimum or capped at the maximum, whatever comes after it.\<close>

theorem consensus_param_value:
  assumes "mn < mx" "mn \<le> d" "d \<le> mx" "int n \<le> INT32_MAX"
    "\<And>p. p \<in> set before \<Longrightarrow> take (length name + 1) p \<noteq> name @ ''=''"
  shows "networkstatus_get_param latest
      (Some \<lparr>net_params = Some (before @ (name @ ''='' @ show_nat n) # after)\<rparr>) name d mn mx
    = Some (max mn (min mx (int n)))"
proof -
  have "strcmpstart (name @ ''='' @ show_nat n) name = 0" by (simp add: strcmpstart_def strcmp_eq_iff)
  moreover have "tor_parse_long (show_nat n) INT32_MIN INT32_MAX False = (int n, True, [])"
    using tor_parse_long_show_nat [of "[]" False INT32_MIN n INT32_MAX] assms(4) by simp
  ultimately have "find_net_param (before @ (name @ ''='' @ show_nat n) # after) name = Some (int n)"
    using find_net_param_skip [OF assms(5), where qs = "(name @ ''='' @ show_nat n) # after"] by simp
  then show ?thesis
    using assms(1-3) by (auto simp: networkstatus_get_param_def get_net_param_from_list_def Let_def)
qed

theorem consensus_param_value_witness:
  "networkstatus_get_param None
      (Some \<lparr>net_params = Some [''a=7'', ''ab=xx'', ''b=12'', ''b=3'']\<rparr>) ''b'' 1 0 10 = Some 10"
proof -
  have s: "show_nat 12 = ''12''" by code_simp
  have "networkstatus_get_param None
      (Some \<lparr>net_params = Some ([''a=7'', ''ab=xx''] @ (''b'' @ ''='' @ show_nat 12) # [''b=3''])\<rparr>) ''b'' 1 0 10
    = Some (max 0 (min 10 (int 12)))"
    by (rule consensus_param_value) auto
  then show ?thesis by (simp add: s)
qed

end
