(* ===== verification/Dos.thy ===== *)
theory Dos
  imports NetParams TokenBucket
begin

text \<open>
  The denial of service mitigation of \<^verbatim>\<open>src/core/or/dos.c\<close>, as far as it works on the
  statistics of one client address: the options and consensus parameters, the circuit creation
  bucket, marking of clients and the counting of connections. The module's global variables are
  the record \<open>dos_globals\<close>, flags as booleans and unsigned values as integers of their range;
  the clocks (\<^verbatim>\<open>approx_time ()\<close> and the coarse monotonic second) and the random number
  generator are arguments: \<open>rnd n\<close> is what \<^verbatim>\<open>crypto_rand_int (n)\<close> returns, a value
  from 0 to \<open>n - 1\<close>. \<^const>\<open>None\<close> is a failed assertion. The defense periods are not negative
  (an \<^verbatim>\<open>INTERVAL\<close> option or a consensus parameter with minimum 0), and \<^verbatim>\<open>size_t\<close>
  has 64 bits.
\<close>

section \<open>Options and parameters\<close>

record dos_options =
  DoSConnectionEnabled :: int
  DoSCircuitCreationEnabled :: int
  DoSCircuitCreationMinConnections :: int
  DoSCircuitCreationRate :: int
  DoSCircuitCreationBurst :: int
  DoSCircuitCreationDefenseType :: int
  DoSCircuitCreationDefenseTimePeriod :: int
  DoSConnectionMaxConcurrentCount :: int
  DoSConnectionDefenseType :: int
  DoSRefuseSingleHopClientRendezvous :: int
  DoSConnectionConnectBurst :: int
  DoSConnectionConnectRate :: int
  DoSStreamCreationEnabled :: int
  DoSStreamCreationRate :: int
  DoSStreamCreationBurst :: int
  DoSStreamCreationDefenseType :: int
  DoSConnectionConnectDefenseTimePeriod :: int

record dos_globals =
  dos_cc_enabled :: bool
  dos_cc_min_concurrent_conn :: int
  dos_cc_circuit_rate :: int
  dos_cc_circuit_burst :: int
  dos_cc_defense_type :: int
  dos_cc_defense_time_period :: int
  cc_num_rejected_cells :: int
  cc_num_marked_addrs :: int
  cc_num_marked_addrs_max_queue :: int
  dos_conn_enabled :: bool
  dos_conn_max_concurrent_count :: int
  dos_conn_defense_type :: int
  dos_conn_connect_rate :: int
  dos_conn_connect_burst :: int
  dos_conn_connect_defense_time_period :: int
  conn_num_addr_rejected :: int
  conn_num_addr_connect_rejected :: int
  dos_num_circ_max_outq :: int
  dos_stream_enabled :: bool
  dos_stream_defense_type :: int
  dos_stream_rate :: int
  dos_stream_burst :: int
  stream_num_rejected :: int
  num_single_hop_client_refused :: int

definition DOS_CC_DEFENSE_NONE :: int where "DOS_CC_DEFENSE_NONE = 1"
definition DOS_CC_DEFENSE_REFUSE_CELL :: int where "DOS_CC_DEFENSE_REFUSE_CELL = 2"
definition DOS_CC_DEFENSE_MAX :: int where "DOS_CC_DEFENSE_MAX = 2"
definition DOS_CONN_DEFENSE_NONE :: int where "DOS_CONN_DEFENSE_NONE = 1"
definition DOS_CONN_DEFENSE_CLOSE :: int where "DOS_CONN_DEFENSE_CLOSE = 2"
definition DOS_CONN_DEFENSE_MAX :: int where "DOS_CONN_DEFENSE_MAX = 2"
definition DOS_STREAM_DEFENSE_NONE :: int where "DOS_STREAM_DEFENSE_NONE = 1"
definition DOS_STREAM_DEFENSE_REFUSE_STREAM :: int where "DOS_STREAM_DEFENSE_REFUSE_STREAM = 2"
definition DOS_STREAM_DEFENSE_CLOSE_CIRCUIT :: int where "DOS_STREAM_DEFENSE_CLOSE_CIRCUIT = 3"
definition DOS_STREAM_DEFENSE_MAX :: int where "DOS_STREAM_DEFENSE_MAX = 3"

lemmas dos_defense_defs = DOS_CC_DEFENSE_NONE_def DOS_CC_DEFENSE_REFUSE_CELL_def DOS_CC_DEFENSE_MAX_def
  DOS_CONN_DEFENSE_NONE_def DOS_CONN_DEFENSE_CLOSE_def DOS_CONN_DEFENSE_MAX_def
  DOS_STREAM_DEFENSE_NONE_def DOS_STREAM_DEFENSE_REFUSE_STREAM_def
  DOS_STREAM_DEFENSE_CLOSE_CIRCUIT_def DOS_STREAM_DEFENSE_MAX_def

text \<open>The two shapes of the parameter functions: an autobool option (\<open>-1\<close> is automatic), and a
  numeric option (0 is unset), each before the consensus parameter \<open>p\<close>.\<close>

definition autobool_or_param :: "int \<Rightarrow> int option \<Rightarrow> bool option" where
  "autobool_or_param opt p = (if opt \<noteq> - 1 then Some (opt \<noteq> 0) else map_option (\<lambda>v. v \<noteq> 0) p)"

definition option_or_param :: "int \<Rightarrow> int option \<Rightarrow> int option" where
  "option_or_param opt p = (if opt \<noteq> 0 then Some opt else p)"

type_synonym consensus_view = "networkstatus option \<times> networkstatus option"

definition dos_param :: "consensus_view \<Rightarrow> string \<Rightarrow> int \<Rightarrow> int \<Rightarrow> int \<Rightarrow> int option" where
  "dos_param view = networkstatus_get_param (fst view) (snd view)"

definition get_param_dos_num_circ_max_outq :: "consensus_view \<Rightarrow> int option" where
  "get_param_dos_num_circ_max_outq ns = map_option u32 (dos_param ns ''dos_num_circ_max_outq'' 3 0 INT32_MAX)"

definition get_param_cc_enabled :: "dos_options \<Rightarrow> consensus_view \<Rightarrow> bool option" where
  "get_param_cc_enabled opts ns = autobool_or_param (DoSCircuitCreationEnabled opts)
     (dos_param ns ''DoSCircuitCreationEnabled'' 0 0 1)"

definition get_param_cc_min_concurrent_connection :: "dos_options \<Rightarrow> consensus_view \<Rightarrow> int option" where
  "get_param_cc_min_concurrent_connection opts ns = map_option u32
     (option_or_param (DoSCircuitCreationMinConnections opts)
        (dos_param ns ''DoSCircuitCreationMinConnections'' 3 1 INT32_MAX))"

definition get_param_cc_circuit_rate :: "dos_options \<Rightarrow> consensus_view \<Rightarrow> int option" where
  "get_param_cc_circuit_rate opts ns = map_option u32
     (option_or_param (DoSCircuitCreationRate opts) (dos_param ns ''DoSCircuitCreationRate'' 3 1 INT32_MAX))"

definition get_param_cc_circuit_burst :: "dos_options \<Rightarrow> consensus_view \<Rightarrow> int option" where
  "get_param_cc_circuit_burst opts ns = map_option u32
     (option_or_param (DoSCircuitCreationBurst opts) (dos_param ns ''DoSCircuitCreationBurst'' 90 1 INT32_MAX))"

definition get_param_cc_defense_type :: "dos_options \<Rightarrow> consensus_view \<Rightarrow> int option" where
  "get_param_cc_defense_type opts ns = map_option u32
     (option_or_param (DoSCircuitCreationDefenseType opts)
        (dos_param ns ''DoSCircuitCreationDefenseType'' DOS_CC_DEFENSE_REFUSE_CELL
          DOS_CC_DEFENSE_NONE DOS_CC_DEFENSE_MAX))"

definition get_param_cc_defense_time_period :: "dos_options \<Rightarrow> consensus_view \<Rightarrow> int option" where
  "get_param_cc_defense_time_period opts ns =
     option_or_param (DoSCircuitCreationDefenseTimePeriod opts)
        (dos_param ns ''DoSCircuitCreationDefenseTimePeriod'' (60 * 60) 0 INT32_MAX)"

definition get_param_conn_enabled :: "dos_options \<Rightarrow> consensus_view \<Rightarrow> bool option" where
  "get_param_conn_enabled opts ns = autobool_or_param (DoSConnectionEnabled opts)
     (dos_param ns ''DoSConnectionEnabled'' 0 0 1)"

definition get_param_conn_max_concurrent_count :: "dos_options \<Rightarrow> consensus_view \<Rightarrow> int option" where
  "get_param_conn_max_concurrent_count opts ns = map_option u32
     (option_or_param (DoSConnectionMaxConcurrentCount opts)
        (dos_param ns ''DoSConnectionMaxConcurrentCount'' 100 1 INT32_MAX))"

definition get_param_conn_defense_type :: "dos_options \<Rightarrow> consensus_view \<Rightarrow> int option" where
  "get_param_conn_defense_type opts ns = map_option u32
     (option_or_param (DoSConnectionDefenseType opts)
        (dos_param ns ''DoSConnectionDefenseType'' DOS_CONN_DEFENSE_CLOSE
          DOS_CONN_DEFENSE_NONE DOS_CONN_DEFENSE_MAX))"

definition get_param_conn_connect_rate :: "dos_options \<Rightarrow> consensus_view \<Rightarrow> int option" where
  "get_param_conn_connect_rate opts ns = map_option u32
     (option_or_param (DoSConnectionConnectRate opts) (dos_param ns ''DoSConnectionConnectRate'' 20 1 INT32_MAX))"

definition get_param_conn_connect_burst :: "dos_options \<Rightarrow> consensus_view \<Rightarrow> int option" where
  "get_param_conn_connect_burst opts ns = map_option u32
     (option_or_param (DoSConnectionConnectBurst opts) (dos_param ns ''DoSConnectionConnectBurst'' 40 1 INT32_MAX))"

definition DOS_CONN_CONNECT_DEFENSE_TIME_PERIOD_MIN :: int where
  "DOS_CONN_CONNECT_DEFENSE_TIME_PERIOD_MIN = 10"

definition get_param_conn_connect_defense_time_period :: "dos_options \<Rightarrow> consensus_view \<Rightarrow> int option" where
  "get_param_conn_connect_defense_time_period opts ns =
     option_or_param (DoSConnectionConnectDefenseTimePeriod opts)
        (dos_param ns ''DoSConnectionConnectDefenseTimePeriod'' (24 * 60 * 60)
          DOS_CONN_CONNECT_DEFENSE_TIME_PERIOD_MIN INT32_MAX)"

definition get_param_stream_enabled :: "dos_options \<Rightarrow> consensus_view \<Rightarrow> bool option" where
  "get_param_stream_enabled opts ns = autobool_or_param (DoSStreamCreationEnabled opts)
     (dos_param ns ''DoSStreamCreationEnabled'' 0 0 1)"

definition get_param_stream_rate :: "dos_options \<Rightarrow> consensus_view \<Rightarrow> int option" where
  "get_param_stream_rate opts ns = map_option u32
     (option_or_param (DoSStreamCreationRate opts) (dos_param ns ''DoSStreamCreationRate'' 100 1 INT32_MAX))"

definition get_param_stream_burst :: "dos_options \<Rightarrow> consensus_view \<Rightarrow> int option" where
  "get_param_stream_burst opts ns = map_option u32
     (option_or_param (DoSStreamCreationBurst opts) (dos_param ns ''DoSStreamCreationBurst'' 300 1 INT32_MAX))"

definition get_param_stream_defense_type :: "dos_options \<Rightarrow> consensus_view \<Rightarrow> int option" where
  "get_param_stream_defense_type opts ns = map_option u32
     (option_or_param (DoSStreamCreationDefenseType opts)
        (dos_param ns ''DoSStreamCreationDefenseType'' DOS_STREAM_DEFENSE_REFUSE_STREAM
          DOS_STREAM_DEFENSE_NONE DOS_STREAM_DEFENSE_MAX))"

definition set_dos_parameters :: "dos_options \<Rightarrow> consensus_view \<Rightarrow> dos_globals \<Rightarrow> dos_globals option" where
  "set_dos_parameters opts ns g = do {
     cc_enabled \<leftarrow> get_param_cc_enabled opts ns;
     min_conn \<leftarrow> get_param_cc_min_concurrent_connection opts ns;
     rate \<leftarrow> get_param_cc_circuit_rate opts ns;
     burst \<leftarrow> get_param_cc_circuit_burst opts ns;
     period \<leftarrow> get_param_cc_defense_time_period opts ns;
     cc_type \<leftarrow> get_param_cc_defense_type opts ns;
     conn_enabled \<leftarrow> get_param_conn_enabled opts ns;
     max_count \<leftarrow> get_param_conn_max_concurrent_count opts ns;
     conn_type \<leftarrow> get_param_conn_defense_type opts ns;
     conn_rate \<leftarrow> get_param_conn_connect_rate opts ns;
     conn_burst \<leftarrow> get_param_conn_connect_burst opts ns;
     conn_period \<leftarrow> get_param_conn_connect_defense_time_period opts ns;
     max_outq \<leftarrow> get_param_dos_num_circ_max_outq ns;
     stream_enabled \<leftarrow> get_param_stream_enabled opts ns;
     stream_type \<leftarrow> get_param_stream_defense_type opts ns;
     st_rate \<leftarrow> get_param_stream_rate opts ns;
     st_burst \<leftarrow> get_param_stream_burst opts ns;
     Some (g\<lparr>dos_cc_enabled := cc_enabled, dos_cc_min_concurrent_conn := min_conn,
       dos_cc_circuit_rate := rate, dos_cc_circuit_burst := burst,
       dos_cc_defense_time_period := period, dos_cc_defense_type := cc_type,
       dos_conn_enabled := conn_enabled, dos_conn_max_concurrent_count := max_count,
       dos_conn_defense_type := conn_type, dos_conn_connect_rate := conn_rate,
       dos_conn_connect_burst := conn_burst, dos_conn_connect_defense_time_period := conn_period,
       dos_num_circ_max_outq := max_outq, dos_stream_enabled := stream_enabled,
       dos_stream_defense_type := stream_type, dos_stream_rate := st_rate, dos_stream_burst := st_burst\<rparr>)
   }"

definition cc_free_all :: "dos_globals \<Rightarrow> dos_globals" where
  "cc_free_all g = g\<lparr>dos_cc_enabled := False\<rparr>"

definition conn_free_all :: "dos_globals \<Rightarrow> dos_globals" where
  "conn_free_all g = g\<lparr>dos_conn_enabled := False\<rparr>"

definition cc_consensus_has_changed :: "dos_options \<Rightarrow> consensus_view \<Rightarrow> dos_globals \<Rightarrow> dos_globals option" where
  "cc_consensus_has_changed opts ns g =
    (if dos_cc_enabled g then map_option (\<lambda>on. if \<not> on then cc_free_all g else g) (get_param_cc_enabled opts ns)
     else Some g)"

definition conn_consensus_has_changed :: "dos_options \<Rightarrow> consensus_view \<Rightarrow> dos_globals \<Rightarrow> dos_globals option" where
  "conn_consensus_has_changed opts ns g =
    (if dos_conn_enabled g then map_option (\<lambda>on. if \<not> on then conn_free_all g else g) (get_param_conn_enabled opts ns)
     else Some g)"

definition dos_is_enabled :: "dos_globals \<Rightarrow> bool" where
  "dos_is_enabled g \<longleftrightarrow> dos_cc_enabled g \<or> dos_conn_enabled g"

definition dos_consensus_has_changed :: "bool \<Rightarrow> dos_options \<Rightarrow> consensus_view \<Rightarrow> dos_globals \<Rightarrow> dos_globals option" where
  "dos_consensus_has_changed public_server_mode opts ns g =
    (if \<not> public_server_mode then Some g
     else do { g \<leftarrow> cc_consensus_has_changed opts ns g;
               g \<leftarrow> conn_consensus_has_changed opts ns g;
               set_dos_parameters opts ns g })"

definition dos_free_all :: "dos_globals \<Rightarrow> dos_globals" where
  "dos_free_all g = conn_free_all (cc_free_all g)"

definition dos_init :: "dos_options \<Rightarrow> networkstatus option \<Rightarrow> dos_globals \<Rightarrow> dos_globals option" where
  "dos_init opts latest g = set_dos_parameters opts (latest, None) g"

section \<open>The statistics of a client address\<close>

record cc_client_stats =
  circuit_bucket :: int
  last_circ_bucket_refill_ts :: int
  cc_marked_until_ts :: int

record conn_client_stats =
  concurrent_count :: int
  connect_count :: token_bucket_ctr
  conn_marked_until_ts :: int

record dos_client_stats =
  conn_stats :: conn_client_stats
  cc_stats :: cc_client_stats
  num_circ_max_cell_queue_size :: int

definition get_circuit_rate_per_second :: "dos_globals \<Rightarrow> int" where
  "get_circuit_rate_per_second g = dos_cc_circuit_rate g"

text \<open>The nonfatal assertions at the end of the function only log.\<close>

definition cc_stats_refill_bucket :: "dos_globals \<Rightarrow> int \<Rightarrow> cc_client_stats \<Rightarrow> cc_client_stats" where
  "cc_stats_refill_bucket g now stats =
    (let last_refill_ts = last_circ_bucket_refill_ts stats in
     if now = last_refill_ts then stats
     else
       let num_token =
         (if last_refill_ts = 0 then dos_cc_circuit_burst g
          else if now < last_refill_ts then dos_cc_circuit_burst g
          else let elapsed_time_last_refill = u64 (now - last_refill_ts)
               in if elapsed_time_last_refill > UINT32_MAX then dos_cc_circuit_burst g
                  else u64 (elapsed_time_last_refill * get_circuit_rate_per_second g));
       new_circuit_bucket_count =
         (if num_token > UINT32_MAX - circuit_bucket stats then dos_cc_circuit_burst g
          else min (u32 (circuit_bucket stats + num_token)) (dos_cc_circuit_burst g))
       in stats\<lparr>circuit_bucket := new_circuit_bucket_count, last_circ_bucket_refill_ts := now\<rparr>)"

definition cc_has_exhausted_circuits :: "dos_globals \<Rightarrow> dos_client_stats \<Rightarrow> bool" where
  "cc_has_exhausted_circuits g stats \<longleftrightarrow>
     circuit_bucket (cc_stats stats) = 0
     \<and> concurrent_count (conn_stats stats) \<ge> dos_cc_min_concurrent_conn g"

definition crypto_rand_int_range :: "(int \<Rightarrow> int) \<Rightarrow> int \<Rightarrow> int \<Rightarrow> int option" where
  "crypto_rand_int_range rnd mn mx =
    (if \<not> mn < mx \<or> \<not> mx \<le> INT32_MAX then None else Some (mn + rnd (mx - mn)))"

definition cc_mark_client :: "(int \<Rightarrow> int) \<Rightarrow> dos_globals \<Rightarrow> int \<Rightarrow> cc_client_stats \<Rightarrow> cc_client_stats option" where
  "cc_mark_client rnd g now stats =
    map_option (\<lambda>r. stats\<lparr>cc_marked_until_ts := now + dos_cc_defense_time_period g + r\<rparr>)
      (crypto_rand_int_range rnd 1 (u32 (dos_cc_defense_time_period g div 2)))"

definition conn_mark_client :: "(int \<Rightarrow> int) \<Rightarrow> dos_globals \<Rightarrow> int \<Rightarrow> conn_client_stats \<Rightarrow> conn_client_stats option" where
  "conn_mark_client rnd g now stats =
    map_option (\<lambda>r. stats\<lparr>conn_marked_until_ts := now + dos_conn_connect_defense_time_period g + r\<rparr>)
      (crypto_rand_int_range rnd 1 (u32 (dos_conn_connect_defense_time_period g div 2)))"

text \<open>\<open>now\<close> is \<^verbatim>\<open>approx_time ()\<close>, \<open>mt\<close> the coarse monotonic second as a 32-bit value.\<close>

definition conn_update_on_connect :: "(int \<Rightarrow> int) \<Rightarrow> dos_globals \<Rightarrow> int \<Rightarrow> int \<Rightarrow> conn_client_stats
    \<Rightarrow> conn_client_stats option" where
  "conn_update_on_connect rnd g now mt stats = do {
     let stats = stats\<lparr>concurrent_count := u32 (concurrent_count stats + 1)\<rparr>;
     b \<leftarrow> token_bucket_ctr_refill 64 (connect_count stats) mt;
     let b = (if token_bucket_ctr_get b > 0 then snd (token_bucket_ctr_dec b 1) else b);
     let stats = stats\<lparr>connect_count := b\<rparr>;
     if token_bucket_ctr_get b = 0 \<and> conn_marked_until_ts stats = 0
     then conn_mark_client rnd g now stats
     else Some stats
   }"

text \<open>The result says also whether the \<^verbatim>\<open>BUG\<close> guard against an underflow was hit.\<close>

definition conn_update_on_close :: "conn_client_stats \<Rightarrow> bool \<times> conn_client_stats" where
  "conn_update_on_close stats =
    (if concurrent_count stats = 0 then (True, stats)
     else (False, stats\<lparr>concurrent_count := u32 (concurrent_count stats - 1)\<rparr>))"

text \<open>The part of \<^verbatim>\<open>dos_cc_new_create_cell\<close> that works on the entry of the client: the
  result has the new statistics and whether the address counts as newly marked.\<close>

definition cc_create_cell_stats :: "(int \<Rightarrow> int) \<Rightarrow> dos_globals \<Rightarrow> int \<Rightarrow> dos_client_stats
    \<Rightarrow> (dos_client_stats \<times> bool) option" where
  "cc_create_cell_stats rnd g now stats =
    (let cc = cc_stats_refill_bucket g now (cc_stats stats);
         cc = (if circuit_bucket cc > 0 then cc\<lparr>circuit_bucket := circuit_bucket cc - 1\<rparr> else cc);
         stats = stats\<lparr>cc_stats := cc\<rparr>
     in if cc_has_exhausted_circuits g stats
        then map_option (\<lambda>cc'. (stats\<lparr>cc_stats := cc'\<rparr>, cc_marked_until_ts cc = 0)) (cc_mark_client rnd g now cc)
        else Some (stats, False))"

section \<open>The circuit bucket\<close>

text \<open>The ranges of the C types.\<close>

definition cc_params_ok :: "dos_globals \<Rightarrow> bool" where
  "cc_params_ok g \<longleftrightarrow> 0 \<le> dos_cc_circuit_rate g \<and> dos_cc_circuit_rate g \<le> UINT32_MAX
     \<and> 0 \<le> dos_cc_circuit_burst g \<and> dos_cc_circuit_burst g \<le> UINT32_MAX"

definition cc_stats_ok :: "cc_client_stats \<Rightarrow> bool" where
  "cc_stats_ok s \<longleftrightarrow> 0 \<le> circuit_bucket s \<and> circuit_bucket s \<le> UINT32_MAX
     \<and> 0 \<le> last_circ_bucket_refill_ts s \<and> last_circ_bucket_refill_ts s \<le> INT64_MAX"

lemma cc_refill_bucket:
  assumes "cc_params_ok g" "cc_stats_ok s" "0 \<le> now" "now \<le> INT64_MAX"
  shows "cc_stats_refill_bucket g now s =
    (if now = last_circ_bucket_refill_ts s then s
     else s\<lparr>circuit_bucket :=
         (if last_circ_bucket_refill_ts s = 0 \<or> now < last_circ_bucket_refill_ts s
             \<or> now - last_circ_bucket_refill_ts s > UINT32_MAX
          then dos_cc_circuit_burst g
          else min (dos_cc_circuit_burst g)
                 (circuit_bucket s + dos_cc_circuit_rate g * (now - last_circ_bucket_refill_ts s))),
       last_circ_bucket_refill_ts := now\<rparr>)"
proof -
  let ?b = "dos_cc_circuit_burst g" and ?r = "dos_cc_circuit_rate g" and ?c = "circuit_bucket s"
  let ?e = "now - last_circ_bucket_refill_ts s"
  have r: "0 \<le> ?r" "?r \<le> UINT32_MAX" "0 \<le> ?b" "?b \<le> UINT32_MAX" "0 \<le> ?c" "?c \<le> UINT32_MAX"
    using assms by (auto simp: cc_params_ok_def cc_stats_ok_def)
  have cap: "(if n > UINT32_MAX - ?c then ?b else min (u32 (?c + n)) ?b) = min ?b (?c + n)" if "0 \<le> n" for n
    using r that by (auto simp: u32_id)
  have full: "min ?b (?c + ?b) = ?b" using r by simp
  have e64: "u64 ?e = ?e" if "last_circ_bucket_refill_ts s \<le> now"
    using that assms by (intro u64_id) (auto simp: cc_stats_ok_def)
  have m64: "u64 (?e * ?r) = ?r * ?e" "0 \<le> ?r * ?e" if "0 \<le> ?e" "?e \<le> UINT32_MAX"
  proof -
    have "?e * ?r \<le> UINT32_MAX * UINT32_MAX" using that r by (intro mult_mono) auto
    then show "u64 (?e * ?r) = ?r * ?e" "0 \<le> ?r * ?e"
      using that r by (simp_all add: u64_id mult.commute)
  qed
  show ?thesis
    unfolding cc_stats_refill_bucket_def Let_def get_circuit_rate_per_second_def
    using cap [of ?b] cap [of "?r * ?e"] full r e64 m64 by (auto simp: not_less)
qed

text \<open>Refilling the circuit bucket of an address computes, on the widths of the C types and
  without any overflow, the capped sum of the bucket and \<open>rate\<close> circuits per second since the last
  refill; a fresh bucket, a clock that went backwards and a jump of more than \<open>2 ^ 32\<close> seconds
  fill it to the burst; and in the second of the last refill nothing changes.\<close>

theorem cc_refill_exact:
  assumes "cc_params_ok g" "cc_stats_ok s" "0 \<le> now" "now \<le> INT64_MAX"
  defines "s' \<equiv> cc_stats_refill_bucket g now s"
  shows "(now = last_circ_bucket_refill_ts s \<longrightarrow> s' = s) \<and>
    (now \<noteq> last_circ_bucket_refill_ts s \<longrightarrow> last_circ_bucket_refill_ts s' = now
      \<and> circuit_bucket s' \<le> dos_cc_circuit_burst g
      \<and> circuit_bucket s' =
         (if last_circ_bucket_refill_ts s = 0 \<or> now < last_circ_bucket_refill_ts s
             \<or> now - last_circ_bucket_refill_ts s > UINT32_MAX
          then dos_cc_circuit_burst g
          else min (dos_cc_circuit_burst g)
                 (circuit_bucket s + dos_cc_circuit_rate g * (now - last_circ_bucket_refill_ts s))))"
  using cc_refill_bucket [OF assms(1-4)] by (auto simp: s'_def)

definition sample_dos_globals :: dos_globals where
  "sample_dos_globals = \<lparr>dos_cc_enabled = True, dos_cc_min_concurrent_conn = 3, dos_cc_circuit_rate = 3,
     dos_cc_circuit_burst = 90, dos_cc_defense_type = DOS_CC_DEFENSE_REFUSE_CELL,
     dos_cc_defense_time_period = 3600, cc_num_rejected_cells = 0, cc_num_marked_addrs = 0,
     cc_num_marked_addrs_max_queue = 0, dos_conn_enabled = True, dos_conn_max_concurrent_count = 100,
     dos_conn_defense_type = DOS_CONN_DEFENSE_CLOSE, dos_conn_connect_rate = 20,
     dos_conn_connect_burst = 40, dos_conn_connect_defense_time_period = 86400,
     conn_num_addr_rejected = 0, conn_num_addr_connect_rejected = 0, dos_num_circ_max_outq = 3,
     dos_stream_enabled = False, dos_stream_defense_type = DOS_STREAM_DEFENSE_REFUSE_STREAM,
     dos_stream_rate = 100, dos_stream_burst = 300, stream_num_rejected = 0,
     num_single_hop_client_refused = 0\<rparr>"

theorem cc_refill_exact_witness:
  "circuit_bucket (cc_stats_refill_bucket sample_dos_globals 1010
     \<lparr>circuit_bucket = 50, last_circ_bucket_refill_ts = 1000, cc_marked_until_ts = 0\<rparr>) = 80"
proof -
  have "cc_params_ok sample_dos_globals"
    by (simp add: cc_params_ok_def sample_dos_globals_def)
  moreover have "cc_stats_ok \<lparr>circuit_bucket = 50, last_circ_bucket_refill_ts = 1000, cc_marked_until_ts = 0\<rparr>"
    by (simp add: cc_stats_ok_def)
  ultimately show ?thesis
    using cc_refill_exact [of sample_dos_globals
        "\<lparr>circuit_bucket = 50, last_circ_bucket_refill_ts = 1000, cc_marked_until_ts = 0\<rparr>" 1010]
    by (simp add: sample_dos_globals_def)
qed

section \<open>Marking\<close>

lemma cc_mark_client_Some:
  assumes "4 \<le> dos_cc_defense_time_period g" "dos_cc_defense_time_period g \<le> INT32_MAX"
    "\<And>n. 0 < n \<Longrightarrow> 0 \<le> rnd n \<and> rnd n < n"
  obtains r where "cc_mark_client rnd g now s =
      Some (s\<lparr>cc_marked_until_ts := now + dos_cc_defense_time_period g + r\<rparr>)"
    "1 \<le> r" "r < dos_cc_defense_time_period g div 2"
proof -
  let ?h = "dos_cc_defense_time_period g div 2"
  have h: "2 \<le> ?h" "?h \<le> INT32_MAX" "u32 ?h = ?h" using assms(1,2) by (auto simp: u32_id)
  then have "cc_mark_client rnd g now s =
      Some (s\<lparr>cc_marked_until_ts := now + dos_cc_defense_time_period g + (1 + rnd (?h - 1))\<rparr>)"
    by (simp add: cc_mark_client_def crypto_rand_int_range_def)
  with that [of "1 + rnd (?h - 1)"] assms(3) [of "?h - 1"] h show thesis by auto
qed

text \<open>Marking a client address: with a defense period of at least four seconds the address is
  marked until a random time more than one period and less than one and a half periods away; with
  a shorter period, which both the option and the consensus parameter admit, the random offset
  has an empty range and the assertion in \<^verbatim>\<open>crypto_rand_int_range\<close> fails.\<close>

theorem cc_mark_client_window:
  assumes "0 \<le> dos_cc_defense_time_period g" "dos_cc_defense_time_period g \<le> INT32_MAX"
    "\<And>n. 0 < n \<Longrightarrow> 0 \<le> rnd n \<and> rnd n < n"
  shows "(4 \<le> dos_cc_defense_time_period g \<longrightarrow> (\<exists>s'. cc_mark_client rnd g now s = Some s'
      \<and> now + dos_cc_defense_time_period g < cc_marked_until_ts s'
      \<and> cc_marked_until_ts s' < now + dos_cc_defense_time_period g + dos_cc_defense_time_period g div 2))
    \<and> (dos_cc_defense_time_period g < 4 \<longrightarrow> cc_mark_client rnd g now s = None)"
proof (intro conjI impI)
  assume "4 \<le> dos_cc_defense_time_period g"
  then obtain r where "cc_mark_client rnd g now s =
      Some (s\<lparr>cc_marked_until_ts := now + dos_cc_defense_time_period g + r\<rparr>)"
    "1 \<le> r" "r < dos_cc_defense_time_period g div 2"
    using cc_mark_client_Some [OF _ assms(2,3)] by metis
  then show "\<exists>s'. cc_mark_client rnd g now s = Some s'
      \<and> now + dos_cc_defense_time_period g < cc_marked_until_ts s'
      \<and> cc_marked_until_ts s' < now + dos_cc_defense_time_period g + dos_cc_defense_time_period g div 2"
    by auto
next
  assume "dos_cc_defense_time_period g < 4"
  then have "dos_cc_defense_time_period g div 2 \<le> 1" "0 \<le> dos_cc_defense_time_period g div 2"
    using assms(1) by auto
  then show "cc_mark_client rnd g now s = None"
    by (simp add: cc_mark_client_def crypto_rand_int_range_def u32_id)
qed

theorem cc_mark_client_window_witness:
  "cc_mark_client (\<lambda>n. n div 2) (sample_dos_globals\<lparr>dos_cc_defense_time_period := 3\<rparr>) 1000
     \<lparr>circuit_bucket = 0, last_circ_bucket_refill_ts = 1000, cc_marked_until_ts = 0\<rparr> = None"
  using cc_mark_client_window [of "sample_dos_globals\<lparr>dos_cc_defense_time_period := 3\<rparr>" "\<lambda>n. n div 2"]
  by (simp add: sample_dos_globals_def)

section \<open>Detection of floods\<close>

text \<open>A client that sends CREATE cells, the delays before each of them given in seconds.\<close>

fun cc_cells :: "(int \<Rightarrow> int) \<Rightarrow> dos_globals \<Rightarrow> int \<Rightarrow> int list \<Rightarrow> dos_client_stats \<Rightarrow> dos_client_stats option" where
  "cc_cells rnd g now [] st = Some st"
| "cc_cells rnd g now (t # ts) st =
     (case cc_create_cell_stats rnd g (now + t) st of None \<Rightarrow> None
      | Some (st', _) \<Rightarrow> cc_cells rnd g (now + t) ts st')"

definition cc_bucket_ok :: "dos_globals \<Rightarrow> int \<Rightarrow> cc_client_stats \<Rightarrow> bool" where
  "cc_bucket_ok g now s \<longleftrightarrow> 0 \<le> circuit_bucket s \<and> circuit_bucket s \<le> dos_cc_circuit_burst g
     \<and> 0 < last_circ_bucket_refill_ts s \<and> last_circ_bucket_refill_ts s \<le> now"

lemma cc_create_cell_step:
  assumes "cc_params_ok g" "1 \<le> dos_cc_circuit_rate g" "cc_bucket_ok g now (cc_stats st)"
    "0 \<le> t" "now + t \<le> INT64_MAX"
    "dos_cc_min_concurrent_conn g \<le> concurrent_count (conn_stats st)"
    "4 \<le> dos_cc_defense_time_period g" "dos_cc_defense_time_period g \<le> INT32_MAX"
    "\<And>n. 0 < n \<Longrightarrow> 0 \<le> rnd n \<and> rnd n < n"
  obtains st' f where "cc_create_cell_stats rnd g (now + t) st = Some (st', f)"
    "conn_stats st' = conn_stats st" "cc_bucket_ok g (now + t) (cc_stats st')"
    "last_circ_bucket_refill_ts (cc_stats st') = now + t"
    "now + t + dos_cc_defense_time_period g < cc_marked_until_ts (cc_stats st') \<or>
     cc_marked_until_ts (cc_stats st') = cc_marked_until_ts (cc_stats st) \<and>
     circuit_bucket (cc_stats st') + 1 \<le> circuit_bucket (cc_stats st)
       + dos_cc_circuit_rate g * (now + t - last_circ_bucket_refill_ts (cc_stats st))"
proof -
  let ?s = "cc_stats st" and ?r = "dos_cc_circuit_rate g" and ?b = "dos_cc_circuit_burst g"
  let ?e = "now + t - last_circ_bucket_refill_ts ?s"
  define c where "c = cc_stats_refill_bucket g (now + t) ?s"
  define d where "d = (if circuit_bucket c > 0 then c\<lparr>circuit_bucket := circuit_bucket c - 1\<rparr> else c)"
  have last: "0 < last_circ_bucket_refill_ts ?s" "last_circ_bucket_refill_ts ?s \<le> now"
    using assms(3) by (auto simp: cc_bucket_ok_def)
  have sok: "cc_stats_ok ?s" using assms(1,3,4,5) last by (auto simp: cc_stats_ok_def cc_params_ok_def cc_bucket_ok_def)
  have "?b \<le> ?r * ?e" if "?e > UINT32_MAX"
  proof -
    have "?b \<le> ?e" using that assms(1) by (simp add: cc_params_ok_def)
    also have "?e \<le> ?r * ?e" using mult_right_mono [of 1 ?r ?e] assms(2) that by simp
    finally show ?thesis .
  qed
  then have c: "0 \<le> circuit_bucket c" "circuit_bucket c \<le> ?b"
    "circuit_bucket c \<le> circuit_bucket ?s + ?r * ?e" "last_circ_bucket_refill_ts c = now + t"
    "cc_marked_until_ts c = cc_marked_until_ts ?s"
    using cc_refill_bucket [OF assms(1) sok, of "now + t"] assms(2-5) last
    by (auto simp: c_def cc_bucket_ok_def)
  have d: "0 \<le> circuit_bucket d" "circuit_bucket d \<le> ?b" "last_circ_bucket_refill_ts d = now + t"
    "cc_marked_until_ts d = cc_marked_until_ts ?s"
    "circuit_bucket d \<noteq> 0 \<Longrightarrow> circuit_bucket d + 1 \<le> circuit_bucket ?s + ?r * ?e"
    using c by (auto simp: d_def)
  have run: "cc_create_cell_stats rnd g (now + t) st =
      (if cc_has_exhausted_circuits g (st\<lparr>cc_stats := d\<rparr>)
       then map_option (\<lambda>cc'. (st\<lparr>cc_stats := cc'\<rparr>, cc_marked_until_ts d = 0)) (cc_mark_client rnd g (now + t) d)
       else Some (st\<lparr>cc_stats := d\<rparr>, False))"
    by (simp add: cc_create_cell_stats_def Let_def c_def d_def)
  show thesis
  proof (cases "circuit_bucket d = 0")
    case True
    then have ex: "cc_has_exhausted_circuits g (st\<lparr>cc_stats := d\<rparr>)"
      using assms(6) by (simp add: cc_has_exhausted_circuits_def)
    obtain r where "cc_mark_client rnd g (now + t) d =
      Some (d\<lparr>cc_marked_until_ts := now + t + dos_cc_defense_time_period g + r\<rparr>)" "1 \<le> r"
      using cc_mark_client_Some [OF assms(7-9)] by metis
    then show thesis using that run ex d last assms(4) by (simp add: cc_bucket_ok_def)
  next
    case False
    then have "\<not> cc_has_exhausted_circuits g (st\<lparr>cc_stats := d\<rparr>)"
      by (simp add: cc_has_exhausted_circuits_def)
    then show thesis using that run d False last assms(4) by (simp add: cc_bucket_ok_def)
  qed
qed

lemma cc_cells_marked:
  assumes "cc_params_ok g" "1 \<le> dos_cc_circuit_rate g" "cc_bucket_ok g now (cc_stats st)"
    "\<forall>t \<in> set ts. 0 \<le> t" "now + sum_list ts \<le> INT64_MAX"
    "dos_cc_min_concurrent_conn g \<le> concurrent_count (conn_stats st)"
    "4 \<le> dos_cc_defense_time_period g" "dos_cc_defense_time_period g \<le> INT32_MAX"
    "\<And>n. 0 < n \<Longrightarrow> 0 \<le> rnd n \<and> rnd n < n" "t0 \<le> now"
    "t0 + dos_cc_defense_time_period g < cc_marked_until_ts (cc_stats st) \<or>
     int (length ts) > circuit_bucket (cc_stats st)
      + dos_cc_circuit_rate g * (now - last_circ_bucket_refill_ts (cc_stats st) + sum_list ts)"
  shows "\<exists>st'. cc_cells rnd g now ts st = Some st'
    \<and> t0 + dos_cc_defense_time_period g < cc_marked_until_ts (cc_stats st')"
  using assms(3-6,10,11)
proof (induction ts arbitrary: now st)
  case Nil
  have "0 \<le> dos_cc_circuit_rate g * (now - last_circ_bucket_refill_ts (cc_stats st))"
    using Nil(1) assms(2) by (auto simp: cc_bucket_ok_def)
  moreover have "0 \<le> circuit_bucket (cc_stats st)" using Nil(1) by (simp add: cc_bucket_ok_def)
  ultimately show ?case using Nil(6) by auto
next
  case (Cons t ts)
  let ?r = "dos_cc_circuit_rate g"
  have t: "0 \<le> t" "0 \<le> sum_list ts" using Cons.prems(2) by (auto intro: sum_list_nonneg)
  then have b: "now + t \<le> INT64_MAX" using Cons.prems(3) by simp
  obtain st' f where st': "cc_create_cell_stats rnd g (now + t) st = Some (st', f)"
    "conn_stats st' = conn_stats st" "cc_bucket_ok g (now + t) (cc_stats st')"
    "last_circ_bucket_refill_ts (cc_stats st') = now + t"
    "now + t + dos_cc_defense_time_period g < cc_marked_until_ts (cc_stats st') \<or>
     cc_marked_until_ts (cc_stats st') = cc_marked_until_ts (cc_stats st) \<and>
     circuit_bucket (cc_stats st') + 1 \<le> circuit_bucket (cc_stats st)
       + ?r * (now + t - last_circ_bucket_refill_ts (cc_stats st))"
    by (rule cc_create_cell_step [OF assms(1,2) Cons.prems(1) t(1) b Cons.prems(4) assms(7-9)])
  have "t0 + dos_cc_defense_time_period g < cc_marked_until_ts (cc_stats st') \<or>
     int (length ts) > circuit_bucket (cc_stats st') + ?r * (now + t - last_circ_bucket_refill_ts (cc_stats st') + sum_list ts)"
  proof (cases "t0 + dos_cc_defense_time_period g < cc_marked_until_ts (cc_stats st')")
    case False
    then have "circuit_bucket (cc_stats st') + 1 \<le> circuit_bucket (cc_stats st)
       + ?r * (now + t - last_circ_bucket_refill_ts (cc_stats st))"
      "cc_marked_until_ts (cc_stats st') = cc_marked_until_ts (cc_stats st)"
      using st'(5) Cons.prems(5) t(1) by auto
    then show ?thesis using Cons.prems(6) False st'(4) by (auto simp: algebra_simps)
  qed simp
  then show ?case
    using Cons.IH [of "now + t" st'] st' Cons.prems(2-5) t(1) by (simp add: add.assoc)
qed

text \<open>C26: A flood of circuit creations is detected: with parameters, bucket and random source in their ranges, a refill rate of at least one circuit a second and a defense
  period of at least four seconds that fits an int, if a client with at least the configured minimum of concurrent
  connections sends more CREATE cells than its bucket holds and the rate refills meanwhile, then, however the cells
  are spaced, none of the assertions fails and the client ends up marked for longer than the defense period from the
  start of the flood.\<close>

theorem cc_flood_detected:
  assumes "cc_params_ok g" "1 \<le> dos_cc_circuit_rate g" "cc_bucket_ok g now (cc_stats st)"
    "\<forall>t \<in> set ts. 0 \<le> t" "now + sum_list ts \<le> INT64_MAX"
    "dos_cc_min_concurrent_conn g \<le> concurrent_count (conn_stats st)"
    "4 \<le> dos_cc_defense_time_period g" "dos_cc_defense_time_period g \<le> INT32_MAX"
    "\<And>n. 0 < n \<Longrightarrow> 0 \<le> rnd n \<and> rnd n < n"
    "int (length ts) > circuit_bucket (cc_stats st)
      + dos_cc_circuit_rate g * (now - last_circ_bucket_refill_ts (cc_stats st) + sum_list ts)"
  shows "\<exists>st'. cc_cells rnd g now ts st = Some st'
    \<and> now + dos_cc_defense_time_period g < cc_marked_until_ts (cc_stats st')"
  using cc_cells_marked [OF assms(1-9) order_refl] assms(10) by blast

theorem cc_flood_detected_witness:
  "\<exists>st'. cc_cells (\<lambda>n. n div 2) sample_dos_globals 1000 [0, 0, 1, 0, 0, 0, 0]
     \<lparr>conn_stats = \<lparr>concurrent_count = 3, connect_count = token_bucket_ctr_init 20 40 0, conn_marked_until_ts = 0\<rparr>,
      cc_stats = \<lparr>circuit_bucket = 2, last_circ_bucket_refill_ts = 1000, cc_marked_until_ts = 0\<rparr>,
      num_circ_max_cell_queue_size = 0\<rparr> = Some st'
    \<and> 1000 + 3600 < cc_marked_until_ts (cc_stats st')"
proof -
  have "dos_cc_defense_time_period sample_dos_globals = 3600" by (simp add: sample_dos_globals_def)
  moreover have "cc_params_ok sample_dos_globals" by (simp add: cc_params_ok_def sample_dos_globals_def)
  ultimately show ?thesis
    using cc_flood_detected [of sample_dos_globals 1000 "\<lparr>conn_stats = \<lparr>concurrent_count = 3,
        connect_count = token_bucket_ctr_init 20 40 0, conn_marked_until_ts = 0\<rparr>,
      cc_stats = \<lparr>circuit_bucket = 2, last_circ_bucket_refill_ts = 1000, cc_marked_until_ts = 0\<rparr>,
      num_circ_max_cell_queue_size = 0\<rparr>" "[0, 0, 1, 0, 0, 0, 0]" "\<lambda>n. n div 2"]
    by (simp add: cc_bucket_ok_def sample_dos_globals_def)
qed

end
