(* ===== verification/DosClients.thy ===== *)
theory DosClients
  imports Dos "HOL-Library.AList"
begin

text \<open>
  The denial of service mitigation over all clients: the client map of
  \<^verbatim>\<open>src/feature/stats/geoip_stats.c\<close>, which owns the statistics, and the operations of
  \<^verbatim>\<open>src/core/or/dos.c\<close> that look entries up. The hash table is an association list by
  its key (address, transport name, action), and the OR connections of the connection array are
  an association list by a connection number; an address is compared for equality only. Of
  \<^verbatim>\<open>geoip_note_client_seen\<close> the counting of requests per country is not modelled.
\<close>

type_synonym tor_addr = string

datatype geoip_client_action = GEOIP_CLIENT_CONNECT | GEOIP_CLIENT_NETWORKSTATUS

type_synonym clientmap_key = "tor_addr \<times> string option \<times> geoip_client_action"

record clientmap_entry =
  last_seen_in_minutes :: int
  dos_stats :: dos_client_stats

record or_connection =
  or_addr :: tor_addr
  tracked_for_dos_mitigation :: bool

type_synonym clientmap = "(clientmap_key \<times> clientmap_entry) list"
type_synonym or_connections = "(nat \<times> or_connection) list"

record dos_state =
  globals :: dos_globals
  client_history :: clientmap
  connection_array :: or_connections

record channel =
  channel_is_client :: bool
  channel_addr :: "tor_addr option"

section \<open>The client map\<close>

definition dos_geoip_entry_about_to_free :: "clientmap_key \<Rightarrow> clientmap_entry \<Rightarrow> or_connections \<Rightarrow> or_connections" where
  "dos_geoip_entry_about_to_free key ent conns =
    (if concurrent_count (conn_stats (dos_stats ent)) = 0 then conns
     else map (\<lambda>(i, c). (i, if or_addr c = fst key then c\<lparr>tracked_for_dos_mitigation := False\<rparr> else c)) conns)"

text \<open>\<^verbatim>\<open>tor_malloc_zero\<close> gives zeros; then the connect bucket is initialised.\<close>

definition dos_geoip_entry_init :: "dos_globals \<Rightarrow> int \<Rightarrow> dos_client_stats" where
  "dos_geoip_entry_init g mt =
    \<lparr>conn_stats = \<lparr>concurrent_count = 0,
       connect_count = token_bucket_ctr_init (dos_conn_connect_rate g) (dos_conn_connect_burst g) mt,
       conn_marked_until_ts = 0\<rparr>,
     cc_stats = \<lparr>circuit_bucket = 0, last_circ_bucket_refill_ts = 0, cc_marked_until_ts = 0\<rparr>,
     num_circ_max_cell_queue_size = 0\<rparr>"

definition clientmap_entry_new :: "dos_globals \<Rightarrow> int \<Rightarrow> clientmap_entry" where
  "clientmap_entry_new g mt = \<lparr>last_seen_in_minutes = 0, dos_stats = dos_geoip_entry_init g mt\<rparr>"

definition geoip_lookup_client :: "clientmap \<Rightarrow> tor_addr \<Rightarrow> string option \<Rightarrow> geoip_client_action
    \<Rightarrow> clientmap_entry option" where
  "geoip_lookup_client h addr transport_name action = map_of h (addr, transport_name, action)"

definition clientmap_entry_size :: "nat \<Rightarrow> clientmap_key \<Rightarrow> nat" where
  "clientmap_entry_size sizeof_entry key =
    sizeof_entry + (case fst (snd key) of None \<Rightarrow> 0 | Some t \<Rightarrow> length t)"

text \<open>Going over the table and freeing the entries that satisfy a condition.\<close>

fun free_entries :: "(clientmap_key \<Rightarrow> clientmap_entry \<Rightarrow> bool) \<Rightarrow> clientmap \<Rightarrow> or_connections
    \<Rightarrow> clientmap \<times> or_connections" where
  "free_entries P [] conns = ([], conns)"
| "free_entries P ((k, e) # h) conns =
     (if P k e then free_entries P h (dos_geoip_entry_about_to_free k e conns)
      else let (h', conns') = free_entries P h conns in ((k, e) # h', conns'))"

definition with_freed :: "(clientmap_key \<Rightarrow> clientmap_entry \<Rightarrow> bool) \<Rightarrow> dos_state \<Rightarrow> dos_state" where
  "with_freed P st =
    (let (h, conns) = free_entries P (client_history st) (connection_array st)
     in st\<lparr>client_history := h, connection_array := conns\<rparr>)"

definition client_history_clear :: "dos_state \<Rightarrow> dos_state" where
  "client_history_clear = with_freed (\<lambda>(_, _, action) _. action = GEOIP_CLIENT_CONNECT)"

definition geoip_remove_old_clients :: "int \<Rightarrow> dos_state \<Rightarrow> dos_state" where
  "geoip_remove_old_clients cutoff = with_freed (\<lambda>_ e. last_seen_in_minutes e < cutoff div 60)"

definition oom_clean_client_entries :: "nat \<Rightarrow> int \<Rightarrow> dos_state \<Rightarrow> nat \<times> dos_state" where
  "oom_clean_client_entries sizeof_entry cutoff st =
    (sum_list (map (\<lambda>(k, e). if last_seen_in_minutes e < cutoff div 60
                             then clientmap_entry_size sizeof_entry k else 0) (client_history st)),
     with_freed (\<lambda>_ e. last_seen_in_minutes e < cutoff div 60) st)"

definition WRITE_STATS_INTERVAL :: int where "WRITE_STATS_INTERVAL = 24 * 60 * 60"
definition GEOIP_CLIENT_CACHE_OOM_MIN_CUTOFF :: int where "GEOIP_CLIENT_CACHE_OOM_MIN_CUTOFF = 4 * 60 * 60"
definition GEOIP_CLIENT_CACHE_OOM_STEP :: int where "GEOIP_CLIENT_CACHE_OOM_STEP = 15 * 50"

function oom_loop :: "nat \<Rightarrow> int \<Rightarrow> nat \<Rightarrow> int \<Rightarrow> nat \<Rightarrow> dos_state \<Rightarrow> nat \<times> dos_state" where
  "oom_loop sizeof_entry now min_remove_bytes k bytes_removed st =
    (if k \<le> GEOIP_CLIENT_CACHE_OOM_MIN_CUTOFF then (bytes_removed, st)
     else let (n, st) = oom_clean_client_entries sizeof_entry (now - k) st;
              bytes_removed = bytes_removed + n
          in if bytes_removed < min_remove_bytes
             then oom_loop sizeof_entry now min_remove_bytes (k - GEOIP_CLIENT_CACHE_OOM_STEP) bytes_removed st
             else (bytes_removed, st))"
  by pat_completeness auto
termination
  by (relation "measure (\<lambda>(z, now, m, k, b, st). nat k)")
    (auto simp: GEOIP_CLIENT_CACHE_OOM_MIN_CUTOFF_def GEOIP_CLIENT_CACHE_OOM_STEP_def)

declare oom_loop.simps [simp del]

definition geoip_client_cache_handle_oom :: "nat \<Rightarrow> int \<Rightarrow> nat \<Rightarrow> dos_state \<Rightarrow> (nat \<times> dos_state) option" where
  "geoip_client_cache_handle_oom sizeof_entry now min_remove_bytes st =
    (if min_remove_bytes = 0 then None
     else Some (oom_loop sizeof_entry now min_remove_bytes WRITE_STATS_INTERVAL 0 st))"

definition MAX_LAST_SEEN_IN_MINUTES :: int where "MAX_LAST_SEEN_IN_MINUTES = 1073741823"

text \<open>Of the options, \<open>entry_stats\<close> is \<^verbatim>\<open>EntryStatistics\<close> or the recording of bridge usage, and
  \<open>dirreq_stats\<close> is \<^verbatim>\<open>DirReqStatistics\<close> on a relay that is no bridge authority.\<close>

definition geoip_note_client_seen :: "bool \<Rightarrow> bool \<Rightarrow> int \<Rightarrow> geoip_client_action \<Rightarrow> tor_addr \<Rightarrow> string option
    \<Rightarrow> int \<Rightarrow> dos_state \<Rightarrow> dos_state" where
  "geoip_note_client_seen entry_stats dirreq_stats mt action addr transport_name now st =
    (if action = GEOIP_CLIENT_CONNECT \<and> \<not> dos_is_enabled (globals st) \<and> \<not> entry_stats then st
     else if action = GEOIP_CLIENT_NETWORKSTATUS \<and> \<not> dirreq_stats then st
     else
       let ent = (case geoip_lookup_client (client_history st) addr transport_name action of
                    None \<Rightarrow> clientmap_entry_new (globals st) mt | Some e \<Rightarrow> e);
           ent = ent\<lparr>last_seen_in_minutes :=
                   (if now div 60 \<le> MAX_LAST_SEEN_IN_MINUTES \<and> now \<ge> 0 then now div 60 else 0)\<rparr>
       in st\<lparr>client_history := AList.update (addr, transport_name, action) ent (client_history st)\<rparr>)"

section \<open>Operations of the mitigation\<close>

text \<open>The entry that the operations on a channel work on.\<close>

definition channel_entry :: "clientmap \<Rightarrow> channel \<Rightarrow> (clientmap_key \<times> clientmap_entry) option" where
  "channel_entry h chan =
    (if \<not> channel_is_client chan then None
     else case channel_addr chan of None \<Rightarrow> None
     | Some addr \<Rightarrow> map_option (Pair (addr, None, GEOIP_CLIENT_CONNECT))
         (geoip_lookup_client h addr None GEOIP_CLIENT_CONNECT))"

definition set_dos_stats :: "clientmap_key \<Rightarrow> dos_client_stats \<Rightarrow> dos_state \<Rightarrow> dos_state" where
  "set_dos_stats key s st =
    (case map_of (client_history st) key of None \<Rightarrow> st
     | Some e \<Rightarrow> st\<lparr>client_history := AList.update key (e\<lparr>dos_stats := s\<rparr>) (client_history st)\<rparr>)"

definition dos_cc_new_create_cell :: "(int \<Rightarrow> int) \<Rightarrow> int \<Rightarrow> channel \<Rightarrow> dos_state \<Rightarrow> dos_state option" where
  "dos_cc_new_create_cell rnd now chan st =
    (if \<not> dos_cc_enabled (globals st) then Some st
     else case channel_entry (client_history st) chan of None \<Rightarrow> Some st
     | Some (key, entry) \<Rightarrow>
       map_option (\<lambda>(s, newly_marked).
           let st = set_dos_stats key s st; g = globals st
           in if newly_marked then st\<lparr>globals := g\<lparr>cc_num_marked_addrs := u32 (cc_num_marked_addrs g + 1)\<rparr>\<rparr> else st)
         (cc_create_cell_stats rnd (globals st) now (dos_stats entry)))"

definition cc_channel_addr_is_marked :: "int \<Rightarrow> channel option \<Rightarrow> dos_state \<Rightarrow> bool" where
  "cc_channel_addr_is_marked now chan st =
    (case chan of None \<Rightarrow> False
     | Some c \<Rightarrow> (case channel_entry (client_history st) c of None \<Rightarrow> False
       | Some (_, entry) \<Rightarrow> cc_marked_until_ts (cc_stats (dos_stats entry)) \<ge> now))"

definition dos_cc_get_defense_type :: "int \<Rightarrow> channel \<Rightarrow> dos_state \<Rightarrow> int \<times> dos_state" where
  "dos_cc_get_defense_type now chan st =
    (let g = globals st in
     if dos_cc_enabled g \<and> cc_channel_addr_is_marked now (Some chan) st
     then (dos_cc_defense_type g, st\<lparr>globals := g\<lparr>cc_num_rejected_cells := u64 (cc_num_rejected_cells g + 1)\<rparr>\<rparr>)
     else (DOS_CC_DEFENSE_NONE, st))"

definition dos_conn_addr_get_defense_type :: "int \<Rightarrow> tor_addr \<Rightarrow> dos_state \<Rightarrow> int \<times> dos_state" where
  "dos_conn_addr_get_defense_type now addr st =
    (let g = globals st; key = (addr, None, GEOIP_CLIENT_CONNECT) in
     if \<not> dos_conn_enabled g then (DOS_CONN_DEFENSE_NONE, st)
     else case geoip_lookup_client (client_history st) addr None GEOIP_CLIENT_CONNECT of
       None \<Rightarrow> (DOS_CONN_DEFENSE_NONE, st)
     | Some entry \<Rightarrow>
       let s = dos_stats entry in
       if conn_marked_until_ts (conn_stats s) \<ge> now
       then (dos_conn_defense_type g,
             st\<lparr>globals := g\<lparr>conn_num_addr_connect_rejected := u64 (conn_num_addr_connect_rejected g + 1)\<rparr>\<rparr>)
       else
         let st = set_dos_stats key (s\<lparr>conn_stats := (conn_stats s)\<lparr>conn_marked_until_ts := 0\<rparr>\<rparr>) st
         in if concurrent_count (conn_stats s) > dos_conn_max_concurrent_count g
            then (dos_conn_defense_type g,
                  st\<lparr>globals := g\<lparr>conn_num_addr_rejected := u64 (conn_num_addr_rejected g + 1)\<rparr>\<rparr>)
            else (DOS_CONN_DEFENSE_NONE, st))"

definition dos_note_circ_max_outq :: "(int \<Rightarrow> int) \<Rightarrow> int \<Rightarrow> channel \<Rightarrow> dos_state \<Rightarrow> dos_state option" where
  "dos_note_circ_max_outq rnd now chan st =
    (let g = globals st in
     if \<not> dos_cc_enabled g then Some st
     else case channel_entry (client_history st) chan of None \<Rightarrow> Some st
     | Some (key, entry) \<Rightarrow>
       let s = dos_stats entry in
       if cc_marked_until_ts (cc_stats s) \<ge> now then Some st
       else if dos_num_circ_max_outq g = 0 then Some st
       else
         let n = u32 (num_circ_max_cell_queue_size s + 1) in
         if n \<ge> dos_num_circ_max_outq g then
           let g' = (if cc_marked_until_ts (cc_stats s) = 0
                     then g\<lparr>cc_num_marked_addrs_max_queue := u32 (cc_num_marked_addrs_max_queue g + 1)\<rparr> else g)
           in map_option (\<lambda>cc. set_dos_stats key (s\<lparr>cc_stats := cc, num_circ_max_cell_queue_size := 0\<rparr>)
                                 (st\<lparr>globals := g'\<rparr>))
                (cc_mark_client rnd g now (cc_stats s))
         else Some (set_dos_stats key (s\<lparr>num_circ_max_cell_queue_size := n\<rparr>) st))"

definition dos_note_refuse_single_hop_client :: "dos_state \<Rightarrow> dos_state" where
  "dos_note_refuse_single_hop_client st =
    st\<lparr>globals := (globals st)\<lparr>num_single_hop_client_refused :=
         u64 (num_single_hop_client_refused (globals st) + 1)\<rparr>\<rparr>"

definition dos_should_refuse_single_hop_client :: "bool \<Rightarrow> dos_options \<Rightarrow> networkstatus option \<Rightarrow> bool option" where
  "dos_should_refuse_single_hop_client public_server_mode opts latest =
    (if \<not> public_server_mode then Some False
     else autobool_or_param (DoSRefuseSingleHopClientRendezvous opts)
            (dos_param (latest, None) ''DoSRefuseSingleHopClientRendezvous'' 0 0 1))"

definition set_tracked :: "nat \<Rightarrow> or_connections \<Rightarrow> or_connections" where
  "set_tracked i conns =
    map (\<lambda>(j, c). (j, if j = i then c\<lparr>tracked_for_dos_mitigation := True\<rparr> else c)) conns"

definition dos_new_client_conn :: "(int \<Rightarrow> int) \<Rightarrow> int \<Rightarrow> int \<Rightarrow> nat \<Rightarrow> or_connection \<Rightarrow> string option
    \<Rightarrow> dos_state \<Rightarrow> dos_state option" where
  "dos_new_client_conn rnd now mt i or_conn transport_name st =
    (if \<not> dos_is_enabled (globals st) then Some st
     else let key = (or_addr or_conn, transport_name, GEOIP_CLIENT_CONNECT) in
       case geoip_lookup_client (client_history st) (or_addr or_conn) transport_name GEOIP_CLIENT_CONNECT of
         None \<Rightarrow> Some st
       | Some entry \<Rightarrow>
         map_option (\<lambda>cs. let st = set_dos_stats key ((dos_stats entry)\<lparr>conn_stats := cs\<rparr>) st
                          in st\<lparr>connection_array := set_tracked i (connection_array st)\<rparr>)
           (conn_update_on_connect rnd (globals st) now mt (conn_stats (dos_stats entry))))"

text \<open>The first result says whether the \<^verbatim>\<open>BUG\<close> guard was hit.\<close>

definition dos_close_client_conn :: "or_connection \<Rightarrow> dos_state \<Rightarrow> bool \<times> dos_state" where
  "dos_close_client_conn or_conn st =
    (if \<not> tracked_for_dos_mitigation or_conn then (False, st)
     else let key = (or_addr or_conn, None, GEOIP_CLIENT_CONNECT) in
       case geoip_lookup_client (client_history st) (or_addr or_conn) None GEOIP_CLIENT_CONNECT of
         None \<Rightarrow> (False, st)
       | Some entry \<Rightarrow>
         let (bug, cs) = conn_update_on_close (conn_stats (dos_stats entry))
         in (bug, set_dos_stats key ((dos_stats entry)\<lparr>conn_stats := cs\<rparr>) st))"

section \<open>Streams\<close>

text \<open>The stream limiter of a circuit; a NULL circuit is \<^const>\<open>None\<close>.\<close>

definition dos_stream_new_begin_or_resolve_cell :: "int \<Rightarrow> token_bucket_ctr option \<Rightarrow> dos_globals
    \<Rightarrow> (int \<times> token_bucket_ctr option \<times> dos_globals) option" where
  "dos_stream_new_begin_or_resolve_cell mt circ g =
    (case circ of None \<Rightarrow> Some (DOS_STREAM_DEFENSE_NONE, None, g)
     | Some limiter \<Rightarrow>
       if \<not> dos_stream_enabled g then Some (DOS_STREAM_DEFENSE_NONE, circ, g)
       else map_option (\<lambda>b.
           if token_bucket_ctr_get b > 0
           then (DOS_STREAM_DEFENSE_NONE, Some (snd (token_bucket_ctr_dec b 1)), g)
           else (dos_stream_defense_type g, Some b, g\<lparr>stream_num_rejected := u64 (stream_num_rejected g + 1)\<rparr>))
         (token_bucket_ctr_refill 64 limiter mt))"

definition dos_stream_init_circ_tbf :: "int \<Rightarrow> dos_globals \<Rightarrow> token_bucket_ctr" where
  "dos_stream_init_circ_tbf mt g = token_bucket_ctr_init (dos_stream_rate g) (dos_stream_burst g) mt"

end
