(* ===== verification/DosInvariant.thy ===== *)
theory DosInvariant
  imports DosClients
begin

text \<open>
  The connection counts of the denial of service mitigation: over any history of connections
  without pluggable transports, cells, client map clean-ups and consensus changes, the count of
  every address is the number of its connections that are tracked, and no assertion fails.
\<close>

section \<open>Runs\<close>

record dos_env =
  env_rnd :: "int \<Rightarrow> int"
  env_opts :: dos_options
  env_entry_stats :: bool
  env_dirreq_stats :: bool
  env_sizeof_entry :: nat

text \<open>What happens to the module. A connection is opened before it is noted; noting a connection
  is the pair of calls in \<^verbatim>\<open>channel_tls_handle_incoming\<close>, and of
  \<^verbatim>\<open>channel_do_open_actions\<close> for connections not tracked yet; closing is
  \<^verbatim>\<open>connection_free_\<close>.\<close>

datatype dos_event =
    ConnOpened nat tor_addr
  | ConnNoted nat int int int
  | ConnClosed nat
  | CreateCell int channel
  | RelayCell int channel
  | AddrChecked int tor_addr
  | MaxOutq int channel
  | DirRequest tor_addr "string option" int int
  | RemoveOld int
  | HistoryClear
  | Oom int nat
  | ConsensusChanged networkstatus

fun dos_handle :: "dos_env \<Rightarrow> dos_event \<Rightarrow> dos_state \<Rightarrow> dos_state option" where
  "dos_handle env (ConnOpened i a) st =
     Some (if i \<in> fst ` set (connection_array st) \<or> int (length (connection_array st)) \<ge> UINT32_MAX then st
           else st\<lparr>connection_array := connection_array st @
                     [(i, \<lparr>or_addr = a, tracked_for_dos_mitigation = False\<rparr>)]\<rparr>)"
| "dos_handle env (ConnNoted i now mt wall) st =
     (case map_of (connection_array st) i of None \<Rightarrow> Some st
      | Some c \<Rightarrow>
        if tracked_for_dos_mitigation c then Some st
        else dos_new_client_conn (env_rnd env) now mt i c None
               (geoip_note_client_seen (env_entry_stats env) (env_dirreq_stats env) mt
                  GEOIP_CLIENT_CONNECT (or_addr c) None wall st))"
| "dos_handle env (ConnClosed i) st =
     Some (case map_of (connection_array st) i of None \<Rightarrow> st
      | Some c \<Rightarrow> (let st = snd (dos_close_client_conn c st)
          in st\<lparr>connection_array := filter (\<lambda>(j, _). j \<noteq> i) (connection_array st)\<rparr>))"
| "dos_handle env (CreateCell now chan) st = dos_cc_new_create_cell (env_rnd env) now chan st"
| "dos_handle env (RelayCell now chan) st = Some (snd (dos_cc_get_defense_type now chan st))"
| "dos_handle env (AddrChecked now a) st = Some (snd (dos_conn_addr_get_defense_type now a st))"
| "dos_handle env (MaxOutq now chan) st = dos_note_circ_max_outq (env_rnd env) now chan st"
| "dos_handle env (DirRequest a t mt wall) st =
     Some (geoip_note_client_seen (env_entry_stats env) (env_dirreq_stats env) mt
             GEOIP_CLIENT_NETWORKSTATUS a t wall st)"
| "dos_handle env (RemoveOld cutoff) st = Some (geoip_remove_old_clients cutoff st)"
| "dos_handle env HistoryClear st = Some (client_history_clear st)"
| "dos_handle env (Oom now n) st =
     (if n = 0 then Some st
      else map_option snd (geoip_client_cache_handle_oom (env_sizeof_entry env) now n st))"
| "dos_handle env (ConsensusChanged ns) st =
     map_option (\<lambda>g. st\<lparr>globals := g\<rparr>)
       (dos_consensus_has_changed True (env_opts env) (None, Some ns) (globals st))"

fun dos_run :: "dos_env \<Rightarrow> dos_event list \<Rightarrow> dos_state \<Rightarrow> dos_state option" where
  "dos_run env [] st = Some st"
| "dos_run env (e # es) st = (case dos_handle env e st of None \<Rightarrow> None | Some st' \<Rightarrow> dos_run env es st')"

section \<open>The invariant\<close>

definition conn_count :: "clientmap_entry \<Rightarrow> int" where
  "conn_count e = concurrent_count (conn_stats (dos_stats e))"

definition entry_count :: "clientmap \<Rightarrow> tor_addr \<Rightarrow> int" where
  "entry_count h a = (case map_of h (a, None, GEOIP_CLIENT_CONNECT) of None \<Rightarrow> 0 | Some e \<Rightarrow> conn_count e)"

definition tracked_conns :: "tor_addr \<Rightarrow> or_connections \<Rightarrow> nat" where
  "tracked_conns a conns = length (filter (\<lambda>(i, c). or_addr c = a \<and> tracked_for_dos_mitigation c) conns)"

definition entry_ok :: "clientmap_key \<Rightarrow> clientmap_entry \<Rightarrow> bool" where
  "entry_ok k e \<longleftrightarrow> ctr_ok (connect_count (conn_stats (dos_stats e))) \<and>
     (snd k \<noteq> (None, GEOIP_CLIENT_CONNECT) \<longrightarrow> conn_count e = 0)"

definition globals_ok :: "dos_globals \<Rightarrow> bool" where
  "globals_ok g \<longleftrightarrow> 0 < dos_conn_connect_rate g \<and> dos_conn_connect_rate g \<le> UINT32_MAX
     \<and> 0 < dos_conn_connect_burst g
     \<and> 4 \<le> dos_cc_defense_time_period g \<and> dos_cc_defense_time_period g \<le> INT32_MAX
     \<and> 4 \<le> dos_conn_connect_defense_time_period g \<and> dos_conn_connect_defense_time_period g \<le> INT32_MAX"

definition counts_ok :: "dos_state \<Rightarrow> bool" where
  "counts_ok st \<longleftrightarrow> distinct (map fst (client_history st)) \<and> distinct (map fst (connection_array st))
     \<and> int (length (connection_array st)) \<le> UINT32_MAX
     \<and> (\<forall>k e. map_of (client_history st) k = Some e \<longrightarrow> entry_ok k e)
     \<and> (\<forall>a. entry_count (client_history st) a = int (tracked_conns a (connection_array st)))"

definition dos_inv :: "dos_state \<Rightarrow> bool" where
  "dos_inv st \<longleftrightarrow> globals_ok (globals st) \<and> counts_ok st"

lemma tracked_conns_le: "tracked_conns a conns \<le> length conns"
  by (simp add: tracked_conns_def)

lemma counts_ok_globals [simp]: "counts_ok (st\<lparr>globals := g\<rparr>) = counts_ok st"
  by (simp add: counts_ok_def)

lemma counts_okD: "counts_ok st \<Longrightarrow> map_of (client_history st) k = Some e \<Longrightarrow> entry_ok k e"
  unfolding counts_ok_def by blast

text \<open>Replacing the statistics of an entry by ones with the same count.\<close>

lemma set_dos_stats_counts:
  assumes "counts_ok st" "map_of (client_history st) k = Some e"
    "conn_count (e\<lparr>dos_stats := s\<rparr>) = conn_count e" "ctr_ok (connect_count (conn_stats s))"
  shows "counts_ok (set_dos_stats k s st)"
proof -
  let ?h = "client_history st" and ?e = "e\<lparr>dos_stats := s\<rparr>"
  have ok: "entry_ok k ?e"
    using counts_okD [OF assms(1,2)] assms(3,4) by (simp add: entry_ok_def)
  have h: "client_history (set_dos_stats k s st) = AList.update k ?e ?h"
    "connection_array (set_dos_stats k s st) = connection_array st"
    using assms(2) by (simp_all add: set_dos_stats_def)
  have "entry_count (AList.update k ?e ?h) a = entry_count ?h a" for a
    using assms(2,3) by (simp add: entry_count_def update_conv')
  then show ?thesis
    using assms(1) ok counts_okD [OF assms(1)]
    by (simp add: counts_ok_def h distinct_update update_conv')
qed

lemma set_dos_stats_globals [simp]: "globals (set_dos_stats k s st) = globals st"
  by (simp add: set_dos_stats_def split: option.splits)

lemma channel_entry_Some:
  "channel_entry h chan = Some (k, e) \<Longrightarrow> map_of h k = Some e"
  by (auto simp: channel_entry_def geoip_lookup_client_def split: if_splits option.splits)

section \<open>Freeing entries\<close>

definition untrack :: "(tor_addr \<Rightarrow> bool) \<Rightarrow> or_connections \<Rightarrow> or_connections" where
  "untrack Q conns =
    map (\<lambda>(i, c). (i, if Q (or_addr c) then c\<lparr>tracked_for_dos_mitigation := False\<rparr> else c)) conns"

lemma untrack_simps [simp]:
  "map fst (untrack Q conns) = map fst conns" "length (untrack Q conns) = length conns"
  "untrack (\<lambda>_. False) conns = conns"
  "untrack Q (untrack R conns) = untrack (\<lambda>a. Q a \<or> R a) conns"
  by (auto simp: untrack_def)

lemma about_to_free_untrack:
  "dos_geoip_entry_about_to_free k e conns = untrack (\<lambda>a. conn_count e \<noteq> 0 \<and> a = fst k) conns"
proof (cases "conn_count e = 0")
  case True
  then show ?thesis by (simp add: dos_geoip_entry_about_to_free_def conn_count_def)
next
  case False
  then show ?thesis by (simp add: dos_geoip_entry_about_to_free_def conn_count_def untrack_def)
qed

lemma free_entries_eq:
  "free_entries P h conns = (filter (\<lambda>(k, e). \<not> P k e) h,
     untrack (\<lambda>a. \<exists>(k, e) \<in> set h. P k e \<and> conn_count e \<noteq> 0 \<and> a = fst k) conns)"
proof (induction P h conns rule: free_entries.induct)
  case (2 P k e h conns)
  then show ?case
    by (auto simp: about_to_free_untrack split: prod.splits intro!: arg_cong [where f = "\<lambda>Q. untrack Q conns"])
qed simp

lemma untrack_Cons: "untrack Q ((i, c) # conns) =
    (i, if Q (or_addr c) then c\<lparr>tracked_for_dos_mitigation := False\<rparr> else c) # untrack Q conns"
  by (simp add: untrack_def)

lemma tracked_conns_simps [simp]:
  "tracked_conns a [] = 0"
  "tracked_conns a ((i, c) # conns) =
    (if or_addr c = a \<and> tracked_for_dos_mitigation c then 1 else 0) + tracked_conns a conns"
  by (simp_all add: tracked_conns_def)

lemma tracked_untrack:
  "tracked_conns a (untrack Q conns) = (if Q a then 0 else tracked_conns a conns)"
proof (induction conns)
  case (Cons x conns)
  obtain i c where x: "x = (i, c)" by (cases x)
  show ?case using Cons unfolding x
    by (cases "Q a"; cases "or_addr c = a") (simp_all add: untrack_Cons)
qed (simp add: untrack_def)

lemma with_freed_counts:
  assumes "counts_ok st"
  shows "counts_ok (with_freed P st)"
proof -
  let ?h = "client_history st" and ?c = "connection_array st"
  let ?h' = "filter (\<lambda>(k, e). \<not> P k e) ?h"
  let ?Q = "\<lambda>a. \<exists>(k, e) \<in> set ?h. P k e \<and> conn_count e \<noteq> 0 \<and> a = fst k"
  have d: "distinct (map fst ?h)" using assms by (simp add: counts_ok_def)
  then have d': "distinct (map fst ?h')" by (rule distinct_map_filter)
  have mo: "map_of ?h' k = Some e \<longleftrightarrow> map_of ?h k = Some e \<and> \<not> P k e" for k e
    using d d' by (auto simp: map_of_eq_Some_iff)
  have eo: "map_of ?h k = Some e \<Longrightarrow> entry_ok k e" for k e using counts_okD [OF assms] .
  have "entry_count ?h' a = int (tracked_conns a (untrack ?Q ?c))" for a
  proof (cases "?Q a")
    case True
    then obtain k e where ke: "(k, e) \<in> set ?h" "P k e" "conn_count e \<noteq> 0" "a = fst k" by auto
    then have m: "map_of ?h k = Some e" using d by simp
    with eo [OF m] ke have "k = (a, None, GEOIP_CLIENT_CONNECT)" by (cases k) (auto simp: entry_ok_def)
    with mo [of k] m ke(2) have "map_of ?h' (a, None, GEOIP_CLIENT_CONNECT) = None"
      by (cases "map_of ?h' k") auto
    with True show ?thesis by (simp add: entry_count_def tracked_untrack)
  next
    case False
    let ?k = "(a, None, GEOIP_CLIENT_CONNECT)"
    have "entry_count ?h' a = entry_count ?h a"
    proof (cases "map_of ?h ?k")
      case None
      then have "map_of ?h' ?k = None" using mo [of ?k] by (cases "map_of ?h' ?k") auto
      with None show ?thesis by (simp add: entry_count_def)
    next
      case (Some e)
      show ?thesis
      proof (cases "P ?k e")
        case True
        have "(?k, e) \<in> set ?h" using Some d by (simp add: map_of_eq_Some_iff)
        then have "conn_count e \<noteq> 0 \<Longrightarrow> ?Q a" using True by (intro bexI [of _ "(?k, e)"]) simp_all
        with False have "conn_count e = 0" by blast
        moreover have "map_of ?h' ?k = None"
        proof (rule ccontr)
          assume "map_of ?h' ?k \<noteq> None"
          then obtain e' where "map_of ?h' ?k = Some e'" by blast
          from mo [THEN iffD1, OF this] Some True show False by simp
        qed
        ultimately show ?thesis using Some by (simp add: entry_count_def)
      next
        case notP: False
        then have "map_of ?h' ?k = Some e" using mo Some by simp
        with Some show ?thesis by (simp add: entry_count_def)
      qed
    qed
    with False assms show ?thesis by (simp add: tracked_untrack counts_ok_def)
  qed
  note counts = this
  have entries: "map_of ?h' k = Some e \<Longrightarrow> entry_ok k e" for k e using eo mo by blast
  have arr: "distinct (map fst ?c)" "int (length ?c) \<le> UINT32_MAX"
    using assms unfolding counts_ok_def by blast+
  have new: "client_history (with_freed P st) = ?h'" "connection_array (with_freed P st) = untrack ?Q ?c"
    by (simp_all add: with_freed_def free_entries_eq)
  show ?thesis
    unfolding counts_ok_def new untrack_simps by (intro conjI allI impI d' arr entries counts)
qed

lemma with_freed_globals [simp]: "globals (with_freed P st) = globals st"
  by (simp add: with_freed_def split: prod.splits)

lemma oom_loop_counts:
  "counts_ok st \<Longrightarrow> counts_ok (snd (oom_loop z now m k b st)) \<and> globals (snd (oom_loop z now m k b st)) = globals st"
proof (induction z now m k b st rule: oom_loop.induct)
  case (1 z now m k b st)
  show ?case
  proof (cases "k \<le> GEOIP_CLIENT_CACHE_OOM_MIN_CUTOFF")
    case True
    then show ?thesis using "1.prems" by (simp add: oom_loop.simps)
  next
    case False
    obtain n st1 where o: "oom_clean_client_entries z (now - k) st = (n, st1)" by fastforce
    then have s1: "counts_ok st1" "globals st1 = globals st"
      using with_freed_counts [OF "1.prems"] by (auto simp: oom_clean_client_entries_def)
    show ?thesis
      using "1.IH" [OF False o [symmetric] refl refl _ s1(1)] s1 False
      by (subst (1 2) oom_loop.simps) (simp add: o Let_def)
  qed
qed

section \<open>No assertion fails\<close>

text \<open>Options that are 0 leave the value to the consensus.\<close>

definition dos_opts_ok :: "dos_options \<Rightarrow> bool" where
  "dos_opts_ok opts \<longleftrightarrow> (DoSCircuitCreationDefenseTimePeriod opts = 0 \<or>
        4 \<le> DoSCircuitCreationDefenseTimePeriod opts \<and> DoSCircuitCreationDefenseTimePeriod opts \<le> INT32_MAX)
     \<and> (DoSConnectionConnectDefenseTimePeriod opts = 0 \<or>
        4 \<le> DoSConnectionConnectDefenseTimePeriod opts \<and> DoSConnectionConnectDefenseTimePeriod opts \<le> INT32_MAX)
     \<and> 0 \<le> DoSConnectionConnectRate opts \<and> DoSConnectionConnectRate opts \<le> INT32_MAX
     \<and> 0 \<le> DoSConnectionConnectBurst opts \<and> DoSConnectionConnectBurst opts \<le> INT32_MAX"

text \<open>The options with a consensus give a defense period for circuit creation of at least four seconds.\<close>

definition period_ok :: "dos_options \<Rightarrow> consensus_view \<Rightarrow> bool" where
  "period_ok opts ns \<longleftrightarrow> (case get_param_cc_defense_time_period opts ns of None \<Rightarrow> False | Some v \<Rightarrow> 4 \<le> v)"

definition rnd_ok :: "(int \<Rightarrow> int) \<Rightarrow> bool" where
  "rnd_ok rnd \<longleftrightarrow> (\<forall>n. 0 < n \<longrightarrow> 0 \<le> rnd n \<and> rnd n < n)"

definition param_val :: "consensus_view \<Rightarrow> string \<Rightarrow> int \<Rightarrow> int \<Rightarrow> int \<Rightarrow> int" where
  "param_val ns name d mn mx = the (dos_param ns name d mn mx)"

lemma dos_param_Some:
  assumes "mn < mx" "mn \<le> d" "d \<le> mx"
  shows "dos_param ns name d mn mx = Some (param_val ns name d mn mx)"
    "mn \<le> param_val ns name d mn mx" "param_val ns name d mn mx \<le> mx"
proof -
  obtain v where "networkstatus_get_param (fst ns) (snd ns) name d mn mx = Some v" "mn \<le> v" "v \<le> mx"
    by (rule networkstatus_get_param_range [OF assms])
  then show "dos_param ns name d mn mx = Some (param_val ns name d mn mx)"
    "mn \<le> param_val ns name d mn mx" "param_val ns name d mn mx \<le> mx"
    by (simp_all add: param_val_def dos_param_def)
qed

lemmas dos_get_param_defs = get_param_dos_num_circ_max_outq_def get_param_cc_enabled_def
  get_param_cc_min_concurrent_connection_def get_param_cc_circuit_rate_def get_param_cc_circuit_burst_def
  get_param_cc_defense_type_def get_param_cc_defense_time_period_def get_param_conn_enabled_def
  get_param_conn_max_concurrent_count_def get_param_conn_defense_type_def get_param_conn_connect_rate_def
  get_param_conn_connect_burst_def get_param_conn_connect_defense_time_period_def
  get_param_stream_enabled_def get_param_stream_rate_def get_param_stream_burst_def
  get_param_stream_defense_type_def autobool_or_param_def option_or_param_def
  DOS_CONN_CONNECT_DEFENSE_TIME_PERIOD_MIN_def

lemma dos_get_params_Some:
  "get_param_cc_enabled opts ns \<noteq> None" "get_param_cc_min_concurrent_connection opts ns \<noteq> None"
  "get_param_cc_circuit_rate opts ns \<noteq> None" "get_param_cc_circuit_burst opts ns \<noteq> None"
  "get_param_cc_defense_time_period opts ns \<noteq> None" "get_param_cc_defense_type opts ns \<noteq> None"
  "get_param_conn_enabled opts ns \<noteq> None" "get_param_conn_max_concurrent_count opts ns \<noteq> None"
  "get_param_conn_defense_type opts ns \<noteq> None" "get_param_conn_connect_rate opts ns \<noteq> None"
  "get_param_conn_connect_burst opts ns \<noteq> None" "get_param_conn_connect_defense_time_period opts ns \<noteq> None"
  "get_param_dos_num_circ_max_outq ns \<noteq> None" "get_param_stream_enabled opts ns \<noteq> None"
  "get_param_stream_defense_type opts ns \<noteq> None" "get_param_stream_rate opts ns \<noteq> None"
  "get_param_stream_burst opts ns \<noteq> None"
  by (simp_all add: dos_get_param_defs dos_param_Some(1) dos_defense_defs)

lemma dos_periods_ok:
  assumes "dos_opts_ok opts"
  shows "period_ok opts ns \<Longrightarrow> get_param_cc_defense_time_period opts ns = Some v \<Longrightarrow> 4 \<le> v \<and> v \<le> INT32_MAX"
    "get_param_conn_connect_defense_time_period opts ns = Some v \<Longrightarrow> 4 \<le> v \<and> v \<le> INT32_MAX"
    "get_param_conn_connect_rate opts ns = Some v \<Longrightarrow> 0 < v \<and> v \<le> UINT32_MAX"
    "get_param_conn_connect_burst opts ns = Some v \<Longrightarrow> 0 < v"
  using assms dos_param_Some(2,3) [of 1 INT32_MAX 20 ns "''DoSConnectionConnectRate''"]
    dos_param_Some(2,3) [of 1 INT32_MAX 40 ns "''DoSConnectionConnectBurst''"]
    dos_param_Some(2,3) [of 10 INT32_MAX 86400 ns "''DoSConnectionConnectDefenseTimePeriod''"]
    dos_param_Some(2,3) [of 0 INT32_MAX 3600 ns "''DoSCircuitCreationDefenseTimePeriod''"]
  by (auto simp: period_ok_def dos_get_param_defs dos_param_Some(1) dos_opts_ok_def u32_id split: if_splits)

lemma bind_ex: "m \<noteq> None \<Longrightarrow> (\<And>x. \<exists>y. f x = Some y) \<Longrightarrow> \<exists>y. Option.bind m f = Some y"
  by auto

lemma set_dos_parameters_ok:
  assumes "dos_opts_ok opts" "period_ok opts ns"
  obtains g' where "set_dos_parameters opts ns g = Some g'" "globals_ok g'"
proof -
  have "\<exists>g'. set_dos_parameters opts ns g = Some g'"
    unfolding set_dos_parameters_def by (intro bind_ex dos_get_params_Some) simp
  then obtain g' where g': "set_dos_parameters opts ns g = Some g'" by blast
  then have "globals_ok g'"
    using dos_periods_ok [OF assms(1), of ns] assms(2)
    by (auto simp: set_dos_parameters_def bind_eq_Some_conv globals_ok_def)
  with g' that show thesis by blast
qed

lemma dos_consensus_has_changed_ok:
  assumes "dos_opts_ok opts" "period_ok opts ns"
  obtains g' where "dos_consensus_has_changed True opts ns g = Some g'" "globals_ok g'"
proof -
  have "\<exists>g1. cc_consensus_has_changed opts ns g = Some g1"
    by (simp add: cc_consensus_has_changed_def dos_get_param_defs dos_param_Some(1))
  then obtain g1 where g1: "cc_consensus_has_changed opts ns g = Some g1" by blast
  have "\<exists>g2. conn_consensus_has_changed opts ns g1 = Some g2"
    by (simp add: conn_consensus_has_changed_def dos_get_param_defs dos_param_Some(1))
  then obtain g2 where g2: "conn_consensus_has_changed opts ns g1 = Some g2" by blast
  obtain g3 where "set_dos_parameters opts ns g2 = Some g3" "globals_ok g3"
    using set_dos_parameters_ok [OF assms] by blast
  with g1 g2 that show thesis by (simp add: dos_consensus_has_changed_def)
qed

lemma conn_mark_client_Some:
  assumes "globals_ok g" "rnd_ok rnd"
  obtains u where "conn_mark_client rnd g now s = Some (s\<lparr>conn_marked_until_ts := u\<rparr>)"
proof -
  have "2 \<le> dos_conn_connect_defense_time_period g div 2"
    "dos_conn_connect_defense_time_period g div 2 \<le> INT32_MAX"
    using assms(1) by (auto simp: globals_ok_def)
  with that show thesis by (auto simp: conn_mark_client_def crypto_rand_int_range_def u32_id)
qed

lemma ctr_refill_ok:
  assumes "ctr_ok b"
  obtains b' where "token_bucket_ctr_refill 64 b mt = Some b'" "ctr_ok b'"
  using that [OF ctr_refill_exact [OF assms]] assms u32_range(1)
  by (simp add: ctr_ok_def raw_refilled_ok)

lemma ctr_take_ok:
  assumes "ctr_ok b"
  shows "ctr_ok (if token_bucket_ctr_get b > 0 then snd (token_bucket_ctr_dec b 1) else b)"
proof (cases "token_bucket_ctr_get b > 0")
  case True
  then have "1 \<le> bucket (counter b)"
    by (auto simp: token_bucket_ctr_get_def token_bucket_raw_get_def split: if_splits)
  then show ?thesis using ctr_dec_exact [OF assms, of 1] assms True
    by (auto simp: bucket_ok_defs)
qed (use assms in simp)

lemma conn_update_on_connect_ok:
  assumes "globals_ok g" "rnd_ok rnd" "ctr_ok (connect_count s)"
    "0 \<le> concurrent_count s" "concurrent_count s < UINT32_MAX"
  obtains s' where "conn_update_on_connect rnd g now mt s = Some s'"
    "concurrent_count s' = concurrent_count s + 1" "ctr_ok (connect_count s')"
proof -
  obtain b where b: "token_bucket_ctr_refill 64 (connect_count s) mt = Some b" "ctr_ok b"
    using ctr_refill_ok [OF assms(3)] by blast
  let ?b = "if token_bucket_ctr_get b > 0 then snd (token_bucket_ctr_dec b 1) else b"
  let ?s = "s\<lparr>concurrent_count := concurrent_count s + 1, connect_count := ?b\<rparr>"
  obtain u where u: "conn_mark_client rnd g now ?s = Some (?s\<lparr>conn_marked_until_ts := u\<rparr>)"
    using conn_mark_client_Some [OF assms(1,2)] by blast
  have "conn_update_on_connect rnd g now mt s =
      (if token_bucket_ctr_get ?b = 0 \<and> conn_marked_until_ts s = 0
       then Some (?s\<lparr>conn_marked_until_ts := u\<rparr>) else Some ?s)"
    using assms(4,5) u unfolding conn_update_on_connect_def by (simp add: b(1) u32_id Let_def)
  then show thesis using that ctr_take_ok [OF b(2)] by (auto split: if_splits)
qed

lemma cc_mark_Some:
  assumes "globals_ok g" "rnd_ok rnd"
  obtains s' where "cc_mark_client rnd g now s = Some s'"
  using cc_mark_client_Some [of g rnd now s] assms unfolding globals_ok_def rnd_ok_def by metis

lemma cc_create_cell_stats_ok:
  assumes "globals_ok g" "rnd_ok rnd"
  obtains s' f where "cc_create_cell_stats rnd g now s = Some (s', f)" "conn_stats s' = conn_stats s"
proof -
  define c where "c = cc_stats_refill_bucket g now (cc_stats s)"
  define d where "d = (if circuit_bucket c > 0 then c\<lparr>circuit_bucket := circuit_bucket c - 1\<rparr> else c)"
  obtain m where "cc_mark_client rnd g now d = Some m" using cc_mark_Some [OF assms] by blast
  moreover have "cc_create_cell_stats rnd g now s =
      (if cc_has_exhausted_circuits g (s\<lparr>cc_stats := d\<rparr>)
       then map_option (\<lambda>cc'. (s\<lparr>cc_stats := cc'\<rparr>, cc_marked_until_ts d = 0)) (cc_mark_client rnd g now d)
       else Some (s\<lparr>cc_stats := d\<rparr>, False))"
    by (simp add: cc_create_cell_stats_def Let_def c_def d_def)
  ultimately show thesis using that by (cases "cc_has_exhausted_circuits g (s\<lparr>cc_stats := d\<rparr>)") auto
qed

lemma conn_update_on_connect_count:
  assumes "conn_update_on_connect rnd g now mt s = Some s'"
    "0 \<le> concurrent_count s" "concurrent_count s < UINT32_MAX"
  shows "concurrent_count s' = concurrent_count s + 1"
  using assms by (auto simp: conn_update_on_connect_def conn_mark_client_def crypto_rand_int_range_def
      u32_id Let_def bind_eq_Some_conv split: option.splits if_splits)

section \<open>Every operation keeps the counts\<close>

lemma note_client_seen_counts:
  assumes "dos_inv st"
  shows "dos_inv (geoip_note_client_seen es ds mt action a t wall st)"
    "connection_array (geoip_note_client_seen es ds mt action a t wall st) = connection_array st"
    "globals (geoip_note_client_seen es ds mt action a t wall st) = globals st"
proof -
  let ?st = "geoip_note_client_seen es ds mt action a t wall st" and ?k = "(a, t, action)"
  let ?h = "client_history st"
  show gl: "globals ?st = globals st" and ar: "connection_array ?st = connection_array st"
    by (simp_all add: geoip_note_client_seen_def Let_def)
  define e where "e = (case map_of ?h ?k of None \<Rightarrow> clientmap_entry_new (globals st) mt | Some e \<Rightarrow> e)"
  have cnt: "conn_count e = (case map_of ?h ?k of None \<Rightarrow> 0 | Some e \<Rightarrow> conn_count e)"
    by (simp add: e_def clientmap_entry_new_def dos_geoip_entry_init_def conn_count_def split: option.splits)
  have "entry_ok ?k e"
  proof (cases "map_of ?h ?k")
    case None
    then show ?thesis using assms ctr_init_ok
      by (simp add: e_def entry_ok_def clientmap_entry_new_def dos_geoip_entry_init_def conn_count_def
          dos_inv_def globals_ok_def)
  next
    case (Some e')
    then show ?thesis using assms counts_okD [of st ?k e'] by (simp add: e_def dos_inv_def)
  qed
  then have ok: "entry_ok ?k (e\<lparr>last_seen_in_minutes := m\<rparr>)" for m
    by (simp add: entry_ok_def conn_count_def)
  have ec: "entry_count (AList.update ?k (e\<lparr>last_seen_in_minutes := m\<rparr>) ?h) b = entry_count ?h b" for m b
    using cnt by (auto simp: entry_count_def update_conv' conn_count_def split: option.splits)
  show "dos_inv ?st"
  proof (cases "action = GEOIP_CLIENT_CONNECT \<and> \<not> dos_is_enabled (globals st) \<and> \<not> es
      \<or> action = GEOIP_CLIENT_NETWORKSTATUS \<and> \<not> ds")
    case True
    then have "?st = st" by (auto simp: geoip_note_client_seen_def)
    with assms show ?thesis by simp
  next
    case False
    then have f: "\<not> (action = GEOIP_CLIENT_CONNECT \<and> \<not> dos_is_enabled (globals st) \<and> \<not> es)"
      "\<not> (action = GEOIP_CLIENT_NETWORKSTATUS \<and> \<not> ds)" by blast+
    define m where "m = (if wall div 60 \<le> MAX_LAST_SEEN_IN_MINUTES \<and> 0 \<le> wall then wall div 60 else 0)"
    have "?st = st\<lparr>client_history := AList.update ?k (e\<lparr>last_seen_in_minutes := m\<rparr>) ?h\<rparr>"
      unfolding geoip_note_client_seen_def if_not_P [OF f(1)] if_not_P [OF f(2)]
        geoip_lookup_client_def e_def m_def Let_def by (rule refl)
    moreover have "counts_ok (st\<lparr>client_history := AList.update ?k (e\<lparr>last_seen_in_minutes := m\<rparr>) ?h\<rparr>)"
    proof -
      have c: "counts_ok st" using assms by (simp add: dos_inv_def)
      then have "map_of (AList.update ?k (e\<lparr>last_seen_in_minutes := m\<rparr>) ?h) k' = Some e' \<Longrightarrow> entry_ok k' e'" for k' e'
        using ok counts_okD [OF c] by (auto simp: update_conv' split: if_splits)
      with c show ?thesis by (simp add: counts_ok_def ec distinct_update)
    qed
    ultimately show ?thesis using assms by (simp only: dos_inv_def) simp
  qed
qed

lemma note_client_seen_entry:
  assumes "dos_is_enabled (globals st)"
  obtains e where "map_of (client_history (geoip_note_client_seen es ds mt GEOIP_CLIENT_CONNECT a t wall st))
    (a, t, GEOIP_CLIENT_CONNECT) = Some e"
  using assms by (simp add: geoip_note_client_seen_def Let_def update_conv')

text \<open>Replacing the statistics of the entry of an address.\<close>

lemma set_count:
  assumes "counts_ok st" "map_of (client_history st) (a, None, GEOIP_CLIENT_CONNECT) = Some e"
    "ctr_ok (connect_count (conn_stats s))"
  defines "st' \<equiv> set_dos_stats (a, None, GEOIP_CLIENT_CONNECT) s st"
  shows "entry_count (client_history st') b
      = (if b = a then concurrent_count (conn_stats s) else entry_count (client_history st) b)"
    "distinct (map fst (client_history st'))" "connection_array st' = connection_array st"
    "map_of (client_history st') k = Some e' \<Longrightarrow> entry_ok k e'"
  using assms(1-3) counts_okD [OF assms(1)]
  by (auto simp: st'_def set_dos_stats_def update_conv' entry_count_def conn_count_def counts_ok_def
      distinct_update entry_ok_def split: if_splits)

lemma tracked_set_tracked:
  assumes "distinct (map fst conns)" "map_of conns i = Some c" "\<not> tracked_for_dos_mitigation c"
  shows "tracked_conns a (set_tracked i conns) = tracked_conns a conns + (if or_addr c = a then 1 else 0)"
  using assms
proof (induction conns)
  case (Cons x conns)
  obtain j d where x: "x = (j, d)" by (cases x)
  have other: "set_tracked i conns = conns" if "i \<notin> fst ` set conns"
    using that by (induction conns) (auto simp: set_tracked_def)
  have step: "set_tracked i (x # conns) =
      (j, if j = i then d\<lparr>tracked_for_dos_mitigation := True\<rparr> else d) # set_tracked i conns"
    by (simp add: set_tracked_def x)
  show ?case
  proof (cases "j = i")
    case True
    then have "i \<notin> fst ` set conns" "d = c" using Cons.prems x by auto
    then show ?thesis using True Cons.prems(3) other unfolding step by (simp add: x)
  next
    case False
    then show ?thesis using Cons x unfolding step by simp
  qed
qed simp

lemma tracked_remove:
  assumes "distinct (map fst conns)" "map_of conns i = Some c"
  shows "tracked_conns a conns = tracked_conns a (filter (\<lambda>(j, _). j \<noteq> i) conns)
    + (if or_addr c = a \<and> tracked_for_dos_mitigation c then 1 else 0)"
  using assms
proof (induction conns)
  case (Cons x conns)
  obtain j d where x: "x = (j, d)" by (cases x)
  show ?case
  proof (cases "j = i")
    case True
    then have "filter (\<lambda>(j, _). j \<noteq> i) conns = conns" "d = c"
      using Cons.prems x by (force simp: filter_id_conv)+
    then show ?thesis using True by (simp add: x)
  next
    case False
    then show ?thesis using Cons x by simp
  qed
qed simp

lemma new_client_conn_ok:
  assumes "dos_inv st" "rnd_ok rnd" "map_of (connection_array st) i = Some c"
    "\<not> tracked_for_dos_mitigation c"
    "dos_is_enabled (globals st) \<Longrightarrow> map_of (client_history st) (or_addr c, None, GEOIP_CLIENT_CONNECT) \<noteq> None"
  obtains st' where "dos_new_client_conn rnd now mt i c None st = Some st'" "dos_inv st'"
proof (cases "dos_is_enabled (globals st)")
  case False
  then show thesis using that assms(1) by (simp add: dos_new_client_conn_def)
next
  case True
  let ?a = "or_addr c" and ?conns = "connection_array st"
  obtain e where e: "map_of (client_history st) (?a, None, GEOIP_CLIENT_CONNECT) = Some e"
    using assms(5) [OF True] by blast
  have ok: "counts_ok st" "globals_ok (globals st)" using assms(1) by (auto simp: dos_inv_def)
  then have d: "distinct (map fst ?conns)" and len: "int (length ?conns) \<le> UINT32_MAX"
    and all: "\<And>a. entry_count (client_history st) a = int (tracked_conns a ?conns)"
    unfolding counts_ok_def by blast+
  have cnt: "concurrent_count (conn_stats (dos_stats e)) = int (tracked_conns ?a ?conns)"
    using all [of ?a] e by (simp add: entry_count_def conn_count_def)
  have "tracked_conns ?a (set_tracked i ?conns) \<le> length ?conns"
    using tracked_conns_le [of ?a "set_tracked i ?conns"] by (simp add: set_tracked_def)
  then have lt: "int (tracked_conns ?a ?conns) < UINT32_MAX"
    using tracked_set_tracked [OF d assms(3,4), of ?a] len by simp
  have ctr: "ctr_ok (connect_count (conn_stats (dos_stats e)))"
    using counts_okD [OF ok(1) e] by (simp add: entry_ok_def)
  obtain cs where cs: "conn_update_on_connect rnd (globals st) now mt (conn_stats (dos_stats e)) = Some cs"
    "concurrent_count cs = concurrent_count (conn_stats (dos_stats e)) + 1" "ctr_ok (connect_count cs)"
    using conn_update_on_connect_ok [OF ok(2) assms(2) ctr] lt cnt by (metis of_nat_0_le_iff)
  let ?s = "(dos_stats e)\<lparr>conn_stats := cs\<rparr>"
  let ?st1 = "set_dos_stats (?a, None, GEOIP_CLIENT_CONNECT) ?s st"
  have ctr': "ctr_ok (connect_count (conn_stats ?s))" using cs(3) by simp
  note sc = set_count [OF ok(1) e ctr']
  have run: "dos_new_client_conn rnd now mt i c None st =
      Some (?st1\<lparr>connection_array := set_tracked i ?conns\<rparr>)"
    using True by (simp add: dos_new_client_conn_def geoip_lookup_client_def e cs(1) Let_def sc(3))
  have ent: "entry_count (client_history ?st1) b = int (tracked_conns b (set_tracked i ?conns))" for b
    using sc(1) [of b] tracked_set_tracked [OF d assms(3,4), of b] cnt cs(2) all [of b] by simp
  have "map fst (set_tracked i ?conns) = map fst ?conns" "length (set_tracked i ?conns) = length ?conns"
    by (auto simp: set_tracked_def)
  then have "counts_ok (?st1\<lparr>connection_array := set_tracked i ?conns\<rparr>)"
    using d len sc(2) sc(4) ent unfolding counts_ok_def by simp
  then show thesis using that [OF run] ok(2) by (simp add: dos_inv_def)
qed

lemma close_client_conn_ok:
  assumes "dos_inv st" "map_of (connection_array st) i = Some c"
  shows "\<not> fst (dos_close_client_conn c st)"
    "dos_inv ((snd (dos_close_client_conn c st))\<lparr>connection_array :=
       filter (\<lambda>(j, _). j \<noteq> i) (connection_array st)\<rparr>)"
    "connection_array (snd (dos_close_client_conn c st)) = connection_array st"
proof -
  let ?a = "or_addr c" and ?conns = "connection_array st"
  let ?rest = "filter (\<lambda>(j, _). j \<noteq> i) ?conns"
  have ok: "counts_ok st" "globals_ok (globals st)" using assms(1) by (auto simp: dos_inv_def)
  then have d: "distinct (map fst ?conns)" and len: "int (length ?conns) \<le> UINT32_MAX"
    and all: "\<And>a. entry_count (client_history st) a = int (tracked_conns a ?conns)"
    unfolding counts_ok_def by blast+
  have d': "distinct (map fst ?rest)" "int (length ?rest) \<le> UINT32_MAX"
    using d len le_trans [OF length_filter_le] by (auto intro: distinct_map_filter order.trans [rotated])
  note rm = tracked_remove [OF d assms(2)]
  have "\<not> fst (dos_close_client_conn c st) \<and>
    connection_array (snd (dos_close_client_conn c st)) = ?conns \<and>
    dos_inv ((snd (dos_close_client_conn c st))\<lparr>connection_array := ?rest\<rparr>)"
  proof (cases "tracked_for_dos_mitigation c")
    case False
    then have "entry_count (client_history st) b = int (tracked_conns b ?rest)" for b
      using rm [of b] all [of b] by simp
    then have "counts_ok (st\<lparr>connection_array := ?rest\<rparr>)"
      using ok(1) d' counts_okD [OF ok(1)] unfolding counts_ok_def by simp
    then show ?thesis using False ok(2) by (simp add: dos_close_client_conn_def dos_inv_def)
  next
    case True
    have "entry_count (client_history st) ?a > 0" using rm [of ?a] all [of ?a] True by simp
    then obtain e where e: "map_of (client_history st) (?a, None, GEOIP_CLIENT_CONNECT) = Some e"
      by (auto simp: entry_count_def split: option.splits)
    let ?cs = "conn_stats (dos_stats e)"
    have cnt: "concurrent_count ?cs = int (tracked_conns ?a ?conns)" "0 < concurrent_count ?cs"
      using all [of ?a] e \<open>entry_count (client_history st) ?a > 0\<close> by (auto simp: entry_count_def conn_count_def)
    then have "concurrent_count ?cs \<le> UINT32_MAX" using tracked_conns_le [of ?a ?conns] len by simp
    with cnt(2) have up: "conn_update_on_close ?cs = (False, ?cs\<lparr>concurrent_count := concurrent_count ?cs - 1\<rparr>)"
      by (simp add: conn_update_on_close_def u32_id)
    let ?s = "(dos_stats e)\<lparr>conn_stats := ?cs\<lparr>concurrent_count := concurrent_count ?cs - 1\<rparr>\<rparr>"
    have ctr: "ctr_ok (connect_count (conn_stats ?s))"
      using counts_okD [OF ok(1) e] by (simp add: entry_ok_def)
    note sc = set_count [OF ok(1) e ctr]
    let ?st1 = "set_dos_stats (?a, None, GEOIP_CLIENT_CONNECT) ?s st"
    have run: "dos_close_client_conn c st = (False, ?st1)"
      using True by (simp add: dos_close_client_conn_def geoip_lookup_client_def e up)
    have "entry_count (client_history ?st1) b = int (tracked_conns b ?rest)" for b
      using sc(1) [of b] rm [of b] all [of b] cnt(1) True by (auto split: if_splits)
    then have "counts_ok (?st1\<lparr>connection_array := ?rest\<rparr>)"
      using d' sc(2,4) unfolding counts_ok_def by simp
    then show ?thesis using ok(2) sc(3) by (simp add: run dos_inv_def)
  qed
  then show "\<not> fst (dos_close_client_conn c st)"
    "dos_inv ((snd (dos_close_client_conn c st))\<lparr>connection_array := ?rest\<rparr>)"
    "connection_array (snd (dos_close_client_conn c st)) = ?conns" by blast+
qed

lemma create_cell_ok:
  assumes "dos_inv st" "rnd_ok rnd"
  obtains st' where "dos_cc_new_create_cell rnd now chan st = Some st'" "dos_inv st'"
proof (cases "dos_cc_enabled (globals st)")
  case False
  then show thesis using that assms(1) by (simp add: dos_cc_new_create_cell_def)
next
  case en: True
  have ok: "counts_ok st" "globals_ok (globals st)" using assms(1) by (auto simp: dos_inv_def)
  show thesis
  proof (cases "channel_entry (client_history st) chan")
    case None
    then show thesis using that assms(1) en by (simp add: dos_cc_new_create_cell_def)
  next
    case (Some ke)
    obtain k e where ke: "ke = (k, e)" by (cases ke)
    obtain s f where cc: "cc_create_cell_stats rnd (globals st) now (dos_stats e) = Some (s, f)"
      and s: "conn_stats s = conn_stats (dos_stats e)"
      using cc_create_cell_stats_ok [OF ok(2) assms(2)] by blast
    have e: "map_of (client_history st) k = Some e" using channel_entry_Some Some ke by simp
    have "counts_ok (set_dos_stats k s st)"
      using set_dos_stats_counts [OF ok(1) e] counts_okD [OF ok(1) e] by (simp add: conn_count_def s entry_ok_def)
    moreover have "globals_ok ((globals st)\<lparr>cc_num_marked_addrs := n\<rparr>)" for n
      using ok(2) by (simp add: globals_ok_def)
    ultimately show thesis
      using that en Some ok(2) by (auto simp: dos_cc_new_create_cell_def ke cc dos_inv_def Let_def split: if_splits)
  qed
qed

lemma max_outq_ok:
  assumes "dos_inv st" "rnd_ok rnd"
  obtains st' where "dos_note_circ_max_outq rnd now chan st = Some st'" "dos_inv st'"
proof (cases "channel_entry (client_history st) chan")
  case None
  then have "dos_note_circ_max_outq rnd now chan st = Some st" by (simp add: dos_note_circ_max_outq_def Let_def)
  then show thesis using that assms(1) by blast
next
  case (Some ke)
  obtain k e where ke: "ke = (k, e)" by (cases ke)
  have ok: "counts_ok st" "globals_ok (globals st)" using assms(1) by (auto simp: dos_inv_def)
  have e: "map_of (client_history st) k = Some e" using channel_entry_Some Some ke by simp
  obtain cc where cc: "cc_mark_client rnd (globals st) now (cc_stats (dos_stats e)) = Some cc"
    using cc_mark_Some [OF ok(2) assms(2)] by blast
  have set_ok: "counts_ok (set_dos_stats k s (st\<lparr>globals := g\<rparr>))" if "conn_stats s = conn_stats (dos_stats e)" for s g
    using set_dos_stats_counts [of "st\<lparr>globals := g\<rparr>" k e s] ok(1) e counts_okD [OF ok(1) e] that
    by (simp add: conn_count_def entry_ok_def)
  have set_ok': "counts_ok (set_dos_stats k s st)" if "conn_stats s = conn_stats (dos_stats e)" for s
    using set_ok [OF that, of "globals st"] by simp
  have gl: "globals_ok ((globals st)\<lparr>cc_num_marked_addrs_max_queue := n\<rparr>)" for n
    using ok(2) by (simp add: globals_ok_def)
  have "\<exists>st'. dos_note_circ_max_outq rnd now chan st = Some st' \<and> dos_inv st'"
    using assms(1) by (simp add: dos_note_circ_max_outq_def Some ke cc Let_def dos_inv_def set_ok set_ok' gl ok)
  then show thesis using that by blast
qed

lemma addr_check_ok:
  assumes "dos_inv st"
  shows "dos_inv (snd (dos_conn_addr_get_defense_type now a st))"
proof -
  have ok: "counts_ok st" "globals_ok (globals st)" using assms by (auto simp: dos_inv_def)
  have gl: "globals_ok ((globals st)\<lparr>conn_num_addr_connect_rejected := n\<rparr>)"
    "globals_ok ((globals st)\<lparr>conn_num_addr_rejected := n\<rparr>)" for n
    using ok(2) by (simp_all add: globals_ok_def)
  show ?thesis
  proof (cases "map_of (client_history st) (a, None, GEOIP_CLIENT_CONNECT)")
    case None
    then have "snd (dos_conn_addr_get_defense_type now a st) = st"
      by (simp add: dos_conn_addr_get_defense_type_def geoip_lookup_client_def Let_def)
    with assms show ?thesis by simp
  next
    case (Some e)
    let ?s = "(dos_stats e)\<lparr>conn_stats := (conn_stats (dos_stats e))\<lparr>conn_marked_until_ts := 0\<rparr>\<rparr>"
    have "counts_ok (set_dos_stats (a, None, GEOIP_CLIENT_CONNECT) ?s st)"
      using set_dos_stats_counts [OF ok(1) Some] counts_okD [OF ok(1) Some]
      by (simp add: conn_count_def entry_ok_def)
    then show ?thesis using Some ok gl assms
      by (simp add: dos_conn_addr_get_defense_type_def geoip_lookup_client_def Let_def dos_inv_def)
  qed
qed

lemma with_freed_inv: "dos_inv st \<Longrightarrow> dos_inv (with_freed P st)"
  by (simp add: dos_inv_def with_freed_counts)

lemma conn_opened_ok:
  assumes "dos_inv st" "i \<notin> fst ` set (connection_array st)"
    "int (length (connection_array st)) < UINT32_MAX"
  shows "dos_inv (st\<lparr>connection_array := connection_array st @ [(i, \<lparr>or_addr = a, tracked_for_dos_mitigation = False\<rparr>)]\<rparr>)"
  using assms unfolding dos_inv_def counts_ok_def by (simp add: tracked_conns_def)

section \<open>Runs\<close>

definition period_always_ok :: "dos_env \<Rightarrow> dos_event list \<Rightarrow> bool" where
  "period_always_ok env es \<longleftrightarrow> list_all (\<lambda>e. case e of ConsensusChanged ns \<Rightarrow> period_ok (env_opts env) (None, Some ns) | _ \<Rightarrow> True) es"

lemma dos_handle_ok:
  assumes "dos_inv st" "rnd_ok (env_rnd env)" "dos_opts_ok (env_opts env)" "period_always_ok env [ev]"
  shows "\<exists>st'. dos_handle env ev st = Some st' \<and> dos_inv st'"
proof (cases ev)
  case (ConnOpened i a)
  then show ?thesis using assms(1) conn_opened_ok [OF assms(1), of i a] by simp
next
  case (ConnNoted i now mt wall)
  show ?thesis
  proof (cases "map_of (connection_array st) i")
    case None
    then show ?thesis using assms(1) ConnNoted by simp
  next
    case (Some c)
    show ?thesis
    proof (cases "tracked_for_dos_mitigation c")
      case True
      then show ?thesis using Some assms(1) ConnNoted by simp
    next
      case False
      define st1 where "st1 = geoip_note_client_seen (env_entry_stats env) (env_dirreq_stats env) mt
        GEOIP_CLIENT_CONNECT (or_addr c) None wall st"
      have st1: "dos_inv st1" "connection_array st1 = connection_array st" "globals st1 = globals st"
        unfolding st1_def by (fact note_client_seen_counts [OF assms(1)])+
      have "map_of (client_history st1) (or_addr c, None, GEOIP_CLIENT_CONNECT) \<noteq> None"
        if "dos_is_enabled (globals st1)"
        unfolding st1_def by (rule note_client_seen_entry) (use that st1(3) in auto)
      then obtain st' where "dos_new_client_conn (env_rnd env) now mt i c None st1 = Some st'" "dos_inv st'"
        using new_client_conn_ok [OF st1(1) assms(2) _ False] Some st1(2) by metis
      then show ?thesis using Some False ConnNoted by (simp add: st1_def)
    qed
  qed
next
  case (ConnClosed i)
  then show ?thesis using assms(1) close_client_conn_ok [OF assms(1)]
    by (cases "map_of (connection_array st) i") (simp_all add: Let_def)
next
  case (CreateCell now chan)
  then show ?thesis using create_cell_ok [OF assms(1,2)] by (metis dos_handle.simps(4))
next
  case (RelayCell now chan)
  have "globals_ok ((globals st)\<lparr>cc_num_rejected_cells := n\<rparr>)" for n
    using assms(1) by (simp add: globals_ok_def dos_inv_def)
  then show ?thesis using assms(1) RelayCell by (simp add: dos_cc_get_defense_type_def Let_def dos_inv_def)
next
  case (AddrChecked now a)
  then show ?thesis using addr_check_ok [OF assms(1)] by simp
next
  case (MaxOutq now chan)
  then show ?thesis using max_outq_ok [OF assms(1,2)] by (metis dos_handle.simps(7))
next
  case (DirRequest a t mt wall)
  then show ?thesis using note_client_seen_counts(1) [OF assms(1)] by simp
next
  case (RemoveOld cutoff)
  then show ?thesis using with_freed_inv [OF assms(1)] by (simp add: geoip_remove_old_clients_def)
next
  case HistoryClear
  then show ?thesis using with_freed_inv [OF assms(1)] by (simp add: client_history_clear_def)
next
  case (Oom now n)
  then show ?thesis using assms(1) oom_loop_counts
    by (simp add: geoip_client_cache_handle_oom_def dos_inv_def)
next
  case (ConsensusChanged ns)
  obtain g' where "dos_consensus_has_changed True (env_opts env) (None, Some ns) (globals st) = Some g'" "globals_ok g'"
    using dos_consensus_has_changed_ok [OF assms(3), of "(None, Some ns)"] assms(4) ConsensusChanged
    by (auto simp: period_always_ok_def)
  then show ?thesis using assms(1) ConsensusChanged by (simp add: dos_inv_def)
qed

lemma dos_run_ok:
  assumes "rnd_ok (env_rnd env)" "dos_opts_ok (env_opts env)"
  shows "dos_inv st \<Longrightarrow> period_always_ok env es \<Longrightarrow> \<exists>st'. dos_run env es st = Some st' \<and> dos_inv st'"
proof (induction es arbitrary: st)
  case (Cons e es)
  have "period_always_ok env [e]" "period_always_ok env es" using Cons.prems(2) by (simp_all add: period_always_ok_def)
  then show ?case using dos_handle_ok [OF Cons.prems(1) assms, of e] Cons.IH by auto
qed simp

section \<open>The counts are the tracked connections\<close>

text \<open>The state when \<^verbatim>\<open>dos_init\<close> has run: no client is known.\<close>

definition dos_started :: "dos_globals \<Rightarrow> dos_state" where
  "dos_started g = \<lparr>globals = g, client_history = [], connection_array = []\<rparr>"

lemma dos_started_inv: "globals_ok g \<Longrightarrow> dos_inv (dos_started g)"
  by (simp add: dos_inv_def counts_ok_def dos_started_def entry_count_def)

lemma dos_inv_close_safe:
  "dos_inv st \<Longrightarrow> map_of (connection_array st) i = Some c \<Longrightarrow> \<not> fst (dos_close_client_conn c st)"
  by (rule close_client_conn_ok(1))


definition sample_dos_env :: dos_env where
  "sample_dos_env = \<lparr>env_rnd = (\<lambda>n. n div 2),
     env_opts = \<lparr>DoSConnectionEnabled = 1, DoSCircuitCreationEnabled = 1, DoSCircuitCreationMinConnections = 0,
       DoSCircuitCreationRate = 0, DoSCircuitCreationBurst = 0, DoSCircuitCreationDefenseType = 0,
       DoSCircuitCreationDefenseTimePeriod = 0, DoSConnectionMaxConcurrentCount = 0,
       DoSConnectionDefenseType = 0, DoSRefuseSingleHopClientRendezvous = 0,
       DoSConnectionConnectBurst = 0, DoSConnectionConnectRate = 0, DoSStreamCreationEnabled = 0,
       DoSStreamCreationRate = 0, DoSStreamCreationBurst = 0, DoSStreamCreationDefenseType = 0,
       DoSConnectionConnectDefenseTimePeriod = 0\<rparr>,
     env_entry_stats = False, env_dirreq_stats = False, env_sizeof_entry = 96\<rparr>"

definition sample_dos_events :: "dos_event list" where
  "sample_dos_events = [ConnOpened 1 ''10.0.0.1'', ConnNoted 1 1000 0 1000, ConnOpened 2 ''10.0.0.1'', ConnNoted 2 1001 0 1001,
     ConsensusChanged \<lparr>net_params = Some [''DoSCircuitCreationDefenseTimePeriod=7200'']\<rparr>, RemoveOld 1000, ConnClosed 1]"


text \<open>C34: a connection that came through a pluggable transport is counted under the transport's
  entry and released from the entry without a transport: after it is closed, the transport's entry
  still counts it, and the other entry of the address, if there is one, lost a connection it
  never had.\<close>

theorem transport_connection_not_released:
  assumes "dos_is_enabled (globals st)"
    "map_of (client_history st) (a, Some t, GEOIP_CLIENT_CONNECT) = Some e"
    "0 \<le> conn_count e" "conn_count e < UINT32_MAX"
    "map_of (client_history st) (a, None, GEOIP_CLIENT_CONNECT) = Some p"
    "0 < conn_count p" "conn_count p \<le> UINT32_MAX"
    "dos_new_client_conn rnd now mt i \<lparr>or_addr = a, tracked_for_dos_mitigation = False\<rparr> (Some t) st = Some st1"
  shows "\<exists>e' p'. let h = client_history (snd (dos_close_client_conn \<lparr>or_addr = a, tracked_for_dos_mitigation = True\<rparr> st1))
    in map_of h (a, Some t, GEOIP_CLIENT_CONNECT) = Some e' \<and> conn_count e' = conn_count e + 1
     \<and> map_of h (a, None, GEOIP_CLIENT_CONNECT) = Some p' \<and> conn_count p' = conn_count p - 1"
proof -
  obtain cs where cs: "conn_update_on_connect rnd (globals st) now mt (conn_stats (dos_stats e)) = Some cs"
    and st1: "client_history st1 = AList.update (a, Some t, GEOIP_CLIENT_CONNECT)
      (e\<lparr>dos_stats := (dos_stats e)\<lparr>conn_stats := cs\<rparr>\<rparr>) (client_history st)"
    using assms(1,2,8)
    by (auto simp: dos_new_client_conn_def geoip_lookup_client_def set_dos_stats_def Let_def)
  have "concurrent_count cs = conn_count e + 1"
    using conn_update_on_connect_count [OF cs] assms(3,4) by (simp add: conn_count_def)
  moreover have "conn_update_on_close (conn_stats (dos_stats p))
      = (False, (conn_stats (dos_stats p))\<lparr>concurrent_count := conn_count p - 1\<rparr>)"
    using assms(6,7) by (simp add: conn_update_on_close_def conn_count_def u32_id)
  moreover have "map_of (client_history st1) (a, None, GEOIP_CLIENT_CONNECT) = Some p"
    using assms(5) by (simp add: st1 update_conv')
  ultimately show ?thesis
    by (simp add: dos_close_client_conn_def geoip_lookup_client_def set_dos_stats_def Let_def st1
        update_conv' conn_count_def)
qed

definition sample_transport_state :: dos_state where
  "sample_transport_state = (let e = (\<lparr>last_seen_in_minutes = 16, dos_stats = dos_geoip_entry_init sample_dos_globals 0\<rparr>);
       one = (\<lambda>e. e\<lparr>dos_stats := (dos_stats e)\<lparr>conn_stats := (conn_stats (dos_stats e))\<lparr>concurrent_count := 1\<rparr>\<rparr>\<rparr>)
     in \<lparr>globals = sample_dos_globals,
         client_history = [((''10.0.0.1'', Some ''obfs4'', GEOIP_CLIENT_CONNECT), e),
                           ((''10.0.0.1'', None, GEOIP_CLIENT_CONNECT), one e)],
         connection_array = []\<rparr>)"

theorem transport_connection_not_released_witness:
  "\<exists>st1. dos_new_client_conn (\<lambda>n. n div 2) 1000 0 1 \<lparr>or_addr = ''10.0.0.1'', tracked_for_dos_mitigation = False\<rparr>
      (Some ''obfs4'') sample_transport_state = Some st1
    \<and> (\<exists>e' p'. let h = client_history (snd (dos_close_client_conn
          \<lparr>or_addr = ''10.0.0.1'', tracked_for_dos_mitigation = True\<rparr> st1))
       in map_of h (''10.0.0.1'', Some ''obfs4'', GEOIP_CLIENT_CONNECT) = Some e' \<and> conn_count e' = 0 + 1
        \<and> map_of h (''10.0.0.1'', None, GEOIP_CLIENT_CONNECT) = Some p' \<and> conn_count p' = 1 - 1)"
proof -
  define st where "st = sample_transport_state"
  have e: "\<exists>e. map_of (client_history st) (''10.0.0.1'', Some ''obfs4'', GEOIP_CLIENT_CONNECT) = Some e \<and> conn_count e = 0"
    and p: "\<exists>p. map_of (client_history st) (''10.0.0.1'', None, GEOIP_CLIENT_CONNECT) = Some p \<and> conn_count p = 1"
    by (simp_all add: st_def sample_transport_state_def Let_def conn_count_def dos_geoip_entry_init_def)
  have "\<not> Option.is_none (dos_new_client_conn (\<lambda>n. n div 2) 1000 0 1
      \<lparr>or_addr = ''10.0.0.1'', tracked_for_dos_mitigation = False\<rparr> (Some ''obfs4'') st)"
    unfolding st_def by code_simp
  then have "\<exists>st1. dos_new_client_conn (\<lambda>n. n div 2) 1000 0 1
      \<lparr>or_addr = ''10.0.0.1'', tracked_for_dos_mitigation = False\<rparr> (Some ''obfs4'') st = Some st1"
    by (simp add: Option.is_none_def)
  moreover have "dos_is_enabled (globals st)"
    by (simp add: st_def sample_transport_state_def dos_is_enabled_def sample_dos_globals_def Let_def)
  ultimately show ?thesis
    using e p transport_connection_not_released [of st "''10.0.0.1''" "''obfs4''"]
    by (fastforce simp: st_def)
qed

end
