(* ===== verification/HsDos.thy ===== *)
theory HsDos
  imports TokenBucket NetParams
begin

text \<open>
  Denial of service defenses of onion service introduction points:
  \<^verbatim>\<open>src/feature/hs/hs_dos.c\<close> and the \<^verbatim>\<open>ESTABLISH_INTRO\<close> extension of
  \<^verbatim>\<open>src/feature/hs/hs_intropoint.c\<close> that sets them. Parsing the extension is generated
  code: its parameters come as a list of (type, value) pairs, \<^const>\<open>None\<close> when they do not
  parse. Of a circuit only the fields of the defenses are modelled, and the circuits that
  \<^verbatim>\<open>hs_circuitmap_get_all_intro_circ_relay_side\<close> returns are a list. Where a token bucket
  is refilled the result is an option: \<^const>\<open>None\<close> is the division by zero in
  \<^verbatim>\<open>token_bucket_raw_refill_steps\<close>.
\<close>

record intro_circuit =
  is_intro_point :: bool
  introduce2_dos_defense_enabled :: bool
  introduce2_dos_defense_explicit :: bool
  introduce2_bucket :: token_bucket_ctr

record hs_dos_state =
  consensus_param_introduce_rate_per_sec :: int
  consensus_param_introduce_burst_per_sec :: int
  consensus_param_introduce_defense_enabled :: bool
  intro2_rejected_count :: int
  intro_circs :: "intro_circuit list"

section \<open>Parameters\<close>

definition HS_DOS_INTRODUCE_DEFAULT_CELL_RATE_PER_SEC :: int where
  "HS_DOS_INTRODUCE_DEFAULT_CELL_RATE_PER_SEC = 25"
definition HS_DOS_INTRODUCE_DEFAULT_CELL_BURST_PER_SEC :: int where
  "HS_DOS_INTRODUCE_DEFAULT_CELL_BURST_PER_SEC = 200"
definition HS_DOS_INTRODUCE_ENABLED_DEFAULT :: int where
  "HS_DOS_INTRODUCE_ENABLED_DEFAULT = 0"

lemmas hs_dos_default_defs = HS_DOS_INTRODUCE_DEFAULT_CELL_RATE_PER_SEC_def
  HS_DOS_INTRODUCE_DEFAULT_CELL_BURST_PER_SEC_def HS_DOS_INTRODUCE_ENABLED_DEFAULT_def

definition get_intro2_enable_consensus_param :: "networkstatus option \<Rightarrow> networkstatus option \<Rightarrow> int option" where
  "get_intro2_enable_consensus_param latest ns =
    networkstatus_get_param latest ns ''HiddenServiceEnableIntroDoSDefense'' HS_DOS_INTRODUCE_ENABLED_DEFAULT 0 1"

definition get_intro2_rate_consensus_param :: "networkstatus option \<Rightarrow> networkstatus option \<Rightarrow> int option" where
  "get_intro2_rate_consensus_param latest ns =
    networkstatus_get_param latest ns ''HiddenServiceEnableIntroDoSRatePerSec''
      HS_DOS_INTRODUCE_DEFAULT_CELL_RATE_PER_SEC 0 INT32_MAX"

definition get_intro2_burst_consensus_param :: "networkstatus option \<Rightarrow> networkstatus option \<Rightarrow> int option" where
  "get_intro2_burst_consensus_param latest ns =
    networkstatus_get_param latest ns ''HiddenServiceEnableIntroDoSBurstPerSec''
      HS_DOS_INTRODUCE_DEFAULT_CELL_BURST_PER_SEC 0 INT32_MAX"

definition update_intro_circuits :: "hs_dos_state \<Rightarrow> hs_dos_state" where
  "update_intro_circuits st = st\<lparr>intro_circs := map (\<lambda>circ.
     if introduce2_dos_defense_explicit circ then circ
     else circ\<lparr>introduce2_dos_defense_enabled := consensus_param_introduce_defense_enabled st,
               introduce2_bucket := token_bucket_ctr_adjust (introduce2_bucket circ)
                 (consensus_param_introduce_rate_per_sec st) (consensus_param_introduce_burst_per_sec st)\<rparr>)
     (intro_circs st)\<rparr>"

definition set_consensus_parameters :: "networkstatus option \<Rightarrow> networkstatus option \<Rightarrow> hs_dos_state
    \<Rightarrow> hs_dos_state option" where
  "set_consensus_parameters latest ns st = do {
     rate \<leftarrow> get_intro2_rate_consensus_param latest ns;
     burst \<leftarrow> get_intro2_burst_consensus_param latest ns;
     enabled \<leftarrow> get_intro2_enable_consensus_param latest ns;
     Some (update_intro_circuits (st\<lparr>consensus_param_introduce_rate_per_sec := rate,
       consensus_param_introduce_burst_per_sec := burst,
       consensus_param_introduce_defense_enabled := (enabled \<noteq> 0)\<rparr>))
   }"

definition hs_dos_consensus_has_changed :: "bool \<Rightarrow> networkstatus option \<Rightarrow> networkstatus option
    \<Rightarrow> hs_dos_state \<Rightarrow> hs_dos_state option" where
  "hs_dos_consensus_has_changed public_server_mode latest ns st =
    (if \<not> public_server_mode then Some st else set_consensus_parameters latest ns st)"

definition hs_dos_init :: "networkstatus option \<Rightarrow> hs_dos_state \<Rightarrow> hs_dos_state option" where
  "hs_dos_init latest st = set_consensus_parameters latest None st"

section \<open>Introduction circuits\<close>

definition hs_dos_setup_default_intro2_defenses :: "hs_dos_state \<Rightarrow> int \<Rightarrow> intro_circuit \<Rightarrow> intro_circuit" where
  "hs_dos_setup_default_intro2_defenses st now circ =
    circ\<lparr>introduce2_dos_defense_enabled := consensus_param_introduce_defense_enabled st,
         introduce2_bucket := token_bucket_ctr_init (consensus_param_introduce_rate_per_sec st)
           (consensus_param_introduce_burst_per_sec st) (u32 now)\<rparr>"

text \<open>The result says whether the cell may be sent, and has the circuit and the rejected count.\<close>

definition hs_dos_can_send_intro2 :: "int \<Rightarrow> intro_circuit \<Rightarrow> int \<Rightarrow> (bool \<times> intro_circuit \<times> int) option" where
  "hs_dos_can_send_intro2 now circ rejected =
    (if \<not> introduce2_dos_defense_enabled circ then Some (True, circ, rejected)
     else if \<not> is_intro_point circ then Some (False, circ, u64 (rejected + 1))
     else case token_bucket_ctr_refill 64 (introduce2_bucket circ) (u32 now) of None \<Rightarrow> None
       | Some b \<Rightarrow>
         let b = (if token_bucket_ctr_get b > 0 then snd (token_bucket_ctr_dec b 1) else b);
             circ = circ\<lparr>introduce2_bucket := b\<rparr>
         in if token_bucket_ctr_get b > 0 then Some (True, circ, rejected)
            else Some (False, circ, u64 (rejected + 1)))"

text \<open>The checks against the minima are compiled out: both minima are 0.\<close>

definition cell_dos_extension_parameters_are_valid :: "int \<Rightarrow> int \<Rightarrow> bool" where
  "cell_dos_extension_parameters_are_valid intro2_rate_per_sec intro2_burst_per_sec =
    (if intro2_rate_per_sec > INT32_MAX then False
     else if intro2_burst_per_sec > INT32_MAX then False
     else if intro2_burst_per_sec < intro2_rate_per_sec then False
     else True)"

definition TRUNNEL_DOS_PARAM_TYPE_INTRO2_RATE_PER_SEC :: int where
  "TRUNNEL_DOS_PARAM_TYPE_INTRO2_RATE_PER_SEC = 1"
definition TRUNNEL_DOS_PARAM_TYPE_INTRO2_BURST_PER_SEC :: int where
  "TRUNNEL_DOS_PARAM_TYPE_INTRO2_BURST_PER_SEC = 2"
definition TRUNNEL_CELL_EXTENSION_TYPE_DOS :: int where
  "TRUNNEL_CELL_EXTENSION_TYPE_DOS = 1"

text \<open>The parameter loop; an unknown type ends the handling of the extension.\<close>

fun intro2_params :: "(int \<times> int) list \<Rightarrow> int \<Rightarrow> int \<Rightarrow> (int \<times> int) option" where
  "intro2_params [] rate burst = Some (rate, burst)"
| "intro2_params ((t, v) # ps) rate burst =
     (if t = TRUNNEL_DOS_PARAM_TYPE_INTRO2_RATE_PER_SEC then intro2_params ps v burst
      else if t = TRUNNEL_DOS_PARAM_TYPE_INTRO2_BURST_PER_SEC then intro2_params ps rate v
      else None)"

definition handle_establish_intro_cell_dos_extension ::
    "int \<Rightarrow> (int \<times> int) list option \<Rightarrow> intro_circuit \<Rightarrow> intro_circuit" where
  "handle_establish_intro_cell_dos_extension now parsed circ =
    (case parsed of None \<Rightarrow> circ
     | Some ps \<Rightarrow> (case intro2_params ps 0 0 of None \<Rightarrow> circ
       | Some (rate, burst) \<Rightarrow>
         let circ = circ\<lparr>introduce2_dos_defense_explicit := True\<rparr>
         in if rate = 0 \<or> burst = 0 then circ\<lparr>introduce2_dos_defense_enabled := False\<rparr>
            else if \<not> cell_dos_extension_parameters_are_valid rate burst
            then circ\<lparr>introduce2_dos_defense_enabled := False\<rparr>
            else circ\<lparr>introduce2_dos_defense_enabled := True,
                      introduce2_bucket := token_bucket_ctr_init (u32 rate) (u32 burst) (u32 now)\<rparr>))"

text \<open>The extensions of a cell: each a field type with the parsed parameters.\<close>

definition handle_establish_intro_cell_extensions ::
    "int \<Rightarrow> (int \<times> (int \<times> int) list option) list option \<Rightarrow> intro_circuit \<Rightarrow> intro_circuit" where
  "handle_establish_intro_cell_extensions now extensions circ =
    (case extensions of None \<Rightarrow> circ
     | Some fs \<Rightarrow> fold (\<lambda>(t, parsed) circ.
         if t = TRUNNEL_CELL_EXTENSION_TYPE_DOS
         then handle_establish_intro_cell_dos_extension now parsed circ else circ) fs circ)"

section \<open>What the defense lets through\<close>

text \<open>A client sends one cell after each wait; the result counts the cells relayed.\<close>

fun intro2_cells :: "int \<Rightarrow> int list \<Rightarrow> intro_circuit \<Rightarrow> int \<Rightarrow> (int \<times> intro_circuit \<times> int) option" where
  "intro2_cells now [] circ rejected = Some (0, circ, rejected)"
| "intro2_cells now (t # ts) circ rejected =
     (case hs_dos_can_send_intro2 (now + t) circ rejected of None \<Rightarrow> None
      | Some (ok, circ', rejected') \<Rightarrow>
        map_option (\<lambda>(n, r). ((if ok then 1 else 0) + n, r)) (intro2_cells (now + t) ts circ' rejected'))"

abbreviation circ_level :: "intro_circuit \<Rightarrow> int" where
  "circ_level circ \<equiv> bucket (counter (introduce2_bucket circ))"

definition defended :: "intro_circuit \<Rightarrow> bool" where
  "defended circ \<longleftrightarrow> introduce2_dos_defense_enabled circ \<and> is_intro_point circ
     \<and> ctr_ok (introduce2_bucket circ) \<and> 0 \<le> circ_level circ"

lemma can_send_step:
  fixes now :: int
  assumes "defended circ"
  defines "b \<equiv> introduce2_bucket circ"
  defines "l \<equiv> (if u32 (u32 now - ctr_last_refilled_at b) \<le> UINT32_MAX div 4
      then min (cfg_burst (ctr_cfg b)) (circ_level circ + cfg_rate (ctr_cfg b) * u32 (u32 now - ctr_last_refilled_at b))
      else circ_level circ)"
  obtains circ' r' where "hs_dos_can_send_intro2 now circ rejected = Some (1 < l, circ', r')"
    "defended circ'" "circ_level circ' = (if 0 < l then l - 1 else 0)"
    "ctr_cfg (introduce2_bucket circ') = ctr_cfg b" "ctr_last_refilled_at (introduce2_bucket circ') = u32 now"
proof -
  define b1 where "b1 = b\<lparr>counter := (counter b)\<lparr>bucket := l\<rparr>, ctr_last_refilled_at := u32 now\<rparr>"
  have ok: "ctr_ok b" "0 \<le> bucket (counter b)" "introduce2_dos_defense_enabled circ" "is_intro_point circ"
    using assms(1) by (auto simp: defended_def b_def)
  have r: "token_bucket_ctr_refill 64 b (u32 now) = Some b1"
    using ctr_refill_exact [OF ok(1), of 64 "u32 now"] by (simp add: b1_def l_def b_def)
  have "0 \<le> cfg_rate (ctr_cfg b) * u32 (u32 now - ctr_last_refilled_at b)"
    using ok(1) u32_range(1) by (simp add: bucket_ok_defs)
  then have l: "0 \<le> l" "l \<le> cfg_burst (ctr_cfg b)"
    using ok(1,2) unfolding l_def b_def by (auto simp: bucket_ok_defs)
  have b1: "ctr_ok b1" using l ok(1) by (simp add: b1_def bucket_ok_defs)
  define b2 where "b2 = b1\<lparr>counter := (counter b1)\<lparr>bucket := if 0 < l then l - 1 else 0\<rparr>\<rparr>"
  have d: "(if token_bucket_ctr_get b1 > 0 then snd (token_bucket_ctr_dec b1 1) else b1) = b2"
  proof (cases "0 < l")
    case True
    then show ?thesis using ctr_dec_exact [OF b1, of 1]
      by (simp add: b1_def b2_def token_bucket_ctr_get_def token_bucket_raw_get_def)
  next
    case False
    then have "l = 0" using l by simp
    then show ?thesis by (simp add: b1_def b2_def token_bucket_ctr_get_def token_bucket_raw_get_def)
  qed
  have "token_bucket_ctr_get b2 > 0 \<longleftrightarrow> 1 < l"
    using l(1) by (simp add: b2_def token_bucket_ctr_get_def token_bucket_raw_get_def)
  then have "hs_dos_can_send_intro2 now circ rejected
      = Some (1 < l, circ\<lparr>introduce2_bucket := b2\<rparr>, if 1 < l then rejected else u64 (rejected + 1))"
    using ok(3,4) r d by (auto simp: hs_dos_can_send_intro2_def b_def [symmetric] Let_def)
  moreover have "defended (circ\<lparr>introduce2_bucket := b2\<rparr>)"
    using ok l b1 by (auto simp: defended_def b2_def b1_def bucket_ok_defs)
  ultimately show thesis using that by (simp add: b2_def b1_def)
qed

text \<open>Tokens a circuit can still turn into cells: the last token of the bucket is never used.\<close>

definition usable :: "intro_circuit \<Rightarrow> int" where
  "usable circ = max 1 (circ_level circ) - 1"

lemma intro2_cells_bound:
  assumes "defended circ" "\<forall>t \<in> set ts. 0 \<le> t"
  shows "\<exists>n circ' r'. intro2_cells now ts circ rejected = Some (n, circ', r') \<and> 0 \<le> n
    \<and> n \<le> usable circ + cfg_rate (ctr_cfg (introduce2_bucket circ))
        * (u32 (u32 now - ctr_last_refilled_at (introduce2_bucket circ)) + sum_list ts)"
  using assms
proof (induction ts arbitrary: now circ rejected)
  case Nil
  then have "0 \<le> cfg_rate (ctr_cfg (introduce2_bucket circ))" by (auto simp: defended_def bucket_ok_defs)
  then show ?case using u32_range(1) by (simp add: usable_def)
next
  case (Cons t ts)
  let ?b = "introduce2_bucket circ" and ?r = "cfg_rate (ctr_cfg (introduce2_bucket circ))"
  let ?p = "u32 (u32 (now + t) - ctr_last_refilled_at ?b)"
  define l where "l = (if ?p \<le> UINT32_MAX div 4 then min (cfg_burst (ctr_cfg ?b)) (circ_level circ + ?r * ?p)
      else circ_level circ)"
  obtain circ' r' where step: "hs_dos_can_send_intro2 (now + t) circ rejected = Some (1 < l, circ', r')"
    "defended circ'" "circ_level circ' = (if 0 < l then l - 1 else 0)"
    "ctr_cfg (introduce2_bucket circ') = ctr_cfg ?b" "ctr_last_refilled_at (introduce2_bucket circ') = u32 (now + t)"
    using can_send_step [OF Cons.prems(1), of "now + t" rejected] unfolding l_def by metis
  have ts: "\<forall>t \<in> set ts. 0 \<le> t" and t: "0 \<le> t" using Cons.prems(2) by auto
  obtain n c r where rest: "intro2_cells (now + t) ts circ' r' = Some (n, c, r)" "0 \<le> n"
    "n \<le> usable circ' + ?r * (u32 0 + sum_list ts)"
    using Cons.IH [OF step(2) ts, of "now + t" r'] unfolding step(4,5) by auto
  have r: "0 \<le> ?r" using Cons.prems(1) by (auto simp: defended_def bucket_ok_defs)
  have pend: "?p \<le> u32 (u32 now - ctr_last_refilled_at ?b) + t"
    using pending_advance [OF t, of "u32 now" "ctr_last_refilled_at ?b"]
    by (simp add: to_unsigned_def mod_simps)
  have "0 \<le> ?r * ?p" using r u32_range(1) by simp
  then have lev: "l \<le> circ_level circ + ?r * ?p" unfolding l_def by auto
  have "?r * ?p \<le> ?r * (u32 (u32 now - ctr_last_refilled_at ?b) + t)"
    using pend r by (rule mult_left_mono)
  with lev have l2: "l \<le> circ_level circ + ?r * (u32 (u32 now - ctr_last_refilled_at ?b) + t)" by linarith
  have c0: "0 \<le> ?r * (u32 (u32 now - ctr_last_refilled_at ?b) + t)"
    using r t u32_range(1) by simp
  have "(if 1 < l then 1 else 0) + usable circ' \<le> usable circ + ?r * (u32 (u32 now - ctr_last_refilled_at ?b) + t)"
    using l2 c0 step(3) by (auto simp: usable_def)
  with rest(3) have "(if 1 < l then 1 else 0) + n
      \<le> usable circ + ?r * (u32 (u32 now - ctr_last_refilled_at ?b) + sum_list (t # ts))"
    by (simp add: to_unsigned_def algebra_simps)
  then show ?case using step(1) rest(1,2) by simp
qed

lemma intro2_cells_exact:
  assumes "defended circ" "ctr_last_refilled_at (introduce2_bucket circ) = u32 now"
    "circ_level circ \<le> cfg_burst (ctr_cfg (introduce2_bucket circ))"
  shows "\<exists>circ' r'. intro2_cells now (replicate k 0) circ rejected = Some (min (int k) (usable circ), circ', r')"
  using assms
proof (induction k arbitrary: circ rejected)
  case 0
  then show ?case by (simp add: usable_def)
next
  case (Suc k)
  have z: "u32 (u32 now - ctr_last_refilled_at (introduce2_bucket circ)) = 0"
    by (simp add: Suc.prems(2) to_unsigned_def)
  let ?b = "introduce2_bucket circ"
  have l: "(if u32 (u32 now - ctr_last_refilled_at ?b) \<le> UINT32_MAX div 4
      then min (cfg_burst (ctr_cfg ?b)) (circ_level circ + cfg_rate (ctr_cfg ?b) * u32 (u32 now - ctr_last_refilled_at ?b))
      else circ_level circ) = circ_level circ"
    using Suc.prems(3) unfolding z by simp
  obtain circ' r' where step: "hs_dos_can_send_intro2 now circ rejected = Some (1 < circ_level circ, circ', r')"
    "defended circ'" "circ_level circ' = (if 0 < circ_level circ then circ_level circ - 1 else 0)"
    "ctr_cfg (introduce2_bucket circ') = ctr_cfg (introduce2_bucket circ)"
    "ctr_last_refilled_at (introduce2_bucket circ') = u32 now"
    using can_send_step [OF Suc.prems(1), of now rejected] unfolding l by blast
  moreover have "circ_level circ' \<le> cfg_burst (ctr_cfg (introduce2_bucket circ'))"
    using step(2) by (auto simp: defended_def bucket_ok_defs)
  ultimately obtain c r where "intro2_cells now (replicate k 0) circ' r' = Some (min (int k) (usable circ'), c, r)"
    using Suc.IH [OF step(2,5)] by blast
  then show ?case using step by (auto simp: usable_def)
qed

text \<open>C27: However the INTRODUCE1 cells come in, a defended introduction circuit never relays more
  than one cell less than its bucket holds, plus the rate times the seconds that pass; and the
  first cells are answered exactly up to that: of cells that arrive in the second of a refill,
  one fewer than the bucket holds gets through. With a burst of 1 none ever does.\<close>

theorem intro2_relayed_cells:
  assumes "defended circ" "\<forall>t \<in> set ts. 0 \<le> t"
    "ctr_last_refilled_at (introduce2_bucket circ) = u32 now"
    "circ_level circ = cfg_burst (ctr_cfg (introduce2_bucket circ))"
  shows "(\<exists>n circ' r'. intro2_cells now ts circ rejected = Some (n, circ', r')
      \<and> n \<le> cfg_burst (ctr_cfg (introduce2_bucket circ)) - 1
          + cfg_rate (ctr_cfg (introduce2_bucket circ)) * sum_list ts)
    \<and> (\<exists>circ' r'. intro2_cells now (replicate k 0) circ rejected
        = Some (min (int k) (cfg_burst (ctr_cfg (introduce2_bucket circ)) - 1), circ', r'))"
proof -
  have u: "usable circ = cfg_burst (ctr_cfg (introduce2_bucket circ)) - 1"
    using assms(1,4) by (auto simp: usable_def defended_def bucket_ok_defs)
  have z: "u32 (u32 now - ctr_last_refilled_at (introduce2_bucket circ)) = 0"
    by (simp add: assms(3) to_unsigned_def)
  show ?thesis
    using intro2_cells_bound [OF assms(1,2), of now rejected]
      intro2_cells_exact [OF assms(1,3), of k rejected] assms(4)
    unfolding u z by auto
qed

lemma default_defenses_defended:
  fixes now :: int
  assumes "consensus_param_introduce_defense_enabled st" "is_intro_point circ"
    "0 < consensus_param_introduce_rate_per_sec st" "consensus_param_introduce_rate_per_sec st \<le> INT32_MAX"
    "0 < consensus_param_introduce_burst_per_sec st" "consensus_param_introduce_burst_per_sec st \<le> INT32_MAX"
  defines "c \<equiv> hs_dos_setup_default_intro2_defenses st now circ"
  shows "defended c" "circ_level c = consensus_param_introduce_burst_per_sec st"
    "cfg_burst (ctr_cfg (introduce2_bucket c)) = consensus_param_introduce_burst_per_sec st"
    "cfg_rate (ctr_cfg (introduce2_bucket c)) = consensus_param_introduce_rate_per_sec st"
    "ctr_last_refilled_at (introduce2_bucket c) = u32 now"
proof -
  let ?r = "consensus_param_introduce_rate_per_sec st" and ?b = "consensus_param_introduce_burst_per_sec st"
  have "token_bucket_ctr_init ?r ?b (u32 now) = \<lparr>ctr_cfg = \<lparr>cfg_rate = ?r, cfg_burst = ?b\<rparr>,
      counter = \<lparr>bucket = ?b\<rparr>, ctr_last_refilled_at = u32 now\<rparr>"
    using assms(3-6) by (simp add: token_bucket_ctr_init_def token_bucket_ctr_adjust_def token_bucket_ctr_reset_def
        token_bucket_cfg_init_def token_bucket_raw_reset_def TOKEN_BUCKET_MAX_BURST_def to_signed_id Let_def)
  moreover have "ctr_ok (token_bucket_ctr_init ?r ?b (u32 now))"
    using assms(3-6) by (intro ctr_init_ok) auto
  ultimately show "defended c" "circ_level c = ?b" "cfg_burst (ctr_cfg (introduce2_bucket c)) = ?b"
    "cfg_rate (ctr_cfg (introduce2_bucket c)) = ?r" "ctr_last_refilled_at (introduce2_bucket c) = u32 now"
    using assms(1,2,5) by (simp_all add: c_def hs_dos_setup_default_intro2_defenses_def defended_def)
qed

definition sample_intro_state :: hs_dos_state where
  "sample_intro_state = \<lparr>consensus_param_introduce_rate_per_sec = 25, consensus_param_introduce_burst_per_sec = 200,
     consensus_param_introduce_defense_enabled = True, intro2_rejected_count = 0, intro_circs = []\<rparr>"

definition sample_intro_circuit :: intro_circuit where
  "sample_intro_circuit = \<lparr>is_intro_point = True, introduce2_dos_defense_enabled = False,
     introduce2_dos_defense_explicit = False, introduce2_bucket = token_bucket_ctr_init 25 200 0\<rparr>"

theorem intro2_relayed_cells_witness:
  "\<exists>circ. defended circ
    \<and> (\<exists>n circ' r'. intro2_cells 7 [0, 1, 3] circ 0 = Some (n, circ', r') \<and> n \<le> 200 - 1 + 25 * 4)
    \<and> (\<exists>circ' r'. intro2_cells 7 (replicate 500 0) circ 0 = Some (199, circ', r'))"
proof -
  let ?c = "hs_dos_setup_default_intro2_defenses sample_intro_state 7 sample_intro_circuit"
  note d = default_defenses_defended [of sample_intro_state sample_intro_circuit 7]
  have "defended ?c" "circ_level ?c = 200" "cfg_burst (ctr_cfg (introduce2_bucket ?c)) = 200"
    "cfg_rate (ctr_cfg (introduce2_bucket ?c)) = 25" "ctr_last_refilled_at (introduce2_bucket ?c) = u32 7"
    using d by (simp_all add: sample_intro_state_def sample_intro_circuit_def)
  with intro2_relayed_cells [of ?c "[0, 1, 3]" 7 0 500] show ?thesis by (intro exI [of _ ?c]) simp
qed

section \<open>A rate of zero\<close>

text \<open>The consensus may set the introduction rate to 0, which the parameter's range admits: on
  a circuit set up with it, handling the first INTRODUCE1 cell within the next 34 years divides by
  zero, whatever the burst.\<close>

theorem zero_rate_divides_by_zero:
  assumes "is_intro_point circ" "consensus_param_introduce_defense_enabled st"
    "consensus_param_introduce_rate_per_sec st = 0" "0 \<le> t" "t \<le> UINT32_MAX div 4"
  shows "hs_dos_can_send_intro2 (now + t) (hs_dos_setup_default_intro2_defenses st now circ) rejected = None"
proof -
  have "u32 (u32 (now + t) - u32 now) = t"
    using assms(4,5) by (simp add: to_unsigned_def mod_simps)
  then show ?thesis
    using assms by (simp add: hs_dos_can_send_intro2_def hs_dos_setup_default_intro2_defenses_def
        token_bucket_ctr_refill_def token_bucket_ctr_init_def token_bucket_ctr_adjust_def token_bucket_ctr_reset_def
        token_bucket_cfg_init_def token_bucket_raw_refill_steps_def Let_def)
qed

theorem zero_rate_divides_by_zero_witness:
  "\<exists>st. set_consensus_parameters None (Some \<lparr>net_params = Some [''HiddenServiceEnableIntroDoSDefense=1'',
        ''HiddenServiceEnableIntroDoSRatePerSec=0'']\<rparr>) sample_intro_state = Some st
    \<and> hs_dos_can_send_intro2 (7 + 10) (hs_dos_setup_default_intro2_defenses st 7 sample_intro_circuit) 0 = None"
proof -
  let ?r = "set_consensus_parameters None (Some \<lparr>net_params = Some [''HiddenServiceEnableIntroDoSDefense=1'',
        ''HiddenServiceEnableIntroDoSRatePerSec=0'']\<rparr>) sample_intro_state"
  have "case ?r of None \<Rightarrow> False | Some st \<Rightarrow> consensus_param_introduce_defense_enabled st
      \<and> consensus_param_introduce_rate_per_sec st = 0"
    by code_simp
  then obtain st where "?r = Some st" "consensus_param_introduce_defense_enabled st"
    "consensus_param_introduce_rate_per_sec st = 0" by (auto split: option.splits)
  then show ?thesis using zero_rate_divides_by_zero [of sample_intro_circuit st 10 7 0]
    by (auto simp: sample_intro_circuit_def)
qed

end
