(* ===== verification/Smartlist.thy ===== *)
theory Smartlist
  imports TorPrelude CText "HOL-Library.Multiset"
begin

text \<open>
  Resizeable arrays: \<^verbatim>\<open>src/lib/smartlist_core/smartlist_core.c\<close> and the searching
  functions of \<^verbatim>\<open>src/lib/container/smartlist.c\<close>. A smartlist is the list of its used
  entries; growing the storage, copying and freeing are not modelled. An element is a value
  compared with \<open>=\<close>, as the code compares pointers; the comparison functions of the callers
  are arguments. \<^const>\<open>None\<close> is a failed assertion where a function has one.
\<close>

section \<open>Elementary operations\<close>

function reverse_loop :: "'a list \<Rightarrow> int \<Rightarrow> int \<Rightarrow> 'a list" where
  "reverse_loop sl i j =
    (if i < j
     then let tmp = sl ! nat i;
              sl = sl[nat i := sl ! nat j];
              sl = sl[nat j := tmp]
          in reverse_loop sl (i + 1) (j - 1)
     else sl)"
  by pat_completeness auto
termination by (relation "measure (\<lambda>(sl, i, j). nat (j - i))") auto

declare reverse_loop.simps [simp del]

definition smartlist_reverse :: "'a list \<Rightarrow> 'a list" where
  "smartlist_reverse sl = reverse_loop sl 0 (int (length sl) - 1)"

text \<open>The loop shared by the removing functions: an entry to remove is replaced by the last one.\<close>

function remove_loop :: "('a \<Rightarrow> bool) \<Rightarrow> 'a list \<Rightarrow> nat \<Rightarrow> 'a list" where
  "remove_loop P sl i =
    (if i < length sl
     then if P (sl ! i) then remove_loop P (butlast (sl[i := last sl])) i
          else remove_loop P sl (i + 1)
     else sl)"
  by pat_completeness auto
termination by (relation "measure (\<lambda>(P, sl, i). length sl - i)") auto

declare remove_loop.simps [simp del]

definition smartlist_remove :: "'a list \<Rightarrow> 'a \<Rightarrow> 'a list" where
  "smartlist_remove sl element = remove_loop (\<lambda>e. e = element) sl 0"

definition smartlist_string_remove :: "string list \<Rightarrow> string \<Rightarrow> string list" where
  "smartlist_string_remove sl element = remove_loop (\<lambda>e. strcmp element e = 0) sl 0"

definition smartlist_contains :: "'a list \<Rightarrow> 'a \<Rightarrow> bool" where
  "smartlist_contains sl element \<longleftrightarrow> list_ex (\<lambda>e. e = element) sl"

definition smartlist_intersect :: "'a list \<Rightarrow> 'a list \<Rightarrow> 'a list" where
  "smartlist_intersect sl1 sl2 = remove_loop (\<lambda>e. \<not> smartlist_contains sl2 e) sl1 0"

definition smartlist_subtract :: "'a list \<Rightarrow> 'a list \<Rightarrow> 'a list" where
  "smartlist_subtract sl1 sl2 = fold (\<lambda>e sl. smartlist_remove sl e) sl2 sl1"

definition smartlist_overlap :: "'a list \<Rightarrow> 'a list \<Rightarrow> bool" where
  "smartlist_overlap sl1 sl2 \<longleftrightarrow> list_ex (smartlist_contains sl1) sl2"

fun keeporder_loop :: "'a list \<Rightarrow> 'a \<Rightarrow> 'a list \<Rightarrow> 'a list" where
  "keeporder_loop [] element kept = kept"
| "keeporder_loop (e # es) element kept =
     (if e = element then keeporder_loop es element kept else keeporder_loop es element (kept @ [e]))"

definition smartlist_remove_keeporder :: "'a list \<Rightarrow> 'a \<Rightarrow> 'a list" where
  "smartlist_remove_keeporder sl element = keeporder_loop sl element []"

definition smartlist_pop_last :: "'a list \<Rightarrow> 'a option \<times> 'a list" where
  "smartlist_pop_last sl = (if sl = [] then (None, sl) else (Some (last sl), butlast sl))"

definition smartlist_del :: "'a list \<Rightarrow> int \<Rightarrow> 'a list option" where
  "smartlist_del sl idx =
    (if \<not> idx \<ge> 0 \<or> \<not> idx < int (length sl) then None
     else Some (butlast (sl[nat idx := last sl])))"

definition smartlist_del_keeporder :: "'a list \<Rightarrow> int \<Rightarrow> 'a list option" where
  "smartlist_del_keeporder sl idx =
    (if \<not> idx \<ge> 0 \<or> \<not> idx < int (length sl) then None
     else Some (take (nat idx) sl @ drop (nat idx + 1) sl))"

definition smartlist_insert :: "'a list \<Rightarrow> int \<Rightarrow> 'a \<Rightarrow> 'a list option" where
  "smartlist_insert sl idx val =
    (if \<not> idx \<ge> 0 \<or> \<not> idx \<le> int (length sl) then None
     else if idx = int (length sl) then Some (sl @ [val])
     else Some (take (nat idx) sl @ val # drop (nat idx) sl))"

fun pos_loop :: "('a \<Rightarrow> bool) \<Rightarrow> 'a list \<Rightarrow> int \<Rightarrow> int" where
  "pos_loop P [] i = - 1"
| "pos_loop P (e # es) i = (if P e then i else pos_loop P es (i + 1))"

definition smartlist_pos :: "'a list \<Rightarrow> 'a \<Rightarrow> int" where
  "smartlist_pos sl element = pos_loop (\<lambda>e. element = e) sl 0"

definition smartlist_string_pos :: "string list \<Rightarrow> string \<Rightarrow> int" where
  "smartlist_string_pos sl element = pos_loop (\<lambda>e. strcmp e element = 0) sl 0"

definition smartlist_contains_string :: "string list \<Rightarrow> string \<Rightarrow> bool" where
  "smartlist_contains_string sl element \<longleftrightarrow> list_ex (\<lambda>e. strcmp e element = 0) sl"

definition smartlist_strings_eq :: "string list option \<Rightarrow> string list option \<Rightarrow> bool" where
  "smartlist_strings_eq sl1 sl2 =
    (case sl1 of None \<Rightarrow> sl2 = None
     | Some l1 \<Rightarrow> (case sl2 of None \<Rightarrow> False
       | Some l2 \<Rightarrow> length l1 = length l2 \<and> list_all (\<lambda>(a, b). strcmp a b = 0) (zip l1 l2)))"

section \<open>Sorted lists\<close>

text \<open>The loop keeps the most frequent member so far with its count, and the current member with
  its count.\<close>

fun most_frequent_loop :: "('a \<Rightarrow> 'a \<Rightarrow> int) \<Rightarrow> 'a list \<Rightarrow> 'a option \<Rightarrow> int \<Rightarrow> 'a option \<Rightarrow> int
    \<Rightarrow> 'a option \<times> int" where
  "most_frequent_loop compare [] most_frequent most_frequent_count cur cnt =
    (if cur \<noteq> None \<and> cnt \<ge> most_frequent_count then (cur, cnt)
     else (most_frequent, most_frequent_count))"
| "most_frequent_loop compare (item # items) most_frequent most_frequent_count cur cnt =
    (if (case cur of None \<Rightarrow> False | Some c \<Rightarrow> compare c item = 0)
     then most_frequent_loop compare items most_frequent most_frequent_count cur (cnt + 1)
     else if cur \<noteq> None \<and> cnt \<ge> most_frequent_count
     then most_frequent_loop compare items cur cnt (Some item) 1
     else most_frequent_loop compare items most_frequent most_frequent_count (Some item) 1)"

definition smartlist_get_most_frequent :: "'a list \<Rightarrow> ('a \<Rightarrow> 'a \<Rightarrow> int) \<Rightarrow> 'a option \<times> int" where
  "smartlist_get_most_frequent sl compare =
    (if sl = [] then (None, 0) else most_frequent_loop compare sl None 0 None 0)"

function uniq_loop :: "('a \<Rightarrow> 'a \<Rightarrow> int) \<Rightarrow> 'a list \<Rightarrow> nat \<Rightarrow> 'a list" where
  "uniq_loop compare sl i =
    (if i < length sl
     then if compare (sl ! (i - 1)) (sl ! i) = 0 then uniq_loop compare (take i sl @ drop (i + 1) sl) i
          else uniq_loop compare sl (i + 1)
     else sl)"
  by pat_completeness auto
termination by (relation "measure (\<lambda>(compare, sl, i). length sl - i)") auto

declare uniq_loop.simps [simp del]

definition smartlist_uniq :: "'a list \<Rightarrow> ('a \<Rightarrow> 'a \<Rightarrow> int) \<Rightarrow> 'a list" where
  "smartlist_uniq sl compare = uniq_loop compare sl 1"

text \<open>Binary search. The result is whether a match was found, and an index.\<close>

function bsearch_loop :: "'a list \<Rightarrow> 'k \<Rightarrow> ('k \<Rightarrow> 'a \<Rightarrow> int) \<Rightarrow> int \<Rightarrow> int \<Rightarrow> (bool \<times> int) option" where
  "bsearch_loop sl key compare lo hi =
    (let len = int (length sl) in
     if lo \<le> hi then
       let diff = hi - lo;
           mid = lo + diff div 2;
           cmp = compare key (sl ! nat mid)
       in if cmp = 0 then Some (True, mid)
          else if cmp > 0 then
            if \<not> mid < len then None
            else bsearch_loop sl key compare (mid + 1) hi
          else
            if mid > 0 then bsearch_loop sl key compare lo (mid - 1)
            else if \<not> mid = lo \<or> \<not> mid = 0 then None
            else Some (False, 0)
     else if \<not> lo = hi + 1 \<or> \<not> lo \<ge> 0 \<or> \<not> lo \<le> len \<or> \<not> hi \<ge> 0 \<or> \<not> hi \<le> len then None
     else if lo < len then
       if \<not> compare key (sl ! nat lo) < 0 then None else Some (False, lo)
     else
       if \<not> compare key (sl ! (length sl - 1)) > 0 then None else Some (False, lo))"
  by pat_completeness auto
termination
  by (relation "measure (\<lambda>(sl, key, compare, lo, hi). nat (hi - lo + 1))") auto

declare bsearch_loop.simps [simp del]

definition smartlist_bsearch_idx :: "'a list \<Rightarrow> 'k \<Rightarrow> ('k \<Rightarrow> 'a \<Rightarrow> int) \<Rightarrow> (bool \<times> int) option" where
  "smartlist_bsearch_idx sl key compare =
    (if sl = [] then Some (False, 0)
     else bsearch_loop sl key compare 0 (int (length sl) - 1))"

definition smartlist_bsearch :: "'a list \<Rightarrow> 'k \<Rightarrow> ('k \<Rightarrow> 'a \<Rightarrow> int) \<Rightarrow> 'a option option" where
  "smartlist_bsearch sl key compare =
    map_option (\<lambda>(found, idx). if found then Some (sl ! nat idx) else None)
      (smartlist_bsearch_idx sl key compare)"

section \<open>What the elementary operations do\<close>

lemma remove_loop_mset:
  "mset (remove_loop P sl i) = mset (take i sl) + filter_mset (\<lambda>e. \<not> P e) (mset (drop i sl))"
proof (induction P sl i rule: remove_loop.induct)
  case (1 P sl i)
  show ?case
  proof (cases "i < length sl")
    case False
    then show ?thesis by (simp add: remove_loop.simps)
  next
    case i: True
    have d: "drop i sl = sl ! i # drop (i + 1) sl" using i by (simp add: Cons_nth_drop_Suc)
    show ?thesis
    proof (cases "P (sl ! i)")
      case False
      then have "mset (remove_loop P sl i) = mset (remove_loop P sl (i + 1))"
        using i by (simp add: remove_loop.simps [of P sl i])
      also have "\<dots> = mset (take (i + 1) sl) + filter_mset (\<lambda>e. \<not> P e) (mset (drop (i + 1) sl))"
        using "1.IH"(2) [OF i False] .
      finally show ?thesis using i False d by (simp add: take_Suc_conv_app_nth)
    next
      case True
      let ?sl = "butlast (sl[i := last sl])"
      have "take i ?sl = take i sl"
        using i by (simp add: take_butlast)
      moreover have "mset (drop i ?sl) = mset (drop (i + 1) sl)"
      proof (cases "i + 1 = length sl")
        case True
        then show ?thesis by (simp add: butlast_conv_take)
      next
        case False
        then obtain ys l where ys: "drop (i + 1) sl = ys @ [l]"
          using i by (metis Suc_eq_plus1 drop_eq_Nil2 le_antisym less_eq_Suc_le rev_exhaust)
        then have "last sl = l" by (metis append_take_drop_id last_appendR last_snoc snoc_eq_iff_butlast)
        have "drop i (sl[i := l]) = l # ys @ [l]"
          using i ys d by (simp add: drop_update_swap)
        then have "drop i ?sl = l # ys"
          using \<open>last sl = l\<close> by (simp add: drop_butlast)
        then show ?thesis using ys by simp
      qed
      moreover have "mset (remove_loop P sl i) = mset (remove_loop P ?sl i)"
        using i True by (simp add: remove_loop.simps [of P sl i])
      ultimately show ?thesis using "1.IH"(1) [OF i True] d True by simp
    qed
  qed
qed

lemma smartlist_remove_mset: "mset (smartlist_remove sl e) = filter_mset (\<lambda>x. x \<noteq> e) (mset sl)"
  by (simp add: smartlist_remove_def remove_loop_mset)

lemma smartlist_contains_iff [simp]: "smartlist_contains sl e \<longleftrightarrow> e \<in> set sl"
  by (auto simp: smartlist_contains_def list_ex_iff)

lemma smartlist_intersect_mset: "mset (smartlist_intersect sl1 sl2) = filter_mset (\<lambda>x. x \<in> set sl2) (mset sl1)"
  by (simp add: smartlist_intersect_def remove_loop_mset)

lemma smartlist_subtract_mset: "mset (smartlist_subtract sl1 sl2) = filter_mset (\<lambda>x. x \<notin> set sl2) (mset sl1)"
proof (induction sl2 arbitrary: sl1)
  case Nil
  then show ?case by (simp add: smartlist_subtract_def)
next
  case (Cons e sl2)
  have "smartlist_subtract sl1 (e # sl2) = smartlist_subtract (smartlist_remove sl1 e) sl2"
    by (simp add: smartlist_subtract_def)
  then show ?case
    by (simp add: Cons.IH smartlist_remove_mset filter_filter_mset conj_commute)
qed

lemma smartlist_remove_keeporder_filter: "smartlist_remove_keeporder sl e = filter (\<lambda>x. x \<noteq> e) sl"
proof -
  have "keeporder_loop sl e kept = kept @ filter (\<lambda>x. x \<noteq> e) sl" for kept
    by (induction sl e kept rule: keeporder_loop.induct) auto
  then show ?thesis by (simp add: smartlist_remove_keeporder_def)
qed

lemma smartlist_insert_del:
  assumes "smartlist_insert sl idx val = Some sl'"
  shows "smartlist_del_keeporder sl' idx = Some sl"
  using assms by (auto simp: smartlist_insert_def smartlist_del_keeporder_def split: if_splits)

lemma reverse_loop_spec:
  assumes "0 \<le> i" "j < int (length sl)" "i \<le> j + 1"
  shows "reverse_loop sl i j = take (nat i) sl @ rev (take (nat (j + 1 - i)) (drop (nat i) sl)) @ drop (nat (j + 1)) sl"
  using assms
proof (induction sl i j rule: reverse_loop.induct)
  case (1 sl i j)
  show ?case
  proof (cases "i < j")
    case False
    then consider "i = j" | "i = j + 1" using "1.prems" by linarith
    then show ?thesis
    proof cases
      case 1
      then have "take (nat i) sl @ take 1 (drop (nat i) sl) @ drop (nat (i + 1)) sl = sl"
        using "1.prems"
        by (metis append_take_drop_id drop_drop nat_add_distrib nat_one_as_int zero_le_one add.commute)
      moreover have "rev (take 1 (drop (nat i) sl)) = take 1 (drop (nat i) sl)"
        by (cases "drop (nat i) sl") auto
      ultimately show ?thesis using 1 by (simp add: reverse_loop.simps)
    next
      case 2
      then show ?thesis by (simp add: reverse_loop.simps)
    qed
  next
    case True
    let ?i = "nat i" and ?j = "nat j"
    have ij: "?i < ?j" "?j < length sl" using True "1.prems" by auto
    let ?sl = "sl[?i := sl ! ?j, ?j := sl ! ?i]"
    have IH: "reverse_loop ?sl (i + 1) (j - 1) = take (nat (i + 1)) ?sl @
        rev (take (nat (j - 1 + 1 - (i + 1))) (drop (nat (i + 1)) ?sl)) @ drop (nat (j - 1 + 1)) ?sl"
      using "1.IH" [OF True refl refl refl] True "1.prems" by simp
    define m where "m = take (?j - Suc ?i) (drop (Suc ?i) sl)"
    have sl: "sl = take ?i sl @ sl ! ?i # m @ sl ! ?j # drop (Suc ?j) sl"
    proof -
      have "drop (Suc ?i) sl = m @ drop ?j sl"
        unfolding m_def using ij
        by (metis append_take_drop_id drop_drop le_add_diff_inverse2 Suc_leI add.commute)
      with ij show ?thesis by (metis Cons_nth_drop_Suc id_take_nth_drop order_less_trans)
    qed
    have lm: "length m = ?j - Suc ?i" using ij by (simp add: m_def)
    have lt: "length (take ?i sl) = ?i"
      unfolding length_take using less_imp_le [OF order.strict_trans [OF ij]] by (rule min_absorb2)
    have sl': "?sl = take ?i sl @ sl ! ?j # m @ sl ! ?i # drop (Suc ?j) sl"
    proof -
      define A a b B where "A = take ?i sl" "a = sl ! ?i" "b = sl ! ?j" "B = drop (Suc ?j) sl"
      have lA: "length A = ?i" unfolding A_a_b_B_def by (rule lt)
      have "(A @ a # m @ b # B)[?i := b, ?j := a] = A @ b # m @ a # B"
      proof -
        have "?j = Suc (length (A @ m))" unfolding length_append lA lm using ij(1) by linarith
        then show ?thesis unfolding lA [symmetric] by (simp add: list_update_append)
      qed
      then show ?thesis using sl by (simp add: A_a_b_B_def)
    qed
    have n: "nat (i + 1) = Suc ?i" "nat (j - 1 + 1 - (i + 1)) = ?j - Suc ?i" "nat (j - 1 + 1) = ?j"
      "nat (j + 1) = Suc ?j" "nat (j + 1 - i) = Suc (Suc (?j - Suc ?i))"
      using True "1.prems" by auto
    have "reverse_loop sl i j = reverse_loop ?sl (i + 1) (j - 1)"
      using True by (simp add: reverse_loop.simps [of sl i j] Let_def)
    also have "\<dots> = take ?i sl @ sl ! ?j # rev m @ sl ! ?i # drop (Suc ?j) sl"
    proof -
      define A B a b where "A = take ?i sl" "B = drop (Suc ?j) sl" "a = sl ! ?i" "b = sl ! ?j"
      have i: "?i = length A" unfolding A_B_a_b_def by (rule lt [symmetric])
      have j: "?j = Suc (length A + length m)" using ij(1) lm unfolding i [symmetric] by linarith
      show ?thesis unfolding IH unfolding n unfolding sl' unfolding A_B_a_b_def [symmetric] unfolding i j by simp
    qed
    also have "\<dots> = take ?i sl @ rev (take (nat (j + 1 - i)) (drop ?i sl)) @ drop (nat (j + 1)) sl"
    proof -
      have "drop ?i sl = sl ! ?i # m @ sl ! ?j # drop (Suc ?j) sl"
        using sl lt by (metis append_eq_conv_conj)
      then have "take (nat (j + 1 - i)) (drop ?i sl) = sl ! ?i # m @ [sl ! ?j]"
        unfolding n using lm by simp
      then show ?thesis unfolding n by simp
    qed
    finally show ?thesis .
  qed
qed

lemma smartlist_reverse_rev: "smartlist_reverse sl = rev sl"
  by (simp add: smartlist_reverse_def reverse_loop_spec)

section \<open>Binary search\<close>

definition searchable :: "'k \<Rightarrow> ('k \<Rightarrow> 'a \<Rightarrow> int) \<Rightarrow> 'a list \<Rightarrow> bool" where
  "searchable key compare sl \<longleftrightarrow>
    sorted_wrt (\<lambda>x y. (compare key x \<le> 0 \<longrightarrow> compare key y \<le> 0) \<and> (compare key x < 0 \<longrightarrow> compare key y < 0)) sl"

definition search_result :: "'a list \<Rightarrow> 'k \<Rightarrow> ('k \<Rightarrow> 'a \<Rightarrow> int) \<Rightarrow> bool \<Rightarrow> int \<Rightarrow> bool" where
  "search_result sl key compare found idx \<longleftrightarrow> 0 \<le> idx \<and>
    (if found then idx < int (length sl) \<and> compare key (sl ! nat idx) = 0
     else idx \<le> int (length sl) \<and> (\<forall>i < length sl. if int i < idx then compare key (sl ! i) > 0
                                                  else compare key (sl ! i) < 0))"

lemma searchableD:
  assumes "searchable key compare sl" "i \<le> j" "j < length sl"
  shows "compare key (sl ! i) < 0 \<Longrightarrow> compare key (sl ! j) < 0"
    "compare key (sl ! j) > 0 \<Longrightarrow> compare key (sl ! i) > 0"
  using assms sorted_wrt_nth_less [of _ sl i j] unfolding searchable_def
  by (cases "i = j"; force)+

lemma bsearch_loop_result:
  assumes "searchable key compare sl" "0 \<le> lo" "0 \<le> hi" "hi < int (length sl)" "lo \<le> hi + 1"
    "\<forall>i. int i < lo \<longrightarrow> compare key (sl ! i) > 0"
    "\<forall>i < length sl. hi < int i \<longrightarrow> compare key (sl ! i) < 0"
  shows "\<exists>found idx. bsearch_loop sl key compare lo hi = Some (found, idx) \<and> search_result sl key compare found idx"
  using assms
proof (induction sl key compare lo hi rule: bsearch_loop.induct)
  case (1 sl key compare lo hi)
  note sd = searchableD [OF "1.prems"(1)]
  show ?case
  proof (cases "lo \<le> hi")
    case False
    then have "lo = hi + 1" using "1.prems"(5) by linarith
    moreover from this have "compare key (sl ! nat lo) < 0" if "lo < int (length sl)"
      using "1.prems"(2,7) that by (auto dest: spec [of _ "nat lo"])
    moreover have "compare key (sl ! (length sl - 1)) > 0" if "\<not> lo < int (length sl)"
      using that "1.prems"(3,4,6) by (auto dest: spec [of _ "length sl - 1"])
    moreover have "search_result sl key compare False lo"
      using "1.prems" \<open>lo = hi + 1\<close> by (auto simp: search_result_def)
    ultimately show ?thesis
      using "1.prems"(2-4) by (subst bsearch_loop.simps) auto
  next
    case True
    define mid where "mid = lo + (hi - lo) div 2"
    define c where "c = compare key (sl ! nat mid)"
    have mid: "lo \<le> mid" "mid \<le> hi" using True by (auto simp: mid_def)
    then have mid0: "0 \<le> mid" "nat mid < length sl" using "1.prems"(2,4) by linarith+
    have eq: "bsearch_loop sl key compare lo hi =
        (if c = 0 then Some (True, mid)
         else if c > 0 then bsearch_loop sl key compare (mid + 1) hi
         else if mid > 0 then bsearch_loop sl key compare lo (mid - 1)
         else Some (False, 0))"
      unfolding bsearch_loop.simps [of sl key compare lo hi] Let_def mid_def [symmetric] c_def [symmetric]
      using True mid mid0 "1.prems"(2,4) by auto
    consider "c = 0" | "c > 0" | "c < 0" by linarith
    then show ?thesis
    proof cases
      case 1
      then have "search_result sl key compare True mid" using mid0 by (simp add: search_result_def c_def)
      then show ?thesis using eq 1 by (intro exI [of _ True] exI [of _ mid]) simp
    next
      case 2
      have "\<forall>i. int i < mid + 1 \<longrightarrow> compare key (sl ! i) > 0"
      proof (intro allI impI)
        fix i assume "int i < mid + 1"
        then show "compare key (sl ! i) > 0" using sd(2) [of i "nat mid"] mid0 2 by (simp add: c_def)
      qed
      have "\<exists>found idx. bsearch_loop sl key compare (mid + 1) hi = Some (found, idx)
          \<and> search_result sl key compare found idx"
        by (rule "1.IH"(1) [OF refl True refl mid_def c_def _ _ _ "1.prems"(1)])
          (use 2 mid mid0 "1.prems" \<open>\<forall>i. int i < mid + 1 \<longrightarrow> _\<close> in auto)
      then show ?thesis using eq 2 by simp
    next
      case 3
      have above: "\<forall>i < length sl. mid - 1 < int i \<longrightarrow> compare key (sl ! i) < 0"
      proof (intro allI impI)
        fix i assume "i < length sl" "mid - 1 < int i"
        then show "compare key (sl ! i) < 0" using sd(1) [of "nat mid" i] mid0 3 by (simp add: c_def)
      qed
      show ?thesis
      proof (cases "mid > 0")
        case True
        have "\<exists>found idx. bsearch_loop sl key compare lo (mid - 1) = Some (found, idx)
            \<and> search_result sl key compare found idx"
          by (rule "1.IH"(2) [OF refl \<open>lo \<le> hi\<close> refl mid_def c_def _ _ _ "1.prems"(1)])
            (use True 3 mid mid0 "1.prems" above in auto)
        then show ?thesis using eq 3 True by simp
      next
        case False
        then have "mid = 0" using mid0 by linarith
        then show ?thesis using 3 eq above by (auto simp: search_result_def)
      qed
    qed
  qed
qed

text \<open>In a list that is in order for the key (the members less than it, then the matching ones,
  then the greater ones), binary search terminates with no assertion failing, and it finds a
  matching member exactly when there is one; when there is none it returns the index of the first
  member greater than the key, or the length.\<close>

theorem bsearch_idx_correct:
  assumes "searchable key compare sl"
  shows "\<exists>found idx. smartlist_bsearch_idx sl key compare = Some (found, idx)
    \<and> search_result sl key compare found idx
    \<and> found = (\<exists>x \<in> set sl. compare key x = 0)"
proof -
  obtain found idx where r: "smartlist_bsearch_idx sl key compare = Some (found, idx)"
    "search_result sl key compare found idx"
  proof (cases "sl = []")
    case True
    then show thesis using that [of False 0] by (simp add: smartlist_bsearch_idx_def search_result_def)
  next
    case False
    then have "0 < length sl" by simp
    then show thesis
      using bsearch_loop_result [OF assms, of 0 "int (length sl) - 1"] False that
      by (auto simp: smartlist_bsearch_idx_def)
  qed
  have "\<exists>x \<in> set sl. compare key x = 0" if found
    using r(2) that by (auto simp: search_result_def intro!: bexI [of _ "sl ! nat idx"])
  moreover have False if "\<not> found" "x \<in> set sl" "compare key x = 0" for x
    using r(2) that by (auto simp: search_result_def in_set_conv_nth split: if_splits)
  ultimately show ?thesis using r by blast
qed

theorem bsearch_idx_correct_witness:
  "\<exists>found idx. smartlist_bsearch_idx [1, 4, 6, 9 :: int] 5 cmp_int = Some (found, idx)
    \<and> search_result [1, 4, 6, 9] 5 cmp_int found idx \<and> found = (\<exists>x \<in> set [1, 4, 6, 9]. cmp_int 5 x = 0)"
  by (rule bsearch_idx_correct) (simp add: searchable_def)

section \<open>Duplicates\<close>

text \<open>What \<^verbatim>\<open>smartlist_uniq\<close> computes: of each run of equal members the first is kept.\<close>

fun uniq_ref :: "('a \<Rightarrow> 'a \<Rightarrow> int) \<Rightarrow> 'a list \<Rightarrow> 'a list" where
  "uniq_ref compare (x # y # zs) =
     (if compare x y = 0 then uniq_ref compare (x # zs) else x # uniq_ref compare (y # zs))"
| "uniq_ref compare xs = xs"

lemma uniq_loop_ref:
  "1 \<le> i \<Longrightarrow> uniq_loop compare sl i = take (i - 1) sl @ uniq_ref compare (drop (i - 1) sl)"
proof (induction compare sl i rule: uniq_loop.induct)
  case (1 compare sl i)
  show ?case
  proof (cases "i < length sl")
    case False
    then have "uniq_ref compare xs = xs" if "length xs \<le> 1" for xs
      using that by (cases "(compare, xs)" rule: uniq_ref.cases) auto
    then have "uniq_ref compare (drop (i - 1) sl) = drop (i - 1) sl" using False by simp
    then show ?thesis using False by (simp add: uniq_loop.simps)
  next
    case True
    then have d: "drop (i - 1) sl = sl ! (i - 1) # sl ! i # drop (i + 1) sl"
      using "1.prems" by (metis Cons_nth_drop_Suc Suc_eq_plus1 le_add_diff_inverse2 less_imp_diff_less)
    show ?thesis
    proof (cases "compare (sl ! (i - 1)) (sl ! i) = 0")
      case eq: True
      have "drop (i - 1) (take i sl @ drop (i + 1) sl) = sl ! (i - 1) # drop (i + 1) sl"
        "take (i - 1) (take i sl @ drop (i + 1) sl) = take (i - 1) sl"
        using d True "1.prems" by (auto simp: drop_take min_def take_Cons' split: nat_diff_split)
      then show ?thesis using "1.IH"(1) [OF True eq "1.prems"] True eq
        by (simp add: uniq_loop.simps [of compare sl i] d [unfolded One_nat_def])
    next
      case ne: False
      have "take i sl = take (i - 1) sl @ [sl ! (i - 1)]"
        using True "1.prems" by (metis Suc_pred' less_imp_diff_less less_le_trans take_Suc_conv_app_nth zero_less_one)
      moreover have "uniq_ref compare (drop (i - 1) sl) = sl ! (i - 1) # uniq_ref compare (drop i sl)"
        unfolding d Cons_nth_drop_Suc [OF True, symmetric] using ne by simp
      ultimately show ?thesis using "1.IH"(2) [OF True ne] True ne "1.prems"
        by (simp add: uniq_loop.simps [of compare sl i])
    qed
  qed
qed

lemma uniq_ref_subseq: "set (uniq_ref compare xs) \<subseteq> set xs"
  by (induction compare xs rule: uniq_ref.induct) auto

context comparison
begin

lemma uniq_ref_sorted:
  assumes "sorted_wrt (\<lambda>x y. cmp x y \<le> 0) (x # xs)"
  shows "\<exists>ys. uniq_ref cmp (x # xs) = x # ys \<and> sorted_wrt (\<lambda>x y. cmp x y < 0) (x # ys)
    \<and> (\<forall>z \<in> set (x # xs). \<exists>y \<in> set (x # ys). cmp z y = 0)"
  using assms
proof (induction xs arbitrary: x)
  case (Cons y zs)
  show ?case
  proof (cases "cmp x y = 0")
    case True
    then have "cmp y x = 0" by (simp add: cmp_eq_sym)
    then show ?thesis using Cons.IH [of x] Cons.prems True by (auto 0 4)
  next
    case False
    then have xy: "cmp x y < 0" using Cons.prems by auto
    obtain ys where "uniq_ref cmp (y # zs) = y # ys" "sorted_wrt (\<lambda>x y. cmp x y < 0) (y # ys)"
      "\<forall>z \<in> set (y # zs). \<exists>w \<in> set (y # ys). cmp z w = 0"
      using Cons.IH [of y] Cons.prems by auto
    moreover from this have "\<forall>w \<in> set ys. cmp x w < 0"
      using cmp_less_trans [OF xy] by (auto intro: less_imp_le)
    ultimately show ?thesis using False xy by auto
  qed
qed simp

end

section \<open>The most frequent member\<close>

definition class_size :: "('a \<Rightarrow> 'a \<Rightarrow> int) \<Rightarrow> 'a \<Rightarrow> 'a list \<Rightarrow> int" where
  "class_size compare x xs = int (length (filter (\<lambda>y. compare y x = 0) xs))"

text \<open>The best of a set of candidates: no larger class, and the latest among equally large ones.\<close>

definition best_of :: "('a \<Rightarrow> 'a \<Rightarrow> int) \<Rightarrow> 'a list \<Rightarrow> 'a set \<Rightarrow> 'a option \<Rightarrow> int \<Rightarrow> bool" where
  "best_of compare xs S m n \<longleftrightarrow> 0 \<le> n \<and> (m = None \<longrightarrow> n = 0)
    \<and> (\<forall>c. m = Some c \<longrightarrow> c \<in> S \<and> class_size compare c xs = n)
    \<and> (\<forall>x \<in> S. class_size compare x xs \<le> n \<and>
         (class_size compare x xs = n \<longrightarrow> (\<exists>c. m = Some c \<and> compare x c \<le> 0)))"

context comparison
begin

lemma class_size_snoc:
  "class_size cmp x (xs @ [y]) = class_size cmp x xs + (if cmp y x = 0 then 1 else 0)"
  by (simp add: class_size_def)

lemma class_size_cong: "cmp x y = 0 \<Longrightarrow> class_size cmp x xs = class_size cmp y xs"
  unfolding class_size_def by (rule arg_cong [where f = "\<lambda>P. int (length (filter P xs))"])
    (use cmp_eq_trans cmp_eq_sym in blast)

lemma class_size_pos: "x \<in> set xs \<Longrightarrow> 0 < class_size cmp x xs"
  by (simp add: class_size_def filter_empty_conv bexI [of _ x])

lemma best_of_finish:
  assumes "best_of cmp ps {x \<in> set ps. cmp x c < 0} m n" "c \<in> set ps" "\<forall>p \<in> set ps. cmp p c \<le> 0"
  shows "if class_size cmp c ps \<ge> n then best_of cmp ps (set ps) (Some c) (class_size cmp c ps)
         else best_of cmp ps (set ps) m n"
proof -
  let ?k = "class_size cmp c ps"
  have k: "0 \<le> ?k" by (simp add: class_size_def)
  have less: "class_size cmp x ps \<le> n" "class_size cmp x ps = n \<Longrightarrow> \<exists>d. m = Some d \<and> cmp x d \<le> 0"
    if "x \<in> set ps" "cmp x c < 0" for x using assms(1) that by (auto simp: best_of_def)
  have eq: "class_size cmp x ps = ?k" if "\<not> cmp x c < 0" "x \<in> set ps" for x
    using that assms(3) by (intro class_size_cong) force
  show ?thesis
  proof (cases "?k \<ge> n")
    case True
    then have "class_size cmp x ps \<le> ?k" if "x \<in> set ps" for x
      using less(1) [OF that] eq [OF _ that] by (cases "cmp x c < 0") auto
    then show ?thesis using True k assms(2,3) by (auto simp: best_of_def)
  next
    case False
    then have "class_size cmp x ps \<le> n \<and> (class_size cmp x ps = n \<longrightarrow> (\<exists>d. m = Some d \<and> cmp x d \<le> 0))"
      if "x \<in> set ps" for x
      using less [OF that] eq [OF _ that] by (cases "cmp x c < 0") auto
    then show ?thesis using False assms(1) by (auto simp: best_of_def)
  qed
qed

lemma most_frequent_loop_best:
  assumes "best_of cmp ps {x \<in> set ps. cmp x c < 0} m n" "c \<in> set ps" "\<forall>p \<in> set ps. cmp p c \<le> 0"
    "k = class_size cmp c ps" "sorted_wrt (\<lambda>x y. cmp x y \<le> 0) (ps @ items)"
  shows "\<exists>c' n'. most_frequent_loop cmp items m n (Some c) k = (Some c', n')
    \<and> best_of cmp (ps @ items) (set (ps @ items)) (Some c') n'"
  using assms
proof (induction items arbitrary: ps m n c k)
  case Nil
  have fin: "if class_size cmp c ps \<ge> n then best_of cmp ps (set ps) (Some c) (class_size cmp c ps)
         else best_of cmp ps (set ps) m n"
    using Nil.prems(1-3) by (rule best_of_finish)
  show ?case
  proof (cases "k \<ge> n")
    case False
    then have "m \<noteq> None" using Nil.prems(1,2,4) class_size_pos [of c ps] by (auto simp: best_of_def)
    then show ?thesis using False fin Nil.prems(4) by auto
  qed (use fin Nil.prems(4) in auto)
next
  case (Cons y items)
  have c_y: "cmp c y \<le> 0" and p_y: "\<And>p. p \<in> set ps \<Longrightarrow> cmp p y \<le> 0"
    using Cons.prems(2,5) by (auto simp: sorted_wrt_append)
  show ?case
  proof (cases "cmp c y = 0")
    case True
    then have y_c: "cmp y c = 0" by (simp add: cmp_eq_sym)
    have "\<not> cmp y x = 0" if "cmp x c < 0" for x
      using that cmp_less_trans [of x c y] True cmp_eq_sym [of y x] by force
    then have "best_of cmp (ps @ [y]) {x \<in> set (ps @ [y]). cmp x c < 0} m n"
      using Cons.prems(1) y_c unfolding best_of_def by (auto simp: class_size_snoc)
    then have "\<exists>c' n'. most_frequent_loop cmp items m n (Some c) (k + 1) = (Some c', n')
        \<and> best_of cmp ((ps @ [y]) @ items) (set ((ps @ [y]) @ items)) (Some c') n'"
      by (rule Cons.IH) (use Cons.prems y_c in \<open>auto simp: class_size_snoc\<close>)
    then show ?thesis using True by simp
  next
    case False
    then have "cmp c y < 0" using c_y by linarith
    then have p_y': "cmp p y < 0" if "p \<in> set ps" for p
      using that Cons.prems(3) cmp_less_trans' by blast
    then have sz: "class_size cmp p (ps @ [y]) = class_size cmp p ps" if "p \<in> set ps" for p
      using that cmp_eq_sym [of y p] by (force simp: class_size_snoc)
    have cand: "{x \<in> set (ps @ [y]). cmp x y < 0} = set ps" using p_y' by auto
    have sy: "class_size cmp y (ps @ [y]) = 1"
      using p_y' by (force simp: class_size_def filter_empty_conv)
    have fin: "if k \<ge> n then best_of cmp ps (set ps) (Some c) k else best_of cmp ps (set ps) m n"
      using best_of_finish [OF Cons.prems(1-3)] Cons.prems(4) by simp
    have lift: "best_of cmp ps (set ps) m' n' \<Longrightarrow>
        best_of cmp (ps @ [y]) {x \<in> set (ps @ [y]). cmp x y < 0} m' n'" for m' n'
      unfolding cand using sz unfolding best_of_def by auto
    have step: "\<exists>c' n''. most_frequent_loop cmp items m' n' (Some y) 1 = (Some c', n'')
        \<and> best_of cmp ((ps @ [y]) @ items) (set ((ps @ [y]) @ items)) (Some c') n''"
      if "best_of cmp ps (set ps) m' n'" for m' n'
      by (rule Cons.IH [OF lift [OF that]]) (use Cons.prems(5) p_y sy in auto)
    show ?thesis
      using step fin False by (cases "k \<ge> n") auto
  qed
qed

lemma most_frequent_best:
  assumes "sl \<noteq> []" "sorted_wrt (\<lambda>x y. cmp x y \<le> 0) sl"
  shows "\<exists>c n. smartlist_get_most_frequent sl cmp = (Some c, n) \<and> best_of cmp sl (set sl) (Some c) n"
proof -
  obtain x xs where sl: "sl = x # xs" using assms(1) by (cases sl) auto
  have "\<exists>c' n'. most_frequent_loop cmp xs None 0 (Some x) 1 = (Some c', n')
      \<and> best_of cmp ([x] @ xs) (set ([x] @ xs)) (Some c') n'"
    by (rule most_frequent_loop_best) (use assms(2) sl in \<open>auto simp: best_of_def class_size_def\<close>)
  then show ?thesis by (simp add: smartlist_get_most_frequent_def sl)
qed

end

end
