(* ===== verification/PQueue.thy ===== *)
theory PQueue
  imports TorPrelude "HOL-Library.Multiset"
begin

text \<open>
  The heap-structured smartlists of \<^verbatim>\<open>src/lib/container/smartlist.c\<close>. An item of the
  heap is a pair of the caller's value, which the comparison function sees, and of the
  \<^verbatim>\<open>int\<close> field in which the item stores its own index. \<^const>\<open>None\<close> is a failed
  assertion. The contract of a priority queue is a locale; every comparison function that is a
  total preorder makes the heap an instance of it.
\<close>

type_synonym 'a heap = "('a \<times> int) list"

definition MAX_PARENT_IDX :: nat where "MAX_PARENT_IDX = (2147483647 - 2) div 2"
definition LEFT_CHILD :: "nat \<Rightarrow> nat" where "LEFT_CHILD i = 2 * i + 1"
definition PARENT :: "nat \<Rightarrow> nat" where "PARENT i = (i - 1) div 2"

definition UPDATE_IDX :: "'a heap \<Rightarrow> nat \<Rightarrow> 'a heap" where
  "UPDATE_IDX sl i = sl[i := (fst (sl ! i), int i)]"

text \<open>The swap that both loops make, with the index fields updated.\<close>

definition heap_swap :: "'a heap \<Rightarrow> nat \<Rightarrow> nat \<Rightarrow> 'a heap" where
  "heap_swap sl i j =
    (let tmp = sl ! i;
         sl = sl[i := sl ! j];
         sl = sl[j := tmp]
     in UPDATE_IDX (UPDATE_IDX sl i) j)"

lemma length_heap_swap [simp]: "length (heap_swap sl i j) = length sl"
  by (simp add: heap_swap_def UPDATE_IDX_def Let_def)

function smartlist_heapify :: "('a \<Rightarrow> 'a \<Rightarrow> int) \<Rightarrow> 'a heap \<Rightarrow> nat \<Rightarrow> 'a heap" where
  "smartlist_heapify compare sl idx =
    (if \<not> idx \<le> MAX_PARENT_IDX then sl
     else
       let left_idx = LEFT_CHILD idx in
       if left_idx \<ge> length sl then sl
       else
         let best_idx = (if compare (fst (sl ! idx)) (fst (sl ! left_idx)) < 0 then idx else left_idx);
             best_idx = (if left_idx + 1 < length sl
                            \<and> compare (fst (sl ! (left_idx + 1))) (fst (sl ! best_idx)) < 0
                         then left_idx + 1 else best_idx)
         in if best_idx = idx then sl
            else smartlist_heapify compare (heap_swap sl idx best_idx) best_idx)"
  by pat_completeness auto
termination
  by (relation "measure (\<lambda>(compare, sl, idx). length sl - idx)") (auto simp: LEFT_CHILD_def split: if_splits)

declare smartlist_heapify.simps [simp del]

function sift_up :: "('a \<Rightarrow> 'a \<Rightarrow> int) \<Rightarrow> 'a heap \<Rightarrow> nat \<Rightarrow> 'a heap" where
  "sift_up compare sl idx =
    (if idx = 0 then sl
     else let parent = PARENT idx in
       if compare (fst (sl ! idx)) (fst (sl ! parent)) < 0
       then sift_up compare (heap_swap sl parent idx) parent
       else sl)"
  by pat_completeness auto
termination by (relation "measure (\<lambda>(compare, sl, idx). idx)") (auto simp: PARENT_def)

declare sift_up.simps [simp del]

definition smartlist_pqueue_add :: "('a \<Rightarrow> 'a \<Rightarrow> int) \<Rightarrow> 'a heap \<Rightarrow> 'a \<times> int \<Rightarrow> 'a heap" where
  "smartlist_pqueue_add compare sl item =
    (let sl = sl @ [item];
         sl = UPDATE_IDX sl (length sl - 1)
     in sift_up compare sl (length sl - 1))"

definition smartlist_pqueue_pop :: "('a \<Rightarrow> 'a \<Rightarrow> int) \<Rightarrow> 'a heap \<Rightarrow> (('a \<times> int) \<times> 'a heap) option" where
  "smartlist_pqueue_pop compare sl =
    (if sl = [] then None
     else let front = (fst (sl ! 0), - 1);
              n = length sl - 1;
              rest = (if n \<noteq> 0
                      then smartlist_heapify compare (UPDATE_IDX ((take n sl)[0 := sl ! n]) 0) 0
                      else take n sl)
          in Some (front, rest))"

text \<open>The result has the item with its index field cleared.\<close>

definition smartlist_pqueue_remove :: "('a \<Rightarrow> 'a \<Rightarrow> int) \<Rightarrow> 'a heap \<Rightarrow> 'a \<times> int \<Rightarrow> (('a \<times> int) \<times> 'a heap) option" where
  "smartlist_pqueue_remove compare sl item =
    (let idx = snd item in
     if \<not> idx \<ge> 0 \<or> \<not> (nat idx < length sl \<and> sl ! nat idx = item) then None
     else
       let n = length sl - 1;
           item = (fst item, - 1)
       in if nat idx = n then Some (item, take n sl)
          else Some (item, smartlist_heapify compare
                 (UPDATE_IDX ((take n sl)[nat idx := sl ! n]) (nat idx)) (nat idx)))"

definition smartlist_pqueue_assert_ok :: "('a \<Rightarrow> 'a \<Rightarrow> int) \<Rightarrow> 'a heap \<Rightarrow> bool" where
  "smartlist_pqueue_assert_ok compare sl \<longleftrightarrow>
    (\<forall>i < length sl. (i > 0 \<longrightarrow> compare (fst (sl ! PARENT i)) (fst (sl ! i)) \<le> 0) \<and> snd (sl ! i) = int i)"

section \<open>The contract of a priority queue\<close>

text \<open>Popping until the queue is empty; the counter is the fuel, and any that is at least the number
  of items drains the queue.\<close>

fun drain :: "('q \<Rightarrow> ('a \<times> 'q) option) \<Rightarrow> nat \<Rightarrow> 'q \<Rightarrow> 'a list" where
  "drain pop 0 q = []"
| "drain pop (Suc n) q = (case pop q of None \<Rightarrow> [] | Some (x, q') \<Rightarrow> x # drain pop n q')"

locale priority_queue =
  fixes invar :: "'q \<Rightarrow> bool" and items :: "'q \<Rightarrow> 'a multiset" and before :: "'a \<Rightarrow> 'a \<Rightarrow> bool"
    and capacity :: nat
    and empty :: 'q and add :: "'a \<Rightarrow> 'q \<Rightarrow> 'q" and pop :: "'q \<Rightarrow> ('a \<times> 'q) option"
  assumes before_trans: "before x y \<Longrightarrow> before y z \<Longrightarrow> before x z"
    and invar_empty: "invar empty" and items_empty: "items empty = {#}"
    and add_ok: "invar q \<Longrightarrow> size (items q) < capacity \<Longrightarrow> invar (add x q) \<and> items (add x q) = add_mset x (items q)"
    and pop_empty: "invar q \<Longrightarrow> items q = {#} \<Longrightarrow> pop q = None"
    and pop_ok: "invar q \<Longrightarrow> items q \<noteq> {#} \<Longrightarrow> \<exists>x q'. pop q = Some (x, q') \<and> invar q'
      \<and> items q = add_mset x (items q') \<and> (\<forall>y \<in># items q. before x y)"
begin

lemma pop_SomeD:
  assumes "invar q" "pop q = Some (x, q')"
  shows "invar q'" "items q = add_mset x (items q')" "\<And>y. y \<in># items q \<Longrightarrow> before x y"
  using assms pop_ok [of q] pop_empty [of q] by (cases "items q = {#}"; auto)+

lemma drain_ok:
  "invar q \<Longrightarrow> size (items q) \<le> n \<Longrightarrow> mset (drain pop n q) = items q \<and> sorted_wrt before (drain pop n q)"
proof (induction n arbitrary: q)
  case (Suc n)
  show ?case
  proof (cases "items q = {#}")
    case True
    then show ?thesis using pop_empty [OF Suc.prems(1)] by simp
  next
    case False
    obtain x q' where p: "pop q = Some (x, q')" "invar q'" "items q = add_mset x (items q')"
      "\<forall>y \<in># items q. before x y"
      using pop_ok [OF Suc.prems(1) False] by blast
    then have "mset (drain pop n q') = items q'" "sorted_wrt before (drain pop n q')"
      using Suc.IH [OF p(2)] Suc.prems(2) by auto
    moreover have "\<forall>y \<in> set (drain pop n q'). before x y"
      using p(3,4) \<open>mset (drain pop n q') = items q'\<close> by (metis add_mset_remove_trivial diff_subset_eq_self mset_subset_eqD set_mset_mset)
    ultimately show ?thesis using p by simp
  qed
qed simp

end

section \<open>Index fields\<close>

definition idx_ok :: "'a heap \<Rightarrow> bool" where
  "idx_ok sl \<longleftrightarrow> (\<forall>i < length sl. snd (sl ! i) = int i)"

definition vals :: "'a heap \<Rightarrow> 'a list" where "vals sl = map fst sl"

lemma length_vals [simp]: "length (vals sl) = length sl" by (simp add: vals_def)
lemma vals_nth [simp]: "i < length sl \<Longrightarrow> vals sl ! i = fst (sl ! i)" by (simp add: vals_def)
lemma vals_eq_Nil [simp]: "vals sl = [] \<longleftrightarrow> sl = []" by (simp add: vals_def)

lemma length_UPDATE_IDX [simp]: "length (UPDATE_IDX sl i) = length sl"
  by (simp add: UPDATE_IDX_def)

lemma vals_UPDATE_IDX [simp]: "i < length sl \<Longrightarrow> vals (UPDATE_IDX sl i) = vals sl"
  by (simp add: vals_def UPDATE_IDX_def map_update) (metis list_update_id map_update)

lemma vals_swap:
  assumes "i < length sl" "j < length sl"
  shows "vals (heap_swap sl i j) = (vals sl)[i := vals sl ! j, j := vals sl ! i]"
  using assms by (simp add: heap_swap_def Let_def) (simp add: vals_def map_update)

lemma idx_ok_UPDATE_IDX:
  assumes "i < length sl" "\<forall>j < length sl. j \<noteq> i \<longrightarrow> snd (sl ! j) = int j"
  shows "idx_ok (UPDATE_IDX sl i)"
  using assms by (auto simp: idx_ok_def UPDATE_IDX_def nth_list_update)

lemma idx_ok_swap: "idx_ok sl \<Longrightarrow> i < length sl \<Longrightarrow> j < length sl \<Longrightarrow> idx_ok (heap_swap sl i j)"
  by (auto simp: idx_ok_def heap_swap_def UPDATE_IDX_def nth_list_update Let_def)

lemma swap_mset: "i < length sl \<Longrightarrow> j < length sl \<Longrightarrow> mset (vals (heap_swap sl i j)) = mset (vals sl)"
  by (simp only: vals_swap mset_swap length_vals)

lemma length_heapify [simp]: "length (smartlist_heapify compare sl idx) = length sl"
  by (induction compare sl idx rule: smartlist_heapify.induct) (subst smartlist_heapify.simps, simp add: Let_def)

section \<open>The heap property\<close>

lemma PARENT_less: "0 < i \<Longrightarrow> PARENT i < i" by (simp add: PARENT_def)

lemma PARENT_iff: "0 < i \<Longrightarrow> PARENT i = j \<longleftrightarrow> i = LEFT_CHILD j \<or> i = LEFT_CHILD j + 1"
  by (auto simp: PARENT_def LEFT_CHILD_def)

lemma LEFT_CHILD_props: "j < LEFT_CHILD j" "0 < LEFT_CHILD j" "PARENT (LEFT_CHILD j) = j"
  "PARENT (Suc (LEFT_CHILD j)) = j"
  by (auto simp: PARENT_def LEFT_CHILD_def)

text \<open>The lists of values that are heaps, and those that may violate the property only between an
  entry and its children, or only between an entry and its parent.\<close>

definition heap :: "('a \<Rightarrow> 'a \<Rightarrow> int) \<Rightarrow> 'a list \<Rightarrow> bool" where
  "heap cmp l \<longleftrightarrow> (\<forall>i. 0 < i \<longrightarrow> i < length l \<longrightarrow> cmp (l ! PARENT i) (l ! i) \<le> 0)"

definition heap_but_down :: "('a \<Rightarrow> 'a \<Rightarrow> int) \<Rightarrow> 'a list \<Rightarrow> nat \<Rightarrow> bool" where
  "heap_but_down cmp l j \<longleftrightarrow>
    (\<forall>i. 0 < i \<longrightarrow> i < length l \<longrightarrow> PARENT i \<noteq> j \<longrightarrow> cmp (l ! PARENT i) (l ! i) \<le> 0)
    \<and> (0 < j \<longrightarrow> (\<forall>i. 0 < i \<longrightarrow> i < length l \<longrightarrow> PARENT i = j \<longrightarrow> cmp (l ! PARENT j) (l ! i) \<le> 0))"

definition heap_but_up :: "('a \<Rightarrow> 'a \<Rightarrow> int) \<Rightarrow> 'a list \<Rightarrow> nat \<Rightarrow> bool" where
  "heap_but_up cmp l j \<longleftrightarrow>
    (\<forall>i. 0 < i \<longrightarrow> i < length l \<longrightarrow> i \<noteq> j \<longrightarrow> cmp (l ! PARENT i) (l ! i) \<le> 0)
    \<and> (0 < j \<longrightarrow> (\<forall>i. 0 < i \<longrightarrow> i < length l \<longrightarrow> PARENT i = j \<longrightarrow> cmp (l ! PARENT j) (l ! i) \<le> 0))"

text \<open>The capacity check of \<^verbatim>\<open>smartlist_heapify\<close> never cuts the work short.\<close>

lemma beyond_parents:
  "length sl \<le> 2147483647 \<Longrightarrow> \<not> idx \<le> MAX_PARENT_IDX \<Longrightarrow> length sl \<le> LEFT_CHILD idx"
  by (simp add: MAX_PARENT_IDX_def LEFT_CHILD_def)

context comparison
begin

lemma swap_down:
  assumes "heap_but_down cmp l j" "b < length l" "b = LEFT_CHILD j \<or> b = Suc (LEFT_CHILD j)"
    "cmp (l ! b) (l ! j) \<le> 0"
    "\<forall>i < length l. (i = LEFT_CHILD j \<or> i = Suc (LEFT_CHILD j)) \<longrightarrow> cmp (l ! b) (l ! i) \<le> 0"
  shows "heap_but_down cmp (l[j := l ! b, b := l ! j]) b"
proof -
  let ?l = "l[j := l ! b, b := l ! j]"
  have jb: "j < b" "PARENT b = j" "j < length l"
    using assms(2,3) LEFT_CHILD_props [of j] by auto
  have at: "?l ! i = (if i = b then l ! j else if i = j then l ! b else l ! i)" if "i < length l" for i
    using that jb assms(2) by (simp add: nth_list_update)
  have par: "PARENT i < length l" if "0 < i" "i < length l" for i
    using PARENT_less [OF that(1)] that(2) by simp
  have ord: "cmp (l ! PARENT i) (l ! i) \<le> 0" if "0 < i" "i < length l" "PARENT i \<noteq> j" for i
    using assms(1) that by (simp add: heap_but_down_def)
  have up: "cmp (l ! PARENT j) (l ! b) \<le> 0" if "0 < j"
    using assms(1,2) that jb by (simp add: heap_but_down_def)
  have "cmp (?l ! PARENT i) (?l ! i) \<le> 0" if i: "0 < i" "i < length l" "PARENT i \<noteq> b" for i
  proof -
    consider "i = b" | "i \<noteq> b" "PARENT i = j" | "i = j" | "i \<noteq> j" "i \<noteq> b" "PARENT i \<noteq> j" by blast
    then show ?thesis
    proof cases
      case 1
      then show ?thesis using assms(4) jb at par i by simp
    next
      case 2
      then have "i = LEFT_CHILD j \<or> i = Suc (LEFT_CHILD j)" using PARENT_iff [of i j] i by simp
      then have "cmp (l ! b) (l ! i) \<le> 0" using assms(5) i by blast
      moreover have "i \<noteq> j" using 2 PARENT_less [OF i(1)] by auto
      ultimately show ?thesis using 2 i jb by (simp add: at par)
    next
      case 3
      then show ?thesis using up i jb PARENT_less [OF i(1)] by (simp add: at par)
    next
      case 4
      then show ?thesis using ord [OF i(1,2)] i by (simp add: at par)
    qed
  qed
  moreover have "cmp (?l ! PARENT b) (?l ! i) \<le> 0" if i: "0 < i" "i < length l" "PARENT i = b" for i
  proof -
    have "i \<noteq> b" "i \<noteq> j" using PARENT_less [OF i(1)] i(3) jb by auto
    then show ?thesis using ord [OF i(1,2)] i jb by (simp add: at)
  qed
  ultimately show ?thesis by (simp add: heap_but_down_def)
qed

lemma heap_but_down_heap:
  assumes "heap_but_down cmp l j"
    "\<forall>i < length l. (i = LEFT_CHILD j \<or> i = Suc (LEFT_CHILD j)) \<longrightarrow> cmp (l ! j) (l ! i) \<le> 0"
  shows "heap cmp l"
  unfolding heap_def
proof (intro allI impI)
  fix i assume i: "0 < i" "i < length l"
  show "cmp (l ! PARENT i) (l ! i) \<le> 0"
    using assms i PARENT_iff [of i j] by (cases "PARENT i = j") (auto simp: heap_but_down_def)
qed

lemma heapify_ok:
  assumes "idx < length sl" "length sl \<le> 2147483647" "idx_ok sl" "heap_but_down cmp (vals sl) idx"
  shows "heap cmp (vals (smartlist_heapify cmp sl idx)) \<and> idx_ok (smartlist_heapify cmp sl idx)
    \<and> mset (vals (smartlist_heapify cmp sl idx)) = mset (vals sl)"
  using assms
proof (induction "length sl - idx" arbitrary: sl idx rule: less_induct)
  case less
  let ?l = "vals sl" and ?L = "LEFT_CHILD idx"
  show ?case
  proof (cases "length sl \<le> ?L")
    case True
    then have "smartlist_heapify cmp sl idx = sl"
      by (subst smartlist_heapify.simps) (simp add: Let_def)
    moreover have "heap cmp ?l" by (rule heap_but_down_heap [OF less.prems(4)]) (use True in auto)
    ultimately show ?thesis using less.prems(3) by simp
  next
    case False
    then have L: "?L < length sl" "idx \<le> MAX_PARENT_IDX" using beyond_parents [OF less.prems(2)] by auto
    define b0 where "b0 = (if cmp (fst (sl ! idx)) (fst (sl ! ?L)) < 0 then idx else ?L)"
    define b where "b = (if ?L + 1 < length sl \<and> cmp (fst (sl ! (?L + 1))) (fst (sl ! b0)) < 0 then ?L + 1 else b0)"
    have eq: "smartlist_heapify cmp sl idx = (if b = idx then sl else smartlist_heapify cmp (heap_swap sl idx b) b)"
      using L by (subst smartlist_heapify.simps) (simp only: Let_def b0_def b_def, simp)
    have b0_le: "cmp (?l ! b0) (?l ! idx) \<le> 0" "cmp (?l ! b0) (?l ! ?L) \<le> 0" "b0 = idx \<or> b0 = ?L" "b0 < length sl"
      using L(1) less.prems(1) cmp_ge_iff [of "fst (sl ! idx)" "fst (sl ! ?L)"] by (auto simp: b0_def)
    then have b_le: "cmp (?l ! b) (?l ! b0) \<le> 0" "b = b0 \<or> b = Suc ?L" "b < length sl"
      by (auto simp: b_def)
    have b_kids: "cmp (?l ! b) (?l ! i) \<le> 0" if "i < length ?l" "i = ?L \<or> i = Suc ?L" for i
    proof (cases "i = ?L")
      case True
      then show ?thesis using cmp_trans [OF b_le(1) b0_le(2)] by simp
    next
      case False
      then have "i = Suc ?L" using that by simp
      then show ?thesis using that b0_le(4) cmp_ge_iff [of "fst (sl ! Suc ?L)" "fst (sl ! b0)"]
        by (auto simp: b_def)
    qed
    show ?thesis
    proof (cases "b = idx")
      case True
      then have "heap cmp ?l" using b_kids heap_but_down_heap [OF less.prems(4)] by auto
      then show ?thesis using eq True less.prems(3) by simp
    next
      case False
      then have b: "b = ?L \<or> b = Suc ?L" using b_le(2) b0_le(3) by auto
      then have ib: "idx < b" using LEFT_CHILD_props [of idx] by auto
      have "heap_but_down cmp (?l[idx := ?l ! b, b := ?l ! idx]) b"
        by (rule swap_down [OF less.prems(4)])
          (use b b_kids b_le(3) cmp_trans [OF b_le(1) b0_le(1)] in auto)
      then have "heap_but_down cmp (vals (heap_swap sl idx b)) b"
        by (simp only: vals_swap [OF less.prems(1) b_le(3)])
      then show ?thesis
        using less.hyps [of "heap_swap sl idx b" b] eq False ib b_le(3) less.prems(1-3)
        by (simp add: idx_ok_swap swap_mset)
    qed
  qed
qed

lemma swap_up:
  assumes "heap_but_up cmp l j" "0 < j" "j < length l" "cmp (l ! j) (l ! PARENT j) < 0"
  shows "heap_but_up cmp (l[PARENT j := l ! j, j := l ! PARENT j]) (PARENT j)"
proof -
  let ?p = "PARENT j"
  let ?l = "l[?p := l ! j, j := l ! ?p]"
  have p: "?p < j" "?p < length l" using PARENT_less [OF assms(2)] assms(3) by auto
  have at: "?l ! i = (if i = j then l ! ?p else if i = ?p then l ! j else l ! i)" if "i < length l" for i
    using that p assms(3) by (simp add: nth_list_update)
  have par: "PARENT i < length l" if "0 < i" "i < length l" for i
    using PARENT_less [OF that(1)] that(2) by simp
  have ord: "cmp (l ! PARENT i) (l ! i) \<le> 0" if "0 < i" "i < length l" "i \<noteq> j" for i
    using assms(1) that by (simp add: heap_but_up_def)
  have kids: "cmp (l ! ?p) (l ! i) \<le> 0" if "0 < i" "i < length l" "PARENT i = j" for i
    using assms(1,2) that by (simp add: heap_but_up_def)
  have "cmp (?l ! PARENT i) (?l ! i) \<le> 0" if i: "0 < i" "i < length l" "i \<noteq> ?p" for i
  proof -
    consider "i = j" | "i \<noteq> j" "PARENT i = ?p" | "i \<noteq> j" "PARENT i = j" | "i \<noteq> j" "PARENT i \<noteq> j" "PARENT i \<noteq> ?p"
      by blast
    then show ?thesis
    proof cases
      case 1
      then show ?thesis using assms(3,4) p by (simp add: at)
    next
      case 2
      have "cmp (l ! ?p) (l ! i) \<le> 0" using ord [OF i(1,2)] 2 by simp
      then have "cmp (l ! j) (l ! i) \<le> 0" using assms(4) cmp_trans less_imp_le by blast
      then show ?thesis using 2 i p by (simp add: at par)
    next
      case 3
      then show ?thesis using kids [OF i(1,2)] i p assms(3) by (simp add: at)
    next
      case 4
      then show ?thesis using ord [OF i(1,2)] i by (simp add: at par)
    qed
  qed
  moreover have "cmp (?l ! PARENT ?p) (?l ! i) \<le> 0" if i: "0 < ?p" "0 < i" "i < length l" "PARENT i = ?p" for i
  proof -
    have pp: "PARENT ?p < ?p" using PARENT_less [OF i(1)] .
    have gp: "cmp (l ! PARENT ?p) (l ! ?p) \<le> 0" using ord [of ?p] i p by auto
    have "i \<noteq> ?p" using i(2,4) PARENT_less [of i] by auto
    moreover have "cmp (l ! PARENT ?p) (l ! i) \<le> 0" if "i \<noteq> j"
      using cmp_trans [OF gp] ord [OF i(2,3) that] i(4) by simp
    ultimately show ?thesis using gp pp p i by (simp add: at)
  qed
  ultimately show ?thesis by (simp add: heap_but_up_def)
qed

lemma sift_up_ok:
  assumes "idx < length sl" "idx_ok sl" "heap_but_up cmp (vals sl) idx"
  shows "heap cmp (vals (sift_up cmp sl idx)) \<and> idx_ok (sift_up cmp sl idx)
    \<and> mset (vals (sift_up cmp sl idx)) = mset (vals sl) \<and> length (sift_up cmp sl idx) = length sl"
  using assms
proof (induction idx arbitrary: sl rule: less_induct)
  case (less idx)
  let ?l = "vals sl"
  show ?case
  proof (cases "0 < idx \<and> cmp (fst (sl ! idx)) (fst (sl ! PARENT idx)) < 0")
    case False
    then have "sift_up cmp sl idx = sl" by (subst sift_up.simps) (auto simp: Let_def)
    moreover have "heap cmp ?l" unfolding heap_def
    proof (intro allI impI)
      fix i assume i: "0 < i" "i < length ?l"
      show "cmp (?l ! PARENT i) (?l ! i) \<le> 0"
      proof (cases "i = idx")
        case True
        then show ?thesis using False i PARENT_less [OF i(1)] cmp_ge_iff [of "?l ! idx" "?l ! PARENT idx"] by auto
      next
        case False
        with i less.prems(3) show ?thesis unfolding heap_but_up_def by blast
      qed
    qed
    ultimately show ?thesis using less.prems(2) by simp
  next
    case True
    let ?p = "PARENT idx"
    have p: "?p < idx" "?p < length sl" using PARENT_less [of idx] True less.prems(1) by auto
    have eq: "sift_up cmp sl idx = sift_up cmp (heap_swap sl ?p idx) ?p"
      using True by (subst sift_up.simps) (simp add: Let_def)
    have "heap_but_up cmp (?l[?p := ?l ! idx, idx := ?l ! ?p]) ?p"
      by (rule swap_up [OF less.prems(3)]) (use True p less.prems(1) in auto)
    then have "heap_but_up cmp (vals (heap_swap sl ?p idx)) ?p"
      by (simp only: vals_swap [OF p(2) less.prems(1)])
    then show ?thesis
      using less.IH [OF p(1), of "heap_swap sl ?p idx"] p less.prems(1,2) eq
      by (simp add: idx_ok_swap swap_mset)
  qed
qed

end

section \<open>The operations\<close>

definition heap_inv :: "('a \<Rightarrow> 'a \<Rightarrow> int) \<Rightarrow> 'a heap \<Rightarrow> bool" where
  "heap_inv cmp sl \<longleftrightarrow> heap cmp (vals sl) \<and> idx_ok sl \<and> length sl \<le> 2147483647"

definition heap_items :: "'a heap \<Rightarrow> 'a multiset" where
  "heap_items sl = mset (vals sl)"

lemma heap_inv_assert_ok: "heap_inv cmp sl \<longleftrightarrow> smartlist_pqueue_assert_ok cmp sl \<and> length sl \<le> 2147483647"
proof -
  have "0 < i \<Longrightarrow> i < length sl \<Longrightarrow> PARENT i < length sl" for i using PARENT_less [of i] by simp
  then show ?thesis
    unfolding heap_inv_def smartlist_pqueue_assert_ok_def heap_def idx_ok_def by auto
qed

lemma heap_take:
  assumes "heap cmp l"
  shows "heap cmp (take n l)"
  unfolding heap_def
proof (intro allI impI)
  fix i assume i: "0 < i" "i < length (take n l)"
  then have "PARENT i < n" "i < n" using PARENT_less [of i] by auto
  with i assms show "cmp (take n l ! PARENT i) (take n l ! i) \<le> 0" by (simp add: heap_def)
qed

lemma idx_ok_take: "idx_ok sl \<Longrightarrow> idx_ok (take n sl)"
  by (simp add: idx_ok_def)

lemma vals_take: "vals (take n sl) = take n (vals sl)"
  by (simp add: vals_def take_map)

lemma vals_update: "vals (sl[i := x]) = (vals sl)[i := fst x]"
  by (simp add: vals_def map_update)

context comparison
begin

lemma heap_min:
  assumes "heap cmp l" "i < length l"
  shows "cmp (l ! 0) (l ! i) \<le> 0"
  using assms(2)
proof (induction i rule: less_induct)
  case (less i)
  show ?case
  proof (cases "i = 0")
    case False
    then have "PARENT i < i" "PARENT i < length l" using PARENT_less [of i] less.prems by auto
    then have "cmp (l ! 0) (l ! PARENT i) \<le> 0" using less.IH by blast
    then show ?thesis using assms(1) False less.prems cmp_trans by (auto simp: heap_def)
  qed simp
qed

lemma pqueue_add_ok:
  assumes "heap_inv cmp sl" "length sl < 2147483647"
  shows "heap_inv cmp (smartlist_pqueue_add cmp sl item)
    \<and> heap_items (smartlist_pqueue_add cmp sl item) = add_mset (fst item) (heap_items sl)"
proof -
  let ?n = "length sl" and ?sl = "UPDATE_IDX (sl @ [item]) (length sl)"
  have inv: "heap cmp (vals sl)" "idx_ok sl" using assms(1) by (auto simp: heap_inv_def)
  have v: "vals ?sl = vals sl @ [fst item]" by (simp add: vals_def [of "sl @ [item]"]) (simp add: vals_def)
  have idx: "idx_ok ?sl" by (rule idx_ok_UPDATE_IDX) (use inv(2) in \<open>auto simp: idx_ok_def nth_append\<close>)
  have "cmp (vals ?sl ! PARENT i) (vals ?sl ! i) \<le> 0" if "0 < i" "i < length ?sl" "i \<noteq> ?n" for i
  proof -
    have "i < length (vals sl)" "PARENT i < length (vals sl)"
      using that PARENT_less [OF that(1)] by auto
    with inv(1) that(1) show ?thesis unfolding v heap_def by (simp add: nth_append del: vals_nth length_vals)
  qed
  moreover have "PARENT i \<noteq> ?n" if "0 < i" "i < length ?sl" for i
    using that PARENT_less [OF that(1)] by auto
  ultimately have "heap_but_up cmp (vals ?sl) ?n" by (simp add: heap_but_up_def)
  then have "heap cmp (vals (sift_up cmp ?sl ?n)) \<and> idx_ok (sift_up cmp ?sl ?n)
      \<and> mset (vals (sift_up cmp ?sl ?n)) = mset (vals ?sl) \<and> length (sift_up cmp ?sl ?n) = length ?sl"
    by (intro sift_up_ok idx) auto
  then show ?thesis using assms(2)
    by (simp add: smartlist_pqueue_add_def heap_inv_def heap_items_def v)
qed

text \<open>Replacing an entry by the last one, which both removing operations do before they sift down.\<close>

lemma replace_ok:
  assumes "heap_inv cmp sl" "n = length sl - 1" "i < n"
    "0 < i \<Longrightarrow> cmp (vals sl ! PARENT i) (vals sl ! n) \<le> 0"
  defines "sl' \<equiv> UPDATE_IDX ((take n sl)[i := sl ! n]) i"
  shows "heap_inv cmp (smartlist_heapify cmp sl' i)
    \<and> heap_items sl = add_mset (vals sl ! i) (heap_items (smartlist_heapify cmp sl' i))"
proof -
  let ?l = "vals sl"
  have inv: "heap cmp ?l" "idx_ok sl" "length sl \<le> 2147483647" using assms(1) by (auto simp: heap_inv_def)
  have n: "n < length sl" "Suc n = length sl" using assms(2,3) by auto
  have len: "length sl' = n" using n by (simp add: sl'_def)
  have v: "vals sl' = (take n ?l)[i := ?l ! n]"
    using assms(3) n by (simp add: sl'_def vals_update vals_take)
  have idx: "idx_ok sl'"
    unfolding sl'_def using inv(2) assms(3) n by (intro idx_ok_UPDATE_IDX) (auto simp: idx_ok_def)
  have at: "vals sl' ! k = (if k = i then ?l ! n else ?l ! k)" if "k < n" for k
    using that assms(3) n unfolding v by (simp add: nth_list_update)
  have "cmp (vals sl' ! PARENT k) (vals sl' ! k) \<le> 0" if k: "0 < k" "k < n" "PARENT k \<noteq> i" for k
  proof (cases "k = i")
    case True
    then show ?thesis using assms(4) k PARENT_less [OF k(1)] by (simp add: at del: vals_nth)
  next
    case False
    then show ?thesis using inv(1) k PARENT_less [OF k(1)] n unfolding heap_def by (simp add: at del: vals_nth)
  qed
  moreover have "cmp (vals sl' ! PARENT i) (vals sl' ! k) \<le> 0" if k: "0 < i" "0 < k" "k < n" "PARENT k = i" for k
  proof -
    have o: "PARENT i < i" "i < k" using PARENT_less k by auto
    have "cmp (?l ! PARENT i) (?l ! i) \<le> 0" "cmp (?l ! i) (?l ! k) \<le> 0"
      using inv(1) k o n by (auto simp: heap_def simp del: vals_nth)
    from cmp_trans [OF this] show ?thesis using o k by (simp add: at del: vals_nth)
  qed
  ultimately have "heap_but_down cmp (vals sl') i" by (simp add: heap_but_down_def len)
  then have h: "heap cmp (vals (smartlist_heapify cmp sl' i)) \<and> idx_ok (smartlist_heapify cmp sl' i)
      \<and> mset (vals (smartlist_heapify cmp sl' i)) = mset (vals sl')"
    using assms(3) len inv(3) n idx by (intro heapify_ok) auto
  have l: "?l = take n ?l @ [?l ! n]"
    using n by (metis length_vals lessI take_Suc_conv_app_nth take_all_iff order_refl)
  have "mset ?l = add_mset (?l ! n) (mset (take n ?l))"
    by (subst l) simp
  also have "mset (take n ?l) = add_mset (?l ! i) (mset (take n ?l) - {#?l ! i#})"
    using assms(3) n by (metis insert_DiffM length_take length_vals min.absorb4 nth_mem_mset nth_take)
  finally have "mset ?l = add_mset (?l ! n) (add_mset (?l ! i) (mset (take n ?l) - {#?l ! i#}))" .
  moreover have "mset (vals sl') = add_mset (?l ! n) (mset (take n ?l) - {#?l ! i#})"
    using assms(3) n unfolding v by (simp add: mset_update)
  ultimately have "mset ?l = add_mset (?l ! i) (mset (vals sl'))" by simp
  then show ?thesis using h len inv(3) n by (simp add: heap_inv_def heap_items_def)
qed

lemma pqueue_pop_ok:
  assumes "heap_inv cmp sl" "sl \<noteq> []"
  shows "\<exists>x sl'. smartlist_pqueue_pop cmp sl = Some ((x, - 1), sl') \<and> heap_inv cmp sl'
    \<and> heap_items sl = add_mset x (heap_items sl') \<and> (\<forall>y \<in># heap_items sl. cmp x y \<le> 0)"
proof -
  let ?n = "length sl - 1" and ?x = "vals sl ! 0"
  have min: "\<forall>y \<in># heap_items sl. cmp ?x y \<le> 0"
    using heap_min [of "vals sl"] assms(1)
    by (auto simp: heap_items_def heap_inv_def in_set_conv_nth simp del: vals_nth)
  show ?thesis
  proof (cases "?n = 0")
    case True
    then obtain y where sl: "sl = [y]" using assms(2) by (cases sl) auto
    have "heap_inv cmp []" by (simp add: heap_inv_def heap_def idx_ok_def)
    moreover have "smartlist_pqueue_pop cmp sl = Some ((?x, - 1), [])"
      by (simp add: smartlist_pqueue_pop_def sl)
    moreover have "heap_items sl = add_mset ?x (heap_items [])" by (simp add: sl heap_items_def vals_def)
    ultimately show ?thesis using min by blast
  next
    case False
    let ?sl' = "smartlist_heapify cmp (UPDATE_IDX ((take ?n sl)[0 := sl ! ?n]) 0) 0"
    have "smartlist_pqueue_pop cmp sl = Some ((?x, - 1), ?sl')"
      using False assms(2) by (simp add: smartlist_pqueue_pop_def Let_def)
    moreover have "heap_inv cmp ?sl' \<and> heap_items sl = add_mset ?x (heap_items ?sl')"
      by (rule replace_ok [OF assms(1) refl]) (use False in auto)
    ultimately show ?thesis using min by blast
  qed
qed

text \<open>Removing an item restores the heap only if the last item does not belong above the place
  that became free.\<close>

lemma pqueue_remove_ok:
  assumes "heap_inv cmp sl" "i < length sl"
    "0 < i \<Longrightarrow> cmp (vals sl ! PARENT i) (vals sl ! (length sl - 1)) \<le> 0"
  shows "\<exists>sl'. smartlist_pqueue_remove cmp sl (sl ! i) = Some ((fst (sl ! i), - 1), sl')
    \<and> heap_inv cmp sl' \<and> heap_items sl = add_mset (fst (sl ! i)) (heap_items sl')"
proof -
  have idx: "snd (sl ! i) = int i" using assms(1,2) by (simp add: heap_inv_def idx_ok_def)
  show ?thesis
  proof (cases "i = length sl - 1")
    case True
    have "heap_inv cmp (take i sl)"
      using assms(1,2) by (simp add: heap_inv_def vals_take heap_take idx_ok_take)
    moreover have "vals sl = take i (vals sl) @ [vals sl ! i]"
      using assms(2) True by (metis Suc_pred' gr_implies_not0 length_vals lessI not_gr0 take_Suc_conv_app_nth take_all_iff order_refl)
    then have "heap_items sl = add_mset (vals sl ! i) (heap_items (take i sl))"
      unfolding heap_items_def vals_take by (metis mset_append add_mset_add_single union_mset_add_mset_right mset_single_iff)
    moreover have "smartlist_pqueue_remove cmp sl (sl ! i) = Some ((fst (sl ! i), - 1), take i sl)"
      unfolding smartlist_pqueue_remove_def Let_def idx True [symmetric] using assms(2) by simp
    ultimately show ?thesis using assms(2) by simp
  next
    case False
    then have "i < length sl - 1" using assms(2) by simp
    then show ?thesis using replace_ok [OF assms(1) refl _ assms(3)] assms(2) idx False
      by (auto simp: smartlist_pqueue_remove_def Let_def)
  qed
qed

end

definition pop_value :: "('a \<Rightarrow> 'a \<Rightarrow> int) \<Rightarrow> 'a heap \<Rightarrow> ('a \<times> 'a heap) option" where
  "pop_value compare sl = map_option (\<lambda>(item, sl'). (fst item, sl')) (smartlist_pqueue_pop compare sl)"

sublocale comparison \<subseteq> heap: priority_queue "heap_inv cmp" heap_items "\<lambda>x y. cmp x y \<le> 0" 2147483647 "[]"
  "\<lambda>x sl. smartlist_pqueue_add cmp sl (x, 0)" "pop_value cmp"
proof (unfold_locales, goal_cases)
  case (1 x y z)
  then show ?case by (rule cmp_trans)
next
  case (4 q x)
  then show ?case using pqueue_add_ok [of q "(x, 0)"] by (simp add: heap_items_def)
next
  case (5 q)
  then show ?case by (simp add: pop_value_def smartlist_pqueue_pop_def heap_items_def)
next
  case (6 q)
  then have "q \<noteq> []" by (auto simp: heap_items_def vals_def)
  then show ?case using pqueue_pop_ok [OF 6(1)] by (force simp: pop_value_def)
qed (auto simp: heap_inv_def heap_items_def heap_def idx_ok_def vals_def)

section \<open>Refinement of the abstract queue\<close>

datatype 'a pq_op = Add 'a | Pop

fun pq_run :: "('a \<Rightarrow> 'q \<Rightarrow> 'q) \<Rightarrow> ('q \<Rightarrow> ('a \<times> 'q) option) \<Rightarrow> 'a pq_op list \<Rightarrow> 'q \<Rightarrow> 'a option list \<times> 'q" where
  "pq_run add pop [] q = ([], q)"
| "pq_run add pop (Add x # ops) q = pq_run add pop ops (add x q)"
| "pq_run add pop (Pop # ops) q =
     (case pop q of None \<Rightarrow> (let (outs, q') = pq_run add pop ops q in (None # outs, q'))
      | Some (x, q1) \<Rightarrow> (let (outs, q') = pq_run add pop ops q1 in (Some x # outs, q')))"

text \<open>The specification: a multiset from which every pop takes some least element.\<close>

fun pq_spec :: "('a \<Rightarrow> 'a \<Rightarrow> bool) \<Rightarrow> 'a pq_op list \<Rightarrow> 'a option list \<Rightarrow> 'a multiset \<Rightarrow> 'a multiset \<Rightarrow> bool" where
  "pq_spec le [] outs M M' \<longleftrightarrow> outs = [] \<and> M' = M"
| "pq_spec le (Add x # ops) outs M M' \<longleftrightarrow> pq_spec le ops outs (add_mset x M) M'"
| "pq_spec le (Pop # ops) [] M M' \<longleftrightarrow> False"
| "pq_spec le (Pop # ops) (None # outs) M M' \<longleftrightarrow> M = {#} \<and> pq_spec le ops outs M M'"
| "pq_spec le (Pop # ops) (Some x # outs) M M' \<longleftrightarrow> x \<in># M \<and> (\<forall>y \<in># M. le x y)
     \<and> pq_spec le ops outs (M - {#x#}) M'"

context priority_queue
begin

lemma run_refines:
  assumes "invar q" "size (items q) + length ops \<le> capacity"
  shows "case pq_run add pop ops q of (outs, q') \<Rightarrow> invar q' \<and> pq_spec before ops outs (items q) (items q')"
  using assms
proof (induction ops arbitrary: q)
  case (Cons oper ops)
  show ?case
  proof (cases oper)
    case (Add x)
    then show ?thesis using Cons.IH [of "add x q"] add_ok [OF Cons.prems(1), of x] Cons.prems(2) by simp
  next
    case Pop
    show ?thesis
    proof (cases "items q = {#}")
      case True
      then show ?thesis using Pop Cons.IH [of q] Cons.prems pop_empty by (auto split: prod.splits)
    next
      case False
      obtain x q1 where p: "pop q = Some (x, q1)" "invar q1" "items q = add_mset x (items q1)"
        "\<forall>y \<in># items q. before x y"
        using pop_ok [OF Cons.prems(1) False] by blast
      then show ?thesis using Pop Cons.IH [of q1] Cons.prems(2) by (auto split: prod.splits)
    qed
  qed
qed simp

end

context comparison
begin

lemma heap_run_refines:
  "length ops \<le> 2147483647 \<Longrightarrow>
    case pq_run (\<lambda>x sl. smartlist_pqueue_add cmp sl (x, 0)) (pop_value cmp) ops [] of
      (outs, sl) \<Rightarrow> heap_inv cmp sl \<and> pq_spec (\<lambda>x y. cmp x y \<le> 0) ops outs {#} (heap_items sl)"
  using heap.run_refines [OF heap.invar_empty, of ops] heap.items_empty by simp

end

text \<open>C16: With any comparison function that is a total preorder, the heap is a priority queue:
  over any sequence of insertions and removals of the front, every pop returns an item that is
  least among those in the queue and takes out that one alone, pops fail exactly on the empty
  queue, and afterwards the check that the code has for its heaps passes, index fields included.\<close>

theorem pqueue_refines_multiset:
  assumes "comparison cmp" "length ops \<le> 2147483647"
  shows "case pq_run (\<lambda>x sl. smartlist_pqueue_add cmp sl (x, 0)) (pop_value cmp) ops [] of
    (outs, sl) \<Rightarrow> smartlist_pqueue_assert_ok cmp sl
      \<and> pq_spec (\<lambda>x y. cmp x y \<le> 0) ops outs {#} (mset (map fst sl))"
  using comparison.heap_run_refines [OF assms]
  by (auto simp: heap_inv_assert_ok heap_items_def vals_def split: prod.splits)

theorem pqueue_refines_multiset_witness:
  "case pq_run (\<lambda>x sl. smartlist_pqueue_add cmp_int sl (x, 0)) (pop_value cmp_int) [Add 5, Add 2, Pop, Add 1, Pop, Pop, Pop] [] of
    (outs, sl) \<Rightarrow> smartlist_pqueue_assert_ok cmp_int sl
      \<and> pq_spec (\<lambda>x y. cmp_int x y \<le> 0) [Add 5, Add 2, Pop, Add 1, Pop, Pop, Pop] outs {#} (mset (map fst sl))"
  by (rule pqueue_refines_multiset) (rule cmp_int.comparison_axioms, simp)

section \<open>Removing an item that is not at the front\<close>

context comparison
begin

lemma heapify_stays:
  assumes "idx < length sl"
    "\<And>k. k < length sl \<Longrightarrow> 0 < k \<Longrightarrow> PARENT k = idx \<Longrightarrow> cmp (vals sl ! idx) (vals sl ! k) < 0"
  shows "smartlist_heapify cmp sl idx = sl"
proof (cases "LEFT_CHILD idx < length sl")
  case True
  have l: "cmp (fst (sl ! idx)) (fst (sl ! LEFT_CHILD idx)) < 0"
    using assms(2) [of "LEFT_CHILD idx"] LEFT_CHILD_props [of idx] True assms(1) by simp
  have r: "\<not> cmp (fst (sl ! (LEFT_CHILD idx + 1))) (fst (sl ! idx)) < 0" if "LEFT_CHILD idx + 1 < length sl"
    using assms(2) [of "Suc (LEFT_CHILD idx)"] LEFT_CHILD_props [of idx] that assms(1)
      cmp_flip [of "fst (sl ! idx)"] by fastforce
  show ?thesis using l r by (subst smartlist_heapify.simps) (auto simp: Let_def)
qed (subst smartlist_heapify.simps, simp add: Let_def)

lemma pqueue_remove_breaks:
  assumes "heap_inv cmp sl" "0 < i" "i < length sl - 1"
    "0 < cmp (vals sl ! PARENT i) (vals sl ! (length sl - 1))"
  defines "sl' \<equiv> UPDATE_IDX ((take (length sl - 1) sl)[i := sl ! (length sl - 1)]) i"
  shows "smartlist_pqueue_remove cmp sl (sl ! i) = Some ((fst (sl ! i), - 1), sl')"
    "\<not> smartlist_pqueue_assert_ok cmp sl'"
proof -
  let ?l = "vals sl" and ?n = "length sl - 1"
  have n: "?n < length sl" "i < length sl" using assms(3) by auto
  have p: "PARENT i < i" using PARENT_less [OF assms(2)] .
  have idx: "snd (sl ! i) = int i" using assms(1,3) by (simp add: heap_inv_def idx_ok_def)
  have len: "length sl' = ?n" by (simp add: sl'_def)
  have v: "vals sl' = (take ?n ?l)[i := ?l ! ?n]"
    using assms(3) n by (simp add: sl'_def vals_update vals_take)
  have at: "vals sl' ! k = (if k = i then ?l ! ?n else ?l ! k)" if "k < ?n" for k
    using that assms(3) n unfolding v by (simp add: nth_list_update)
  have heap: "cmp (?l ! PARENT k) (?l ! k) \<le> 0" if "0 < k" "k < length sl" for k
    using assms(1) that by (simp add: heap_inv_def heap_def)
  have lt: "cmp (?l ! ?n) (?l ! PARENT i) < 0" using assms(4) cmp_flip by blast
  have "cmp (vals sl' ! i) (vals sl' ! k) < 0" if k: "k < length sl'" "0 < k" "PARENT k = i" for k
  proof -
    have "i < k" using PARENT_less [OF k(2)] k(3) by simp
    have "cmp (?l ! ?n) (?l ! i) < 0" by (rule cmp_less_trans [OF lt heap [OF assms(2) n(2)]])
    moreover have "cmp (?l ! i) (?l ! k) \<le> 0" using heap [OF k(2)] k len by auto
    ultimately have "cmp (?l ! ?n) (?l ! k) < 0" by (rule cmp_less_trans)
    then show ?thesis using \<open>i < k\<close> k len assms(3) by (simp add: at del: vals_nth)
  qed
  then have "smartlist_heapify cmp sl' i = sl'" using assms(3) len by (intro heapify_stays) auto
  then show "smartlist_pqueue_remove cmp sl (sl ! i) = Some ((fst (sl ! i), - 1), sl')"
    using idx n assms(3) by (simp add: smartlist_pqueue_remove_def Let_def sl'_def)
  have "\<not> cmp (vals sl' ! PARENT i) (vals sl' ! i) \<le> 0"
    using assms(4) p assms(3) by (simp add: at del: vals_nth)
  then show "\<not> smartlist_pqueue_assert_ok cmp sl'"
    using p assms(2,3) len unfolding smartlist_pqueue_assert_ok_def
    by (auto intro!: exI [of _ i])
qed

lemma pqueue_remove_ok_iff:
  assumes "heap_inv cmp sl" "i < length sl"
  shows "\<exists>sl'. smartlist_pqueue_remove cmp sl (sl ! i) = Some ((fst (sl ! i), - 1), sl')
    \<and> (smartlist_pqueue_assert_ok cmp sl' \<longleftrightarrow>
         i = 0 \<or> i = length sl - 1 \<or> cmp (vals sl ! PARENT i) (vals sl ! (length sl - 1)) \<le> 0)"
proof (cases "i = 0 \<or> i = length sl - 1 \<or> cmp (vals sl ! PARENT i) (vals sl ! (length sl - 1)) \<le> 0")
  case True
  have "cmp (vals sl ! PARENT i) (vals sl ! (length sl - 1)) \<le> 0" if "0 < i"
    using True that assms by (auto simp: heap_inv_def heap_def)
  then show ?thesis using pqueue_remove_ok [OF assms] True by (auto simp: heap_inv_assert_ok)
next
  case False
  then show ?thesis using pqueue_remove_breaks [OF assms(1), of i] assms(2) by auto
qed

end

text \<open>C28: Removing an item from inside a heap moves the last item into its place and only ever moves
  it down. The heap is intact afterwards exactly if the item was at the front or at the end, or
  the last item does not come before the parent of the freed place; otherwise the heap's own
  consistency check fails.\<close>

theorem pqueue_remove_restores_iff:
  assumes "comparison cmp" "smartlist_pqueue_assert_ok cmp sl" "length sl \<le> 2147483647" "i < length sl"
  shows "\<exists>sl'. smartlist_pqueue_remove cmp sl (sl ! i) = Some ((fst (sl ! i), - 1), sl')
    \<and> (smartlist_pqueue_assert_ok cmp sl' \<longleftrightarrow>
         i = 0 \<or> i = length sl - 1 \<or> cmp (fst (sl ! PARENT i)) (fst (sl ! (length sl - 1))) \<le> 0)"
proof -
  have "PARENT i < length sl" using assms(4) PARENT_less [of i] by (cases "i = 0") (auto simp: PARENT_def)
  then show ?thesis
    using comparison.pqueue_remove_ok_iff [OF assms(1), of sl i] assms(2-4)
    by (auto simp: heap_inv_assert_ok)
qed

text \<open>The witness is also the failure: the heap passes the check, an item is removed, and the queue
  then pops 10 before 4.\<close>

definition sample_heap :: "int heap" where
  "sample_heap = zip [1, 10, 2, 11, 12, 13, 4] [0, 1, 2, 3, 4, 5, 6]"

theorem pqueue_remove_restores_iff_witness:
  "\<exists>sl'. smartlist_pqueue_remove cmp_int sample_heap (11, 3) = Some ((11, - 1), sl')
    \<and> \<not> smartlist_pqueue_assert_ok cmp_int sl' \<and> drain (pop_value cmp_int) 6 sl' = [1, 2, 10, 4, 12, 13]"
proof -
  have ok: "smartlist_pqueue_assert_ok cmp_int sample_heap" by code_simp
  have "map_option (\<lambda>(_, sl'). drain (pop_value cmp_int) 6 sl') (smartlist_pqueue_remove cmp_int sample_heap (11, 3))
      = Some [1, 2, 10, 4, 12, 13]"
    by code_simp
  moreover have "length sample_heap = 7" "sample_heap ! 3 = (11, 3)" "fst (sample_heap ! PARENT 3) = 10"
    "fst (sample_heap ! 6) = 4"
    by (simp_all add: sample_heap_def PARENT_def)
  ultimately show ?thesis
    using pqueue_remove_restores_iff [OF cmp_int.comparison_axioms ok, of 3] by auto
qed

end
