(* ===== verification/Conflux.thy ===== *)
theory Conflux
  imports PQueue "HOL-Library.Monad_Syntax"
begin

text \<open>
  Conflux, the multiplexing of one stream of relay messages over several circuits:
  \<^verbatim>\<open>src/core/or/conflux.c\<close> with the SWITCH cell of \<^verbatim>\<open>conflux_cell.c\<close> and the
  two places of \<^verbatim>\<open>relay.c\<close> that call it. A circuit is a number; what the code reads of
  the circuits of the set (congestion window, blocking) is a function from numbers to
  \<^verbatim>\<open>circ_info\<close>. A pointer to a leg is the number of its circuit. Building, linking and
  closing sets (\<^verbatim>\<open>conflux_pool.c\<close>) is not modelled: closing is a flag of the result.
  \<^const>\<open>None\<close> as a result is a failed assertion, if nothing else is said.
\<close>

section \<open>Data\<close>

record relay_msg =
  command :: int
  stream_id :: int
  body :: string

record conflux_msg =
  seq :: int
  msg :: relay_msg

record circ_info =
  is_origin :: bool
  inflight :: int
  cwnd :: int
  sendme_inc :: int
  in_slow_start :: bool
  circuit_blocked_on_n_chan :: bool
  circuit_blocked_on_p_chan :: bool

record conflux_leg =
  last_seq_recv :: int
  last_seq_sent :: int
  circ_rtts_usec :: int
  leg_circ :: nat

datatype conflux_alg = CONFLUX_ALG_MINRTT | CONFLUX_ALG_LOWRTT | CONFLUX_ALG_CWNDRTT

record conflux =
  alg :: conflux_alg
  legs :: "conflux_leg list"
  ooo_q :: "conflux_msg heap"
  ooo_q_alloc_cost :: int
  last_seq_delivered :: int
  cells_until_switch :: int
  curr_leg :: "nat option"
  prev_leg :: "nat option"
  in_full_teardown :: bool

definition END_CIRC_REASON_TORPROTOCOL :: int where "END_CIRC_REASON_TORPROTOCOL = 1"
definition END_CIRC_REASON_INTERNAL :: int where "END_CIRC_REASON_INTERNAL = 2"
definition END_CIRC_REASON_RESOURCELIMIT :: int where "END_CIRC_REASON_RESOURCELIMIT = 5"

section \<open>Messages\<close>

definition RELAY_COMMAND_DATA :: int where "RELAY_COMMAND_DATA = 2"

text \<open>The relay commands that are multiplexed: BEGIN, DATA, END, CONNECTED, RESOLVE, RESOLVED, XOFF
  and XON; all others, known or not, are not.\<close>

definition conflux_should_multiplex :: "int \<Rightarrow> bool" where
  "conflux_should_multiplex relay_command \<longleftrightarrow> relay_command \<in> {1, 2, 3, 4, 11, 12, 43, 44}"

text \<open>The size of the two structures is the parameter \<open>overhead\<close>.\<close>

definition conflux_msg_alloc_cost :: "int \<Rightarrow> conflux_msg \<Rightarrow> int" where
  "conflux_msg_alloc_cost overhead m = u64 (int (length (body (msg m))) + overhead)"

definition conflux_queue_cmp :: "conflux_msg \<Rightarrow> conflux_msg \<Rightarrow> int" where
  "conflux_queue_cmp cell_a cell_b =
    (if seq cell_a < seq cell_b then - 1 else if seq cell_a > seq cell_b then 1 else 0)"

interpretation conflux_queue: comparison conflux_queue_cmp
  by unfold_locales (auto simp: conflux_queue_cmp_def split: if_splits)

section \<open>Legs\<close>

definition conflux_get_leg :: "conflux \<Rightarrow> nat \<Rightarrow> conflux_leg option" where
  "conflux_get_leg cfx circ = find (\<lambda>l. leg_circ l = circ) (legs cfx)"

definition update_leg :: "nat \<Rightarrow> (conflux_leg \<Rightarrow> conflux_leg) \<Rightarrow> conflux \<Rightarrow> conflux" where
  "update_leg circ f cfx = cfx\<lparr>legs := map (\<lambda>l. if leg_circ l = circ then f l else l) (legs cfx)\<rparr>"

definition conflux_get_max_seq_sent :: "conflux \<Rightarrow> int" where
  "conflux_get_max_seq_sent cfx =
    fold (\<lambda>leg m. if last_seq_sent leg > m then last_seq_sent leg else m) (legs cfx) 0"

definition conflux_get_max_seq_recv :: "conflux \<Rightarrow> int" where
  "conflux_get_max_seq_recv cfx =
    fold (\<lambda>leg m. if last_seq_recv leg > m then last_seq_recv leg else m) (legs cfx) 0"

definition conflux_update_rtt :: "nat \<Rightarrow> int \<Rightarrow> conflux \<Rightarrow> conflux" where
  "conflux_update_rtt circ rtt_usec = update_leg circ (\<lambda>l. l\<lparr>circ_rtts_usec := rtt_usec\<rparr>)"

section \<open>Choosing a leg\<close>

definition circuit_ready_to_send :: "circ_info \<Rightarrow> bool" where
  "circuit_ready_to_send circ =
    (let cc_sendable = (if inflight circ \<ge> cwnd circ then False else True)
     in if is_origin circ then cc_sendable \<and> \<not> circuit_blocked_on_n_chan circ
        else cc_sendable \<and> \<not> circuit_blocked_on_p_chan circ)"

text \<open>The leg with the least nonzero round-trip time among those that satisfy a condition; the
  earliest on ties.\<close>

definition min_rtt_leg :: "(conflux_leg \<Rightarrow> bool) \<Rightarrow> conflux_leg list \<Rightarrow> nat option \<times> int" where
  "min_rtt_leg P ls = fold (\<lambda>leg (circ, min_rtt).
     if P leg \<and> circ_rtts_usec leg \<noteq> 0 \<and> circ_rtts_usec leg < min_rtt
     then (Some (leg_circ leg), circ_rtts_usec leg) else (circ, min_rtt)) ls (None, UINT64_MAX)"

definition conflux_decide_circ_minrtt :: "(nat \<Rightarrow> circ_info) \<Rightarrow> conflux \<Rightarrow> nat option option" where
  "conflux_decide_circ_minrtt circs cfx =
    (if legs cfx = [] then None
     else Some (case fst (min_rtt_leg (\<lambda>_. True) (legs cfx)) of None \<Rightarrow> None
       | Some c \<Rightarrow> if \<not> circuit_ready_to_send (circs c) then None else Some c))"

definition conflux_decide_circ_lowrtt :: "(nat \<Rightarrow> circ_info) \<Rightarrow> conflux \<Rightarrow> nat option option" where
  "conflux_decide_circ_lowrtt circs cfx =
    (if legs cfx = [] then None
     else Some (fst (min_rtt_leg (\<lambda>leg. circuit_ready_to_send (circs (leg_circ leg))) (legs cfx))))"

definition cwnd_available :: "circ_info \<Rightarrow> int" where
  "cwnd_available circ = (if cwnd circ < inflight circ then 0 else cwnd circ - inflight circ)"

definition cwnd_sendable :: "circ_info \<Rightarrow> int \<Rightarrow> int \<Rightarrow> int" where
  "cwnd_sendable circ in_usec our_usec =
    (let cwnd_adjusted = cwnd_available circ in
     if our_usec = 0 \<or> in_usec = 0 then cwnd_adjusted
     else if in_slow_start circ then cwnd_adjusted
     else let sendable = u64 (cwnd_adjusted * in_usec) div our_usec
          in min (cwnd circ) sendable)"

text \<open>The second loop keeps the last leg that qualifies.\<close>

definition last_sendable_leg :: "(nat \<Rightarrow> circ_info) \<Rightarrow> int \<Rightarrow> conflux_leg list \<Rightarrow> nat option" where
  "last_sendable_leg circs min_rtt ls = fold (\<lambda>l leg.
     if \<not> circuit_ready_to_send (circs (leg_circ l)) then leg
     else if circ_rtts_usec l \<noteq> 0 \<and> cwnd_sendable (circs (leg_circ l)) min_rtt (circ_rtts_usec l) > 0
     then Some (leg_circ l) else leg) ls None"

definition conflux_decide_circ_cwndrtt :: "(nat \<Rightarrow> circ_info) \<Rightarrow> conflux \<Rightarrow> nat option option" where
  "conflux_decide_circ_cwndrtt circs cfx =
    (if legs cfx = [] then None
     else let (leg, min_rtt) = min_rtt_leg (\<lambda>_. True) (legs cfx) in
       if (case leg of None \<Rightarrow> False | Some c \<Rightarrow> circuit_ready_to_send (circs c)) then Some leg
       else case last_sendable_leg circs min_rtt (legs cfx) of None \<Rightarrow> Some None
         | Some c \<Rightarrow> if \<not> circuit_ready_to_send (circs c) then Some None else Some (Some c))"

definition conflux_can_switch :: "(nat \<Rightarrow> circ_info) \<Rightarrow> int \<Rightarrow> conflux \<Rightarrow> bool" where
  "conflux_can_switch circs drain_pct cfx =
    (if cells_until_switch cfx > 0 then
       (case prev_leg cfx of None \<Rightarrow> False
        | Some p \<Rightarrow>
          inflight (circs p) < sendme_inc (circs p)
          \<or> u64 (100 * inflight (circs p)) \<le> u64 (drain_pct * cwnd (circs p)))
     else True)"

text \<open>\<^const>\<open>None\<close> is the false result.\<close>

definition conflux_pick_first_leg :: "conflux \<Rightarrow> conflux option" where
  "conflux_pick_first_leg cfx =
    (let min_leg = fold (\<lambda>leg m.
           if circ_rtts_usec leg > 0 \<and> (case m of None \<Rightarrow> True | Some l \<Rightarrow> circ_rtts_usec leg < circ_rtts_usec l)
           then Some leg else m) (legs cfx) None
     in case min_leg of
          Some l \<Rightarrow> Some (cfx\<lparr>cells_until_switch := 0, curr_leg := Some (leg_circ l)\<rparr>)
        | None \<Rightarrow> (case legs cfx of [] \<Rightarrow> None
            | l # _ \<Rightarrow> Some (cfx\<lparr>cells_until_switch := 0, curr_leg := Some (leg_circ l)\<rparr>)))"

definition conflux_decide_next_circ :: "(nat \<Rightarrow> circ_info) \<Rightarrow> int \<Rightarrow> conflux \<Rightarrow> (nat option \<times> conflux) option" where
  "conflux_decide_next_circ circs drain_pct cfx =
    (if in_full_teardown cfx then Some (None, cfx)
     else case (if curr_leg cfx = None then conflux_pick_first_leg cfx else Some cfx) of
       None \<Rightarrow> Some (None, cfx)
     | Some cfx \<Rightarrow>
       if \<not> conflux_can_switch circs drain_pct cfx then
         (case curr_leg cfx of None \<Rightarrow> None
          | Some c \<Rightarrow> if circuit_ready_to_send (circs c) then Some (Some c, cfx) else Some (None, cfx))
       else map_option (\<lambda>circ. (circ, cfx))
         (case alg cfx of
            CONFLUX_ALG_MINRTT \<Rightarrow> conflux_decide_circ_minrtt circs cfx
          | CONFLUX_ALG_LOWRTT \<Rightarrow> conflux_decide_circ_lowrtt circs cfx
          | CONFLUX_ALG_CWNDRTT \<Rightarrow> conflux_decide_circ_cwndrtt circs cfx))"

section \<open>Sending\<close>

text \<open>The SWITCH cell carries 32 bits; sending it may fail, which is the argument \<open>send_ok\<close>. The
  result is the sequence number that goes on the wire.\<close>

definition conflux_send_switch_command :: "bool \<Rightarrow> int \<Rightarrow> int option" where
  "conflux_send_switch_command send_ok relative_seq =
    (if relative_seq \<ge> UINT32_MAX then None
     else if \<not> send_ok then None
     else Some (u32 relative_seq))"

text \<open>What a decision gives: the circuit to send on, the SWITCH cell sent, whether the whole set is
  closed, and the set.\<close>

record conflux_decision =
  send_circ :: "nat option"
  switch_sent :: "int option"
  close_all :: bool
  decided_cfx :: conflux

definition no_circ :: "conflux \<Rightarrow> conflux_decision" where
  "no_circ cfx = \<lparr>send_circ = None, switch_sent = None, close_all = False, decided_cfx = cfx\<rparr>"

definition conflux_decide_circ_for_send ::
    "(nat \<Rightarrow> circ_info) \<Rightarrow> int \<Rightarrow> bool \<Rightarrow> conflux \<Rightarrow> nat \<Rightarrow> int \<Rightarrow> conflux_decision option" where
  "conflux_decide_circ_for_send circs drain_pct send_ok cfx orig_circ relay_command =
    (if \<not> conflux_should_multiplex relay_command then Some ((no_circ cfx)\<lparr>send_circ := Some orig_circ\<rparr>)
     else do {
       (new_circ, cfx) \<leftarrow> conflux_decide_next_circ circs drain_pct cfx;
       (case new_circ of
          None \<Rightarrow>
            if relay_command \<noteq> RELAY_COMMAND_DATA then Some ((no_circ cfx)\<lparr>send_circ := curr_leg cfx\<rparr>)
            else Some (no_circ cfx)
        | Some c \<Rightarrow> do {
            curr \<leftarrow> curr_leg cfx;
            if c = curr then Some ((no_circ cfx)\<lparr>send_circ := Some c\<rparr>)
            else do {
              prev \<leftarrow> conflux_get_leg cfx curr;
              new_leg \<leftarrow> conflux_get_leg cfx c;
              let cfx = cfx\<lparr>cells_until_switch := 0, prev_leg := Some curr, curr_leg := Some c\<rparr>;
              if last_seq_sent new_leg > last_seq_sent prev
              then Some ((no_circ cfx)\<lparr>close_all := True\<rparr>)
              else
                let relative_seq = last_seq_sent prev - last_seq_sent new_leg
                in case conflux_send_switch_command send_ok relative_seq of
                  None \<Rightarrow> Some ((no_circ cfx)\<lparr>close_all := True\<rparr>)
                | Some n \<Rightarrow> Some \<lparr>send_circ = Some c, switch_sent = Some n, close_all = False,
                    decided_cfx = update_leg c (\<lambda>l. l\<lparr>last_seq_sent := last_seq_sent prev\<rparr>) cfx\<rparr>
            }
          })
     })"

definition conflux_note_cell_sent :: "conflux \<Rightarrow> nat \<Rightarrow> int \<Rightarrow> conflux" where
  "conflux_note_cell_sent cfx circ relay_command =
    (if \<not> conflux_should_multiplex relay_command then cfx
     else if conflux_get_leg cfx circ = None then cfx
     else let cfx = update_leg circ (\<lambda>l. l\<lparr>last_seq_sent := u64 (last_seq_sent l + 1)\<rparr>) cfx
          in if cells_until_switch cfx > 0 then cfx\<lparr>cells_until_switch := cells_until_switch cfx - 1\<rparr> else cfx)"

section \<open>Receiving\<close>

text \<open>\<open>enabled\<close> is \<^verbatim>\<open>conflux_is_enabled\<close> and \<open>valid_hop\<close> is
  \<^verbatim>\<open>conflux_validate_source_hop\<close>. The sequence number is the one the generated parser
  reads off the cell, or 0 if it does not parse. The result has the reason for closing the
  circuit, if it is closed.\<close>

definition conflux_process_switch_command :: "bool \<Rightarrow> bool \<Rightarrow> nat \<Rightarrow> int option \<Rightarrow> conflux \<Rightarrow> int option \<times> conflux" where
  "conflux_process_switch_command enabled valid_hop in_circ parsed cfx =
    (if \<not> enabled then (Some END_CIRC_REASON_TORPROTOCOL, cfx)
     else if conflux_get_leg cfx in_circ = None then (Some END_CIRC_REASON_INTERNAL, cfx)
     else if \<not> valid_hop then (Some END_CIRC_REASON_TORPROTOCOL, cfx)
     else let relative_seq = (case parsed of None \<Rightarrow> 0 | Some n \<Rightarrow> n)
          in (None, update_leg in_circ (\<lambda>l. l\<lparr>last_seq_recv := u64 (last_seq_recv l + relative_seq)\<rparr>) cfx))"

text \<open>The result says whether the message can be processed now, and has the reason for closing the
  circuit, the set and the total of the queued bytes.\<close>

definition conflux_process_relay_msg ::
    "int \<Rightarrow> int \<Rightarrow> bool \<Rightarrow> nat \<Rightarrow> relay_msg \<Rightarrow> conflux \<Rightarrow> int \<Rightarrow> bool \<times> int option \<times> conflux \<times> int" where
  "conflux_process_relay_msg overhead max_oooq valid_hop in_circ m cfx total_ooo_q_bytes =
    (case conflux_get_leg cfx in_circ of
       None \<Rightarrow> (False, Some END_CIRC_REASON_INTERNAL, cfx, total_ooo_q_bytes)
     | Some leg \<Rightarrow>
       if \<not> valid_hop then (False, Some END_CIRC_REASON_TORPROTOCOL, cfx, total_ooo_q_bytes)
       else
         let s = u64 (last_seq_recv leg + 1);
             cfx = update_leg in_circ (\<lambda>l. l\<lparr>last_seq_recv := s\<rparr>) cfx
         in if s = u64 (last_seq_delivered cfx + 1)
            then (True, None, cfx\<lparr>last_seq_delivered := u64 (last_seq_delivered cfx + 1)\<rparr>, total_ooo_q_bytes)
            else if s \<le> last_seq_delivered cfx
            then (False, Some END_CIRC_REASON_INTERNAL, cfx, total_ooo_q_bytes)
            else if ooo_q_alloc_cost cfx \<ge> max_oooq
            then (False, Some END_CIRC_REASON_RESOURCELIMIT, cfx, total_ooo_q_bytes)
            else
              let c_msg = \<lparr>seq = s, msg = m\<rparr>;
                  cost = conflux_msg_alloc_cost overhead c_msg
              in (False, None,
                  cfx\<lparr>ooo_q := smartlist_pqueue_add conflux_queue_cmp (ooo_q cfx) (c_msg, 0),
                      ooo_q_alloc_cost := u64 (ooo_q_alloc_cost cfx + cost)\<rparr>,
                  u64 (total_ooo_q_bytes + cost)))"

text \<open>The checks for a closed circuit, a missing set and a missing queue come first in the code;
  here the circuit is open and has both.\<close>

definition conflux_dequeue_relay_msg :: "int \<Rightarrow> conflux \<Rightarrow> int \<Rightarrow> conflux_msg option \<times> conflux \<times> int" where
  "conflux_dequeue_relay_msg overhead cfx total_ooo_q_bytes =
    (if ooo_q cfx = [] then (None, cfx, total_ooo_q_bytes)
     else
       let first = fst (ooo_q cfx ! 0) in
       if seq first = u64 (last_seq_delivered cfx + 1) then
         (case smartlist_pqueue_pop conflux_queue_cmp (ooo_q cfx) of
            None \<Rightarrow> (None, cfx, total_ooo_q_bytes)
          | Some (_, q) \<Rightarrow>
            let cost = conflux_msg_alloc_cost overhead first
            in (Some first,
                cfx\<lparr>ooo_q := q, ooo_q_alloc_cost := u64 (ooo_q_alloc_cost cfx - cost),
                    last_seq_delivered := u64 (last_seq_delivered cfx + 1)\<rparr>,
                u64 (total_ooo_q_bytes - cost)))
       else (None, cfx, total_ooo_q_bytes))"

definition conflux_clear_ooo_q :: "int \<Rightarrow> conflux \<Rightarrow> int \<Rightarrow> conflux \<times> int" where
  "conflux_clear_ooo_q overhead cfx total_ooo_q_bytes =
    (cfx\<lparr>ooo_q := []\<rparr>,
     fold (\<lambda>(m, _) total_bytes. let cost = conflux_msg_alloc_cost overhead m
                          in if cost > total_bytes then 0 else total_bytes - cost) (ooo_q cfx) total_ooo_q_bytes)"

definition conflux_get_circ_bytes_allocation :: "conflux option \<Rightarrow> int" where
  "conflux_get_circ_bytes_allocation cfx =
    (case cfx of None \<Rightarrow> 0 | Some c \<Rightarrow> u64 (int (length (ooo_q c)) * 8 + ooo_q_alloc_cost c))"

text \<open>The loop of \<^verbatim>\<open>connection_edge_process_relay_cell\<close> over the queue: the messages that
  are handed to the streams, whether an error stopped it, the set and the total. The handler of an
  ordered message is the argument \<open>deliver\<close>; a message may be handled only while the queue
  holds it, so the length of the queue bounds the number of rounds.\<close>

fun dequeue_loop :: "nat \<Rightarrow> int \<Rightarrow> (relay_msg \<Rightarrow> int) \<Rightarrow> conflux \<Rightarrow> int
    \<Rightarrow> relay_msg list \<times> bool \<times> conflux \<times> int" where
  "dequeue_loop 0 overhead deliver cfx total_bytes = ([], False, cfx, total_bytes)"
| "dequeue_loop (Suc n) overhead deliver cfx total_bytes =
    (case conflux_dequeue_relay_msg overhead cfx total_bytes of
       (None, cfx, total_bytes) \<Rightarrow> ([], False, cfx, total_bytes)
     | (Some c_msg, cfx, total_bytes) \<Rightarrow>
       if deliver (msg c_msg) < 0 then ([msg c_msg], True, cfx, total_bytes)
       else let (ms, r) = dequeue_loop n overhead deliver cfx total_bytes in (msg c_msg # ms, r))"

definition process_multiplexed_msg ::
    "int \<Rightarrow> int \<Rightarrow> (relay_msg \<Rightarrow> int) \<Rightarrow> bool \<Rightarrow> nat \<Rightarrow> relay_msg \<Rightarrow> conflux \<Rightarrow> int
      \<Rightarrow> relay_msg list \<times> bool \<times> int option \<times> conflux \<times> int" where
  "process_multiplexed_msg overhead max_oooq deliver valid_hop in_circ m cfx total_bytes =
    (case conflux_process_relay_msg overhead max_oooq valid_hop in_circ m cfx total_bytes of
       (ready, reason, cfx, total_bytes) \<Rightarrow>
         if \<not> ready then ([], False, reason, cfx, total_bytes)
         else if deliver m < 0 then ([m], True, reason, cfx, total_bytes)
         else let (ms, err, cfx, total_bytes) = dequeue_loop (length (ooo_q cfx) + 1) overhead deliver cfx total_bytes
              in (m # ms, err, reason, cfx, total_bytes))"

end
