(* ===== verification/ConfluxOrder.thy ===== *)
theory ConfluxOrder
  imports Conflux "HOL-Library.Sublist"
begin

text \<open>
  What conflux promises to the streams it carries: a sender, the circuits of the set as
  first-in-first-out channels, and a receiver. Whatever legs the sender chooses, whatever the
  congestion windows do and however the channels interleave, the receiver hands the messages
  over in the order in which they were sent, each once, and loses none unless the set is closed.
\<close>

section \<open>The system\<close>

datatype wire_cell = Switch int | Relay relay_msg

record cfx_config =
  overhead :: int
  max_oooq :: int
  deliver :: "relay_msg \<Rightarrow> int"

record cfx_system =
  sender :: conflux
  receiver :: conflux
  wires :: "nat \<Rightarrow> wire_cell list"
  sent :: "relay_msg list"
  delivered :: "relay_msg list"
  queued_bytes :: int
  closed :: bool

text \<open>Sending a multiplexed message: the state of the circuits at that time, the drain percentage,
  whether sending the SWITCH cell succeeds and whether the message is packaged. \<open>Receive\<close> takes
  the next cell off a circuit. A new round-trip time may be measured at any time.\<close>

datatype cfx_event =
    Send "nat \<Rightarrow> circ_info" int bool bool relay_msg
  | Receive nat
  | NewRtt nat int

text \<open>The part of \<^verbatim>\<open>relay_send_command_from_edge_\<close> about conflux.\<close>

definition sys_send :: "(nat \<Rightarrow> circ_info) \<Rightarrow> int \<Rightarrow> bool \<Rightarrow> bool \<Rightarrow> relay_msg \<Rightarrow> cfx_system \<Rightarrow> cfx_system option" where
  "sys_send circs drain_pct send_ok packaged m s =
    (if closed s \<or> \<not> conflux_should_multiplex (command m) then Some s
     else case conflux_decide_circ_for_send circs drain_pct send_ok (sender s) 0 (command m) of
       None \<Rightarrow> None
     | Some d \<Rightarrow>
       let s = s\<lparr>sender := decided_cfx d\<rparr>
       in if close_all d then Some (s\<lparr>closed := True\<rparr>)
          else case send_circ d of None \<Rightarrow> Some s
          | Some c \<Rightarrow>
            let w = wires s c @ (case switch_sent d of None \<Rightarrow> [] | Some n \<Rightarrow> [Switch n])
            in if packaged
               then Some (s\<lparr>sender := conflux_note_cell_sent (sender s) c (command m),
                            wires := (wires s)(c := w @ [Relay m]), sent := sent s @ [m]\<rparr>)
               else Some (s\<lparr>wires := (wires s)(c := w)\<rparr>))"

definition sys_receive :: "cfx_config \<Rightarrow> nat \<Rightarrow> cfx_system \<Rightarrow> cfx_system" where
  "sys_receive cfg c s =
    (if closed s then s
     else case wires s c of [] \<Rightarrow> s
     | Switch n # w \<Rightarrow>
       (case conflux_process_switch_command True True c (Some n) (receiver s) of
          (reason, cfx) \<Rightarrow> s\<lparr>receiver := cfx, wires := (wires s)(c := w), closed := (reason \<noteq> None)\<rparr>)
     | Relay m # w \<Rightarrow>
       (case process_multiplexed_msg (overhead cfg) (max_oooq cfg) (deliver cfg) True c m (receiver s) (queued_bytes s) of
          (ms, err, reason, cfx, total_bytes) \<Rightarrow>
            s\<lparr>receiver := cfx, wires := (wires s)(c := w), delivered := delivered s @ ms,
              queued_bytes := total_bytes, closed := (err \<or> reason \<noteq> None)\<rparr>))"

fun sys_step :: "cfx_config \<Rightarrow> cfx_event \<Rightarrow> cfx_system \<Rightarrow> cfx_system option" where
  "sys_step cfg (Send circs drain_pct send_ok packaged m) s = sys_send circs drain_pct send_ok packaged m s"
| "sys_step cfg (Receive c) s = Some (sys_receive cfg c s)"
| "sys_step cfg (NewRtt c rtt) s = Some (s\<lparr>sender := conflux_update_rtt c rtt (sender s)\<rparr>)"

fun sys_run :: "cfx_config \<Rightarrow> cfx_event list \<Rightarrow> cfx_system \<Rightarrow> cfx_system option" where
  "sys_run cfg [] s = Some s"
| "sys_run cfg (e # es) s = (case sys_step cfg e s of None \<Rightarrow> None | Some s' \<Rightarrow> sys_run cfg es s')"

text \<open>A fresh set over the given circuits.\<close>

definition cfx_init :: "conflux_alg \<Rightarrow> nat list \<Rightarrow> conflux" where
  "cfx_init a cs = \<lparr>alg = a,
     legs = map (\<lambda>c. \<lparr>last_seq_recv = 0, last_seq_sent = 0, circ_rtts_usec = 0, leg_circ = c\<rparr>) cs,
     ooo_q = [], ooo_q_alloc_cost = 0, last_seq_delivered = 0, cells_until_switch = 0,
     curr_leg = None, prev_leg = None, in_full_teardown = False\<rparr>"

definition sys_init :: "conflux_alg \<Rightarrow> nat list \<Rightarrow> cfx_system" where
  "sys_init a cs = \<lparr>sender = cfx_init a cs, receiver = cfx_init a cs, wires = (\<lambda>_. []),
     sent = [], delivered = [], queued_bytes = 0, closed = False\<rparr>"

section \<open>Legs by circuit\<close>

definition circuits :: "conflux \<Rightarrow> nat set" where "circuits cfx = leg_circ ` set (legs cfx)"

definition seq_sent :: "conflux \<Rightarrow> nat \<Rightarrow> int" where
  "seq_sent cfx c = (case conflux_get_leg cfx c of None \<Rightarrow> 0 | Some l \<Rightarrow> last_seq_sent l)"

definition seq_recv :: "conflux \<Rightarrow> nat \<Rightarrow> int" where
  "seq_recv cfx c = (case conflux_get_leg cfx c of None \<Rightarrow> 0 | Some l \<Rightarrow> last_seq_recv l)"

lemma get_leg_None_iff: "conflux_get_leg cfx c = None \<longleftrightarrow> c \<notin> circuits cfx"
  by (auto simp: conflux_get_leg_def circuits_def find_None_iff)

lemma get_leg_Some: "c \<in> circuits cfx \<Longrightarrow> \<exists>l. conflux_get_leg cfx c = Some l"
  using get_leg_None_iff by auto

lemma find_map_update:
  assumes "\<And>l. leg_circ (f l) = leg_circ l"
  shows "find (\<lambda>l. leg_circ l = d) (map (\<lambda>l. if leg_circ l = c then f l else l) ls)
    = (if d = c then map_option f (find (\<lambda>l. leg_circ l = c) ls) else find (\<lambda>l. leg_circ l = d) ls)"
  by (induction ls) (auto simp: assms)

lemma get_leg_update:
  assumes "\<And>l. leg_circ (f l) = leg_circ l"
  shows "conflux_get_leg (update_leg c f cfx) d
    = (if d = c then map_option f (conflux_get_leg cfx c) else conflux_get_leg cfx d)"
  using assms by (simp add: conflux_get_leg_def update_leg_def find_map_update)

lemma circuits_update:
  assumes "\<And>l. leg_circ (f l) = leg_circ l"
  shows "circuits (update_leg c f cfx) = circuits cfx"
proof -
  have "leg_circ (if leg_circ l = c then f l else l) = leg_circ l" for l using assms by simp
  then show ?thesis unfolding circuits_def update_leg_def by (simp add: image_image del: if_image_distrib)
qed

lemma update_leg_fields [simp]:
  "curr_leg (update_leg c f cfx) = curr_leg cfx" "ooo_q (update_leg c f cfx) = ooo_q cfx"
  "last_seq_delivered (update_leg c f cfx) = last_seq_delivered cfx"
  "ooo_q_alloc_cost (update_leg c f cfx) = ooo_q_alloc_cost cfx"
  "cells_until_switch (update_leg c f cfx) = cells_until_switch cfx"
  "in_full_teardown (update_leg c f cfx) = in_full_teardown cfx"
  by (simp_all add: update_leg_def)

text \<open>What depends on the legs only.\<close>

lemma legs_cong:
  assumes "legs cfx' = legs cfx"
  shows "circuits cfx' = circuits cfx" "seq_sent cfx' = seq_sent cfx" "seq_recv cfx' = seq_recv cfx"
    "conflux_get_leg cfx' c = conflux_get_leg cfx c"
  using assms by (simp_all add: circuits_def seq_sent_def seq_recv_def conflux_get_leg_def fun_eq_iff)

lemma legs_updates [simp]:
  "circuits (cfx\<lparr>curr_leg := x\<rparr>) = circuits cfx" "circuits (cfx\<lparr>prev_leg := x\<rparr>) = circuits cfx"
  "circuits (cfx\<lparr>cells_until_switch := n\<rparr>) = circuits cfx" "circuits (cfx\<lparr>ooo_q := q\<rparr>) = circuits cfx"
  "circuits (cfx\<lparr>ooo_q_alloc_cost := n\<rparr>) = circuits cfx" "circuits (cfx\<lparr>last_seq_delivered := n\<rparr>) = circuits cfx"
  "seq_sent (cfx\<lparr>curr_leg := x\<rparr>) = seq_sent cfx" "seq_sent (cfx\<lparr>prev_leg := x\<rparr>) = seq_sent cfx"
  "seq_sent (cfx\<lparr>cells_until_switch := n\<rparr>) = seq_sent cfx"
  "seq_recv (cfx\<lparr>ooo_q := q\<rparr>) = seq_recv cfx" "seq_recv (cfx\<lparr>ooo_q_alloc_cost := n\<rparr>) = seq_recv cfx"
  "seq_recv (cfx\<lparr>last_seq_delivered := n\<rparr>) = seq_recv cfx"
  by (rule legs_cong; simp)+

lemma seq_update:
  assumes "\<And>l. leg_circ (f l) = leg_circ l"
  shows "seq_sent (update_leg c f cfx) d
      = (if d = c then case conflux_get_leg cfx c of None \<Rightarrow> 0 | Some l \<Rightarrow> last_seq_sent (f l) else seq_sent cfx d)"
    "seq_recv (update_leg c f cfx) d
      = (if d = c then case conflux_get_leg cfx c of None \<Rightarrow> 0 | Some l \<Rightarrow> last_seq_recv (f l) else seq_recv cfx d)"
  unfolding seq_sent_def seq_recv_def get_leg_update [OF assms] by (auto split: option.split)

section \<open>The sender\<close>

text \<open>After \<open>N\<close> messages: no leg is ahead, and the current leg is level.\<close>

definition sender_ok :: "conflux \<Rightarrow> int \<Rightarrow> bool" where
  "sender_ok cfx N \<longleftrightarrow> legs cfx \<noteq> [] \<and> (\<forall>c. 0 \<le> seq_sent cfx c \<and> seq_sent cfx c \<le> N)
    \<and> (case curr_leg cfx of None \<Rightarrow> N = 0 | Some c \<Rightarrow> c \<in> circuits cfx \<and> seq_sent cfx c = N)"

lemma min_rtt_leg_in:
  "min_rtt_leg P ls = (Some c, r) \<Longrightarrow> c \<in> leg_circ ` set ls"
proof -
  have "fold (\<lambda>leg (circ, min_rtt). if P leg \<and> circ_rtts_usec leg \<noteq> 0 \<and> circ_rtts_usec leg < min_rtt
      then (Some (leg_circ leg), circ_rtts_usec leg) else (circ, min_rtt)) ls (x, y) = (Some c, r)
    \<Longrightarrow> x = Some c \<or> c \<in> leg_circ ` set ls" for x y
    by (induction ls arbitrary: x y) (auto split: if_splits)
  from this [of None UINT64_MAX] show "min_rtt_leg P ls = (Some c, r) \<Longrightarrow> c \<in> leg_circ ` set ls"
    by (simp add: min_rtt_leg_def)
qed

lemma last_sendable_leg_in: "last_sendable_leg circs r ls = Some c \<Longrightarrow> c \<in> leg_circ ` set ls"
proof -
  have "fold (\<lambda>l leg. if \<not> circuit_ready_to_send (circs (leg_circ l)) then leg
      else if circ_rtts_usec l \<noteq> 0 \<and> cwnd_sendable (circs (leg_circ l)) r (circ_rtts_usec l) > 0
      then Some (leg_circ l) else leg) ls x = Some c \<Longrightarrow> x = Some c \<or> c \<in> leg_circ ` set ls" for x
    by (induction ls arbitrary: x) (auto split: if_splits)
  from this [of None] show "last_sendable_leg circs r ls = Some c \<Longrightarrow> c \<in> leg_circ ` set ls"
    by (simp add: last_sendable_leg_def)
qed

lemma decide_alg_ok:
  assumes "legs cfx \<noteq> []"
  shows "\<exists>r. (case alg cfx of
            CONFLUX_ALG_MINRTT \<Rightarrow> conflux_decide_circ_minrtt circs cfx
          | CONFLUX_ALG_LOWRTT \<Rightarrow> conflux_decide_circ_lowrtt circs cfx
          | CONFLUX_ALG_CWNDRTT \<Rightarrow> conflux_decide_circ_cwndrtt circs cfx) = Some r
    \<and> (\<forall>c. r = Some c \<longrightarrow> c \<in> circuits cfx)"
proof (cases "alg cfx")
  case CONFLUX_ALG_MINRTT
  obtain x r where "min_rtt_leg (\<lambda>_. True) (legs cfx) = (x, r)" by fastforce
  then show ?thesis using CONFLUX_ALG_MINRTT assms min_rtt_leg_in
    by (auto simp: conflux_decide_circ_minrtt_def circuits_def split: option.split)
next
  case CONFLUX_ALG_LOWRTT
  obtain x r where "min_rtt_leg (\<lambda>leg. circuit_ready_to_send (circs (leg_circ leg))) (legs cfx) = (x, r)"
    by fastforce
  then show ?thesis using CONFLUX_ALG_LOWRTT assms min_rtt_leg_in
    by (auto simp: conflux_decide_circ_lowrtt_def circuits_def)
next
  case CONFLUX_ALG_CWNDRTT
  obtain x r where "min_rtt_leg (\<lambda>_. True) (legs cfx) = (x, r)" by fastforce
  then show ?thesis using CONFLUX_ALG_CWNDRTT assms min_rtt_leg_in last_sendable_leg_in
    by (fastforce simp: conflux_decide_circ_cwndrtt_def circuits_def split: option.split)
qed

lemma pick_first_leg_ok:
  assumes "legs cfx \<noteq> []"
  obtains c where "conflux_pick_first_leg cfx = Some (cfx\<lparr>cells_until_switch := 0, curr_leg := Some c\<rparr>)"
    "c \<in> circuits cfx"
proof -
  define f where "f = (\<lambda>(leg :: conflux_leg) m. if circ_rtts_usec leg > 0 \<and>
      (case m of None \<Rightarrow> True | Some l \<Rightarrow> circ_rtts_usec leg < circ_rtts_usec l) then Some leg else m)"
  have "fold f ls x = Some l \<Longrightarrow> x = Some l \<or> l \<in> set ls" for ls x l
    by (induction ls arbitrary: x) (auto simp: f_def split: if_splits)
  then have "fold f (legs cfx) None = Some l \<Longrightarrow> l \<in> set (legs cfx)" for l by blast
  moreover obtain l0 ls where "legs cfx = l0 # ls" using assms by (cases "legs cfx") auto
  ultimately have "\<exists>c. conflux_pick_first_leg cfx = Some (cfx\<lparr>cells_until_switch := 0, curr_leg := Some c\<rparr>)
      \<and> c \<in> circuits cfx"
    unfolding conflux_pick_first_leg_def f_def [symmetric] Let_def
    by (cases "fold f (legs cfx) None") (auto simp: circuits_def)
  then show thesis using that by blast
qed

lemma decide_next_ok:
  assumes "sender_ok cfx N" "\<not> in_full_teardown cfx"
  obtains r cfx' where "conflux_decide_next_circ circs d cfx = Some (r, cfx')" "sender_ok cfx' N"
    "legs cfx' = legs cfx" "curr_leg cfx' \<noteq> None" "\<And>c. r = Some c \<Longrightarrow> c \<in> circuits cfx"
    "in_full_teardown cfx' = in_full_teardown cfx"
proof -
  have ne: "legs cfx \<noteq> []" using assms(1) by (simp add: sender_ok_def)
  obtain cfx1 where c1: "(if curr_leg cfx = None then conflux_pick_first_leg cfx else Some cfx) = Some cfx1"
    "sender_ok cfx1 N" "legs cfx1 = legs cfx" "curr_leg cfx1 \<noteq> None" "in_full_teardown cfx1 = in_full_teardown cfx"
  proof (cases "curr_leg cfx")
    case None
    obtain c where c: "conflux_pick_first_leg cfx = Some (cfx\<lparr>cells_until_switch := 0, curr_leg := Some c\<rparr>)"
      "c \<in> circuits cfx"
      using pick_first_leg_ok [OF ne] .
    let ?cfx = "cfx\<lparr>cells_until_switch := 0, curr_leg := Some c\<rparr>"
    have "N = 0" "0 \<le> seq_sent cfx c" "seq_sent cfx c \<le> N" using assms(1) None by (auto simp: sender_ok_def)
    then have "sender_ok ?cfx N" using assms(1) c(2) by (simp add: sender_ok_def)
    then show thesis using that [of ?cfx] None c(1) by simp
  qed (use assms(1) that [of cfx] in simp)
  obtain c where c: "curr_leg cfx1 = Some c" using c1(4) by blast
  then have cin: "c \<in> circuits cfx" using c1(2) legs_cong(1) [OF c1(3)] by (simp add: sender_ok_def)
  have ne1: "legs cfx1 \<noteq> []" using ne c1(3) by simp
  obtain r where r: "(case alg cfx1 of
            CONFLUX_ALG_MINRTT \<Rightarrow> conflux_decide_circ_minrtt circs cfx1
          | CONFLUX_ALG_LOWRTT \<Rightarrow> conflux_decide_circ_lowrtt circs cfx1
          | CONFLUX_ALG_CWNDRTT \<Rightarrow> conflux_decide_circ_cwndrtt circs cfx1) = Some r"
    "\<forall>c. r = Some c \<longrightarrow> c \<in> circuits cfx1"
    using decide_alg_ok [OF ne1] by blast
  define r' where "r' = (if \<not> conflux_can_switch circs d cfx1
    then (if circuit_ready_to_send (circs c) then Some c else None) else r)"
  have "conflux_decide_next_circ circs d cfx = Some (r', cfx1)"
    unfolding conflux_decide_next_circ_def using assms(2) c1(1) c r(1) by (simp add: r'_def)
  moreover have "x \<in> circuits cfx" if "r' = Some x" for x
    using that r(2) cin legs_cong(1) [OF c1(3)] by (auto simp: r'_def split: if_splits)
  ultimately show thesis using that c1 by blast
qed

text \<open>What a decision gives: the circuit it names is the current leg and level with the messages sent
  so far, and the SWITCH cell makes up the difference.\<close>

definition decision_ok :: "conflux \<Rightarrow> int \<Rightarrow> conflux_decision \<Rightarrow> bool" where
  "decision_ok cfx N d \<longleftrightarrow> circuits (decided_cfx d) = circuits cfx \<and> \<not> in_full_teardown (decided_cfx d)
    \<and> (close_all d \<or> sender_ok (decided_cfx d) N \<and>
        (case send_circ d of
           None \<Rightarrow> seq_sent (decided_cfx d) = seq_sent cfx
         | Some c \<Rightarrow> c \<in> circuits cfx \<and> curr_leg (decided_cfx d) = Some c
             \<and> seq_sent (decided_cfx d) = (seq_sent cfx)(c := N)
             \<and> (case switch_sent d of None \<Rightarrow> seq_sent cfx c = N | Some n \<Rightarrow> n = N - seq_sent cfx c)))"

lemma stay_ok:
  assumes "sender_ok cfx N" "circuits cfx = circuits cfx0" "seq_sent cfx = seq_sent cfx0" "\<not> in_full_teardown cfx"
    "curr_leg cfx = Some c"
  shows "decision_ok cfx0 N ((no_circ cfx)\<lparr>send_circ := Some c\<rparr>)"
proof -
  have "c \<in> circuits cfx0" "seq_sent cfx0 c = N" using assms by (auto simp: sender_ok_def)
  moreover from this have "(seq_sent cfx0)(c := N) = seq_sent cfx0" by auto
  ultimately show ?thesis using assms by (simp add: decision_ok_def no_circ_def)
qed

lemma switch_ok:
  assumes "sender_ok cfx N" "c \<in> circuits cfx" "\<not> in_full_teardown cfx" "curr_leg cfx = Some cur"
    "conflux_get_leg cfx cur = Some prev"
  defines "cfx' \<equiv> update_leg c (\<lambda>l. l\<lparr>last_seq_sent := last_seq_sent prev\<rparr>)
      (cfx\<lparr>cells_until_switch := 0, prev_leg := Some cur, curr_leg := Some c\<rparr>)"
  shows "sender_ok cfx' N" "circuits cfx' = circuits cfx" "seq_sent cfx' = (seq_sent cfx)(c := N)"
    "\<not> in_full_teardown cfx'" "curr_leg cfx' = Some c"
proof -
  let ?cfx = "cfx\<lparr>cells_until_switch := 0, prev_leg := Some cur, curr_leg := Some c\<rparr>"
  let ?f = "\<lambda>l. l\<lparr>last_seq_sent := last_seq_sent prev\<rparr>"
  have N: "last_seq_sent prev = N" using assms(1,4,5) by (simp add: sender_ok_def seq_sent_def)
  have f: "leg_circ (?f l) = leg_circ l" for l by simp
  show circ: "circuits cfx' = circuits cfx" unfolding cfx'_def using circuits_update [of ?f, OF f] by simp
  obtain l where "conflux_get_leg ?cfx c = Some l"
    using get_leg_Some [of c ?cfx] assms(2) by auto
  then show seq: "seq_sent cfx' = (seq_sent cfx)(c := N)"
    unfolding cfx'_def fun_eq_iff seq_update [of ?f, OF f] by (simp add: N)
  have legs: "legs cfx' \<noteq> []" using assms(1) by (simp add: cfx'_def update_leg_def sender_ok_def)
  show cur: "curr_leg cfx' = Some c" by (simp add: cfx'_def)
  have "0 \<le> N" using assms(1) by (auto simp: sender_ok_def intro: order_trans)
  then show "sender_ok cfx' N" using assms(1,2) legs by (simp add: sender_ok_def seq cur circ)
  show "\<not> in_full_teardown cfx'" using assms(3) by (simp add: cfx'_def)
qed

lemma decide_for_send_ok:
  assumes "sender_ok cfx N" "\<not> in_full_teardown cfx" "conflux_should_multiplex cmd"
  obtains d where "conflux_decide_circ_for_send circs p send_ok cfx orig cmd = Some d" "decision_ok cfx N d"
proof -
  obtain r cfx1 where nx: "conflux_decide_next_circ circs p cfx = Some (r, cfx1)" "sender_ok cfx1 N"
    "legs cfx1 = legs cfx" "curr_leg cfx1 \<noteq> None" "\<And>c. r = Some c \<Longrightarrow> c \<in> circuits cfx"
    "in_full_teardown cfx1 = in_full_teardown cfx"
    using decide_next_ok [OF assms(1,2)] by blast
  obtain cur where cur: "curr_leg cfx1 = Some cur" using nx(4) by blast
  note cong = legs_cong [OF nx(3)]
  have nt: "\<not> in_full_teardown cfx1" using nx(6) assms(2) by simp
  note stay = stay_ok [OF nx(2) cong(1,2) nt cur]
  have none: "decision_ok cfx N (no_circ cfx1)"
    using nx(2) cong nt by (simp add: decision_ok_def no_circ_def)
  show thesis
  proof (cases r)
    case None
    show thesis
      by (rule that [of "if cmd \<noteq> RELAY_COMMAND_DATA then (no_circ cfx1)\<lparr>send_circ := Some cur\<rparr> else no_circ cfx1"])
        (use assms(3) nx(1) None cur stay none in \<open>simp_all add: conflux_decide_circ_for_send_def\<close>)
  next
    case (Some c)
    show thesis
    proof (cases "c = cur")
      case True
      show thesis
        by (rule that [of "(no_circ cfx1)\<lparr>send_circ := Some cur\<rparr>"])
          (use assms(3) nx(1) Some cur stay True in \<open>simp_all add: conflux_decide_circ_for_send_def\<close>)
    next
      case False
      have c: "c \<in> circuits cfx1" using nx(5) [OF Some] cong(1) by simp
      have "cur \<in> circuits cfx1" using nx(2) cur by (simp add: sender_ok_def)
      then obtain prev l where legs: "conflux_get_leg cfx1 cur = Some prev" "conflux_get_leg cfx1 c = Some l"
        using get_leg_Some c by metis
      let ?cfx2 = "cfx1\<lparr>cells_until_switch := 0, prev_leg := Some cur, curr_leg := Some c\<rparr>"
      let ?d = "(no_circ ?cfx2)\<lparr>close_all := True\<rparr>"
      let ?n = "last_seq_sent prev - last_seq_sent l"
      have bad: "decision_ok cfx N ?d"
        using cong(1) nt by (simp add: decision_ok_def no_circ_def)
      have seqs: "last_seq_sent prev = N" "last_seq_sent l = seq_sent cfx c" "last_seq_sent l \<le> N"
      proof -
        have "seq_sent cfx1 cur = N" "seq_sent cfx1 c \<le> N" using nx(2) cur by (auto simp: sender_ok_def)
        moreover have "seq_sent cfx1 cur = last_seq_sent prev" "seq_sent cfx1 c = last_seq_sent l"
          using legs by (simp_all add: seq_sent_def)
        ultimately show "last_seq_sent prev = N" "last_seq_sent l = seq_sent cfx c" "last_seq_sent l \<le> N"
          using cong(2) by simp_all
      qed
      have step: "conflux_decide_circ_for_send circs p send_ok cfx orig cmd =
        Some (case conflux_send_switch_command send_ok ?n of
                None \<Rightarrow> ?d
              | Some n \<Rightarrow> \<lparr>send_circ = Some c, switch_sent = Some n, close_all = False,
                    decided_cfx = update_leg c (\<lambda>l. l\<lparr>last_seq_sent := last_seq_sent prev\<rparr>) ?cfx2\<rparr>)"
        using assms(3) nx(1) Some cur False legs seqs
        by (simp add: conflux_decide_circ_for_send_def Let_def split: option.split)
      show thesis
      proof (cases "conflux_send_switch_command send_ok ?n")
        case None
        then show thesis using that step bad by simp
      next
        case (Some n)
        then have "n = ?n" using seqs
          by (auto simp: conflux_send_switch_command_def c_conv split: if_splits)
        note sw = switch_ok [OF nx(2) c nt cur legs(1)]
        have "decision_ok cfx N \<lparr>send_circ = Some c, switch_sent = Some n, close_all = False,
                    decided_cfx = update_leg c (\<lambda>l. l\<lparr>last_seq_sent := last_seq_sent prev\<rparr>) ?cfx2\<rparr>"
          using sw cong c \<open>n = ?n\<close> seqs by (simp add: decision_ok_def)
        then show thesis using that step Some by simp
      qed
    qed
  qed
qed

section \<open>What is on a circuit\<close>

text \<open>The sequence number a leg has once the cells on its circuit have arrived, and the messages
  with the numbers they will then have.\<close>

fun wire_end :: "int \<Rightarrow> wire_cell list \<Rightarrow> int" where
  "wire_end s [] = s"
| "wire_end s (Switch n # w) = wire_end (s + n) w"
| "wire_end s (Relay m # w) = wire_end (s + 1) w"

fun wire_msgs :: "int \<Rightarrow> wire_cell list \<Rightarrow> conflux_msg multiset" where
  "wire_msgs s [] = {#}"
| "wire_msgs s (Switch n # w) = wire_msgs (s + n) w"
| "wire_msgs s (Relay m # w) = add_mset \<lparr>seq = s + 1, msg = m\<rparr> (wire_msgs (s + 1) w)"

definition wire_ok :: "wire_cell list \<Rightarrow> bool" where
  "wire_ok w \<longleftrightarrow> (\<forall>n. Switch n \<in> set w \<longrightarrow> 0 \<le> n)"

lemma wire_ok_simps [simp]: "wire_ok []" "wire_ok (Switch n # w) \<longleftrightarrow> 0 \<le> n \<and> wire_ok w"
  "wire_ok (Relay m # w) \<longleftrightarrow> wire_ok w" "wire_ok (w @ w') \<longleftrightarrow> wire_ok w \<and> wire_ok w'"
  by (auto simp: wire_ok_def)

lemma wire_end_append [simp]: "wire_end s (w @ w') = wire_end (wire_end s w) w'"
  by (induction s w rule: wire_end.induct) auto

lemma wire_msgs_append [simp]: "wire_msgs s (w @ w') = wire_msgs s w + wire_msgs (wire_end s w) w'"
  by (induction s w rule: wire_msgs.induct) auto

lemma wire_end_ge: "wire_ok w \<Longrightarrow> s \<le> wire_end s w"
  by (induction s w rule: wire_end.induct) auto

section \<open>The messages still to deliver\<close>

definition expected :: "relay_msg list \<Rightarrow> nat \<Rightarrow> conflux_msg multiset" where
  "expected ms d = mset (map (\<lambda>k. \<lparr>seq = int k + 1, msg = ms ! k\<rparr>) [d..<length ms])"

lemma expected_step:
  "d < length ms \<Longrightarrow> expected ms d = add_mset \<lparr>seq = int d + 1, msg = ms ! d\<rparr> (expected ms (Suc d))"
  by (simp add: expected_def upt_conv_Cons)

lemma expected_snoc:
  assumes "d \<le> length ms"
  shows "expected (ms @ [m]) d = add_mset \<lparr>seq = int (length ms) + 1, msg = m\<rparr> (expected ms d)"
proof -
  have "map (\<lambda>k. \<lparr>seq = int k + 1, msg = (ms @ [m]) ! k\<rparr>) [d..<length ms]
      = map (\<lambda>k. \<lparr>seq = int k + 1, msg = ms ! k\<rparr>) [d..<length ms]"
    by (rule map_cong) (auto simp: nth_append)
  moreover have "[d..<length (ms @ [m])] = [d..<length ms] @ [length ms]" using assms by simp
  ultimately show ?thesis unfolding expected_def by (simp only: map_append mset_append) simp
qed

lemma in_expected:
  assumes "x \<in># expected ms d"
  obtains k where "d \<le> k" "k < length ms" "x = \<lparr>seq = int k + 1, msg = ms ! k\<rparr>"
  using assms unfolding expected_def by auto

lemma size_expected [simp]: "size (expected ms d) = length ms - d"
  by (simp add: expected_def)

lemma expected_done: "expected ms d = {#} \<longleftrightarrow> length ms \<le> d"
  using size_expected [of ms d] by (metis diff_is_0_eq size_eq_0_iff_empty)

section \<open>The receiver\<close>

definition queue_cost :: "int \<Rightarrow> conflux_msg multiset \<Rightarrow> int" where
  "queue_cost ov q = u64 (\<Sum>x\<in>#q. int (length (body (msg x))) + ov)"

lemma queue_cost_add: "u64 (queue_cost ov q + conflux_msg_alloc_cost ov x) = queue_cost ov (add_mset x q)"
  unfolding queue_cost_def conflux_msg_alloc_cost_def to_unsigned_def
  by (simp add: mod_add_eq algebra_simps)

lemma queue_cost_remove: "u64 (queue_cost ov (add_mset x q) - conflux_msg_alloc_cost ov x) = queue_cost ov q"
  unfolding queue_cost_def conflux_msg_alloc_cost_def to_unsigned_def
  by (simp add: mod_diff_eq)

text \<open>\<open>rest\<close> are the messages on the circuits, \<open>t\<close> the total of the queued bytes.\<close>

definition recv_inv :: "int \<Rightarrow> relay_msg list \<Rightarrow> conflux_msg multiset \<Rightarrow> conflux \<Rightarrow> int \<Rightarrow> bool" where
  "recv_inv ov ms rest cfx t \<longleftrightarrow> length ms \<le> 2147483647 \<and> heap_inv conflux_queue_cmp (ooo_q cfx)
    \<and> 0 \<le> last_seq_delivered cfx \<and> last_seq_delivered cfx \<le> int (length ms)
    \<and> heap_items (ooo_q cfx) + rest = expected ms (nat (last_seq_delivered cfx))
    \<and> ooo_q_alloc_cost cfx = queue_cost ov (heap_items (ooo_q cfx)) \<and> t = ooo_q_alloc_cost cfx"

definition drained :: "conflux \<Rightarrow> bool" where
  "drained cfx \<longleftrightarrow> (\<forall>x \<in># heap_items (ooo_q cfx). seq x \<noteq> last_seq_delivered cfx + 1)"

lemma in_rest:
  assumes "recv_inv ov ms rest cfx t" "x \<in># heap_items (ooo_q cfx) + rest"
  obtains k where "last_seq_delivered cfx \<le> int k" "k < length ms" "seq x = int k + 1" "msg x = ms ! k"
    "x = \<lparr>seq = int k + 1, msg = ms ! k\<rparr>"
proof -
  have "x \<in># expected ms (nat (last_seq_delivered cfx))" using assms unfolding recv_inv_def by metis
  then show thesis using that by (rule in_expected) auto
qed

lemma first_in_heap: "sl \<noteq> [] \<Longrightarrow> fst (sl ! 0) \<in># heap_items sl"
  by (cases sl) (auto simp: heap_items_def vals_def)

lemma dequeue_ok:
  assumes "recv_inv ov ms rest cfx t"
  shows "case conflux_dequeue_relay_msg ov cfx t of
      (None, cfx', t') \<Rightarrow> cfx' = cfx \<and> t' = t \<and> drained cfx
    | (Some x, cfx', t') \<Rightarrow> recv_inv ov ms rest cfx' t' \<and> legs cfx' = legs cfx
        \<and> last_seq_delivered cfx' = last_seq_delivered cfx + 1
        \<and> msg x = ms ! nat (last_seq_delivered cfx) \<and> nat (last_seq_delivered cfx) < length ms
        \<and> length (ooo_q cfx) = Suc (length (ooo_q cfx'))"
proof (cases "ooo_q cfx = []")
  case True
  then show ?thesis by (simp add: conflux_dequeue_relay_msg_def drained_def heap_items_def vals_def)
next
  case False
  let ?q = "ooo_q cfx" and ?D = "last_seq_delivered cfx"
  let ?x = "fst (?q ! 0)"
  note inv = assms [unfolded recv_inv_def]
  have D: "u64 (?D + 1) = ?D + 1" using inv by (intro u64_id) auto
  obtain y q' where pop: "smartlist_pqueue_pop conflux_queue_cmp ?q = Some ((y, - 1), q')"
    "heap_inv conflux_queue_cmp q'" "heap_items ?q = add_mset y (heap_items q')"
    "\<forall>z \<in># heap_items ?q. conflux_queue_cmp y z \<le> 0"
    using conflux_queue.pqueue_pop_ok [of ?q] inv False by blast
  have y: "y = ?x" using pop(1) False by (simp add: smartlist_pqueue_pop_def Let_def)
  have "?x \<in># heap_items ?q + rest" using first_in_heap [OF False] by simp
  then obtain k where k: "?D \<le> int k" "k < length ms" "seq ?x = int k + 1" "msg ?x = ms ! k"
    "?x = \<lparr>seq = int k + 1, msg = ms ! k\<rparr>"
    by (rule in_rest [OF assms])
  show ?thesis
  proof (cases "seq ?x = ?D + 1")
    case True
    then have Dk: "?D = int k" using k(3) by simp
    let ?cfx' = "cfx\<lparr>ooo_q := q', ooo_q_alloc_cost := queue_cost ov (heap_items q'), last_seq_delivered := ?D + 1\<rparr>"
    have cost: "u64 (ooo_q_alloc_cost cfx - conflux_msg_alloc_cost ov ?x) = queue_cost ov (heap_items q')"
      "u64 (t - conflux_msg_alloc_cost ov ?x) = queue_cost ov (heap_items q')"
      using inv pop(3) y queue_cost_remove by simp_all
    have eq: "conflux_dequeue_relay_msg ov cfx t = (Some ?x, ?cfx', queue_cost ov (heap_items q'))"
      using False True pop(1) by (simp add: conflux_dequeue_relay_msg_def Let_def D cost)
    have "add_mset ?x (heap_items q' + rest) = add_mset ?x (expected ms (Suc k))"
      using inv pop(3) y expected_step [OF k(2)] Dk k(5) by simp
    then have "heap_items q' + rest = expected ms (Suc k)" by simp
    then have "recv_inv ov ms rest ?cfx' (queue_cost ov (heap_items q'))"
      using inv pop(2) Dk k(2) by (simp add: recv_inv_def nat_add_distrib)
    moreover have "length ?q = Suc (length q')"
      using arg_cong [OF pop(3), of size] by (simp add: heap_items_def)
    ultimately show ?thesis using eq Dk k by simp
  next
    case ne: False
    have "seq z \<noteq> ?D + 1" if "z \<in># heap_items ?q" for z
      using pop(4) that y ne k(1,3) by (auto simp: conflux_queue_cmp_def split: if_splits)
    then have "drained cfx" by (simp add: drained_def)
    then show ?thesis using ne False by (simp add: conflux_dequeue_relay_msg_def Let_def D)
  qed
qed

definition delivered_upto :: "relay_msg list \<Rightarrow> conflux \<Rightarrow> relay_msg list" where
  "delivered_upto ms cfx = take (nat (last_seq_delivered cfx)) ms"

lemma delivered_step:
  assumes "recv_inv ov ms rest cfx t" "last_seq_delivered cfx' = last_seq_delivered cfx + 1"
    "nat (last_seq_delivered cfx) < length ms"
  shows "delivered_upto ms cfx @ [ms ! nat (last_seq_delivered cfx)] = delivered_upto ms cfx'"
proof -
  have "nat (last_seq_delivered cfx + 1) = Suc (nat (last_seq_delivered cfx))"
    using assms(1) unfolding recv_inv_def by linarith
  then show ?thesis using assms(2,3) by (simp add: delivered_upto_def take_Suc_conv_app_nth)
qed

lemma dequeue_loop_ok:
  "recv_inv ov ms rest cfx t \<Longrightarrow> length (ooo_q cfx) < n \<Longrightarrow>
    (case dequeue_loop n ov dlv cfx t of (out, err, cfx', t') \<Rightarrow>
       recv_inv ov ms rest cfx' t' \<and> legs cfx' = legs cfx
       \<and> delivered_upto ms cfx @ out = delivered_upto ms cfx' \<and> (err \<or> drained cfx'))"
proof (induction n arbitrary: cfx t)
  case (Suc n)
  obtain r cfx1 t1 where d: "conflux_dequeue_relay_msg ov cfx t = (r, cfx1, t1)" by (metis prod_cases3)
  show ?case
  proof (cases r)
    case None
    then show ?thesis using dequeue_ok [OF Suc.prems(1)] d Suc.prems(1) by simp
  next
    case (Some x)
    then have x: "recv_inv ov ms rest cfx1 t1" "legs cfx1 = legs cfx"
      "last_seq_delivered cfx1 = last_seq_delivered cfx + 1" "msg x = ms ! nat (last_seq_delivered cfx)"
      "nat (last_seq_delivered cfx) < length ms" "length (ooo_q cfx) = Suc (length (ooo_q cfx1))"
      using dequeue_ok [OF Suc.prems(1)] d by simp_all
    have del: "delivered_upto ms cfx @ [msg x] = delivered_upto ms cfx1"
      using delivered_step [OF Suc.prems(1) x(3,5)] x(4) by simp
    show ?thesis
    proof (cases "dlv (msg x) < 0")
      case True
      then show ?thesis using d Some x del by simp
    next
      case False
      have "length (ooo_q cfx1) < n" using Suc.prems(2) x(6) by simp
      moreover have "delivered_upto ms cfx1 @ out = delivered_upto ms cfx @ msg x # out" for out
        using del by (metis append.assoc append_Cons append_Nil)
      ultimately show ?thesis using Suc.IH [OF x(1)] d Some False x(2)
        by (auto split: prod.splits)
    qed
  qed
qed simp

lemma receive_msg_ok:
  assumes "recv_inv ov ms (add_mset \<lparr>seq = seq_recv cfx c + 1, msg = m\<rparr> rest) cfx t" "drained cfx"
    "c \<in> circuits cfx"
  shows "case process_multiplexed_msg ov mx dlv True c m cfx t of (out, err, reason, cfx', t') \<Rightarrow>
      circuits cfx' = circuits cfx \<and> seq_recv cfx' = (seq_recv cfx)(c := seq_recv cfx c + 1)
      \<and> delivered_upto ms cfx @ out = delivered_upto ms cfx'
      \<and> (err \<or> reason \<noteq> None \<or> recv_inv ov ms rest cfx' t' \<and> drained cfx')"
proof -
  obtain leg where leg: "conflux_get_leg cfx c = Some leg" using get_leg_Some [OF assms(3)] by blast
  let ?s = "last_seq_recv leg + 1" and ?D = "last_seq_delivered cfx"
  have s: "seq_recv cfx c + 1 = ?s" by (simp add: seq_recv_def leg)
  let ?x = "\<lparr>seq = ?s, msg = m\<rparr>"
  have inv: "recv_inv ov ms (add_mset ?x rest) cfx t" using assms(1) s by simp
  obtain k where k: "?D \<le> int k" "k < length ms" "?s = int k + 1" "m = ms ! k" "?x = \<lparr>seq = int k + 1, msg = ms ! k\<rparr>"
    by (rule in_rest [OF inv, of ?x]) auto
  note I = inv [unfolded recv_inv_def]
  have u: "u64 ?s = ?s" "u64 (?D + 1) = ?D + 1" using I k by (auto intro!: u64_id)
  let ?f = "\<lambda>l. l\<lparr>last_seq_recv := ?s\<rparr>"
  define cfx1 where "cfx1 = update_leg c ?f cfx"
  have f: "leg_circ (?f l) = leg_circ l" for l by simp
  have c1: "circuits cfx1 = circuits cfx" "seq_recv cfx1 = (seq_recv cfx)(c := seq_recv cfx c + 1)"
    "ooo_q cfx1 = ooo_q cfx" "last_seq_delivered cfx1 = ?D" "ooo_q_alloc_cost cfx1 = ooo_q_alloc_cost cfx"
    using s by (auto simp: cfx1_def circuits_update [of ?f, OF f] seq_update [of ?f, OF f] leg fun_eq_iff)
  show ?thesis
  proof (cases "?s = ?D + 1")
    case True
    let ?cfx = "cfx1\<lparr>last_seq_delivered := ?D + 1\<rparr>"
    have Dk: "?D = int k" using True k(3) by simp
    have "add_mset ?x (heap_items (ooo_q cfx) + rest) = add_mset ?x (expected ms (Suc k))"
      using I expected_step [OF k(2)] Dk k(5) by simp
    then have "recv_inv ov ms rest ?cfx t"
      using I Dk k(2) c1 by (simp add: recv_inv_def nat_add_distrib)
    note loop = dequeue_loop_ok [OF this lessI, of dlv]
    have del: "delivered_upto ms cfx @ [m] = delivered_upto ms ?cfx"
      using delivered_step [OF inv, of ?cfx] Dk k(2,4) by simp
    have "conflux_process_relay_msg ov mx True c m cfx t = (True, None, ?cfx, t)"
      using leg u True by (simp add: conflux_process_relay_msg_def Let_def cfx1_def)
    moreover obtain out err cfx2 t2 where l: "dequeue_loop (Suc (length (ooo_q ?cfx))) ov dlv ?cfx t = (out, err, cfx2, t2)"
      by (metis prod_cases4)
    moreover have l2: "recv_inv ov ms rest cfx2 t2" "legs cfx2 = legs ?cfx"
      "delivered_upto ms ?cfx @ out = delivered_upto ms cfx2" "err \<or> drained cfx2"
      using loop l by simp_all
    moreover have "delivered_upto ms cfx @ m # out = delivered_upto ms cfx2"
      using del l2(3) by (metis append.assoc append_Cons append_Nil)
    moreover have "circuits cfx2 = circuits cfx" "seq_recv cfx2 = (seq_recv cfx)(c := seq_recv cfx c + 1)"
      using legs_cong [OF l2(2)] c1(1,2) by simp_all
    ultimately show ?thesis using del c1(1,2) by (simp add: process_multiplexed_msg_def del: dequeue_loop.simps)
  next
    case False
    let ?q = "smartlist_pqueue_add conflux_queue_cmp (ooo_q cfx) (?x, 0)"
    let ?cost = "conflux_msg_alloc_cost ov ?x"
    let ?cfx = "cfx1\<lparr>ooo_q := ?q, ooo_q_alloc_cost := queue_cost ov (heap_items ?q)\<rparr>"
    have gt: "?D + 1 < ?s" using False k by simp
    have items: "heap_items (ooo_q cfx) + add_mset ?x rest = expected ms (nat ?D)" using I by blast
    have "length (ooo_q cfx) < 2147483647"
    proof -
      have "Suc (length (ooo_q cfx) + size rest) = length ms - nat ?D"
        using arg_cong [OF items, of size] by (simp add: heap_items_def)
      moreover have "length ms \<le> 2147483647" using I by blast
      ultimately show ?thesis by linarith
    qed
    then have add: "heap_inv conflux_queue_cmp ?q" "heap_items ?q = add_mset ?x (heap_items (ooo_q cfx))"
      using conflux_queue.pqueue_add_ok [of "ooo_q cfx" "(?x, 0)"] I by auto
    have cost: "u64 (ooo_q_alloc_cost cfx + ?cost) = queue_cost ov (heap_items ?q)" "t = ooo_q_alloc_cost cfx"
      using I add(2) queue_cost_add by simp_all
    have "recv_inv ov ms rest ?cfx (queue_cost ov (heap_items ?q))"
      using I add c1(4) by (simp add: recv_inv_def)
    moreover have "drained ?cfx" using assms(2) add(2) gt c1 by (auto simp: drained_def)
    moreover have "conflux_process_relay_msg ov mx True c m cfx t =
      (if ooo_q_alloc_cost cfx \<ge> mx then (False, Some END_CIRC_REASON_RESOURCELIMIT, cfx1, t)
       else (False, None, ?cfx, queue_cost ov (heap_items ?q)))"
      using leg u gt cost c1 by (simp add: conflux_process_relay_msg_def Let_def cfx1_def [symmetric])
    ultimately show ?thesis using c1(1,2,4) by (simp add: process_multiplexed_msg_def delivered_upto_def)
  qed
qed

section \<open>The invariant of the system\<close>

definition on_wires :: "cfx_system \<Rightarrow> conflux_msg multiset" where
  "on_wires s = (\<Sum>c\<in>circuits (sender s). wire_msgs (seq_recv (receiver s) c) (wires s c))"

definition open_inv :: "cfx_config \<Rightarrow> cfx_system \<Rightarrow> bool" where
  "open_inv cfg s \<longleftrightarrow> sender_ok (sender s) (int (length (sent s))) \<and> \<not> in_full_teardown (sender s)
    \<and> circuits (receiver s) = circuits (sender s)
    \<and> (\<forall>c. 0 \<le> seq_recv (receiver s) c \<and> wire_ok (wires s c) \<and> wire_end (seq_recv (receiver s) c) (wires s c) = seq_sent (sender s) c)
    \<and> (\<forall>c. c \<notin> circuits (sender s) \<longrightarrow> wires s c = [])
    \<and> recv_inv (overhead cfg) (sent s) (on_wires s) (receiver s) (queued_bytes s) \<and> drained (receiver s)
    \<and> delivered s = delivered_upto (sent s) (receiver s)"

definition sys_inv :: "cfx_config \<Rightarrow> cfx_system \<Rightarrow> bool" where
  "sys_inv cfg s \<longleftrightarrow> prefix (delivered s) (sent s) \<and> (closed s \<or> open_inv cfg s)"

lemma finite_circuits [simp]: "finite (circuits cfx)" by (simp add: circuits_def)

lemma open_inv_prefix: "open_inv cfg s \<Longrightarrow> prefix (delivered s) (sent s)"
  by (simp add: open_inv_def delivered_upto_def take_is_prefix)

lemma on_wires_snoc:
  assumes "c \<in> circuits (sender s)" "circuits (sender s') = circuits (sender s)" "receiver s' = receiver s"
    "wires s' = (wires s)(c := wires s c @ w)"
  shows "on_wires s' = on_wires s + wire_msgs (wire_end (seq_recv (receiver s) c) (wires s c)) w"
proof -
  let ?C = "circuits (sender s)" and ?f = "\<lambda>s d. wire_msgs (seq_recv (receiver s) d) (wires s d)"
  have "(\<Sum>d\<in>?C - {c}. ?f s' d) = (\<Sum>d\<in>?C - {c}. ?f s d)" by (rule sum.cong) (auto simp: assms)
  then show ?thesis using assms by (simp add: on_wires_def sum.remove [of ?C c] add.commute add.left_commute)
qed

lemma recv_inv_send:
  assumes "recv_inv ov ms rest cfx t" "length ms < 2147483647"
  shows "recv_inv ov (ms @ [m]) (add_mset \<lparr>seq = int (length ms) + 1, msg = m\<rparr> rest) cfx t"
    "delivered_upto (ms @ [m]) cfx = delivered_upto ms cfx"
proof -
  have d: "nat (last_seq_delivered cfx) \<le> length ms" using assms(1) unfolding recv_inv_def by linarith
  then show "delivered_upto (ms @ [m]) cfx = delivered_upto ms cfx" by (simp add: delivered_upto_def)
  show "recv_inv ov (ms @ [m]) (add_mset \<lparr>seq = int (length ms) + 1, msg = m\<rparr> rest) cfx t"
    using assms expected_snoc [OF d, of m] unfolding recv_inv_def by auto
qed

text \<open>Putting a SWITCH cell on a circuit, and a message after it.\<close>

lemma wire_switch_ok:
  assumes "open_inv cfg s" "decision_ok (sender s) (int (length (sent s))) d" "\<not> close_all d" "send_circ d = Some c"
  defines "w \<equiv> case switch_sent d of None \<Rightarrow> [] | Some n \<Rightarrow> [Switch n]"
  shows "wire_ok w" "wire_end (seq_sent (sender s) c) w = int (length (sent s))"
    "wire_msgs (seq_sent (sender s) c) w = {#}"
  using assms by (auto simp: decision_ok_def open_inv_def sender_ok_def split: option.split)

lemma send_switch_inv:
  assumes "open_inv cfg s" "decision_ok (sender s) (int (length (sent s))) d" "\<not> close_all d" "send_circ d = Some c"
  defines "w \<equiv> case switch_sent d of None \<Rightarrow> [] | Some n \<Rightarrow> [Switch n]"
  shows "open_inv cfg (s\<lparr>sender := decided_cfx d, wires := (wires s)(c := wires s c @ w)\<rparr>)"
proof -
  let ?s = "s\<lparr>sender := decided_cfx d, wires := (wires s)(c := wires s c @ w)\<rparr>"
  note inv = assms(1) [unfolded open_inv_def]
  have d: "circuits (decided_cfx d) = circuits (sender s)" "\<not> in_full_teardown (decided_cfx d)"
    "sender_ok (decided_cfx d) (int (length (sent s)))" "c \<in> circuits (sender s)"
    "seq_sent (decided_cfx d) = (seq_sent (sender s))(c := int (length (sent s)))"
    using assms(2-4) by (auto simp: decision_ok_def)
  note w = wire_switch_ok [OF assms(1-4), folded w_def]
  have "on_wires ?s = on_wires s"
    using on_wires_snoc [of c s ?s w] d inv w by simp
  then show ?thesis using inv d w by (auto simp: open_inv_def)
qed

lemma note_sent_ok:
  assumes "sender_ok cfx N" "curr_leg cfx = Some c" "conflux_should_multiplex cmd" "N < 2147483647" "\<not> in_full_teardown cfx"
  shows "sender_ok (conflux_note_cell_sent cfx c cmd) (N + 1)"
    "circuits (conflux_note_cell_sent cfx c cmd) = circuits cfx"
    "seq_sent (conflux_note_cell_sent cfx c cmd) = (seq_sent cfx)(c := N + 1)"
    "\<not> in_full_teardown (conflux_note_cell_sent cfx c cmd)"
proof -
  let ?f = "\<lambda>l. l\<lparr>last_seq_sent := u64 (last_seq_sent l + 1)\<rparr>"
  have f: "leg_circ (?f l) = leg_circ l" for l by simp
  have c: "c \<in> circuits cfx" "seq_sent cfx c = N" using assms(1,2) by (auto simp: sender_ok_def)
  then obtain l where l: "conflux_get_leg cfx c = Some l" "last_seq_sent l = N"
    using get_leg_Some [of c cfx] by (auto simp: seq_sent_def)
  have N: "0 \<le> N" using assms(1) c(2) by (auto simp: sender_ok_def)
  let ?cfx = "update_leg c ?f cfx"
  have eq: "conflux_note_cell_sent cfx c cmd = ?cfx \<or>
      (\<exists>n. conflux_note_cell_sent cfx c cmd = ?cfx\<lparr>cells_until_switch := n\<rparr>)"
    using assms(3) l by (auto simp: conflux_note_cell_sent_def Let_def)
  have "u64 (N + 1) = N + 1" using N assms(4) by (intro u64_id) auto
  then have seq: "seq_sent ?cfx = (seq_sent cfx)(c := N + 1)"
    by (simp add: seq_update [of ?f, OF f] l fun_eq_iff)
  show seq': "seq_sent (conflux_note_cell_sent cfx c cmd) = (seq_sent cfx)(c := N + 1)"
    using eq seq by auto
  show circ: "circuits (conflux_note_cell_sent cfx c cmd) = circuits cfx"
    using eq circuits_update [of ?f, OF f] by auto
  have legs: "legs (conflux_note_cell_sent cfx c cmd) \<noteq> []" "curr_leg (conflux_note_cell_sent cfx c cmd) = Some c"
    "in_full_teardown (conflux_note_cell_sent cfx c cmd) = in_full_teardown cfx"
    using eq assms(1,2) by (auto simp: update_leg_def sender_ok_def)
  have "0 \<le> seq_sent cfx d \<and> seq_sent cfx d \<le> N" for d using assms(1) by (simp add: sender_ok_def)
  then show "sender_ok (conflux_note_cell_sent cfx c cmd) (N + 1)"
    using N c(1) legs unfolding sender_ok_def seq' circ by (simp add: add_increasing2 order_trans [OF _ zle_add1_eq_le [THEN iffD1]])
  show "\<not> in_full_teardown (conflux_note_cell_sent cfx c cmd)" using legs(3) assms(5) by simp
qed

lemma send_msg_inv:
  assumes "open_inv cfg s" "curr_leg (sender s) = Some c" "conflux_should_multiplex (command m)"
    "length (sent s) < 2147483647"
  shows "open_inv cfg (s\<lparr>sender := conflux_note_cell_sent (sender s) c (command m),
    wires := (wires s)(c := wires s c @ [Relay m]), sent := sent s @ [m]\<rparr>)"
proof -
  let ?s = "s\<lparr>sender := conflux_note_cell_sent (sender s) c (command m),
    wires := (wires s)(c := wires s c @ [Relay m]), sent := sent s @ [m]\<rparr>"
  note inv = assms(1) [unfolded open_inv_def]
  have c: "c \<in> circuits (sender s)" "seq_sent (sender s) c = int (length (sent s))"
    using inv assms(2) by (auto simp: sender_ok_def)
  have "int (length (sent s)) < 2147483647" using assms(4) by simp
  note n = note_sent_ok [of "sender s" "int (length (sent s))" c "command m", OF _ assms(2,3) this]
  have "on_wires ?s = add_mset \<lparr>seq = int (length (sent s)) + 1, msg = m\<rparr> (on_wires s)"
    using on_wires_snoc [of c s ?s "[Relay m]"] c n inv by simp
  moreover note recv_inv_send [of "overhead cfg" "sent s" "on_wires s" "receiver s" "queued_bytes s" m]
  ultimately show ?thesis using inv n c assms(4) by (simp add: open_inv_def add.commute [of 1])
qed

lemma sys_send_inv:
  assumes "sys_inv cfg s" "length (sent s) < 2147483647"
  obtains s' where "sys_send circs p ok packaged m s = Some s'" "sys_inv cfg s'"
    "length (sent s') \<le> Suc (length (sent s))"
proof (cases "closed s \<or> \<not> conflux_should_multiplex (command m)")
  case True
  then show thesis using that [of s] assms by (simp add: sys_send_def)
next
  case False
  then have op: "open_inv cfg s" using assms(1) by (simp add: sys_inv_def)
  note inv = op [unfolded open_inv_def]
  obtain d where d: "conflux_decide_circ_for_send circs p ok (sender s) 0 (command m) = Some d"
    "decision_ok (sender s) (int (length (sent s))) d"
    using decide_for_send_ok [of "sender s" "int (length (sent s))" "command m" circs p ok 0] inv False by blast
  note step = sys_send_def [of circs p ok packaged m s] False d(1)
  show thesis
  proof (cases "close_all d")
    case True
    then show thesis using that [of "s\<lparr>sender := decided_cfx d, closed := True\<rparr>"] assms(1) step
      by (simp add: sys_inv_def)
  next
    case opn: False
    show thesis
    proof (cases "send_circ d")
      case None
      have "open_inv cfg (s\<lparr>sender := decided_cfx d\<rparr>)"
        using inv d(2) opn None by (auto simp: open_inv_def decision_ok_def on_wires_def)
      then show thesis using that [of "s\<lparr>sender := decided_cfx d\<rparr>"] step opn None assms(1)
        by (simp add: sys_inv_def)
    next
      case (Some c)
      define w where "w = (case switch_sent d of None \<Rightarrow> [] | Some n \<Rightarrow> [Switch n])"
      let ?s = "s\<lparr>sender := decided_cfx d, wires := (wires s)(c := wires s c @ w)\<rparr>"
      have sw: "open_inv cfg ?s" unfolding w_def by (rule send_switch_inv [OF op d(2) opn Some])
      show thesis
      proof (cases packaged)
        case True
        let ?s' = "?s\<lparr>sender := conflux_note_cell_sent (sender ?s) c (command m),
          wires := (wires ?s)(c := wires ?s c @ [Relay m]), sent := sent ?s @ [m]\<rparr>"
        have cl: "curr_leg (sender ?s) = Some c" using d(2) opn Some by (simp add: decision_ok_def)
        have "open_inv cfg ?s'"
          by (rule send_msg_inv [OF sw cl]) (use False assms(2) in simp_all)
        moreover have "sys_send circs p ok packaged m s = Some ?s'"
          using step opn Some True by (simp add: w_def)
        ultimately show thesis using that [of ?s'] open_inv_prefix [of cfg ?s'] by (simp add: sys_inv_def)
      next
        case False
        then show thesis using that [of ?s] step opn Some sw open_inv_prefix [OF sw]
          by (simp add: w_def sys_inv_def)
      qed
    qed
  qed
qed

lemma on_wires_tail:
  assumes "c \<in> circuits (sender s)" "sender s' = sender s" "wires s' = (wires s)(c := w)"
    "\<And>d. d \<noteq> c \<Longrightarrow> seq_recv (receiver s') d = seq_recv (receiver s) d"
    "wire_msgs (seq_recv (receiver s) c) (wires s c) = x + wire_msgs (seq_recv (receiver s') c) w"
  shows "on_wires s = x + on_wires s'"
proof -
  let ?C = "circuits (sender s)" and ?f = "\<lambda>s d. wire_msgs (seq_recv (receiver s) d) (wires s d)"
  have "(\<Sum>d\<in>?C - {c}. ?f s' d) = (\<Sum>d\<in>?C - {c}. ?f s d)" by (rule sum.cong) (auto simp: assms)
  then show ?thesis using assms by (simp add: on_wires_def sum.remove [of ?C c] add.assoc)
qed

lemma switch_received:
  assumes "open_inv cfg s" "wires s c = Switch n # w"
  shows "\<exists>cfx. conflux_process_switch_command True True c (Some n) (receiver s) = (None, cfx)
    \<and> open_inv cfg (s\<lparr>receiver := cfx, wires := (wires s)(c := w), closed := False\<rparr>)"
proof -
  note inv = assms(1) [unfolded open_inv_def]
  have c: "c \<in> circuits (sender s)" using inv assms(2) by (metis list.distinct(1))
  then obtain leg where leg: "conflux_get_leg (receiver s) c = Some leg"
    using get_leg_Some [of c "receiver s"] inv by auto
  then have leg_recv: "seq_recv (receiver s) c = last_seq_recv leg" by (simp add: seq_recv_def)
  let ?f = "\<lambda>l. l\<lparr>last_seq_recv := u64 (last_seq_recv l + n)\<rparr>"
  have f: "leg_circ (?f l) = leg_circ l" for l by simp
  let ?cfx = "update_leg c ?f (receiver s)"
  let ?s = "s\<lparr>receiver := ?cfx, wires := (wires s)(c := w), closed := False\<rparr>"
  have w: "0 \<le> n" "wire_ok w" "wire_end (seq_recv (receiver s) c + n) w = seq_sent (sender s) c"
    using inv assms(2) by (metis wire_ok_simps(2), metis wire_ok_simps(2), metis wire_end.simps(2))
  have len: "length (sent s) \<le> 2147483647" using inv by (simp add: recv_inv_def)
  have "seq_recv (receiver s) c + n \<le> seq_sent (sender s) c" using wire_end_ge [OF w(2)] w(3) by metis
  moreover have "seq_sent (sender s) c \<le> int (length (sent s))" using inv by (simp add: sender_ok_def)
  moreover have "0 \<le> seq_recv (receiver s) c" using inv by blast
  ultimately have u: "u64 (seq_recv (receiver s) c + n) = seq_recv (receiver s) c + n"
    using w(1) len by (intro u64_id) auto
  then have seq: "seq_recv ?cfx = (seq_recv (receiver s))(c := seq_recv (receiver s) c + n)"
    using leg_recv by (simp add: fun_eq_iff seq_update [of ?f, OF f] leg)
  have circ: "circuits ?cfx = circuits (receiver s)" by (rule circuits_update) simp
  have "on_wires s = {#} + on_wires ?s"
    by (rule on_wires_tail [OF c]) (simp_all add: seq assms(2))
  then have "open_inv cfg ?s"
    using inv w c by (auto simp: open_inv_def seq circ recv_inv_def drained_def delivered_upto_def)
  moreover have "conflux_process_switch_command True True c (Some n) (receiver s) = (None, ?cfx)"
    by (simp add: conflux_process_switch_command_def leg)
  ultimately show ?thesis by blast
qed

lemma relay_received:
  assumes "open_inv cfg s" "wires s c = Relay m # w"
  shows "sys_inv cfg (sys_receive cfg c s)"
proof (cases "closed s")
  case True
  then show ?thesis using assms(1) by (simp add: sys_receive_def sys_inv_def open_inv_prefix)
next
  case opn: False
  note inv = assms(1) [unfolded open_inv_def]
  have c: "c \<in> circuits (sender s)" using inv assms(2) by (metis list.distinct(1))
  obtain out err reason cfx t where r: "process_multiplexed_msg (overhead cfg) (max_oooq cfg) (deliver cfg) True c m
      (receiver s) (queued_bytes s) = (out, err, reason, cfx, t)"
    by (metis prod_cases5)
  define s' where "s' = s\<lparr>receiver := cfx, wires := (wires s)(c := w), delivered := delivered s @ out,
    queued_bytes := t, closed := (err \<or> reason \<noteq> None)\<rparr>"
  have s: "sys_receive cfg c s = s'" using opn assms(2) r by (simp add: sys_receive_def s'_def)
  have sel: "sender s' = sender s" "receiver s' = cfx" "wires s' = (wires s)(c := w)" "sent s' = sent s"
    "delivered s' = delivered s @ out" "queued_bytes s' = t" "closed s' \<longleftrightarrow> err \<or> reason \<noteq> None"
    by (simp_all add: s'_def)
  define rest where "rest = on_wires (s\<lparr>receiver := (receiver s)\<rparr>) - {#\<lparr>seq = seq_recv (receiver s) c + 1, msg = m\<rparr>#}"
  have "on_wires s = wire_msgs (seq_recv (receiver s) c) (wires s c) +
      (\<Sum>d\<in>circuits (sender s) - {c}. wire_msgs (seq_recv (receiver s) d) (wires s d))"
    using c by (simp add: on_wires_def sum.remove [of _ c])
  then have ow: "on_wires s = add_mset \<lparr>seq = seq_recv (receiver s) c + 1, msg = m\<rparr> rest"
    by (simp add: rest_def assms(2))
  have del: "delivered s = delivered_upto (sent s) (receiver s)" using inv by blast
  have res: "circuits cfx = circuits (receiver s)"
    "seq_recv cfx = (seq_recv (receiver s))(c := seq_recv (receiver s) c + 1)"
    "delivered s @ out = delivered_upto (sent s) cfx"
    "err \<or> reason \<noteq> None \<or> recv_inv (overhead cfg) (sent s) rest cfx t \<and> drained cfx"
    using receive_msg_ok [of "overhead cfg" "sent s" "receiver s" c m rest "queued_bytes s" "max_oooq cfg" "deliver cfg"]
      inv ow c r del by auto
  have "on_wires s = {#\<lparr>seq = seq_recv (receiver s) c + 1, msg = m\<rparr>#} + on_wires s'"
    by (rule on_wires_tail [OF c]) (simp_all add: res(2) assms(2) sel)
  then have rest: "on_wires s' = rest" using ow by simp
  have w: "wire_ok w" "wire_end (seq_recv (receiver s) c + 1) w = seq_sent (sender s) c"
    using inv assms(2) by (metis wire_ok_simps(3), metis wire_end.simps(3))
  have pre: "prefix (delivered s') (sent s')" using res(3) by (simp add: delivered_upto_def take_is_prefix sel)
  show ?thesis
  proof (cases "err \<or> reason \<noteq> None")
    case True
    then show ?thesis using s pre sel by (simp add: sys_inv_def)
  next
    case False
    then have "recv_inv (overhead cfg) (sent s) (on_wires s') cfx t" "drained cfx" using res(4) rest by auto
    then have "open_inv cfg s'" using inv res(1-3) w c by (auto simp: open_inv_def sel)
    then show ?thesis using s pre sel by (simp add: sys_inv_def)
  qed
qed

lemma sys_receive_inv:
  assumes "sys_inv cfg s"
  shows "sys_inv cfg (sys_receive cfg c s)" "sent (sys_receive cfg c s) = sent s"
proof -
  show "sent (sys_receive cfg c s) = sent s"
    by (auto simp: sys_receive_def split: list.split wire_cell.split prod.split)
  show "sys_inv cfg (sys_receive cfg c s)"
  proof (cases "closed s \<or> wires s c = []")
    case True
    then show ?thesis using assms by (auto simp: sys_receive_def)
  next
    case False
    then have op: "open_inv cfg s" using assms by (simp add: sys_inv_def)
    obtain x w where w: "wires s c = x # w" using False by (cases "wires s c") auto
    show ?thesis
    proof (cases x)
      case (Switch n)
      then obtain cfx where "conflux_process_switch_command True True c (Some n) (receiver s) = (None, cfx)"
        "open_inv cfg (s\<lparr>receiver := cfx, wires := (wires s)(c := w), closed := False\<rparr>)"
        using switch_received [OF op] w by blast
      moreover from this have "sys_receive cfg c s = s\<lparr>receiver := cfx, wires := (wires s)(c := w), closed := False\<rparr>"
        using False w Switch by (simp add: sys_receive_def)
      ultimately show ?thesis using open_inv_prefix by (metis sys_inv_def)
    qed (use relay_received [OF op] w in simp)
  qed
qed

lemma new_rtt_inv:
  assumes "sys_inv cfg s"
  shows "sys_inv cfg (s\<lparr>sender := conflux_update_rtt c rtt (sender s)\<rparr>)"
proof -
  let ?f = "\<lambda>l. l\<lparr>circ_rtts_usec := rtt\<rparr>"
  have f: "leg_circ (?f l) = leg_circ l" for l by simp
  let ?cfx = "conflux_update_rtt c rtt (sender s)"
  have "seq_sent ?cfx = seq_sent (sender s)"
    by (cases "conflux_get_leg (sender s) c")
      (auto simp: conflux_update_rtt_def seq_update [of ?f, OF f] fun_eq_iff seq_sent_def [of "sender s" c])
  moreover have "circuits ?cfx = circuits (sender s)"
    by (simp add: conflux_update_rtt_def circuits_update [of ?f, OF f])
  moreover have "legs ?cfx = [] \<longleftrightarrow> legs (sender s) = []" "curr_leg ?cfx = curr_leg (sender s)"
    "in_full_teardown ?cfx = in_full_teardown (sender s)"
    by (simp_all add: conflux_update_rtt_def update_leg_def)
  ultimately show ?thesis using assms
    by (simp add: sys_inv_def open_inv_def sender_ok_def on_wires_def cong: option.case_cong)
qed

lemma sys_run_inv:
  "sys_inv cfg s \<Longrightarrow> length (sent s) + length es \<le> 2147483647 \<Longrightarrow>
    \<exists>s'. sys_run cfg es s = Some s' \<and> sys_inv cfg s'"
proof (induction es arbitrary: s)
  case (Cons e es)
  have "\<exists>s1. sys_step cfg e s = Some s1 \<and> sys_inv cfg s1 \<and> length (sent s1) \<le> Suc (length (sent s))"
  proof (cases e)
    case (Send circs p ok packaged m)
    have "length (sent s) < 2147483647" using Cons.prems(2) by simp
    then show ?thesis using sys_send_inv [OF Cons.prems(1)] Send by (metis sys_step.simps(1))
  qed (use sys_receive_inv [OF Cons.prems(1)] new_rtt_inv [OF Cons.prems(1)] in simp_all)
  then obtain s1 where "sys_step cfg e s = Some s1" "sys_inv cfg s1" "length (sent s1) \<le> Suc (length (sent s))"
    by blast
  then show ?case using Cons.IH [of s1] Cons.prems(2) by simp
qed simp

lemma init_leg: "conflux_get_leg (cfx_init a cs) c = Some l \<Longrightarrow> last_seq_sent l = 0 \<and> last_seq_recv l = 0"
  unfolding conflux_get_leg_def cfx_init_def find_Some_iff by auto

lemma sys_init_inv:
  assumes "cs \<noteq> []"
  shows "sys_inv cfg (sys_init a cs)"
proof -
  have seqs: "seq_sent (cfx_init a cs) = (\<lambda>_. 0)" "seq_recv (cfx_init a cs) = (\<lambda>_. 0)"
    unfolding seq_sent_def seq_recv_def fun_eq_iff by (auto split: option.split dest: init_leg)
  have "sender_ok (cfx_init a cs) 0" using assms seqs by (simp add: sender_ok_def cfx_init_def)
  moreover have "recv_inv (overhead cfg) [] (on_wires (sys_init a cs)) (cfx_init a cs) 0"
    by (simp add: recv_inv_def cfx_init_def heap_inv_def heap_def idx_ok_def heap_items_def vals_def expected_def
      queue_cost_def on_wires_def sys_init_def to_unsigned_def)
  ultimately show ?thesis
    by (simp add: sys_inv_def open_inv_def sys_init_def seqs drained_def delivered_upto_def)
      (simp add: cfx_init_def heap_items_def vals_def)
qed

lemma nothing_left:
  assumes "open_inv cfg s" "\<forall>c\<in>circuits (sender s). wires s c = []"
  shows "delivered s = sent s"
proof -
  note inv = assms(1) [unfolded open_inv_def recv_inv_def]
  let ?D = "nat (last_seq_delivered (receiver s))"
  have items: "heap_items (ooo_q (receiver s)) = expected (sent s) ?D"
    using inv assms(2) by (simp add: on_wires_def)
  have D: "0 \<le> last_seq_delivered (receiver s)" "?D \<le> length (sent s)" using inv by linarith+
  have "\<not> ?D < length (sent s)"
  proof
    assume "?D < length (sent s)"
    then have "\<lparr>seq = int ?D + 1, msg = sent s ! ?D\<rparr> \<in># heap_items (ooo_q (receiver s))"
      by (simp add: items expected_step)
    moreover have "drained (receiver s)" using inv by blast
    ultimately show False using D(1) by (auto simp: drained_def)
  qed
  then show ?thesis using inv by (simp add: delivered_upto_def)
qed

section \<open>The promises\<close>

text \<open>C3: Whatever is sent, whichever legs are chosen and however the circuits interleave, no assertion
  of the conflux code fails, the messages handed to the streams are a prefix of the messages sent,
  in the same order, and when the set is open and nothing is left on the circuits they are all of
  them. The bound on the number of events keeps the queue below the capacity of a smart list.\<close>

theorem conflux_delivers_in_order:
  assumes "cs \<noteq> []" "length es \<le> 2147483647"
  shows "\<exists>s. sys_run cfg es (sys_init a cs) = Some s \<and> prefix (delivered s) (sent s)
    \<and> (\<not> closed s \<and> (\<forall>c. wires s c = []) \<longrightarrow> delivered s = sent s)"
proof -
  obtain s where "sys_run cfg es (sys_init a cs) = Some s" "sys_inv cfg s"
    using sys_run_inv [OF sys_init_inv [OF assms(1), of cfg a], of es] assms(2)
    by (auto simp: sys_init_def)
  then show ?thesis using nothing_left [of cfg s] by (auto simp: sys_inv_def)
qed

text \<open>Two circuits: the second leg becomes faster after two messages, so the sender switches, and the
  third and fourth message overtake the first two.\<close>

definition sample_cfg :: cfx_config where
  "sample_cfg = \<lparr>overhead = 100, max_oooq = 5000, deliver = (\<lambda>_. 0)\<rparr>"

definition sample_msg :: "int \<Rightarrow> relay_msg" where
  "sample_msg n = \<lparr>command = 2, stream_id = n, body = ''x''\<rparr>"

definition sample_circ :: "nat \<Rightarrow> circ_info" where
  "sample_circ c = \<lparr>is_origin = True, inflight = 0, cwnd = 100, sendme_inc = 31, in_slow_start = False,
     circuit_blocked_on_n_chan = False, circuit_blocked_on_p_chan = False\<rparr>"

definition sample_events :: "cfx_event list" where
  "sample_events = [NewRtt 0 50, NewRtt 1 80] @ map (\<lambda>n. Send sample_circ 0 True True (sample_msg n)) [1, 2]
    @ [NewRtt 1 20] @ map (\<lambda>n. Send sample_circ 0 True True (sample_msg n)) [3, 4]
    @ map Receive [1, 1, 1, 0, 0]"

theorem conflux_delivers_in_order_witness:
  "\<exists>s. sys_run sample_cfg sample_events (sys_init CONFLUX_ALG_LOWRTT [0, 1]) = Some s
    \<and> map stream_id (delivered s) = [1, 2, 3, 4]"
proof -
  obtain s where s: "sys_run sample_cfg sample_events (sys_init CONFLUX_ALG_LOWRTT [0, 1]) = Some s"
    "prefix (delivered s) (sent s)"
    using conflux_delivers_in_order [of "[0, 1]" sample_events sample_cfg CONFLUX_ALG_LOWRTT]
    by (auto simp: sample_events_def)
  have "map_option (\<lambda>s. (map stream_id (sent s), length (delivered s)))
      (sys_run sample_cfg sample_events (sys_init CONFLUX_ALG_LOWRTT [0, 1])) = Some ([1, 2, 3, 4], 4)"
    by code_simp
  then have "map stream_id (sent s) = [1, 2, 3, 4]" "length (delivered s) = 4" using s(1) by auto
  moreover from this(1) have "length (sent s) = 4" using length_map [of stream_id "sent s"] by simp
  ultimately have "delivered s = sent s" using s(2) by (auto simp: prefix_def)
  with s(1) \<open>map stream_id (sent s) = _\<close> show ?thesis by simp
qed

text \<open>C21: While the set is open the out-of-order queue is a heap, its accounted cost and the total of the
  queued bytes are the cost of the messages it holds, modulo the width of the counters, and it holds
  only messages that were sent and not yet delivered, never the one whose turn it is.\<close>

theorem conflux_queue_accounted:
  assumes "cs \<noteq> []" "length es \<le> 2147483647" "sys_run cfg es (sys_init a cs) = Some s" "\<not> closed s"
  shows "smartlist_pqueue_assert_ok conflux_queue_cmp (ooo_q (receiver s))
    \<and> ooo_q_alloc_cost (receiver s) = u64 (\<Sum>e\<leftarrow>ooo_q (receiver s). int (length (body (msg (fst e)))) + overhead cfg)
    \<and> queued_bytes s = ooo_q_alloc_cost (receiver s)
    \<and> last_seq_delivered (receiver s) = int (length (delivered s))
    \<and> (\<forall>e \<in> set (ooo_q (receiver s)). int (length (delivered s)) + 1 < seq (fst e)
         \<and> seq (fst e) \<le> int (length (sent s)) \<and> msg (fst e) = sent s ! nat (seq (fst e) - 1))"
proof -
  have "open_inv cfg s"
    using sys_run_inv [OF sys_init_inv [OF assms(1), of cfg a], of es] assms(2-4)
    by (auto simp: sys_init_def sys_inv_def)
  note inv = this [unfolded open_inv_def]
  have r: "recv_inv (overhead cfg) (sent s) (on_wires s) (receiver s) (queued_bytes s)" using inv by blast
  note R = r [unfolded recv_inv_def]
  let ?D = "last_seq_delivered (receiver s)"
  have "nat ?D \<le> length (sent s)" "0 \<le> ?D" using R by linarith+
  then have D: "?D = int (length (delivered s))" using inv by (simp add: delivered_upto_def)
  have "int (length (delivered s)) + 1 < seq (fst e) \<and> seq (fst e) \<le> int (length (sent s))
      \<and> msg (fst e) = sent s ! nat (seq (fst e) - 1)" if e: "e \<in> set (ooo_q (receiver s))" for e
  proof -
    have mem: "fst e \<in># heap_items (ooo_q (receiver s))" using e by (auto simp: heap_items_def vals_def)
    then obtain k where "?D \<le> int k" "k < length (sent s)" "seq (fst e) = int k + 1" "msg (fst e) = sent s ! k"
      by (auto intro: in_rest [OF r, of "fst e"])
    moreover have "seq (fst e) \<noteq> ?D + 1" using inv mem by (auto simp: drained_def)
    ultimately show ?thesis using D by simp
  qed
  moreover have "queue_cost ov (heap_items q) = u64 (\<Sum>e\<leftarrow>q. int (length (body (msg (fst e)))) + ov)" for ov q
    unfolding queue_cost_def heap_items_def vals_def mset_map [symmetric] sum_mset_sum_list map_map comp_def ..
  ultimately show ?thesis using R D by (simp add: heap_inv_assert_ok)
qed

theorem conflux_queue_accounted_witness:
  "\<exists>s. sys_run sample_cfg (take 9 sample_events) (sys_init CONFLUX_ALG_LOWRTT [0, 1]) = Some s
    \<and> ooo_q_alloc_cost (receiver s) = 101 \<and> queued_bytes s = 101"
proof -
  have *: "(case sys_run sample_cfg (take 9 sample_events) (sys_init CONFLUX_ALG_LOWRTT [0, 1]) of None \<Rightarrow> False
      | Some s \<Rightarrow> \<not> closed s \<and> ooo_q_alloc_cost (receiver s) = 101)"
    by code_simp
  then obtain s where s: "sys_run sample_cfg (take 9 sample_events) (sys_init CONFLUX_ALG_LOWRTT [0, 1]) = Some s"
    "\<not> closed s" "ooo_q_alloc_cost (receiver s) = 101"
    by (auto split: option.splits)
  have "[0, 1 :: nat] \<noteq> []" "length (take 9 sample_events) \<le> 2147483647" by (simp_all add: sample_events_def)
  from conflux_queue_accounted [OF this s(1,2)] s show ?thesis by simp
qed

end
