(* ===== verification/Buffers.thy ===== *)
theory Buffers
  imports TorPrelude "HOL-Library.Monad_Syntax"
begin

text \<open>
  The byte buffers of \<^verbatim>\<open>src/lib/buf/buffers.c\<close>, with the chunked memory written out, and the
  reading and flushing loops of \<^verbatim>\<open>src/lib/net/buffers_net.c\<close> over a socket that is a list
  of outcomes. A chunk has its memory, the offset of its data in it and the length of the data;
  the chunks of a buffer are the list from \<^verbatim>\<open>head\<close> to \<^verbatim>\<open>tail\<close>. Memory that was
  allocated and never written holds the byte \<open>u\<close>, an argument of the operations that allocate. A
  read or write outside a chunk's memory is \<^const>\<open>None\<close>, as is a failed assertion. The number
  \<open>t\<close> that many operations thread is the counter of all bytes allocated in chunks. The size of a
  chunk's header is the one of the 64-bit builds. The magic number and \<^verbatim>\<open>printf\<close> are not
  modelled.
\<close>

section \<open>Chunks\<close>

definition BUF_MAX_LEN :: nat where "BUF_MAX_LEN = 2147483646"
definition CHUNK_OVERHEAD :: nat where "CHUNK_OVERHEAD = 44 + 4"
definition MIN_CHUNK_ALLOC :: nat where "MIN_CHUNK_ALLOC = 256"
definition MAX_CHUNK_ALLOC :: nat where "MAX_CHUNK_ALLOC = 65536"
definition MIN_READ_LEN :: nat where "MIN_READ_LEN = 8"
definition SIZE_T_CEILING :: nat where "SIZE_T_CEILING = 9223372036854775807 - 16"

record chunk =
  ch_mem :: string
  ch_data :: nat
  ch_datalen :: nat
  inserted_time :: int

record buf =
  buf_datalen :: nat
  default_chunk_size :: nat
  chunks :: "chunk list"

abbreviation memlen :: "chunk \<Rightarrow> nat" where "memlen ch \<equiv> length (ch_mem ch)"

definition CHUNK_ALLOC_SIZE :: "nat \<Rightarrow> nat" where "CHUNK_ALLOC_SIZE n = CHUNK_OVERHEAD + n"
definition CHUNK_SIZE_WITH_ALLOC :: "nat \<Rightarrow> nat" where "CHUNK_SIZE_WITH_ALLOC n = n - CHUNK_OVERHEAD"

definition CHUNK_REMAINING_CAPACITY :: "chunk \<Rightarrow> nat" where
  "CHUNK_REMAINING_CAPACITY ch = memlen ch - (ch_data ch + ch_datalen ch)"

definition mem_read :: "chunk \<Rightarrow> nat \<Rightarrow> nat \<Rightarrow> string option" where
  "mem_read ch i n = (if i + n \<le> memlen ch then Some (take n (drop i (ch_mem ch))) else None)"

definition mem_write :: "chunk \<Rightarrow> nat \<Rightarrow> string \<Rightarrow> chunk option" where
  "mem_write ch i s =
    (if i + length s \<le> memlen ch
     then Some (ch\<lparr>ch_mem := take i (ch_mem ch) @ s @ drop (i + length s) (ch_mem ch)\<rparr>) else None)"

definition chunk_repack :: "chunk \<Rightarrow> chunk option" where
  "chunk_repack ch =
    (if ch_datalen ch \<noteq> 0 \<and> ch_data ch \<noteq> 0
     then do { s \<leftarrow> mem_read ch (ch_data ch) (ch_datalen ch);
               ch \<leftarrow> mem_write ch 0 s;
               Some (ch\<lparr>ch_data := 0\<rparr>) }
     else Some (ch\<lparr>ch_data := 0\<rparr>))"

definition buf_chunk_free_unchecked :: "chunk \<Rightarrow> nat \<Rightarrow> nat option" where
  "buf_chunk_free_unchecked ch t =
    (if t \<ge> CHUNK_ALLOC_SIZE (memlen ch) then Some (t - CHUNK_ALLOC_SIZE (memlen ch)) else None)"

definition chunk_new_with_alloc_size :: "char \<Rightarrow> nat \<Rightarrow> nat \<Rightarrow> chunk \<times> nat" where
  "chunk_new_with_alloc_size u sz t =
    (\<lparr>ch_mem = replicate (CHUNK_SIZE_WITH_ALLOC sz) u, ch_data = 0, ch_datalen = 0, inserted_time = 0\<rparr>, t + sz)"

definition chunk_grow :: "char \<Rightarrow> chunk \<Rightarrow> nat \<Rightarrow> nat \<Rightarrow> (chunk \<times> nat) option" where
  "chunk_grow u ch sz t =
    (if \<not> sz > memlen ch then None
     else Some (ch\<lparr>ch_mem := ch_mem ch @ replicate (sz - memlen ch) u\<rparr>,
                t + (CHUNK_ALLOC_SIZE sz - CHUNK_ALLOC_SIZE (memlen ch))))"

definition chunk_copy :: "chunk \<Rightarrow> nat \<Rightarrow> chunk \<times> nat" where
  "chunk_copy ch t = (ch, t + CHUNK_ALLOC_SIZE (memlen ch))"

text \<open>The loop starts at \<^const>\<open>MIN_CHUNK_ALLOC\<close>, so the size is never 0.\<close>

function preferred_loop :: "nat \<Rightarrow> nat \<Rightarrow> nat" where
  "preferred_loop target sz =
    (if 0 < sz \<and> CHUNK_SIZE_WITH_ALLOC sz < target then preferred_loop target (sz * 2) else sz)"
  by pat_completeness auto
termination
  by (relation "measure (\<lambda>(target, sz). target + CHUNK_OVERHEAD - sz)") (auto simp: CHUNK_SIZE_WITH_ALLOC_def)

declare preferred_loop.simps [simp del]

definition buf_preferred_chunk_size :: "nat \<Rightarrow> nat option" where
  "buf_preferred_chunk_size target =
    (if \<not> target \<le> SIZE_T_CEILING - CHUNK_OVERHEAD then None
     else if CHUNK_ALLOC_SIZE target \<ge> MAX_CHUNK_ALLOC then Some (CHUNK_ALLOC_SIZE target)
     else Some (preferred_loop target MIN_CHUNK_ALLOC))"

section \<open>Buffers\<close>

definition buf_new :: buf where
  "buf_new = \<lparr>buf_datalen = 0, default_chunk_size = 4096, chunks = []\<rparr>"

definition buf_new_with_capacity :: "nat \<Rightarrow> buf option" where
  "buf_new_with_capacity sz = map_option (\<lambda>n. buf_new\<lparr>default_chunk_size := n\<rparr>) (buf_preferred_chunk_size sz)"

definition buf_allocation :: "buf \<Rightarrow> nat" where
  "buf_allocation b = (\<Sum>ch\<leftarrow>chunks b. CHUNK_ALLOC_SIZE (memlen ch))"

definition buf_slack :: "buf \<Rightarrow> nat" where
  "buf_slack b = (if chunks b = [] then 0 else CHUNK_REMAINING_CAPACITY (last (chunks b)))"

fun clear_loop :: "chunk list \<Rightarrow> nat \<Rightarrow> nat option" where
  "clear_loop [] t = Some t"
| "clear_loop (ch # chs) t = do { t \<leftarrow> buf_chunk_free_unchecked ch t; clear_loop chs t }"

definition buf_clear :: "buf \<Rightarrow> nat \<Rightarrow> (buf \<times> nat) option" where
  "buf_clear b t = do { t \<leftarrow> clear_loop (chunks b) t; Some (b\<lparr>buf_datalen := 0, chunks := []\<rparr>, t) }"

fun copy_loop :: "chunk list \<Rightarrow> nat \<Rightarrow> chunk list \<times> nat" where
  "copy_loop [] t = ([], t)"
| "copy_loop (ch # chs) t = (let (ch, t) = chunk_copy ch t; (chs, t) = copy_loop chs t in (ch # chs, t))"

definition buf_copy :: "buf \<Rightarrow> nat \<Rightarrow> buf \<times> nat" where
  "buf_copy b t = (let (chs, t) = copy_loop (chunks b) t
     in (buf_new\<lparr>default_chunk_size := default_chunk_size b, chunks := chs, buf_datalen := buf_datalen b\<rparr>, t))"

text \<open>The data of the head, as the two results \<^verbatim>\<open>head_out\<close> and \<^verbatim>\<open>len_out\<close> give it;
  \<^const>\<open>None\<close> inside is the null pointer.\<close>

fun pullup_loop :: "nat \<Rightarrow> chunk \<Rightarrow> chunk list \<Rightarrow> nat \<Rightarrow> (chunk \<times> chunk list \<times> nat) option" where
  "pullup_loop bytes dest [] t = (if ch_datalen dest < bytes then None else Some (dest, [], t))"
| "pullup_loop bytes dest (src # rest) t =
    (if \<not> ch_datalen dest < bytes then Some (dest, src # rest, t)
     else let n = bytes - ch_datalen dest in
       if n \<ge> ch_datalen src then do {
         s \<leftarrow> mem_read src (ch_data src) (ch_datalen src);
         dest \<leftarrow> mem_write dest (ch_data dest + ch_datalen dest) s;
         t \<leftarrow> buf_chunk_free_unchecked src t;
         pullup_loop bytes (dest\<lparr>ch_datalen := ch_datalen dest + ch_datalen src\<rparr>) rest t
       } else do {
         s \<leftarrow> mem_read src (ch_data src) n;
         dest \<leftarrow> mem_write dest (ch_data dest + ch_datalen dest) s;
         let dest = dest\<lparr>ch_datalen := ch_datalen dest + n\<rparr>;
         if ch_datalen dest \<noteq> bytes then None
         else Some (dest, src\<lparr>ch_data := ch_data src + n, ch_datalen := ch_datalen src - n\<rparr> # rest, t)
       })"

definition pullup_head :: "char \<Rightarrow> nat \<Rightarrow> chunk \<Rightarrow> nat \<Rightarrow> (chunk \<times> nat) option" where
  "pullup_head u capacity hd_chunk t =
    (if memlen hd_chunk \<ge> capacity then do {
       let needed = capacity - ch_datalen hd_chunk;
       hd_chunk \<leftarrow> (if CHUNK_REMAINING_CAPACITY hd_chunk < needed then chunk_repack hd_chunk else Some hd_chunk);
       if \<not> CHUNK_REMAINING_CAPACITY hd_chunk \<ge> needed then None else Some (hd_chunk, t)
     } else do {
       hd_chunk \<leftarrow> chunk_repack hd_chunk;
       sz \<leftarrow> buf_preferred_chunk_size capacity;
       (newhead, t) \<leftarrow> chunk_grow u hd_chunk (CHUNK_SIZE_WITH_ALLOC sz) t;
       if \<not> memlen newhead \<ge> capacity then None else Some (newhead, t)
     })"

definition buf_pullup :: "char \<Rightarrow> nat \<Rightarrow> buf \<Rightarrow> nat \<Rightarrow> (string option \<times> buf \<times> nat) option" where
  "buf_pullup u bytes b t =
    (case chunks b of
       [] \<Rightarrow> Some (None, b, t)
     | hd_chunk # rest \<Rightarrow>
       let bytes = (if buf_datalen b < bytes then buf_datalen b else bytes) in
       if ch_datalen hd_chunk \<ge> bytes
       then do { s \<leftarrow> mem_read hd_chunk (ch_data hd_chunk) (ch_datalen hd_chunk); Some (Some s, b, t) }
       else do {
         (hd_chunk, t) \<leftarrow> pullup_head u bytes hd_chunk t;
         (dest, rest, t) \<leftarrow> pullup_loop bytes hd_chunk rest t;
         s \<leftarrow> mem_read dest (ch_data dest) (ch_datalen dest);
         Some (Some s, b\<lparr>chunks := dest # rest\<rparr>, t)
       })"

fun drain_loop :: "nat \<Rightarrow> chunk list \<Rightarrow> nat \<Rightarrow> nat \<Rightarrow> (chunk list \<times> nat \<times> nat) option" where
  "drain_loop n [] len t = (if n = 0 then Some ([], len, t) else None)"
| "drain_loop n (ch # chs) len t =
    (if n = 0 then Some (ch # chs, len, t)
     else if ch_datalen ch > n
     then Some (ch\<lparr>ch_datalen := ch_datalen ch - n, ch_data := ch_data ch + n\<rparr> # chs, len - n, t)
     else do { t \<leftarrow> buf_chunk_free_unchecked ch t;
               drain_loop (n - ch_datalen ch) chs (len - ch_datalen ch) t })"

definition buf_drain :: "nat \<Rightarrow> buf \<Rightarrow> nat \<Rightarrow> (buf \<times> nat) option" where
  "buf_drain n b t =
    (if \<not> buf_datalen b \<ge> n then None
     else do { (chs, len, t) \<leftarrow> drain_loop n (chunks b) (buf_datalen b) t;
               Some (b\<lparr>chunks := chs, buf_datalen := len\<rparr>, t) })"

definition buf_add_chunk_with_capacity :: "char \<Rightarrow> int \<Rightarrow> nat \<Rightarrow> bool \<Rightarrow> buf \<Rightarrow> nat \<Rightarrow> (buf \<times> nat) option" where
  "buf_add_chunk_with_capacity u now capacity capped b t = do {
     sz \<leftarrow> (if CHUNK_ALLOC_SIZE capacity < default_chunk_size b then Some (default_chunk_size b)
           else if capped \<and> CHUNK_ALLOC_SIZE capacity > MAX_CHUNK_ALLOC then Some MAX_CHUNK_ALLOC
           else buf_preferred_chunk_size capacity);
     let (ch, t) = chunk_new_with_alloc_size u sz t;
     Some (b\<lparr>chunks := chunks b @ [ch\<lparr>inserted_time := now\<rparr>]\<rparr>, t)
   }"

definition buf_get_oldest_chunk_timestamp :: "buf \<Rightarrow> int \<Rightarrow> int" where
  "buf_get_oldest_chunk_timestamp b now =
    (case chunks b of [] \<Rightarrow> 0 | ch # _ \<Rightarrow> u32 (now - inserted_time ch))"

text \<open>The tail after bytes were written to it.\<close>

definition write_tail :: "string \<Rightarrow> buf \<Rightarrow> buf option" where
  "write_tail s b = do {
     let tail = last (chunks b);
     tail \<leftarrow> mem_write tail (ch_data tail + ch_datalen tail) s;
     Some (b\<lparr>buf_datalen := buf_datalen b + length s,
             chunks := butlast (chunks b) @ [tail\<lparr>ch_datalen := ch_datalen tail + length s\<rparr>]\<rparr>)
   }"

lemma preferred_loop_ge: "0 < sz \<Longrightarrow> target \<le> CHUNK_SIZE_WITH_ALLOC (preferred_loop target sz) \<and> sz \<le> preferred_loop target sz"
  by (induction target sz rule: preferred_loop.induct) (subst (1 2) preferred_loop.simps, auto)

lemma preferred_size:
  assumes "buf_preferred_chunk_size target = Some sz"
  shows "target \<le> CHUNK_SIZE_WITH_ALLOC sz" "CHUNK_OVERHEAD < sz"
  using assms preferred_loop_ge [of MIN_CHUNK_ALLOC target]
  by (auto simp: buf_preferred_chunk_size_def MIN_CHUNK_ALLOC_def CHUNK_SIZE_WITH_ALLOC_def
    CHUNK_ALLOC_SIZE_def CHUNK_OVERHEAD_def MAX_CHUNK_ALLOC_def split: if_splits)

lemma add_chunk_cap:
  assumes "buf_add_chunk_with_capacity u now capacity capped b t = Some (b', t')"
  shows "chunks b' \<noteq> []" "0 < CHUNK_REMAINING_CAPACITY (last (chunks b'))"
  using assms preferred_size [of capacity]
  by (auto simp: buf_add_chunk_with_capacity_def chunk_new_with_alloc_size_def CHUNK_REMAINING_CAPACITY_def
    CHUNK_ALLOC_SIZE_def CHUNK_SIZE_WITH_ALLOC_def MAX_CHUNK_ALLOC_def CHUNK_OVERHEAD_def Option.bind_eq_Some_conv split: if_splits)

function add_loop :: "char \<Rightarrow> int \<Rightarrow> string \<Rightarrow> buf \<Rightarrow> nat \<Rightarrow> (buf \<times> nat) option" where
  "add_loop u now s b t =
    (if s = [] then Some (b, t)
     else do {
       (b, t) \<leftarrow> (if chunks b = [] \<or> CHUNK_REMAINING_CAPACITY (last (chunks b)) = 0
                 then buf_add_chunk_with_capacity u now (length s) True b t else Some (b, t));
       let copy = min (CHUNK_REMAINING_CAPACITY (last (chunks b))) (length s);
       b \<leftarrow> write_tail (take copy s) b;
       add_loop u now (drop copy s) b t
     })"
  by pat_completeness auto
termination
  by (relation "measure (\<lambda>(u, now, s, b, t). length s)") (auto dest: add_chunk_cap split: if_splits)

declare add_loop.simps [simp del]

text \<open>The second check subtracts in the width of \<^verbatim>\<open>size_t\<close>. The result has the return value.\<close>

definition buf_add :: "char \<Rightarrow> int \<Rightarrow> string \<Rightarrow> buf \<Rightarrow> nat \<Rightarrow> (int \<times> buf \<times> nat) option" where
  "buf_add u now s b t =
    (if s = [] then Some (i32 (int (buf_datalen b)), b, t)
     else if buf_datalen b > BUF_MAX_LEN then Some (- 1, b, t)
     else if int (buf_datalen b) > u64 (int BUF_MAX_LEN - int (length s)) then Some (- 1, b, t)
     else do {
       (b, t) \<leftarrow> add_loop u now s b t;
       if \<not> buf_datalen b \<le> BUF_MAX_LEN then None else Some (i32 (int (buf_datalen b)), b, t)
     })"

fun peek_loop :: "nat \<Rightarrow> chunk list \<Rightarrow> string option" where
  "peek_loop n [] = (if n = 0 then Some [] else None)"
| "peek_loop n (ch # chs) =
    (if n = 0 then Some []
     else let copy = (if ch_datalen ch < n then ch_datalen ch else n)
          in do { s \<leftarrow> mem_read ch (ch_data ch) copy; r \<leftarrow> peek_loop (n - copy) chs; Some (s @ r) })"

definition buf_peek :: "buf \<Rightarrow> nat \<Rightarrow> string option" where
  "buf_peek b n = (if \<not> n \<le> buf_datalen b then None else peek_loop n (chunks b))"

definition buf_extract :: "buf \<Rightarrow> string option" where
  "buf_extract b = buf_peek b (buf_datalen b)"

definition buf_get_bytes :: "nat \<Rightarrow> buf \<Rightarrow> nat \<Rightarrow> (int \<times> string \<times> buf \<times> nat) option" where
  "buf_get_bytes n b t = do {
     s \<leftarrow> buf_peek b n;
     (b, t) \<leftarrow> buf_drain n b t;
     if \<not> buf_datalen b \<le> BUF_MAX_LEN then None else Some (i32 (int (buf_datalen b)), s, b, t)
   }"

function move_loop :: "char \<Rightarrow> int \<Rightarrow> nat \<Rightarrow> buf \<Rightarrow> buf \<Rightarrow> nat \<Rightarrow> (buf \<times> buf \<times> nat) option" where
  "move_loop u now len b_out b_in t =
    (if len = 0 then Some (b_out, b_in, t)
     else do {
       let n = (if len > 4096 then 4096 else len);
       (_, s, b_in, t) \<leftarrow> buf_get_bytes n b_in t;
       (_, b_out, t) \<leftarrow> buf_add u now s b_out t;
       move_loop u now (len - n) b_out b_in t
     })"
  by pat_completeness auto
termination by (relation "measure (\<lambda>(u, now, len, b_out, b_in, t). len)") auto

declare move_loop.simps [simp del]

text \<open>The result has the return value and the remaining flush length.\<close>

definition buf_move_to_buf :: "char \<Rightarrow> int \<Rightarrow> buf \<Rightarrow> buf \<Rightarrow> nat \<Rightarrow> nat \<Rightarrow> (int \<times> nat \<times> buf \<times> buf \<times> nat) option" where
  "buf_move_to_buf u now b_out b_in buf_flushlen t =
    (if buf_datalen b_out > BUF_MAX_LEN \<or> buf_flushlen > BUF_MAX_LEN then Some (- 1, buf_flushlen, b_out, b_in, t)
     else if buf_datalen b_out > BUF_MAX_LEN - buf_flushlen then Some (- 1, buf_flushlen, b_out, b_in, t)
     else do {
       let len = (if buf_flushlen > buf_datalen b_in then buf_datalen b_in else buf_flushlen);
       (b_out, b_in, t) \<leftarrow> move_loop u now len b_out b_in t;
       Some (int len, buf_flushlen - len, b_out, b_in, t)
     })"

definition buf_move_all :: "buf \<Rightarrow> buf option \<Rightarrow> nat \<times> buf \<times> buf option" where
  "buf_move_all b_out b_in =
    (case b_in of None \<Rightarrow> (0, b_out, b_in)
     | Some b \<Rightarrow>
       if buf_datalen b = 0 then (0, b_out, b_in)
       else if buf_datalen b_out > BUF_MAX_LEN \<or> buf_datalen b > BUF_MAX_LEN then (0, b_out, b_in)
       else if buf_datalen b_out > BUF_MAX_LEN - buf_datalen b then (0, b_out, b_in)
       else (buf_datalen b,
             b_out\<lparr>chunks := chunks b_out @ chunks b, buf_datalen := buf_datalen b_out + buf_datalen b\<rparr>,
             Some (b\<lparr>chunks := [], buf_datalen := 0\<rparr>)))"

section \<open>Searching\<close>

text \<open>A position: the chunk it points into with the chunks after it, the place in that chunk, and the
  length of the chunks before.\<close>

record buf_pos =
  pos_chunks :: "chunk list"
  pos :: nat
  chunk_pos :: nat

definition buf_pos_init :: "buf \<Rightarrow> buf_pos" where
  "buf_pos_init b = \<lparr>pos_chunks = chunks b, pos = 0, chunk_pos = 0\<rparr>"

fun memchr :: "char \<Rightarrow> string \<Rightarrow> nat option" where
  "memchr c [] = None"
| "memchr c (x # xs) = (if x = c then Some 0 else map_option Suc (memchr c xs))"

text \<open>The result of the search for a character: the new position, with the return value.\<close>

fun find_char_loop :: "char \<Rightarrow> nat \<Rightarrow> chunk list \<Rightarrow> nat \<Rightarrow> (int \<times> buf_pos) option" where
  "find_char_loop c p [] cp = Some (- 1, \<lparr>pos_chunks = [], pos = p, chunk_pos = cp\<rparr>)"
| "find_char_loop c p (ch # chs) cp = do {
     s \<leftarrow> mem_read ch (ch_data ch + p) (ch_datalen ch - p);
     (case memchr c s of
        Some i \<Rightarrow> Some (int (cp + (p + i)), \<lparr>pos_chunks = ch # chs, pos = p + i, chunk_pos = cp\<rparr>)
      | None \<Rightarrow> find_char_loop c 0 chs (cp + ch_datalen ch))
   }"

definition buf_find_pos_of_char :: "char \<Rightarrow> buf_pos \<Rightarrow> (int \<times> buf_pos) option" where
  "buf_find_pos_of_char c p =
    (case pos_chunks p of
       [] \<Rightarrow> find_char_loop c (pos p) [] (chunk_pos p)
     | ch # chs \<Rightarrow>
       if (if ch_datalen ch \<noteq> 0 then \<not> pos p < ch_datalen ch else pos p \<noteq> 0) then None
       else find_char_loop c (pos p) (ch # chs) (chunk_pos p))"

text \<open>False in the result is the return value -1.\<close>

definition buf_pos_inc :: "buf_pos \<Rightarrow> (bool \<times> buf_pos) option" where
  "buf_pos_inc p =
    (if \<not> pos p < BUF_MAX_LEN then None
     else case pos_chunks p of [] \<Rightarrow> None
     | ch # chs \<Rightarrow>
       let p = p\<lparr>pos := pos p + 1\<rparr> in
       if pos p = ch_datalen ch then
         (if chs = [] then Some (False, p)
          else Some (True, p\<lparr>chunk_pos := chunk_pos p + ch_datalen ch, pos_chunks := chs, pos := 0\<rparr>))
       else Some (True, p))"

fun buf_matches_at_pos :: "buf_pos \<Rightarrow> string \<Rightarrow> bool option" where
  "buf_matches_at_pos p [] = Some True"
| "buf_matches_at_pos p (c # s) =
    (case pos_chunks p of [] \<Rightarrow> None
     | ch # _ \<Rightarrow> do {
         x \<leftarrow> mem_read ch (ch_data ch + pos p) 1;
         if x \<noteq> [c] then Some False
         else if s = [] then Some True
         else do { (ok, p) \<leftarrow> buf_pos_inc p;
                   if \<not> ok then Some False else buf_matches_at_pos p s }
       })"

text \<open>Every round moves the position on, so the length of the buffer bounds the number of rounds. The
  first character of an empty string is the terminating NUL.\<close>

fun find_string_loop :: "nat \<Rightarrow> string \<Rightarrow> buf_pos \<Rightarrow> int option" where
  "find_string_loop 0 s p = None"
| "find_string_loop (Suc n) s p = do {
     (r, p) \<leftarrow> buf_find_pos_of_char (case s of [] \<Rightarrow> CHR 0x00 | c # _ \<Rightarrow> c) p;
     if r < 0 then Some (- 1)
     else do {
       m \<leftarrow> buf_matches_at_pos p s;
       if m then (if \<not> chunk_pos p + pos p \<le> BUF_MAX_LEN then None else Some (int (chunk_pos p + pos p)))
       else do { (ok, p) \<leftarrow> buf_pos_inc p;
                 if \<not> ok then Some (- 1) else find_string_loop n s p }
     }
   }"

definition buf_find_string_offset :: "buf \<Rightarrow> string \<Rightarrow> int option" where
  "buf_find_string_offset b s =
    find_string_loop (buf_datalen b + length (chunks b) + 1) s (buf_pos_init b)"

definition PEEK_BUF_STARTSWITH_MAX :: nat where "PEEK_BUF_STARTSWITH_MAX = 16"

definition buf_peek_startswith :: "buf \<Rightarrow> string \<Rightarrow> bool option" where
  "buf_peek_startswith b cmd =
    (let clen = length cmd in
     if clen = 0 then Some True
     else if clen > PEEK_BUF_STARTSWITH_MAX then Some False
     else if buf_datalen b < clen then Some False
     else map_option (\<lambda>tmp. tmp = cmd) (buf_peek b clen))"

fun offset_loop :: "char \<Rightarrow> chunk list \<Rightarrow> nat \<Rightarrow> int option" where
  "offset_loop c [] offset = Some (- 1)"
| "offset_loop c (ch # chs) offset = do {
     s \<leftarrow> mem_read ch (ch_data ch) (ch_datalen ch);
     (case memchr c s of Some i \<Rightarrow> Some (int (offset + i)) | None \<Rightarrow> offset_loop c chs (offset + ch_datalen ch))
   }"

definition buf_find_offset_of_char :: "buf \<Rightarrow> char \<Rightarrow> int option" where
  "buf_find_offset_of_char b c = (if \<not> buf_datalen b \<le> BUF_MAX_LEN then None else offset_loop c (chunks b) 0)"

text \<open>The return value, the line with its LF, the length set, and the state.\<close>

definition buf_get_line :: "nat \<Rightarrow> buf \<Rightarrow> nat \<Rightarrow> (int \<times> string \<times> nat \<times> buf \<times> nat) option" where
  "buf_get_line data_len b t =
    (if chunks b = [] then Some (0, [], data_len, b, t)
     else do {
       offset \<leftarrow> buf_find_offset_of_char b (CHR 0x0A);
       if offset < 0 then Some (0, [], data_len, b, t)
       else let sz = nat offset in
         if sz + 2 > data_len then Some (- 1, [], sz + 2, b, t)
         else do { (_, s, b, t) \<leftarrow> buf_get_bytes (sz + 1) b t; Some (1, s, sz + 1, b, t) }
     })"

definition chunk_ok :: "chunk \<Rightarrow> bool" where
  "chunk_ok ch \<longleftrightarrow> ch_datalen ch \<le> memlen ch \<and> ch_datalen ch \<le> BUF_MAX_LEN \<and> ch_data ch \<le> memlen ch
    \<and> ch_data ch + ch_datalen ch \<le> memlen ch"

definition buf_assert_ok :: "buf \<Rightarrow> bool" where
  "buf_assert_ok b \<longleftrightarrow>
    (if chunks b = [] then buf_datalen b = 0
     else list_all chunk_ok (chunks b) \<and> buf_datalen b = (\<Sum>ch\<leftarrow>chunks b. ch_datalen ch))"

section \<open>Sockets\<close>

text \<open>What a read or write on the socket may give: bytes (of a write, how many it takes), the end of
  the stream, nothing for now, or an error. A read asks for at most so many bytes and gets no more;
  with no outcome left it blocks.\<close>

datatype io_outcome = Bytes string | Eof | Blocks | IoError int

record io_result =
  io_ret :: int
  reached_eof :: bool
  socket_error :: "int option"

definition read_to_chunk :: "io_outcome \<Rightarrow> nat \<Rightarrow> buf \<Rightarrow> (io_result \<times> buf) option" where
  "read_to_chunk r at_most b =
    (let at_most = min at_most (CHUNK_REMAINING_CAPACITY (last (chunks b))) in
     case r of
       IoError e \<Rightarrow> Some (\<lparr>io_ret = - 1, reached_eof = False, socket_error = Some e\<rparr>, b)
     | Blocks \<Rightarrow> Some (\<lparr>io_ret = 0, reached_eof = False, socket_error = None\<rparr>, b)
     | Eof \<Rightarrow> Some (\<lparr>io_ret = 0, reached_eof = True, socket_error = None\<rparr>, b)
     | Bytes s \<Rightarrow>
       let s = take at_most s in
       if s = [] then Some (\<lparr>io_ret = 0, reached_eof = True, socket_error = None\<rparr>, b)
       else map_option (\<lambda>b. (\<lparr>io_ret = int (length s), reached_eof = False, socket_error = None\<rparr>, b)) (write_tail s b))"

fun read_loop :: "char \<Rightarrow> int \<Rightarrow> nat \<Rightarrow> nat \<Rightarrow> io_outcome list \<Rightarrow> buf \<Rightarrow> nat \<Rightarrow> (io_result \<times> buf \<times> nat) option" where
  "read_loop u now at_most total_read io b t =
    (if \<not> at_most > total_read then Some (\<lparr>io_ret = int total_read, reached_eof = False, socket_error = None\<rparr>, b, t)
     else do {
       let readlen = at_most - total_read;
       (readlen, b, t) \<leftarrow>
         (if chunks b = [] \<or> CHUNK_REMAINING_CAPACITY (last (chunks b)) < MIN_READ_LEN then do {
            (b, t) \<leftarrow> buf_add_chunk_with_capacity u now at_most True b t;
            let ch = last (chunks b);
            Some (if readlen > memlen ch then memlen ch else readlen, b, t)
          } else let cap = CHUNK_REMAINING_CAPACITY (last (chunks b))
                 in Some (if cap < readlen then cap else readlen, b, t));
       (r, b) \<leftarrow> read_to_chunk (case io of [] \<Rightarrow> Blocks | x # _ \<Rightarrow> x) readlen b;
       if io_ret r < 0 then Some (r, b, t)
       else let n = nat (io_ret r) in
         if \<not> total_read + n \<le> BUF_MAX_LEN then None
         else if n < readlen then Some (r\<lparr>io_ret := int (total_read + n)\<rparr>, b, t)
         else (case io of [] \<Rightarrow> None | _ # io \<Rightarrow> read_loop u now at_most (total_read + n) io b t)
     })"

declare read_loop.simps [simp del]

definition buf_read_from_fd :: "char \<Rightarrow> int \<Rightarrow> nat \<Rightarrow> io_outcome list \<Rightarrow> buf \<Rightarrow> nat \<Rightarrow> (io_result \<times> buf \<times> nat) option" where
  "buf_read_from_fd u now at_most io b t =
    (let failed = \<lparr>io_ret = - 1, reached_eof = False, socket_error = None\<rparr> in
     if buf_datalen b > BUF_MAX_LEN then Some (failed, b, t)
     else if int (buf_datalen b) > u64 (int BUF_MAX_LEN - int at_most) then Some (failed, b, t)
     else read_loop u now at_most 0 io b t)"

text \<open>Flushing: the bytes that went out with the return value.\<close>

fun flush_loop :: "nat \<Rightarrow> nat \<Rightarrow> io_outcome list \<Rightarrow> buf \<Rightarrow> nat \<Rightarrow> (int \<times> string \<times> buf \<times> nat) option" where
  "flush_loop sz flushed io b t =
    (if sz = 0 then Some (int flushed, [], b, t)
     else case chunks b of [] \<Rightarrow> None
     | ch # _ \<Rightarrow>
       let flushlen0 = (if ch_datalen ch \<ge> sz then sz else ch_datalen ch) in
       (case io of
          [] \<Rightarrow> Some (int flushed, [], b, t)
        | IoError _ # _ \<Rightarrow> Some (- 1, [], b, t)
        | Bytes s # io \<Rightarrow>
          let n = min (length s) flushlen0 in do {
            out \<leftarrow> mem_read ch (ch_data ch) n;
            (b, t) \<leftarrow> buf_drain n b t;
            if n = 0 \<or> n < flushlen0 then Some (int (flushed + n), out, b, t)
            else do { (r, out', b, t) \<leftarrow> flush_loop (sz - n) (flushed + n) io b t; Some (r, out @ out', b, t) }
          }
        | _ # _ \<Rightarrow> Some (int flushed, [], b, t)))"

declare flush_loop.simps [simp del]

definition buf_flush_to_fd :: "nat \<Rightarrow> io_outcome list \<Rightarrow> buf \<Rightarrow> nat \<Rightarrow> (int \<times> string \<times> buf \<times> nat) option" where
  "buf_flush_to_fd sz io b t =
    (let sz = (if sz > buf_datalen b then buf_datalen b else sz) in flush_loop sz 0 io b t)"

end
