(* ===== verification/BuffersFifo.thy ===== *)
theory BuffersFifo
  imports Buffers "HOL-Library.Sublist"
begin

text \<open>
  The contract of the byte buffers: two buffers without empty chunks, seen as the strings of their bytes,
  are first-in-first-out queues, also when bytes move between them; no access leaves a chunk's memory, the
  allocation counter is exact, and searches give the first occurrence. That runs refine runs is proved once, in
  a locale. The last part is what a search does when a blocked read has left an empty chunk.
\<close>

section \<open>The bytes of a buffer\<close>

definition ch_bytes :: "chunk \<Rightarrow> string" where
  "ch_bytes ch = take (ch_datalen ch) (drop (ch_data ch) (ch_mem ch))"

definition in_mem :: "chunk \<Rightarrow> bool" where
  "in_mem ch \<longleftrightarrow> ch_data ch + ch_datalen ch \<le> memlen ch"

definition bytes_of :: "chunk list \<Rightarrow> string" where "bytes_of chs = concat (map ch_bytes chs)"

definition alloc_of :: "chunk list \<Rightarrow> nat" where "alloc_of chs = (\<Sum>ch\<leftarrow>chs. CHUNK_ALLOC_SIZE (memlen ch))"

definition no_empty :: "chunk list \<Rightarrow> bool" where "no_empty chs \<longleftrightarrow> (\<forall>ch\<in>set chs. ch_datalen ch \<noteq> 0)"

lemma length_ch_bytes: "in_mem ch \<Longrightarrow> length (ch_bytes ch) = ch_datalen ch"
  by (simp add: ch_bytes_def in_mem_def)

lemma bytes_of_simps [simp]: "bytes_of [] = []" "bytes_of (ch # chs) = ch_bytes ch @ bytes_of chs"
  "bytes_of (chs @ chs') = bytes_of chs @ bytes_of chs'"
  by (simp_all add: bytes_of_def)

lemma alloc_of_simps [simp]: "alloc_of [] = 0" "alloc_of (ch # chs) = CHUNK_ALLOC_SIZE (memlen ch) + alloc_of chs"
  "alloc_of (chs @ chs') = alloc_of chs + alloc_of chs'"
  by (simp_all add: alloc_of_def)

lemma no_empty_simps [simp]: "no_empty []" "no_empty (ch # chs) \<longleftrightarrow> ch_datalen ch \<noteq> 0 \<and> no_empty chs"
  "no_empty (chs @ chs') \<longleftrightarrow> no_empty chs \<and> no_empty chs'"
  by (auto simp: no_empty_def)

lemma mem_read_data:
  assumes "in_mem ch" "i + n \<le> ch_datalen ch"
  shows "mem_read ch (ch_data ch + i) n = Some (take n (drop i (ch_bytes ch)))"
proof -
  have "take n (drop i (ch_bytes ch)) = take n (drop (ch_data ch + i) (ch_mem ch))"
    using assms(2) by (simp add: ch_bytes_def drop_take add.commute min_def)
  then show ?thesis using assms by (simp add: mem_read_def in_mem_def)
qed

lemma mem_read_all: "in_mem ch \<Longrightarrow> mem_read ch (ch_data ch) (ch_datalen ch) = Some (ch_bytes ch)"
  using mem_read_data [of ch 0 "ch_datalen ch"] by (simp add: length_ch_bytes)

lemma mem_read_take: "in_mem ch \<Longrightarrow> n \<le> ch_datalen ch \<Longrightarrow> mem_read ch (ch_data ch) n = Some (take n (ch_bytes ch))"
  using mem_read_data [of ch 0 n] by simp

text \<open>Writing after the data.\<close>

lemma mem_write_after:
  assumes "in_mem ch" "length s \<le> CHUNK_REMAINING_CAPACITY ch"
  obtains ch' where "mem_write ch (ch_data ch + ch_datalen ch) s = Some ch'" "ch_data ch' = ch_data ch"
    "ch_datalen ch' = ch_datalen ch" "memlen ch' = memlen ch" "inserted_time ch' = inserted_time ch"
    "in_mem (ch'\<lparr>ch_datalen := ch_datalen ch + length s\<rparr>)"
    "ch_bytes (ch'\<lparr>ch_datalen := ch_datalen ch + length s\<rparr>) = ch_bytes ch @ s"
proof -
  let ?i = "ch_data ch + ch_datalen ch"
  let ?ch = "ch\<lparr>ch_mem := take ?i (ch_mem ch) @ s @ drop (?i + length s) (ch_mem ch)\<rparr>"
  have fits: "?i + length s \<le> memlen ch"
    using assms by (simp add: CHUNK_REMAINING_CAPACITY_def in_mem_def)
  then have "drop (ch_data ch) (take ?i (ch_mem ch)) = ch_bytes ch"
    by (simp add: ch_bytes_def drop_take)
  then have b: "ch_bytes (?ch\<lparr>ch_datalen := ch_datalen ch + length s\<rparr>) = ch_bytes ch @ s"
    using fits assms(1) by (simp add: ch_bytes_def [of "?ch\<lparr>ch_datalen := ch_datalen ch + length s\<rparr>"] length_ch_bytes)
  show thesis
    by (rule that [of ?ch]) (use fits b in \<open>simp_all add: mem_write_def in_mem_def\<close>)
qed

lemma repack_ok:
  assumes "in_mem ch"
  obtains ch' where "chunk_repack ch = Some ch'" "ch_data ch' = 0" "ch_datalen ch' = ch_datalen ch"
    "memlen ch' = memlen ch" "in_mem ch'" "ch_bytes ch' = ch_bytes ch"
proof (cases "ch_datalen ch \<noteq> 0 \<and> ch_data ch \<noteq> 0")
  case True
  let ?n = "ch_datalen ch"
  let ?ch = "ch\<lparr>ch_mem := ch_bytes ch @ drop ?n (ch_mem ch), ch_data := 0\<rparr>"
  have n: "?n \<le> memlen ch" using assms by (simp add: in_mem_def)
  have "chunk_repack ch = Some ?ch"
    using True assms n by (simp add: chunk_repack_def mem_read_all mem_write_def length_ch_bytes)
  then show thesis
    by (rule that) (use assms n in \<open>auto simp: in_mem_def length_ch_bytes ch_bytes_def [of ?ch]\<close>)
next
  case False
  show thesis
    by (rule that [of "ch\<lparr>ch_data := 0\<rparr>"])
      (use False assms in \<open>auto simp: chunk_repack_def in_mem_def ch_bytes_def\<close>)
qed

lemma free_ok: "CHUNK_ALLOC_SIZE (memlen ch) \<le> t \<Longrightarrow>
    buf_chunk_free_unchecked ch t = Some (t - CHUNK_ALLOC_SIZE (memlen ch))"
  by (simp add: buf_chunk_free_unchecked_def)

section \<open>Well-formed buffers\<close>

definition buf_ok :: "buf \<Rightarrow> bool" where
  "buf_ok b \<longleftrightarrow> list_all in_mem (chunks b) \<and> buf_datalen b = length (bytes_of (chunks b)) \<and> buf_datalen b \<le> BUF_MAX_LEN"

abbreviation contents :: "buf \<Rightarrow> string" where "contents b \<equiv> bytes_of (chunks b)"

text \<open>What every operation does to one buffer: it is well formed again, it holds the bytes \<open>s\<close>, and the
  allocation counter moved by as much as the allocation of the buffer.\<close>

definition becomes :: "buf \<Rightarrow> nat \<Rightarrow> buf \<Rightarrow> nat \<Rightarrow> string \<Rightarrow> bool" where
  "becomes b t b' t' s \<longleftrightarrow> buf_ok b' \<and> contents b' = s \<and> default_chunk_size b' = default_chunk_size b
    \<and> t' + alloc_of (chunks b) = t + alloc_of (chunks b') \<and> (no_empty (chunks b) \<longrightarrow> no_empty (chunks b'))"

lemma becomes_refl: "buf_ok b \<Longrightarrow> becomes b t b t (contents b)"
  by (simp add: becomes_def)

lemma becomes_trans: "becomes b t b1 t1 s1 \<Longrightarrow> becomes b1 t1 b2 t2 s2 \<Longrightarrow> becomes b t b2 t2 s2"
  by (auto simp: becomes_def)

lemma length_bytes_of: "list_all in_mem chs \<Longrightarrow> length (bytes_of chs) = (\<Sum>ch\<leftarrow>chs. ch_datalen ch)"
  by (induction chs) (auto simp: length_ch_bytes)

lemma ok_assert: "buf_ok b \<Longrightarrow> buf_assert_ok b"
proof -
  assume b: "buf_ok b"
  have le: "ch_datalen ch \<le> BUF_MAX_LEN" if "ch \<in> set (chunks b)" for ch
  proof -
    have "ch_datalen ch \<le> (\<Sum>ch\<leftarrow>chunks b. ch_datalen ch)"
      using that by (intro member_le_sum_list) auto
    also have "\<dots> = buf_datalen b" using b by (simp add: buf_ok_def length_bytes_of)
    finally show ?thesis using b by (simp add: buf_ok_def)
  qed
  then have "list_all chunk_ok (chunks b)"
    using b unfolding list_all_iff buf_ok_def chunk_ok_def in_mem_def by fastforce
  then show ?thesis using b by (simp add: buf_ok_def buf_assert_ok_def length_bytes_of)
qed

section \<open>Taking bytes out\<close>

lemma peek_loop_ok:
  "list_all in_mem chs \<Longrightarrow> n \<le> length (bytes_of chs) \<Longrightarrow> peek_loop n chs = Some (take n (bytes_of chs))"
proof (induction n chs rule: peek_loop.induct)
  case (2 n ch chs)
  then show ?case
    by (cases "n = 0"; cases "ch_datalen ch < n")
      (auto simp: mem_read_all mem_read_take length_ch_bytes)
qed simp

lemma drain_loop_ok:
  assumes "list_all in_mem chs" "n \<le> length (bytes_of chs)" "alloc_of chs \<le> t"
  shows "\<exists>chs' t'. drain_loop n chs len t = Some (chs', len - n, t') \<and> list_all in_mem chs'
    \<and> bytes_of chs' = drop n (bytes_of chs) \<and> t' + alloc_of chs = t + alloc_of chs'
    \<and> (no_empty chs \<longrightarrow> no_empty chs')"
  using assms
proof (induction n chs len t rule: drain_loop.induct)
  case (2 n ch chs len t)
  have ch: "in_mem ch" "list_all in_mem chs" using 2(2) by simp_all
  consider "n = 0" | "n \<noteq> 0" "ch_datalen ch > n" | "n \<noteq> 0" "ch_datalen ch \<le> n" by linarith
  then show ?case
  proof cases
    case 2
    let ?ch = "ch\<lparr>ch_datalen := ch_datalen ch - n, ch_data := ch_data ch + n\<rparr>"
    have "in_mem ?ch" "ch_bytes ?ch = drop n (ch_bytes ch)"
      using ch(1) 2(2) by (simp_all add: in_mem_def ch_bytes_def drop_take add.commute)
    then show ?thesis using 2 ch by (simp add: length_ch_bytes)
  next
    case 3
    have t: "CHUNK_ALLOC_SIZE (memlen ch) \<le> t" using 2(4) by simp
    have "n - ch_datalen ch \<le> length (bytes_of chs)" using 2(3) ch(1) by (simp add: length_ch_bytes)
    have "\<exists>chs' t'. drain_loop (n - ch_datalen ch) chs (len - ch_datalen ch) (t - CHUNK_ALLOC_SIZE (memlen ch))
        = Some (chs', len - ch_datalen ch - (n - ch_datalen ch), t') \<and> list_all in_mem chs'
      \<and> bytes_of chs' = drop (n - ch_datalen ch) (bytes_of chs)
      \<and> t' + alloc_of chs = t - CHUNK_ALLOC_SIZE (memlen ch) + alloc_of chs' \<and> (no_empty chs \<longrightarrow> no_empty chs')"
      by (rule 2(1) [OF _ _ free_ok [OF t] ch(2)]) (use 3 2(4) \<open>n - ch_datalen ch \<le> _\<close> in auto)
    then obtain chs' t' where IH: "drain_loop (n - ch_datalen ch) chs (len - ch_datalen ch) (t - CHUNK_ALLOC_SIZE (memlen ch))
        = Some (chs', len - ch_datalen ch - (n - ch_datalen ch), t')" "list_all in_mem chs'"
      "bytes_of chs' = drop (n - ch_datalen ch) (bytes_of chs)"
      "t' + alloc_of chs = t - CHUNK_ALLOC_SIZE (memlen ch) + alloc_of chs'" "no_empty chs \<longrightarrow> no_empty chs'"
      by blast
    show ?thesis using 3 IH free_ok [OF t] t ch(1) by (auto simp: length_ch_bytes)
  qed (use 2 in simp)
qed simp

lemma drain_within:
  assumes "buf_ok b" "n \<le> length (contents b)" "alloc_of (chunks b) \<le> t"
  shows "\<exists>b' t'. buf_drain n b t = Some (b', t') \<and> becomes b t b' t' (drop n (contents b))"
proof -
  obtain chs' t' where "drain_loop n (chunks b) (buf_datalen b) t = Some (chs', buf_datalen b - n, t')"
    "list_all in_mem chs'" "bytes_of chs' = drop n (contents b)"
    "t' + alloc_of (chunks b) = t + alloc_of chs'" "no_empty (chunks b) \<longrightarrow> no_empty chs'"
    using drain_loop_ok [of "chunks b" n t "buf_datalen b"] assms by (auto simp: buf_ok_def)
  then show ?thesis using assms by (auto simp: buf_drain_def becomes_def buf_ok_def)
qed

lemma drain_too_much: "buf_ok b \<Longrightarrow> length (contents b) < n \<Longrightarrow> buf_drain n b t = None"
  by (simp add: buf_drain_def buf_ok_def)

lemma peek_ok: "buf_ok b \<Longrightarrow> buf_peek b n = (if n \<le> length (contents b) then Some (take n (contents b)) else None)"
  by (auto simp: buf_peek_def buf_ok_def peek_loop_ok)

lemma get_bytes_ok:
  assumes "buf_ok b" "n \<le> length (contents b)" "alloc_of (chunks b) \<le> t"
  shows "\<exists>b' t'. buf_get_bytes n b t = Some (int (length (contents b) - n), take n (contents b), b', t')
    \<and> becomes b t b' t' (drop n (contents b))"
proof -
  obtain b' t' where d: "buf_drain n b t = Some (b', t')" "becomes b t b' t' (drop n (contents b))"
    using drain_within [OF assms] by blast
  then have "buf_datalen b' = length (contents b) - n" "buf_datalen b' \<le> BUF_MAX_LEN"
    by (auto simp: becomes_def buf_ok_def)
  moreover from this have "i32 (int (buf_datalen b')) = int (length (contents b) - n)"
    by (simp add: i32_id BUF_MAX_LEN_def)
  ultimately show ?thesis using d assms by (simp add: buf_get_bytes_def peek_ok)
qed

lemma get_too_much: "buf_ok b \<Longrightarrow> length (contents b) < n \<Longrightarrow> buf_get_bytes n b t = None"
  by (simp add: buf_get_bytes_def peek_ok)

section \<open>Putting bytes in\<close>

lemma preferred_some: "n \<le> BUF_MAX_LEN \<Longrightarrow> \<exists>sz. buf_preferred_chunk_size n = Some sz"
  by (auto simp: buf_preferred_chunk_size_def BUF_MAX_LEN_def SIZE_T_CEILING_def CHUNK_OVERHEAD_def)

lemma add_chunk_ok:
  assumes "n \<le> BUF_MAX_LEN \<or> capped"
  obtains ch t' where "buf_add_chunk_with_capacity u now n capped b t = Some (b\<lparr>chunks := chunks b @ [ch]\<rparr>, t')"
    "ch_datalen ch = 0" "in_mem ch" "ch_bytes ch = []" "0 < memlen ch" "ch_data ch = 0"
    "t' = t + CHUNK_ALLOC_SIZE (memlen ch)"
proof -
  have "\<exists>sz. (if CHUNK_ALLOC_SIZE n < default_chunk_size b then Some (default_chunk_size b)
           else if capped \<and> CHUNK_ALLOC_SIZE n > MAX_CHUNK_ALLOC then Some MAX_CHUNK_ALLOC
           else buf_preferred_chunk_size n) = Some sz"
    using assms preferred_some [of n]
    by (auto simp: CHUNK_ALLOC_SIZE_def MAX_CHUNK_ALLOC_def BUF_MAX_LEN_def split: if_splits)
  then obtain sz where sz: "(if CHUNK_ALLOC_SIZE n < default_chunk_size b then Some (default_chunk_size b)
           else if capped \<and> CHUNK_ALLOC_SIZE n > MAX_CHUNK_ALLOC then Some MAX_CHUNK_ALLOC
           else buf_preferred_chunk_size n) = Some sz" ..
  then have gt: "CHUNK_OVERHEAD < sz"
    using preferred_size(2) [of n sz] by (auto simp: CHUNK_ALLOC_SIZE_def MAX_CHUNK_ALLOC_def CHUNK_OVERHEAD_def split: if_splits)
  let ?ch = "\<lparr>ch_mem = replicate (CHUNK_SIZE_WITH_ALLOC sz) u, ch_data = 0, ch_datalen = 0, inserted_time = now\<rparr>"
  have "buf_add_chunk_with_capacity u now n capped b t = Some (b\<lparr>chunks := chunks b @ [?ch]\<rparr>, t + sz)"
    unfolding buf_add_chunk_with_capacity_def sz by (simp add: chunk_new_with_alloc_size_def)
  then show thesis
    by (rule that) (use gt in \<open>auto simp: in_mem_def ch_bytes_def CHUNK_ALLOC_SIZE_def CHUNK_SIZE_WITH_ALLOC_def\<close>)
qed

lemma write_tail_ok:
  assumes "list_all in_mem (chunks b)" "chunks b \<noteq> []" "length s \<le> CHUNK_REMAINING_CAPACITY (last (chunks b))"
  obtains b' where "write_tail s b = Some b'" "list_all in_mem (chunks b')" "contents b' = contents b @ s"
    "buf_datalen b' = buf_datalen b + length s" "default_chunk_size b' = default_chunk_size b"
    "alloc_of (chunks b') = alloc_of (chunks b)"
    "no_empty (butlast (chunks b)) \<and> (s \<noteq> [] \<or> ch_datalen (last (chunks b)) \<noteq> 0) \<Longrightarrow> no_empty (chunks b')"
proof -
  let ?tail = "last (chunks b)"
  have chs: "chunks b = butlast (chunks b) @ [?tail]" using assms(2) by simp
  have "in_mem ?tail" "list_all in_mem (butlast (chunks b))"
    using assms(1,2) by (auto simp: list_all_iff dest: in_set_butlastD)
  then obtain ch where ch: "mem_write ?tail (ch_data ?tail + ch_datalen ?tail) s = Some ch"
    "ch_datalen ch = ch_datalen ?tail" "memlen ch = memlen ?tail"
    "in_mem (ch\<lparr>ch_datalen := ch_datalen ?tail + length s\<rparr>)"
    "ch_bytes (ch\<lparr>ch_datalen := ch_datalen ?tail + length s\<rparr>) = ch_bytes ?tail @ s"
    using mem_write_after [OF _ assms(3)] by blast
  let ?b = "b\<lparr>buf_datalen := buf_datalen b + length s,
    chunks := butlast (chunks b) @ [ch\<lparr>ch_datalen := ch_datalen ?tail + length s\<rparr>]\<rparr>"
  have eq: "contents b = bytes_of (butlast (chunks b)) @ ch_bytes ?tail"
    "alloc_of (chunks b) = alloc_of (butlast (chunks b)) + CHUNK_ALLOC_SIZE (memlen ?tail)"
    by (subst chs, simp)+
  show thesis
    by (rule that [of ?b])
      (use ch eq \<open>list_all in_mem (butlast (chunks b))\<close> in \<open>auto simp: write_tail_def Let_def\<close>)
qed

lemma add_loop_ok:
  assumes "list_all in_mem (chunks b)"
  shows "\<exists>b' t'. add_loop u now s b t = Some (b', t') \<and> list_all in_mem (chunks b') \<and> contents b' = contents b @ s
    \<and> buf_datalen b' = buf_datalen b + length s \<and> default_chunk_size b' = default_chunk_size b
    \<and> t' + alloc_of (chunks b) = t + alloc_of (chunks b') \<and> (no_empty (chunks b) \<longrightarrow> no_empty (chunks b'))"
  using assms
proof (induction "length s" arbitrary: s b t rule: less_induct)
  case less
  show ?case
  proof (cases "s = []")
    case True
    then show ?thesis using less.prems by (subst add_loop.simps) simp
  next
    case False
    obtain b1 t1 where b1: "(if chunks b = [] \<or> CHUNK_REMAINING_CAPACITY (last (chunks b)) = 0
                 then buf_add_chunk_with_capacity u now (length s) True b t else Some (b, t)) = Some (b1, t1)"
      "list_all in_mem (chunks b1)" "chunks b1 \<noteq> []" "0 < CHUNK_REMAINING_CAPACITY (last (chunks b1))"
      "contents b1 = contents b" "buf_datalen b1 = buf_datalen b" "default_chunk_size b1 = default_chunk_size b"
      "t1 + alloc_of (chunks b) = t + alloc_of (chunks b1)" "no_empty (chunks b) \<longrightarrow> no_empty (butlast (chunks b1))"
    proof (cases "chunks b = [] \<or> CHUNK_REMAINING_CAPACITY (last (chunks b)) = 0")
      case True
      obtain ch t' where ch: "buf_add_chunk_with_capacity u now (length s) True b t = Some (b\<lparr>chunks := chunks b @ [ch]\<rparr>, t')"
        "ch_datalen ch = 0" "in_mem ch" "ch_bytes ch = []" "0 < memlen ch" "ch_data ch = 0"
        "t' = t + CHUNK_ALLOC_SIZE (memlen ch)"
        using add_chunk_ok [of "length s" True] by blast
      show thesis
        by (rule that [of "b\<lparr>chunks := chunks b @ [ch]\<rparr>" t'])
          (use True ch less.prems in \<open>simp_all add: CHUNK_REMAINING_CAPACITY_def\<close>)
    next
      case False
      show thesis
        by (rule that [of b t])
          (use False less.prems in \<open>auto simp: no_empty_def dest: in_set_butlastD\<close>)
    qed
    let ?copy = "min (CHUNK_REMAINING_CAPACITY (last (chunks b1))) (length s)"
    have copy: "0 < ?copy" using b1(4) False by simp
    obtain b2 where b2: "write_tail (take ?copy s) b1 = Some b2" "list_all in_mem (chunks b2)"
      "contents b2 = contents b1 @ take ?copy s" "buf_datalen b2 = buf_datalen b1 + length (take ?copy s)"
      "default_chunk_size b2 = default_chunk_size b1" "alloc_of (chunks b2) = alloc_of (chunks b1)"
      "no_empty (butlast (chunks b1)) \<Longrightarrow> no_empty (chunks b2)"
      using write_tail_ok [of b1 "take ?copy s"] b1(2,3) copy False by auto
    have "length (drop ?copy s) < length s" using copy False by simp
    from less.hyps [OF this b2(2), of t1] obtain b' t' where IH: "add_loop u now (drop ?copy s) b2 t1 = Some (b', t')"
      "list_all in_mem (chunks b')" "contents b' = contents b2 @ drop ?copy s"
      "buf_datalen b' = buf_datalen b2 + length (drop ?copy s)" "default_chunk_size b' = default_chunk_size b2"
      "t' + alloc_of (chunks b2) = t1 + alloc_of (chunks b')" "no_empty (chunks b2) \<longrightarrow> no_empty (chunks b')"
      by blast
    have "add_loop u now s b t = Some (b', t')"
      using False b1(1) b2(1) IH(1) by (subst add_loop.simps) simp
    moreover have "contents b' = contents b @ s" using IH(3) b2(3) b1(5) by simp
    moreover have "buf_datalen b' = buf_datalen b + length s" using IH(4) b2(4) b1(6) copy by simp
    ultimately show ?thesis using IH b2 b1 by auto
  qed
qed

lemma add_ok:
  assumes "buf_ok b" "length (contents b) + length s \<le> BUF_MAX_LEN"
  shows "\<exists>b' t'. buf_add u now s b t = Some (int (length (contents b) + length s), b', t')
    \<and> becomes b t b' t' (contents b @ s)"
proof -
  have r: "i32 (int n) = int n" if "n \<le> BUF_MAX_LEN" for n
    using that by (simp add: i32_id BUF_MAX_LEN_def)
  have b: "buf_datalen b = length (contents b)" "list_all in_mem (chunks b)" "buf_datalen b \<le> BUF_MAX_LEN"
    using assms(1) by (auto simp: buf_ok_def)
  have "u64 (int BUF_MAX_LEN - int (length s)) = int BUF_MAX_LEN - int (length s)"
    using assms(2) by (intro u64_id) (auto simp: BUF_MAX_LEN_def)
  then have guard: "\<not> int (buf_datalen b) > u64 (int BUF_MAX_LEN - int (length s))" using assms(2) b(1) by simp
  obtain b' t' where l: "add_loop u now s b t = Some (b', t')" "list_all in_mem (chunks b')" "contents b' = contents b @ s"
    "buf_datalen b' = buf_datalen b + length s" "default_chunk_size b' = default_chunk_size b"
    "t' + alloc_of (chunks b) = t + alloc_of (chunks b')" "no_empty (chunks b) \<longrightarrow> no_empty (chunks b')"
    using add_loop_ok [OF b(2)] by blast
  show ?thesis
  proof (cases "s = []")
    case True
    then show ?thesis using assms(1) b r by (simp add: buf_add_def becomes_refl)
  next
    case False
    have "i32 (int (buf_datalen b')) = int (length (contents b) + length s)"
      using r [of "buf_datalen b'"] l(4) assms(2) b(1) by simp
    moreover have "becomes b t b' t' (contents b @ s)" using l assms(2) b by (simp add: becomes_def buf_ok_def)
    ultimately show ?thesis using False l(1,4) guard assms(2) b by (simp add: buf_add_def)
  qed
qed

text \<open>A buffer that would grow past the limit is refused, if the string itself is not over the limit.\<close>

lemma add_refused:
  assumes "buf_ok b" "BUF_MAX_LEN < length (contents b) + length s" "length s \<le> BUF_MAX_LEN"
  shows "buf_add u now s b t = Some (- 1, b, t)"
proof -
  have "u64 (int BUF_MAX_LEN - int (length s)) = int BUF_MAX_LEN - int (length s)"
    using assms(3) by (intro u64_id) (auto simp: BUF_MAX_LEN_def)
  moreover have "s \<noteq> []" using assms(1,2) by (auto simp: buf_ok_def)
  ultimately show ?thesis using assms by (simp add: buf_add_def buf_ok_def)
qed

lemma u64_underflow:
  fixes l :: int
  assumes "2147483646 < l" "l < 9223372036854775808"
  shows "u64 (2147483646 - l) = 18446744073709551616 + 2147483646 - l"
proof -
  have "(2147483646 - l) mod 2 ^ 64 = (2147483646 - l + 2 ^ 64) mod 2 ^ 64"
    by (rule mod_add_self2 [symmetric])
  also have "\<dots> = 2147483646 - l + 2 ^ 64" using assms by (intro mod_pos_pos_trivial) auto
  finally show ?thesis by (simp add: to_unsigned_def)
qed

lemma add_oversized:
  assumes "buf_ok b" "BUF_MAX_LEN < length s" "length s < 9223372036854775808"
  shows "buf_add u now s b t = None"
proof -
  have l: "2147483646 < int (length s)" "int (length s) < 9223372036854775808"
    using assms(2,3) by (simp_all add: BUF_MAX_LEN_def)
  have "u64 (int BUF_MAX_LEN - int (length s)) = 18446744073709551616 + 2147483646 - int (length s)"
    using u64_underflow [OF l] by (simp add: BUF_MAX_LEN_def)
  moreover have b: "buf_datalen b = length (contents b)" "list_all in_mem (chunks b)" "buf_datalen b \<le> BUF_MAX_LEN"
    using assms(1) by (auto simp: buf_ok_def)
  ultimately have guard: "\<not> int (buf_datalen b) > u64 (int BUF_MAX_LEN - int (length s))"
    using l by (simp add: BUF_MAX_LEN_def)
  obtain b' t' where "add_loop u now s b t = Some (b', t')" "buf_datalen b' = buf_datalen b + length s"
    using add_loop_ok [OF b(2)] by blast
  moreover have "s \<noteq> []" using assms(2) by auto
  ultimately show ?thesis using guard b assms(2) by (simp add: buf_add_def)
qed

section \<open>Moving bytes\<close>

lemma pullup_loop_ok:
  assumes "in_mem dest" "list_all in_mem rest" "bytes \<le> ch_datalen dest + length (bytes_of rest)"
    "ch_data dest + bytes \<le> memlen dest" "alloc_of rest \<le> t"
  shows "\<exists>dest' rest' t'. pullup_loop bytes dest rest t = Some (dest', rest', t') \<and> in_mem dest' \<and> list_all in_mem rest'
    \<and> ch_bytes dest' @ bytes_of rest' = ch_bytes dest @ bytes_of rest \<and> bytes \<le> ch_datalen dest'
    \<and> ch_datalen dest \<le> ch_datalen dest' \<and> memlen dest' = memlen dest
    \<and> t' + alloc_of rest = t + alloc_of rest' \<and> (no_empty rest \<longrightarrow> no_empty rest')"
  using assms
proof (induction rest arbitrary: dest t)
  case (Cons src rest)
  have src: "in_mem src" "list_all in_mem rest" using Cons.prems(2) by simp_all
  let ?n = "bytes - ch_datalen dest"
  consider "bytes \<le> ch_datalen dest" | "ch_datalen dest < bytes" "ch_datalen src \<le> ?n"
    | "ch_datalen dest < bytes" "?n < ch_datalen src" by linarith
  then show ?case
  proof cases
    case 1
    then show ?thesis using Cons.prems src by simp
  next
    case 2
    have "length (ch_bytes src) \<le> CHUNK_REMAINING_CAPACITY dest"
      using 2 Cons.prems(4) src(1) by (simp add: length_ch_bytes CHUNK_REMAINING_CAPACITY_def)
    then obtain d where d: "mem_write dest (ch_data dest + ch_datalen dest) (ch_bytes src) = Some d"
      "ch_data d = ch_data dest" "ch_datalen d = ch_datalen dest" "memlen d = memlen dest"
      "in_mem (d\<lparr>ch_datalen := ch_datalen dest + ch_datalen src\<rparr>)"
      "ch_bytes (d\<lparr>ch_datalen := ch_datalen dest + ch_datalen src\<rparr>) = ch_bytes dest @ ch_bytes src"
      using mem_write_after [OF Cons.prems(1)] length_ch_bytes [OF src(1)] by metis
    let ?d = "d\<lparr>ch_datalen := ch_datalen dest + ch_datalen src\<rparr>" and ?t = "t - CHUNK_ALLOC_SIZE (memlen src)"
    have t: "CHUNK_ALLOC_SIZE (memlen src) \<le> t" "alloc_of rest \<le> ?t" using Cons.prems(5) by simp_all
    have "bytes \<le> ch_datalen ?d + length (bytes_of rest)"
      using Cons.prems(3) src(1) by (simp add: length_ch_bytes)
    from Cons.IH [OF d(5) src(2) this _ t(2)] obtain dest' rest' t' where
      IH: "pullup_loop bytes ?d rest ?t = Some (dest', rest', t')" "in_mem dest'" "list_all in_mem rest'"
        "ch_bytes dest' @ bytes_of rest' = ch_bytes ?d @ bytes_of rest" "bytes \<le> ch_datalen dest'"
        "ch_datalen ?d \<le> ch_datalen dest'" "memlen dest' = memlen ?d"
        "t' + alloc_of rest = ?t + alloc_of rest'" "no_empty rest \<longrightarrow> no_empty rest'"
      using Cons.prems(4) d(2,4) by auto
    have "pullup_loop bytes dest (src # rest) t = Some (dest', rest', t')"
      using 2 d(1,3) IH(1) src(1) by (simp add: Let_def mem_read_all free_ok [OF t(1)])
    then show ?thesis using IH d t by simp
  next
    case 3
    let ?s = "take ?n (ch_bytes src)"
    have len: "length ?s = ?n" using 3 src(1) by (simp add: length_ch_bytes)
    have "length ?s \<le> CHUNK_REMAINING_CAPACITY dest"
      using 3 Cons.prems(4) len by (simp add: CHUNK_REMAINING_CAPACITY_def)
    then obtain d where d: "mem_write dest (ch_data dest + ch_datalen dest) ?s = Some d"
      "ch_datalen d = ch_datalen dest" "memlen d = memlen dest"
      "in_mem (d\<lparr>ch_datalen := ch_datalen dest + length ?s\<rparr>)"
      "ch_bytes (d\<lparr>ch_datalen := ch_datalen dest + length ?s\<rparr>) = ch_bytes dest @ ?s"
      using mem_write_after [OF Cons.prems(1)] by metis
    let ?src = "src\<lparr>ch_data := ch_data src + ?n, ch_datalen := ch_datalen src - ?n\<rparr>"
    have s: "in_mem ?src" "ch_bytes ?src = drop ?n (ch_bytes src)"
      using src(1) 3 by (simp_all add: in_mem_def ch_bytes_def drop_take add.commute)
    have "mem_read src (ch_data src) ?n = Some ?s" using 3 src(1) by (simp add: mem_read_take)
    then have "pullup_loop bytes dest (src # rest) t = Some (d\<lparr>ch_datalen := ch_datalen dest + length ?s\<rparr>, ?src # rest, t)"
      using 3 d(1,2) len by (simp add: Let_def)
    moreover have "\<not> ch_datalen src + ch_datalen dest \<le> bytes" using 3 by linarith
    ultimately show ?thesis using d s src 3 len by simp
  qed
qed simp

lemma pullup_head_ok:
  assumes "in_mem ch" "ch_datalen ch < capacity" "capacity \<le> BUF_MAX_LEN"
  shows "\<exists>ch' t'. pullup_head u capacity ch t = Some (ch', t') \<and> in_mem ch' \<and> ch_bytes ch' = ch_bytes ch
    \<and> ch_datalen ch' = ch_datalen ch \<and> ch_data ch' + capacity \<le> memlen ch'
    \<and> t' + CHUNK_ALLOC_SIZE (memlen ch) = t + CHUNK_ALLOC_SIZE (memlen ch')"
proof -
  obtain p where p: "chunk_repack ch = Some p" "ch_data p = 0" "ch_datalen p = ch_datalen ch"
    "memlen p = memlen ch" "in_mem p" "ch_bytes p = ch_bytes ch"
    using repack_ok [OF assms(1)] .
  show ?thesis
  proof (cases "memlen ch \<ge> capacity")
    case True
    then show ?thesis using p assms
      by (cases "CHUNK_REMAINING_CAPACITY ch < capacity - ch_datalen ch")
        (auto simp: pullup_head_def CHUNK_REMAINING_CAPACITY_def in_mem_def)
  next
    case False
    obtain sz where sz: "buf_preferred_chunk_size capacity = Some sz" using preferred_some [OF assms(3)] by blast
    let ?n = "CHUNK_SIZE_WITH_ALLOC sz"
    have n: "capacity \<le> ?n" using preferred_size(1) [OF sz] .
    let ?ch = "p\<lparr>ch_mem := ch_mem p @ replicate (?n - memlen p) u\<rparr>"
    have "ch_bytes ?ch = ch_bytes p" "in_mem ?ch" using p(5) by (auto simp: ch_bytes_def in_mem_def)
    moreover have "memlen ?ch = ?n" using n False p(4) by simp
    ultimately show ?thesis using False p n sz
      by (auto simp: pullup_head_def chunk_grow_def CHUNK_ALLOC_SIZE_def)
  qed
qed

lemma pullup_ok:
  assumes "buf_ok b" "alloc_of (chunks b) \<le> t"
  shows "\<exists>r b' t'. buf_pullup u n b t = Some (r, b', t') \<and> becomes b t b' t' (contents b)
    \<and> (case r of None \<Rightarrow> contents b = [] | Some s \<Rightarrow> s = take (length s) (contents b) \<and> min n (length (contents b)) \<le> length s)"
proof (cases "chunks b")
  case Nil
  then show ?thesis using becomes_refl [OF assms(1)] by (simp add: buf_pullup_def)
next
  case (Cons ch rest)
  let ?n = "if buf_datalen b < n then buf_datalen b else n"
  note ok = assms(1) [unfolded buf_ok_def]
  have ch: "in_mem ch" "list_all in_mem rest" using ok Cons by simp_all
  have n: "?n \<le> ch_datalen ch + length (bytes_of rest)" "?n \<le> BUF_MAX_LEN" "?n = min n (length (contents b))"
    using ok Cons ch(1) by (auto simp: length_ch_bytes)
  show ?thesis
  proof (cases "ch_datalen ch \<ge> ?n")
    case True
    then have "buf_pullup u n b t = Some (Some (ch_bytes ch), b, t)"
      using Cons ch(1) by (simp add: buf_pullup_def Let_def mem_read_all)
    then show ?thesis using becomes_refl [OF assms(1)] True n(3) Cons ch(1) by (auto simp: length_ch_bytes)
  next
    case False
    obtain h t1 where h: "pullup_head u ?n ch t = Some (h, t1)" "in_mem h" "ch_bytes h = ch_bytes ch"
      "ch_datalen h = ch_datalen ch" "ch_data h + ?n \<le> memlen h"
      "t1 + CHUNK_ALLOC_SIZE (memlen ch) = t + CHUNK_ALLOC_SIZE (memlen h)"
      using pullup_head_ok [OF ch(1) _ n(2)] False by (meson not_le)
    have "alloc_of rest \<le> t1" using assms(2) Cons h(6) by simp
    moreover have "?n \<le> ch_datalen h + length (bytes_of rest)" using n(1) h(4) by simp
    ultimately obtain d rest' t2 where d: "pullup_loop ?n h rest t1 = Some (d, rest', t2)" "in_mem d" "list_all in_mem rest'"
      "ch_bytes d @ bytes_of rest' = ch_bytes h @ bytes_of rest" "?n \<le> ch_datalen d" "ch_datalen h \<le> ch_datalen d"
      "memlen d = memlen h" "t2 + alloc_of rest = t1 + alloc_of rest'" "no_empty rest \<longrightarrow> no_empty rest'"
      using pullup_loop_ok [OF h(2) ch(2) _ h(5)] by blast
    let ?b = "b\<lparr>chunks := d # rest'\<rparr>"
    have cont: "contents ?b = contents b" using d(4) h(3) Cons by simp
    have "becomes b t ?b t2 (contents b)"
      using ok cont d h Cons by (auto simp: becomes_def buf_ok_def)
    moreover have "take (ch_datalen d) (contents b) = ch_bytes d"
      using cont length_ch_bytes [OF d(2)] by (metis append_eq_conv_conj bytes_of_simps(2) buf.select_convs(3) buf.surjective buf.update_convs(3))
    then have "case Some (ch_bytes d) of None \<Rightarrow> contents b = []
      | Some s \<Rightarrow> s = take (length s) (contents b) \<and> min n (length (contents b)) \<le> length s"
      using d(5) n(3) by (simp add: length_ch_bytes [OF d(2)])
    moreover have "buf_pullup u n b t = Some (Some (ch_bytes d), ?b, t2)"
      using Cons False h(1) d(1,2) by (simp add: buf_pullup_def Let_def mem_read_all)
    ultimately show ?thesis by blast
  qed
qed

lemma becomes_alloc: "becomes b t b' t' s \<Longrightarrow> alloc_of (chunks b) + k \<le> t \<Longrightarrow> alloc_of (chunks b') + k \<le> t'"
  by (simp add: becomes_def)

text \<open>Moving between two buffers: \<open>k\<close> is what other buffers have allocated.\<close>

lemma move_loop_ok:
  "buf_ok b_out \<Longrightarrow> buf_ok b_in \<Longrightarrow> len \<le> length (contents b_in) \<Longrightarrow> length (contents b_out) + len \<le> BUF_MAX_LEN \<Longrightarrow>
    alloc_of (chunks b_out) + alloc_of (chunks b_in) \<le> t \<Longrightarrow>
    \<exists>b_out' b_in' t'. move_loop u now len b_out b_in t = Some (b_out', b_in', t') \<and> buf_ok b_out' \<and> buf_ok b_in'
      \<and> contents b_out' = contents b_out @ take len (contents b_in) \<and> contents b_in' = drop len (contents b_in)
      \<and> t' + alloc_of (chunks b_out) + alloc_of (chunks b_in) = t + alloc_of (chunks b_out') + alloc_of (chunks b_in')
      \<and> (no_empty (chunks b_out) \<longrightarrow> no_empty (chunks b_out')) \<and> (no_empty (chunks b_in) \<longrightarrow> no_empty (chunks b_in'))"
proof (induction len arbitrary: b_out b_in t rule: less_induct)
  case (less len)
  show ?case
  proof (cases "len = 0")
    case True
    then show ?thesis using less.prems by (subst move_loop.simps) simp
  next
    case False
    define n where "n = (if len > 4096 then 4096 else len)"
    have n: "0 < n" "n \<le> len" using False by (auto simp: n_def)
    have "n \<le> length (contents b_in)" "alloc_of (chunks b_in) \<le> t" using n less.prems by auto
    then obtain b1 t1 where g: "buf_get_bytes n b_in t = Some (int (length (contents b_in) - n), take n (contents b_in), b1, t1)"
      "becomes b_in t b1 t1 (drop n (contents b_in))"
      using get_bytes_ok [OF less.prems(2)] by blast
    have "length (contents b_out) + length (take n (contents b_in)) \<le> BUF_MAX_LEN"
      using less.prems(3,4) n by simp
    then obtain r b2 t2 where a: "buf_add u now (take n (contents b_in)) b_out t1 = Some (r, b2, t2)"
      "becomes b_out t1 b2 t2 (contents b_out @ take n (contents b_in))"
      using add_ok [OF less.prems(1)] by blast
    have ok: "buf_ok b2" "buf_ok b1" "contents b2 = contents b_out @ take n (contents b_in)"
      "contents b1 = drop n (contents b_in)"
      using g(2) a(2) by (simp_all add: becomes_def)
    have "\<exists>b_out' b_in' t'. move_loop u now (len - n) b2 b1 t2 = Some (b_out', b_in', t') \<and> buf_ok b_out' \<and> buf_ok b_in'
      \<and> contents b_out' = contents b2 @ take (len - n) (contents b1) \<and> contents b_in' = drop (len - n) (contents b1)
      \<and> t' + alloc_of (chunks b2) + alloc_of (chunks b1) = t2 + alloc_of (chunks b_out') + alloc_of (chunks b_in')
      \<and> (no_empty (chunks b2) \<longrightarrow> no_empty (chunks b_out')) \<and> (no_empty (chunks b1) \<longrightarrow> no_empty (chunks b_in'))"
      by (rule less.IH) (use n ok less.prems g(2) a(2) in \<open>auto simp: becomes_def\<close>)
    then obtain b_out' b_in' t' where IH: "move_loop u now (len - n) b2 b1 t2 = Some (b_out', b_in', t')" "buf_ok b_out'" "buf_ok b_in'"
      "contents b_out' = contents b2 @ take (len - n) (contents b1)" "contents b_in' = drop (len - n) (contents b1)"
      "t' + alloc_of (chunks b2) + alloc_of (chunks b1) = t2 + alloc_of (chunks b_out') + alloc_of (chunks b_in')"
      "no_empty (chunks b2) \<longrightarrow> no_empty (chunks b_out')" "no_empty (chunks b1) \<longrightarrow> no_empty (chunks b_in')"
      by blast
    have "move_loop u now len b_out b_in t = Some (b_out', b_in', t')"
      using False g(1) a(1) IH(1) by (subst move_loop.simps) (simp only: Let_def n_def [symmetric], simp)
    moreover have "contents b_out' = contents b_out @ take len (contents b_in)"
      using IH(4) ok n by (simp add: take_add [symmetric])
    moreover have "contents b_in' = drop len (contents b_in)" using IH(5) ok n by simp
    moreover have "t' + alloc_of (chunks b_out) + alloc_of (chunks b_in) = t + alloc_of (chunks b_out') + alloc_of (chunks b_in')"
      using IH(6) g(2) a(2) by (simp add: becomes_def)
    ultimately show ?thesis using IH(2,3,7,8) g(2) a(2) by (auto simp: becomes_def)
  qed
qed

section \<open>Searching\<close>

lemma memchr_None: "memchr c s = None \<longleftrightarrow> c \<notin> set s"
  by (induction s) auto

lemma memchr_Some: "memchr c s = Some i \<longleftrightarrow> i < length s \<and> s ! i = c \<and> c \<notin> set (take i s)"
proof (induction s arbitrary: i)
  case (Cons x s)
  then show ?case by (cases i) auto
qed simp

lemma memchr_append: "memchr c (a @ b) =
    (case memchr c a of Some i \<Rightarrow> Some i | None \<Rightarrow> map_option (\<lambda>i. length a + i) (memchr c b))"
  by (cases "memchr c b"; induction a) (auto split: option.splits)

lemma offset_loop_ok:
  "list_all in_mem chs \<Longrightarrow> offset_loop c chs off =
    Some (case memchr c (bytes_of chs) of None \<Rightarrow> - 1 | Some i \<Rightarrow> int (off + i))"
  by (induction chs arbitrary: off) (auto simp: mem_read_all memchr_append length_ch_bytes split: option.splits)

lemma get_line_ok:
  assumes "buf_ok b" "alloc_of (chunks b) \<le> t"
  shows "case memchr (CHR 0x0A) (contents b) of
      None \<Rightarrow> buf_get_line data_len b t = Some (0, [], data_len, b, t)
    | Some i \<Rightarrow>
      if data_len < i + 2 then buf_get_line data_len b t = Some (- 1, [], i + 2, b, t)
      else \<exists>b' t'. buf_get_line data_len b t = Some (1, take (i + 1) (contents b), i + 1, b', t')
        \<and> becomes b t b' t' (drop (i + 1) (contents b))"
proof -
  have off: "buf_find_offset_of_char b c = Some (case memchr c (contents b) of None \<Rightarrow> - 1 | Some i \<Rightarrow> int i)" for c
    using assms(1) by (simp add: buf_find_offset_of_char_def offset_loop_ok buf_ok_def split: option.split)
  show ?thesis
  proof (cases "memchr (CHR 0x0A) (contents b)")
    case None
    then show ?thesis using off by (simp add: buf_get_line_def)
  next
    case (Some i)
    then have i: "i + 1 \<le> length (contents b)" "chunks b \<noteq> []" by (auto simp: memchr_Some)
    obtain b' t' where "buf_get_bytes (i + 1) b t = Some (int (length (contents b) - (i + 1)), take (i + 1) (contents b), b', t')"
      "becomes b t b' t' (drop (i + 1) (contents b))"
      using get_bytes_ok [OF assms(1) i(1) assms(2)] by blast
    then show ?thesis using Some off i(2) by (simp add: buf_get_line_def)
  qed
qed

text \<open>A valid position, and the bytes from it on.\<close>

definition rest_at :: "buf_pos \<Rightarrow> string" where "rest_at p = drop (pos p) (bytes_of (pos_chunks p))"

definition pos_ok :: "buf_pos \<Rightarrow> bool" where
  "pos_ok p \<longleftrightarrow> list_all in_mem (pos_chunks p) \<and> no_empty (pos_chunks p)
    \<and> length (bytes_of (pos_chunks p)) \<le> BUF_MAX_LEN
    \<and> (case pos_chunks p of [] \<Rightarrow> False | ch # _ \<Rightarrow> pos p < ch_datalen ch)"

lemma find_char_ok:
  assumes "list_all in_mem (ch # chs)" "no_empty (ch # chs)" "length (bytes_of (ch # chs)) \<le> BUF_MAX_LEN" "p \<le> ch_datalen ch"
  shows "case memchr c (drop p (bytes_of (ch # chs))) of
      None \<Rightarrow> \<exists>q. find_char_loop c p (ch # chs) cp = Some (- 1, q)
    | Some i \<Rightarrow> \<exists>q. find_char_loop c p (ch # chs) cp = Some (int (cp + p + i), q) \<and> pos_ok q
        \<and> rest_at q = drop i (drop p (bytes_of (ch # chs))) \<and> chunk_pos q + pos q = cp + p + i"
  using assms
proof (induction chs arbitrary: ch p cp)
  case (Nil ch p cp)
  have r: "mem_read ch (ch_data ch + p) (ch_datalen ch - p) = Some (drop p (ch_bytes ch))"
    using mem_read_data [of ch p "ch_datalen ch - p"] Nil by (simp add: length_ch_bytes)
  show ?case
  proof (cases "memchr c (drop p (ch_bytes ch))")
    case (Some i)
    then have "p + i < ch_datalen ch" using Nil by (auto simp: memchr_Some length_ch_bytes)
    then show ?thesis using Some Nil r by (simp add: pos_ok_def rest_at_def add.commute)
  qed (use r in simp)
next
  case (Cons ch' chs ch p cp)
  have ch: "in_mem ch" using Cons.prems(1) by simp
  have r: "mem_read ch (ch_data ch + p) (ch_datalen ch - p) = Some (drop p (ch_bytes ch))"
    using mem_read_data [of ch p "ch_datalen ch - p"] Cons.prems ch by (simp add: length_ch_bytes)
  have d: "drop p (bytes_of (ch # ch' # chs)) = drop p (ch_bytes ch) @ bytes_of (ch' # chs)"
    using Cons.prems(4) ch by (simp add: length_ch_bytes)
  show ?case
  proof (cases "memchr c (drop p (ch_bytes ch))")
    case (Some i)
    then have "p + i < ch_datalen ch" by (auto simp: memchr_Some length_ch_bytes [OF ch])
    let ?q = "\<lparr>pos_chunks = ch # ch' # chs, pos = p + i, chunk_pos = cp\<rparr>"
    have "find_char_loop c p (ch # ch' # chs) cp = Some (int (cp + p + i), ?q)" using Some r by (simp add: add.assoc)
    moreover have "pos_ok ?q" using Cons.prems \<open>p + i < _\<close> by (simp add: pos_ok_def)
    moreover have "rest_at ?q = drop i (drop p (bytes_of (ch # ch' # chs)))"
      unfolding rest_at_def buf_pos.simps drop_drop by (simp only: add.commute)
    moreover have "memchr c (drop p (bytes_of (ch # ch' # chs))) = Some i" unfolding d memchr_append Some by simp
    ultimately show ?thesis by (simp only: option.case) (intro exI [of _ ?q], simp)
  next
    case None
    have IH: "case memchr c (drop 0 (bytes_of (ch' # chs))) of
      None \<Rightarrow> \<exists>q. find_char_loop c 0 (ch' # chs) (cp + ch_datalen ch) = Some (- 1, q)
    | Some i \<Rightarrow> \<exists>q. find_char_loop c 0 (ch' # chs) (cp + ch_datalen ch) = Some (int (cp + ch_datalen ch + 0 + i), q) \<and> pos_ok q
        \<and> rest_at q = drop i (drop 0 (bytes_of (ch' # chs))) \<and> chunk_pos q + pos q = cp + ch_datalen ch + 0 + i"
      by (rule Cons.IH) (use Cons.prems in auto)
    have l: "length (drop p (ch_bytes ch)) + p = ch_datalen ch"
      using Cons.prems(4) length_ch_bytes [OF ch] by simp
    have step: "find_char_loop c p (ch # ch' # chs) cp = find_char_loop c 0 (ch' # chs) (cp + ch_datalen ch)"
      using r None by simp
    show ?thesis unfolding d step memchr_append None
      using IH l by (auto simp del: find_char_loop.simps bytes_of_simps split: option.splits simp: add.assoc)
  qed
qed

lemma pos_inc_ok:
  assumes "pos_ok p"
  shows "if length (rest_at p) = 1 then \<exists>q. buf_pos_inc p = Some (False, q)
    else \<exists>q. buf_pos_inc p = Some (True, q) \<and> pos_ok q \<and> rest_at q = tl (rest_at p)
      \<and> chunk_pos q + pos q = Suc (chunk_pos p + pos p)"
proof -
  obtain ch chs where c: "pos_chunks p = ch # chs" "pos p < ch_datalen ch"
    using assms by (auto simp: pos_ok_def split: list.splits)
  have ch: "in_mem ch" "list_all in_mem chs" "no_empty chs" "length (ch_bytes ch) + length (bytes_of chs) \<le> BUF_MAX_LEN"
    using assms c by (auto simp: pos_ok_def)
  have lt: "pos p < BUF_MAX_LEN" using c(2) ch(1,4) by (simp add: length_ch_bytes)
  have rest: "rest_at p = drop (pos p) (ch_bytes ch) @ bytes_of chs"
    using c ch(1) by (simp add: rest_at_def length_ch_bytes)
  show ?thesis
  proof (cases "pos p + 1 = ch_datalen ch")
    case False
    then have "1 < length (drop (pos p) (ch_bytes ch))" using c(2) ch(1) by (simp add: length_ch_bytes)
    moreover have "tl (rest_at p) = drop (pos p + 1) (bytes_of (pos_chunks p))"
      by (simp add: rest_at_def drop_Suc tl_drop)
    ultimately show ?thesis using False c lt rest ch
      by (simp add: buf_pos_inc_def Let_def pos_ok_def) (simp add: rest_at_def)
  next
    case True
    then obtain x where x: "drop (pos p) (ch_bytes ch) = [x]"
      using ch(1) length_ch_bytes [OF ch(1)] by (metis Cons_nth_drop_Suc c(2) drop_all order_refl Suc_eq_plus1)
    show ?thesis
    proof (cases chs)
      case Nil
      then show ?thesis using True c lt rest x by (simp add: buf_pos_inc_def Let_def)
    next
      case (Cons ch' chs')
      then have "bytes_of chs \<noteq> []" using ch(2,3) length_ch_bytes [of ch'] by auto
      then show ?thesis using True c lt rest x Cons ch
        by (simp add: buf_pos_inc_def Let_def pos_ok_def rest_at_def)
    qed
  qed
qed

lemma matches_ok:
  "pos_ok p \<Longrightarrow> buf_matches_at_pos p s = Some (prefix s (rest_at p))"
proof (induction s arbitrary: p)
  case (Cons c s)
  obtain ch chs where ch: "pos_chunks p = ch # chs" "pos p < ch_datalen ch" "in_mem ch"
    using Cons.prems by (auto simp: pos_ok_def split: list.splits)
  have r: "mem_read ch (ch_data ch + pos p) 1 = Some [ch_bytes ch ! pos p]"
    using mem_read_data [of ch "pos p" 1] ch by (simp add: length_ch_bytes take_Suc hd_drop_conv_nth)
  have hd: "rest_at p = ch_bytes ch ! pos p # tl (rest_at p)"
    using ch by (simp add: rest_at_def length_ch_bytes) (metis Cons_nth_drop_Suc append_Cons length_ch_bytes list.sel(3))
  note inc = pos_inc_ok [OF Cons.prems]
  show ?case
  proof (cases "ch_bytes ch ! pos p = c \<and> s \<noteq> []")
    case False
    then have "prefix (c # s) (rest_at p) \<longleftrightarrow> ch_bytes ch ! pos p = c" by (subst hd) auto
    then show ?thesis using False r ch(1) by auto
  next
    case True
    then have pre: "prefix (c # s) (rest_at p) \<longleftrightarrow> prefix s (tl (rest_at p))"
      by (subst hd) simp
    show ?thesis
    proof (cases "length (rest_at p) = 1")
      case True2: True
      then have "tl (rest_at p) = []" by (cases "rest_at p") auto
      then show ?thesis unfolding pre using True True2 inc r ch(1) by auto
    next
      case False
      then obtain q where "buf_pos_inc p = Some (True, q)" "pos_ok q" "rest_at q = tl (rest_at p)"
        using inc by auto
      then show ?thesis unfolding pre using True r ch(1) Cons.IH [of q] by simp
    qed
  qed
qed simp

text \<open>The first place at which a string occurs.\<close>

fun first_at :: "string \<Rightarrow> string \<Rightarrow> nat option" where
  "first_at s [] = None"
| "first_at s (x # xs) = (if prefix s (x # xs) then Some 0 else map_option Suc (first_at s xs))"

lemma first_at_skip:
  assumes "s = c # s'" "memchr c xs = Some i"
  shows "first_at s xs = map_option (\<lambda>k. i + k) (first_at s (drop i xs))"
  using assms(2)
proof (induction xs arbitrary: i)
  case (Cons x xs)
  show ?case
  proof (cases "x = c")
    case False
    then obtain j where "i = Suc j" "memchr c xs = Some j" using Cons.prems by auto
    then show ?thesis using Cons.IH [of j] False assms(1) by (simp add: option.map_comp comp_def)
  qed (use Cons.prems in \<open>simp add: option.map_ident\<close>)
qed simp

lemma first_at_absent: "s = c # s' \<Longrightarrow> memchr c xs = None \<Longrightarrow> first_at s xs = None"
  by (induction xs) (auto split: if_splits)

lemma first_at_Some:
  "s \<noteq> [] \<Longrightarrow> first_at s xs = Some i \<longleftrightarrow> prefix s (drop i xs) \<and> (\<forall>j<i. \<not> prefix s (drop j xs))"
proof (induction xs arbitrary: i)
  case (Cons x xs)
  show ?case
  proof (cases i)
    case (Suc k)
    have "(\<forall>j<Suc k. \<not> prefix s (drop j (x # xs))) \<longleftrightarrow> \<not> prefix s (x # xs) \<and> (\<forall>j<k. \<not> prefix s (drop j xs))"
      by (auto simp: less_Suc_eq_0_disj)
    then show ?thesis using Cons Suc by auto
  qed (use Cons.prems in auto)
qed simp

lemma find_string_loop_ok:
  assumes "s = c # s'"
  shows "pos_ok p \<Longrightarrow> length (rest_at p) < n \<Longrightarrow> chunk_pos p + pos p + length (rest_at p) \<le> BUF_MAX_LEN \<Longrightarrow>
    find_string_loop n s p = Some (case first_at s (rest_at p) of None \<Rightarrow> - 1 | Some i \<Rightarrow> int (chunk_pos p + pos p + i))"
proof (induction n arbitrary: p)
  case (Suc n)
  obtain ch chs where c: "pos_chunks p = ch # chs" "pos p < ch_datalen ch" "list_all in_mem (ch # chs)"
    "no_empty (ch # chs)" "length (bytes_of (ch # chs)) \<le> BUF_MAX_LEN"
    using Suc.prems(1) by (auto simp: pos_ok_def split: list.splits)
  have rest: "rest_at p = drop (pos p) (bytes_of (ch # chs))" using c(1) by (simp add: rest_at_def)
  have find: "buf_find_pos_of_char c p = find_char_loop c (pos p) (ch # chs) (chunk_pos p)"
    using c(1,2) by (simp add: buf_find_pos_of_char_def)
  have ok: "pos p \<le> ch_datalen ch" using c(2) by simp
  note fc = find_char_ok [OF c(3-5) ok, of c "chunk_pos p", folded rest find]
  show ?case
  proof (cases "memchr c (rest_at p)")
    case None
    then show ?thesis using fc first_at_absent [OF assms None] assms by auto
  next
    case (Some i)
    then obtain q where q: "buf_find_pos_of_char c p = Some (int (chunk_pos p + pos p + i), q)" "pos_ok q"
      "rest_at q = drop i (rest_at p)" "chunk_pos q + pos q = chunk_pos p + pos p + i"
      using fc by auto
    have i: "i < length (rest_at p)" using Some by (simp add: memchr_Some)
    have m: "buf_matches_at_pos q s = Some (prefix s (rest_at q))" by (rule matches_ok [OF q(2)])
    note first = first_at_skip [OF assms Some, folded q(3)]
    have "rest_at q \<noteq> []" using i q(3) by simp
    then obtain y ys where y: "rest_at q = y # ys" by (meson neq_Nil_conv)
    show ?thesis
    proof (cases "prefix s (rest_at q)")
      case True
      then have "first_at s (rest_at q) = Some 0" using y by simp
      then show ?thesis using q(1,4) m True first assms Suc.prems(3) i by simp
    next
      case False
      show ?thesis
      proof (cases "ys = []")
        case True
        then have "length (rest_at q) = 1" using y by simp
        moreover have "first_at s (rest_at q) = None" using False y True by simp
        ultimately show ?thesis using pos_inc_ok [OF q(2)] q(1) m False first assms by auto
      next
        case ys: False
        then obtain r where r: "buf_pos_inc q = Some (True, r)" "pos_ok r" "rest_at r = ys"
          "chunk_pos r + pos r = Suc (chunk_pos q + pos q)"
          using pos_inc_ok [OF q(2)] y by auto
        have l: "Suc (length ys) + i = length (rest_at p)" using q(3) y i by (metis length_Cons length_drop add_diff_inverse_nat add.commute less_imp_le not_less)
        have "find_string_loop n s r = Some (case first_at s (rest_at r) of None \<Rightarrow> - 1 | Some i \<Rightarrow> int (chunk_pos r + pos r + i))"
          by (rule Suc.IH) (use r q(4) l Suc.prems in auto)
        moreover have "first_at s (rest_at q) = map_option Suc (first_at s ys)" using False y by simp
        ultimately show ?thesis using q(1,4) m False first assms r
          by (auto split: option.split)
      qed
    qed
  qed
qed simp

lemma find_string_ok:
  assumes "buf_ok b" "no_empty (chunks b)" "s \<noteq> []"
  shows "buf_find_string_offset b s = Some (case first_at s (contents b) of None \<Rightarrow> - 1 | Some i \<Rightarrow> int i)"
proof (cases "chunks b")
  case Nil
  then show ?thesis by (simp add: buf_find_string_offset_def buf_pos_init_def buf_find_pos_of_char_def)
next
  case (Cons ch chs)
  obtain c s' where s: "s = c # s'" using assms(3) by (cases s) auto
  note ok = assms(1) [unfolded buf_ok_def]
  have "pos_ok (buf_pos_init b)" "rest_at (buf_pos_init b) = contents b"
    using ok assms(2) Cons by (auto simp: pos_ok_def buf_pos_init_def rest_at_def)
  moreover have "chunk_pos (buf_pos_init b) + pos (buf_pos_init b) = 0" by (simp add: buf_pos_init_def)
  ultimately show ?thesis
    using find_string_loop_ok [OF s, of "buf_pos_init b" "buf_datalen b + length (chunks b) + 1"] ok
    unfolding buf_find_string_offset_def by (simp del: find_string_loop.simps split: option.split)
qed

lemma prefix_take: "prefix s t \<longleftrightarrow> length s \<le> length t \<and> take (length s) t = s"
  by (metis append_eq_conv_conj append_take_drop_id prefix_def prefix_length_le)

lemma startswith_ok:
  "buf_ok b \<Longrightarrow> length cmd \<le> PEEK_BUF_STARTSWITH_MAX \<Longrightarrow> buf_peek_startswith b cmd = Some (prefix cmd (contents b))"
  by (auto simp: buf_peek_startswith_def Let_def peek_ok buf_ok_def prefix_take)

section \<open>The queue of bytes\<close>

text \<open>What a user of a buffer sees of an operation: the return value, the bytes that come out, the length that
  reading a line sets, and the bytes that stay. \<^const>\<open>None\<close> is a failed assertion. Pulling up changes nothing; the piece
  of memory it gives is not a matter of the queue.\<close>

datatype buf_op = OpAdd string | OpGet nat | OpDrain nat | OpPeek nat | OpPullup nat | OpLine nat | OpStartsWith string
  | OpFindChar char | OpFindString string | OpClear

type_synonym op_result = "int \<times> string \<times> nat"

fun fifo_step :: "buf_op \<Rightarrow> string \<Rightarrow> (op_result \<times> string) option" where
  "fifo_step (OpAdd s) q =
    (if length q + length s \<le> BUF_MAX_LEN then Some ((int (length q + length s), [], 0), q @ s)
     else if length s \<le> BUF_MAX_LEN then Some ((- 1, [], 0), q) else None)"
| "fifo_step (OpGet n) q = (if n \<le> length q then Some ((int (length q - n), take n q, 0), drop n q) else None)"
| "fifo_step (OpDrain n) q = (if n \<le> length q then Some ((0, [], 0), drop n q) else None)"
| "fifo_step (OpPeek n) q = (if n \<le> length q then Some ((0, take n q, 0), q) else None)"
| "fifo_step (OpPullup n) q = Some ((0, [], 0), q)"
| "fifo_step (OpLine max_len) q =
    (case memchr (CHR 0x0A) q of None \<Rightarrow> Some ((0, [], max_len), q)
     | Some i \<Rightarrow> if max_len < i + 2 then Some ((- 1, [], i + 2), q) else Some ((1, take (i + 1) q, i + 1), drop (i + 1) q))"
| "fifo_step (OpStartsWith cmd) q =
    Some ((if length cmd \<le> PEEK_BUF_STARTSWITH_MAX \<and> prefix cmd q then 1 else 0, [], 0), q)"
| "fifo_step (OpFindChar c) q = Some ((case memchr c q of None \<Rightarrow> - 1 | Some i \<Rightarrow> int i, [], 0), q)"
| "fifo_step (OpFindString s) q = Some ((case first_at s q of None \<Rightarrow> - 1 | Some i \<Rightarrow> int i, [], 0), q)"
| "fifo_step OpClear q = Some ((0, [], 0), [])"

fun buf_step :: "char \<Rightarrow> int \<Rightarrow> buf_op \<Rightarrow> buf \<times> nat \<Rightarrow> (op_result \<times> buf \<times> nat) option" where
  "buf_step u now (OpAdd s) (b, t) = map_option (\<lambda>(r, b, t). ((r, [], 0), b, t)) (buf_add u now s b t)"
| "buf_step u now (OpGet n) (b, t) = map_option (\<lambda>(r, s, b, t). ((r, s, 0), b, t)) (buf_get_bytes n b t)"
| "buf_step u now (OpDrain n) (b, t) = map_option (\<lambda>(b, t). ((0, [], 0), b, t)) (buf_drain n b t)"
| "buf_step u now (OpPeek n) (b, t) = map_option (\<lambda>s. ((0, s, 0), b, t)) (buf_peek b n)"
| "buf_step u now (OpPullup n) (b, t) = map_option (\<lambda>(_, b, t). ((0, [], 0), b, t)) (buf_pullup u n b t)"
| "buf_step u now (OpLine max_len) (b, t) = map_option (\<lambda>(r, s, n, b, t). ((r, s, n), b, t)) (buf_get_line max_len b t)"
| "buf_step u now (OpStartsWith cmd) (b, t) = map_option (\<lambda>r. ((if r then 1 else 0, [], 0), b, t)) (buf_peek_startswith b cmd)"
| "buf_step u now (OpFindChar c) (b, t) = map_option (\<lambda>r. ((r, [], 0), b, t)) (buf_find_offset_of_char b c)"
| "buf_step u now (OpFindString s) (b, t) = map_option (\<lambda>r. ((r, [], 0), b, t)) (buf_find_string_offset b s)"
| "buf_step u now OpClear (b, t) = map_option (\<lambda>(b, t). ((0, [], 0), b, t)) (buf_clear b t)"

fun op_sane :: "buf_op \<Rightarrow> bool" where
  "op_sane (OpAdd s) \<longleftrightarrow> length s < 9223372036854775808"
| "op_sane (OpFindString s) \<longleftrightarrow> s \<noteq> []"
| "op_sane _ \<longleftrightarrow> True"

text \<open>Two buffers, and moving bytes or whole chunks from the second to the first.\<close>

datatype pair_op = OnFirst buf_op | OnSecond buf_op | MoveBytes nat | MoveAll

fun fifo_pair_step :: "pair_op \<Rightarrow> string \<times> string \<Rightarrow> (op_result \<times> string \<times> string) option" where
  "fifo_pair_step (OnFirst x) (q1, q2) = map_option (\<lambda>(r, q). (r, q, q2)) (fifo_step x q1)"
| "fifo_pair_step (OnSecond x) (q1, q2) = map_option (\<lambda>(r, q). (r, q1, q)) (fifo_step x q2)"
| "fifo_pair_step (MoveBytes n) (q1, q2) =
    (if BUF_MAX_LEN < length q1 + n then Some ((- 1, [], n), q1, q2)
     else let m = min n (length q2) in Some ((int m, [], n - m), q1 @ take m q2, drop m q2))"
| "fifo_pair_step MoveAll (q1, q2) =
    (if BUF_MAX_LEN < length q1 + length q2 then Some ((0, [], 0), q1, q2)
     else Some ((int (length q2), [], 0), q1 @ q2, []))"

fun buf_pair_step :: "char \<Rightarrow> int \<Rightarrow> pair_op \<Rightarrow> (buf \<times> buf) \<times> nat \<Rightarrow> (op_result \<times> (buf \<times> buf) \<times> nat) option" where
  "buf_pair_step u now (OnFirst x) ((b1, b2), t) = map_option (\<lambda>(r, b, t). (r, (b, b2), t)) (buf_step u now x (b1, t))"
| "buf_pair_step u now (OnSecond x) ((b1, b2), t) = map_option (\<lambda>(r, b, t). (r, (b1, b), t)) (buf_step u now x (b2, t))"
| "buf_pair_step u now (MoveBytes n) ((b1, b2), t) =
    map_option (\<lambda>(r, left, b1, b2, t). ((r, [], left), (b1, b2), t)) (buf_move_to_buf u now b1 b2 n t)"
| "buf_pair_step u now MoveAll ((b1, b2), t) =
    (case buf_move_all b1 (Some b2) of
       (n, b1, Some b2) \<Rightarrow> Some ((int n, [], 0), (b1, b2), t)
     | (n, b1, None) \<Rightarrow> None)"

fun pair_sane :: "pair_op \<Rightarrow> bool" where
  "pair_sane (OnFirst x) \<longleftrightarrow> op_sane x"
| "pair_sane (OnSecond x) \<longleftrightarrow> op_sane x"
| "pair_sane _ \<longleftrightarrow> True"

text \<open>An implementation of a specified machine: its steps, seen through an abstraction, are the steps of
  the specification, and they keep an invariant. Then so are its runs.\<close>

fun run_steps :: "('op \<Rightarrow> 's \<Rightarrow> ('r \<times> 's) option) \<Rightarrow> 'op list \<Rightarrow> 's \<Rightarrow> ('r list \<times> 's) option" where
  "run_steps step [] s = Some ([], s)"
| "run_steps step (x # xs) s =
    (case step x s of None \<Rightarrow> None
     | Some (r, s') \<Rightarrow> map_option (\<lambda>(rs, s''). (r # rs, s'')) (run_steps step xs s'))"

locale implementation =
  fixes invar :: "'s \<Rightarrow> bool" and abstract :: "'s \<Rightarrow> 'a" and sane :: "'op \<Rightarrow> bool"
    and step :: "'op \<Rightarrow> 's \<Rightarrow> ('r \<times> 's) option" and spec :: "'op \<Rightarrow> 'a \<Rightarrow> ('r \<times> 'a) option"
  assumes step_refines: "invar s \<Longrightarrow> sane x \<Longrightarrow> map_option (\<lambda>(r, s'). (r, abstract s')) (step x s) = spec x (abstract s)"
    and step_invar: "invar s \<Longrightarrow> sane x \<Longrightarrow> step x s = Some (r, s') \<Longrightarrow> invar s'"
begin

lemma run_refines:
  assumes "invar s" "\<forall>x\<in>set xs. sane x"
  shows "map_option (\<lambda>(rs, s'). (rs, abstract s')) (run_steps step xs s) = run_steps spec xs (abstract s)"
  using assms
proof (induction xs arbitrary: s)
  case (Cons x xs)
  note r = step_refines [OF Cons.prems(1), of x]
  show ?case
  proof (cases "step x s")
    case None
    then show ?thesis using r Cons.prems by auto
  next
    case (Some y)
    obtain rv s' where y: "y = (rv, s')" by fastforce
    have "sane x" "step x s = Some (rv, s')" using Cons.prems(2) Some y by simp_all
    then have i: "invar s'" by (rule step_invar [OF Cons.prems(1)])
    have sp: "spec x (abstract s) = Some (rv, abstract s')" using r Cons.prems(2) Some y by simp
    show ?thesis using Some y sp Cons.IH [OF i] Cons.prems(2)
      by (simp del: map_option_eq_Some) (auto simp: option.map_comp comp_def case_prod_unfold split: option.splits
        dest!: sym [where t = "run_steps spec xs (abstract s')"] intro!: map_option_cong)
  qed
qed simp

lemma run_invar: "invar s \<Longrightarrow> \<forall>x\<in>set xs. sane x \<Longrightarrow> run_steps step xs s = Some (rs, s') \<Longrightarrow> invar s'"
  by (induction xs arbitrary: s rs) (auto split: option.splits dest: step_invar)

end

text \<open>The invariant: well formed, without empty chunks, and the counter is \<open>k\<close> (what other buffers have)
  and the allocation of the buffer.\<close>

definition buf_state_ok :: "nat \<Rightarrow> buf \<times> nat \<Rightarrow> bool" where
  "buf_state_ok k s \<longleftrightarrow> buf_ok (fst s) \<and> no_empty (chunks (fst s)) \<and> snd s = k + buf_allocation (fst s)"

lemma state_ok_becomes:
  assumes "buf_state_ok k (b, t)" "becomes b t b' t' s"
  shows "buf_state_ok k (b', t')"
proof -
  have "buf_allocation b = alloc_of (chunks b)" "buf_allocation b' = alloc_of (chunks b')"
    by (simp_all add: buf_allocation_def alloc_of_def)
  then show ?thesis using assms by (auto simp: buf_state_ok_def becomes_def)
qed

lemma becomes_contents: "becomes b t b' t' s \<Longrightarrow> contents b' = s"
  by (simp add: becomes_def)

lemma clear_ok:
  assumes "buf_ok b" "alloc_of (chunks b) \<le> t"
  shows "\<exists>b' t'. buf_clear b t = Some (b', t') \<and> becomes b t b' t' []"
proof -
  have "alloc_of chs \<le> t \<Longrightarrow> clear_loop chs t = Some (t - alloc_of chs)" for chs t
    by (induction chs arbitrary: t) (auto simp: free_ok)
  then show ?thesis using assms by (simp add: buf_clear_def becomes_def buf_ok_def)
qed

text \<open>Every step either fails as the specification says, leaves the buffer alone, or turns it into one
  with the bytes the specification says.\<close>

lemma buf_step_cases:
  assumes "buf_state_ok k (b, t)" "op_sane x"
  shows "case fifo_step x (contents b) of None \<Rightarrow> buf_step u now x (b, t) = None
    | Some (r, q) \<Rightarrow> \<exists>b' t'. buf_step u now x (b, t) = Some (r, b', t') \<and> becomes b t b' t' q"
proof -
  have ok: "buf_ok b" "alloc_of (chunks b) \<le> t" "length (contents b) \<le> BUF_MAX_LEN"
    using assms(1) by (auto simp: buf_state_ok_def buf_ok_def buf_allocation_def alloc_of_def)
  show ?thesis
  proof (cases x)
    case (OpAdd s)
    consider "length (contents b) + length s \<le> BUF_MAX_LEN" | "BUF_MAX_LEN < length (contents b) + length s" "length s \<le> BUF_MAX_LEN"
      | "BUF_MAX_LEN < length s" by linarith
    then show ?thesis
    proof cases
      case 1
      then show ?thesis using add_ok [OF ok(1), of s u now t] OpAdd by auto
    next
      case 2
      then show ?thesis using add_refused [OF ok(1) 2, of u now t] OpAdd becomes_refl [OF ok(1)] by simp
    next
      case 3
      then show ?thesis using add_oversized [OF ok(1) 3] OpAdd assms(2) by simp
    qed
  next
    case (OpGet n)
    then show ?thesis using get_bytes_ok [OF ok(1) _ ok(2), of n] get_too_much [OF ok(1), of n] by auto
  next
    case (OpDrain n)
    then show ?thesis using drain_within [OF ok(1) _ ok(2), of n] drain_too_much [OF ok(1), of n] by auto
  next
    case (OpPullup n)
    then show ?thesis using pullup_ok [OF ok(1,2), of u n] by auto
  next
    case (OpLine m)
    then show ?thesis using get_line_ok [OF ok(1,2), of m] becomes_refl [OF ok(1)]
      by (auto split: option.splits if_splits)
  next
    case (OpPeek n)
    then show ?thesis using peek_ok [OF ok(1), of n] becomes_refl [OF ok(1)] by auto
  next
    case (OpFindChar c)
    have "buf_find_offset_of_char b c = Some (case memchr c (contents b) of None \<Rightarrow> - 1 | Some i \<Rightarrow> int i)"
      using ok(1) by (simp add: buf_find_offset_of_char_def offset_loop_ok buf_ok_def split: option.split)
    then show ?thesis using OpFindChar becomes_refl [OF ok(1)] by auto
  next
    case (OpFindString s)
    have "buf_find_string_offset b s = Some (case first_at s (contents b) of None \<Rightarrow> - 1 | Some i \<Rightarrow> int i)"
      using find_string_ok [OF ok(1), of s] assms OpFindString by (simp add: buf_state_ok_def)
    then show ?thesis using OpFindString becomes_refl [OF ok(1)] by auto
  next
    case OpClear
    then show ?thesis using clear_ok [OF ok(1,2)] by auto
  next
    case (OpStartsWith cmd)
    have "buf_peek_startswith b cmd = Some (length cmd \<le> PEEK_BUF_STARTSWITH_MAX \<and> prefix cmd (contents b))"
      using startswith_ok [OF ok(1), of cmd]
      by (cases "length cmd \<le> PEEK_BUF_STARTSWITH_MAX") (auto simp: buf_peek_startswith_def Let_def)
    then show ?thesis using OpStartsWith becomes_refl [OF ok(1)] by auto
  qed
qed

text \<open>Two buffers, with \<open>k\<close> bytes allocated elsewhere.\<close>

definition pair_ok :: "nat \<Rightarrow> (buf \<times> buf) \<times> nat \<Rightarrow> bool" where
  "pair_ok k = (\<lambda>((b1, b2), t). buf_ok b1 \<and> buf_ok b2 \<and> no_empty (chunks b1) \<and> no_empty (chunks b2)
     \<and> t = k + buf_allocation b1 + buf_allocation b2)"

definition pair_contents :: "(buf \<times> buf) \<times> nat \<Rightarrow> string \<times> string" where
  "pair_contents = (\<lambda>((b1, b2), t). (contents b1, contents b2))"

lemma pair_ok_each:
  "pair_ok k ((b1, b2), t) \<longleftrightarrow> buf_state_ok (k + buf_allocation b2) (b1, t) \<and> buf_state_ok (k + buf_allocation b1) (b2, t)"
  by (auto simp: pair_ok_def buf_state_ok_def)

lemma move_bytes_ok:
  assumes "pair_ok k ((b1, b2), t)" "length (contents b1) + n \<le> BUF_MAX_LEN"
  shows "\<exists>b1' b2' t'. buf_move_to_buf u now b1 b2 n t = Some (int (min n (length (contents b2))), n - min n (length (contents b2)), b1', b2', t')
    \<and> pair_ok k ((b1', b2'), t') \<and> contents b1' = contents b1 @ take n (contents b2) \<and> contents b2' = drop n (contents b2)"
proof -
  have a: "buf_allocation b = alloc_of (chunks b)" for b by (simp add: buf_allocation_def alloc_of_def)
  have ok: "buf_ok b1" "buf_ok b2" "alloc_of (chunks b1) + alloc_of (chunks b2) \<le> t"
    using assms(1) by (simp_all add: pair_ok_def a)
  let ?m = "min n (length (contents b2))"
  have "?m \<le> length (contents b2)" "length (contents b1) + ?m \<le> BUF_MAX_LEN" using assms(2) by simp_all
  from move_loop_ok [OF ok(1,2) this ok(3), of u now] obtain b1' b2' t' where m: "move_loop u now ?m b1 b2 t = Some (b1', b2', t')"
    "buf_ok b1'" "buf_ok b2'" "contents b1' = contents b1 @ take ?m (contents b2)" "contents b2' = drop ?m (contents b2)"
    "t' + alloc_of (chunks b1) + alloc_of (chunks b2) = t + alloc_of (chunks b1') + alloc_of (chunks b2')"
    "no_empty (chunks b1) \<longrightarrow> no_empty (chunks b1')" "no_empty (chunks b2) \<longrightarrow> no_empty (chunks b2')" by blast
  have len: "buf_datalen b1 = length (contents b1)" "buf_datalen b2 = length (contents b2)" using ok(1,2) by (simp_all add: buf_ok_def)
  have "(if n > buf_datalen b2 then buf_datalen b2 else n) = ?m" using len by auto
  then have "buf_move_to_buf u now b1 b2 n t = Some (int ?m, n - ?m, b1', b2', t')"
    using m(1) len assms(2) by (simp add: buf_move_to_buf_def Let_def)
  moreover have "take ?m (contents b2) = take n (contents b2)" "drop ?m (contents b2) = drop n (contents b2)" by (auto simp: min_def)
  ultimately show ?thesis using m assms(1) by (auto simp: pair_ok_def a)
qed

lemma move_all_ok:
  assumes "pair_ok k ((b1, b2), t)"
  shows "\<exists>b1' b2'. buf_pair_step u now MoveAll ((b1, b2), t)
      = Some ((if BUF_MAX_LEN < length (contents b1) + length (contents b2) then 0 else int (length (contents b2)), [], 0), (b1', b2'), t)
    \<and> pair_ok k ((b1', b2'), t)
    \<and> (contents b1', contents b2') = (if BUF_MAX_LEN < length (contents b1) + length (contents b2) then (contents b1, contents b2)
        else (contents b1 @ contents b2, []))"
proof -
  have "buf_datalen b1 = length (contents b1)" "buf_datalen b2 = length (contents b2)" "length (contents b1) \<le> BUF_MAX_LEN"
    "length (contents b2) \<le> BUF_MAX_LEN"
    using assms by (simp_all add: pair_ok_def buf_ok_def)
  then show ?thesis
    using assms by (auto simp: buf_move_all_def pair_ok_def buf_ok_def buf_allocation_def no_empty_def)
qed

text \<open>Every step of the pair is the step of the two strings, and keeps the invariant.\<close>

lemma buf_pair_step_cases:
  assumes "pair_ok k ((b1, b2), t)" "pair_sane x"
  shows "case fifo_pair_step x (contents b1, contents b2) of None \<Rightarrow> buf_pair_step u now x ((b1, b2), t) = None
    | Some (r, qs) \<Rightarrow> \<exists>b1' b2' t'. buf_pair_step u now x ((b1, b2), t) = Some (r, (b1', b2'), t')
        \<and> pair_ok k ((b1', b2'), t') \<and> (contents b1', contents b2') = qs"
proof (cases x)
  case (OnFirst y)
  have s: "buf_state_ok (k + buf_allocation b2) (b1, t)" using assms(1) by (simp add: pair_ok_each)
  have "op_sane y" using assms(2) OnFirst by simp
  note c = buf_step_cases [OF s this, of u now]
  have "pair_ok k ((b', b2), t')" if "becomes b1 t b' t' q" for b' t' q
    using state_ok_becomes [OF s that] assms(1) by (auto simp: pair_ok_def buf_state_ok_def)
  then show ?thesis using c OnFirst by (auto simp: becomes_contents split: option.splits)
next
  case (OnSecond y)
  have s: "buf_state_ok (k + buf_allocation b1) (b2, t)" using assms(1) by (simp add: pair_ok_each)
  have "op_sane y" using assms(2) OnSecond by simp
  note c = buf_step_cases [OF s this, of u now]
  have "pair_ok k ((b1, b'), t')" if "becomes b2 t b' t' q" for b' t' q
    using state_ok_becomes [OF s that] assms(1) by (auto simp: pair_ok_def buf_state_ok_def)
  then show ?thesis using c OnSecond by (auto simp: becomes_contents split: option.splits)
next
  case (MoveBytes n)
  show ?thesis
  proof (cases "length (contents b1) + n \<le> BUF_MAX_LEN")
    case True
    then show ?thesis using move_bytes_ok [OF assms(1) True, of u now] MoveBytes by (auto simp: Let_def min_def)
  next
    case False
    then have "buf_move_to_buf u now b1 b2 n t = Some (- 1, n, b1, b2, t)"
      using assms(1) by (auto simp: buf_move_to_buf_def pair_ok_def buf_ok_def)
    then show ?thesis using False MoveBytes assms(1) by simp
  qed
next
  case MoveAll
  then show ?thesis using move_all_ok [OF assms(1), of u now] by (auto simp del: buf_pair_step.simps split: if_split_asm)
qed

lemma buf_pair_step_refines:
  assumes "pair_ok k s" "pair_sane x"
  shows "map_option (\<lambda>(r, s'). (r, pair_contents s')) (buf_pair_step u now x s) = fifo_pair_step x (pair_contents s)"
    "buf_pair_step u now x s = Some (r, s') \<Longrightarrow> pair_ok k s'"
proof -
  obtain b1 b2 t where s: "s = ((b1, b2), t)" by (metis prod.exhaust)
  note c = buf_pair_step_cases [OF assms(1) [unfolded s] assms(2), of u now]
  show "map_option (\<lambda>(r, s'). (r, pair_contents s')) (buf_pair_step u now x s) = fifo_pair_step x (pair_contents s)"
    using c s by (auto simp: pair_contents_def split: option.splits)
  show "pair_ok k s'" if "buf_pair_step u now x s = Some (r, s')"
    using c s that by (auto split: option.splits)
qed

interpretation buf_fifo: implementation "pair_ok k" pair_contents pair_sane "buf_pair_step u now" fifo_pair_step
  for k u now
  by unfold_locales (rule buf_pair_step_refines; assumption)+

text \<open>C7: Two buffers that start without empty chunks, over any sequence of adding, taking, draining and peeking
  bytes, pulling up, reading lines, comparing the start, finding a character or a (nonempty) string, clearing, and
  moving bytes or everything from the second to the first, give the return values, bytes and lengths of lines
  that two strings used as queues give, and fail an assertion exactly when the strings do; no access leaves a
  chunk's memory, the consistency check of the code stays true and the allocation counter exact. Reads and
  writes on sockets are not among these operations.\<close>

theorem buffer_refines_byte_queue:
  assumes "pair_ok k s" "\<forall>x\<in>set ops. pair_sane x"
  shows "map_option (\<lambda>(rs, s'). (rs, pair_contents s')) (run_steps (buf_pair_step u now) ops s)
      = run_steps fifo_pair_step ops (pair_contents s)
    \<and> (\<forall>rs b1' b2' t'. run_steps (buf_pair_step u now) ops s = Some (rs, (b1', b2'), t')
         \<longrightarrow> buf_assert_ok b1' \<and> buf_assert_ok b2' \<and> t' = k + buf_allocation b1' + buf_allocation b2')"
proof -
  have "buf_assert_ok b1' \<and> buf_assert_ok b2' \<and> t' = k + buf_allocation b1' + buf_allocation b2'"
    if "run_steps (buf_pair_step u now) ops s = Some (rs, (b1', b2'), t')" for rs b1' b2' t'
    using buf_fifo.run_invar [OF assms that] ok_assert by (simp add: pair_ok_def)
  then show ?thesis using buf_fifo.run_refines [OF assms] by simp
qed

lemma new_state_ok: "pair_ok k ((buf_new, buf_new), k)"
  by (simp add: pair_ok_def buf_new_def buf_ok_def buf_allocation_def)

theorem buffer_refines_byte_queue_witness:
  "map_option fst (run_steps (buf_pair_step CHR ''u'' 0)
      [OnSecond (OpAdd (''one'' @ CHR 0x0A # ''two'')), MoveBytes 5, OnFirst (OpLine 10), OnSecond (OpFindString ''wo''), MoveAll,
       OnFirst (OpPullup 2), OnFirst (OpGet 2)] ((buf_new, buf_new), 7))
    = Some [(7, [], 0), (5, [], 0), (1, ''one'' @ [CHR 0x0A], 4), (0, [], 0), (2, [], 0), (0, [], 0), (1, ''tw'', 0)]"
proof -
  let ?ops = "[OnSecond (OpAdd (''one'' @ CHR 0x0A # ''two'')), MoveBytes 5, OnFirst (OpLine 10), OnSecond (OpFindString ''wo''), MoveAll,
       OnFirst (OpPullup 2), OnFirst (OpGet 2)]"
  have "map_option (\<lambda>(rs, s'). (rs, pair_contents s')) (run_steps (buf_pair_step CHR ''u'' 0) ?ops ((buf_new, buf_new), 7))
      = run_steps fifo_pair_step ?ops (pair_contents ((buf_new, buf_new), 7))"
    using buffer_refines_byte_queue [OF new_state_ok, of ?ops] by simp
  also have "\<dots> = Some ([(7, [], 0), (5, [], 0), (1, ''one'' @ [CHR 0x0A], 4), (0, [], 0), (2, [], 0), (0, [], 0), (1, ''tw'', 0)], ''o'', [])"
    by (simp add: pair_contents_def buf_new_def BUF_MAX_LEN_def Let_def)
  finally show ?thesis by (auto simp: map_option_eq_Some)
qed

text \<open>Pulling up never fails: it changes neither the bytes of the buffer nor the chunks' consistency,
  and gives at least the bytes asked for, or all there are, in one piece.\<close>

theorem pullup_gives_contiguous:
  assumes "buf_ok b" "buf_allocation b \<le> t"
  shows "\<exists>r b' t'. buf_pullup u n b t = Some (r, b', t') \<and> buf_assert_ok b' \<and> buf_extract b' = buf_extract b
    \<and> (case r of None \<Rightarrow> buf_extract b = Some [] | Some s \<Rightarrow>
        prefix s (contents b) \<and> length s \<ge> min n (buf_datalen b))"
proof -
  have "alloc_of (chunks b) \<le> t" using assms(2) by (simp add: buf_allocation_def alloc_of_def)
  from pullup_ok [OF assms(1) this, of u n] obtain r b' t' where p: "buf_pullup u n b t = Some (r, b', t')"
    "becomes b t b' t' (contents b)" "case r of None \<Rightarrow> contents b = [] | Some s \<Rightarrow>
      s = take (length s) (contents b) \<and> min n (length (contents b)) \<le> length s"
    by blast
  have ext: "buf_ok c \<Longrightarrow> buf_extract c = Some (contents c)" for c
    by (simp add: buf_extract_def peek_ok) (simp add: buf_ok_def)
  have "prefix s q" if "s = take (length s) q" for s q :: string
    using that by (metis take_is_prefix)
  then show ?thesis using p ext ok_assert assms(1) by (fastforce simp: becomes_def buf_ok_def split: option.splits)
qed

text \<open>Two chunks, the first of which is too small.\<close>

definition two_chunks :: buf where
  "two_chunks = \<lparr>buf_datalen = 5, default_chunk_size = 256,
    chunks = [\<lparr>ch_mem = ''xabc'', ch_data = 1, ch_datalen = 3, inserted_time = 0\<rparr>,
              \<lparr>ch_mem = ''de..'', ch_data = 0, ch_datalen = 2, inserted_time = 0\<rparr>]\<rparr>"

theorem pullup_gives_contiguous_witness:
  "\<exists>s b' t'. buf_pullup CHR ''u'' 5 two_chunks 104 = Some (Some s, b', t') \<and> prefix s ''abcde'' \<and> length s \<ge> 5"
proof -
  have "contents two_chunks = ''abcde''" by (simp add: two_chunks_def ch_bytes_def)
  moreover have ok: "buf_ok two_chunks" "buf_allocation two_chunks \<le> 104"
    by (simp_all add: two_chunks_def buf_ok_def in_mem_def ch_bytes_def BUF_MAX_LEN_def buf_allocation_def
      CHUNK_ALLOC_SIZE_def CHUNK_OVERHEAD_def)
  moreover have "buf_extract two_chunks = Some ''abcde''" by code_simp
  ultimately show ?thesis using pullup_gives_contiguous [OF ok, of "CHR ''u''" 5]
    by (auto simp: two_chunks_def split: option.splits)
qed

text \<open>In a buffer without empty chunks the search for a string finds its first occurrence.\<close>

theorem find_string_first:
  assumes "buf_state_ok k (b, t)" "s \<noteq> []"
  shows "\<exists>r. buf_find_string_offset b s = Some r
    \<and> ((r = - 1 \<and> (\<forall>j. \<not> prefix s (drop j (contents b))))
      \<or> (0 \<le> r \<and> prefix s (drop (nat r) (contents b)) \<and> (\<forall>j<nat r. \<not> prefix s (drop j (contents b)))))"
proof -
  have r: "buf_find_string_offset b s = Some (case first_at s (contents b) of None \<Rightarrow> - 1 | Some i \<Rightarrow> int i)"
    using find_string_ok [of b s] assms by (simp add: buf_state_ok_def)
  show ?thesis
  proof (cases "first_at s (contents b)")
    case None
    have "\<not> prefix s (drop j q)" if "first_at s q = None" for j q
      using that assms(2)
    proof (induction q arbitrary: j)
      case (Cons x q)
      then show ?case by (cases j) (auto split: if_splits)
    qed simp
    then show ?thesis using r None by simp
  next
    case (Some i)
    then have "prefix s (drop i (contents b)) \<and> (\<forall>j<i. \<not> prefix s (drop j (contents b)))"
      using first_at_Some [OF assms(2)] by blast
    then show ?thesis using r Some by simp
  qed
qed

theorem find_string_first_witness:
  "buf_find_string_offset two_chunks ''cd'' = Some 2 \<and> buf_find_string_offset two_chunks ''ee'' = Some (- 1)
    \<and> (\<forall>j. \<not> prefix ''ee'' (drop j ''abcde''))"
proof -
  have c: "contents two_chunks = ''abcde''" by (simp add: two_chunks_def ch_bytes_def)
  have "buf_state_ok 0 (two_chunks, 104)"
    by (simp add: two_chunks_def buf_state_ok_def buf_ok_def in_mem_def ch_bytes_def BUF_MAX_LEN_def buf_allocation_def
      CHUNK_ALLOC_SIZE_def CHUNK_OVERHEAD_def)
  from find_string_first [OF this, of "''ee''"] c
  have "\<exists>r. buf_find_string_offset two_chunks ''ee'' = Some r
    \<and> ((r = - 1 \<and> (\<forall>j. \<not> prefix ''ee'' (drop j ''abcde'')))
      \<or> (0 \<le> r \<and> prefix ''ee'' (drop (nat r) ''abcde'') \<and> (\<forall>j<nat r. \<not> prefix ''ee'' (drop j ''abcde''))))"
    by simp
  moreover have "buf_find_string_offset two_chunks ''ee'' = Some (- 1)" "buf_find_string_offset two_chunks ''cd'' = Some 2"
    by code_simp+
  ultimately show ?thesis by auto
qed

section \<open>An empty chunk at the end\<close>

text \<open>A position in a list of chunks, with an empty chunk \<open>e\<close> behind them; the memory of \<open>e\<close> that a search may see.\<close>

definition ext :: "chunk \<Rightarrow> buf_pos \<Rightarrow> buf_pos" where
  "ext e p = p\<lparr>pos_chunks := pos_chunks p @ [e]\<rparr>"

definition stale :: "chunk \<Rightarrow> string" where "stale e = drop (ch_data e) (ch_mem e)"

definition empty_chunk :: "chunk \<Rightarrow> bool" where
  "empty_chunk e \<longleftrightarrow> ch_datalen e = 0 \<and> ch_data e \<le> memlen e"

lemma ext_simps [simp]: "pos_chunks (ext e p) = pos_chunks p @ [e]" "pos (ext e p) = pos p" "chunk_pos (ext e p) = chunk_pos p"
  by (simp_all add: ext_def)

lemma find_char_at_start:
  "empty_chunk e \<Longrightarrow> find_char_loop c 0 chs cp = Some (r, q) \<Longrightarrow>
    (r < 0 \<and> (\<exists>q'. find_char_loop c 0 (chs @ [e]) cp = Some (- 1, q'))) \<or>
    (0 \<le> r \<and> find_char_loop c 0 (chs @ [e]) cp = Some (r, ext e q))"
proof (induction chs arbitrary: cp)
  case Nil
  then show ?case by (auto simp: empty_chunk_def mem_read_def)
next
  case (Cons ch chs)
  obtain y where y: "mem_read ch (ch_data ch) (ch_datalen ch) = Some y" using Cons.prems(2) by (auto simp: Option.bind_eq_Some_conv)
  show ?case using Cons.prems Cons.IH [of "cp + ch_datalen ch"] y by (cases "memchr c y") (auto simp: ext_def)
qed

lemma find_char_ext:
  assumes "empty_chunk e" "find_char_loop c p (ch # chs) cp = Some (r, q)"
  shows "(r < 0 \<and> (\<exists>q'. find_char_loop c p ((ch # chs) @ [e]) cp = Some (- 1, q'))) \<or>
    (0 \<le> r \<and> find_char_loop c p ((ch # chs) @ [e]) cp = Some (r, ext e q))"
proof -
  obtain y where y: "mem_read ch (ch_data ch + p) (ch_datalen ch - p) = Some y" using assms(2) by (auto simp: Option.bind_eq_Some_conv)
  show ?thesis
    using assms(2) y find_char_at_start [OF assms(1), of c chs "cp + ch_datalen ch" r q]
    by (cases "memchr c y") (auto simp: ext_def)
qed

text \<open>Moving on from the last byte of the data goes into the empty chunk.\<close>

lemma pos_inc_ext:
  assumes "pos_ok p"
  shows "if length (rest_at p) = 1 then \<exists>cp. buf_pos_inc (ext e p) = Some (True, \<lparr>pos_chunks = [e], pos = 0, chunk_pos = cp\<rparr>)
    else \<exists>q. buf_pos_inc p = Some (True, q) \<and> buf_pos_inc (ext e p) = Some (True, ext e q)"
proof -
  obtain ch chs where c: "pos_chunks p = ch # chs" "pos p < ch_datalen ch"
    using assms by (auto simp: pos_ok_def split: list.splits)
  have ch: "in_mem ch" "list_all in_mem chs" "no_empty chs" "length (ch_bytes ch) + length (bytes_of chs) \<le> BUF_MAX_LEN"
    using assms c by (auto simp: pos_ok_def)
  have lt: "pos p < BUF_MAX_LEN" using c(2) ch(1,4) by (simp add: length_ch_bytes)
  have rest: "length (rest_at p) = ch_datalen ch - pos p + length (bytes_of chs)"
    using c ch(1) by (simp add: rest_at_def length_ch_bytes)
  have empty: "length (bytes_of chs) = 0 \<longleftrightarrow> chs = []"
    using ch(2,3) length_ch_bytes by (cases chs) fastforce+
  have "length (rest_at p) = 1 \<longleftrightarrow> pos p + 1 = ch_datalen ch \<and> length (bytes_of chs) = 0" using rest c(2) by arith
  then have one: "length (rest_at p) = 1 \<longleftrightarrow> pos p + 1 = ch_datalen ch \<and> chs = []" unfolding empty .
  show ?thesis
  proof (cases "pos p + 1 = ch_datalen ch \<and> chs = []")
    case True
    then show ?thesis using c lt one by (cases p) (simp add: buf_pos_inc_def Let_def ext_def)
  next
    case False
    then show ?thesis using c lt one by (auto simp: buf_pos_inc_def Let_def ext_def)
  qed
qed

lemma matches_stale:
  assumes "empty_chunk e"
  shows "pos_chunks p = [e] \<Longrightarrow> pos p + length s \<le> length (stale e) \<Longrightarrow> pos p + length s \<le> BUF_MAX_LEN \<Longrightarrow>
    buf_matches_at_pos p s = Some (prefix s (drop (pos p) (stale e)))"
proof (induction s arbitrary: p)
  case (Cons c s)
  have lt: "pos p < length (stale e)" "pos p < BUF_MAX_LEN" using Cons.prems by simp_all
  then have d: "drop (pos p) (stale e) = stale e ! pos p # drop (Suc (pos p)) (stale e)" by (simp add: Cons_nth_drop_Suc)
  have "mem_read e (ch_data e + pos p) 1 = Some [stale e ! pos p]"
    using lt assms by (simp add: mem_read_def stale_def empty_chunk_def take_Suc hd_drop_conv_nth)
  moreover have "buf_pos_inc p = Some (True, p\<lparr>pos := Suc (pos p)\<rparr>)"
    using Cons.prems(1) lt assms by (simp add: buf_pos_inc_def empty_chunk_def Let_def)
  ultimately show ?case using Cons.prems Cons.IH [of "p\<lparr>pos := Suc (pos p)\<rparr>"] by (auto simp: d)
qed simp

lemma matches_ext:
  assumes "empty_chunk e"
  shows "pos_ok p \<Longrightarrow> length s \<le> length (stale e) \<Longrightarrow> length s \<le> BUF_MAX_LEN \<Longrightarrow>
    buf_matches_at_pos (ext e p) s = Some (prefix s (rest_at p @ stale e))"
proof (induction s arbitrary: p)
  case (Cons c s)
  obtain ch chs where ch: "pos_chunks p = ch # chs" "pos p < ch_datalen ch" "in_mem ch"
    using Cons.prems by (auto simp: pos_ok_def split: list.splits)
  have r: "mem_read ch (ch_data ch + pos p) 1 = Some [ch_bytes ch ! pos p]"
    using mem_read_data [of ch "pos p" 1] ch by (simp add: length_ch_bytes take_Suc hd_drop_conv_nth)
  have hd: "rest_at p = ch_bytes ch ! pos p # tl (rest_at p)"
    using ch by (simp add: rest_at_def length_ch_bytes) (metis Cons_nth_drop_Suc append_Cons length_ch_bytes list.sel(3))
  then have pre: "prefix (c # s) (rest_at p @ stale e) \<longleftrightarrow> ch_bytes ch ! pos p = c \<and> prefix s (tl (rest_at p) @ stale e)"
    by (metis Cons_prefix_Cons append_Cons)
  have next_ok: "\<exists>q. buf_pos_inc (ext e p) = Some (True, q) \<and> buf_matches_at_pos q s = Some (prefix s (tl (rest_at p) @ stale e))"
  proof (cases "length (rest_at p) = 1")
    case True
    then obtain cp where i: "buf_pos_inc (ext e p) = Some (True, \<lparr>pos_chunks = [e], pos = 0, chunk_pos = cp\<rparr>)"
      using pos_inc_ext [OF Cons.prems(1)] by fastforce
    have "tl (rest_at p) = []" using True by (cases "rest_at p") auto
    then show ?thesis using i matches_stale [OF assms, of "\<lparr>pos_chunks = [e], pos = 0, chunk_pos = cp\<rparr>" s] Cons.prems by simp
  next
    case False
    then obtain q where "buf_pos_inc p = Some (True, q)" "buf_pos_inc (ext e p) = Some (True, ext e q)"
      using pos_inc_ext [OF Cons.prems(1), of e] by auto
    moreover from this have "pos_ok q" "rest_at q = tl (rest_at p)" using pos_inc_ok [OF Cons.prems(1)] False by auto
    ultimately show ?thesis using Cons.IH [of q] Cons.prems by auto
  qed
  then show ?case using r ch(1) pre by auto
qed simp

text \<open>The first place before the end of \<open>xs\<close> at which a string occurs in \<open>xs @ m\<close>.\<close>

definition first_into :: "string \<Rightarrow> string \<Rightarrow> string \<Rightarrow> nat option" where
  "first_into s xs m = (case first_at s (xs @ m) of None \<Rightarrow> None | Some i \<Rightarrow> if i < length xs then Some i else None)"

lemma first_into_simps [simp]:
  "first_into s [] m = None"
  "first_into s (x # xs) m = (if prefix s (x # xs @ m) then Some 0 else map_option Suc (first_into s xs m))"
  by (auto simp: first_into_def split: option.splits)

lemma first_into_skip:
  assumes "s = c # s'" "memchr c xs = Some i"
  shows "first_into s xs m = map_option (\<lambda>k. i + k) (first_into s (drop i xs) m)"
  using assms(2)
proof (induction xs arbitrary: i)
  case (Cons x xs)
  show ?case
  proof (cases "x = c")
    case False
    then obtain j where "i = Suc j" "memchr c xs = Some j" using Cons.prems by auto
    then show ?thesis using Cons.IH [of j] False assms(1) by (simp add: option.map_comp comp_def)
  qed (use Cons.prems in \<open>simp add: option.map_ident\<close>)
qed simp

lemma first_into_absent: "s = c # s' \<Longrightarrow> memchr c xs = None \<Longrightarrow> first_into s xs m = None"
  by (induction xs) (auto split: if_splits)

lemma find_char_only_empty: "empty_chunk e \<Longrightarrow> \<exists>q. buf_find_pos_of_char c \<lparr>pos_chunks = [e], pos = 0, chunk_pos = cp\<rparr> = Some (- 1, q)"
  by (simp add: buf_find_pos_of_char_def empty_chunk_def mem_read_def)

lemma find_string_loop_ext:
  assumes "s = c # s'" "empty_chunk e" "length s \<le> length (stale e)" "length s \<le> BUF_MAX_LEN"
  shows "pos_ok p \<Longrightarrow> Suc (length (rest_at p)) < n \<Longrightarrow> chunk_pos p + pos p + length (rest_at p) \<le> BUF_MAX_LEN \<Longrightarrow>
    find_string_loop n s (ext e p)
      = Some (case first_into s (rest_at p) (stale e) of None \<Rightarrow> - 1 | Some i \<Rightarrow> int (chunk_pos p + pos p + i))"
proof (induction n arbitrary: p)
  case (Suc n)
  obtain ch chs where c: "pos_chunks p = ch # chs" "pos p < ch_datalen ch" "list_all in_mem (ch # chs)"
    "no_empty (ch # chs)" "length (bytes_of (ch # chs)) \<le> BUF_MAX_LEN"
    using Suc.prems(1) by (auto simp: pos_ok_def split: list.splits)
  have rest: "rest_at p = drop (pos p) (bytes_of (ch # chs))" using c(1) by (simp add: rest_at_def)
  have find: "buf_find_pos_of_char c (ext e p) = find_char_loop c (pos p) ((ch # chs) @ [e]) (chunk_pos p)"
    using c(1,2) by (simp add: buf_find_pos_of_char_def)
  have ok: "pos p \<le> ch_datalen ch" using c(2) by simp
  note fc = find_char_ok [OF c(3-5) ok, of c "chunk_pos p", folded rest]
  note fe = find_char_ext [OF assms(2), of c "pos p" ch chs "chunk_pos p", folded find]
  show ?case
  proof (cases "memchr c (rest_at p)")
    case None
    then obtain q where "find_char_loop c (pos p) (ch # chs) (chunk_pos p) = Some (- 1, q)" using fc by auto
    from fe [OF this] show ?thesis using first_into_absent [OF assms(1) None] assms(1) by auto
  next
    case (Some i)
    then obtain q where q0: "find_char_loop c (pos p) (ch # chs) (chunk_pos p) = Some (int (chunk_pos p + pos p + i), q)" "pos_ok q"
      "rest_at q = drop i (rest_at p)" "chunk_pos q + pos q = chunk_pos p + pos p + i"
      using fc by auto
    have q: "buf_find_pos_of_char c (ext e p) = Some (int (chunk_pos p + pos p + i), ext e q)" using fe [OF q0(1)] by auto
    have i: "i < length (rest_at p)" using Some by (simp add: memchr_Some)
    have m: "buf_matches_at_pos (ext e q) s = Some (prefix s (rest_at q @ stale e))" by (rule matches_ext [OF assms(2) q0(2) assms(3,4)])
    note first = first_into_skip [OF assms(1) Some, of "stale e", folded q0(3)]
    have "rest_at q \<noteq> []" using i q0(3) by simp
    then obtain y ys where y: "rest_at q = y # ys" by (meson neq_Nil_conv)
    show ?thesis
    proof (cases "prefix s (rest_at q @ stale e)")
      case True
      then have "first_into s (rest_at q) (stale e) = Some 0" using y by simp
      then show ?thesis using q q0(4) m True first assms(1) Suc.prems(3) i by simp
    next
      case False
      show ?thesis
      proof (cases "ys = []")
        case True
        then have "length (rest_at q) = 1" using y by simp
        then obtain cp where r: "buf_pos_inc (ext e q) = Some (True, \<lparr>pos_chunks = [e], pos = 0, chunk_pos = cp\<rparr>)"
          using pos_inc_ext [OF q0(2), of e] by auto
        obtain n' where "n = Suc n'" using Suc.prems(2) by (cases n) auto
        then have "find_string_loop n s \<lparr>pos_chunks = [e], pos = 0, chunk_pos = cp\<rparr> = Some (- 1)"
          using find_char_only_empty [OF assms(2), of c cp] assms(1) by auto
        moreover have "first_into s (rest_at q) (stale e) = None" using False y True by simp
        ultimately show ?thesis using q m r False first assms(1) by simp
      next
        case ys: False
        then have l1: "length (rest_at q) \<noteq> 1" using y by simp
        then obtain r where r: "buf_pos_inc q = Some (True, r)" "buf_pos_inc (ext e q) = Some (True, ext e r)"
          using pos_inc_ext [OF q0(2), of e] by auto
        have r2: "pos_ok r" "rest_at r = ys" "chunk_pos r + pos r = Suc (chunk_pos q + pos q)"
          using pos_inc_ok [OF q0(2)] l1 r(1) y by auto
        have l: "Suc (length ys) + i = length (rest_at p)" using q0(3) y i by (metis length_Cons length_drop add_diff_inverse_nat add.commute less_imp_le not_less)
        have "find_string_loop n s (ext e r) = Some (case first_into s (rest_at r) (stale e) of None \<Rightarrow> - 1 | Some i \<Rightarrow> int (chunk_pos r + pos r + i))"
          by (rule Suc.IH) (use r2 q0(4) l Suc.prems in auto)
        moreover have "first_into s (rest_at q) (stale e) = map_option Suc (first_into s ys (stale e))" using False y by simp
        ultimately show ?thesis using q q0(4) m False first assms(1) r r2
          by (auto split: option.split)
      qed
    qed
  qed
qed simp

lemma find_string_ext:
  assumes "buf_ok b" "no_empty (chunks b)" "chunks b \<noteq> []" "empty_chunk e" "s \<noteq> []" "length s \<le> length (stale e)" "length s \<le> BUF_MAX_LEN"
  shows "buf_find_string_offset (b\<lparr>chunks := chunks b @ [e]\<rparr>) s
    = Some (case first_into s (contents b) (stale e) of None \<Rightarrow> - 1 | Some i \<Rightarrow> int i)"
proof -
  obtain ch chs where c: "chunks b = ch # chs" using assms(3) by (cases "chunks b") auto
  obtain c s' where s: "s = c # s'" using assms(5) by (cases s) auto
  note ok = assms(1) [unfolded buf_ok_def]
  have i: "buf_pos_init (b\<lparr>chunks := chunks b @ [e]\<rparr>) = ext e (buf_pos_init b)" by (simp add: buf_pos_init_def ext_def)
  have "pos_ok (buf_pos_init b)" "rest_at (buf_pos_init b) = contents b"
    using ok assms(2) c by (auto simp: pos_ok_def buf_pos_init_def rest_at_def)
  moreover have "chunk_pos (buf_pos_init b) + pos (buf_pos_init b) = 0" by (simp add: buf_pos_init_def)
  ultimately show ?thesis
    using find_string_loop_ext [OF s assms(4,6,7), of "buf_pos_init b" "buf_datalen b + length (chunks b) + 2"] ok c
    unfolding buf_find_string_offset_def i by (simp del: find_string_loop.simps split: option.split)
qed

text \<open>A read that blocks when the last chunk has no room adds an empty chunk.\<close>

lemma added_chunk_size:
  assumes "buf_add_chunk_with_capacity u now n True b t = Some (b', t')"
  obtains k where "b' = b\<lparr>chunks := chunks b @ [\<lparr>ch_mem = replicate k u, ch_data = 0, ch_datalen = 0, inserted_time = now\<rparr>]\<rparr>"
    "min n (MAX_CHUNK_ALLOC - CHUNK_OVERHEAD) \<le> k"
proof -
  obtain sz where sz: "(if CHUNK_ALLOC_SIZE n < default_chunk_size b then Some (default_chunk_size b)
           else if True \<and> CHUNK_ALLOC_SIZE n > MAX_CHUNK_ALLOC then Some MAX_CHUNK_ALLOC
           else buf_preferred_chunk_size n) = Some sz"
    "b' = b\<lparr>chunks := chunks b @ [\<lparr>ch_mem = replicate (CHUNK_SIZE_WITH_ALLOC sz) u, ch_data = 0, ch_datalen = 0, inserted_time = now\<rparr>]\<rparr>"
    using assms by (auto simp: buf_add_chunk_with_capacity_def chunk_new_with_alloc_size_def Option.bind_eq_Some_conv Let_def)
  have "min n (MAX_CHUNK_ALLOC - CHUNK_OVERHEAD) \<le> CHUNK_SIZE_WITH_ALLOC sz"
    using sz(1) preferred_size(1) [of n sz] by (auto simp: CHUNK_ALLOC_SIZE_def CHUNK_SIZE_WITH_ALLOC_def split: if_splits)
  then show thesis using that sz(2) by blast
qed

lemma blocked_read_adds_chunk:
  assumes "buf_ok b" "chunks b \<noteq> []" "CHUNK_REMAINING_CAPACITY (last (chunks b)) < MIN_READ_LEN" "0 < at_most"
    "length (contents b) + at_most \<le> BUF_MAX_LEN"
  shows "\<exists>k t'. buf_read_from_fd u now at_most (Blocks # io) b t = Some (\<lparr>io_ret = 0, reached_eof = False, socket_error = None\<rparr>,
      b\<lparr>chunks := chunks b @ [\<lparr>ch_mem = replicate k u, ch_data = 0, ch_datalen = 0, inserted_time = now\<rparr>]\<rparr>, t')
    \<and> min at_most (MAX_CHUNK_ALLOC - CHUNK_OVERHEAD) \<le> k"
proof -
  have len: "buf_datalen b = length (contents b)" using assms(1) by (simp add: buf_ok_def)
  have "u64 (int BUF_MAX_LEN - int at_most) = int BUF_MAX_LEN - int at_most"
    using assms(5) by (intro u64_id) (auto simp: BUF_MAX_LEN_def)
  then have guard: "\<not> buf_datalen b > BUF_MAX_LEN" "\<not> int (buf_datalen b) > u64 (int BUF_MAX_LEN - int at_most)"
    using assms(5) len by simp_all
  have "at_most \<le> BUF_MAX_LEN \<or> True" by simp
  then obtain b1 t1 where a: "buf_add_chunk_with_capacity u now at_most True b t = Some (b1, t1)" by (rule add_chunk_ok)
  then obtain k where k: "b1 = b\<lparr>chunks := chunks b @ [\<lparr>ch_mem = replicate k u, ch_data = 0, ch_datalen = 0, inserted_time = now\<rparr>]\<rparr>"
    "min at_most (MAX_CHUNK_ALLOC - CHUNK_OVERHEAD) \<le> k" by (rule added_chunk_size)
  have "0 < k" using k(2) assms(4) by (simp add: MAX_CHUNK_ALLOC_def CHUNK_OVERHEAD_def)
  then have "read_loop u now at_most 0 (Blocks # io) b t = Some (\<lparr>io_ret = 0, reached_eof = False, socket_error = None\<rparr>, b1, t1)"
    using a assms(2-4) k(1) by (subst read_loop.simps) (simp add: read_to_chunk_def Let_def)
  then show ?thesis using guard k by (auto simp: buf_read_from_fd_def)
qed

text \<open>C39: When the last chunk of a buffer without empty chunks has no room for a read within the limit of the
  buffer and the read blocks, the buffer keeps its bytes and passes its
  consistency check but ends in an empty chunk; the search for a string of at most the bytes asked for (and at most
  the capacity of a chunk) then compares the memory of that chunk, which holds no data: it gives the first place in the buffer at
  which the string occurs in the data followed by that memory.\<close>

theorem find_string_reads_stale_memory:
  assumes "buf_ok b" "no_empty (chunks b)" "chunks b \<noteq> []" "CHUNK_REMAINING_CAPACITY (last (chunks b)) < MIN_READ_LEN"
    "length (contents b) + at_most \<le> BUF_MAX_LEN" "s \<noteq> []" "length s \<le> min at_most (MAX_CHUNK_ALLOC - CHUNK_OVERHEAD)"
  shows "\<exists>b' t' k. buf_read_from_fd u now at_most (Blocks # io) b t = Some (\<lparr>io_ret = 0, reached_eof = False, socket_error = None\<rparr>, b', t')
    \<and> buf_assert_ok b' \<and> buf_extract b' = buf_extract b \<and> length s \<le> k
    \<and> buf_find_string_offset b' s = Some (case first_at s (contents b @ replicate k u) of None \<Rightarrow> - 1
        | Some i \<Rightarrow> if i < length (contents b) then int i else - 1)"
proof -
  have "0 < at_most" using assms(6,7) by (cases s) auto
  from blocked_read_adds_chunk [OF assms(1,3,4) this assms(5)] obtain k t' where
    r: "buf_read_from_fd u now at_most (Blocks # io) b t = Some (\<lparr>io_ret = 0, reached_eof = False, socket_error = None\<rparr>,
      b\<lparr>chunks := chunks b @ [\<lparr>ch_mem = replicate k u, ch_data = 0, ch_datalen = 0, inserted_time = now\<rparr>]\<rparr>, t')"
    and k: "min at_most (MAX_CHUNK_ALLOC - CHUNK_OVERHEAD) \<le> k" by blast
  let ?e = "\<lparr>ch_mem = replicate k u, ch_data = 0, ch_datalen = 0, inserted_time = now\<rparr>"
  let ?b = "b\<lparr>chunks := chunks b @ [?e]\<rparr>"
  have e: "empty_chunk ?e" "stale ?e = replicate k u" "in_mem ?e" "ch_bytes ?e = []"
    by (simp_all add: empty_chunk_def stale_def in_mem_def ch_bytes_def)
  have ls: "length s \<le> k" "length s \<le> BUF_MAX_LEN"
    using assms(5,7) k by (auto simp: MAX_CHUNK_ALLOC_def CHUNK_OVERHEAD_def BUF_MAX_LEN_def)
  have ok: "buf_ok ?b" "contents ?b = contents b" using assms(1) e(3,4) by (simp_all add: buf_ok_def)
  have "buf_extract ?b = buf_extract b" using ok assms(1) by (simp add: buf_extract_def peek_ok)
  moreover have "buf_find_string_offset ?b s = Some (case first_into s (contents b) (replicate k u) of None \<Rightarrow> - 1 | Some i \<Rightarrow> int i)"
    using find_string_ext [OF assms(1-3) e(1) assms(6)] ls e(2) by simp
  ultimately show ?thesis
    using r ls(1) ok_assert [OF ok(1)] by (auto simp: first_into_def split: option.splits)
qed

text \<open>A chunk of 208 bytes filled to the end. The occurrence that is then reported is not in the buffer.\<close>

definition full_chunk :: buf where
  "full_chunk = \<lparr>buf_datalen = 208, default_chunk_size = 256,
    chunks = [\<lparr>ch_mem = replicate 205 (CHR ''h'') @ [CHR 0x0D, CHR 0x0A, CHR 0x0D], ch_data = 0, ch_datalen = 208, inserted_time = 0\<rparr>]\<rparr>"

lemma find_string_reads_stale_memory_witness:
  "\<exists>b' t'. buf_read_from_fd (CHR 0x0A) 0 208 [Blocks] full_chunk 256 = Some (\<lparr>io_ret = 0, reached_eof = False, socket_error = None\<rparr>, b', t')
    \<and> buf_extract b' = buf_extract full_chunk
    \<and> buf_find_string_offset full_chunk [CHR 0x0D, CHR 0x0A, CHR 0x0D, CHR 0x0A] = Some (- 1)
    \<and> buf_find_string_offset b' [CHR 0x0D, CHR 0x0A, CHR 0x0D, CHR 0x0A] = Some 205"
proof -
  let ?s = "[CHR 0x0D, CHR 0x0A, CHR 0x0D, CHR 0x0A]"
  have c: "contents full_chunk = replicate 205 (CHR ''h'') @ [CHR 0x0D, CHR 0x0A, CHR 0x0D]"
    by (simp add: full_chunk_def ch_bytes_def)
  have skip: "first_at ?s (replicate n (CHR ''h'') @ xs) = map_option (\<lambda>k. n + k) (first_at ?s xs)" for n xs
    by (induction n) (simp_all add: option.map_comp comp_def option.map_ident)
  have none: "buf_find_string_offset full_chunk ?s = Some (- 1)"
  proof -
    have "buf_ok full_chunk" "no_empty (chunks full_chunk)"
      by (simp_all add: full_chunk_def buf_ok_def in_mem_def ch_bytes_def BUF_MAX_LEN_def)
    from find_string_ok [OF this, of ?s] show ?thesis unfolding c skip by simp
  qed
  have "\<exists>b' t' k. buf_read_from_fd (CHR 0x0A) 0 208 [Blocks] full_chunk 256 = Some (\<lparr>io_ret = 0, reached_eof = False, socket_error = None\<rparr>, b', t')
    \<and> buf_assert_ok b' \<and> buf_extract b' = buf_extract full_chunk \<and> length ?s \<le> k
    \<and> buf_find_string_offset b' ?s = Some (case first_at ?s (contents full_chunk @ replicate k (CHR 0x0A)) of None \<Rightarrow> - 1
        | Some i \<Rightarrow> if i < length (contents full_chunk) then int i else - 1)"
    by (rule find_string_reads_stale_memory)
      (simp_all add: c, simp_all add: full_chunk_def buf_ok_def in_mem_def ch_bytes_def BUF_MAX_LEN_def CHUNK_REMAINING_CAPACITY_def MIN_READ_LEN_def
        MAX_CHUNK_ALLOC_def CHUNK_OVERHEAD_def)
  then obtain b' t' k where b: "buf_read_from_fd (CHR 0x0A) 0 208 [Blocks] full_chunk 256 = Some (\<lparr>io_ret = 0, reached_eof = False, socket_error = None\<rparr>, b', t')"
    "buf_extract b' = buf_extract full_chunk" "length ?s \<le> k"
    "buf_find_string_offset b' ?s = Some (case first_at ?s (contents full_chunk @ replicate k (CHR 0x0A)) of None \<Rightarrow> - 1
        | Some i \<Rightarrow> if i < length (contents full_chunk) then int i else - 1)" by blast
  obtain m where "k = Suc m" using b(3) by (cases k) auto
  then have "first_at ?s (contents full_chunk @ replicate k (CHR 0x0A)) = Some 205" unfolding c append_assoc skip by simp
  then show ?thesis using b none by (auto simp: c)
qed

section \<open>Oversized strings\<close>

text \<open>A string longer than the limit is not refused by the check that is there for it, which wraps around
  in the width of \<^verbatim>\<open>size_t\<close>: it is copied, and then an assertion fails. A shorter one that does
  not fit is refused and the buffer stays as it is.\<close>

theorem oversized_add_aborts:
  assumes "buf_ok b" "length s < 9223372036854775808" "BUF_MAX_LEN < length (contents b) + length s"
  shows "buf_add u now s b t = (if BUF_MAX_LEN < length s then None else Some (- 1, b, t))"
  using add_oversized [OF assms(1) _ assms(2)] add_refused [OF assms(1,3)] by auto

theorem oversized_add_aborts_witness:
  "buf_add CHR ''u'' 0 (replicate 2147483647 CHR ''a'') buf_new 0 = None"
proof -
  have "buf_ok buf_new" by (simp add: buf_ok_def buf_new_def)
  from oversized_add_aborts [OF this, of "replicate 2147483647 CHR ''a''" "CHR ''u''" 0 0]
  show ?thesis by (simp add: BUF_MAX_LEN_def)
qed

end
