(* ===== verification/RelayCrypto.thy ===== *)
theory RelayCrypto
  imports TorPrelude "HOL-Library.Monad_Syntax"
begin

unbundle bit_operations_syntax

text \<open>
  The onion layers of relay cells: \<^verbatim>\<open>src/core/crypto/relay_crypto.c\<close>, the two kinds of
  layers in \<^verbatim>\<open>relay_crypto_tor1.c\<close> and \<^verbatim>\<open>relay_crypto_cgo.c\<close>. The block cipher, its
  counter-mode key stream, the polynomial hash and the digests are parameters, collected in a
  record; a running digest is the bytes it has absorbed. \<^const>\<open>None\<close> is a failed assertion or a
  call outside its contract: using a block-cipher schedule for the other direction, or setting the
  initialisation vector of a stream cipher in the middle of a block.
\<close>

type_synonym byte = "8 word"
type_synonym bytes = "byte list"

datatype digest_alg = DIGEST_SHA1 | DIGEST_SHA3_256

record crypto_prims =
  aes_block_encrypt :: "bytes \<Rightarrow> bytes \<Rightarrow> bytes"
  aes_block_decrypt :: "bytes \<Rightarrow> bytes \<Rightarrow> bytes"
  aes_keystream :: "bytes \<Rightarrow> bytes \<Rightarrow> nat \<Rightarrow> byte"
  polyval :: "bytes \<Rightarrow> bytes list \<Rightarrow> bytes"
  hash_bytes :: "digest_alg \<Rightarrow> bytes \<Rightarrow> bytes"

definition prims_ok :: "crypto_prims \<Rightarrow> bool" where
  "prims_ok P \<longleftrightarrow>
    (\<forall>k b. length b = 16 \<longrightarrow> length (aes_block_encrypt P k b) = 16 \<and> length (aes_block_decrypt P k b) = 16
       \<and> aes_block_decrypt P k (aes_block_encrypt P k b) = b \<and> aes_block_encrypt P k (aes_block_decrypt P k b) = b)
    \<and> (\<forall>k bs. length (polyval P k bs) = 16)
    \<and> (\<forall>a m. 20 \<le> length (hash_bytes P a m))"

section \<open>Streams, digests and memory\<close>

definition put :: "nat \<Rightarrow> bytes \<Rightarrow> bytes \<Rightarrow> bytes" where
  "put i bs l = take i l @ bs @ drop (i + length bs) l"

record aes_cnt_cipher =
  ctr_key :: bytes
  ctr_iv :: bytes
  ctr_pos :: nat

definition aes_new_cipher :: "bytes \<Rightarrow> bytes \<Rightarrow> aes_cnt_cipher" where
  "aes_new_cipher k iv = \<lparr>ctr_key = k, ctr_iv = iv, ctr_pos = 0\<rparr>"

definition crypto_cipher_crypt_inplace :: "crypto_prims \<Rightarrow> aes_cnt_cipher \<Rightarrow> bytes \<Rightarrow> bytes \<times> aes_cnt_cipher" where
  "crypto_cipher_crypt_inplace P c d =
    (map2 (XOR) d (map (\<lambda>i. aes_keystream P (ctr_key c) (ctr_iv c) (ctr_pos c + i)) [0..<length d]),
     c\<lparr>ctr_pos := ctr_pos c + length d\<rparr>)"

definition aes_cipher_set_iv_aligned :: "aes_cnt_cipher \<Rightarrow> bytes \<Rightarrow> aes_cnt_cipher option" where
  "aes_cipher_set_iv_aligned c iv = (if ctr_pos c mod 16 \<noteq> 0 then None else Some (c\<lparr>ctr_iv := iv, ctr_pos := 0\<rparr>))"

definition aes_cipher_set_key :: "aes_cnt_cipher \<Rightarrow> bytes \<Rightarrow> aes_cnt_cipher" where
  "aes_cipher_set_key c k = c\<lparr>ctr_key := k\<rparr>"

record crypto_digest =
  dg_alg :: digest_alg
  dg_bytes :: bytes

definition crypto_digest_add_bytes :: "crypto_digest \<Rightarrow> bytes \<Rightarrow> crypto_digest" where
  "crypto_digest_add_bytes d b = d\<lparr>dg_bytes := dg_bytes d @ b\<rparr>"

definition DIGEST_LEN :: nat where "DIGEST_LEN = 20"

definition crypto_digest_get_digest :: "crypto_prims \<Rightarrow> crypto_digest \<Rightarrow> nat \<Rightarrow> bytes" where
  "crypto_digest_get_digest P d n = take n (hash_bytes P (dg_alg d) (dg_bytes d))"

definition CELL_PAYLOAD_SIZE :: nat where "CELL_PAYLOAD_SIZE = 509"

record cell =
  cell_command :: byte
  payload :: bytes

section \<open>Layers of the first kind\<close>

definition V0_DIGEST_OFFSET :: nat where "V0_DIGEST_OFFSET = 5"
definition V0_DIGEST_LEN :: nat where "V0_DIGEST_LEN = 4"
definition V0_RECOGNIZED_OFFSET :: nat where "V0_RECOGNIZED_OFFSET = 1"

record tor1_crypt =
  f_crypto :: aes_cnt_cipher
  b_crypto :: aes_cnt_cipher
  f_digest :: crypto_digest
  b_digest :: crypto_digest
  sendme_digest :: bytes

definition tor1_set_digest_v0 :: "crypto_prims \<Rightarrow> crypto_digest \<Rightarrow> cell \<Rightarrow> crypto_digest \<times> cell \<times> bytes" where
  "tor1_set_digest_v0 P digest c =
    (let digest = crypto_digest_add_bytes digest (payload c);
         buf = crypto_digest_get_digest P digest DIGEST_LEN
     in (digest, c\<lparr>payload := put V0_DIGEST_OFFSET (take V0_DIGEST_LEN buf) (payload c)\<rparr>, buf))"

text \<open>The result has the digest to remember, if the cell matches.\<close>

definition tor1_relay_digest_matches_v0 :: "crypto_prims \<Rightarrow> crypto_digest \<Rightarrow> cell \<Rightarrow> bytes option \<times> crypto_digest \<times> cell" where
  "tor1_relay_digest_matches_v0 P digest c =
    (let received_integrity = take V0_DIGEST_LEN (drop V0_DIGEST_OFFSET (payload c));
         zeroed = c\<lparr>payload := put V0_DIGEST_OFFSET (replicate V0_DIGEST_LEN 0) (payload c)\<rparr>;
         digest' = crypto_digest_add_bytes digest (payload zeroed);
         calculated_digest = crypto_digest_get_digest P digest' DIGEST_LEN;
         calculated_integrity = take V0_DIGEST_LEN calculated_digest
     in if calculated_integrity \<noteq> received_integrity
        then (None, digest, zeroed\<lparr>payload := put V0_DIGEST_OFFSET received_integrity (payload zeroed)\<rparr>)
        else (Some calculated_digest, digest', zeroed))"

definition relay_cell_is_recognized_v0 :: "cell \<Rightarrow> bool" where
  "relay_cell_is_recognized_v0 c \<longleftrightarrow> take 2 (drop V0_RECOGNIZED_OFFSET (payload c)) = [0, 0]"

definition tor1_crypt_one_payload :: "crypto_prims \<Rightarrow> aes_cnt_cipher \<Rightarrow> cell \<Rightarrow> aes_cnt_cipher \<times> cell" where
  "tor1_crypt_one_payload P cipher c =
    (let (d, cipher) = crypto_cipher_crypt_inplace P cipher (payload c) in (cipher, c\<lparr>payload := d\<rparr>))"

definition tor1_crypt_client_originate :: "crypto_prims \<Rightarrow> tor1_crypt \<Rightarrow> cell \<Rightarrow> tor1_crypt \<times> cell" where
  "tor1_crypt_client_originate P tor1 c =
    (let (dg, c, buf) = tor1_set_digest_v0 P (f_digest tor1) c;
         (cr, c) = tor1_crypt_one_payload P (f_crypto tor1) c
     in (tor1\<lparr>f_digest := dg, sendme_digest := buf, f_crypto := cr\<rparr>, c))"

definition tor1_crypt_relay_originate :: "crypto_prims \<Rightarrow> tor1_crypt \<Rightarrow> cell \<Rightarrow> tor1_crypt \<times> cell" where
  "tor1_crypt_relay_originate P tor1 c =
    (let (dg, c, buf) = tor1_set_digest_v0 P (b_digest tor1) c;
         (cr, c) = tor1_crypt_one_payload P (b_crypto tor1) c
     in (tor1\<lparr>b_digest := dg, sendme_digest := buf, b_crypto := cr\<rparr>, c))"

definition tor1_crypt_client_forward :: "crypto_prims \<Rightarrow> tor1_crypt \<Rightarrow> cell \<Rightarrow> tor1_crypt \<times> cell" where
  "tor1_crypt_client_forward P tor1 c =
    (let (cr, c) = tor1_crypt_one_payload P (f_crypto tor1) c in (tor1\<lparr>f_crypto := cr\<rparr>, c))"

definition tor1_crypt_relay_backward :: "crypto_prims \<Rightarrow> tor1_crypt \<Rightarrow> cell \<Rightarrow> tor1_crypt \<times> cell" where
  "tor1_crypt_relay_backward P tor1 c =
    (let (cr, c) = tor1_crypt_one_payload P (b_crypto tor1) c in (tor1\<lparr>b_crypto := cr\<rparr>, c))"

definition tor1_crypt_relay_forward :: "crypto_prims \<Rightarrow> tor1_crypt \<Rightarrow> cell \<Rightarrow> bool \<times> tor1_crypt \<times> cell" where
  "tor1_crypt_relay_forward P tor1 c =
    (let (cr, c) = tor1_crypt_one_payload P (f_crypto tor1) c;
         tor1 = tor1\<lparr>f_crypto := cr\<rparr>
     in if relay_cell_is_recognized_v0 c then
          (case tor1_relay_digest_matches_v0 P (f_digest tor1) c of
             (Some buf, dg, c) \<Rightarrow> (True, tor1\<lparr>f_digest := dg, sendme_digest := buf\<rparr>, c)
           | (None, dg, c) \<Rightarrow> (False, tor1\<lparr>f_digest := dg\<rparr>, c))
        else (False, tor1, c))"

definition tor1_crypt_client_backward :: "crypto_prims \<Rightarrow> tor1_crypt \<Rightarrow> cell \<Rightarrow> bool \<times> tor1_crypt \<times> cell" where
  "tor1_crypt_client_backward P tor1 c =
    (let (cr, c) = tor1_crypt_one_payload P (b_crypto tor1) c;
         tor1 = tor1\<lparr>b_crypto := cr\<rparr>
     in if relay_cell_is_recognized_v0 c then
          (case tor1_relay_digest_matches_v0 P (b_digest tor1) c of
             (Some buf, dg, c) \<Rightarrow> (True, tor1\<lparr>b_digest := dg, sendme_digest := buf\<rparr>, c)
           | (None, dg, c) \<Rightarrow> (False, tor1\<lparr>b_digest := dg\<rparr>, c))
        else (False, tor1, c))"

definition CPATH_KEY_MATERIAL_LEN :: nat where "CPATH_KEY_MATERIAL_LEN = 20 * 2 + 16 * 2"
definition HS_NTOR_KEY_EXPANSION_KDF_OUT_LEN :: nat where "HS_NTOR_KEY_EXPANSION_KDF_OUT_LEN = 32 * 2 + 32 * 2"

definition tor1_key_material_len :: "bool \<Rightarrow> nat" where
  "tor1_key_material_len is_hs = (if is_hs then HS_NTOR_KEY_EXPANSION_KDF_OUT_LEN else CPATH_KEY_MATERIAL_LEN)"

text \<open>\<^const>\<open>None\<close> is the result -1. Creating a cipher or a digest does not fail.\<close>

definition tor1_crypt_init :: "bytes \<Rightarrow> bool \<Rightarrow> bool \<Rightarrow> tor1_crypt option" where
  "tor1_crypt_init key_data reversed is_hs_v3 =
    (if is_hs_v3 \<and> length key_data \<noteq> HS_NTOR_KEY_EXPANSION_KDF_OUT_LEN then None
     else if \<not> is_hs_v3 \<and> length key_data \<noteq> CPATH_KEY_MATERIAL_LEN then None
     else
       let (digest_len, cipher_key_len, a) =
             (if is_hs_v3 then (32, 32, DIGEST_SHA3_256) else (DIGEST_LEN, 16, DIGEST_SHA1));
           new_digest = \<lparr>dg_alg = a, dg_bytes = []\<rparr>;
           fd = crypto_digest_add_bytes new_digest (take digest_len key_data);
           bd = crypto_digest_add_bytes new_digest (take digest_len (drop digest_len key_data));
           fc = aes_new_cipher (take cipher_key_len (drop (2 * digest_len) key_data)) (replicate 16 0);
           bc = aes_new_cipher (take cipher_key_len (drop (2 * digest_len + cipher_key_len) key_data)) (replicate 16 0);
           crypto = \<lparr>f_crypto = fc, b_crypto = bc, f_digest = fd, b_digest = bd, sendme_digest = replicate DIGEST_LEN 0\<rparr>
       in Some (if reversed
                then crypto\<lparr>f_digest := bd, b_digest := fd, f_crypto := bc, b_crypto := fc\<rparr>
                else crypto))"

section \<open>Counter galois onion layers\<close>

definition POLYVAL_KEY_LEN :: nat where "POLYVAL_KEY_LEN = 16"
definition SENDME_TAG_LEN_CGO :: nat where "SENDME_TAG_LEN_CGO = 16"
definition SENDME_TAG_LEN_TOR1 :: nat where "SENDME_TAG_LEN_TOR1 = 20"
definition ET_TWEAK_LEN_X_R :: nat where "ET_TWEAK_LEN_X_R = 493"
definition PRF_T0_DATA_LEN :: nat where "PRF_T0_DATA_LEN = 493"
definition CGO_AES_BITS :: nat where "CGO_AES_BITS = 128"

datatype cgo_mode = CGO_MODE_CLIENT_FORWARD | CGO_MODE_CLIENT_BACKWARD | CGO_MODE_RELAY_FORWARD | CGO_MODE_RELAY_BACKWARD

text \<open>The raw cipher is made for one direction; \<open>kb_encrypt\<close> says which.\<close>

record cgo_et =
  kb :: bytes
  kb_encrypt :: bool
  ku :: bytes

record cgo_prf =
  prf_k :: aes_cnt_cipher
  prf_b :: bytes

record cgo_uiv =
  uiv_j :: cgo_et
  uiv_s :: cgo_prf

record cgo_crypt =
  uiv :: cgo_uiv
  nonce :: bytes
  tprime :: bytes
  last_tag_relay_fwd :: bytes
  aes_bytes :: nat

record et_tweak =
  tw_h :: bytes
  tw_cmd :: byte
  tw_x_r :: bytes

definition cgo_et_keylen :: "nat \<Rightarrow> nat" where "cgo_et_keylen aesbits = aesbits div 8 + POLYVAL_KEY_LEN"
definition cgo_prf_keylen :: "nat \<Rightarrow> nat" where "cgo_prf_keylen aesbits = aesbits div 8 + POLYVAL_KEY_LEN"
definition cgo_uiv_keylen :: "nat \<Rightarrow> nat" where "cgo_uiv_keylen aesbits = cgo_et_keylen aesbits + cgo_prf_keylen aesbits"

definition cgo_et_init :: "nat \<Rightarrow> bool \<Rightarrow> bytes \<Rightarrow> cgo_et" where
  "cgo_et_init aesbits encrypt key =
    (let aes_key_bytes = aesbits div 8
     in \<lparr>kb = take aes_key_bytes key, kb_encrypt = encrypt, ku = take POLYVAL_KEY_LEN (drop aes_key_bytes key)\<rparr>)"

definition cgo_et_set_key :: "nat \<Rightarrow> bool \<Rightarrow> bytes \<Rightarrow> cgo_et" where
  "cgo_et_set_key aesbits encrypt key =
    (let aes_key_bytes = aesbits div 8
     in \<lparr>kb = take aes_key_bytes key, kb_encrypt = encrypt, ku = take POLYVAL_KEY_LEN (drop aes_key_bytes key)\<rparr>)"

fun zpad_blocks :: "bytes \<Rightarrow> bytes list" where
  "zpad_blocks [] = []"
| "zpad_blocks (x # xs) = (take 16 (x # xs) @ replicate (16 - length (x # xs)) 0) # zpad_blocks (drop 15 xs)"

definition compute_et_mask :: "crypto_prims \<Rightarrow> bytes \<Rightarrow> et_tweak \<Rightarrow> bytes" where
  "compute_et_mask P pvk tweak =
    polyval P pvk ([tw_h tweak, tw_cmd tweak # take 15 (tw_x_r tweak)]
      @ zpad_blocks (take (ET_TWEAK_LEN_X_R - 15) (drop 15 (tw_x_r tweak))))"

definition xor_block :: "bytes \<Rightarrow> bytes \<Rightarrow> bytes" where "xor_block out inp = map2 (XOR) out inp"

definition cgo_et_encrypt :: "crypto_prims \<Rightarrow> cgo_et \<Rightarrow> et_tweak \<Rightarrow> bytes \<Rightarrow> bytes option" where
  "cgo_et_encrypt P et tweak block =
    (if \<not> kb_encrypt et then None
     else let mask = compute_et_mask P (ku et) tweak
          in Some (xor_block (aes_block_encrypt P (kb et) (xor_block block mask)) mask))"

definition cgo_et_decrypt :: "crypto_prims \<Rightarrow> cgo_et \<Rightarrow> et_tweak \<Rightarrow> bytes \<Rightarrow> bytes option" where
  "cgo_et_decrypt P et tweak block =
    (if kb_encrypt et then None
     else let mask = compute_et_mask P (ku et) tweak
          in Some (xor_block (aes_block_decrypt P (kb et) (xor_block block mask)) mask))"

definition cgo_prf_init :: "nat \<Rightarrow> bytes \<Rightarrow> cgo_prf" where
  "cgo_prf_init aesbits key =
    (let aes_key_bytes = aesbits div 8
     in \<lparr>prf_k = aes_new_cipher (take aes_key_bytes key) (replicate 16 0), prf_b = take POLYVAL_KEY_LEN (drop aes_key_bytes key)\<rparr>)"

definition cgo_prf_set_key :: "nat \<Rightarrow> bytes \<Rightarrow> cgo_prf \<Rightarrow> cgo_prf" where
  "cgo_prf_set_key aesbits key prf =
    (let aes_key_bytes = aesbits div 8
     in prf\<lparr>prf_k := aes_cipher_set_key (prf_k prf) (take aes_key_bytes key), prf_b := take POLYVAL_KEY_LEN (drop aes_key_bytes key)\<rparr>)"

definition prf_hash :: "crypto_prims \<Rightarrow> cgo_prf \<Rightarrow> bytes \<Rightarrow> bytes" where
  "prf_hash P prf input = (let hash = polyval P (prf_b prf) [input] in hash[15 := (hash ! 15) AND 0xC0])"

definition cgo_prf_xor_t0 :: "crypto_prims \<Rightarrow> cgo_prf \<Rightarrow> bytes \<Rightarrow> bytes \<Rightarrow> (bytes \<times> cgo_prf) option" where
  "cgo_prf_xor_t0 P prf input d = do {
     let hash = prf_hash P prf input;
     k \<leftarrow> aes_cipher_set_iv_aligned (prf_k prf) hash;
     let (out, k) = crypto_cipher_crypt_inplace P k (take PRF_T0_DATA_LEN d);
     let ns = 16 - PRF_T0_DATA_LEN mod 16;
     let (_, k) = crypto_cipher_crypt_inplace P k (take ns hash);
     Some (out, prf\<lparr>prf_k := k\<rparr>)
   }"

definition cgo_prf_gen_t1 :: "crypto_prims \<Rightarrow> cgo_prf \<Rightarrow> bytes \<Rightarrow> nat \<Rightarrow> (bytes \<times> cgo_prf) option" where
  "cgo_prf_gen_t1 P prf input n = do {
     let hash = prf_hash P prf input;
     let hash = hash[15 := hash ! 15 + 31];
     k \<leftarrow> aes_cipher_set_iv_aligned (prf_k prf) hash;
     let (out, k) = crypto_cipher_crypt_inplace P k (replicate n 0);
     let ns = 16 - n mod 16;
     let (_, k) = (if ns \<noteq> 0 then crypto_cipher_crypt_inplace P k (take ns hash) else ([], k));
     Some (out, prf\<lparr>prf_k := k\<rparr>)
   }"

definition cgo_uiv_init :: "nat \<Rightarrow> bool \<Rightarrow> bytes \<Rightarrow> cgo_uiv" where
  "cgo_uiv_init aesbits encrypt key =
    \<lparr>uiv_j = cgo_et_init aesbits encrypt key, uiv_s = cgo_prf_init aesbits (drop (aesbits div 8 + POLYVAL_KEY_LEN) key)\<rparr>"

definition cgo_uiv_encrypt :: "crypto_prims \<Rightarrow> cgo_uiv \<Rightarrow> bytes \<Rightarrow> byte \<Rightarrow> bytes \<Rightarrow> (bytes \<times> cgo_uiv) option" where
  "cgo_uiv_encrypt P u h cmd cell_body = do {
     let X_L = take 16 cell_body;
     let X_R = drop 16 cell_body;
     X_L \<leftarrow> cgo_et_encrypt P (uiv_j u) \<lparr>tw_h = h, tw_cmd = cmd, tw_x_r = X_R\<rparr> X_L;
     (X_R, s) \<leftarrow> cgo_prf_xor_t0 P (uiv_s u) X_L X_R;
     Some (X_L @ X_R, u\<lparr>uiv_s := s\<rparr>)
   }"

definition cgo_uiv_decrypt :: "crypto_prims \<Rightarrow> cgo_uiv \<Rightarrow> bytes \<Rightarrow> byte \<Rightarrow> bytes \<Rightarrow> (bytes \<times> cgo_uiv) option" where
  "cgo_uiv_decrypt P u h cmd cell_body = do {
     let X_L = take 16 cell_body;
     let X_R = drop 16 cell_body;
     (X_R, s) \<leftarrow> cgo_prf_xor_t0 P (uiv_s u) X_L X_R;
     X_L \<leftarrow> cgo_et_decrypt P (uiv_j u) \<lparr>tw_h = h, tw_cmd = cmd, tw_x_r = X_R\<rparr> X_L;
     Some (X_L @ X_R, u\<lparr>uiv_s := s\<rparr>)
   }"

definition cgo_uiv_update :: "crypto_prims \<Rightarrow> nat \<Rightarrow> bool \<Rightarrow> cgo_uiv \<Rightarrow> bytes \<Rightarrow> (cgo_uiv \<times> bytes) option" where
  "cgo_uiv_update P aesbits encrypt u non = do {
     let single_key_len = aesbits div 8 + POLYVAL_KEY_LEN;
     let total_key_len = single_key_len * 2 + 16;
     (new_keys, s) \<leftarrow> cgo_prf_gen_t1 P (uiv_s u) non total_key_len;
     Some (u\<lparr>uiv_j := cgo_et_set_key aesbits encrypt new_keys,
             uiv_s := cgo_prf_set_key aesbits (drop single_key_len new_keys) s\<rparr>,
           take 16 (drop (single_key_len * 2) new_keys))
   }"

definition cgo_key_material_len :: "nat \<Rightarrow> nat option" where
  "cgo_key_material_len aesbits =
    (if aesbits \<notin> {128, 192, 256} then None
     else let r = cgo_uiv_keylen aesbits + SENDME_TAG_LEN_CGO in if \<not> r * 2 \<le> 224 then None else Some r)"

definition encrypt_mode :: "cgo_mode \<Rightarrow> bool" where
  "encrypt_mode mode \<longleftrightarrow> mode = CGO_MODE_RELAY_BACKWARD \<or> mode = CGO_MODE_RELAY_FORWARD"

definition cgo_crypt_new :: "cgo_mode \<Rightarrow> nat \<Rightarrow> bytes \<Rightarrow> cgo_crypt option" where
  "cgo_crypt_new mode aesbits keys = do {
     n \<leftarrow> cgo_key_material_len aesbits;
     if length keys \<noteq> n then None
     else Some \<lparr>uiv = cgo_uiv_init aesbits (encrypt_mode mode) keys,
                nonce = take SENDME_TAG_LEN_CGO (drop (cgo_uiv_keylen aesbits) keys),
                tprime = replicate SENDME_TAG_LEN_CGO 0,
                last_tag_relay_fwd = replicate SENDME_TAG_LEN_CGO 0,
                aes_bytes = aesbits div 8\<rparr>
   }"

definition cgo_crypt_update :: "crypto_prims \<Rightarrow> cgo_crypt \<Rightarrow> cgo_mode \<Rightarrow> cgo_crypt option" where
  "cgo_crypt_update P cgo mode = do {
     (u, n) \<leftarrow> cgo_uiv_update P (aes_bytes cgo * 8) (encrypt_mode mode) (uiv cgo) (nonce cgo);
     Some (cgo\<lparr>uiv := u, nonce := n\<rparr>)
   }"

definition tag_of :: "cell \<Rightarrow> bytes" where "tag_of c = take SENDME_TAG_LEN_CGO (payload c)"

text \<open>The results have the tag, if there is one.\<close>

definition cgo_crypt_relay_forward :: "crypto_prims \<Rightarrow> cgo_crypt \<Rightarrow> cell \<Rightarrow> (bytes option \<times> cgo_crypt \<times> cell) option" where
  "cgo_crypt_relay_forward P cgo c = do {
     let cgo = cgo\<lparr>last_tag_relay_fwd := tag_of c\<rparr>;
     (p, u) \<leftarrow> cgo_uiv_encrypt P (uiv cgo) (tprime cgo) (cell_command c) (payload c);
     let c = c\<lparr>payload := p\<rparr>;
     let cgo = cgo\<lparr>uiv := u, tprime := tag_of c\<rparr>;
     if tag_of c = nonce cgo then do {
       cgo \<leftarrow> cgo_crypt_update P cgo CGO_MODE_RELAY_FORWARD;
       Some (Some (last_tag_relay_fwd cgo), cgo, c)
     } else Some (None, cgo, c)
   }"

definition cgo_crypt_relay_backward :: "crypto_prims \<Rightarrow> cgo_crypt \<Rightarrow> cell \<Rightarrow> (cgo_crypt \<times> cell) option" where
  "cgo_crypt_relay_backward P cgo c = do {
     (p, u) \<leftarrow> cgo_uiv_encrypt P (uiv cgo) (tprime cgo) (cell_command c) (payload c);
     let c = c\<lparr>payload := p\<rparr>;
     Some (cgo\<lparr>uiv := u, tprime := tag_of c\<rparr>, c)
   }"

definition cgo_crypt_relay_originate :: "crypto_prims \<Rightarrow> cgo_crypt \<Rightarrow> cell \<Rightarrow> (bytes \<times> cgo_crypt \<times> cell) option" where
  "cgo_crypt_relay_originate P cgo c = do {
     let c = c\<lparr>payload := put 0 (nonce cgo) (payload c)\<rparr>;
     (p, u) \<leftarrow> cgo_uiv_encrypt P (uiv cgo) (tprime cgo) (cell_command c) (payload c);
     let c = c\<lparr>payload := p\<rparr>;
     cgo \<leftarrow> cgo_crypt_update P (cgo\<lparr>uiv := u, tprime := tag_of c, nonce := tag_of c\<rparr>) CGO_MODE_RELAY_BACKWARD;
     Some (tprime cgo, cgo, c)
   }"

definition cgo_crypt_client_forward :: "crypto_prims \<Rightarrow> cgo_crypt \<Rightarrow> cell \<Rightarrow> (cgo_crypt \<times> cell) option" where
  "cgo_crypt_client_forward P cgo c = do {
     let tprime_new = tag_of c;
     (p, u) \<leftarrow> cgo_uiv_decrypt P (uiv cgo) (tprime cgo) (cell_command c) (payload c);
     Some (cgo\<lparr>uiv := u, tprime := tprime_new\<rparr>, c\<lparr>payload := p\<rparr>)
   }"

definition cgo_crypt_client_originate :: "crypto_prims \<Rightarrow> cgo_crypt \<Rightarrow> cell \<Rightarrow> (bytes \<times> cgo_crypt \<times> cell) option" where
  "cgo_crypt_client_originate P cgo c = do {
     (cgo, c) \<leftarrow> cgo_crypt_client_forward P cgo (c\<lparr>payload := put 0 (nonce cgo) (payload c)\<rparr>);
     cgo \<leftarrow> cgo_crypt_update P cgo CGO_MODE_CLIENT_FORWARD;
     Some (tag_of c, cgo, c)
   }"

definition cgo_crypt_client_backward :: "crypto_prims \<Rightarrow> cgo_crypt \<Rightarrow> cell \<Rightarrow> (bytes option \<times> cgo_crypt \<times> cell) option" where
  "cgo_crypt_client_backward P cgo c = do {
     let t_orig = tag_of c;
     (p, u) \<leftarrow> cgo_uiv_decrypt P (uiv cgo) (tprime cgo) (cell_command c) (payload c);
     let c = c\<lparr>payload := p\<rparr>;
     let cgo = cgo\<lparr>uiv := u, tprime := t_orig\<rparr>;
     if tag_of c = nonce cgo then do {
       cgo \<leftarrow> cgo_crypt_update P (cgo\<lparr>nonce := t_orig\<rparr>) CGO_MODE_CLIENT_BACKWARD;
       Some (Some (tprime cgo), cgo, c)
     } else Some (None, cgo, c)
   }"

section \<open>Layers of either kind\<close>

record cgo_pair =
  cgo_fwd :: cgo_crypt
  cgo_back :: cgo_crypt
  last_tag :: bytes

datatype relay_crypto = RCK_TOR1 tor1_crypt | RCK_CGO cgo_pair

datatype relay_crypto_alg =
    RELAY_CRYPTO_ALG_TOR1 | RELAY_CRYPTO_ALG_TOR1_HSC | RELAY_CRYPTO_ALG_TOR1_HSS
  | RELAY_CRYPTO_ALG_CGO_CLIENT | RELAY_CRYPTO_ALG_CGO_RELAY

fun relay_crypto_get_sendme_tag :: "relay_crypto \<Rightarrow> bytes" where
  "relay_crypto_get_sendme_tag (RCK_TOR1 t) = take SENDME_TAG_LEN_TOR1 (sendme_digest t)"
| "relay_crypto_get_sendme_tag (RCK_CGO p) = take SENDME_TAG_LEN_CGO (last_tag p)"

fun relay_crypto_sendme_tag_len :: "relay_crypto \<Rightarrow> nat" where
  "relay_crypto_sendme_tag_len (RCK_TOR1 t) = SENDME_TAG_LEN_TOR1"
| "relay_crypto_sendme_tag_len (RCK_CGO p) = SENDME_TAG_LEN_CGO"

fun relay_crypt_client_backward :: "crypto_prims \<Rightarrow> relay_crypto \<Rightarrow> cell \<Rightarrow> (bool \<times> relay_crypto \<times> cell) option" where
  "relay_crypt_client_backward P (RCK_TOR1 t) c =
    (let (rec, t, c) = tor1_crypt_client_backward P t c in Some (rec, RCK_TOR1 t, c))"
| "relay_crypt_client_backward P (RCK_CGO p) c = do {
     (tag, g, c) \<leftarrow> cgo_crypt_client_backward P (cgo_back p) c;
     Some (case tag of Some x \<Rightarrow> (True, RCK_CGO (p\<lparr>cgo_back := g, last_tag := x\<rparr>), c)
           | None \<Rightarrow> (False, RCK_CGO (p\<lparr>cgo_back := g\<rparr>), c))
   }"

fun relay_crypt_relay_forward :: "crypto_prims \<Rightarrow> relay_crypto \<Rightarrow> cell \<Rightarrow> (bool \<times> relay_crypto \<times> cell) option" where
  "relay_crypt_relay_forward P (RCK_TOR1 t) c =
    (let (rec, t, c) = tor1_crypt_relay_forward P t c in Some (rec, RCK_TOR1 t, c))"
| "relay_crypt_relay_forward P (RCK_CGO p) c = do {
     (tag, g, c) \<leftarrow> cgo_crypt_relay_forward P (cgo_fwd p) c;
     Some (case tag of Some x \<Rightarrow> (True, RCK_CGO (p\<lparr>cgo_fwd := g, last_tag := x\<rparr>), c)
           | None \<Rightarrow> (False, RCK_CGO (p\<lparr>cgo_fwd := g\<rparr>), c))
   }"

fun relay_crypt_relay_backward :: "crypto_prims \<Rightarrow> relay_crypto \<Rightarrow> cell \<Rightarrow> (relay_crypto \<times> cell) option" where
  "relay_crypt_relay_backward P (RCK_TOR1 t) c =
    (let (t, c) = tor1_crypt_relay_backward P t c in Some (RCK_TOR1 t, c))"
| "relay_crypt_relay_backward P (RCK_CGO p) c = do {
     (g, c) \<leftarrow> cgo_crypt_relay_backward P (cgo_back p) c;
     Some (RCK_CGO (p\<lparr>cgo_back := g\<rparr>), c)
   }"

fun relay_crypt_client_originate :: "crypto_prims \<Rightarrow> relay_crypto \<Rightarrow> cell \<Rightarrow> (relay_crypto \<times> cell) option" where
  "relay_crypt_client_originate P (RCK_TOR1 t) c =
    (let (t, c) = tor1_crypt_client_originate P t c in Some (RCK_TOR1 t, c))"
| "relay_crypt_client_originate P (RCK_CGO p) c = do {
     (tag, g, c) \<leftarrow> cgo_crypt_client_originate P (cgo_fwd p) c;
     Some (RCK_CGO (p\<lparr>cgo_fwd := g, last_tag := tag\<rparr>), c)
   }"

fun relay_crypt_client_forward :: "crypto_prims \<Rightarrow> relay_crypto \<Rightarrow> cell \<Rightarrow> (relay_crypto \<times> cell) option" where
  "relay_crypt_client_forward P (RCK_TOR1 t) c =
    (let (t, c) = tor1_crypt_client_forward P t c in Some (RCK_TOR1 t, c))"
| "relay_crypt_client_forward P (RCK_CGO p) c = do {
     (g, c) \<leftarrow> cgo_crypt_client_forward P (cgo_fwd p) c;
     Some (RCK_CGO (p\<lparr>cgo_fwd := g\<rparr>), c)
   }"

text \<open>A hop of the client's path.\<close>

record crypt_path =
  cpath_open :: bool
  pvt_crypto :: relay_crypto

text \<open>The loop over the hops at the client: the number of the hop that recognised the cell, if one did.
  The path is a list from the first hop on; the code's is circular.\<close>

fun decrypt_at_origin :: "crypto_prims \<Rightarrow> crypt_path list \<Rightarrow> cell \<Rightarrow> (nat option \<times> crypt_path list \<times> cell) option" where
  "decrypt_at_origin P [] c = Some (None, [], c)"
| "decrypt_at_origin P (thishop # rest) c =
    (if \<not> cpath_open thishop then Some (None, thishop # rest, c)
     else do {
       (rec, cr, c) \<leftarrow> relay_crypt_client_backward P (pvt_crypto thishop) c;
       let thishop = thishop\<lparr>pvt_crypto := cr\<rparr>;
       if rec then Some (Some 0, thishop # rest, c)
       else do {
         (i, rest, c) \<leftarrow> decrypt_at_origin P rest c;
         Some (map_option Suc i, thishop # rest, c)
       }
     })"

text \<open>\<^verbatim>\<open>relay_decrypt_cell\<close> at a relay, in both directions, and at the client, where the result
  is -1 when no hop recognises the cell.\<close>

definition relay_decrypt_cell_outbound :: "crypto_prims \<Rightarrow> relay_crypto \<Rightarrow> cell \<Rightarrow> (bool \<times> relay_crypto \<times> cell) option" where
  "relay_decrypt_cell_outbound P crypto c = relay_crypt_relay_forward P crypto c"

definition relay_decrypt_cell_inbound :: "crypto_prims \<Rightarrow> relay_crypto \<Rightarrow> cell \<Rightarrow> (relay_crypto \<times> cell) option" where
  "relay_decrypt_cell_inbound P crypto c = relay_crypt_relay_backward P crypto c"

definition relay_decrypt_cell_origin :: "crypto_prims \<Rightarrow> crypt_path list \<Rightarrow> cell \<Rightarrow> (int \<times> nat option \<times> crypt_path list \<times> cell) option" where
  "relay_decrypt_cell_origin P cpath c = do {
     (i, cpath, c) \<leftarrow> decrypt_at_origin P cpath c;
     Some (if i = None then - 1 else 0, i, cpath, c)
   }"

text \<open>The loop from the hop before the target back to the first; \<open>k\<close> is the number of hops left.\<close>

fun encrypt_hops_before :: "crypto_prims \<Rightarrow> nat \<Rightarrow> crypt_path list \<Rightarrow> cell \<Rightarrow> (crypt_path list \<times> cell) option" where
  "encrypt_hops_before P 0 cpath c = Some (cpath, c)"
| "encrypt_hops_before P (Suc k) cpath c = do {
     (cr, c) \<leftarrow> relay_crypt_client_forward P (pvt_crypto (cpath ! k)) c;
     encrypt_hops_before P k (cpath[k := (cpath ! k)\<lparr>pvt_crypto := cr\<rparr>]) c
   }"

definition relay_encrypt_cell_outbound :: "crypto_prims \<Rightarrow> crypt_path list \<Rightarrow> nat \<Rightarrow> cell \<Rightarrow> (crypt_path list \<times> cell) option" where
  "relay_encrypt_cell_outbound P cpath layer_hint c =
    (if \<not> layer_hint < length cpath then None
     else do {
       (cr, c) \<leftarrow> relay_crypt_client_originate P (pvt_crypto (cpath ! layer_hint)) c;
       encrypt_hops_before P layer_hint (cpath[layer_hint := (cpath ! layer_hint)\<lparr>pvt_crypto := cr\<rparr>]) c
     })"

fun relay_encrypt_cell_inbound :: "crypto_prims \<Rightarrow> relay_crypto \<Rightarrow> cell \<Rightarrow> (relay_crypto \<times> cell) option" where
  "relay_encrypt_cell_inbound P (RCK_TOR1 t) c =
    (let (t, c) = tor1_crypt_relay_originate P t c in Some (RCK_TOR1 t, c))"
| "relay_encrypt_cell_inbound P (RCK_CGO p) c = do {
     (tag, g, c) \<leftarrow> cgo_crypt_relay_originate P (cgo_back p) c;
     Some (RCK_CGO (p\<lparr>cgo_back := g, last_tag := tag\<rparr>), c)
   }"

text \<open>\<^const>\<open>None\<close> is the result -1 or a failed assertion.\<close>

definition cgo_pair_init :: "bool \<Rightarrow> bytes \<Rightarrow> cgo_pair option" where
  "cgo_pair_init is_relay key_material = do {
     single_cgo_len \<leftarrow> cgo_key_material_len CGO_AES_BITS;
     if length key_material \<noteq> single_cgo_len * 2 then None
     else do {
       let (fwd_mode, back_mode) = (if is_relay then (CGO_MODE_RELAY_FORWARD, CGO_MODE_RELAY_BACKWARD)
                                    else (CGO_MODE_CLIENT_FORWARD, CGO_MODE_CLIENT_BACKWARD));
       f \<leftarrow> cgo_crypt_new fwd_mode CGO_AES_BITS (take single_cgo_len key_material);
       b \<leftarrow> cgo_crypt_new back_mode CGO_AES_BITS (take single_cgo_len (drop single_cgo_len key_material));
       Some \<lparr>cgo_fwd = f, cgo_back = b, last_tag = replicate SENDME_TAG_LEN_CGO 0\<rparr>
     }
   }"

fun relay_crypto_init :: "relay_crypto_alg \<Rightarrow> bytes \<Rightarrow> relay_crypto option" where
  "relay_crypto_init RELAY_CRYPTO_ALG_TOR1 key = map_option RCK_TOR1 (tor1_crypt_init key False False)"
| "relay_crypto_init RELAY_CRYPTO_ALG_TOR1_HSC key = map_option RCK_TOR1 (tor1_crypt_init key False True)"
| "relay_crypto_init RELAY_CRYPTO_ALG_TOR1_HSS key = map_option RCK_TOR1 (tor1_crypt_init key True True)"
| "relay_crypto_init RELAY_CRYPTO_ALG_CGO_CLIENT key = map_option RCK_CGO (cgo_pair_init False key)"
| "relay_crypto_init RELAY_CRYPTO_ALG_CGO_RELAY key = map_option RCK_CGO (cgo_pair_init True key)"

fun relay_crypto_key_material_len :: "relay_crypto_alg \<Rightarrow> nat option" where
  "relay_crypto_key_material_len RELAY_CRYPTO_ALG_TOR1 = Some (tor1_key_material_len False)"
| "relay_crypto_key_material_len RELAY_CRYPTO_ALG_TOR1_HSC = Some (tor1_key_material_len True)"
| "relay_crypto_key_material_len RELAY_CRYPTO_ALG_TOR1_HSS = Some (tor1_key_material_len True)"
| "relay_crypto_key_material_len RELAY_CRYPTO_ALG_CGO_CLIENT = map_option (\<lambda>n. n * 2) (cgo_key_material_len CGO_AES_BITS)"
| "relay_crypto_key_material_len RELAY_CRYPTO_ALG_CGO_RELAY = map_option (\<lambda>n. n * 2) (cgo_key_material_len CGO_AES_BITS)"

end
