(* ===== verification/RelayCryptoSync.thy ===== *)
theory RelayCryptoSync
  imports RelayCrypto
begin

text \<open>
  What the onion layers promise: a client and the relays of its circuit that start from the same key
  material stay in step. Every cell sent in either direction comes out, at the hop it is meant for, as
  it went in, and both ends hold the same tag for it, unless a hop on the way mistakes it for its own,
  which the digests and nonces make unlikely and the statement leaves open.
\<close>

section \<open>Exclusive or\<close>

lemma xor_self_inverse:
  "length m = length d \<Longrightarrow> map2 (XOR) (map2 (XOR) d m) m = (d :: bytes)"
  by (induction d m rule: list_induct2') (auto simp: xor.assoc)

lemma crypt_twice:
  assumes "crypto_cipher_crypt_inplace P c d = (e, c')"
  shows "crypto_cipher_crypt_inplace P c e = (d, c')" "length e = length d"
  using assms by (auto simp: crypto_cipher_crypt_inplace_def xor_self_inverse)

section \<open>Counter galois layers in step\<close>

definition aligned :: "cgo_prf \<Rightarrow> bool" where "aligned s \<longleftrightarrow> ctr_pos (prf_k s) mod 16 = 0"

text \<open>The client's side decrypts, the relay's side encrypts.\<close>

definition uiv_sync :: "cgo_uiv \<Rightarrow> cgo_uiv \<Rightarrow> bool" where
  "uiv_sync u r \<longleftrightarrow> kb (uiv_j u) = kb (uiv_j r) \<and> ku (uiv_j u) = ku (uiv_j r)
    \<and> \<not> kb_encrypt (uiv_j u) \<and> kb_encrypt (uiv_j r) \<and> uiv_s u = uiv_s r \<and> aligned (uiv_s u)"

definition cgo_sync :: "cgo_crypt \<Rightarrow> cgo_crypt \<Rightarrow> bool" where
  "cgo_sync a b \<longleftrightarrow> uiv_sync (uiv a) (uiv b) \<and> nonce a = nonce b \<and> tprime a = tprime b
    \<and> aes_bytes a = aes_bytes b \<and> length (nonce b) = 16"

lemma length_prf_hash: "prims_ok P \<Longrightarrow> length (prf_hash P s x) = 16"
  by (simp add: prf_hash_def prims_ok_def Let_def)

lemma prf_xor_t0:
  assumes "prims_ok P" "aligned s" "length d = 493"
  obtains m s' where "\<And>e. length e = 493 \<Longrightarrow> cgo_prf_xor_t0 P s x e = Some (map2 (XOR) e m, s')"
    "aligned s'" "length m = 493"
proof -
  let ?h = "prf_hash P s x"
  let ?m = "map (\<lambda>i. aes_keystream P (ctr_key (prf_k s)) ?h (0 + i)) [0..<493]"
  let ?s = "s\<lparr>prf_k := (prf_k s)\<lparr>ctr_iv := ?h, ctr_pos := 496\<rparr>\<rparr>"
  show thesis
  proof (rule that [of ?m ?s])
    fix e :: bytes
    assume "length e = 493"
    then show "cgo_prf_xor_t0 P s x e = Some (map2 (XOR) e ?m, ?s)"
      using assms(1,2) by (simp add: cgo_prf_xor_t0_def aes_cipher_set_iv_aligned_def aligned_def PRF_T0_DATA_LEN_def
        crypto_cipher_crypt_inplace_def length_prf_hash Let_def)
  qed (simp_all add: aligned_def)
qed

lemma prf_gen_t1:
  assumes "prims_ok P" "aligned s"
  obtains keys s' where "cgo_prf_gen_t1 P s x n = Some (keys, s')" "aligned s'" "length keys = n"
proof -
  let ?h = "prf_hash P s x"
  let ?iv = "?h[15 := ?h ! 15 + 31]"
  let ?keys = "fst (crypto_cipher_crypt_inplace P ((prf_k s)\<lparr>ctr_iv := ?iv, ctr_pos := 0\<rparr>) (replicate n 0))"
  let ?s = "s\<lparr>prf_k := (prf_k s)\<lparr>ctr_iv := ?iv, ctr_pos := n + (16 - n mod 16)\<rparr>\<rparr>"
  have "(n + (16 - n mod 16)) mod 16 = 0" by presburger
  then have "aligned ?s" by (simp add: aligned_def)
  moreover have "cgo_prf_gen_t1 P s x n = Some (?keys, ?s)"
    using assms by (simp add: cgo_prf_gen_t1_def aes_cipher_set_iv_aligned_def aligned_def
      crypto_cipher_crypt_inplace_def length_prf_hash Let_def)
  moreover have "length ?keys = n" by (simp add: crypto_cipher_crypt_inplace_def)
  ultimately show thesis using that by blast
qed

lemma length_mask: "prims_ok P \<Longrightarrow> length (compute_et_mask P k tw) = 16"
  by (simp add: prims_ok_def compute_et_mask_def)

lemma et_inverse:
  assumes "prims_ok P" "kb a = kb b" "ku a = ku b" "\<not> kb_encrypt a" "kb_encrypt b" "length x = 16"
  shows "\<exists>y. cgo_et_encrypt P b tw x = Some y \<and> cgo_et_decrypt P a tw y = Some x \<and> length y = 16"
    "\<exists>y. cgo_et_decrypt P a tw x = Some y \<and> cgo_et_encrypt P b tw y = Some x \<and> length y = 16"
proof -
  let ?m = "compute_et_mask P (ku b) tw"
  have m: "length ?m = 16" using length_mask [OF assms(1)] .
  have x: "length (map2 (XOR) x ?m) = 16" using m assms(6) by simp
  have l: "length (aes_block_encrypt P k z) = 16" "length (aes_block_decrypt P k z) = 16"
    "aes_block_decrypt P k (aes_block_encrypt P k z) = z" "aes_block_encrypt P k (aes_block_decrypt P k z) = z"
    if "length z = 16" for k z
    using assms(1) that by (simp_all add: prims_ok_def)
  show "\<exists>y. cgo_et_encrypt P b tw x = Some y \<and> cgo_et_decrypt P a tw y = Some x \<and> length y = 16"
    "\<exists>y. cgo_et_decrypt P a tw x = Some y \<and> cgo_et_encrypt P b tw y = Some x \<and> length y = 16"
    using assms m l [OF x] by (simp_all add: cgo_et_encrypt_def cgo_et_decrypt_def xor_block_def xor_self_inverse Let_def)
qed

text \<open>The wide-block cipher: decryption at the client and encryption at the relay undo each other, in
  either order, and move the two states alike.\<close>

lemma uiv_inverse:
  assumes "prims_ok P" "uiv_sync u r" "length x = 509"
  shows "\<exists>y u' r'. cgo_uiv_decrypt P u h cmd x = Some (y, u') \<and> cgo_uiv_encrypt P r h cmd y = Some (x, r')
      \<and> uiv_sync u' r' \<and> length y = 509"
    "\<exists>y u' r'. cgo_uiv_encrypt P r h cmd x = Some (y, r') \<and> cgo_uiv_decrypt P u h cmd y = Some (x, u')
      \<and> uiv_sync u' r' \<and> length y = 509"
proof -
  note s = assms(2) [unfolded uiv_sync_def]
  let ?L = "take 16 x" and ?R = "drop 16 x"
  have len: "length ?L = 16" "length ?R = 493" using assms(3) by simp_all
  have al: "aligned (uiv_s r)" using s by metis
  have inv: "kb (uiv_j u) = kb (uiv_j r)" "ku (uiv_j u) = ku (uiv_j r)" "\<not> kb_encrypt (uiv_j u)" "kb_encrypt (uiv_j r)"
    using s by simp_all
  have sync: "uiv_sync (u\<lparr>uiv_s := p\<rparr>) (r\<lparr>uiv_s := p\<rparr>)" if "aligned p" for p
    using s that by (simp add: uiv_sync_def)
  show "\<exists>y u' r'. cgo_uiv_decrypt P u h cmd x = Some (y, u') \<and> cgo_uiv_encrypt P r h cmd y = Some (x, r')
      \<and> uiv_sync u' r' \<and> length y = 509"
  proof -
    obtain m p where p: "\<And>e. length e = 493 \<Longrightarrow> cgo_prf_xor_t0 P (uiv_s r) ?L e = Some (map2 (XOR) e m, p)"
      "aligned p" "length m = 493"
      using prf_xor_t0 [OF assms(1) al len(2), of ?L] by blast
    let ?R' = "map2 (XOR) ?R m"
    have R': "length ?R' = 493" using len p(3) by simp
    let ?tw = "\<lparr>tw_h = h, tw_cmd = cmd, tw_x_r = ?R'\<rparr>"
    obtain L' where L': "cgo_et_decrypt P (uiv_j u) ?tw ?L = Some L'" "cgo_et_encrypt P (uiv_j r) ?tw L' = Some ?L" "length L' = 16"
      using et_inverse(2) [OF assms(1) inv len(1)] by blast
    have "cgo_uiv_decrypt P u h cmd x = Some (L' @ ?R', u\<lparr>uiv_s := p\<rparr>)"
      using s p(1) [OF len(2)] L'(1) by (simp add: cgo_uiv_decrypt_def Let_def)
    moreover have "cgo_uiv_encrypt P r h cmd (L' @ ?R') = Some (x, r\<lparr>uiv_s := p\<rparr>)"
      using p(1) [OF R'] L'(2,3) p(3) len by (simp add: cgo_uiv_encrypt_def Let_def xor_self_inverse)
    ultimately show ?thesis using sync [OF p(2)] L'(3) R' by auto
  qed
  show "\<exists>y u' r'. cgo_uiv_encrypt P r h cmd x = Some (y, r') \<and> cgo_uiv_decrypt P u h cmd y = Some (x, u')
      \<and> uiv_sync u' r' \<and> length y = 509"
  proof -
    let ?tw = "\<lparr>tw_h = h, tw_cmd = cmd, tw_x_r = ?R\<rparr>"
    obtain L' where L': "cgo_et_encrypt P (uiv_j r) ?tw ?L = Some L'" "cgo_et_decrypt P (uiv_j u) ?tw L' = Some ?L" "length L' = 16"
      using et_inverse(1) [OF assms(1) inv len(1)] by blast
    obtain m p where p: "\<And>e. length e = 493 \<Longrightarrow> cgo_prf_xor_t0 P (uiv_s r) L' e = Some (map2 (XOR) e m, p)"
      "aligned p" "length m = 493"
      using prf_xor_t0 [OF assms(1) al len(2), of L'] by blast
    let ?R' = "map2 (XOR) ?R m"
    have R': "length ?R' = 493" using len p(3) by simp
    have "cgo_uiv_encrypt P r h cmd x = Some (L' @ ?R', r\<lparr>uiv_s := p\<rparr>)"
      using p(1) [OF len(2)] L'(1) by (simp add: cgo_uiv_encrypt_def Let_def)
    moreover have "cgo_uiv_decrypt P u h cmd (L' @ ?R') = Some (x, u\<lparr>uiv_s := p\<rparr>)"
      using s p(1) [OF R'] L'(2,3) p(3) len by (simp add: cgo_uiv_decrypt_def Let_def xor_self_inverse)
    ultimately show ?thesis using sync [OF p(2)] L'(3) R' by auto
  qed
qed

text \<open>Both sides derive the same new keys and nonce.\<close>

lemma update_sync:
  assumes "prims_ok P" "uiv_sync (uiv a) (uiv b)" "nonce a = nonce b" "tprime a = tprime b" "aes_bytes a = aes_bytes b"
    "\<not> encrypt_mode ma" "encrypt_mode mb"
  shows "\<exists>a' b'. cgo_crypt_update P a ma = Some a' \<and> cgo_crypt_update P b mb = Some b' \<and> cgo_sync a' b'
    \<and> tprime a' = tprime a \<and> last_tag_relay_fwd b' = last_tag_relay_fwd b"
proof -
  note s = assms(2) [unfolded uiv_sync_def]
  let ?n = "(aes_bytes b + POLYVAL_KEY_LEN) * 2 + 16"
  have al: "aligned (uiv_s (uiv b))" using s by metis
  obtain keys p where k: "cgo_prf_gen_t1 P (uiv_s (uiv b)) (nonce b) ?n = Some (keys, p)" "aligned p" "length keys = ?n"
    using prf_gen_t1 [OF assms(1) al] by blast
  have "aligned (cgo_prf_set_key (aes_bytes b * 8) z p)" for z
    using k(2) by (simp add: aligned_def cgo_prf_set_key_def aes_cipher_set_key_def Let_def)
  then show ?thesis using k s assms(3-7)
    by (simp add: cgo_crypt_update_def cgo_uiv_update_def cgo_sync_def uiv_sync_def cgo_et_set_key_def Let_def)
qed

section \<open>One layer\<close>

definition good_cell :: "cell \<Rightarrow> bool" where "good_cell c \<longleftrightarrow> length (payload c) = 509"

definition forward_sync :: "relay_crypto \<Rightarrow> relay_crypto \<Rightarrow> bool" where
  "forward_sync a b \<longleftrightarrow>
    (case (a, b) of
       (RCK_TOR1 s, RCK_TOR1 t) \<Rightarrow> f_crypto s = f_crypto t \<and> f_digest s = f_digest t
     | (RCK_CGO p, RCK_CGO q) \<Rightarrow> cgo_sync (cgo_fwd p) (cgo_fwd q)
     | _ \<Rightarrow> False)"

definition backward_sync :: "relay_crypto \<Rightarrow> relay_crypto \<Rightarrow> bool" where
  "backward_sync a b \<longleftrightarrow>
    (case (a, b) of
       (RCK_TOR1 s, RCK_TOR1 t) \<Rightarrow> b_crypto s = b_crypto t \<and> b_digest s = b_digest t
     | (RCK_CGO p, RCK_CGO q) \<Rightarrow> cgo_sync (cgo_back p) (cgo_back q)
     | _ \<Rightarrow> False)"

definition in_step :: "relay_crypto \<Rightarrow> relay_crypto \<Rightarrow> bool" where
  "in_step a b \<longleftrightarrow> forward_sync a b \<and> backward_sync a b"

text \<open>A cell whose header leaves room for the layer, and the part of it the layer delivers: layers of
  the first kind give the payload back, the others all but the tag.\<close>

fun sendable :: "relay_crypto \<Rightarrow> cell \<Rightarrow> bool" where
  "sendable (RCK_TOR1 _) c \<longleftrightarrow> good_cell c \<and> take 2 (drop 1 (payload c)) = [0, 0] \<and> take 4 (drop 5 (payload c)) = replicate 4 0"
| "sendable (RCK_CGO _) c \<longleftrightarrow> good_cell c"

fun delivered_part :: "relay_crypto \<Rightarrow> cell \<Rightarrow> byte \<times> bytes" where
  "delivered_part (RCK_TOR1 _) c = (cell_command c, payload c)"
| "delivered_part (RCK_CGO _) c = (cell_command c, drop 16 (payload c))"

lemma one_payload_twice:
  assumes "tor1_crypt_one_payload P k c = (k', c')"
  shows "tor1_crypt_one_payload P k c' = (k', c)" "length (payload c') = length (payload c)" "cell_command c' = cell_command c"
proof -
  obtain d where d: "crypto_cipher_crypt_inplace P k (payload c) = (d, k')" "c' = c\<lparr>payload := d\<rparr>"
    using assms by (auto simp: tor1_crypt_one_payload_def split: prod.splits)
  show "tor1_crypt_one_payload P k c' = (k', c)" using crypt_twice(1) [OF d(1)] d(2) by (simp add: tor1_crypt_one_payload_def)
  show "length (payload c') = length (payload c)" "cell_command c' = cell_command c"
    using crypt_twice(2) [OF d(1)] d(2) by simp_all
qed

lemma put_same: "i + length b \<le> length l \<Longrightarrow> take (length b) (drop i l) = b \<Longrightarrow> put i b l = l"
  unfolding put_def by (metis add.commute append_take_drop_id drop_drop)

lemma length_put: "i + length b \<le> length l \<Longrightarrow> length (put i b l) = length l"
  by (simp add: put_def)

lemma put_put: "i + length b \<le> length l \<Longrightarrow> length a = length b \<Longrightarrow> put i a (put i b l) = put i a l"
  by (simp add: put_def)

lemma take_drop_put: "i + length b \<le> length l \<Longrightarrow> take (length b) (drop i (put i b l)) = b"
  by (simp add: put_def)

text \<open>The digest: a cell with the digest set is recognised with the same running digest, and a cell that
  does not match comes back unchanged.\<close>

lemma digest_set_matches:
  assumes "prims_ok P" "tor1_set_digest_v0 P dg c = (dg', c', buf)" "good_cell c"
    "take 2 (drop 1 (payload c)) = [0, 0]" "take 4 (drop 5 (payload c)) = replicate 4 0"
  shows "relay_cell_is_recognized_v0 c'" "tor1_relay_digest_matches_v0 P dg c' = (Some buf, dg', c)" "good_cell c'"
    "cell_command c' = cell_command c" "length buf = 20"
proof -
  have c': "c' = c\<lparr>payload := put 5 (take 4 buf) (payload c)\<rparr>" "dg' = crypto_digest_add_bytes dg (payload c)"
    "buf = crypto_digest_get_digest P dg' 20"
    using assms(2) by (auto simp: tor1_set_digest_v0_def Let_def V0_DIGEST_OFFSET_def V0_DIGEST_LEN_def DIGEST_LEN_def)
  have "20 \<le> length (hash_bytes P (dg_alg dg') (dg_bytes dg'))" using assms(1) by (simp add: prims_ok_def)
  then have lb: "length (take 4 buf) = 4" "length buf = 20"
    by (simp_all add: c'(3) crypto_digest_get_digest_def)
  have len: "5 + length (take 4 buf) \<le> length (payload c)" using assms(3) lb by (simp add: good_cell_def)
  have z: "put 5 (replicate 4 0) (put 5 (take 4 buf) (payload c)) = payload c"
    using put_put [OF len, of "replicate 4 0"] put_same [of 5 "replicate 4 0" "payload c"] assms(3,5) lb
    by (simp add: good_cell_def)
  have r: "take 4 (drop 5 (put 5 (take 4 buf) (payload c))) = take 4 buf" using take_drop_put [OF len] lb by simp
  have "take 2 (drop 1 (put 5 b l)) = take 2 (drop 1 l)" if "509 = length l" for b and l :: bytes
    using that by (simp add: put_def drop_take)
  then show "relay_cell_is_recognized_v0 c'" using assms(3,4) c'(1)
    by (simp add: relay_cell_is_recognized_v0_def V0_RECOGNIZED_OFFSET_def good_cell_def)
  show "tor1_relay_digest_matches_v0 P dg c' = (Some buf, dg', c)"
    using c' z r by (simp add: tor1_relay_digest_matches_v0_def V0_DIGEST_OFFSET_def V0_DIGEST_LEN_def DIGEST_LEN_def Let_def)
  show "good_cell c'" using c' length_put [OF len] assms(3) by (simp add: good_cell_def)
  show "cell_command c' = cell_command c" "length buf = 20" using c' lb by simp_all
qed

lemma digest_no_match:
  assumes "tor1_relay_digest_matches_v0 P dg c = (None, dg', c')" "good_cell c"
  shows "dg' = dg" "c' = c"
proof -
  let ?r = "take 4 (drop 5 (payload c))"
  have "put 5 ?r (put 5 (replicate 4 0) (payload c)) = payload c"
    using put_put [of 5 "replicate 4 0" "payload c" ?r] put_same [of 5 ?r "payload c"] assms(2) by (simp add: good_cell_def)
  then show "dg' = dg" "c' = c"
    using assms by (auto simp: tor1_relay_digest_matches_v0_def V0_DIGEST_OFFSET_def V0_DIGEST_LEN_def Let_def split: if_splits)
qed

lemma cgo_forward:
  assumes "prims_ok P" "cgo_sync a b" "good_cell c"
  shows "\<exists>a' c' tag b' c''. cgo_crypt_client_forward P a c = Some (a', c') \<and> good_cell c' \<and> cell_command c' = cell_command c
    \<and> cgo_crypt_relay_forward P b c' = Some (tag, b', c'') \<and> (tag = None \<longrightarrow> c'' = c \<and> cgo_sync a' b')"
proof -
  note s = assms(2) [unfolded cgo_sync_def]
  obtain y u' r' where u: "cgo_uiv_decrypt P (uiv a) (tprime a) (cell_command c) (payload c) = Some (y, u')"
    "cgo_uiv_encrypt P (uiv b) (tprime a) (cell_command c) y = Some (payload c, r')" "uiv_sync u' r'" "length y = 509"
    using uiv_inverse(1) [OF assms(1), of "uiv a" "uiv b" "payload c" "tprime a" "cell_command c"] s assms(3)
    by (auto simp: good_cell_def)
  let ?c' = "c\<lparr>payload := y\<rparr>"
  let ?b = "b\<lparr>last_tag_relay_fwd := tag_of ?c', uiv := r', tprime := tag_of c\<rparr>"
  let ?a = "a\<lparr>uiv := u', tprime := tag_of c\<rparr>"
  have sync: "cgo_sync ?a ?b" using s u(3) by (simp add: cgo_sync_def)
  have "\<exists>b'. cgo_crypt_update P ?b CGO_MODE_RELAY_FORWARD = Some b'"
    using update_sync [OF assms(1), of ?a ?b CGO_MODE_CLIENT_FORWARD CGO_MODE_RELAY_FORWARD] s u(3)
    by (auto simp: encrypt_mode_def)
  then show ?thesis using u s sync assms(3)
    by (auto simp: cgo_crypt_client_forward_def cgo_crypt_relay_forward_def good_cell_def Let_def)
qed

lemma cgo_forward_originate:
  assumes "prims_ok P" "cgo_sync a b" "good_cell c"
  shows "\<exists>tag a' c' b' c''. cgo_crypt_client_originate P a c = Some (tag, a', c') \<and> good_cell c' \<and> cell_command c' = cell_command c
    \<and> cgo_crypt_relay_forward P b c' = Some (Some tag, b', c'') \<and> cell_command c'' = cell_command c
    \<and> drop 16 (payload c'') = drop 16 (payload c) \<and> cgo_sync a' b'"
proof -
  note s = assms(2) [unfolded cgo_sync_def]
  let ?c = "c\<lparr>payload := put 0 (nonce a) (payload c)\<rparr>"
  have c: "good_cell ?c" "tag_of ?c = nonce a" "drop 16 (payload ?c) = drop 16 (payload c)"
    using s assms(3) by (simp_all add: good_cell_def tag_of_def put_def SENDME_TAG_LEN_CGO_def)
  obtain y u' r' where u: "cgo_uiv_decrypt P (uiv a) (tprime a) (cell_command c) (payload ?c) = Some (y, u')"
    "cgo_uiv_encrypt P (uiv b) (tprime a) (cell_command c) y = Some (payload ?c, r')" "uiv_sync u' r'" "length y = 509"
    using uiv_inverse(1) [OF assms(1), of "uiv a" "uiv b" "payload ?c" "tprime a" "cell_command c"] s c(1)
    by (auto simp: good_cell_def)
  let ?c' = "c\<lparr>payload := y\<rparr>"
  let ?a = "a\<lparr>uiv := u', tprime := nonce a\<rparr>"
  let ?b = "b\<lparr>last_tag_relay_fwd := tag_of ?c', uiv := r', tprime := nonce a\<rparr>"
  obtain a' b' where up: "cgo_crypt_update P ?a CGO_MODE_CLIENT_FORWARD = Some a'"
    "cgo_crypt_update P ?b CGO_MODE_RELAY_FORWARD = Some b'" "cgo_sync a' b'" "last_tag_relay_fwd b' = tag_of ?c'"
    using update_sync [OF assms(1), of ?a ?b CGO_MODE_CLIENT_FORWARD CGO_MODE_RELAY_FORWARD] s u(3)
    by (auto simp: encrypt_mode_def)
  have "cgo_crypt_client_originate P a c = Some (tag_of ?c', a', ?c')"
    using u(1) up(1) c(2) by (simp add: cgo_crypt_client_originate_def cgo_crypt_client_forward_def Let_def)
  moreover have "cgo_crypt_relay_forward P b ?c' = Some (Some (tag_of ?c'), b', ?c)"
    using u(2) up(2,4) c(2) s by (simp add: cgo_crypt_relay_forward_def Let_def)
  ultimately show ?thesis using u(4) c(3) up(3) by (simp add: good_cell_def)
qed

lemma cgo_backward:
  assumes "prims_ok P" "cgo_sync a b" "good_cell c"
  shows "\<exists>b' c' tag a' c''. cgo_crypt_relay_backward P b c = Some (b', c') \<and> good_cell c' \<and> cell_command c' = cell_command c
    \<and> cgo_crypt_client_backward P a c' = Some (tag, a', c'') \<and> (tag = None \<longrightarrow> c'' = c \<and> cgo_sync a' b')"
proof -
  note s = assms(2) [unfolded cgo_sync_def]
  obtain y u' r' where u: "cgo_uiv_encrypt P (uiv b) (tprime b) (cell_command c) (payload c) = Some (y, r')"
    "cgo_uiv_decrypt P (uiv a) (tprime b) (cell_command c) y = Some (payload c, u')" "uiv_sync u' r'" "length y = 509"
    using uiv_inverse(2) [OF assms(1), of "uiv a" "uiv b" "payload c" "tprime b" "cell_command c"] s assms(3)
    by (auto simp: good_cell_def)
  let ?c' = "c\<lparr>payload := y\<rparr>"
  let ?a = "a\<lparr>uiv := u', tprime := tag_of ?c'\<rparr>" and ?b = "b\<lparr>uiv := r', tprime := tag_of ?c'\<rparr>"
  have "\<exists>a'. cgo_crypt_update P (?a\<lparr>nonce := tag_of ?c'\<rparr>) CGO_MODE_CLIENT_BACKWARD = Some a'"
    using update_sync [OF assms(1), of "?a\<lparr>nonce := tag_of ?c'\<rparr>" "?b\<lparr>nonce := tag_of ?c'\<rparr>" CGO_MODE_CLIENT_BACKWARD CGO_MODE_RELAY_BACKWARD] s u(3)
    by (auto simp: encrypt_mode_def)
  moreover have "cgo_sync ?a ?b" using s u(3) by (simp add: cgo_sync_def)
  ultimately show ?thesis using u s
    by (auto simp: cgo_crypt_relay_backward_def cgo_crypt_client_backward_def good_cell_def Let_def)
qed

lemma cgo_backward_originate:
  assumes "prims_ok P" "cgo_sync a b" "good_cell c"
  shows "\<exists>tag b' c' a' c''. cgo_crypt_relay_originate P b c = Some (tag, b', c') \<and> good_cell c' \<and> cell_command c' = cell_command c
    \<and> cgo_crypt_client_backward P a c' = Some (Some tag, a', c'') \<and> cell_command c'' = cell_command c
    \<and> drop 16 (payload c'') = drop 16 (payload c) \<and> cgo_sync a' b'"
proof -
  note s = assms(2) [unfolded cgo_sync_def]
  let ?c = "c\<lparr>payload := put 0 (nonce b) (payload c)\<rparr>"
  have c: "good_cell ?c" "tag_of ?c = nonce b" "drop 16 (payload ?c) = drop 16 (payload c)"
    using s assms(3) by (simp_all add: good_cell_def tag_of_def put_def SENDME_TAG_LEN_CGO_def)
  obtain y u' r' where u: "cgo_uiv_encrypt P (uiv b) (tprime b) (cell_command c) (payload ?c) = Some (y, r')"
    "cgo_uiv_decrypt P (uiv a) (tprime b) (cell_command c) y = Some (payload ?c, u')" "uiv_sync u' r'" "length y = 509"
    using uiv_inverse(2) [OF assms(1), of "uiv a" "uiv b" "payload ?c" "tprime b" "cell_command c"] s c(1)
    by (auto simp: good_cell_def)
  let ?c' = "c\<lparr>payload := y\<rparr>"
  let ?a = "a\<lparr>uiv := u', tprime := tag_of ?c', nonce := tag_of ?c'\<rparr>"
  let ?b = "b\<lparr>uiv := r', tprime := tag_of ?c', nonce := tag_of ?c'\<rparr>"
  obtain a' b' where up: "cgo_crypt_update P ?a CGO_MODE_CLIENT_BACKWARD = Some a'"
    "cgo_crypt_update P ?b CGO_MODE_RELAY_BACKWARD = Some b'" "cgo_sync a' b'" "tprime a' = tag_of ?c'"
    using update_sync [OF assms(1), of ?a ?b CGO_MODE_CLIENT_BACKWARD CGO_MODE_RELAY_BACKWARD] s u(3)
    by (auto simp: encrypt_mode_def)
  have "tprime b' = tag_of ?c'" using up(3,4) by (simp add: cgo_sync_def)
  then have "cgo_crypt_relay_originate P b c = Some (tag_of ?c', b', ?c')"
    using u(1) up(2) by (simp add: cgo_crypt_relay_originate_def Let_def)
  moreover have "cgo_crypt_client_backward P a ?c' = Some (Some (tag_of ?c'), a', ?c)"
    using u(2) up(1,4) c(2) s by (simp add: cgo_crypt_client_backward_def Let_def)
  ultimately show ?thesis using u(4) c(3) up(3) by (simp add: good_cell_def)
qed

text \<open>The four ways a cell goes through a pair of layers that are in step.\<close>

lemma layer_out:
  assumes "prims_ok P" "in_step a b" "good_cell c"
  shows "\<exists>a' c' rec b' c''. relay_crypt_client_forward P a c = Some (a', c') \<and> good_cell c'
    \<and> relay_crypt_relay_forward P b c' = Some (rec, b', c'') \<and> (\<not> rec \<longrightarrow> c'' = c \<and> in_step a' b')"
proof (cases a)
  case (RCK_TOR1 s)
  then obtain t where t: "b = RCK_TOR1 t" using assms(2) by (cases b) (auto simp: in_step_def forward_sync_def)
  obtain k c' where o: "tor1_crypt_one_payload P (f_crypto s) c = (k, c')" by fastforce
  note tw = one_payload_twice [OF o]
  have eq: "f_crypto t = f_crypto s" "f_digest t = f_digest s" "b_crypto t = b_crypto s" "b_digest t = b_digest s"
    using assms(2) RCK_TOR1 t by (simp_all add: in_step_def forward_sync_def backward_sync_def)
  obtain m dg c2 where m: "tor1_relay_digest_matches_v0 P (f_digest t) c = (m, dg, c2)" by (metis prod_cases3)
  have "m = None \<Longrightarrow> dg = f_digest t \<and> c2 = c" using digest_no_match [OF _ assms(3)] m by blast
  then show ?thesis
    using RCK_TOR1 t o tw assms(3) eq m
    by (cases m; cases "relay_cell_is_recognized_v0 c") (auto simp: tor1_crypt_client_forward_def tor1_crypt_relay_forward_def
      good_cell_def in_step_def forward_sync_def backward_sync_def Let_def)
next
  case (RCK_CGO p)
  then obtain q where q: "b = RCK_CGO q" using assms(2) by (cases b) (auto simp: in_step_def forward_sync_def)
  then have "cgo_sync (cgo_fwd p) (cgo_fwd q)" "cgo_sync (cgo_back p) (cgo_back q)"
    using assms(2) RCK_CGO by (simp_all add: in_step_def forward_sync_def backward_sync_def)
  with cgo_forward [OF assms(1) this(1) assms(3)] show ?thesis using RCK_CGO q
    by (auto simp: in_step_def forward_sync_def backward_sync_def split: option.splits)
qed

lemma layer_out_originate:
  assumes "prims_ok P" "in_step a b" "sendable a c"
  shows "\<exists>a' c' b' c''. relay_crypt_client_originate P a c = Some (a', c') \<and> good_cell c'
    \<and> relay_crypt_relay_forward P b c' = Some (True, b', c'') \<and> in_step a' b'
    \<and> delivered_part b' c'' = delivered_part a c \<and> relay_crypto_get_sendme_tag a' = relay_crypto_get_sendme_tag b'"
proof (cases a)
  case (RCK_TOR1 s)
  then obtain t where t: "b = RCK_TOR1 t" using assms(2) by (cases b) (auto simp: in_step_def forward_sync_def)
  have eq: "f_crypto t = f_crypto s" "f_digest t = f_digest s" "b_crypto t = b_crypto s" "b_digest t = b_digest s"
    using assms(2) RCK_TOR1 t by (simp_all add: in_step_def forward_sync_def backward_sync_def)
  obtain dg c1 buf where d: "tor1_set_digest_v0 P (f_digest s) c = (dg, c1, buf)" by (metis prod_cases3)
  have c: "good_cell c" "take 2 (drop 1 (payload c)) = [0, 0]" "take 4 (drop 5 (payload c)) = replicate 4 0"
    using assms(3) RCK_TOR1 by simp_all
  note dm = digest_set_matches [OF assms(1) d c]
  obtain k c' where o: "tor1_crypt_one_payload P (f_crypto s) c1 = (k, c')" by fastforce
  note tw = one_payload_twice [OF o]
  show ?thesis
    using RCK_TOR1 t d o tw eq dm
    by (simp add: tor1_crypt_client_originate_def tor1_crypt_relay_forward_def good_cell_def in_step_def
      forward_sync_def backward_sync_def)
next
  case (RCK_CGO p)
  then obtain q where q: "b = RCK_CGO q" using assms(2) by (cases b) (auto simp: in_step_def forward_sync_def)
  then have s: "cgo_sync (cgo_fwd p) (cgo_fwd q)" "cgo_sync (cgo_back p) (cgo_back q)"
    using assms(2) RCK_CGO by (simp_all add: in_step_def forward_sync_def backward_sync_def)
  have "good_cell c" using assms(3) RCK_CGO by simp
  from cgo_forward_originate [OF assms(1) s(1) this] show ?thesis using RCK_CGO q s(2)
    by (auto simp: in_step_def forward_sync_def backward_sync_def)
qed

lemma layer_in:
  assumes "prims_ok P" "in_step a b" "good_cell c"
  shows "\<exists>b' c' rec a' c''. relay_crypt_relay_backward P b c = Some (b', c') \<and> good_cell c'
    \<and> relay_crypt_client_backward P a c' = Some (rec, a', c'') \<and> (\<not> rec \<longrightarrow> c'' = c \<and> in_step a' b')"
proof (cases a)
  case (RCK_TOR1 s)
  then obtain t where t: "b = RCK_TOR1 t" using assms(2) by (cases b) (auto simp: in_step_def forward_sync_def)
  obtain k c' where o: "tor1_crypt_one_payload P (b_crypto t) c = (k, c')" by fastforce
  note tw = one_payload_twice [OF o]
  have eq: "f_crypto t = f_crypto s" "f_digest t = f_digest s" "b_crypto s = b_crypto t" "b_digest s = b_digest t"
    using assms(2) RCK_TOR1 t by (simp_all add: in_step_def forward_sync_def backward_sync_def)
  obtain m dg c2 where m: "tor1_relay_digest_matches_v0 P (b_digest t) c = (m, dg, c2)" by (metis prod_cases3)
  have "m = None \<Longrightarrow> dg = b_digest t \<and> c2 = c" using digest_no_match [OF _ assms(3)] m by blast
  then show ?thesis
    using RCK_TOR1 t o tw assms(3) eq m
    by (cases m; cases "relay_cell_is_recognized_v0 c") (auto simp: tor1_crypt_relay_backward_def tor1_crypt_client_backward_def
      good_cell_def in_step_def forward_sync_def backward_sync_def Let_def)
next
  case (RCK_CGO p)
  then obtain q where q: "b = RCK_CGO q" using assms(2) by (cases b) (auto simp: in_step_def forward_sync_def)
  then have "cgo_sync (cgo_back p) (cgo_back q)" "cgo_sync (cgo_fwd p) (cgo_fwd q)"
    using assms(2) RCK_CGO by (simp_all add: in_step_def forward_sync_def backward_sync_def)
  with cgo_backward [OF assms(1) this(1) assms(3)] show ?thesis using RCK_CGO q
    by (auto simp: in_step_def forward_sync_def backward_sync_def split: option.splits)
qed

lemma layer_in_originate:
  assumes "prims_ok P" "in_step a b" "sendable b c"
  shows "\<exists>b' c' a' c''. relay_encrypt_cell_inbound P b c = Some (b', c') \<and> good_cell c'
    \<and> relay_crypt_client_backward P a c' = Some (True, a', c'') \<and> in_step a' b'
    \<and> delivered_part a' c'' = delivered_part b c \<and> relay_crypto_get_sendme_tag a' = relay_crypto_get_sendme_tag b'"
proof (cases a)
  case (RCK_TOR1 s)
  then obtain t where t: "b = RCK_TOR1 t" using assms(2) by (cases b) (auto simp: in_step_def forward_sync_def)
  have eq: "f_crypto t = f_crypto s" "f_digest t = f_digest s" "b_crypto s = b_crypto t" "b_digest s = b_digest t"
    using assms(2) RCK_TOR1 t by (simp_all add: in_step_def forward_sync_def backward_sync_def)
  obtain dg c1 buf where d: "tor1_set_digest_v0 P (b_digest t) c = (dg, c1, buf)" by (metis prod_cases3)
  have c: "good_cell c" "take 2 (drop 1 (payload c)) = [0, 0]" "take 4 (drop 5 (payload c)) = replicate 4 0"
    using assms(3) t by simp_all
  note dm = digest_set_matches [OF assms(1) d c]
  obtain k c' where o: "tor1_crypt_one_payload P (b_crypto t) c1 = (k, c')" by fastforce
  note tw = one_payload_twice [OF o]
  show ?thesis
    using RCK_TOR1 t d o tw eq dm
    by (simp add: tor1_crypt_relay_originate_def tor1_crypt_client_backward_def good_cell_def in_step_def
      forward_sync_def backward_sync_def)
next
  case (RCK_CGO p)
  then obtain q where q: "b = RCK_CGO q" using assms(2) by (cases b) (auto simp: in_step_def forward_sync_def)
  then have s: "cgo_sync (cgo_back p) (cgo_back q)" "cgo_sync (cgo_fwd p) (cgo_fwd q)"
    using assms(2) RCK_CGO by (simp_all add: in_step_def forward_sync_def backward_sync_def)
  have "good_cell c" using assms(3) q by simp
  from cgo_backward_originate [OF assms(1) s(1) this] show ?thesis using RCK_CGO q s(2)
    by (auto simp: in_step_def forward_sync_def backward_sync_def)
qed

section \<open>The whole circuit\<close>

text \<open>A cell on its way out passes the relays in order until one recognises it, on its way back those
  before its origin in reverse order.\<close>

fun relays_forward :: "crypto_prims \<Rightarrow> relay_crypto list \<Rightarrow> cell \<Rightarrow> (nat option \<times> relay_crypto list \<times> cell) option" where
  "relays_forward P [] c = Some (None, [], c)"
| "relays_forward P (r # rs) c = do {
     (rec, r, c) \<leftarrow> relay_decrypt_cell_outbound P r c;
     if rec then Some (Some 0, r # rs, c)
     else do { (i, rs, c) \<leftarrow> relays_forward P rs c; Some (map_option Suc i, r # rs, c) }
   }"

fun relays_backward :: "crypto_prims \<Rightarrow> nat \<Rightarrow> relay_crypto list \<Rightarrow> cell \<Rightarrow> (relay_crypto list \<times> cell) option" where
  "relays_backward P 0 rs c = Some (rs, c)"
| "relays_backward P (Suc k) rs c = do {
     (r, c) \<leftarrow> relay_decrypt_cell_inbound P (rs ! k) c;
     relays_backward P k (rs[k := r]) c
   }"

definition network_out :: "crypto_prims \<Rightarrow> crypt_path list \<Rightarrow> relay_crypto list \<Rightarrow> nat \<Rightarrow> cell
    \<Rightarrow> (nat option \<times> crypt_path list \<times> relay_crypto list \<times> cell) option" where
  "network_out P cpath rs k c = do {
     (cpath, c) \<leftarrow> relay_encrypt_cell_outbound P cpath k c;
     (i, rs, c) \<leftarrow> relays_forward P rs c;
     Some (i, cpath, rs, c)
   }"

definition network_in :: "crypto_prims \<Rightarrow> crypt_path list \<Rightarrow> relay_crypto list \<Rightarrow> nat \<Rightarrow> cell
    \<Rightarrow> (nat option \<times> crypt_path list \<times> relay_crypto list \<times> cell) option" where
  "network_in P cpath rs k c = do {
     (r, c) \<leftarrow> relay_encrypt_cell_inbound P (rs ! k) c;
     (rs, c) \<leftarrow> relays_backward P k (rs[k := r]) c;
     (_, i, cpath, c) \<leftarrow> relay_decrypt_cell_origin P cpath c;
     Some (i, cpath, rs, c)
   }"

definition hop_in_step :: "crypt_path \<Rightarrow> relay_crypto \<Rightarrow> bool" where
  "hop_in_step h r \<longleftrightarrow> cpath_open h \<and> in_step (pvt_crypto h) r"

abbreviation circuit_in_step :: "crypt_path list \<Rightarrow> relay_crypto list \<Rightarrow> bool" where
  "circuit_in_step \<equiv> list_all2 hop_in_step"

lemma relays_forward_append:
  "relays_forward P rs c = Some (None, rs1, c1) \<Longrightarrow> relays_forward P rs' c1 = Some (j, rs2, c2)
    \<Longrightarrow> relays_forward P (rs @ rs') c = Some (map_option (\<lambda>j. length rs + j) j, rs1 @ rs2, c2)"
  "relays_forward P rs c = Some (Some i, rs1, c1) \<Longrightarrow> relays_forward P (rs @ rs') c = Some (Some i, rs1 @ rs', c1)"
proof (induction rs arbitrary: c i rs1)
  case Nil
  { case 1 then show ?case by (cases j) auto }
  { case 2 then show ?case by simp }
next
  case (Cons r rs)
  { case 1
    then obtain r' c' t where "relay_decrypt_cell_outbound P r c = Some (False, r', c')"
      "relays_forward P rs c' = Some (None, t, c1)" "rs1 = r' # t"
      by (auto simp: bind_eq_Some_conv split: if_splits)
    moreover from Cons.IH(1) [OF this(2) 1(2)] this show ?case by (cases j) simp_all }
  { case 2
    then obtain rec r' c' where r: "relay_decrypt_cell_outbound P r c = Some (rec, r', c')" by (auto simp: bind_eq_Some_conv)
    show ?case
    proof (cases rec)
      case True
      then show ?thesis using 2 r by auto
    next
      case False
      then obtain t k where t: "relays_forward P rs c' = Some (Some k, t, c1)" "rs1 = r' # t" "i = Suc k"
        using 2 r by (auto simp: bind_eq_Some_conv)
      from Cons.IH(2) [OF t(1)] show ?thesis using r t(2,3) False by simp
    qed }
qed

lemma relays_forward_index: "relays_forward P rs c = Some (Some i, rs', c') \<Longrightarrow> i < length rs"
  by (induction rs arbitrary: c i rs' c') (auto simp: bind_eq_Some_conv split: if_splits)

lemma decrypt_at_origin_append:
  "list_all cpath_open hs \<Longrightarrow> decrypt_at_origin P hs c = Some (None, hs1, c1) \<Longrightarrow> decrypt_at_origin P hs' c1 = Some (j, hs2, c2)
    \<Longrightarrow> decrypt_at_origin P (hs @ hs') c = Some (map_option (\<lambda>j. length hs + j) j, hs1 @ hs2, c2)"
  "list_all cpath_open hs \<Longrightarrow> decrypt_at_origin P hs c = Some (Some i, hs1, c1)
    \<Longrightarrow> decrypt_at_origin P (hs @ hs') c = Some (Some i, hs1 @ hs', c1)"
proof (induction hs arbitrary: c i hs1)
  case Nil
  { case 1 then show ?case by (cases j) auto }
  { case 2 then show ?case by simp }
next
  case (Cons r hs)
  { case 1
    then obtain r' c' t where h: "cpath_open r" "relay_crypt_client_backward P (pvt_crypto r) c = Some (False, r', c')"
      "decrypt_at_origin P hs c' = Some (None, t, c1)" "hs1 = r\<lparr>pvt_crypto := r'\<rparr> # t"
      by (auto simp: bind_eq_Some_conv Let_def split: if_splits)
    have "list_all cpath_open hs" using 1(1) by simp
    from Cons.IH(1) [OF this h(3) 1(3)] h show ?case by (cases j) simp_all }
  { case 2
    then obtain rec r' c' where r: "cpath_open r" "relay_crypt_client_backward P (pvt_crypto r) c = Some (rec, r', c')"
      by (auto simp: bind_eq_Some_conv Let_def)
    have o: "list_all cpath_open hs" using 2(1) by simp
    show ?case
    proof (cases rec)
      case True
      then show ?thesis using 2 r by auto
    next
      case False
      then obtain t k where t: "decrypt_at_origin P hs c' = Some (Some k, t, c1)" "hs1 = r\<lparr>pvt_crypto := r'\<rparr> # t" "i = Suc k"
        using 2 r by (auto simp: bind_eq_Some_conv)
      from Cons.IH(2) [OF o t(1)] show ?thesis using r t(2,3) False by simp
    qed }
qed

lemma decrypt_at_origin_index: "decrypt_at_origin P hs c = Some (Some i, hs', c') \<Longrightarrow> i < length hs"
  by (induction hs arbitrary: c i hs' c') (auto simp: bind_eq_Some_conv Let_def split: if_splits)

lemma encrypt_hops_undone:
  assumes "prims_ok P" "k \<le> length cpath" "k \<le> length rs" "good_cell c" "\<And>i. i < k \<Longrightarrow> hop_in_step (cpath ! i) (rs ! i)"
  shows "\<exists>cpath' c' i rs' c''. encrypt_hops_before P k cpath c = Some (cpath', c') \<and> length cpath' = length cpath
    \<and> drop k cpath' = drop k cpath \<and> relays_forward P (take k rs) c' = Some (i, rs', c'')
    \<and> (i = None \<longrightarrow> c'' = c \<and> list_all2 hop_in_step (take k cpath') rs')"
  using assms(2-5)
proof (induction k arbitrary: cpath c)
  case 0
  then show ?case by simp
next
  case (Suc k)
  let ?h = "cpath ! k" and ?r = "rs ! k"
  have st: "cpath_open ?h" "in_step (pvt_crypto ?h) ?r" using Suc.prems(4) [of k] by (simp_all add: hop_in_step_def)
  obtain a' c1 rec b' c2 where l: "relay_crypt_client_forward P (pvt_crypto ?h) c = Some (a', c1)" "good_cell c1"
    "relay_crypt_relay_forward P ?r c1 = Some (rec, b', c2)" "\<not> rec \<longrightarrow> c2 = c \<and> in_step a' b'"
    using layer_out [OF assms(1) st(2) Suc.prems(3)] by blast
  let ?cp = "cpath[k := ?h\<lparr>pvt_crypto := a'\<rparr>]"
  obtain cpath' c' i rs' c'' where ih: "encrypt_hops_before P k ?cp c1 = Some (cpath', c')" "length cpath' = length cpath"
    "drop k cpath' = drop k ?cp" "relays_forward P (take k rs) c' = Some (i, rs', c'')"
    "i = None \<longrightarrow> c'' = c1 \<and> list_all2 hop_in_step (take k cpath') rs'"
    using Suc.IH [of ?cp c1] Suc.prems l(2) by auto
  have r1: "relays_forward P [?r] c1 = Some (if rec then Some 0 else None, [b'], c2)"
    using l(3) by (simp add: relay_decrypt_cell_outbound_def)
  have tk: "take (Suc k) rs = take k rs @ [?r]" using Suc.prems by (simp add: take_Suc_conv_app_nth)
  have k: "k < length cpath'" using ih(2) Suc.prems by simp
  have "cpath' ! k = drop k ?cp ! 0" unfolding ih(3) [symmetric] using k by simp
  then have nth: "cpath' ! k = ?h\<lparr>pvt_crypto := a'\<rparr>" using Suc.prems by simp
  have "drop (Suc k) cpath' = drop 1 (drop k cpath')" by simp
  also have "\<dots> = drop (Suc k) cpath" unfolding ih(3) by simp
  finally have dr: "drop (Suc k) cpath' = drop (Suc k) cpath" .
  have e: "encrypt_hops_before P (Suc k) cpath c = Some (cpath', c')" using l(1) ih(1) by simp
  show ?case
  proof (cases i)
    case (Some j)
    then show ?thesis using e ih(2) dr tk relays_forward_append(2) [of P "take k rs" c' j rs' c'' "[?r]"] ih(4) by auto
  next
    case None
    then have n: "c'' = c1" "list_all2 hop_in_step (take k cpath') rs'" using ih(5) by simp_all
    have f: "relays_forward P (take (Suc k) rs) c' = Some (map_option (\<lambda>j. length (take k rs) + j) (if rec then Some 0 else None), rs' @ [b'], c2)"
      unfolding tk using relays_forward_append(1) [OF ih(4) [unfolded None n(1)] r1] .
    have "\<not> rec \<longrightarrow> list_all2 hop_in_step (take (Suc k) cpath') (rs' @ [b'])"
      using l(4) n(2) nth st(1) k by (auto simp: take_Suc_conv_app_nth hop_in_step_def intro!: list_all2_appendI)
    then show ?thesis using e f ih(2) dr l(4) by (cases rec) auto
  qed
qed

lemma relays_backward_undone:
  assumes "prims_ok P" "k \<le> length cpath" "k \<le> length rs" "good_cell c" "\<And>i. i < k \<Longrightarrow> hop_in_step (cpath ! i) (rs ! i)"
  shows "\<exists>rs' c' i hs c''. relays_backward P k rs c = Some (rs', c') \<and> length rs' = length rs
    \<and> drop k rs' = drop k rs \<and> decrypt_at_origin P (take k cpath) c' = Some (i, hs, c'')
    \<and> (i = None \<longrightarrow> c'' = c \<and> list_all2 hop_in_step hs (take k rs'))"
  using assms(2-5)
proof (induction k arbitrary: rs c)
  case 0
  then show ?case by simp
next
  case (Suc k)
  let ?h = "cpath ! k" and ?r = "rs ! k"
  have st: "cpath_open ?h" "in_step (pvt_crypto ?h) ?r" using Suc.prems(4) [of k] by (simp_all add: hop_in_step_def)
  obtain b' c1 rec a' c2 where l: "relay_crypt_relay_backward P ?r c = Some (b', c1)" "good_cell c1"
    "relay_crypt_client_backward P (pvt_crypto ?h) c1 = Some (rec, a', c2)" "\<not> rec \<longrightarrow> c2 = c \<and> in_step a' b'"
    using layer_in [OF assms(1) st(2) Suc.prems(3)] by blast
  let ?rs = "rs[k := b']" and ?h' = "?h\<lparr>pvt_crypto := a'\<rparr>"
  obtain rs' c' i hs c'' where ih: "relays_backward P k ?rs c1 = Some (rs', c')" "length rs' = length rs"
    "drop k rs' = drop k ?rs" "decrypt_at_origin P (take k cpath) c' = Some (i, hs, c'')"
    "i = None \<longrightarrow> c'' = c1 \<and> list_all2 hop_in_step hs (take k rs')"
    using Suc.IH [of ?rs c1] Suc.prems l(2) by auto
  have r1: "decrypt_at_origin P [?h] c1 = Some (if rec then Some 0 else None, [?h'], c2)"
    using l(3) st(1) by simp
  have op: "list_all cpath_open (take k cpath)"
    using Suc.prems by (auto simp: list_all_length hop_in_step_def)
  have tk: "take (Suc k) cpath = take k cpath @ [?h]" using Suc.prems by (simp add: take_Suc_conv_app_nth)
  have k: "k < length rs'" using ih(2) Suc.prems by simp
  have "rs' ! k = drop k ?rs ! 0" unfolding ih(3) [symmetric] using k by simp
  then have nth: "rs' ! k = b'" using Suc.prems by simp
  have "drop (Suc k) rs' = drop 1 (drop k rs')" by simp
  also have "\<dots> = drop (Suc k) rs" unfolding ih(3) by simp
  finally have dr: "drop (Suc k) rs' = drop (Suc k) rs" .
  have e: "relays_backward P (Suc k) rs c = Some (rs', c')"
    using l(1) ih(1) by (simp add: relay_decrypt_cell_inbound_def)
  show ?case
  proof (cases i)
    case (Some j)
    then show ?thesis using e ih(2) dr tk decrypt_at_origin_append(2) [OF op, of P c' j hs c'' "[?h]"] ih(4) by auto
  next
    case None
    then have n: "c'' = c1" "list_all2 hop_in_step hs (take k rs')" using ih(5) by simp_all
    have f: "decrypt_at_origin P (take (Suc k) cpath) c' = Some (map_option (\<lambda>j. length (take k cpath) + j) (if rec then Some 0 else None), hs @ [?h'], c2)"
      unfolding tk using decrypt_at_origin_append(1) [OF op ih(4) [unfolded None n(1)] r1] .
    have "\<not> rec \<longrightarrow> list_all2 hop_in_step (hs @ [?h']) (take (Suc k) rs')"
      using l(4) n(2) nth st(1) k by (auto simp: take_Suc_conv_app_nth hop_in_step_def intro!: list_all2_appendI)
    then show ?thesis using e f ih(2) dr l(4) by (cases rec) auto
  qed
qed

text \<open>A list as what comes before an index, the element there and what comes after.\<close>

lemma split_at: "k < length xs \<Longrightarrow> xs = take k xs @ xs ! k # drop (Suc k) xs"
  by (simp add: id_take_nth_drop)

lemma drop_nth: "drop k xs = drop k ys \<Longrightarrow> k < length xs \<Longrightarrow> k < length ys \<Longrightarrow> xs ! k = ys ! k \<and> drop (Suc k) xs = drop (Suc k) ys"
  by (simp add: Cons_nth_drop_Suc [symmetric])

text \<open>A cell the client sends to hop \<open>k\<close>: some hop no further than that recognises it; if it is the hop
  the cell is meant for, the cell arrives and everything is in step again.\<close>

lemma network_out_delivers:
  assumes "prims_ok P" "circuit_in_step cpath rs" "k < length cpath" "sendable (pvt_crypto (cpath ! k)) c"
  shows "\<exists>i cpath' rs' c'. network_out P cpath rs k c = Some (Some i, cpath', rs', c') \<and> i \<le> k
    \<and> (i = k \<longrightarrow> circuit_in_step cpath' rs' \<and> delivered_part (rs' ! k) c' = delivered_part (pvt_crypto (cpath ! k)) c
        \<and> relay_crypto_get_sendme_tag (pvt_crypto (cpath' ! k)) = relay_crypto_get_sendme_tag (rs' ! k))"
proof -
  have len: "length cpath = length rs" using assms(2) by (rule list_all2_lengthD)
  have hs: "\<And>i. i < length cpath \<Longrightarrow> hop_in_step (cpath ! i) (rs ! i)"
    using assms(2) by (simp add: list_all2_conv_all_nth)
  let ?h = "cpath ! k" and ?r = "rs ! k"
  have st: "cpath_open ?h" "in_step (pvt_crypto ?h) ?r" using hs [OF assms(3)] by (simp_all add: hop_in_step_def)
  obtain a' c1 b' c2 where o: "relay_crypt_client_originate P (pvt_crypto ?h) c = Some (a', c1)" "good_cell c1"
    "relay_crypt_relay_forward P ?r c1 = Some (True, b', c2)" "in_step a' b'"
    "delivered_part b' c2 = delivered_part (pvt_crypto ?h) c" "relay_crypto_get_sendme_tag a' = relay_crypto_get_sendme_tag b'"
    using layer_out_originate [OF assms(1) st(2) assms(4)] by blast
  let ?cp = "cpath[k := ?h\<lparr>pvt_crypto := a'\<rparr>]" and ?rest = "?r # drop (Suc k) rs"
  obtain cpath' c' i rs' c'' where e: "encrypt_hops_before P k ?cp c1 = Some (cpath', c')" "length cpath' = length cpath"
    "drop k cpath' = drop k ?cp" "relays_forward P (take k rs) c' = Some (i, rs', c'')"
    "i = None \<longrightarrow> c'' = c1 \<and> list_all2 hop_in_step (take k cpath') rs'"
    using encrypt_hops_undone [OF assms(1), of k ?cp rs c1] assms(3) len o(2) hs by fastforce
  have out: "relay_encrypt_cell_outbound P cpath k c = Some (cpath', c')"
    using assms(3) o(1) e(1) by (simp add: relay_encrypt_cell_outbound_def)
  have sp: "rs = take k rs @ ?rest" using split_at assms(3) len by metis
  show ?thesis
  proof (cases i)
    case (Some j)
    then have "j < k" using relays_forward_index e(4) assms(3) len by fastforce
    moreover have "relays_forward P rs c' = Some (Some j, rs' @ ?rest, c'')"
      using relays_forward_append(2) [of P "take k rs"] e(4) Some sp by metis
    ultimately show ?thesis using out by (auto simp: network_out_def)
  next
    case None
    then have n: "c'' = c1" "list_all2 hop_in_step (take k cpath') rs'" using e(5) by simp_all
    have "relays_forward P ?rest c1 = Some (Some 0, b' # drop (Suc k) rs, c2)"
      using o(3) by (simp add: relay_decrypt_cell_outbound_def)
    from relays_forward_append(1) [OF e(4) [unfolded None n(1)] this]
    have f: "relays_forward P rs c' = Some (Some k, rs' @ b' # drop (Suc k) rs, c2)"
      using sp assms(3) len by simp
    have l: "length rs' = k" using list_all2_lengthD [OF n(2)] e(2) assms(3) by simp
    have cp: "cpath' ! k = ?h\<lparr>pvt_crypto := a'\<rparr>" "drop (Suc k) cpath' = drop (Suc k) cpath"
      using drop_nth [OF e(3)] e(2) assms(3) by simp_all
    have "list_all2 hop_in_step (drop (Suc k) cpath) (drop (Suc k) rs)"
      using assms(2) by (simp add: list_all2_dropI)
    then have "list_all2 hop_in_step (take k cpath' @ cpath' ! k # drop (Suc k) cpath') (rs' @ b' # drop (Suc k) rs)"
      using n(2) cp o(4) st(1) by (auto simp: hop_in_step_def intro!: list_all2_appendI)
    then have "circuit_in_step cpath' (rs' @ b' # drop (Suc k) rs)"
      using split_at [of k cpath'] e(2) assms(3) by simp
    then show ?thesis using out f l cp(1) o(5,6) by (auto simp: network_out_def nth_append)
  qed
qed

lemma network_in_delivers:
  assumes "prims_ok P" "circuit_in_step cpath rs" "k < length cpath" "sendable (rs ! k) c"
  shows "\<exists>i cpath' rs' c'. network_in P cpath rs k c = Some (Some i, cpath', rs', c') \<and> i \<le> k
    \<and> (i = k \<longrightarrow> circuit_in_step cpath' rs' \<and> delivered_part (pvt_crypto (cpath' ! k)) c' = delivered_part (rs ! k) c
        \<and> relay_crypto_get_sendme_tag (pvt_crypto (cpath' ! k)) = relay_crypto_get_sendme_tag (rs' ! k))"
proof -
  have len: "length cpath = length rs" using assms(2) by (rule list_all2_lengthD)
  have hs: "\<And>i. i < length cpath \<Longrightarrow> hop_in_step (cpath ! i) (rs ! i)"
    using assms(2) by (simp add: list_all2_conv_all_nth)
  let ?h = "cpath ! k" and ?r = "rs ! k"
  have st: "cpath_open ?h" "in_step (pvt_crypto ?h) ?r" using hs [OF assms(3)] by (simp_all add: hop_in_step_def)
  obtain b' c1 a' c2 where o: "relay_encrypt_cell_inbound P ?r c = Some (b', c1)" "good_cell c1"
    "relay_crypt_client_backward P (pvt_crypto ?h) c1 = Some (True, a', c2)" "in_step a' b'"
    "delivered_part a' c2 = delivered_part ?r c" "relay_crypto_get_sendme_tag a' = relay_crypto_get_sendme_tag b'"
    using layer_in_originate [OF assms(1) st(2) assms(4)] by blast
  let ?rs = "rs[k := b']" and ?rest = "?h # drop (Suc k) cpath" and ?h' = "?h\<lparr>pvt_crypto := a'\<rparr>"
  obtain rs' c' i hs' c'' where e: "relays_backward P k ?rs c1 = Some (rs', c')" "length rs' = length rs"
    "drop k rs' = drop k ?rs" "decrypt_at_origin P (take k cpath) c' = Some (i, hs', c'')"
    "i = None \<longrightarrow> c'' = c1 \<and> list_all2 hop_in_step hs' (take k rs')"
    using relays_backward_undone [OF assms(1), of k cpath ?rs c1] assms(3) len o(2) hs by fastforce
  have op: "list_all cpath_open (take k cpath)" using hs by (auto simp: list_all_length hop_in_step_def)
  have sp: "cpath = take k cpath @ ?rest" using split_at [OF assms(3)] .
  show ?thesis
  proof (cases i)
    case (Some j)
    then have "j < k" using decrypt_at_origin_index e(4) assms(3) by fastforce
    moreover have "decrypt_at_origin P cpath c' = Some (Some j, hs' @ ?rest, c'')"
      using decrypt_at_origin_append(2) [OF op] e(4) Some sp by metis
    ultimately show ?thesis using o(1) e(1) by (auto simp: network_in_def relay_decrypt_cell_origin_def)
  next
    case None
    then have n: "c'' = c1" "list_all2 hop_in_step hs' (take k rs')" using e(5) by simp_all
    have "decrypt_at_origin P ?rest c1 = Some (Some 0, ?h' # drop (Suc k) cpath, c2)"
      using o(3) st(1) by simp
    from decrypt_at_origin_append(1) [OF op e(4) [unfolded None n(1)] this]
    have f: "decrypt_at_origin P cpath c' = Some (Some k, hs' @ ?h' # drop (Suc k) cpath, c2)"
      using sp assms(3) by simp
    have l: "length hs' = k" using list_all2_lengthD [OF n(2)] e(2) assms(3) len by simp
    have cp: "rs' ! k = b'" "drop (Suc k) rs' = drop (Suc k) rs"
      using drop_nth [OF e(3)] e(2) assms(3) len by simp_all
    have "list_all2 hop_in_step (drop (Suc k) cpath) (drop (Suc k) rs)"
      using assms(2) by (simp add: list_all2_dropI)
    then have "list_all2 hop_in_step (hs' @ ?h' # drop (Suc k) cpath) (take k rs' @ rs' ! k # drop (Suc k) rs')"
      using n(2) cp o(4) st(1) by (auto simp: hop_in_step_def intro!: list_all2_appendI)
    then have "circuit_in_step (hs' @ ?h' # drop (Suc k) cpath) rs'"
      using split_at [of k rs'] e(2) assms(3) len by simp
    then show ?thesis using o(1) e(1) f l cp(1) o(5,6)
      by (auto simp: network_in_def relay_decrypt_cell_origin_def nth_append)
  qed
qed

section \<open>From the handshake on\<close>

text \<open>The two ends of a hop make their layers from the same key material. The relay's end of an onion
  service circuit has the directions reversed.\<close>

fun matching_algs :: "relay_crypto_alg \<Rightarrow> relay_crypto_alg \<Rightarrow> bool" where
  "matching_algs RELAY_CRYPTO_ALG_TOR1 b \<longleftrightarrow> b = RELAY_CRYPTO_ALG_TOR1"
| "matching_algs RELAY_CRYPTO_ALG_CGO_CLIENT b \<longleftrightarrow> b = RELAY_CRYPTO_ALG_CGO_RELAY"
| "matching_algs _ b \<longleftrightarrow> False"

lemma cgo_new_sync:
  assumes "length k = 80" "\<not> encrypt_mode ma" "encrypt_mode mb"
  shows "\<exists>a b. cgo_crypt_new ma CGO_AES_BITS k = Some a \<and> cgo_crypt_new mb CGO_AES_BITS k = Some b \<and> cgo_sync a b"
  using assms by (simp add: cgo_crypt_new_def cgo_key_material_len_def cgo_uiv_keylen_def cgo_et_keylen_def cgo_prf_keylen_def
    CGO_AES_BITS_def POLYVAL_KEY_LEN_def SENDME_TAG_LEN_CGO_def cgo_uiv_init_def cgo_et_init_def cgo_prf_init_def
    aes_new_cipher_def cgo_sync_def uiv_sync_def aligned_def Let_def)

lemma init_in_step:
  assumes "matching_algs ka kr" "relay_crypto_key_material_len ka = Some (length key)"
  shows "\<exists>a b. relay_crypto_init ka key = Some a \<and> relay_crypto_init kr key = Some b \<and> in_step a b"
proof (cases ka)
  case RELAY_CRYPTO_ALG_TOR1
  then show ?thesis using assms
    by (simp add: tor1_key_material_len_def tor1_crypt_init_def in_step_def forward_sync_def backward_sync_def Let_def)
next
  case RELAY_CRYPTO_ALG_CGO_CLIENT
  have m: "cgo_key_material_len CGO_AES_BITS = Some 80"
    by (simp add: cgo_key_material_len_def CGO_AES_BITS_def cgo_uiv_keylen_def cgo_et_keylen_def cgo_prf_keylen_def
      POLYVAL_KEY_LEN_def SENDME_TAG_LEN_CGO_def Let_def)
  then have "length key = 160" using assms RELAY_CRYPTO_ALG_CGO_CLIENT by simp
  with cgo_new_sync [of "take 80 key" CGO_MODE_CLIENT_FORWARD CGO_MODE_RELAY_FORWARD]
    cgo_new_sync [of "take 80 (drop 80 key)" CGO_MODE_CLIENT_BACKWARD CGO_MODE_RELAY_BACKWARD]
  show ?thesis using assms RELAY_CRYPTO_ALG_CGO_CLIENT m
    by (auto simp: cgo_pair_init_def encrypt_mode_def in_step_def forward_sync_def backward_sync_def Let_def)
qed (use assms in simp_all)

section \<open>Runs\<close>

datatype traffic = Out nat cell | In nat cell

text \<open>The circuit as built: hop by hop, the client's layer and the relay's come from the same key.\<close>

fun make_circuit :: "(relay_crypto_alg \<times> relay_crypto_alg \<times> bytes) list \<Rightarrow> (crypt_path list \<times> relay_crypto list) option" where
  "make_circuit [] = Some ([], [])"
| "make_circuit ((ka, kr, key) # hops) = do {
     a \<leftarrow> relay_crypto_init ka key;
     b \<leftarrow> relay_crypto_init kr key;
     (cpath, rs) \<leftarrow> make_circuit hops;
     Some (\<lparr>cpath_open = True, pvt_crypto = a\<rparr> # cpath, b # rs)
   }"

text \<open>A run stops when a hop before the one meant takes a cell for its own. Otherwise every cell is
  recorded with the part delivered and the tags the two ends hold after it. \<^const>\<open>None\<close> is a run
  that failed: no hop recognised a cell, or only one past the hop meant, or an assertion failed.\<close>

fun circuit_run :: "crypto_prims \<Rightarrow> crypt_path list \<Rightarrow> relay_crypto list \<Rightarrow> traffic list
    \<Rightarrow> ((byte \<times> bytes) \<times> bytes \<times> bytes) list option" where
  "circuit_run P cpath rs [] = Some []"
| "circuit_run P cpath rs (Out k c # ts) = do {
     (i, cpath, rs, c) \<leftarrow> network_out P cpath rs k c;
     j \<leftarrow> i;
     if j < k then Some []
     else if k < j then None
     else do {
       out \<leftarrow> circuit_run P cpath rs ts;
       Some ((delivered_part (rs ! k) c, relay_crypto_get_sendme_tag (pvt_crypto (cpath ! k)), relay_crypto_get_sendme_tag (rs ! k)) # out)
     }
   }"
| "circuit_run P cpath rs (In k c # ts) = do {
     (i, cpath, rs, c) \<leftarrow> network_in P cpath rs k c;
     j \<leftarrow> i;
     if j < k then Some []
     else if k < j then None
     else do {
       out \<leftarrow> circuit_run P cpath rs ts;
       Some ((delivered_part (pvt_crypto (cpath ! k)) c, relay_crypto_get_sendme_tag (pvt_crypto (cpath ! k)), relay_crypto_get_sendme_tag (rs ! k)) # out)
     }
   }"

fun traffic_hop :: "traffic \<Rightarrow> nat" where
  "traffic_hop (Out k c) = k"
| "traffic_hop (In k c) = k"

fun traffic_cell :: "traffic \<Rightarrow> cell" where
  "traffic_cell (Out k c) = c"
| "traffic_cell (In k c) = c"

text \<open>What is sent must fit the layer of the hop, and what of it arrives; both depend only on the kind of
  layer, which never changes.\<close>

definition sendable_by :: "relay_crypto_alg \<Rightarrow> cell \<Rightarrow> bool" where
  "sendable_by k c \<longleftrightarrow> good_cell c \<and> (k = RELAY_CRYPTO_ALG_TOR1 \<longrightarrow>
     take 2 (drop 1 (payload c)) = [0, 0] \<and> take 4 (drop 5 (payload c)) = replicate 4 0)"

definition delivered_by :: "relay_crypto_alg \<Rightarrow> cell \<Rightarrow> byte \<times> bytes" where
  "delivered_by k c = (cell_command c, if k = RELAY_CRYPTO_ALG_TOR1 then payload c else drop 16 (payload c))"

fun kind_of :: "relay_crypto \<Rightarrow> bool" where
  "kind_of (RCK_TOR1 _) = True"
| "kind_of (RCK_CGO _) = False"

lemma sendable_kind: "kind_of a = (k = RELAY_CRYPTO_ALG_TOR1) \<Longrightarrow> sendable a c = sendable_by k c"
  by (cases a) (auto simp: sendable_by_def)

lemma delivered_kind: "kind_of a = (k = RELAY_CRYPTO_ALG_TOR1) \<Longrightarrow> delivered_part a c = delivered_by k c"
  by (cases a) (auto simp: delivered_by_def)

lemma in_step_kind: "in_step a b \<Longrightarrow> kind_of b = kind_of a"
  by (cases a; cases b) (auto simp: in_step_def forward_sync_def)

definition kinds :: "(relay_crypto_alg \<times> relay_crypto_alg \<times> bytes) list \<Rightarrow> relay_crypto list \<Rightarrow> bool" where
  "kinds hops rs \<longleftrightarrow> map kind_of rs = map (\<lambda>(ka, kr, key). ka = RELAY_CRYPTO_ALG_TOR1) hops"

lemma init_kind: "matching_algs ka kr \<Longrightarrow> relay_crypto_init kr key = Some b \<Longrightarrow> kind_of b = (ka = RELAY_CRYPTO_ALG_TOR1)"
  by (cases ka; cases kr) auto

lemma make_circuit_in_step:
  assumes "\<forall>(ka, kr, key) \<in> set hops. matching_algs ka kr \<and> relay_crypto_key_material_len ka = Some (length key)"
  shows "\<exists>cpath rs. make_circuit hops = Some (cpath, rs) \<and> circuit_in_step cpath rs \<and> kinds hops rs"
  using assms
proof (induction hops)
  case Nil
  then show ?case by (simp add: kinds_def)
next
  case (Cons h hops)
  obtain ka kr key where h: "h = (ka, kr, key)" by (cases h)
  obtain a b where ab: "relay_crypto_init ka key = Some a" "relay_crypto_init kr key = Some b" "in_step a b"
    using init_in_step [of ka kr key] Cons.prems h by auto
  obtain cpath rs where m: "make_circuit hops = Some (cpath, rs)" "circuit_in_step cpath rs" "kinds hops rs"
    using Cons by auto
  have "kind_of b = (ka = RELAY_CRYPTO_ALG_TOR1)" using init_kind [OF _ ab(2)] Cons.prems h by auto
  moreover have "hop_in_step \<lparr>cpath_open = True, pvt_crypto = a\<rparr> b" using ab(3) by (simp add: hop_in_step_def)
  ultimately show ?case using h ab(1,2) m by (simp add: kinds_def)
qed

lemma layer_keeps_kind:
  "relay_crypt_relay_forward P r c = Some (rec, r', c') \<Longrightarrow> kind_of r' = kind_of r"
  "relay_crypt_relay_backward P r c = Some (r', c') \<Longrightarrow> kind_of r' = kind_of r"
  "relay_encrypt_cell_inbound P r c = Some (r', c') \<Longrightarrow> kind_of r' = kind_of r"
  by (cases r; auto simp: bind_eq_Some_conv Let_def split: prod.splits option.splits)+

lemma relays_forward_kinds: "relays_forward P rs c = Some (i, rs', c') \<Longrightarrow> map kind_of rs' = map kind_of rs"
proof (induction rs arbitrary: c i rs' c')
  case Nil
  then show ?case by simp
next
  case (Cons r rs)
  then obtain rec r' c1 where r: "relay_crypt_relay_forward P r c = Some (rec, r', c1)"
    by (auto simp: bind_eq_Some_conv relay_decrypt_cell_outbound_def)
  note k = layer_keeps_kind(1) [OF r]
  show ?case
  proof (cases rec)
    case True
    then show ?thesis using Cons.prems r k by (auto simp: relay_decrypt_cell_outbound_def)
  next
    case False
    then obtain j t where "relays_forward P rs c1 = Some (j, t, c')" "rs' = r' # t"
      using Cons.prems r by (auto simp: bind_eq_Some_conv relay_decrypt_cell_outbound_def)
    then show ?thesis using Cons.IH k by simp
  qed
qed

lemma update_keeps_kinds: "kind_of r = kind_of (rs ! k) \<Longrightarrow> map kind_of (rs[k := r]) = map kind_of rs"
  by (cases "k < length rs") (auto simp: map_update list_update_same_conv list_update_beyond)

lemma relays_backward_kinds: "relays_backward P k rs c = Some (rs', c') \<Longrightarrow> map kind_of rs' = map kind_of rs"
proof (induction k arbitrary: rs c)
  case 0
  then show ?case by simp
next
  case (Suc k)
  then obtain r c1 where r: "relay_crypt_relay_backward P (rs ! k) c = Some (r, c1)" "relays_backward P k (rs[k := r]) c1 = Some (rs', c')"
    by (auto simp: bind_eq_Some_conv relay_decrypt_cell_inbound_def)
  show ?case using Suc.IH [OF r(2)] update_keeps_kinds [OF layer_keeps_kind(2) [OF r(1)]] by simp
qed

lemma network_keeps_kinds:
  "network_out P cpath rs k c = Some (i, cpath', rs', c') \<Longrightarrow> kinds hops rs \<Longrightarrow> kinds hops rs'"
  "network_in P cpath rs k c = Some (i, cpath', rs', c') \<Longrightarrow> kinds hops rs \<Longrightarrow> kinds hops rs'"
proof -
  assume "network_out P cpath rs k c = Some (i, cpath', rs', c')" "kinds hops rs"
  then show "kinds hops rs'" by (auto simp: network_out_def kinds_def bind_eq_Some_conv dest!: relays_forward_kinds)
next
  assume a: "network_in P cpath rs k c = Some (i, cpath', rs', c')" "kinds hops rs"
  then obtain r c1 c2 where "relay_encrypt_cell_inbound P (rs ! k) c = Some (r, c1)" "relays_backward P k (rs[k := r]) c1 = Some (rs', c2)"
    by (auto simp: network_in_def bind_eq_Some_conv)
  then show "kinds hops rs'"
    using a(2) relays_backward_kinds update_keeps_kinds [OF layer_keeps_kind(3)] by (metis kinds_def)
qed

lemma kinds_nth: "kinds hops rs \<Longrightarrow> k < length hops \<Longrightarrow> kind_of (rs ! k) = (fst (hops ! k) = RELAY_CRYPTO_ALG_TOR1)"
  unfolding kinds_def by (metis (mono_tags, lifting) case_prod_beta length_map nth_map)

definition well_formed_traffic :: "(relay_crypto_alg \<times> relay_crypto_alg \<times> bytes) list \<Rightarrow> traffic \<Rightarrow> bool" where
  "well_formed_traffic hops t \<longleftrightarrow> traffic_hop t < length hops \<and> sendable_by (fst (hops ! traffic_hop t)) (traffic_cell t)"

definition expected :: "(relay_crypto_alg \<times> relay_crypto_alg \<times> bytes) list \<Rightarrow> traffic \<Rightarrow> byte \<times> bytes" where
  "expected hops t = delivered_by (fst (hops ! traffic_hop t)) (traffic_cell t)"

text \<open>The records of a run that agrees with what was sent: all of it, or what comes
  before a cell for a hop after the first, with equal tags.\<close>

definition run_agrees :: "(relay_crypto_alg \<times> relay_crypto_alg \<times> bytes) list \<Rightarrow> traffic list
    \<Rightarrow> ((byte \<times> bytes) \<times> bytes \<times> bytes) list \<Rightarrow> bool" where
  "run_agrees hops ts out \<longleftrightarrow> map fst out = take (length out) (map (expected hops) ts) \<and> (length out = length ts \<or> length out < length ts \<and> 0 < traffic_hop (ts ! length out))
    \<and> (\<forall>(d, tc, tr) \<in> set out. tc = tr)"

lemma run_agrees_simps:
  "run_agrees hops [] []"
  "0 < traffic_hop t \<Longrightarrow> run_agrees hops (t # ts) []"
  "run_agrees hops ts out \<Longrightarrow> run_agrees hops (t # ts) ((expected hops t, x, x) # out)"
  by (auto simp: run_agrees_def)

lemma circuit_run_agrees:
  assumes "prims_ok P" "circuit_in_step cpath rs" "kinds hops rs" "\<forall>t \<in> set ts. well_formed_traffic hops t"
  shows "\<exists>out. circuit_run P cpath rs ts = Some out \<and> run_agrees hops ts out"
  using assms(2-4)
proof (induction ts arbitrary: cpath rs)
  case Nil
  then show ?case by (simp add: run_agrees_simps)
next
  case (Cons t ts)
  define k where "k = traffic_hop t"
  have len: "length cpath = length rs" "length rs = length hops"
    using Cons.prems(1,2) by (auto simp: kinds_def dest: list_all2_lengthD map_eq_imp_length_eq)
  have k: "k < length hops" "sendable_by (fst (hops ! k)) (traffic_cell t)"
    using Cons.prems(3) by (simp_all add: k_def well_formed_traffic_def)
  have r: "kind_of (rs ! k) = (fst (hops ! k) = RELAY_CRYPTO_ALG_TOR1)" using kinds_nth [OF Cons.prems(2) k(1)] .
  have "in_step (pvt_crypto (cpath ! k)) (rs ! k)"
    using list_all2_nthD [OF Cons.prems(1)] k(1) len by (simp add: hop_in_step_def)
  then have a: "kind_of (pvt_crypto (cpath ! k)) = (fst (hops ! k) = RELAY_CRYPTO_ALG_TOR1)" using in_step_kind r by metis
  have IH: "\<exists>out. circuit_run P cpath' rs' ts = Some out \<and> run_agrees hops ts out"
    if "circuit_in_step cpath' rs'" "kinds hops rs'" for cpath' rs'
    using Cons.IH [OF that] Cons.prems(3) by simp
  show ?case
  proof (cases t)
    case (Out k' c)
    then have kc: "k' = k" "traffic_cell t = c" by (simp_all add: k_def)
    have e: "expected hops t = delivered_by (fst (hops ! k)) c" by (simp only: expected_def k_def kc(2))
    obtain i cpath' rs' c' where n: "network_out P cpath rs k c = Some (Some i, cpath', rs', c')"
      "i = k \<longrightarrow> circuit_in_step cpath' rs' \<and> delivered_part (rs' ! k) c' = delivered_part (pvt_crypto (cpath ! k)) c
        \<and> relay_crypto_get_sendme_tag (pvt_crypto (cpath' ! k)) = relay_crypto_get_sendme_tag (rs' ! k)" "i \<le> k"
      using network_out_delivers [OF assms(1) Cons.prems(1), of k c] k sendable_kind [OF a] kc len by auto
    note kd = network_keeps_kinds(1) [OF n(1) Cons.prems(2)]
    show ?thesis
    proof (cases "i = k")
      case True
      then obtain out where "circuit_run P cpath' rs' ts = Some out" "run_agrees hops ts out" using IH [OF _ kd] n(2) by blast
      then show ?thesis using True n Out kc delivered_kind [OF a, of c] run_agrees_simps(3) [of hops ts out t] e
        by simp
    next
      case False
      then have "0 < traffic_hop t" "i < k" using n(3) by (simp_all add: k_def [symmetric])
      then show ?thesis using n(1) Out kc run_agrees_simps(2) by simp
    qed
  next
    case (In k' c)
    then have kc: "k' = k" "traffic_cell t = c" by (simp_all add: k_def)
    have e: "expected hops t = delivered_by (fst (hops ! k)) c" by (simp only: expected_def k_def kc(2))
    obtain i cpath' rs' c' where n: "network_in P cpath rs k c = Some (Some i, cpath', rs', c')"
      "i = k \<longrightarrow> circuit_in_step cpath' rs' \<and> delivered_part (pvt_crypto (cpath' ! k)) c' = delivered_part (rs ! k) c
        \<and> relay_crypto_get_sendme_tag (pvt_crypto (cpath' ! k)) = relay_crypto_get_sendme_tag (rs' ! k)" "i \<le> k"
      using network_in_delivers [OF assms(1) Cons.prems(1), of k c] k sendable_kind [OF r] kc len by auto
    note kd = network_keeps_kinds(2) [OF n(1) Cons.prems(2)]
    show ?thesis
    proof (cases "i = k")
      case True
      then obtain out where "circuit_run P cpath' rs' ts = Some out" "run_agrees hops ts out" using IH [OF _ kd] n(2) by blast
      then show ?thesis using True n In kc delivered_kind [OF r, of c] run_agrees_simps(3) [of hops ts out t] e
        by simp
    next
      case False
      then have "0 < traffic_hop t" "i < k" using n(3) by (simp_all add: k_def [symmetric])
      then show ?thesis using n(1) In kc run_agrees_simps(2) by simp
    qed
  qed
qed

section \<open>Properties\<close>

text \<open>C1: A circuit whose hops are keyed alike at both ends carries any sequence of cells, sent by the
  client to any hop or by any hop to the client: every cell arrives as it was sent (all but the space of
  the tag, for counter galois layers), both ends then hold the same authenticated tag, and nothing
  fails. The only exception is a relay nearer the client that takes a cell for its own; the statement
  ends there. Cells for the first hop always arrive.\<close>

theorem onion_layers_deliver:
  assumes "prims_ok P"
    "\<forall>(ka, kr, key) \<in> set hops. matching_algs ka kr \<and> relay_crypto_key_material_len ka = Some (length key)"
    "\<forall>t \<in> set ts. well_formed_traffic hops t"
  shows "\<exists>cpath rs out. make_circuit hops = Some (cpath, rs) \<and> circuit_run P cpath rs ts = Some out \<and> run_agrees hops ts out"
proof -
  obtain cpath rs where m: "make_circuit hops = Some (cpath, rs)" "circuit_in_step cpath rs" "kinds hops rs"
    using make_circuit_in_step [OF assms(2)] by blast
  then show ?thesis using circuit_run_agrees [OF assms(1) m(2,3) assms(3)] by blast
qed

text \<open>A stand-in for the primitives: a block cipher that complements, a key stream that counts.\<close>

definition toy_prims :: crypto_prims where
  "toy_prims = \<lparr>aes_block_encrypt = \<lambda>k b. map NOT b, aes_block_decrypt = \<lambda>k b. map NOT b,
     aes_keystream = \<lambda>k iv i. word_of_nat i, polyval = \<lambda>k bs. replicate 16 (of_nat (length bs)),
     hash_bytes = \<lambda>a m. replicate 20 (of_nat (length m))\<rparr>"

lemma onion_layers_deliver_witness:
  "\<exists>cpath rs out.
     make_circuit [(RELAY_CRYPTO_ALG_TOR1, RELAY_CRYPTO_ALG_TOR1, replicate 72 1), (RELAY_CRYPTO_ALG_CGO_CLIENT, RELAY_CRYPTO_ALG_CGO_RELAY, replicate 160 2)]
       = Some (cpath, rs)
     \<and> circuit_run toy_prims cpath rs
         [Out 0 \<lparr>cell_command = 3, payload = replicate 509 0\<rparr>, Out 1 \<lparr>cell_command = 3, payload = replicate 509 7\<rparr>,
          In 1 \<lparr>cell_command = 3, payload = replicate 509 9\<rparr>] = Some out
     \<and> run_agrees [(RELAY_CRYPTO_ALG_TOR1, RELAY_CRYPTO_ALG_TOR1, replicate 72 1), (RELAY_CRYPTO_ALG_CGO_CLIENT, RELAY_CRYPTO_ALG_CGO_RELAY, replicate 160 2)]
         [Out 0 \<lparr>cell_command = 3, payload = replicate 509 0\<rparr>, Out 1 \<lparr>cell_command = 3, payload = replicate 509 7\<rparr>,
          In 1 \<lparr>cell_command = 3, payload = replicate 509 9\<rparr>] out"
proof (rule onion_layers_deliver)
  show "prims_ok toy_prims" by (simp add: prims_ok_def toy_prims_def comp_def)
qed (simp_all add: tor1_key_material_len_def CPATH_KEY_MATERIAL_LEN_def cgo_key_material_len_def CGO_AES_BITS_def
  cgo_uiv_keylen_def cgo_et_keylen_def cgo_prf_keylen_def POLYVAL_KEY_LEN_def SENDME_TAG_LEN_CGO_def
  well_formed_traffic_def sendable_by_def good_cell_def numeral_2_eq_2 Let_def)

end
