(* ===== verification/RelayMsg.thy ===== *)
theory RelayMsg
  imports RelayCryptoSync
begin

text \<open>
  Relay messages in relay cells: \<^verbatim>\<open>src/core/or/relay_msg.c\<close> and the inline functions of
  \<^verbatim>\<open>relay_msg.h\<close>. A message decoded from a cell is the message that was encoded, and
  together with the onion layers of \<^verbatim>\<open>RelayCrypto\<close> messages arrive at the hop they are
  sent to. The random bytes of the padding are a parameter; \<^const>\<open>None\<close> is the result -1.
\<close>

section \<open>Commands and formats\<close>

definition RELAY_COMMAND_BEGIN :: byte where "RELAY_COMMAND_BEGIN = 1"
definition RELAY_COMMAND_DATA :: byte where "RELAY_COMMAND_DATA = 2"
definition RELAY_COMMAND_END :: byte where "RELAY_COMMAND_END = 3"
definition RELAY_COMMAND_CONNECTED :: byte where "RELAY_COMMAND_CONNECTED = 4"
definition RELAY_COMMAND_RESOLVE :: byte where "RELAY_COMMAND_RESOLVE = 11"
definition RELAY_COMMAND_RESOLVED :: byte where "RELAY_COMMAND_RESOLVED = 12"
definition RELAY_COMMAND_BEGIN_DIR :: byte where "RELAY_COMMAND_BEGIN_DIR = 13"
definition RELAY_COMMAND_XOFF :: byte where "RELAY_COMMAND_XOFF = 43"
definition RELAY_COMMAND_XON :: byte where "RELAY_COMMAND_XON = 44"

text \<open>The commands the switch of \<^verbatim>\<open>or.h\<close> lists, by number.\<close>

definition is_known_relay_command :: "byte \<Rightarrow> bool" where
  "is_known_relay_command cmd \<longleftrightarrow>
    cmd \<in> {1, 2, 3, 4, 5, 6, 7, 8, 9, 10, 11, 12, 13, 14, 15, 19, 20, 21, 22,
            32, 33, 34, 35, 36, 37, 38, 39, 40, 41, 42, 43, 44}"

definition relay_cmd_expects_streamid_in_v1 :: "byte \<Rightarrow> bool" where
  "relay_cmd_expects_streamid_in_v1 cmd \<longleftrightarrow>
    cmd \<in> {RELAY_COMMAND_BEGIN, RELAY_COMMAND_BEGIN_DIR, RELAY_COMMAND_CONNECTED, RELAY_COMMAND_DATA,
            RELAY_COMMAND_END, RELAY_COMMAND_RESOLVE, RELAY_COMMAND_RESOLVED, RELAY_COMMAND_XOFF, RELAY_COMMAND_XON}"

datatype relay_cell_fmt = RELAY_CELL_FORMAT_V0 | RELAY_CELL_FORMAT_V1

definition RELAY_HEADER_SIZE_V0 :: nat where "RELAY_HEADER_SIZE_V0 = 1 + 2 + 2 + 4 + 2"
definition RELAY_HEADER_SIZE_V1_NO_STREAM_ID :: nat where "RELAY_HEADER_SIZE_V1_NO_STREAM_ID = 16 + 1 + 2"
definition RELAY_HEADER_SIZE_V1_WITH_STREAM_ID :: nat where "RELAY_HEADER_SIZE_V1_WITH_STREAM_ID = 16 + 1 + 2 + 2"

fun relay_cell_max_payload_size :: "relay_cell_fmt \<Rightarrow> byte \<Rightarrow> nat" where
  "relay_cell_max_payload_size RELAY_CELL_FORMAT_V0 cmd = CELL_PAYLOAD_SIZE - RELAY_HEADER_SIZE_V0"
| "relay_cell_max_payload_size RELAY_CELL_FORMAT_V1 cmd =
    (if relay_cmd_expects_streamid_in_v1 cmd
     then CELL_PAYLOAD_SIZE - RELAY_HEADER_SIZE_V1_WITH_STREAM_ID
     else CELL_PAYLOAD_SIZE - RELAY_HEADER_SIZE_V1_NO_STREAM_ID)"

definition CELL_RELAY :: byte where "CELL_RELAY = 3"
definition CELL_RELAY_EARLY :: byte where "CELL_RELAY_EARLY = 9"

text \<open>The body is the memory from its pointer on.\<close>

record relay_msg =
  msg_command :: byte
  msg_length :: "16 word"
  msg_stream_id :: "16 word"
  is_relay_early :: bool
  msg_body :: bytes

section \<open>Encoding\<close>

definition V0_CMD_OFFSET :: nat where "V0_CMD_OFFSET = 0"
definition V0_STREAM_ID_OFFSET :: nat where "V0_STREAM_ID_OFFSET = 3"
definition V0_LEN_OFFSET :: nat where "V0_LEN_OFFSET = 9"
definition V0_PAYLOAD_OFFSET :: nat where "V0_PAYLOAD_OFFSET = 11"
definition V1_CMD_OFFSET :: nat where "V1_CMD_OFFSET = 16"
definition V1_LEN_OFFSET :: nat where "V1_LEN_OFFSET = 17"
definition V1_STREAM_ID_OFFSET :: nat where "V1_STREAM_ID_OFFSET = 19"
definition V1_PAYLOAD_OFFSET_NO_STREAM_ID :: nat where "V1_PAYLOAD_OFFSET_NO_STREAM_ID = 19"
definition V1_PAYLOAD_OFFSET_WITH_STREAM_ID :: nat where "V1_PAYLOAD_OFFSET_WITH_STREAM_ID = 21"

text \<open>Sixteen bits in network order.\<close>

definition htons :: "16 word \<Rightarrow> bytes" where "htons w = [ucast (drop_bit 8 w), ucast w]"

definition ntohs :: "bytes \<Rightarrow> 16 word" where "ntohs b = push_bit 8 (ucast (b ! 0)) OR ucast (b ! 1)"

text \<open>The generator fills a buffer of a given size.\<close>

definition relay_cell_pad :: "(nat \<Rightarrow> bytes) \<Rightarrow> bytes \<Rightarrow> nat \<Rightarrow> bytes" where
  "relay_cell_pad rng p end_of_message =
    (let skip = 4
     in if end_of_message + skip \<ge> CELL_PAYLOAD_SIZE then p
        else put (end_of_message + skip) (rng (CELL_PAYLOAD_SIZE - (end_of_message + skip))) p)"

definition encode_v0_cell :: "(nat \<Rightarrow> bytes) \<Rightarrow> relay_msg \<Rightarrow> bytes \<Rightarrow> bytes option" where
  "encode_v0_cell rng msg out =
    (let maxlen = relay_cell_max_payload_size RELAY_CELL_FORMAT_V0 (msg_command msg)
     in if unat (msg_length msg) > maxlen then None
        else
          let out = put V0_CMD_OFFSET [msg_command msg] out;
              out = put V0_STREAM_ID_OFFSET (htons (msg_stream_id msg)) out;
              out = put V0_LEN_OFFSET (htons (msg_length msg)) out;
              out = put RELAY_HEADER_SIZE_V0 (take (unat (msg_length msg)) (msg_body msg)) out
          in Some (relay_cell_pad rng out (RELAY_HEADER_SIZE_V0 + unat (msg_length msg))))"

definition encode_v1_cell :: "(nat \<Rightarrow> bytes) \<Rightarrow> relay_msg \<Rightarrow> bytes \<Rightarrow> bytes option" where
  "encode_v1_cell rng msg out =
    (let expects_streamid = relay_cmd_expects_streamid_in_v1 (msg_command msg);
         maxlen = relay_cell_max_payload_size RELAY_CELL_FORMAT_V1 (msg_command msg)
     in if unat (msg_length msg) > maxlen then None
        else
          let out = put V1_CMD_OFFSET [msg_command msg] out;
              out = put V1_LEN_OFFSET (htons (msg_length msg)) out
          in if expects_streamid \<and> msg_stream_id msg = 0 then None
             else if \<not> expects_streamid \<and> msg_stream_id msg \<noteq> 0 then None
             else
               let (out, payload_offset) =
                     (if expects_streamid
                      then (put V1_STREAM_ID_OFFSET (htons (msg_stream_id msg)) out, V1_PAYLOAD_OFFSET_WITH_STREAM_ID)
                      else (out, V1_PAYLOAD_OFFSET_NO_STREAM_ID));
                   out = put payload_offset (take (unat (msg_length msg)) (msg_body msg)) out
               in Some (relay_cell_pad rng out (payload_offset + unat (msg_length msg))))"

definition relay_msg_encode_cell :: "(nat \<Rightarrow> bytes) \<Rightarrow> relay_cell_fmt \<Rightarrow> relay_msg \<Rightarrow> cell option" where
  "relay_msg_encode_cell rng format msg =
    map_option (\<lambda>p. \<lparr>cell_command = if is_relay_early msg then CELL_RELAY_EARLY else CELL_RELAY, payload = p\<rparr>)
      (case format of
         RELAY_CELL_FORMAT_V0 \<Rightarrow> encode_v0_cell rng msg (replicate CELL_PAYLOAD_SIZE 0)
       | RELAY_CELL_FORMAT_V1 \<Rightarrow> encode_v1_cell rng msg (replicate CELL_PAYLOAD_SIZE 0))"

section \<open>Decoding\<close>

definition decode_v0_cell :: "cell \<Rightarrow> relay_msg option" where
  "decode_v0_cell c =
    (let bdy = payload c;
         len = ntohs (take 2 (drop V0_LEN_OFFSET bdy))
     in if unat len > CELL_PAYLOAD_SIZE - RELAY_HEADER_SIZE_V0 then None
        else Some \<lparr>msg_command = bdy ! V0_CMD_OFFSET, msg_length = len,
                   msg_stream_id = ntohs (take 2 (drop V0_STREAM_ID_OFFSET bdy)),
                   is_relay_early = (cell_command c = CELL_RELAY_EARLY),
                   msg_body = drop V0_PAYLOAD_OFFSET bdy\<rparr>)"

definition decode_v1_cell :: "cell \<Rightarrow> relay_msg option" where
  "decode_v1_cell c =
    (let bdy = payload c;
         cmd = bdy ! V1_CMD_OFFSET
     in if \<not> is_known_relay_command cmd then None
        else
          let len = ntohs (take 2 (drop V1_LEN_OFFSET bdy));
              (sid, payload_offset) =
                (if relay_cmd_expects_streamid_in_v1 cmd
                 then (ntohs (take 2 (drop V1_STREAM_ID_OFFSET bdy)), V1_PAYLOAD_OFFSET_WITH_STREAM_ID)
                 else (0, V1_PAYLOAD_OFFSET_NO_STREAM_ID))
          in if unat len > CELL_PAYLOAD_SIZE - payload_offset then None
             else Some \<lparr>msg_command = cmd, msg_length = len, msg_stream_id = sid,
                        is_relay_early = (cell_command c = CELL_RELAY_EARLY), msg_body = drop payload_offset bdy\<rparr>)"

fun relay_msg_decode_cell_in_place :: "relay_cell_fmt \<Rightarrow> cell \<Rightarrow> relay_msg option" where
  "relay_msg_decode_cell_in_place RELAY_CELL_FORMAT_V0 c = decode_v0_cell c"
| "relay_msg_decode_cell_in_place RELAY_CELL_FORMAT_V1 c = decode_v1_cell c"

text \<open>Copying keeps the part of the body that counts; a message longer than any cell is an assertion.\<close>

definition RELAY_PAYLOAD_SIZE_MAX :: nat where "RELAY_PAYLOAD_SIZE_MAX = CELL_PAYLOAD_SIZE - RELAY_HEADER_SIZE_V0"

definition relay_msg_copy :: "relay_msg \<Rightarrow> relay_msg option" where
  "relay_msg_copy msg =
    (if \<not> unat (msg_length msg) \<le> RELAY_PAYLOAD_SIZE_MAX then None
     else Some (msg\<lparr>msg_body := take (unat (msg_length msg)) (msg_body msg)\<rparr>))"

section \<open>Round trip\<close>

text \<open>What a message may be in a format.\<close>

definition encodable :: "relay_cell_fmt \<Rightarrow> relay_msg \<Rightarrow> bool" where
  "encodable format m \<longleftrightarrow> unat (msg_length m) \<le> relay_cell_max_payload_size format (msg_command m)
    \<and> length (msg_body m) = unat (msg_length m)
    \<and> (format = RELAY_CELL_FORMAT_V1 \<longrightarrow> is_known_relay_command (msg_command m)
         \<and> (relay_cmd_expects_streamid_in_v1 (msg_command m) \<longleftrightarrow> msg_stream_id m \<noteq> 0))"

lemma ntohs_htons: "ntohs (htons w) = w"
proof (rule bit_word_eqI)
  fix n assume "n < LENGTH(16)"
  then show "bit (ntohs (htons w)) n = bit w n"
    by (cases "n < 8") (auto simp: ntohs_def htons_def bit_or_iff bit_push_bit_iff bit_ucast_iff bit_drop_bit_eq)
qed

lemma length_htons: "length (htons w) = 2"
  by (simp add: htons_def)

lemmas v0_offsets = V0_CMD_OFFSET_def V0_STREAM_ID_OFFSET_def V0_LEN_OFFSET_def V0_PAYLOAD_OFFSET_def RELAY_HEADER_SIZE_V0_def
lemmas v1_offsets = V1_CMD_OFFSET_def V1_LEN_OFFSET_def V1_STREAM_ID_OFFSET_def V1_PAYLOAD_OFFSET_NO_STREAM_ID_def
  V1_PAYLOAD_OFFSET_WITH_STREAM_ID_def RELAY_HEADER_SIZE_V1_NO_STREAM_ID_def RELAY_HEADER_SIZE_V1_WITH_STREAM_ID_def

text \<open>The layout of an encoded cell.\<close>

lemma relay_cell_pad_layout:
  assumes "\<And>n. length (rng n) = n" "length p = 509" "e \<le> 509"
  shows "take e (relay_cell_pad rng p e) = take e p" "length (relay_cell_pad rng p e) = 509"
  using assms by (auto simp: relay_cell_pad_def CELL_PAYLOAD_SIZE_def put_def Let_def)

lemma take_put: "i \<le> length l \<Longrightarrow> take i (put i b l) = take i l"
  by (simp add: put_def)

lemma take_put_through: "i + length b \<le> length l \<Longrightarrow> take (i + length b) (put i b l) = take i l @ b"
  by (simp add: put_def)

lemma encode_v0_layout:
  assumes "encodable RELAY_CELL_FORMAT_V0 m" "\<And>n. length (rng n) = n"
  shows "\<exists>t. encode_v0_cell rng m (replicate CELL_PAYLOAD_SIZE 0)
      = Some ([msg_command m, 0, 0] @ htons (msg_stream_id m) @ replicate 4 0 @ htons (msg_length m) @ msg_body m @ t)
    \<and> length (msg_body m @ t) = 498"
proof -
  let ?n = "unat (msg_length m)"
  have n: "?n \<le> 498" "length (msg_body m) = ?n"
    using assms(1) by (simp_all add: encodable_def CELL_PAYLOAD_SIZE_def v0_offsets)
  define q where "q = put V0_LEN_OFFSET (htons (msg_length m)) (put V0_STREAM_ID_OFFSET (htons (msg_stream_id m))
    (put V0_CMD_OFFSET [msg_command m] (replicate CELL_PAYLOAD_SIZE 0)))"
  have q: "take 11 q = [msg_command m, 0, 0] @ htons (msg_stream_id m) @ replicate 4 0 @ htons (msg_length m)" "length q = 509"
    by (simp_all add: q_def put_def v0_offsets htons_def CELL_PAYLOAD_SIZE_def numeral_2_eq_2 numeral_3_eq_3)
  define p where "p = put 11 (msg_body m) q"
  have p: "take (11 + ?n) p = take 11 q @ msg_body m" "length p = 509"
    using take_put_through [of 11 "msg_body m" q] length_put [of 11 "msg_body m" q] n q(2) by (simp_all add: p_def)
  define r where "r = relay_cell_pad rng p (11 + ?n)"
  have "take (11 + ?n) r = take 11 q @ msg_body m" "length r = 509"
    using relay_cell_pad_layout [of rng p "11 + ?n"] assms(2) p n by (simp_all add: r_def)
  then have "r = take 11 q @ msg_body m @ drop (11 + ?n) r" "length (drop (11 + ?n) r) = 498 - ?n"
    by (metis append_assoc append_take_drop_id, simp)
  moreover have "encode_v0_cell rng m (replicate CELL_PAYLOAD_SIZE 0) = Some r"
    using n by (simp add: encode_v0_cell_def r_def p_def q_def CELL_PAYLOAD_SIZE_def RELAY_HEADER_SIZE_V0_def Let_def)
  ultimately show ?thesis using q(1) n by (intro exI [of _ "drop (11 + ?n) r"]) simp
qed

text \<open>The header of the second format after the tag, and how long it is.\<close>

definition v1_header :: "relay_msg \<Rightarrow> bytes" where
  "v1_header m = [msg_command m] @ htons (msg_length m)
    @ (if relay_cmd_expects_streamid_in_v1 (msg_command m) then htons (msg_stream_id m) else [])"

lemma encode_v1_layout:
  assumes "encodable RELAY_CELL_FORMAT_V1 m" "\<And>n. length (rng n) = n"
  shows "\<exists>t. encode_v1_cell rng m (replicate CELL_PAYLOAD_SIZE 0) = Some (replicate 16 0 @ v1_header m @ msg_body m @ t)
    \<and> length (v1_header m @ msg_body m @ t) = 493"
proof -
  let ?n = "unat (msg_length m)" and ?e = "relay_cmd_expects_streamid_in_v1 (msg_command m)"
  define k where "k = (if ?e then 21 else 19 :: nat)"
  have n: "k + ?n \<le> 509" "length (msg_body m) = ?n" "?e \<longleftrightarrow> msg_stream_id m \<noteq> 0"
    using assms(1) by (auto simp: encodable_def CELL_PAYLOAD_SIZE_def v1_offsets k_def split: if_splits)
  define q1 where "q1 = put V1_LEN_OFFSET (htons (msg_length m)) (put V1_CMD_OFFSET [msg_command m] (replicate CELL_PAYLOAD_SIZE 0))"
  define q where "q = (if ?e then put V1_STREAM_ID_OFFSET (htons (msg_stream_id m)) q1 else q1)"
  have q: "take k q = replicate 16 0 @ v1_header m" "length q = 509" "length (v1_header m) = k - 16"
    by (simp_all add: q_def q1_def k_def put_def v1_offsets v1_header_def htons_def CELL_PAYLOAD_SIZE_def numeral_2_eq_2 numeral_3_eq_3)
  define p where "p = put k (msg_body m) q"
  have p: "take (k + ?n) p = take k q @ msg_body m" "length p = 509"
    using take_put_through [of k "msg_body m" q] length_put [of k "msg_body m" q] n q(2) by (simp_all add: p_def)
  define r where "r = relay_cell_pad rng p (k + ?n)"
  have "take (k + ?n) r = take k q @ msg_body m" "length r = 509"
    using relay_cell_pad_layout [of rng p "k + ?n"] assms(2) p n by (simp_all add: r_def)
  then have "r = take k q @ msg_body m @ drop (k + ?n) r" "length (drop (k + ?n) r) = 509 - (k + ?n)"
    by (metis append_assoc append_take_drop_id, simp)
  moreover have "encode_v1_cell rng m (replicate CELL_PAYLOAD_SIZE 0) = Some r"
    using n by (auto simp: encode_v1_cell_def r_def p_def q_def q1_def k_def CELL_PAYLOAD_SIZE_def v1_offsets Let_def)
  moreover have "k \<ge> 19" by (simp add: k_def)
  ultimately show ?thesis using q n by (intro exI [of _ "drop (k + ?n) r"]) simp
qed

text \<open>What two messages have in common when one is a copy of the other.\<close>

definition same_msg :: "relay_msg \<Rightarrow> relay_msg \<Rightarrow> bool" where
  "same_msg m m' \<longleftrightarrow> relay_msg_copy m = relay_msg_copy m' \<and> relay_msg_copy m \<noteq> None"

lemma max_payload: "relay_cell_max_payload_size f cmd \<le> RELAY_PAYLOAD_SIZE_MAX"
  by (cases f) (simp_all add: RELAY_PAYLOAD_SIZE_MAX_def CELL_PAYLOAD_SIZE_def v0_offsets v1_offsets)

lemma decode_v0_layout:
  assumes "encodable RELAY_CELL_FORMAT_V0 m"
    "payload c = [msg_command m, 0, 0] @ htons (msg_stream_id m) @ replicate 4 0 @ htons (msg_length m) @ msg_body m @ t"
    "cell_command c = (if is_relay_early m then CELL_RELAY_EARLY else CELL_RELAY)"
  shows "\<exists>m'. decode_v0_cell c = Some m' \<and> same_msg m m'"
proof -
  have "take 2 (drop 3 (payload c)) = htons (msg_stream_id m)" "take 2 (drop 9 (payload c)) = htons (msg_length m)"
    "drop 11 (payload c) = msg_body m @ t" "payload c ! 0 = msg_command m"
    using assms(2) by (simp_all add: htons_def numeral_2_eq_2 numeral_3_eq_3)
  moreover have "unat (msg_length m) \<le> RELAY_PAYLOAD_SIZE_MAX"
    using assms(1) le_trans [OF _ max_payload] unfolding encodable_def by blast
  ultimately show ?thesis using assms(1,3)
    by (simp add: decode_v0_cell_def same_msg_def relay_msg_copy_def v0_offsets ntohs_htons encodable_def CELL_RELAY_def
      CELL_RELAY_EARLY_def Let_def)
qed

lemma decode_v1_layout:
  assumes "encodable RELAY_CELL_FORMAT_V1 m"
    "drop 16 (payload c) = v1_header m @ msg_body m @ t" "16 \<le> length (payload c)"
    "cell_command c = (if is_relay_early m then CELL_RELAY_EARLY else CELL_RELAY)"
  shows "\<exists>m'. decode_v1_cell c = Some m' \<and> same_msg m m'"
proof -
  define h where "h = take 16 (payload c)"
  have c: "payload c = h @ v1_header m @ msg_body m @ t" "length h = 16"
    using append_take_drop_id [of 16 "payload c"] assms(2,3) by (simp_all add: h_def)
  have cmd: "payload c ! 16 = msg_command m" "take 2 (drop 17 (payload c)) = htons (msg_length m)"
    using c by (simp_all add: nth_append v1_header_def htons_def numeral_2_eq_2)
  have mx: "unat (msg_length m) \<le> RELAY_PAYLOAD_SIZE_MAX"
    using assms(1) le_trans [OF _ max_payload] unfolding encodable_def by blast
  show ?thesis
  proof (cases "relay_cmd_expects_streamid_in_v1 (msg_command m)")
    case True
    then have "take 2 (drop 19 (payload c)) = htons (msg_stream_id m)" "drop 21 (payload c) = msg_body m @ t"
      using c by (simp_all add: v1_header_def htons_def numeral_2_eq_2 numeral_3_eq_3)
    then show ?thesis using assms(1,4) cmd mx True
      by (simp add: decode_v1_cell_def same_msg_def relay_msg_copy_def v1_offsets ntohs_htons encodable_def CELL_RELAY_def
        CELL_RELAY_EARLY_def Let_def)
  next
    case False
    then have "drop 19 (payload c) = msg_body m @ t"
      using c by (simp add: v1_header_def htons_def)
    then show ?thesis using assms(1,4) cmd mx False
      by (simp add: decode_v1_cell_def same_msg_def relay_msg_copy_def v1_offsets ntohs_htons encodable_def CELL_RELAY_def
        CELL_RELAY_EARLY_def Let_def)
  qed
qed

section \<open>Messages over a circuit\<close>

type_synonym hop_keys = "(relay_crypto_alg \<times> relay_crypto_alg \<times> bytes) list"

text \<open>Counter galois hops use the second format, the others the first.\<close>

definition hop_format :: "hop_keys \<Rightarrow> nat \<Rightarrow> relay_cell_fmt" where
  "hop_format hops k = (if fst (hops ! k) = RELAY_CRYPTO_ALG_TOR1 then RELAY_CELL_FORMAT_V0 else RELAY_CELL_FORMAT_V1)"

datatype message = ToHop nat relay_msg | ToClient nat relay_msg

fun message_hop :: "message \<Rightarrow> nat" where
  "message_hop (ToHop k m) = k"
| "message_hop (ToClient k m) = k"

fun message_msg :: "message \<Rightarrow> relay_msg" where
  "message_msg (ToHop k m) = m"
| "message_msg (ToClient k m) = m"

fun package :: "(nat \<Rightarrow> bytes) \<Rightarrow> hop_keys \<Rightarrow> message \<Rightarrow> traffic option" where
  "package rng hops (ToHop k m) = map_option (Out k) (relay_msg_encode_cell rng (hop_format hops k) m)"
| "package rng hops (ToClient k m) = map_option (In k) (relay_msg_encode_cell rng (hop_format hops k) m)"

text \<open>The message read from what a layer delivered; the tag is not part of it.\<close>

definition received :: "hop_keys \<Rightarrow> nat \<Rightarrow> byte \<times> bytes \<Rightarrow> relay_msg option" where
  "received hops k d = relay_msg_decode_cell_in_place (hop_format hops k)
     \<lparr>cell_command = fst d,
      payload = if hop_format hops k = RELAY_CELL_FORMAT_V0 then snd d else replicate 16 0 @ snd d\<rparr>"

definition message_ok :: "hop_keys \<Rightarrow> message \<Rightarrow> bool" where
  "message_ok hops x \<longleftrightarrow> message_hop x < length hops \<and> encodable (hop_format hops (message_hop x)) (message_msg x)"

text \<open>A packaged message fits its layer, and what the layer delivers decodes to it.\<close>

lemma encode_received:
  assumes "encodable (hop_format hops k) m" "\<And>n. length (rng n) = n"
  shows "\<exists>c. relay_msg_encode_cell rng (hop_format hops k) m = Some c \<and> sendable_by (fst (hops ! k)) c
    \<and> (\<exists>m'. received hops k (delivered_by (fst (hops ! k)) c) = Some m' \<and> same_msg m m')"
proof (cases "fst (hops ! k) = RELAY_CRYPTO_ALG_TOR1")
  case True
  then have f: "hop_format hops k = RELAY_CELL_FORMAT_V0" by (simp add: hop_format_def)
  obtain t where t: "encode_v0_cell rng m (replicate CELL_PAYLOAD_SIZE 0)
      = Some ([msg_command m, 0, 0] @ htons (msg_stream_id m) @ replicate 4 0 @ htons (msg_length m) @ msg_body m @ t)"
    "length (msg_body m @ t) = 498"
    using encode_v0_layout [OF assms(1) [unfolded f] assms(2)] by blast
  let ?c = "\<lparr>cell_command = if is_relay_early m then CELL_RELAY_EARLY else CELL_RELAY,
    payload = [msg_command m, 0, 0] @ htons (msg_stream_id m) @ replicate 4 0 @ htons (msg_length m) @ msg_body m @ t\<rparr>"
  have "relay_msg_encode_cell rng (hop_format hops k) m = Some ?c"
    using t(1) f by (simp add: relay_msg_encode_cell_def)
  moreover have "sendable_by (fst (hops ! k)) ?c"
    using t(2) by (simp add: sendable_by_def good_cell_def htons_def numeral_2_eq_2)
  moreover have "\<exists>m'. received hops k (delivered_by (fst (hops ! k)) ?c) = Some m' \<and> same_msg m m'"
    using decode_v0_layout [OF assms(1) [unfolded f], of ?c t] True f by (simp add: received_def delivered_by_def)
  ultimately show ?thesis by blast
next
  case False
  then have f: "hop_format hops k = RELAY_CELL_FORMAT_V1" by (simp add: hop_format_def)
  obtain t where t: "encode_v1_cell rng m (replicate CELL_PAYLOAD_SIZE 0) = Some (replicate 16 0 @ v1_header m @ msg_body m @ t)"
    "length (v1_header m @ msg_body m @ t) = 493"
    using encode_v1_layout [OF assms(1) [unfolded f] assms(2)] by blast
  let ?c = "\<lparr>cell_command = if is_relay_early m then CELL_RELAY_EARLY else CELL_RELAY,
    payload = replicate 16 0 @ v1_header m @ msg_body m @ t\<rparr>"
  have "relay_msg_encode_cell rng (hop_format hops k) m = Some ?c"
    using t(1) f by (simp add: relay_msg_encode_cell_def)
  moreover have "sendable_by (fst (hops ! k)) ?c"
    using t(2) False by (simp add: sendable_by_def good_cell_def)
  moreover have "\<exists>m'. received hops k (delivered_by (fst (hops ! k)) ?c) = Some m' \<and> same_msg m m'"
    using decode_v1_layout [OF assms(1) [unfolded f], of ?c t] False f by (simp add: received_def delivered_by_def)
  ultimately show ?thesis by blast
qed

lemma package_ok:
  assumes "message_ok hops x" "\<And>n. length (rng n) = n"
  shows "\<exists>t. package rng hops x = Some t \<and> well_formed_traffic hops t \<and> traffic_hop t = message_hop x
    \<and> (\<exists>m'. received hops (message_hop x) (expected hops t) = Some m' \<and> same_msg (message_msg x) m')"
  using encode_received [of hops "message_hop x" "message_msg x" rng] assms
  by (cases x) (auto simp: message_ok_def well_formed_traffic_def expected_def)

lemma packages_ok:
  assumes "\<forall>x \<in> set ms. message_ok hops x" "\<And>n. length (rng n) = n"
  shows "\<exists>ts. those (map (package rng hops) ms) = Some ts \<and> list_all2 (\<lambda>x t. well_formed_traffic hops t \<and> traffic_hop t = message_hop x
    \<and> (\<exists>m'. received hops (message_hop x) (expected hops t) = Some m' \<and> same_msg (message_msg x) m')) ms ts"
  using assms(1)
proof (induction ms)
  case Nil
  then show ?case by simp
next
  case (Cons x ms)
  then obtain ts where ts: "those (map (package rng hops) ms) = Some ts" "list_all2 (\<lambda>x t. well_formed_traffic hops t \<and> traffic_hop t = message_hop x
    \<and> (\<exists>m'. received hops (message_hop x) (expected hops t) = Some m' \<and> same_msg (message_msg x) m')) ms ts" by auto
  obtain t where "package rng hops x = Some t" "well_formed_traffic hops t \<and> traffic_hop t = message_hop x
    \<and> (\<exists>m'. received hops (message_hop x) (expected hops t) = Some m' \<and> same_msg (message_msg x) m')"
    using package_ok [OF _ assms(2), of hops x] Cons.prems by auto
  then show ?case using ts by (intro exI [of _ "t # ts"]) simp
qed

text \<open>A run delivers a prefix of the messages, complete up to a message for a hop after the first.\<close>

definition messages_received :: "hop_keys \<Rightarrow> message list \<Rightarrow> ((byte \<times> bytes) \<times> bytes \<times> bytes) list \<Rightarrow> bool" where
  "messages_received hops ms out \<longleftrightarrow>
    (length out = length ms \<or> length out < length ms \<and> 0 < message_hop (ms ! length out))
    \<and> list_all2 (\<lambda>x (d, tc, tr). tc = tr \<and> (\<exists>m'. received hops (message_hop x) d = Some m' \<and> same_msg (message_msg x) m'))
        (take (length out) ms) out"

lemma run_received:
  assumes "run_agrees hops ts out"
    "list_all2 (\<lambda>x t. well_formed_traffic hops t \<and> traffic_hop t = message_hop x
      \<and> (\<exists>m'. received hops (message_hop x) (expected hops t) = Some m' \<and> same_msg (message_msg x) m')) ms ts"
  shows "messages_received hops ms out"
proof -
  have len: "length ms = length ts" using assms(2) by (rule list_all2_lengthD)
  have le: "length out \<le> length ts" using assms(1) by (auto simp: run_agrees_def)
  have out: "fst (out ! i) = expected hops (ts ! i)" "fst (snd (out ! i)) = snd (snd (out ! i))" if "i < length out" for i
  proof -
    have "map fst out ! i = take (length out) (map (expected hops) ts) ! i" using assms(1) by (simp add: run_agrees_def)
    then show "fst (out ! i) = expected hops (ts ! i)" using that le by simp
    show "fst (snd (out ! i)) = snd (snd (out ! i))" using assms(1) nth_mem [OF that]
      unfolding run_agrees_def case_prod_beta by blast
  qed
  have "list_all2 (\<lambda>x (d, tc, tr). tc = tr \<and> (\<exists>m'. received hops (message_hop x) d = Some m' \<and> same_msg (message_msg x) m'))
        (take (length out) ms) out"
    unfolding list_all2_conv_all_nth
    using out list_all2_nthD [OF assms(2)] len le by (auto simp: case_prod_beta)
  moreover have "traffic_hop (ts ! length out) = message_hop (ms ! length out)" if "length out < length ts"
    using list_all2_nthD [OF assms(2)] that len by simp
  ultimately show ?thesis using assms(1) len by (auto simp: messages_received_def run_agrees_def)
qed

section \<open>Properties\<close>

text \<open>C2: Relay messages, in the format the layers of a hop use, are encoded into cells that leave room
  for the digest or the tag, go through the onion layers in either direction and decode at the other
  end to the same command, stream, body and early flag; both ends hold the same tag for each. The only
  exception is a relay nearer the client that takes a cell for its own, where the statement ends.\<close>

theorem relay_messages_arrive:
  assumes "prims_ok P" "\<forall>n. length (rng n) = n"
    "\<forall>(ka, kr, key) \<in> set hops. matching_algs ka kr \<and> relay_crypto_key_material_len ka = Some (length key)"
    "\<forall>x \<in> set ms. message_ok hops x"
  shows "\<exists>ts cpath rs out. those (map (package rng hops) ms) = Some ts \<and> make_circuit hops = Some (cpath, rs)
    \<and> circuit_run P cpath rs ts = Some out \<and> messages_received hops ms out"
proof -
  obtain ts where ts: "those (map (package rng hops) ms) = Some ts" "list_all2 (\<lambda>x t. well_formed_traffic hops t \<and> traffic_hop t = message_hop x
    \<and> (\<exists>m'. received hops (message_hop x) (expected hops t) = Some m' \<and> same_msg (message_msg x) m')) ms ts"
    using packages_ok [OF assms(4), of rng] assms(2) by blast
  then have wf: "\<forall>t \<in> set ts. well_formed_traffic hops t" by (auto simp: list_all2_conv_all_nth in_set_conv_nth)
  obtain cpath rs where m: "make_circuit hops = Some (cpath, rs)" "circuit_in_step cpath rs" "kinds hops rs"
    using make_circuit_in_step [OF assms(3)] by blast
  obtain out where "circuit_run P cpath rs ts = Some out" "run_agrees hops ts out"
    using circuit_run_agrees [OF assms(1) m(2,3) wf] by blast
  then show ?thesis using ts m(1) run_received by blast
qed

definition sample_hops :: hop_keys where
  "sample_hops = [(RELAY_CRYPTO_ALG_TOR1, RELAY_CRYPTO_ALG_TOR1, replicate 72 1),
    (RELAY_CRYPTO_ALG_CGO_CLIENT, RELAY_CRYPTO_ALG_CGO_RELAY, replicate 160 2)]"

definition sample_messages :: "message list" where
  "sample_messages =
    [ToHop 1 \<lparr>msg_command = RELAY_COMMAND_BEGIN, msg_length = 3, msg_stream_id = 7, is_relay_early = True, msg_body = [1, 2, 3]\<rparr>,
     ToClient 0 \<lparr>msg_command = RELAY_COMMAND_DATA, msg_length = 498, msg_stream_id = 7, is_relay_early = False, msg_body = replicate 498 9\<rparr>,
     ToClient 1 \<lparr>msg_command = 5, msg_length = 0, msg_stream_id = 0, is_relay_early = False, msg_body = []\<rparr>]"

lemma relay_messages_arrive_witness:
  "\<exists>ts cpath rs out. those (map (package (\<lambda>n. replicate n 0xAA) sample_hops) sample_messages) = Some ts
    \<and> make_circuit sample_hops = Some (cpath, rs)
    \<and> circuit_run toy_prims cpath rs ts = Some out \<and> messages_received sample_hops sample_messages out"
proof (rule relay_messages_arrive)
  show "prims_ok toy_prims" by (simp add: prims_ok_def toy_prims_def comp_def)
  show "\<forall>x \<in> set sample_messages. message_ok sample_hops x"
    by (simp add: sample_messages_def sample_hops_def message_ok_def encodable_def hop_format_def CELL_PAYLOAD_SIZE_def v0_offsets v1_offsets
      is_known_relay_command_def relay_cmd_expects_streamid_in_v1_def RELAY_COMMAND_BEGIN_def RELAY_COMMAND_DATA_def RELAY_COMMAND_END_def RELAY_COMMAND_CONNECTED_def
      RELAY_COMMAND_RESOLVE_def RELAY_COMMAND_RESOLVED_def RELAY_COMMAND_BEGIN_DIR_def RELAY_COMMAND_XOFF_def RELAY_COMMAND_XON_def)
qed (simp_all add: sample_hops_def tor1_key_material_len_def CPATH_KEY_MATERIAL_LEN_def cgo_key_material_len_def CGO_AES_BITS_def
  cgo_uiv_keylen_def cgo_et_keylen_def cgo_prf_keylen_def POLYVAL_KEY_LEN_def SENDME_TAG_LEN_CGO_def Let_def)

end
