(* ===== verification/CongestionControl.thy ===== *)
theory CongestionControl
  imports NetParams
begin

text \<open>
  Congestion control of circuits: \<^verbatim>\<open>src/core/or/congestion_control_common.c\<close>,
  \<^verbatim>\<open>congestion_control_vegas.c\<close> and their headers. Every field is an \<^typ>\<open>int\<close> in
  the range of its C type, with the conversions and the wrapping of 64-bit arithmetic written out. The
  cached consensus values and the flag of the clock are a record of their own; the clock itself, the
  length of the queue of the channel and whether it is blocked are arguments. The moving averages kept
  for the metrics port and the log lines are left out; nothing reads them.
\<close>

section \<open>State\<close>

record vegas_params =
  ss_cwnd_cap :: int
  ss_cwnd_max :: int
  vegas_gamma :: int
  vegas_alpha :: int
  vegas_beta :: int
  vegas_delta :: int

record congestion_control =
  sendme_pending_timestamps :: "int list"
  ewma_rtt_usec :: int
  min_rtt_usec :: int
  max_rtt_usec :: int
  cc_bdp :: int
  cc_cwnd :: int
  cc_inflight :: int
  next_cc_event :: int
  next_cwnd_event :: int
  in_slow_start :: bool
  cwnd_full :: bool
  blocked_chan :: bool
  cwnd_inc_pct_ss :: int
  cwnd_inc :: int
  cwnd_min :: int
  cwnd_inc_rate :: int
  sendme_inc :: int
  cc_alg_used :: int
  cc_vegas :: vegas_params

text \<open>The static variables of both files.\<close>

record cc_globals =
  cwnd_max :: int
  cell_queue_high :: int
  cell_queue_low :: int
  or_conn_highwater :: int
  or_conn_lowwater :: int
  cc_sendme_inc :: int
  cc_alg :: int
  n_ewma_cwnd_pct :: int
  n_ewma_max :: int
  n_ewma_ss :: int
  bwe_sendme_min :: int
  rtt_reset_pct :: int
  cc_vegas_cwnd_full_gap :: int
  cc_vegas_cwnd_full_minpct :: int
  cc_cwnd_full_per_cwnd :: int
  is_monotime_clock_broken :: bool
  num_clock_stalls :: int
  num_rtt_reset :: int

abbreviation u8 :: "int \<Rightarrow> int" where "u8 \<equiv> to_unsigned 8"
abbreviation u16 :: "int \<Rightarrow> int" where "u16 \<equiv> to_unsigned 16"

definition TLS_RECORD_MAX_CELLS :: int where "TLS_RECORD_MAX_CELLS = (16 * 1024) div 514"
definition SENDME_INC_DFLT :: int where "SENDME_INC_DFLT = TLS_RECORD_MAX_CELLS"
definition CIRCWINDOW_INIT :: int where "CIRCWINDOW_INIT = 4 * SENDME_INC_DFLT"
definition CC_ALG_SENDME :: int where "CC_ALG_SENDME = 0"
definition CC_ALG_VEGAS :: int where "CC_ALG_VEGAS = 2"
definition CC_ALG_DFLT :: int where "CC_ALG_DFLT = CC_ALG_VEGAS"
definition CC_ALG_DFLT_ALWAYS :: int where "CC_ALG_DFLT_ALWAYS = CC_ALG_VEGAS"
definition NUM_CC_ALGS :: int where "NUM_CC_ALGS = 4"
definition CWND_INC_DFLT :: int where "CWND_INC_DFLT = 1"
definition CWND_INC_PCT_SS_DFLT :: int where "CWND_INC_PCT_SS_DFLT = 100"
definition CWND_INC_RATE_DFLT :: int where "CWND_INC_RATE_DFLT = SENDME_INC_DFLT"
definition CWND_MIN_DFLT :: int where "CWND_MIN_DFLT = CIRCWINDOW_INIT"
definition CWND_MAX_DFLT :: int where "CWND_MAX_DFLT = INT32_MAX"
definition OUTBUF_CELLS :: int where "OUTBUF_CELLS = 2 * TLS_RECORD_MAX_CELLS"
definition DELTA_DISCREPENCY_RATIO_MAX :: int where "DELTA_DISCREPENCY_RATIO_MAX = 5000"

section \<open>Consensus values\<close>

definition congestion_control_new_consensus_params :: "networkstatus option \<Rightarrow> networkstatus option \<Rightarrow> cc_globals \<Rightarrow> cc_globals option" where
  "congestion_control_new_consensus_params latest ns g = do {
     qh \<leftarrow> networkstatus_get_param latest ns ''cellq_high'' 256 1 1000;
     ql \<leftarrow> networkstatus_get_param latest ns ''cellq_low'' 10 1 1000;
     oh \<leftarrow> networkstatus_get_param latest ns ''orconn_high'' (32 * 1024) 509 INT32_MAX;
     ol \<leftarrow> networkstatus_get_param latest ns ''orconn_low'' (16 * 1024) 509 INT32_MAX;
     cm \<leftarrow> networkstatus_get_param latest None ''cc_cwnd_max'' CWND_MAX_DFLT 500 INT32_MAX;
     rp \<leftarrow> networkstatus_get_param latest None ''cc_rtt_reset_pct'' 100 0 100;
     si \<leftarrow> networkstatus_get_param latest None ''cc_sendme_inc'' SENDME_INC_DFLT 1 254;
     ca \<leftarrow> networkstatus_get_param latest None ''cc_alg'' CC_ALG_DFLT 2 (NUM_CC_ALGS - 1);
     bm \<leftarrow> networkstatus_get_param latest None ''cc_bwe_min'' 5 2 20;
     np \<leftarrow> networkstatus_get_param latest None ''cc_ewma_cwnd_pct'' 50 1 255;
     nm \<leftarrow> networkstatus_get_param latest None ''cc_ewma_max'' 10 2 INT32_MAX;
     nss \<leftarrow> networkstatus_get_param latest None ''cc_ewma_ss'' 2 2 INT32_MAX;
     Some (g\<lparr>cell_queue_high := qh, cell_queue_low := ql, or_conn_highwater := oh, or_conn_lowwater := ol,
             cwnd_max := cm, rtt_reset_pct := u8 rp, cc_sendme_inc := u8 si,
             cc_alg := (if ca \<noteq> CC_ALG_SENDME \<and> ca \<noteq> CC_ALG_VEGAS then CC_ALG_DFLT else ca),
             bwe_sendme_min := u8 bm, n_ewma_cwnd_pct := u8 np, n_ewma_max := u8 nm, n_ewma_ss := u8 nss\<rparr>)
   }"

datatype cc_path = CC_PATH_EXIT | CC_PATH_ONION | CC_PATH_ONION_SOS | CC_PATH_ONION_VG | CC_PATH_SBWS

text \<open>Names and defaults by kind of path: alpha, beta, gamma, delta and the slow-start cap.\<close>

fun vegas_path_params :: "cc_path \<Rightarrow> string \<times> int \<times> int \<times> int \<times> int \<times> int" where
  "vegas_path_params CC_PATH_SBWS =
    (''sbws'', 2 * OUTBUF_CELLS - TLS_RECORD_MAX_CELLS, 2 * OUTBUF_CELLS + TLS_RECORD_MAX_CELLS, 2 * OUTBUF_CELLS, 4 * OUTBUF_CELLS, 400)"
| "vegas_path_params CC_PATH_EXIT = (''exit'', 3 * OUTBUF_CELLS, 4 * OUTBUF_CELLS, 3 * OUTBUF_CELLS, 5 * OUTBUF_CELLS, 600)"
| "vegas_path_params CC_PATH_ONION_SOS = (''exit'', 3 * OUTBUF_CELLS, 4 * OUTBUF_CELLS, 3 * OUTBUF_CELLS, 5 * OUTBUF_CELLS, 600)"
| "vegas_path_params CC_PATH_ONION = (''onion'', 3 * OUTBUF_CELLS, 6 * OUTBUF_CELLS, 4 * OUTBUF_CELLS, 7 * OUTBUF_CELLS, 475)"
| "vegas_path_params CC_PATH_ONION_VG = (''onion'', 3 * OUTBUF_CELLS, 6 * OUTBUF_CELLS, 4 * OUTBUF_CELLS, 7 * OUTBUF_CELLS, 475)"

definition congestion_control_vegas_set_params :: "networkstatus option \<Rightarrow> cc_path \<Rightarrow> cc_globals \<times> congestion_control
    \<Rightarrow> (cc_globals \<times> congestion_control) option" where
  "congestion_control_vegas_set_params latest path s = (case s of (g, cc) \<Rightarrow> do {
     let (sfx, a, b, c, d, cap) = vegas_path_params path;
     vcap \<leftarrow> networkstatus_get_param latest None (''cc_sscap_'' @ sfx) cap 100 INT32_MAX;
     vmax \<leftarrow> networkstatus_get_param latest None ''cc_ss_max'' 5000 500 INT32_MAX;
     va \<leftarrow> networkstatus_get_param latest None (''cc_vegas_alpha_'' @ sfx) a 0 1000;
     vb \<leftarrow> networkstatus_get_param latest None (''cc_vegas_beta_'' @ sfx) b 0 1000;
     vg \<leftarrow> networkstatus_get_param latest None (''cc_vegas_gamma_'' @ sfx) c 0 1000;
     vd \<leftarrow> networkstatus_get_param latest None (''cc_vegas_delta_'' @ sfx) d 0 INT32_MAX;
     mp \<leftarrow> networkstatus_get_param latest None ''cc_cwnd_full_minpct'' 25 0 100;
     gap \<leftarrow> networkstatus_get_param latest None ''cc_cwnd_full_gap'' 4 0 32767;
     per \<leftarrow> networkstatus_get_param latest None ''cc_cwnd_full_per_cwnd'' 1 0 1;
     Some (g\<lparr>cc_vegas_cwnd_full_minpct := mp, cc_vegas_cwnd_full_gap := gap, cc_cwnd_full_per_cwnd := per\<rparr>,
           cc\<lparr>cc_vegas := \<lparr>ss_cwnd_cap = vcap, ss_cwnd_max = vmax, vegas_gamma = u16 vg, vegas_alpha = u16 va,
              vegas_beta = u16 vb, vegas_delta = u16 vd\<rparr>\<rparr>)
   })"

section \<open>Helpers of the headers\<close>

definition CWND_UPDATE_RATE :: "congestion_control \<Rightarrow> int" where
  "CWND_UPDATE_RATE cc =
    (if in_slow_start cc then 1
     else u64 (cc_cwnd cc + cwnd_inc_rate cc * sendme_inc cc div 2) div (cwnd_inc_rate cc * sendme_inc cc))"

definition SENDME_PER_CWND :: "congestion_control \<Rightarrow> int" where
  "SENDME_PER_CWND cc = u64 (cc_cwnd cc + sendme_inc cc div 2) div sendme_inc cc"

definition CWND_INC :: "congestion_control \<Rightarrow> int" where "CWND_INC cc = cwnd_inc cc"

definition n_count_ewma :: "int \<Rightarrow> int \<Rightarrow> int \<Rightarrow> int" where
  "n_count_ewma cur prev n = (if prev = 0 then cur else u64 (2 * cur + (n - 1) * prev) div (n + 1))"

definition percent_max_mix :: "int \<Rightarrow> int \<Rightarrow> int \<Rightarrow> int" where
  "percent_max_mix a b pct_max =
    (let mx = max a b; mn = min a b
     in if pct_max > 100 then mx
        else u64 (u64 (pct_max * mx) div 100 + u64 ((100 - pct_max) * mn) div 100))"

definition congestion_control_validate_sendme_increment :: "cc_globals \<Rightarrow> int \<Rightarrow> bool" where
  "congestion_control_validate_sendme_increment g inc \<longleftrightarrow>
    inc \<noteq> 0 \<and> \<not> (inc > cc_sendme_inc g + 1 \<or> inc < cc_sendme_inc g - 1)"

definition congestion_control_enabled :: "bool \<Rightarrow> cc_globals \<Rightarrow> bool" where
  "congestion_control_enabled always g \<longleftrightarrow> always \<or> cc_alg g \<noteq> CC_ALG_SENDME"

section \<open>A new object\<close>

text \<open>\<open>always\<close> is the option to use congestion control always.\<close>

definition congestion_control_init_params :: "networkstatus option \<Rightarrow> bool \<Rightarrow> int \<Rightarrow> cc_path \<Rightarrow> cc_globals \<times> congestion_control
    \<Rightarrow> (cc_globals \<times> congestion_control) option" where
  "congestion_control_init_params latest always sendme_inc_cells path s = (case s of (g, cc) \<Rightarrow> do {
     ci \<leftarrow> networkstatus_get_param latest None ''cc_cwnd_init'' CIRCWINDOW_INIT SENDME_INC_DFLT 10000;
     cp \<leftarrow> networkstatus_get_param latest None ''cc_cwnd_inc_pct_ss'' CWND_INC_PCT_SS_DFLT 1 500;
     cn \<leftarrow> networkstatus_get_param latest None ''cc_cwnd_inc'' CWND_INC_DFLT 1 1000;
     cr \<leftarrow> networkstatus_get_param latest None ''cc_cwnd_inc_rate'' CWND_INC_RATE_DFLT 1 250;
     cm \<leftarrow> networkstatus_get_param latest None ''cc_cwnd_min'' CWND_MIN_DFLT SENDME_INC_DFLT 1000;
     let alg = (if cc_alg g = CC_ALG_SENDME \<and> always then CC_ALG_DFLT_ALWAYS else cc_alg g);
     let cc = cc\<lparr>sendme_inc := u8 sendme_inc_cells, cc_cwnd := ci, cwnd_inc_pct_ss := u16 cp, cwnd_inc := u16 cn,
              cwnd_inc_rate := u8 cr, cwnd_min := u16 cm, cc_alg_used := alg\<rparr>;
     if alg = CC_ALG_VEGAS then congestion_control_vegas_set_params latest path (g, cc)
     else Some (g, cc)
   })"

definition zeroed_cc :: congestion_control where
  "zeroed_cc = \<lparr>sendme_pending_timestamps = [], ewma_rtt_usec = 0, min_rtt_usec = 0, max_rtt_usec = 0, cc_bdp = 0,
     cc_cwnd = 0, cc_inflight = 0, next_cc_event = 0, next_cwnd_event = 0, in_slow_start = False, cwnd_full = False,
     blocked_chan = False, cwnd_inc_pct_ss = 0, cwnd_inc = 0, cwnd_min = 0, cwnd_inc_rate = 0, sendme_inc = 0, cc_alg_used = 0,
     cc_vegas = \<lparr>ss_cwnd_cap = 0, ss_cwnd_max = 0, vegas_gamma = 0, vegas_alpha = 0, vegas_beta = 0, vegas_delta = 0\<rparr>\<rparr>"

definition congestion_control_new :: "networkstatus option \<Rightarrow> bool \<Rightarrow> int \<Rightarrow> cc_path \<Rightarrow> cc_globals
    \<Rightarrow> (cc_globals \<times> congestion_control) option" where
  "congestion_control_new latest always sendme_inc_cells path g = do {
     (g, cc) \<leftarrow> congestion_control_init_params latest always sendme_inc_cells path (g, zeroed_cc\<lparr>in_slow_start := True\<rparr>);
     Some (g, cc\<lparr>next_cc_event := u16 (CWND_UPDATE_RATE cc)\<rparr>)
   }"

section \<open>Sending\<close>

definition congestion_control_package_window :: "congestion_control \<Rightarrow> int" where
  "congestion_control_package_window cc =
    (if cc_inflight cc > cc_cwnd cc then 0
     else if cc_cwnd cc - cc_inflight cc > INT32_MAX then INT32_MAX
     else cc_cwnd cc - cc_inflight cc)"

text \<open>The part of \<^verbatim>\<open>circuit_sent_cell_for_sendme\<close> for a circuit with congestion control.\<close>

definition cc_sent_cell_for_sendme :: "congestion_control \<Rightarrow> bool" where
  "cc_sent_cell_for_sendme cc \<longleftrightarrow> cc_inflight cc \<noteq> 0 \<and> u64 (cc_inflight cc + 1) mod sendme_inc cc = 0"

definition congestion_control_note_cell_sent :: "int \<Rightarrow> congestion_control \<Rightarrow> congestion_control" where
  "congestion_control_note_cell_sent now_usec cc =
    (if \<not> cc_sent_cell_for_sendme cc then cc\<lparr>cc_inflight := u64 (cc_inflight cc + 1)\<rparr>
     else cc\<lparr>cc_inflight := u64 (cc_inflight cc + 1),
             sendme_pending_timestamps := sendme_pending_timestamps cc @ [now_usec]\<rparr>)"

section \<open>Estimates\<close>

definition dequeue_timestamp :: "int list \<Rightarrow> int \<times> int list" where
  "dequeue_timestamp ts = (case ts of [] \<Rightarrow> (0, []) | t # ts \<Rightarrow> (t, ts))"

definition n_ewma_count :: "cc_globals \<Rightarrow> congestion_control \<Rightarrow> int" where
  "n_ewma_count g cc =
    (let ewma_cnt = (if in_slow_start cc then n_ewma_ss g
                     else min (u64 (CWND_UPDATE_RATE cc * n_ewma_cwnd_pct g) div 100) (n_ewma_max g))
     in max ewma_cnt 2)"

definition time_delta_should_use_heuristics :: "congestion_control \<Rightarrow> bool" where
  "time_delta_should_use_heuristics cc \<longleftrightarrow> \<not> in_slow_start cc \<and> ewma_rtt_usec cc \<noteq> 0"

definition time_delta_stalled_or_jumped :: "cc_globals \<Rightarrow> congestion_control \<Rightarrow> int \<Rightarrow> int \<Rightarrow> bool \<times> cc_globals" where
  "time_delta_stalled_or_jumped g cc old_delta new_delta =
    (if new_delta = 0 then (True, g\<lparr>is_monotime_clock_broken := True\<rparr>)
     else if \<not> time_delta_should_use_heuristics cc then (False, g)
     else if old_delta > u64 (new_delta * DELTA_DISCREPENCY_RATIO_MAX) then (is_monotime_clock_broken g, g)
     else if new_delta > u64 (old_delta * DELTA_DISCREPENCY_RATIO_MAX) then (True, g)
     else (False, g\<lparr>is_monotime_clock_broken := False\<rparr>))"

definition congestion_control_update_circuit_rtt :: "int \<Rightarrow> cc_globals \<times> congestion_control
    \<Rightarrow> int \<times> cc_globals \<times> congestion_control" where
  "congestion_control_update_circuit_rtt now_usec s = (case s of (g, cc) \<Rightarrow>
    (let (sent_at_timestamp, ts) = dequeue_timestamp (sendme_pending_timestamps cc);
         cc = cc\<lparr>sendme_pending_timestamps := ts\<rparr>;
         rtt = u64 (now_usec - sent_at_timestamp);
         (fishy, g) = time_delta_stalled_or_jumped g cc (ewma_rtt_usec cc) rtt
     in if fishy then (0, g\<lparr>num_clock_stalls := num_clock_stalls g + 1\<rparr>, cc)
        else
          let cc = cc\<lparr>ewma_rtt_usec := n_count_ewma rtt (ewma_rtt_usec cc) (n_ewma_count g cc)\<rparr>;
              cc = (if rtt > max_rtt_usec cc then cc\<lparr>max_rtt_usec := rtt\<rparr> else cc)
          in if min_rtt_usec cc = 0 then (rtt, g, cc\<lparr>min_rtt_usec := ewma_rtt_usec cc\<rparr>)
             else if cc_cwnd cc = cwnd_min cc \<and> \<not> in_slow_start cc then
               (rtt, g\<lparr>num_rtt_reset := num_rtt_reset g + 1\<rparr>,
                cc\<lparr>min_rtt_usec := percent_max_mix (ewma_rtt_usec cc) (min_rtt_usec cc) (rtt_reset_pct g)\<rparr>)
             else if ewma_rtt_usec cc < min_rtt_usec cc then (rtt, g, cc\<lparr>min_rtt_usec := ewma_rtt_usec cc\<rparr>)
             else (rtt, g, cc)))"

definition congestion_control_update_circuit_bdp :: "int \<Rightarrow> bool \<Rightarrow> int \<Rightarrow> congestion_control \<Rightarrow> bool \<times> congestion_control" where
  "congestion_control_update_circuit_bdp chan_q blocked_on_chan curr_rtt_usec cc =
    (if ewma_rtt_usec cc = 0 then
       let w = cc_cwnd cc;
           w = (if blocked_on_chan then (if chan_q \<ge> i64 w then cwnd_min cc else max (u64 (w - chan_q)) (cwnd_min cc)) else w)
       in (blocked_on_chan, cc\<lparr>blocked_chan := blocked_on_chan, cc_bdp := w\<rparr>)
     else
       let cc = cc\<lparr>cc_bdp := u64 (cc_cwnd cc * min_rtt_usec cc) div ewma_rtt_usec cc\<rparr>;
           cc = (if blocked_on_chan then
                   (if \<not> blocked_chan cc then cc\<lparr>next_cc_event := 0, blocked_chan := True\<rparr> else cc)
                 else (if blocked_chan cc then cc\<lparr>blocked_chan := False, next_cc_event := 0\<rparr> else cc))
       in (blocked_on_chan \<or> curr_rtt_usec \<noteq> 0, cc))"

definition congestion_control_update_circuit_estimates :: "int \<Rightarrow> int \<Rightarrow> bool \<Rightarrow> cc_globals \<times> congestion_control
    \<Rightarrow> bool \<times> cc_globals \<times> congestion_control" where
  "congestion_control_update_circuit_estimates now_usec chan_q blocked_on_chan s =
    (let (curr_rtt_usec, g, cc) = congestion_control_update_circuit_rtt now_usec s;
         (upd, cc) = congestion_control_update_circuit_bdp chan_q blocked_on_chan curr_rtt_usec cc
     in (upd, g, cc))"

section \<open>Vegas\<close>

definition rfc3742_ss_inc :: "congestion_control \<Rightarrow> int" where
  "rfc3742_ss_inc cc =
    (if cc_cwnd cc \<le> ss_cwnd_cap (cc_vegas cc) then (cwnd_inc_pct_ss cc * sendme_inc cc + 50) div 100
     else max (u64 (sendme_inc cc * ss_cwnd_cap (cc_vegas cc) + cc_cwnd cc) div u64 (2 * cc_cwnd cc)) 1)"

definition cwnd_became_full :: "cc_globals \<Rightarrow> congestion_control \<Rightarrow> bool" where
  "cwnd_became_full g cc \<longleftrightarrow> u64 (cc_inflight cc + cc_vegas_cwnd_full_gap g * sendme_inc cc) \<ge> cc_cwnd cc"

definition cwnd_became_nonfull :: "cc_globals \<Rightarrow> congestion_control \<Rightarrow> bool" where
  "cwnd_became_nonfull g cc \<longleftrightarrow> u64 (100 * cc_inflight cc) < u64 (cc_vegas_cwnd_full_minpct g * cc_cwnd cc)"

definition cwnd_full_reset :: "cc_globals \<Rightarrow> congestion_control \<Rightarrow> bool" where
  "cwnd_full_reset g cc \<longleftrightarrow>
    (if cc_cwnd_full_per_cwnd g \<noteq> 0 then next_cwnd_event cc = SENDME_PER_CWND cc
     else next_cc_event cc = CWND_UPDATE_RATE cc)"

definition vegas_slow_start :: "congestion_control \<Rightarrow> int \<Rightarrow> congestion_control" where
  "vegas_slow_start cc queue_use =
    (let cc =
       (if queue_use < vegas_gamma (cc_vegas cc) \<and> \<not> blocked_chan cc then
          (if cwnd_full cc then
             let inc = rfc3742_ss_inc cc;
                 cc = cc\<lparr>cc_cwnd := u64 (cc_cwnd cc + inc)\<rparr>
             in if u64 (inc * SENDME_PER_CWND cc) \<le> CWND_INC cc * cwnd_inc_rate cc then cc\<lparr>in_slow_start := False\<rparr> else cc
           else cc)
        else cc\<lparr>cc_cwnd := u64 (cc_bdp cc + vegas_gamma (cc_vegas cc)), in_slow_start := False\<rparr>)
     in if cc_cwnd cc \<ge> ss_cwnd_max (cc_vegas cc)
        then cc\<lparr>cc_cwnd := ss_cwnd_max (cc_vegas cc), in_slow_start := False\<rparr> else cc)"

definition vegas_steady_state :: "congestion_control \<Rightarrow> int \<Rightarrow> congestion_control" where
  "vegas_steady_state cc queue_use =
    (let cc =
       (if queue_use > vegas_delta (cc_vegas cc)
        then cc\<lparr>cc_cwnd := u64 (cc_bdp cc + vegas_delta (cc_vegas cc) - CWND_INC cc)\<rparr>
        else if queue_use > vegas_beta (cc_vegas cc) \<or> blocked_chan cc then cc\<lparr>cc_cwnd := u64 (cc_cwnd cc - CWND_INC cc)\<rparr>
        else if cwnd_full cc \<and> queue_use < vegas_alpha (cc_vegas cc) then cc\<lparr>cc_cwnd := u64 (cc_cwnd cc + CWND_INC cc)\<rparr>
        else cc)
     in cc\<lparr>cc_cwnd := max (cc_cwnd cc) (cwnd_min cc)\<rparr>)"

text \<open>The steps of the handler of a SENDME, in the order it takes them.\<close>

definition vegas_count_event :: "congestion_control \<Rightarrow> congestion_control" where
  "vegas_count_event cc = cc\<lparr>next_cc_event := (if next_cc_event cc \<noteq> 0 then next_cc_event cc - 1 else 0),
     next_cwnd_event := (if next_cwnd_event cc \<noteq> 0 then next_cwnd_event cc - 1 else 0)\<rparr>"

definition vegas_queue_use :: "congestion_control \<Rightarrow> int" where
  "vegas_queue_use cc = (if cc_bdp cc > cc_cwnd cc then 0 else cc_cwnd cc - cc_bdp cc)"

definition vegas_update_full :: "cc_globals \<Rightarrow> congestion_control \<Rightarrow> congestion_control" where
  "vegas_update_full g cc = (if cwnd_became_full g cc then cc\<lparr>cwnd_full := True\<rparr>
     else if cwnd_became_nonfull g cc then cc\<lparr>cwnd_full := False\<rparr> else cc)"

definition vegas_update_cwnd :: "congestion_control \<Rightarrow> int \<Rightarrow> congestion_control" where
  "vegas_update_cwnd cc queue_use = (if in_slow_start cc then vegas_slow_start cc queue_use
     else if next_cc_event cc = 0 then vegas_steady_state cc queue_use else cc)"

definition vegas_reset_cwnd_event :: "congestion_control \<Rightarrow> congestion_control" where
  "vegas_reset_cwnd_event cc = (if next_cwnd_event cc = 0 then cc\<lparr>next_cwnd_event := u16 (SENDME_PER_CWND cc)\<rparr> else cc)"

definition vegas_reset_cc_event :: "congestion_control \<Rightarrow> congestion_control" where
  "vegas_reset_cc_event cc = (if next_cc_event cc = 0 then cc\<lparr>next_cc_event := u16 (CWND_UPDATE_RATE cc)\<rparr> else cc)"

definition vegas_reset_full :: "cc_globals \<Rightarrow> congestion_control \<Rightarrow> congestion_control" where
  "vegas_reset_full g cc = (if cwnd_full_reset g cc then cc\<lparr>cwnd_full := False\<rparr> else cc)"

definition vegas_ack :: "congestion_control \<Rightarrow> congestion_control" where
  "vegas_ack cc = cc\<lparr>cc_inflight := u64 (cc_inflight cc - sendme_inc cc)\<rparr>"

fun vegas_respond :: "bool \<times> cc_globals \<times> congestion_control \<Rightarrow> cc_globals \<times> congestion_control" where
  "vegas_respond (upd, g, cc) =
    (if \<not> upd then (g, vegas_ack cc)
     else (g, vegas_ack (vegas_reset_full g (vegas_reset_cc_event (vegas_reset_cwnd_event
            (vegas_update_cwnd (vegas_update_full g cc) (vegas_queue_use cc)))))))"

definition congestion_control_vegas_process_sendme :: "int \<Rightarrow> int \<Rightarrow> bool \<Rightarrow> cc_globals \<times> congestion_control
    \<Rightarrow> cc_globals \<times> congestion_control" where
  "congestion_control_vegas_process_sendme now_usec chan_q blocked_on_chan s =
    vegas_respond (congestion_control_update_circuit_estimates now_usec chan_q blocked_on_chan (fst s, vegas_count_event (snd s)))"

text \<open>The round-trip time to hand to the conflux set, if there is one, comes with the result. An algorithm
  other than Vegas is a failed assertion of the callee.\<close>

definition congestion_control_dispatch_cc_alg :: "int \<Rightarrow> int \<Rightarrow> bool \<Rightarrow> cc_globals \<times> congestion_control
    \<Rightarrow> (int option \<times> cc_globals \<times> congestion_control) option" where
  "congestion_control_dispatch_cc_alg now_usec chan_q blocked_on_chan s =
    (if cc_alg_used (snd s) \<noteq> CC_ALG_VEGAS then None
     else
       let (g, cc) = congestion_control_vegas_process_sendme now_usec chan_q blocked_on_chan s;
           cc = (if cc_cwnd cc > cwnd_max g then cc\<lparr>cc_cwnd := cwnd_max g\<rparr> else cc)
       in Some (if ewma_rtt_usec cc \<noteq> 0 then Some (ewma_rtt_usec cc) else None, g, cc))"

end
