(* ===== verification/CongestionWindow.thy ===== *)
theory CongestionWindow
  imports CongestionControl
begin

text \<open>
  The bounds congestion control keeps: over any run of a circuit, with consensus values in their ranges
  and an increment no larger than the minimum window and the delta threshold, the window stays between
  a floor and the maximum; with an increment above the window a congestion signal makes it jump to the maximum.
\<close>

section \<open>Values in their ranges\<close>

definition RTT_LIMIT :: int where "RTT_LIMIT = 4294967296"

definition globals_ok :: "cc_globals \<Rightarrow> bool" where
  "globals_ok g \<longleftrightarrow> 500 \<le> cwnd_max g \<and> cwnd_max g \<le> INT32_MAX \<and> 0 \<le> rtt_reset_pct g \<and> rtt_reset_pct g \<le> 100
    \<and> 0 \<le> n_ewma_max g \<and> n_ewma_max g \<le> 255 \<and> 0 \<le> n_ewma_ss g \<and> n_ewma_ss g \<le> 255"

definition params_ok :: "congestion_control \<Rightarrow> bool" where
  "params_ok cc \<longleftrightarrow> cc_alg_used cc = CC_ALG_VEGAS \<and> 1 \<le> sendme_inc cc \<and> sendme_inc cc \<le> 254
    \<and> 1 \<le> cwnd_inc_pct_ss cc \<and> cwnd_inc_pct_ss cc \<le> 500 \<and> 1 \<le> cwnd_inc cc \<and> cwnd_inc cc \<le> 1000
    \<and> 31 \<le> cwnd_min cc \<and> cwnd_min cc \<le> 1000 \<and> 0 \<le> vegas_gamma (cc_vegas cc) \<and> vegas_gamma (cc_vegas cc) \<le> 1000
    \<and> 0 \<le> vegas_delta (cc_vegas cc) \<and> vegas_delta (cc_vegas cc) \<le> 65535
    \<and> 100 \<le> ss_cwnd_cap (cc_vegas cc) \<and> ss_cwnd_cap (cc_vegas cc) \<le> INT32_MAX
    \<and> 500 \<le> ss_cwnd_max (cc_vegas cc) \<and> ss_cwnd_max (cc_vegas cc) \<le> INT32_MAX"

text \<open>The floor for a circuit that starts with the window \<open>init\<close>.\<close>

definition cwnd_floor :: "int \<Rightarrow> congestion_control \<Rightarrow> int" where
  "cwnd_floor init cc = min (min init (vegas_gamma (cc_vegas cc))) (min (cwnd_min cc) 500)"

definition small_increment :: "int \<Rightarrow> congestion_control \<Rightarrow> bool" where
  "small_increment init cc \<longleftrightarrow> cwnd_inc cc \<le> cwnd_floor init cc \<and> cwnd_inc cc \<le> vegas_delta (cc_vegas cc)"

definition same_params :: "congestion_control \<Rightarrow> congestion_control \<Rightarrow> bool" where
  "same_params a b \<longleftrightarrow> cc_alg_used a = cc_alg_used b \<and> sendme_inc a = sendme_inc b \<and> cwnd_inc_pct_ss a = cwnd_inc_pct_ss b
    \<and> cwnd_inc a = cwnd_inc b \<and> cwnd_min a = cwnd_min b \<and> cwnd_inc_rate a = cwnd_inc_rate b \<and> cc_vegas a = cc_vegas b"

definition same_globals :: "cc_globals \<Rightarrow> cc_globals \<Rightarrow> bool" where
  "same_globals a b \<longleftrightarrow> cwnd_max a = cwnd_max b \<and> rtt_reset_pct a = rtt_reset_pct b \<and> n_ewma_max a = n_ewma_max b
    \<and> n_ewma_ss a = n_ewma_ss b"

definition rtts_ok :: "congestion_control \<Rightarrow> bool" where
  "rtts_ok cc \<longleftrightarrow> 0 \<le> ewma_rtt_usec cc \<and> ewma_rtt_usec cc < RTT_LIMIT \<and> 0 \<le> min_rtt_usec cc \<and> min_rtt_usec cc < RTT_LIMIT"

section \<open>Averages stay in range\<close>

lemma n_ewma_count_bounds: "globals_ok g \<Longrightarrow> 2 \<le> n_ewma_count g cc \<and> n_ewma_count g cc \<le> 255"
  by (auto simp: n_ewma_count_def globals_ok_def Let_def)

lemma ewma_bound:
  fixes n cur prev lim :: int
  assumes "2 \<le> n" "n \<le> 255" "0 \<le> cur" "cur < lim" "0 \<le> prev" "prev < lim" "lim \<le> RTT_LIMIT"
  shows "0 \<le> n_count_ewma cur prev n \<and> n_count_ewma cur prev n < lim"
proof -
  have a: "(n - 1) * prev \<le> (n - 1) * (lim - 1)" using assms by (intro mult_left_mono) auto
  have nn: "0 \<le> (n - 1) * prev" using assms by simp
  have le: "2 * cur + (n - 1) * prev \<le> (n + 1) * (lim - 1)"
    using a assms(4) by (simp add: algebra_simps)
  also have "\<dots> \<le> 256 * (RTT_LIMIT - 1)" using assms by (intro mult_mono) (auto simp: RTT_LIMIT_def)
  finally have "u64 (2 * cur + (n - 1) * prev) = 2 * cur + (n - 1) * prev"
    using nn assms(3) by (intro u64_id) (auto simp: RTT_LIMIT_def)
  moreover have "(2 * cur + (n - 1) * prev) div (n + 1) \<le> lim - 1"
  proof -
    have "(2 * cur + (n - 1) * prev) div (n + 1) \<le> ((n + 1) * (lim - 1)) div (n + 1)"
      using le assms(1) by (intro zdiv_mono1) auto
    also have "\<dots> = lim - 1" using assms(1) by simp
    finally show ?thesis .
  qed
  moreover have "0 \<le> (2 * cur + (n - 1) * prev) div (n + 1)"
    using nn assms by (intro pos_imp_zdiv_nonneg_iff [THEN iffD2]) auto
  ultimately show ?thesis using assms by (simp add: n_count_ewma_def)
qed

lemma percent_max_mix_bound:
  assumes "0 \<le> a" "a < lim" "0 \<le> b" "b < lim" "0 \<le> p" "p \<le> 100" "lim \<le> RTT_LIMIT"
  shows "0 \<le> percent_max_mix a b p \<and> percent_max_mix a b p < lim"
proof -
  define mx mn where m: "mx = max a b" "mn = min a b"
  have x: "0 \<le> mn" "mn \<le> mx" "mx < lim" using assms by (auto simp: m)
  have pm: "p * mx \<le> 100 * mx" "(100 - p) * mn \<le> 100 * mn" "0 \<le> p * mx" "0 \<le> (100 - p) * mn"
    using assms x by (auto intro!: mult_right_mono)
  then have u: "u64 (p * mx) = p * mx" "u64 ((100 - p) * mn) = (100 - p) * mn"
    using x assms(7) by (auto intro!: u64_id simp: RTT_LIMIT_def)
  have "(100 - p) * mn \<le> (100 - p) * mx" using x assms by (intro mult_left_mono) auto
  then have "p * mx + (100 - p) * mn \<le> 100 * mx" by (simp add: algebra_simps)
  then have s: "p * mx div 100 + (100 - p) * mn div 100 \<le> mx" by linarith
  moreover have "0 \<le> p * mx div 100" "0 \<le> (100 - p) * mn div 100"
    by (intro pos_imp_zdiv_nonneg_iff [THEN iffD2] pm zero_less_numeral)+
  ultimately have s: "p * mx div 100 + (100 - p) * mn div 100 \<le> mx" "0 \<le> p * mx div 100 + (100 - p) * mn div 100"
    by simp_all
  have "mx \<le> UINT64_MAX" using x assms(7) by (simp add: RTT_LIMIT_def)
  then have "u64 (p * mx div 100 + (100 - p) * mn div 100) = p * mx div 100 + (100 - p) * mn div 100"
    using order.trans [OF s(1)] s(2) by (intro u64_id)
  then show ?thesis using u s x assms(6) by (simp add: percent_max_mix_def Let_def m [symmetric])
qed

lemma stalled_keeps: "time_delta_stalled_or_jumped g cc a b = (f, g') \<Longrightarrow> same_globals g' g"
  unfolding time_delta_stalled_or_jumped_def same_globals_def
  by (simp split: if_split_asm; clarsimp)

text \<open>What the estimates may change.\<close>

definition same_window :: "congestion_control \<Rightarrow> congestion_control \<Rightarrow> bool" where
  "same_window a b \<longleftrightarrow> same_params a b \<and> cc_cwnd a = cc_cwnd b \<and> cc_inflight a = cc_inflight b \<and> in_slow_start a = in_slow_start b"

lemma update_rtt_ok:
  assumes "globals_ok g" "rtts_ok cc" "0 \<le> rtt" "rtt < RTT_LIMIT"
    "rtt = u64 (now - fst (dequeue_timestamp (sendme_pending_timestamps cc)))"
    "congestion_control_update_circuit_rtt now (g, cc) = (r, g', cc')"
  shows "same_globals g' g" "same_window cc' cc" "rtts_ok cc'"
    "sendme_pending_timestamps cc' = snd (dequeue_timestamp (sendme_pending_timestamps cc))"
proof -
  obtain t ts where q: "dequeue_timestamp (sendme_pending_timestamps cc) = (t, ts)" by fastforce
  let ?cc = "cc\<lparr>sendme_pending_timestamps := ts\<rparr>"
  obtain f g1 where st: "time_delta_stalled_or_jumped g ?cc (ewma_rtt_usec cc) rtt = (f, g1)" by fastforce
  note sg = stalled_keeps [OF st]
  let ?e = "n_count_ewma rtt (ewma_rtt_usec cc) (n_ewma_count g1 ?cc)"
  have g1: "globals_ok g1" using sg assms(1) by (simp add: globals_ok_def same_globals_def)
  have e: "0 \<le> ?e \<and> ?e < RTT_LIMIT"
    using n_ewma_count_bounds [OF g1] assms(2,3,4) by (intro ewma_bound) (auto simp: rtts_ok_def)
  have mx: "0 \<le> percent_max_mix ?e (min_rtt_usec cc) (rtt_reset_pct g1)
    \<and> percent_max_mix ?e (min_rtt_usec cc) (rtt_reset_pct g1) < RTT_LIMIT"
    using e assms(2) g1 by (intro percent_max_mix_bound) (auto simp: rtts_ok_def globals_ok_def)
  let ?c1 = "?cc\<lparr>ewma_rtt_usec := ?e\<rparr>"
  define e where "e = ?e"
  define c2 where "c2 = (if rtt > max_rtt_usec ?c1 then ?c1\<lparr>max_rtt_usec := rtt\<rparr> else ?c1)"
  have keep: "same_window (c2\<lparr>min_rtt_usec := m\<rparr>) cc" "sendme_pending_timestamps (c2\<lparr>min_rtt_usec := m\<rparr>) = ts"
    "rtts_ok (c2\<lparr>min_rtt_usec := m\<rparr>) \<longleftrightarrow> 0 \<le> m \<and> m < RTT_LIMIT" for m
    using e by (simp_all add: c2_def same_window_def same_params_def rtts_ok_def)
  have c2: "ewma_rtt_usec c2 = e" "min_rtt_usec c2 = min_rtt_usec cc" by (simp_all add: c2_def e_def)
  note e = e [folded e_def] and mx = mx [folded e_def]
  have m: "0 \<le> min_rtt_usec cc \<and> min_rtt_usec cc < RTT_LIMIT" using assms(2) by (simp add: rtts_ok_def)
  have sg': "same_globals (g1\<lparr>num_rtt_reset := x\<rparr>) g" "same_globals (g1\<lparr>num_clock_stalls := x\<rparr>) g" for x
    using sg by (simp_all add: same_globals_def)
  have "same_globals g' g \<and> same_window cc' cc \<and> rtts_ok cc' \<and> sendme_pending_timestamps cc' = ts"
  proof (cases f)
    case True
    then have "g' = g1\<lparr>num_clock_stalls := num_clock_stalls g1 + 1\<rparr>" "cc' = ?cc"
      using assms(5,6) q st by (simp_all add: congestion_control_update_circuit_rtt_def)
    then show ?thesis using sg' assms(2) by (simp add: same_window_def same_params_def rtts_ok_def)
  next
    case False
    then have r: "congestion_control_update_circuit_rtt now (g, cc) =
        (if min_rtt_usec c2 = 0 then (rtt, g1, c2\<lparr>min_rtt_usec := ewma_rtt_usec c2\<rparr>)
         else if cc_cwnd c2 = cwnd_min c2 \<and> \<not> in_slow_start c2 then
           (rtt, g1\<lparr>num_rtt_reset := num_rtt_reset g1 + 1\<rparr>,
            c2\<lparr>min_rtt_usec := percent_max_mix (ewma_rtt_usec c2) (min_rtt_usec c2) (rtt_reset_pct g1)\<rparr>)
         else if ewma_rtt_usec c2 < min_rtt_usec c2 then (rtt, g1, c2\<lparr>min_rtt_usec := ewma_rtt_usec c2\<rparr>)
         else (rtt, g1, c2))"
      using assms(5) q st by (simp add: congestion_control_update_circuit_rtt_def Let_def c2_def)
    have c0: "c2 = c2\<lparr>min_rtt_usec := min_rtt_usec cc\<rparr>" by (simp add: c2_def)
    have "(g' = g1 \<or> g' = g1\<lparr>num_rtt_reset := num_rtt_reset g1 + 1\<rparr>) \<and> (\<exists>m. cc' = c2\<lparr>min_rtt_usec := m\<rparr> \<and> 0 \<le> m \<and> m < RTT_LIMIT)"
    proof (cases "min_rtt_usec cc = 0")
      case True
      then have "g' = g1" "cc' = c2\<lparr>min_rtt_usec := e\<rparr>" using assms(6) unfolding r c2 by simp_all
      then show ?thesis using e by blast
    next
      case nz: False
      show ?thesis
      proof (cases "cc_cwnd c2 = cwnd_min c2 \<and> \<not> in_slow_start c2")
        case True
        then have "g' = g1\<lparr>num_rtt_reset := num_rtt_reset g1 + 1\<rparr>"
          "cc' = c2\<lparr>min_rtt_usec := percent_max_mix e (min_rtt_usec cc) (rtt_reset_pct g1)\<rparr>"
          using assms(6) nz unfolding r c2 by simp_all
        then show ?thesis using mx by blast
      next
        case False
        then have "g' = g1" "cc' = c2\<lparr>min_rtt_usec := e\<rparr> \<or> cc' = c2"
          using assms(6) nz unfolding r c2 by (simp_all split: if_split_asm)
        then show ?thesis using e m c0 by metis
      qed
    qed
    then show ?thesis using keep sg sg' by auto
  qed
  then show "same_globals g' g" "same_window cc' cc" "rtts_ok cc'"
    "sendme_pending_timestamps cc' = snd (dequeue_timestamp (sendme_pending_timestamps cc))" using q by simp_all
qed

lemma update_bdp_ok:
  assumes "rtts_ok cc" "params_ok cc" "0 \<le> cc_cwnd cc" "cc_cwnd cc \<le> INT32_MAX" "0 \<le> chan_q" "chan_q \<le> INT32_MAX"
    "congestion_control_update_circuit_bdp chan_q b rtt cc = (u, cc')"
  shows "same_window cc' cc" "rtts_ok cc'" "0 \<le> cc_bdp cc'" "cc_bdp cc' \<le> 9223372036854775808"
    "sendme_pending_timestamps cc' = sendme_pending_timestamps cc"
proof -
  have "cc_cwnd cc * min_rtt_usec cc \<le> INT32_MAX * RTT_LIMIT"
    using assms(1,3,4) by (intro mult_mono) (auto simp: rtts_ok_def)
  moreover have nn: "0 \<le> cc_cwnd cc * min_rtt_usec cc" using assms(1,3) by (simp add: rtts_ok_def)
  ultimately have u: "u64 (cc_cwnd cc * min_rtt_usec cc) = cc_cwnd cc * min_rtt_usec cc"
    and lt: "cc_cwnd cc * min_rtt_usec cc \<le> 9223372036854775808"
    by (auto intro!: u64_id simp: RTT_LIMIT_def)
  have d: "0 \<le> cc_cwnd cc * min_rtt_usec cc div ewma_rtt_usec cc"
    "cc_cwnd cc * min_rtt_usec cc div ewma_rtt_usec cc \<le> 9223372036854775808" if "ewma_rtt_usec cc \<noteq> 0"
  proof -
    have p: "1 \<le> ewma_rtt_usec cc" using that assms(1) by (auto simp: rtts_ok_def)
    then show "0 \<le> cc_cwnd cc * min_rtt_usec cc div ewma_rtt_usec cc" using nn by (simp add: pos_imp_zdiv_nonneg_iff)
    have "cc_cwnd cc * min_rtt_usec cc div ewma_rtt_usec cc \<le> cc_cwnd cc * min_rtt_usec cc div 1"
      using nn p by (intro zdiv_mono2) auto
    then show "cc_cwnd cc * min_rtt_usec cc div ewma_rtt_usec cc \<le> 9223372036854775808" using lt by simp
  qed
  have i: "i64 (cc_cwnd cc) = cc_cwnd cc" using assms(3,4) by (intro i64_id) auto
  have w: "chan_q < cc_cwnd cc \<Longrightarrow> u64 (cc_cwnd cc - chan_q) = cc_cwnd cc - chan_q" using assms(3-5) by (intro u64_id) auto
  have "same_window cc' cc \<and> rtts_ok cc' \<and> 0 \<le> cc_bdp cc' \<and> cc_bdp cc' \<le> 9223372036854775808
      \<and> sendme_pending_timestamps cc' = sendme_pending_timestamps cc"
  proof (cases "ewma_rtt_usec cc = 0")
    case True
    then show ?thesis using assms(1-7) i w
      by (auto simp: congestion_control_update_circuit_bdp_def same_window_def same_params_def rtts_ok_def params_ok_def
        Let_def split: if_splits)
  next
    case False
    then show ?thesis using assms(1,7) u d [OF False]
      by (auto simp: congestion_control_update_circuit_bdp_def same_window_def same_params_def rtts_ok_def
        Let_def split: if_splits)
  qed
  then show "same_window cc' cc" "rtts_ok cc'" "0 \<le> cc_bdp cc'" "cc_bdp cc' \<le> 9223372036854775808"
    "sendme_pending_timestamps cc' = sendme_pending_timestamps cc" by simp_all
qed

section \<open>One step of the algorithm\<close>

lemma ss_inc_bounds:
  assumes "params_ok cc" "0 \<le> cc_cwnd cc" "cc_cwnd cc \<le> INT32_MAX"
  shows "0 \<le> rfc3742_ss_inc cc" "rfc3742_ss_inc cc \<le> 600000000000"
proof -
  have a: "cwnd_inc_pct_ss cc * sendme_inc cc \<le> 500 * 254" "0 \<le> cwnd_inc_pct_ss cc * sendme_inc cc"
    by (rule mult_mono) (use assms(1) in \<open>simp_all add: params_ok_def\<close>)
  have b: "sendme_inc cc * ss_cwnd_cap (cc_vegas cc) \<le> 254 * INT32_MAX" "0 \<le> sendme_inc cc * ss_cwnd_cap (cc_vegas cc)"
    by (rule mult_mono) (use assms(1) in \<open>simp_all add: params_ok_def\<close>)
  have u: "u64 (sendme_inc cc * ss_cwnd_cap (cc_vegas cc) + cc_cwnd cc) = sendme_inc cc * ss_cwnd_cap (cc_vegas cc) + cc_cwnd cc"
    "u64 (2 * cc_cwnd cc) = 2 * cc_cwnd cc"
    using b assms(2,3) by (auto intro!: u64_id)
  have "(sendme_inc cc * ss_cwnd_cap (cc_vegas cc) + cc_cwnd cc) div (2 * cc_cwnd cc)
      \<le> sendme_inc cc * ss_cwnd_cap (cc_vegas cc) + cc_cwnd cc" if "cc_cwnd cc > 0"
  proof -
    have "(sendme_inc cc * ss_cwnd_cap (cc_vegas cc) + cc_cwnd cc) div (2 * cc_cwnd cc)
        \<le> (sendme_inc cc * ss_cwnd_cap (cc_vegas cc) + cc_cwnd cc) div 1"
      using b that by (intro zdiv_mono2) auto
    then show ?thesis by simp
  qed
  moreover have "cc_cwnd cc > 0" if "\<not> cc_cwnd cc \<le> ss_cwnd_cap (cc_vegas cc)"
    using that assms(1) by (simp add: params_ok_def)
  ultimately show "0 \<le> rfc3742_ss_inc cc" "rfc3742_ss_inc cc \<le> 600000000000"
    using a b u assms(2,3) by (auto simp: rfc3742_ss_inc_def)
qed

lemma slow_start_ok:
  assumes "params_ok cc" "lo \<le> cc_cwnd cc" "cc_cwnd cc \<le> INT32_MAX" "0 \<le> cc_bdp cc" "cc_bdp cc \<le> 9223372036854775808"
    "0 \<le> lo" "lo \<le> vegas_gamma (cc_vegas cc)" "lo \<le> 500"
  shows "same_params (vegas_slow_start cc q) cc" "lo \<le> cc_cwnd (vegas_slow_start cc q)" "rtts_ok (vegas_slow_start cc q) = rtts_ok cc"
    "sendme_pending_timestamps (vegas_slow_start cc q) = sendme_pending_timestamps cc"
    "cc_inflight (vegas_slow_start cc q) = cc_inflight cc"
proof -
  have c: "0 \<le> cc_cwnd cc" using assms by simp
  note inc = ss_inc_bounds [OF assms(1) c assms(3)]
  have g: "0 \<le> vegas_gamma (cc_vegas cc)" "vegas_gamma (cc_vegas cc) \<le> 1000" "500 \<le> ss_cwnd_max (cc_vegas cc)"
    using assms(1) by (simp_all add: params_ok_def)
  have u: "u64 (cc_cwnd cc + rfc3742_ss_inc cc) = cc_cwnd cc + rfc3742_ss_inc cc"
    "u64 (cc_bdp cc + vegas_gamma (cc_vegas cc)) = cc_bdp cc + vegas_gamma (cc_vegas cc)"
    using inc c assms(3-5) g by (auto intro!: u64_id)
  show "same_params (vegas_slow_start cc q) cc" "lo \<le> cc_cwnd (vegas_slow_start cc q)" "rtts_ok (vegas_slow_start cc q) = rtts_ok cc"
    "sendme_pending_timestamps (vegas_slow_start cc q) = sendme_pending_timestamps cc"
    "cc_inflight (vegas_slow_start cc q) = cc_inflight cc"
    using assms u inc g by (auto simp: vegas_slow_start_def same_params_def rtts_ok_def Let_def)
qed

lemma steady_state_ok:
  shows "same_params (vegas_steady_state cc q) cc" "rtts_ok (vegas_steady_state cc q) = rtts_ok cc"
    "sendme_pending_timestamps (vegas_steady_state cc q) = sendme_pending_timestamps cc"
    "cc_inflight (vegas_steady_state cc q) = cc_inflight cc" "cwnd_min cc \<le> cc_cwnd (vegas_steady_state cc q)"
  by (auto simp: vegas_steady_state_def same_params_def rtts_ok_def Let_def)

lemma steady_state_change:
  assumes "params_ok cc" "cwnd_inc cc \<le> vegas_delta (cc_vegas cc)" "cwnd_inc cc \<le> cc_cwnd cc" "cc_cwnd cc \<le> INT32_MAX"
    "0 \<le> cc_bdp cc" "q = (if cc_bdp cc > cc_cwnd cc then 0 else cc_cwnd cc - cc_bdp cc)"
  shows "cc_cwnd (vegas_steady_state cc q) \<le> max (cc_cwnd cc + cwnd_inc cc) (cwnd_min cc)"
    "blocked_chan cc \<or> q > vegas_beta (cc_vegas cc) \<Longrightarrow> cc_cwnd (vegas_steady_state cc q) \<le> max (cc_cwnd cc) (cwnd_min cc)"
proof -
  have p: "1 \<le> cwnd_inc cc" "cwnd_inc cc \<le> 1000" "0 \<le> vegas_delta (cc_vegas cc)" "vegas_delta (cc_vegas cc) \<le> 65535"
    using assms(1) by (simp_all add: params_ok_def)
  have d: "cc_bdp cc + vegas_delta (cc_vegas cc) < cc_cwnd cc" if "q > vegas_delta (cc_vegas cc)"
    using that assms(6) p by (auto split: if_splits)
  have u: "u64 (cc_bdp cc + vegas_delta (cc_vegas cc) - cwnd_inc cc) = cc_bdp cc + vegas_delta (cc_vegas cc) - cwnd_inc cc"
    if "q > vegas_delta (cc_vegas cc)"
    using d [OF that] assms(2,4,5) p by (intro u64_id) auto
  have u': "u64 (cc_cwnd cc - cwnd_inc cc) = cc_cwnd cc - cwnd_inc cc" "u64 (cc_cwnd cc + cwnd_inc cc) = cc_cwnd cc + cwnd_inc cc"
    using assms(3,4) p by (auto intro!: u64_id)
  show "cc_cwnd (vegas_steady_state cc q) \<le> max (cc_cwnd cc + cwnd_inc cc) (cwnd_min cc)"
    "blocked_chan cc \<or> q > vegas_beta (cc_vegas cc) \<Longrightarrow> cc_cwnd (vegas_steady_state cc q) \<le> max (cc_cwnd cc) (cwnd_min cc)"
    using d u u' p by (auto simp: vegas_steady_state_def CWND_INC_def Let_def)
qed

section \<open>A SENDME\<close>

definition measured_rtt :: "int \<Rightarrow> congestion_control \<Rightarrow> int" where
  "measured_rtt now cc = u64 (now - fst (dequeue_timestamp (sendme_pending_timestamps cc)))"

definition cc_ok :: "int \<Rightarrow> int \<Rightarrow> congestion_control \<Rightarrow> bool" where
  "cc_ok lo hi cc \<longleftrightarrow> params_ok cc \<and> rtts_ok cc \<and> 0 \<le> lo \<and> lo \<le> vegas_gamma (cc_vegas cc) \<and> lo \<le> cwnd_min cc \<and> lo \<le> 500
    \<and> lo \<le> cc_cwnd cc \<and> cc_cwnd cc \<le> hi \<and> hi \<le> INT32_MAX"

lemma same_params_facts:
  assumes "same_params a b"
  shows "params_ok a = params_ok b" "cc_vegas a = cc_vegas b" "cwnd_min a = cwnd_min b" "cwnd_inc a = cwnd_inc b"
    "cc_alg_used a = cc_alg_used b" "sendme_inc a = sendme_inc b"
  using assms by (simp_all add: same_params_def params_ok_def)

lemma same_params_trans: "same_params a b \<Longrightarrow> same_params b c \<Longrightarrow> same_params a c"
  by (simp add: same_params_def)

text \<open>The end of the handler.\<close>

definition tail_of :: "cc_globals \<Rightarrow> congestion_control \<Rightarrow> congestion_control" where
  "tail_of g cc = vegas_ack (vegas_reset_full g (vegas_reset_cc_event (vegas_reset_cwnd_event cc)))"

lemma process_sendme_parts:
  "congestion_control_vegas_process_sendme now chan_q b (g, cc) =
    (let (rtt, g, cc) = congestion_control_update_circuit_rtt now (g, vegas_count_event cc);
         (upd, cc) = congestion_control_update_circuit_bdp chan_q b rtt cc
     in if \<not> upd then (g, vegas_ack cc)
        else (g, tail_of g (vegas_update_cwnd (vegas_update_full g cc) (vegas_queue_use cc))))"
  by (simp only: congestion_control_vegas_process_sendme_def congestion_control_update_circuit_estimates_def
    tail_of_def vegas_respond.simps Let_def case_prod_beta fst_conv snd_conv)

text \<open>None of these touches the window, the parameters or the averages.\<close>

lemma vegas_count_event_same: "same_window (vegas_count_event cc) cc" "rtts_ok (vegas_count_event cc) = rtts_ok cc"
  "sendme_pending_timestamps (vegas_count_event cc) = sendme_pending_timestamps cc"
  by (auto simp: vegas_count_event_def same_window_def same_params_def rtts_ok_def Let_def)

lemma vegas_update_full_same: "same_window (vegas_update_full g cc) cc" "rtts_ok (vegas_update_full g cc) = rtts_ok cc"
  "sendme_pending_timestamps (vegas_update_full g cc) = sendme_pending_timestamps cc" "blocked_chan (vegas_update_full g cc) = blocked_chan cc"
  "cc_bdp (vegas_update_full g cc) = cc_bdp cc"
  by (auto simp: vegas_update_full_def same_window_def same_params_def rtts_ok_def)

lemma vegas_ack_same: "same_params (vegas_ack cc) cc" "rtts_ok (vegas_ack cc) = rtts_ok cc" "cc_cwnd (vegas_ack cc) = cc_cwnd cc"
  "sendme_pending_timestamps (vegas_ack cc) = sendme_pending_timestamps cc" "cc_inflight (vegas_ack cc) = u64 (cc_inflight cc - sendme_inc cc)"
  by (auto simp: vegas_ack_def same_params_def rtts_ok_def)

lemma tail_same: "same_params (tail_of g cc) cc" "rtts_ok (tail_of g cc) = rtts_ok cc" "cc_cwnd (tail_of g cc) = cc_cwnd cc"
  "sendme_pending_timestamps (tail_of g cc) = sendme_pending_timestamps cc" "cc_inflight (tail_of g cc) = u64 (cc_inflight cc - sendme_inc cc)"
  by (auto simp: tail_of_def vegas_reset_full_def vegas_reset_cc_event_def vegas_reset_cwnd_event_def vegas_ack_def same_params_def rtts_ok_def Let_def)

lemma update_bdp_blocked: "congestion_control_update_circuit_bdp chan_q True rtt cc = (u, cc') \<Longrightarrow> u \<and> blocked_chan cc'"
  by (auto simp: congestion_control_update_circuit_bdp_def Let_def split: if_split_asm)

lemma same_window_trans: "same_window a b \<Longrightarrow> same_window b c \<Longrightarrow> same_window a c"
  by (simp add: same_window_def same_params_def)

lemma same_window_facts:
  assumes "same_window a b"
  shows "same_params a b" "cc_cwnd a = cc_cwnd b" "cc_inflight a = cc_inflight b" "in_slow_start a = in_slow_start b"
  using assms by (simp_all add: same_window_def)

lemma process_sendme_ok:
  assumes "globals_ok g" "cc_ok lo hi cc" "measured_rtt now cc < RTT_LIMIT" "0 \<le> chan_q" "chan_q \<le> INT32_MAX"
    "congestion_control_vegas_process_sendme now chan_q blocked (g, cc) = (g', cc')"
  shows "same_globals g' g" "same_params cc' cc" "rtts_ok cc'" "lo \<le> cc_cwnd cc'"
    "\<not> in_slow_start cc \<Longrightarrow> cwnd_inc cc \<le> lo \<Longrightarrow> cwnd_inc cc \<le> vegas_delta (cc_vegas cc) \<Longrightarrow>
       cc_cwnd cc' \<le> max (cc_cwnd cc + cwnd_inc cc) (cwnd_min cc) \<and> (blocked \<longrightarrow> cc_cwnd cc' \<le> max (cc_cwnd cc) (cwnd_min cc))"
    "sendme_pending_timestamps cc' = snd (dequeue_timestamp (sendme_pending_timestamps cc))"
    "cc_inflight cc' = u64 (cc_inflight cc - sendme_inc cc)"
proof -
  note k = assms(2) [unfolded cc_ok_def]
  let ?cc1 = "vegas_count_event cc"
  obtain rtt ga cca where r: "congestion_control_update_circuit_rtt now (g, ?cc1) = (rtt, ga, cca)" by (metis prod_cases3)
  have m: "0 \<le> measured_rtt now cc" "measured_rtt now cc = u64 (now - fst (dequeue_timestamp (sendme_pending_timestamps ?cc1)))"
    using u64_range by (simp_all add: measured_rtt_def vegas_count_event_same)
  have rk: "rtts_ok ?cc1" using k vegas_count_event_same by simp
  note ra = update_rtt_ok [OF assms(1) rk m(1) assms(3) m(2) r]
  have wa: "same_window cca cc" using ra(2) vegas_count_event_same(1) same_window_trans by blast
  note fa = same_window_facts [OF wa]
  obtain upd ccb where b: "congestion_control_update_circuit_bdp chan_q blocked rtt cca = (upd, ccb)" by fastforce
  have "params_ok cca" "0 \<le> cc_cwnd cca" "cc_cwnd cca \<le> INT32_MAX"
    using k fa same_params_facts(1) [OF fa(1)] by auto
  note rb = update_bdp_ok [OF ra(3) this assms(4,5) b]
  have wb: "same_window ccb cc" using rb(1) wa same_window_trans by blast
  note fb = same_window_facts [OF wb] and pb = same_params_facts [OF same_window_facts(1) [OF wb]]
  define q where "q = vegas_queue_use ccb"
  let ?f = "vegas_update_full ga ccb"
  have wf: "same_window ?f cc" using vegas_update_full_same(1) wb same_window_trans by blast
  note ff = same_window_facts [OF wf] and pf = same_params_facts [OF same_window_facts(1) [OF wf]]
  define d where "d = vegas_update_cwnd ?f q"
  have res: "(g', cc') = (if \<not> upd then (ga, vegas_ack ccb) else (ga, tail_of ga d))"
    using assms(6) [symmetric] unfolding process_sendme_parts Let_def r prod.case b q_def d_def .
  have pk: "params_ok ?f" using k pf by simp
  have bd: "0 \<le> cc_bdp ?f" "cc_bdp ?f \<le> 9223372036854775808" using rb vegas_update_full_same by simp_all
  have cw: "lo \<le> cc_cwnd ?f" "cc_cwnd ?f \<le> INT32_MAX" using k ff by auto
  have gm: "lo \<le> vegas_gamma (cc_vegas ?f)" "lo \<le> cwnd_min ?f" "lo \<le> 500" "0 \<le> lo" using k pf by auto
  note ss = slow_start_ok [OF pk cw bd gm(4,1,3)]
  note st = steady_state_ok [of ?f]
  have d: "same_params d cc" "lo \<le> cc_cwnd d" "rtts_ok d" "sendme_pending_timestamps d = sendme_pending_timestamps ccb"
    "cc_inflight d = cc_inflight cc"
  proof -
    have "same_params d ?f \<and> lo \<le> cc_cwnd d \<and> (rtts_ok d \<longleftrightarrow> rtts_ok ?f)
      \<and> sendme_pending_timestamps d = sendme_pending_timestamps ?f \<and> cc_inflight d = cc_inflight ?f"
    proof (cases "in_slow_start ?f")
      case True
      then have "d = vegas_slow_start ?f q" by (simp add: d_def vegas_update_cwnd_def)
      then show ?thesis using ss by metis
    next
      case ns: False
      show ?thesis
      proof (cases "next_cc_event ?f = 0")
        case True
        then have "d = vegas_steady_state ?f q" using ns by (simp add: d_def vegas_update_cwnd_def)
        then show ?thesis using st order.trans [OF gm(2)] by metis
      next
        case False
        then have "d = ?f" using ns by (simp add: d_def vegas_update_cwnd_def)
        then show ?thesis using cw(1) by (simp add: same_params_def)
      qed
    qed
    then show "same_params d cc" "lo \<le> cc_cwnd d" "rtts_ok d" "sendme_pending_timestamps d = sendme_pending_timestamps ccb"
      "cc_inflight d = cc_inflight cc"
      using same_params_trans [OF _ ff(1)] ff(3) rb(2) vegas_update_full_same(2,3) by metis+
  qed
  have pend: "sendme_pending_timestamps ccb = snd (dequeue_timestamp (sendme_pending_timestamps cc))"
    using rb(5) ra(4) vegas_count_event_same(3) by metis
  show "same_globals g' g" using res ra(1) by (auto split: if_splits)
  show "same_params cc' cc" using res d(1) fb(1) vegas_ack_same(1) tail_same(1) same_params_trans by (metis prod.inject)
  show "rtts_ok cc'" using res d(3) rb(2) vegas_ack_same(2) tail_same(2) by (metis prod.inject)
  show "lo \<le> cc_cwnd cc'" using res d(2) k fb(2) vegas_ack_same(3) tail_same(3) by (metis prod.inject)
  show "sendme_pending_timestamps cc' = snd (dequeue_timestamp (sendme_pending_timestamps cc))"
    using res d(4) pend vegas_ack_same(4) tail_same(4) by (metis prod.inject)
  have "sendme_inc ccb = sendme_inc cc" "sendme_inc d = sendme_inc cc" using pb(6) same_params_facts(6) [OF d(1)] by simp_all
  then show "cc_inflight cc' = u64 (cc_inflight cc - sendme_inc cc)"
    using res d(5) fb(3) vegas_ack_same(5) tail_same(5) by (metis prod.inject)
  assume s: "\<not> in_slow_start cc" "cwnd_inc cc \<le> lo" "cwnd_inc cc \<le> vegas_delta (cc_vegas cc)"
  have ss': "\<not> in_slow_start ?f" using s ff by simp
  have q': "q = (if cc_bdp ?f > cc_cwnd ?f then 0 else cc_cwnd ?f - cc_bdp ?f)"
    using vegas_update_full_same(5) ff(2) fb(2) by (simp add: q_def vegas_queue_use_def)
  have "cwnd_inc ?f \<le> vegas_delta (cc_vegas ?f)" "cwnd_inc ?f \<le> cc_cwnd ?f" using s pf cw by simp_all
  note ch = steady_state_change [OF pk this cw(2) bd(1) q']
  have i: "1 \<le> cwnd_inc cc" using k by (simp add: params_ok_def)
  have "cc_cwnd d \<le> max (cc_cwnd cc + cwnd_inc cc) (cwnd_min cc)" using ch(1) ss' ff pf i by (auto simp: d_def vegas_update_cwnd_def)
  moreover have "cc_cwnd d \<le> max (cc_cwnd cc) (cwnd_min cc)" if "blocked"
  proof -
    have "blocked_chan ?f" using update_bdp_blocked b that vegas_update_full_same(4) by auto
    then show ?thesis using ch(2) ss' ff pf by (auto simp: d_def vegas_update_cwnd_def)
  qed
  ultimately show "cc_cwnd cc' \<le> max (cc_cwnd cc + cwnd_inc cc) (cwnd_min cc) \<and> (blocked \<longrightarrow> cc_cwnd cc' \<le> max (cc_cwnd cc) (cwnd_min cc))"
    using res fb(2) i vegas_ack_same(3) tail_same(3) by (auto split: if_splits)
qed

section \<open>Runs\<close>

datatype cc_event = Cell_sent int | Sendme_received int int bool

fun cc_step :: "cc_event \<Rightarrow> cc_globals \<times> congestion_control \<Rightarrow> (cc_globals \<times> congestion_control) option" where
  "cc_step (Cell_sent now) (g, cc) = Some (g, congestion_control_note_cell_sent now cc)"
| "cc_step (Sendme_received now chan_q blocked) s = map_option snd (congestion_control_dispatch_cc_alg now chan_q blocked s)"

fun cc_run :: "cc_event list \<Rightarrow> cc_globals \<times> congestion_control \<Rightarrow> (cc_globals \<times> congestion_control) option" where
  "cc_run [] s = Some s"
| "cc_run (e # es) s = (case cc_step e s of None \<Rightarrow> None | Some s \<Rightarrow> cc_run es s)"

text \<open>Every measured round trip is shorter than 71 minutes, and the queue of the channel fits an int.\<close>

fun event_timely :: "cc_event \<Rightarrow> congestion_control \<Rightarrow> bool" where
  "event_timely (Cell_sent now) cc \<longleftrightarrow> True"
| "event_timely (Sendme_received now chan_q blocked) cc \<longleftrightarrow> measured_rtt now cc < RTT_LIMIT \<and> 0 \<le> chan_q \<and> chan_q \<le> INT32_MAX"

fun cc_timely :: "cc_event list \<Rightarrow> cc_globals \<times> congestion_control \<Rightarrow> bool" where
  "cc_timely [] s \<longleftrightarrow> True"
| "cc_timely (e # es) s \<longleftrightarrow> event_timely e (snd s) \<and> (case cc_step e s of None \<Rightarrow> True | Some s \<Rightarrow> cc_timely es s)"

text \<open>How a step may change the window of a circuit past slow start.\<close>

definition change_ok :: "cc_event \<Rightarrow> congestion_control \<Rightarrow> congestion_control \<Rightarrow> bool" where
  "change_ok e a b \<longleftrightarrow> in_slow_start a \<or>
    cc_cwnd b \<le> max (cc_cwnd a + cwnd_inc a) (cwnd_min a)
    \<and> (case e of Cell_sent _ \<Rightarrow> cc_cwnd b = cc_cwnd a
       | Sendme_received _ _ blocked \<Rightarrow> blocked \<longrightarrow> cc_cwnd b \<le> max (cc_cwnd a) (cwnd_min a))"

lemma note_sent_same:
  "same_params (congestion_control_note_cell_sent now cc) cc" "rtts_ok (congestion_control_note_cell_sent now cc) = rtts_ok cc"
  "cc_cwnd (congestion_control_note_cell_sent now cc) = cc_cwnd cc"
  by (simp_all add: congestion_control_note_cell_sent_def same_params_def rtts_ok_def)

definition run_ok :: "int \<Rightarrow> int \<Rightarrow> cc_globals \<times> congestion_control \<Rightarrow> bool" where
  "run_ok lo hi = (\<lambda>(g, cc). globals_ok g \<and> cwnd_max g \<le> hi \<and> cc_ok lo hi cc)"

lemma cc_step_ok:
  assumes "run_ok lo hi (g, cc)" "event_timely e cc"
  shows "\<exists>g' cc'. cc_step e (g, cc) = Some (g', cc') \<and> run_ok lo hi (g', cc') \<and> same_params cc' cc
    \<and> (cwnd_inc cc \<le> lo \<longrightarrow> cwnd_inc cc \<le> vegas_delta (cc_vegas cc) \<longrightarrow> change_ok e cc cc')"
proof (cases e)
  case (Cell_sent now)
  have sp: "same_params (congestion_control_note_cell_sent now cc) cc" by (rule note_sent_same)
  show ?thesis
    using Cell_sent assms(1) same_params_facts [OF sp] note_sent_same
    by (auto simp: run_ok_def cc_ok_def change_ok_def params_ok_def)
next
  case (Sendme_received now chan_q blocked)
  have ok: "globals_ok g" "cc_ok lo hi cc" "cwnd_max g \<le> hi" using assms(1) by (simp_all add: run_ok_def)
  have t: "measured_rtt now cc < RTT_LIMIT" "0 \<le> chan_q" "chan_q \<le> INT32_MAX" using assms(2) Sendme_received by simp_all
  obtain g' cc' where p: "congestion_control_vegas_process_sendme now chan_q blocked (g, cc) = (g', cc')" by fastforce
  note pk = process_sendme_ok [OF ok(1,2) t p]
  let ?cc = "if cc_cwnd cc' > cwnd_max g' then cc'\<lparr>cc_cwnd := cwnd_max g'\<rparr> else cc'"
  have v: "cc_alg_used cc = CC_ALG_VEGAS" using ok(2) by (simp add: cc_ok_def params_ok_def)
  have st: "cc_step e (g, cc) = Some (g', ?cc)"
    using Sendme_received p v by (simp add: congestion_control_dispatch_cc_alg_def Let_def)
  have gk: "globals_ok g'" "cwnd_max g' = cwnd_max g" using pk(1) ok(1) by (simp_all add: same_globals_def globals_ok_def)
  note f = same_params_facts [OF pk(2)]
  have sp: "same_params ?cc cc" using pk(2) by (simp add: same_params_def)
  have c: "cc_cwnd ?cc = min (cc_cwnd cc') (cwnd_max g)" using gk by auto
  have mn: "cwnd_max g \<ge> 500" using ok(1) by (simp add: globals_ok_def)
  have r: "rtts_ok ?cc" using pk(3) by (simp add: rtts_ok_def)
  have "run_ok lo hi (g', ?cc)"
    using gk ok(2,3) pk(4) c mn r same_params_facts [OF sp] by (auto simp: run_ok_def cc_ok_def)
  moreover have "change_ok e cc ?cc" if "cwnd_inc cc \<le> lo" "cwnd_inc cc \<le> vegas_delta (cc_vegas cc)"
    using pk(5) that Sendme_received c by (auto simp: change_ok_def)
  ultimately show ?thesis using st sp by blast
qed

lemma cc_run_ok:
  assumes "run_ok lo hi (g, cc)" "cc_timely es (g, cc)" "cwnd_inc cc \<le> lo" "cwnd_inc cc \<le> vegas_delta (cc_vegas cc)"
  shows "\<exists>g' cc'. cc_run es (g, cc) = Some (g', cc') \<and> run_ok lo hi (g', cc') \<and> same_params cc' cc"
  using assms
proof (induction es arbitrary: g cc)
  case Nil
  then show ?case by (simp add: same_params_def)
next
  case (Cons e es)
  obtain g1 cc1 where s: "cc_step e (g, cc) = Some (g1, cc1)" "run_ok lo hi (g1, cc1)" "same_params cc1 cc"
    using cc_step_ok [OF Cons.prems(1), of e] Cons.prems(2) by auto
  note f = same_params_facts [OF s(3)]
  obtain g' cc' where "cc_run es (g1, cc1) = Some (g', cc')" "run_ok lo hi (g', cc')" "same_params cc' cc1"
    using Cons.IH [OF s(2)] Cons.prems(2-4) s(1) f by auto
  then show ?case using s same_params_trans by auto
qed

lemma in_range16: "0 \<le> x \<Longrightarrow> x \<le> 1000 \<Longrightarrow> u16 x = x" "0 \<le> x \<Longrightarrow> x \<le> 255 \<Longrightarrow> u8 x = x"
  by (simp_all add: to_unsigned_def)

lemma vegas_set_params_ok:
  assumes "congestion_control_vegas_set_params latest path (g, cc) = Some (g', cc')"
  shows "same_globals g' g" "cc' = cc\<lparr>cc_vegas := cc_vegas cc'\<rparr>" "0 \<le> vegas_gamma (cc_vegas cc')" "vegas_gamma (cc_vegas cc') \<le> 1000"
    "0 \<le> vegas_delta (cc_vegas cc')" "vegas_delta (cc_vegas cc') \<le> 65535"
    "100 \<le> ss_cwnd_cap (cc_vegas cc')" "ss_cwnd_cap (cc_vegas cc') \<le> INT32_MAX"
    "500 \<le> ss_cwnd_max (cc_vegas cc')" "ss_cwnd_max (cc_vegas cc') \<le> INT32_MAX"
proof -
  obtain sfx a b c d cap where p: "vegas_path_params path = (sfx, a, b, c, d, cap)" by (metis prod_cases6)
  have cd: "0 \<le> c" "c \<le> 1000" "100 \<le> cap" "cap \<le> INT32_MAX"
    using p by (cases path; auto simp: OUTBUF_CELLS_def TLS_RECORD_MAX_CELLS_def)+
  obtain vcap vmax va vb vg vd mp gap per where
    v: "networkstatus_get_param latest None (''cc_sscap_'' @ sfx) cap 100 INT32_MAX = Some vcap"
    "networkstatus_get_param latest None ''cc_ss_max'' 5000 500 INT32_MAX = Some vmax"
    "networkstatus_get_param latest None (''cc_vegas_gamma_'' @ sfx) c 0 1000 = Some vg"
    and r: "g' = g\<lparr>cc_vegas_cwnd_full_minpct := mp, cc_vegas_cwnd_full_gap := gap, cc_cwnd_full_per_cwnd := per\<rparr>"
    "cc' = cc\<lparr>cc_vegas := \<lparr>ss_cwnd_cap = vcap, ss_cwnd_max = vmax, vegas_gamma = u16 vg, vegas_alpha = u16 va,
              vegas_beta = u16 vb, vegas_delta = u16 vd\<rparr>\<rparr>"
    using assms p by (auto simp: congestion_control_vegas_set_params_def bind_eq_Some_conv)
  have b: "100 \<le> vcap" "vcap \<le> INT32_MAX" "500 \<le> vmax" "vmax \<le> INT32_MAX" "0 \<le> vg" "vg \<le> 1000"
    using v [THEN networkstatus_get_param_value] cd by simp_all
  show "same_globals g' g" "cc' = cc\<lparr>cc_vegas := cc_vegas cc'\<rparr>" "0 \<le> vegas_gamma (cc_vegas cc')" "vegas_gamma (cc_vegas cc') \<le> 1000"
    "0 \<le> vegas_delta (cc_vegas cc')" "vegas_delta (cc_vegas cc') \<le> 65535"
    "100 \<le> ss_cwnd_cap (cc_vegas cc')" "ss_cwnd_cap (cc_vegas cc') \<le> INT32_MAX"
    "500 \<le> ss_cwnd_max (cc_vegas cc')" "ss_cwnd_max (cc_vegas cc') \<le> INT32_MAX"
    using r b in_range16(1) to_unsigned_range [of 16 vd] by (simp_all add: same_globals_def)
qed

lemma new_object_ok:
  assumes "congestion_control_new latest always inc path g = Some (g0, cc0)" "globals_ok g" "cc_alg g = CC_ALG_VEGAS" "1 \<le> inc" "inc \<le> 254"
  shows "globals_ok g0" "same_globals g0 g" "params_ok cc0" "rtts_ok cc0" "in_slow_start cc0" "31 \<le> cc_cwnd cc0" "cc_cwnd cc0 \<le> 10000"
    "cc_inflight cc0 = 0" "sendme_pending_timestamps cc0 = []" "sendme_inc cc0 = inc"
proof -
  have d: "SENDME_INC_DFLT = 31" "CIRCWINDOW_INIT = 124" "CWND_INC_PCT_SS_DFLT = 100" "CWND_INC_DFLT = 1" "CWND_INC_RATE_DFLT = 31"
    "CWND_MIN_DFLT = 124"
    by (simp_all add: SENDME_INC_DFLT_def TLS_RECORD_MAX_CELLS_def CIRCWINDOW_INIT_def CWND_INC_PCT_SS_DFLT_def CWND_INC_DFLT_def
      CWND_INC_RATE_DFLT_def CWND_MIN_DFLT_def)
  have "\<not> (CC_ALG_VEGAS = CC_ALG_SENDME \<and> always)" by (simp add: CC_ALG_VEGAS_def CC_ALG_SENDME_def)
  then obtain ci cp cn cr cm c1 where
    v: "networkstatus_get_param latest None ''cc_cwnd_init'' 124 31 10000 = Some ci"
    "networkstatus_get_param latest None ''cc_cwnd_inc_pct_ss'' 100 1 500 = Some cp"
    "networkstatus_get_param latest None ''cc_cwnd_inc'' 1 1 1000 = Some cn"
    "networkstatus_get_param latest None ''cc_cwnd_min'' 124 31 1000 = Some cm"
    and sp: "congestion_control_vegas_set_params latest path (g, (zeroed_cc\<lparr>in_slow_start := True\<rparr>)\<lparr>sendme_inc := u8 inc, cc_cwnd := ci,
      cwnd_inc_pct_ss := u16 cp, cwnd_inc := u16 cn, cwnd_inc_rate := u8 cr, cwnd_min := u16 cm, cc_alg_used := CC_ALG_VEGAS\<rparr>) = Some (g0, c1)"
    and r: "cc0 = c1\<lparr>next_cc_event := u16 (CWND_UPDATE_RATE c1)\<rparr>"
    using assms(1,3) d
    by (auto simp: congestion_control_new_def congestion_control_init_params_def bind_eq_Some_conv Let_def)
  have b: "31 \<le> ci" "ci \<le> 10000" "1 \<le> cp" "cp \<le> 500" "1 \<le> cn" "cn \<le> 1000" "31 \<le> cm" "cm \<le> 1000"
    using v [THEN networkstatus_get_param_value] by simp_all
  have u: "u16 cp = cp" "u16 cn = cn" "u16 cm = cm" "u8 inc = inc" using b assms(4,5) by (simp_all add: in_range16)
  note s = vegas_set_params_ok [OF sp]
  have c1: "cc_alg_used c1 = CC_ALG_VEGAS" "sendme_inc c1 = inc" "cwnd_inc_pct_ss c1 = cp" "cwnd_inc c1 = cn" "cwnd_min c1 = cm"
    "cc_cwnd c1 = ci" "in_slow_start c1" "cc_inflight c1 = 0" "sendme_pending_timestamps c1 = []" "ewma_rtt_usec c1 = 0" "min_rtt_usec c1 = 0"
    by (subst s(2); simp add: u zeroed_cc_def)+
  show "globals_ok g0" using s(1) assms(2) by (simp add: same_globals_def globals_ok_def)
  show "same_globals g0 g" by (rule s(1))
  show "params_ok cc0" using c1 s(3-) b assms(4,5) by (simp add: r params_ok_def)
  show "rtts_ok cc0" using c1 by (simp add: r rtts_ok_def RTT_LIMIT_def)
  show "in_slow_start cc0" "31 \<le> cc_cwnd cc0" "cc_cwnd cc0 \<le> 10000"
    "cc_inflight cc0 = 0" "sendme_pending_timestamps cc0 = []" "sendme_inc cc0 = inc"
    using c1 b by (simp_all add: r)
qed

lemma cc_timely_append:
  "cc_timely (es @ [e]) s \<Longrightarrow> cc_timely es s \<and> (\<forall>s'. cc_run es s = Some s' \<longrightarrow> event_timely e (snd s'))"
  by (induction es arbitrary: s) (auto split: option.splits)

section \<open>Properties\<close>

text \<open>C5: With consensus values in their ranges, an increment no larger than the floor of the window and
  the delta threshold, and round trips under 71 minutes, no run of a new circuit fails and the window stays between
  its floor and its maximum (the consensus maximum, or the first window if that is larger). Past slow start an
  event never raises it above the larger of the window plus one increment and the least window \<open>cwnd_min\<close>, and a
  SENDME that finds the channel blocked never above the larger of the window and \<open>cwnd_min\<close>; in slow start only
  the floor and the maximum are claimed.\<close>

theorem vegas_window_bounded:
  assumes "globals_ok g" "cc_alg g = CC_ALG_VEGAS" "1 \<le> inc" "inc \<le> 254"
    "congestion_control_new latest always inc path g = Some (g0, cc0)"
    "small_increment (cc_cwnd cc0) cc0" "cc_timely (es @ [e]) (g0, cc0)"
  shows "\<exists>g1 cc1 g2 cc2. cc_run es (g0, cc0) = Some (g1, cc1) \<and> cc_step e (g1, cc1) = Some (g2, cc2)
    \<and> cwnd_floor (cc_cwnd cc0) cc0 \<le> cc_cwnd cc2 \<and> cc_cwnd cc2 \<le> max (cc_cwnd cc0) (cwnd_max g0)
    \<and> change_ok e cc1 cc2"
proof -
  note n = new_object_ok [OF assms(5,1-4)]
  let ?lo = "cwnd_floor (cc_cwnd cc0) cc0" and ?hi = "max (cc_cwnd cc0) (cwnd_max g0)"
  have p: "0 \<le> vegas_gamma (cc_vegas cc0)" "31 \<le> cwnd_min cc0" using n(3) by (simp_all add: params_ok_def)
  have h: "cwnd_max g0 \<le> INT32_MAX" using n(1) by (simp add: globals_ok_def)
  have lo: "0 \<le> ?lo" "?lo \<le> vegas_gamma (cc_vegas cc0)" "?lo \<le> cwnd_min cc0" "?lo \<le> 500" "?lo \<le> cc_cwnd cc0"
    using p n(6) unfolding cwnd_floor_def by simp_all
  have s: "cwnd_inc cc0 \<le> ?lo" "cwnd_inc cc0 \<le> vegas_delta (cc_vegas cc0)"
    using assms(6) by (simp_all add: small_increment_def)
  have "cc_ok ?lo ?hi cc0" unfolding cc_ok_def using n(3,4,7) lo h by simp
  then have r: "run_ok ?lo ?hi (g0, cc0)" using n(1) by (simp add: run_ok_def)
  have t: "cc_timely es (g0, cc0)" "\<And>s'. cc_run es (g0, cc0) = Some s' \<Longrightarrow> event_timely e (snd s')"
    using cc_timely_append [OF assms(7)] by auto
  obtain g1 cc1 where r1: "cc_run es (g0, cc0) = Some (g1, cc1)" "run_ok ?lo ?hi (g1, cc1)" "same_params cc1 cc0"
    using cc_run_ok [OF r t(1) s] by blast
  note f = same_params_facts [OF r1(3)]
  have "event_timely e cc1" using t(2) [OF r1(1)] by simp
  then obtain g2 cc2 where r2: "cc_step e (g1, cc1) = Some (g2, cc2)" "run_ok ?lo ?hi (g2, cc2)" "change_ok e cc1 cc2"
    using cc_step_ok [OF r1(2), of e] s f by auto
  then have "?lo \<le> cc_cwnd cc2" "cc_cwnd cc2 \<le> ?hi" unfolding run_ok_def cc_ok_def by simp_all
  then show ?thesis using r1(1) r2 by blast
qed

definition default_globals :: cc_globals where
  "default_globals = \<lparr>cwnd_max = CWND_MAX_DFLT, cell_queue_high = 256, cell_queue_low = 10, or_conn_highwater = 32768,
     or_conn_lowwater = 16384, cc_sendme_inc = SENDME_INC_DFLT, cc_alg = CC_ALG_DFLT, n_ewma_cwnd_pct = 50, n_ewma_max = 10,
     n_ewma_ss = 2, bwe_sendme_min = 5, rtt_reset_pct = 100, cc_vegas_cwnd_full_gap = 4, cc_vegas_cwnd_full_minpct = 25,
     cc_cwnd_full_per_cwnd = 1, is_monotime_clock_broken = False, num_clock_stalls = 0, num_rtt_reset = 0\<rparr>"

definition sample_window :: "cc_globals \<times> congestion_control" where
  "sample_window = the (congestion_control_new None False 2 CC_PATH_EXIT default_globals)"

lemma sample_window_value:
  "congestion_control_new None False 2 CC_PATH_EXIT default_globals = Some (fst sample_window, snd sample_window)"
  "small_increment (cc_cwnd (snd sample_window)) (snd sample_window)"
  by (simp, code_simp, code_simp)

text \<open>The first SENDME that finds the channel blocked ends slow start; the window falls further with the second.\<close>

definition sample_cc_events :: "cc_event list" where
  "sample_cc_events = [Cell_sent 1000, Cell_sent 1000, Sendme_received 2000 0 True, Cell_sent 3000, Cell_sent 3000]"

lemma vegas_window_bounded_witness:
  "\<exists>g1 cc1 g2 cc2. cc_run sample_cc_events (fst sample_window, snd sample_window) = Some (g1, cc1)
    \<and> cc_step (Sendme_received 4000 0 True) (g1, cc1) = Some (g2, cc2) \<and> \<not> in_slow_start cc1
    \<and> cwnd_floor (cc_cwnd (snd sample_window)) (snd sample_window) \<le> cc_cwnd cc2
    \<and> cc_cwnd cc2 \<le> max (cc_cwnd (snd sample_window)) (cwnd_max (fst sample_window))
    \<and> cc_cwnd cc2 \<le> max (cc_cwnd cc1) (cwnd_min cc1)"
proof -
  have "cc_timely (sample_cc_events @ [Sendme_received 4000 0 True]) (fst sample_window, snd sample_window)" by code_simp
  moreover have "case cc_run sample_cc_events (fst sample_window, snd sample_window) of None \<Rightarrow> False | Some s \<Rightarrow> \<not> in_slow_start (snd s)"
    by code_simp
  moreover have "globals_ok default_globals" "cc_alg default_globals = CC_ALG_VEGAS"
    by (simp_all add: default_globals_def globals_ok_def CWND_MAX_DFLT_def CC_ALG_DFLT_def)
  ultimately show ?thesis
    using vegas_window_bounded [OF _ _ _ _ sample_window_value, of sample_cc_events "Sendme_received 4000 0 True"]
    by (auto simp: change_ok_def)
qed

section \<open>An increment above the window\<close>

lemma wraps_below_zero:
  assumes "-1000 \<le> x" "x < (0 :: int)"
  shows "u64 x = x + 18446744073709551616"
proof -
  have "u64 x = u64 (x + 18446744073709551616)" by (simp add: to_unsigned_def)
  also have "\<dots> = x + 18446744073709551616" using assms by (intro u64_id) simp_all
  finally show ?thesis .
qed

lemma steady_state_wraps:
  assumes "params_ok cc" "0 \<le> cc_cwnd cc" "cc_cwnd cc < cwnd_inc cc" "0 \<le> cc_bdp cc" "blocked_chan cc"
  shows "INT32_MAX < cc_cwnd (vegas_steady_state cc (vegas_queue_use cc))"
proof -
  have p: "cwnd_inc cc \<le> 1000" "0 \<le> vegas_delta (cc_vegas cc)" using assms(1) by (simp_all add: params_ok_def)
  have "u64 (cc_cwnd cc - cwnd_inc cc) = cc_cwnd cc - cwnd_inc cc + 18446744073709551616"
    using assms(2,3) p by (intro wraps_below_zero) simp_all
  moreover have "u64 (cc_bdp cc + vegas_delta (cc_vegas cc) - cwnd_inc cc)
      = cc_bdp cc + vegas_delta (cc_vegas cc) - cwnd_inc cc + 18446744073709551616"
    if "vegas_delta (cc_vegas cc) < vegas_queue_use cc"
    using that assms(2-4) p by (intro wraps_below_zero) (simp_all add: vegas_queue_use_def split: if_split_asm)
  ultimately show ?thesis using assms p by (auto simp: vegas_steady_state_def CWND_INC_def Let_def less_max_iff_disj)
qed

lemma update_rtt_events:
  "congestion_control_update_circuit_rtt now (g, cc) = (rtt, g', cc') \<Longrightarrow> next_cc_event cc' = next_cc_event cc"
  by (auto simp: congestion_control_update_circuit_rtt_def Let_def split: prod.splits if_split_asm)

lemma update_bdp_events:
  "congestion_control_update_circuit_bdp q True rtt cc = (upd, cc') \<Longrightarrow> next_cc_event cc = 0 \<Longrightarrow> next_cc_event cc' = 0"
  by (auto simp: congestion_control_update_circuit_bdp_def Let_def split: if_split_asm)

text \<open>C38: An increment above the window, which the consensus ranges admit, makes a congestion signal raise the
  window: with values and round trips in their ranges, past slow start, when an update is due and the channel is blocked, the subtraction passes zero and
  the window becomes the largest there is.\<close>

theorem increment_wraps_window:
  assumes "globals_ok g" "params_ok cc" "rtts_ok cc" "\<not> in_slow_start cc" "0 \<le> next_cc_event cc" "next_cc_event cc \<le> 1"
    "0 \<le> cc_cwnd cc" "cc_cwnd cc < cwnd_inc cc" "measured_rtt now cc < RTT_LIMIT" "0 \<le> chan_q" "chan_q \<le> INT32_MAX"
  shows "\<exists>r g' cc'. congestion_control_dispatch_cc_alg now chan_q True (g, cc) = Some (r, g', cc') \<and> cc_cwnd cc' = cwnd_max g"
proof -
  let ?cc1 = "vegas_count_event cc"
  obtain rtt ga cca where r: "congestion_control_update_circuit_rtt now (g, ?cc1) = (rtt, ga, cca)" by (metis prod_cases3)
  have m: "0 \<le> measured_rtt now cc" "measured_rtt now cc = u64 (now - fst (dequeue_timestamp (sendme_pending_timestamps ?cc1)))"
    using u64_range by (simp_all add: measured_rtt_def vegas_count_event_same)
  have rk: "rtts_ok ?cc1" using assms(3) vegas_count_event_same by simp
  note ra = update_rtt_ok [OF assms(1) rk m(1) assms(9) m(2) r]
  have wa: "same_window cca cc" using ra(2) vegas_count_event_same(1) same_window_trans by blast
  obtain upd ccb where b: "congestion_control_update_circuit_bdp chan_q True rtt cca = (upd, ccb)" by fastforce
  have inc: "cwnd_inc cc \<le> 1000" using assms(2) by (simp add: params_ok_def)
  have pa: "params_ok cca" "0 \<le> cc_cwnd cca" "cc_cwnd cca \<le> INT32_MAX"
    using assms(2,7,8) inc same_window_facts [OF wa] same_params_facts(1) [OF same_window_facts(1) [OF wa]] by auto
  note rb = update_bdp_ok [OF ra(3) pa assms(10,11) b]
  let ?f = "vegas_update_full ga ccb"
  have wf: "same_window ?f cc" using vegas_update_full_same(1) rb(1) wa same_window_trans by blast
  note ff = same_window_facts [OF wf] and pf = same_params_facts [OF same_window_facts(1) [OF wf]]
  have bl: "upd" "blocked_chan ?f" using update_bdp_blocked [OF b] vegas_update_full_same(4) by auto
  have "next_cc_event ?cc1 = 0" using assms(5,6) by (simp add: vegas_count_event_def)
  then have ev: "next_cc_event ?f = 0"
    using update_rtt_events [OF r] update_bdp_events [OF b] by (simp add: vegas_update_full_def)
  define d where "d = vegas_steady_state ?f (vegas_queue_use ?f)"
  have "params_ok ?f" "0 \<le> cc_cwnd ?f" "cc_cwnd ?f < cwnd_inc ?f" "0 \<le> cc_bdp ?f"
    using assms(2,7,8) ff pf rb(3) vegas_update_full_same(5) by simp_all
  then have big: "INT32_MAX < cc_cwnd d" unfolding d_def using bl(2) by (rule steady_state_wraps)
  have "vegas_queue_use ccb = vegas_queue_use ?f" by (simp add: vegas_queue_use_def vegas_update_full_def)
  then have "vegas_update_cwnd ?f (vegas_queue_use ccb) = d" using assms(4) ff(4) ev by (simp add: vegas_update_cwnd_def d_def)
  then have p: "congestion_control_vegas_process_sendme now chan_q True (g, cc) = (ga, tail_of ga d)"
    using bl(1) by (simp only: process_sendme_parts Let_def r prod.case b) simp
  have "cwnd_max ga = cwnd_max g" "cwnd_max g \<le> INT32_MAX" using ra(1) assms(1) by (simp_all add: same_globals_def globals_ok_def)
  moreover have "cc_alg_used cc = CC_ALG_VEGAS" using assms(2) by (simp add: params_ok_def)
  ultimately show ?thesis
    using p big tail_same(3) [of ga d] by (simp add: congestion_control_dispatch_cc_alg_def Let_def)
qed

text \<open>With \<open>cc_cwnd_inc\<close> and \<open>cc_cwnd_inc_rate\<close> at their largest, a new circuit whose channel is blocked at the first SENDME
  has a window of 310 and is due for an update.\<close>

definition wrapping_window :: "cc_globals \<times> congestion_control" where
  "wrapping_window = the (Option.bind
     (congestion_control_new (Some \<lparr>net_params = Some [''cc_cwnd_inc=1000'', ''cc_cwnd_inc_rate=250'']\<rparr>) False 2 CC_PATH_EXIT default_globals)
     (cc_run [Cell_sent 1000, Cell_sent 1000, Sendme_received 2000 0 True]))"

lemma wrapping_window_ready:
  "globals_ok (fst wrapping_window)" "params_ok (snd wrapping_window)" "rtts_ok (snd wrapping_window)" "\<not> in_slow_start (snd wrapping_window)"
  "next_cc_event (snd wrapping_window) = 1" "cc_cwnd (snd wrapping_window) = 310"
  "cwnd_inc (snd wrapping_window) = 1000" "measured_rtt 6000 (snd wrapping_window) < RTT_LIMIT"
  by code_simp+

lemma increment_wraps_window_witness:
  "cc_cwnd (snd wrapping_window) = 310
    \<and> (\<exists>r g' cc'. congestion_control_dispatch_cc_alg 6000 0 True (fst wrapping_window, snd wrapping_window) = Some (r, g', cc')
        \<and> cc_cwnd cc' = cwnd_max (fst wrapping_window))"
  using increment_wraps_window [OF wrapping_window_ready(1-4) _ _ _ _ wrapping_window_ready(8), of 0] by (simp add: wrapping_window_ready)

end
