(* ===== verification/FlowControl.thy ===== *)
theory FlowControl
  imports CongestionWindow RelayMsg TokenBucket
begin

text \<open>
  Flow control of streams on circuits with congestion control,
  \<^verbatim>\<open>src/core/or/congestion_control_flow.c\<close>, with the cells of
  \<^verbatim>\<open>src/trunnel/flow_control_cells.c\<close> and the test of a hop in
  \<^verbatim>\<open>src/core/or/conflux_util.c\<close>. An end of a stream that buffers too much asks the other
  end to stop with an XOFF cell and to go on with an XON cell, which has the rate at which the buffer
  drains. The clock, its reliability, the length of the output buffer and whether a cell can be sent are
  arguments; the cells sent are results. A hop of a circuit is a number.
\<close>

section \<open>State\<close>

datatype edge_circuit = Or_circ | Origin_circ | Origin_conflux "nat list"

record edge_connection =
  package_window :: int
  deliver_window :: int
  on_circuit :: "edge_circuit option"
  on_circuit_ccontrol :: bool
  cpath_layer :: "nat option"
  cpath_layer_ccontrol :: bool
  type_ap :: bool
  hs_ident :: bool
  stream_bucket :: token_bucket_rw
  is_reading :: bool
  drain_start_usec :: int
  xoff_grace_period_start_usec :: int
  drained_bytes :: int
  prev_drained_bytes :: int
  ewma_drain_rate :: int
  ewma_rate_last_sent :: int
  total_bytes_xmit :: int
  num_xoff_recv :: int
  num_xon_recv :: int
  xoff_sent :: bool
  xoff_received :: bool

record flow_params =
  xoff_client :: int
  xoff_exit :: int
  xon_change_pct :: int
  xon_ewma_cnt :: int
  xon_rate_bytes :: int

type_synonym sent_cell = "byte \<times> bytes"

definition XOFF_GRACE_PERIOD_USEC :: int where "XOFF_GRACE_PERIOD_USEC = 5000"
definition XON_COUNT_SCALE_AT :: int where "XON_COUNT_SCALE_AT = 200"
definition XOFF_COUNT_SCALE_AT :: int where "XOFF_COUNT_SCALE_AT = 200"
definition ONE_MEGABYTE :: int where "ONE_MEGABYTE = 1048576"
definition TOTAL_XMIT_SCALE_AT :: int where "TOTAL_XMIT_SCALE_AT = 10 * ONE_MEGABYTE"
definition MAX_EXPECTED_CELL_BURST :: int where "MAX_EXPECTED_CELL_BURST = 32"
definition RELAY_PAYLOAD_SIZE_MIN :: nat where "RELAY_PAYLOAD_SIZE_MIN = CELL_PAYLOAD_SIZE - RELAY_HEADER_SIZE_V1_WITH_STREAM_ID"

definition flow_control_new_consensus_params :: "networkstatus option \<Rightarrow> networkstatus option \<Rightarrow> flow_params option" where
  "flow_control_new_consensus_params latest ns = do {
     xc \<leftarrow> networkstatus_get_param latest ns ''cc_xoff_client'' 500 1 10000;
     xe \<leftarrow> networkstatus_get_param latest ns ''cc_xoff_exit'' 500 1 10000;
     cp \<leftarrow> networkstatus_get_param latest ns ''cc_xon_change_pct'' 25 1 99;
     rb \<leftarrow> networkstatus_get_param latest ns ''cc_xon_rate'' 500 1 5000;
     ec \<leftarrow> networkstatus_get_param latest ns ''cc_xon_ewma_cnt'' 2 2 100;
     Some \<lparr>xoff_client = u32 (xc * int RELAY_PAYLOAD_SIZE_MIN), xoff_exit = u32 (xe * int RELAY_PAYLOAD_SIZE_MIN),
           xon_change_pct = u32 cp, xon_ewma_cnt = u32 ec, xon_rate_bytes = u32 (rb * int RELAY_PAYLOAD_SIZE_MAX)\<rparr>
   }"

section \<open>Cells\<close>

definition htonl :: "int \<Rightarrow> bytes" where
  "htonl x = (let w = word_of_int x :: 32 word
              in [ucast (drop_bit 24 w), ucast (drop_bit 16 w), ucast (drop_bit 8 w), ucast w])"

definition ntohl :: "bytes \<Rightarrow> int" where
  "ntohl b = uint (push_bit 24 (ucast (b ! 0)) OR push_bit 16 (ucast (b ! 1)) OR push_bit 8 (ucast (b ! 2)) OR ucast (b ! 3) :: 32 word)"

definition xoff_cell_encode :: "nat \<Rightarrow> byte \<Rightarrow> bytes option" where
  "xoff_cell_encode avail version = (if version \<noteq> 0 then None else if avail < 1 then None else Some [version])"

definition xon_cell_encode :: "nat \<Rightarrow> byte \<Rightarrow> int \<Rightarrow> bytes option" where
  "xon_cell_encode avail version kbps_ewma =
    (if version \<noteq> 0 then None else if avail < 1 then None else if avail - 1 < 4 then None else Some (version # htonl kbps_ewma))"

text \<open>The version and the rate.\<close>

definition xon_cell_parse :: "bytes \<Rightarrow> (byte \<times> int) option" where
  "xon_cell_parse input =
    (if length input < 1 then None
     else if input ! 0 \<noteq> 0 then None
     else if length input - 1 < 4 then None
     else Some (input ! 0, ntohl (take 4 (drop 1 input))))"

section \<open>Helpers\<close>

definition edge_uses_flow_control :: "edge_connection \<Rightarrow> bool" where
  "edge_uses_flow_control s \<longleftrightarrow> (on_circuit s \<noteq> None \<and> on_circuit_ccontrol s) \<or> (cpath_layer s \<noteq> None \<and> cpath_layer_ccontrol s)"

text \<open>A conflux circuit of the origin lists the last hops of its legs.\<close>

definition edge_uses_cpath :: "edge_connection \<Rightarrow> nat option \<Rightarrow> bool" where
  "edge_uses_cpath conn cpath \<longleftrightarrow>
    (case on_circuit conn of
       None \<Rightarrow> False
     | Some (Origin_conflux last_hops) \<Rightarrow> (case cpath of None \<Rightarrow> False | Some h \<Rightarrow> h \<in> set last_hops)
     | Some Origin_circ \<Rightarrow> cpath = cpath_layer conn
     | Some Or_circ \<Rightarrow> cpath = None)"

definition local_edge :: "edge_connection \<Rightarrow> bool" where
  "local_edge s \<longleftrightarrow> type_ap s \<or> hs_ident s"

definition compute_drain_rate :: "int \<Rightarrow> bool \<Rightarrow> edge_connection \<Rightarrow> int" where
  "compute_drain_rate now reliable s =
    (if \<not> reliable then 0
     else let delta = u64 (now - drain_start_usec s)
          in if delta = 0 then 0
             else if prev_drained_bytes s > INT32_MAX div 1000 \<or> prev_drained_bytes s div delta > INT32_MAX div 1000 then INT32_MAX
             else u32 (max 1 (u32 (prev_drained_bytes s * 1000) div delta)))"

definition stream_drain_rate_changed :: "flow_params \<Rightarrow> bool \<Rightarrow> edge_connection \<Rightarrow> bool" where
  "stream_drain_rate_changed p reliable s \<longleftrightarrow>
    reliable \<and> ewma_rate_last_sent s \<noteq> 0 \<and>
    (ewma_drain_rate s > u64 (u64 (100 + xon_change_pct p) * ewma_rate_last_sent s) div 100 \<or>
     ewma_drain_rate s < u64 (u64 (100 - xon_change_pct p) * ewma_rate_last_sent s) div 100)"

section \<open>Sending\<close>

definition circuit_send_stream_xoff :: "bool \<Rightarrow> edge_connection \<Rightarrow> edge_connection \<times> sent_cell list" where
  "circuit_send_stream_xoff send_ok s =
    (case xoff_cell_encode CELL_PAYLOAD_SIZE 0 of
       None \<Rightarrow> (s, [])
     | Some body \<Rightarrow> if send_ok then (s\<lparr>xoff_sent := True\<rparr>, [(RELAY_COMMAND_XOFF, body)]) else (s, []))"

definition circuit_send_stream_xon :: "bool \<Rightarrow> edge_connection \<Rightarrow> edge_connection \<times> sent_cell list" where
  "circuit_send_stream_xon send_ok s =
    (case xon_cell_encode CELL_PAYLOAD_SIZE 0 (ewma_drain_rate s) of
       None \<Rightarrow> (s, [])
     | Some body \<Rightarrow>
         if send_ok then (s\<lparr>ewma_rate_last_sent := ewma_drain_rate s, xoff_sent := False\<rparr>, [(RELAY_COMMAND_XON, body)])
         else (s\<lparr>ewma_rate_last_sent := ewma_drain_rate s\<rparr>, []))"

text \<open>The steps of \<^verbatim>\<open>flow_control_decide_xon\<close>, in its order.\<close>

definition xon_count_drained :: "int \<Rightarrow> int \<Rightarrow> edge_connection \<Rightarrow> edge_connection" where
  "xon_count_drained now n_written s =
    (if drained_bytes s \<ge> u64 (UINT32_MAX - n_written)
     then s\<lparr>drained_bytes := u32 (drained_bytes s div 2 + n_written),
            drain_start_usec := (if drain_start_usec s \<noteq> 0 then u64 (now - u64 (now - drain_start_usec s) div 2) else 0)\<rparr>
     else s\<lparr>drained_bytes := u32 (drained_bytes s + n_written)\<rparr>)"

definition xon_check_clock :: "int \<Rightarrow> bool \<Rightarrow> int \<Rightarrow> edge_connection \<Rightarrow> edge_connection" where
  "xon_check_clock now reliable total_buffered s =
    (if \<not> reliable then s\<lparr>drain_start_usec := 0, drained_bytes := 0\<rparr>
     else if drain_start_usec s = 0 \<and> total_buffered > 0 then s\<lparr>drain_start_usec := now, drained_bytes := 0\<rparr>
     else s)"

definition xon_note_rate :: "flow_params \<Rightarrow> int \<Rightarrow> edge_connection \<Rightarrow> edge_connection" where
  "xon_note_rate p drain_rate s =
    (if drain_rate \<noteq> 0
     then s\<lparr>prev_drained_bytes := drained_bytes s,
            ewma_drain_rate := u32 (n_count_ewma drain_rate (ewma_drain_rate s) (xon_ewma_cnt p)),
            drained_bytes := 0, drain_start_usec := 0\<rparr>
     else s\<lparr>prev_drained_bytes := drained_bytes s\<rparr>)"

definition xon_first_drain :: "edge_connection \<Rightarrow> edge_connection" where
  "xon_first_drain s = (if prev_drained_bytes s = 0 then s\<lparr>prev_drained_bytes := drained_bytes s\<rparr> else s)"

definition xon_update_rate :: "flow_params \<Rightarrow> int \<Rightarrow> bool \<Rightarrow> edge_connection \<Rightarrow> edge_connection" where
  "xon_update_rate p now reliable s =
    (if drain_start_usec s \<noteq> 0 \<and> drained_bytes s > xon_rate_bytes p
     then xon_note_rate p (compute_drain_rate now reliable (xon_first_drain s)) (xon_first_drain s)
     else s)"

definition xon_consider_sending :: "flow_params \<Rightarrow> bool \<Rightarrow> bool \<Rightarrow> int \<Rightarrow> edge_connection \<Rightarrow> edge_connection \<times> sent_cell list" where
  "xon_consider_sending p reliable send_ok total_buffered s =
    (if \<not> xoff_sent s
     then (if stream_drain_rate_changed p reliable s then circuit_send_stream_xon send_ok s else (s, []))
     else if total_buffered = 0 then circuit_send_stream_xon send_ok s else (s, []))"

definition xon_queue_empty :: "flow_params \<Rightarrow> int \<Rightarrow> edge_connection \<Rightarrow> edge_connection" where
  "xon_queue_empty p total_buffered s =
    (if total_buffered \<noteq> 0 then s
     else if drained_bytes s \<ge> xon_rate_bytes p \<and> ewma_rate_last_sent s \<noteq> 0
     then s\<lparr>drain_start_usec := 0, ewma_drain_rate := min INT32_MAX (u32 (2 * ewma_drain_rate s)),
            prev_drained_bytes := drained_bytes s, drained_bytes := 0\<rparr>
     else s\<lparr>drain_start_usec := 0\<rparr>)"

fun xon_finish :: "flow_params \<Rightarrow> int \<Rightarrow> edge_connection \<times> sent_cell list \<Rightarrow> edge_connection \<times> sent_cell list" where
  "xon_finish p total_buffered (s, out) = (xon_queue_empty p total_buffered s, out)"

definition flow_control_decide_xon :: "flow_params \<Rightarrow> int \<Rightarrow> bool \<Rightarrow> bool \<Rightarrow> int \<Rightarrow> int \<Rightarrow> edge_connection
    \<Rightarrow> edge_connection \<times> sent_cell list" where
  "flow_control_decide_xon p now reliable send_ok total_buffered n_written s =
    xon_finish p total_buffered (xon_consider_sending p reliable send_ok total_buffered
      (xon_update_rate p now reliable (xon_check_clock now reliable total_buffered (xon_count_drained now n_written s))))"

definition xoff_limit :: "flow_params \<Rightarrow> edge_connection \<Rightarrow> int" where
  "xoff_limit p s = (if local_edge s then xoff_client p else xoff_exit p)"

text \<open>After the XOFF is handed over, the drain rate and the grace period are cleared.\<close>

fun xoff_clear :: "edge_connection \<times> sent_cell list \<Rightarrow> edge_connection \<times> sent_cell list" where
  "xoff_clear (s, out) = (s\<lparr>ewma_drain_rate := 0, xoff_grace_period_start_usec := 0\<rparr>, out)"

definition xoff_consider_sending :: "flow_params \<Rightarrow> int \<Rightarrow> bool \<Rightarrow> int \<Rightarrow> edge_connection \<Rightarrow> edge_connection \<times> sent_cell list" where
  "xoff_consider_sending p now send_ok total_buffered s =
    (if total_buffered > xoff_limit p s
     then (if xoff_sent s then (s, [])
           else if xoff_grace_period_start_usec s = 0 then (s\<lparr>xoff_grace_period_start_usec := now\<rparr>, [])
           else if now > u64 (xoff_grace_period_start_usec s + XOFF_GRACE_PERIOD_USEC)
           then xoff_clear (circuit_send_stream_xoff send_ok s)
           else (s, []))
     else (s\<lparr>xoff_grace_period_start_usec := 0\<rparr>, []))"

text \<open>The XON that the last part of \<^verbatim>\<open>flow_control_decide_xoff\<close> may add.\<close>

fun xoff_burst :: "flow_params \<Rightarrow> int \<Rightarrow> bool \<Rightarrow> bool \<Rightarrow> int \<Rightarrow> edge_connection \<times> sent_cell list \<Rightarrow> edge_connection \<times> sent_cell list" where
  "xoff_burst p now reliable send_ok total_buffered (s, out) =
    (if total_buffered > MAX_EXPECTED_CELL_BURST * int RELAY_PAYLOAD_SIZE_MIN
     then (case flow_control_decide_xon p now reliable send_ok total_buffered 0 s of (s, out') \<Rightarrow> (s, out @ out'))
     else (s, out))"

definition flow_control_decide_xoff :: "flow_params \<Rightarrow> int \<Rightarrow> bool \<Rightarrow> bool \<Rightarrow> int \<Rightarrow> edge_connection
    \<Rightarrow> int \<times> edge_connection \<times> sent_cell list" where
  "flow_control_decide_xoff p now reliable send_ok total_buffered s =
    (if \<not> edge_uses_flow_control s then (-1, s, [])
     else (0, xoff_burst p now reliable send_ok total_buffered (xoff_consider_sending p now send_ok total_buffered s)))"

section \<open>Receiving\<close>

definition scale_down :: "edge_connection \<Rightarrow> edge_connection" where
  "scale_down s = s\<lparr>total_bytes_xmit := total_bytes_xmit s div 2, num_xoff_recv := num_xoff_recv s div 2,
                    num_xon_recv := num_xon_recv s div 2\<rparr>"

definition xoff_counted :: "edge_connection \<Rightarrow> edge_connection" where
  "xoff_counted s = (let s = (if num_xoff_recv s = XOFF_COUNT_SCALE_AT then scale_down s else s)
                     in s\<lparr>num_xoff_recv := u8 (num_xoff_recv s + 1)\<rparr>)"

definition xon_counted :: "edge_connection \<Rightarrow> edge_connection" where
  "xon_counted s = (let s = (if num_xon_recv s = XON_COUNT_SCALE_AT then scale_down s else s)
                    in s\<lparr>num_xon_recv := u8 (num_xon_recv s + 1)\<rparr>)"

definition circuit_process_stream_xoff :: "flow_params \<Rightarrow> edge_connection option \<Rightarrow> nat option \<Rightarrow> bool \<times> edge_connection option" where
  "circuit_process_stream_xoff p conn layer_hint =
    (case conn of
       None \<Rightarrow> (False, None)
     | Some s \<Rightarrow>
         if \<not> edge_uses_cpath s layer_hint then (False, conn)
         else if \<not> edge_uses_flow_control s then (False, conn)
         else if xoff_received s then (False, conn)
         else
           let s = xoff_counted s;
               retval = \<not> (local_edge s \<and>
                 total_bytes_xmit s < u32 ((if hs_ident s then xoff_client p else xoff_exit p) * num_xoff_recv s))
           in (retval, Some (s\<lparr>is_reading := False, xoff_received := True\<rparr>)))"

definition circuit_process_stream_xon :: "flow_params \<Rightarrow> edge_connection option \<Rightarrow> nat option \<Rightarrow> bytes \<Rightarrow> bool \<times> edge_connection option" where
  "circuit_process_stream_xon p conn layer_hint msg =
    (case conn of
       None \<Rightarrow> (False, None)
     | Some s \<Rightarrow>
         if \<not> edge_uses_cpath s layer_hint then (False, conn)
         else if \<not> edge_uses_flow_control s then (False, conn)
         else (case xon_cell_parse msg of
           None \<Rightarrow> (False, conn)
         | Some (_, kbps) \<Rightarrow>
             let s = xon_counted s;
                 retval = \<not> (local_edge s \<and>
                   total_bytes_xmit s < u32 (min (if hs_ident s then xoff_client p else xoff_exit p) (xon_rate_bytes p) * num_xon_recv s));
                 rate = u64 (kbps * 1000);
                 rate = (if rate = 0 \<or> INT32_MAX < rate then INT32_MAX else rate);
                 s = s\<lparr>stream_bucket := token_bucket_rw_adjust (stream_bucket s) (u32 rate) (u32 rate)\<rparr>
             in (retval, Some (if xoff_received s then s\<lparr>xoff_received := False, is_reading := True\<rparr> else s))))"

definition flow_control_note_sent_data :: "edge_connection \<Rightarrow> int \<Rightarrow> edge_connection" where
  "flow_control_note_sent_data s len =
    (let s = (if total_bytes_xmit s \<ge> u64 (TOTAL_XMIT_SCALE_AT - len) then scale_down s else s)
     in s\<lparr>total_bytes_xmit := u32 (total_bytes_xmit s + len)\<rparr>)"

end
