(* ===== verification/FlowControlSync.thy ===== *)
theory FlowControlSync
  imports FlowControl
begin

text \<open>
  Two ends of a stream with flow control and the cells between them, as a step relation. The end that
  buffers and the end that sends never disagree about a stop, whatever is buffered, drained and lost
  in between, and the rates they exchange stay in range.
\<close>

section \<open>Cells\<close>

lemma ntohl_htonl: "ntohl (htonl x) = u32 x"
proof -
  have "push_bit 24 (ucast (ucast (drop_bit 24 w) :: byte)) OR push_bit 16 (ucast (ucast (drop_bit 16 w) :: byte))
    OR push_bit 8 (ucast (ucast (drop_bit 8 w) :: byte)) OR ucast (ucast w :: byte) = w" for w :: "32 word"
  proof (rule bit_word_eqI)
    fix n assume "n < LENGTH(32)"
    then consider "n < 8" | "8 \<le> n" "n < 16" | "16 \<le> n" "n < 24" | "24 \<le> n" "n < 32" by fastforce
    then show "bit (push_bit 24 (ucast (ucast (drop_bit 24 w) :: byte)) OR push_bit 16 (ucast (ucast (drop_bit 16 w) :: byte))
      OR push_bit 8 (ucast (ucast (drop_bit 8 w) :: byte)) OR ucast (ucast w :: byte) :: 32 word) n = bit w n"
      by cases (simp_all add: bit_or_iff bit_push_bit_iff bit_ucast_iff bit_drop_bit_eq less_diff_conv2)
  qed
  then show ?thesis by (simp add: ntohl_def htonl_def Let_def uint_word_of_int to_unsigned_def)
qed

lemma length_htonl: "length (htonl x) = 4"
  by (simp add: htonl_def Let_def)

lemma xon_cell_roundtrip:
  "0 \<le> k \<Longrightarrow> k \<le> UINT32_MAX \<Longrightarrow> xon_cell_encode CELL_PAYLOAD_SIZE 0 k = Some m \<Longrightarrow> xon_cell_parse m = Some (0, k)"
  by (auto simp: xon_cell_encode_def xon_cell_parse_def length_htonl ntohl_htonl u32_id split: if_split_asm)

lemma xon_cell_encodes: "\<exists>m. xon_cell_encode CELL_PAYLOAD_SIZE 0 k = Some m"
  by (simp add: xon_cell_encode_def CELL_PAYLOAD_SIZE_def)

lemma xoff_cell_encodes: "\<exists>m. xoff_cell_encode CELL_PAYLOAD_SIZE 0 = Some m"
  by (simp add: xoff_cell_encode_def CELL_PAYLOAD_SIZE_def)

section \<open>What cells in flight do\<close>

text \<open>Whether the receiver is stopped after the cells, unless one is a second XOFF.\<close>

fun replay :: "bool \<Rightarrow> sent_cell list \<Rightarrow> bool option" where
  "replay b [] = Some b"
| "replay b ((c, m) # w) =
    (if c = RELAY_COMMAND_XOFF then (if b then None else replay True w)
     else if c = RELAY_COMMAND_XON then replay False w else None)"

lemma replay_append: "replay b (u @ v) = (case replay b u of None \<Rightarrow> None | Some b \<Rightarrow> replay b v)"
  by (induction b u rule: replay.induct) auto

definition cell_ok :: "sent_cell \<Rightarrow> bool" where
  "cell_ok c \<longleftrightarrow> fst c = RELAY_COMMAND_XON \<longrightarrow> (\<exists>k. xon_cell_parse (snd c) = Some (0, k) \<and> 0 \<le> k \<and> k \<le> INT32_MAX)"

definition rates_ok :: "edge_connection \<Rightarrow> bool" where
  "rates_ok s \<longleftrightarrow> 0 \<le> ewma_drain_rate s \<and> ewma_drain_rate s \<le> INT32_MAX \<and> 0 \<le> drained_bytes s \<and> 0 \<le> prev_drained_bytes s"

definition output_ok :: "edge_connection \<Rightarrow> edge_connection \<Rightarrow> sent_cell list \<Rightarrow> bool" where
  "output_ok s s' out \<longleftrightarrow> replay (xoff_sent s) out = Some (xoff_sent s') \<and> (\<forall>c \<in> set out. cell_ok c) \<and> rates_ok s'"

lemma output_ok_trans: "output_ok s t out \<Longrightarrow> output_ok t u out' \<Longrightarrow> output_ok s u (out @ out')"
  by (auto simp: output_ok_def replay_append)

lemma commands_differ: "RELAY_COMMAND_XON \<noteq> RELAY_COMMAND_XOFF"
  by (simp add: RELAY_COMMAND_XON_def RELAY_COMMAND_XOFF_def)

section \<open>The end that buffers\<close>

lemma drain_rate_bounds:
  assumes "0 \<le> prev_drained_bytes s"
  shows "0 \<le> compute_drain_rate now reliable s" "compute_drain_rate now reliable s \<le> INT32_MAX"
proof -
  let ?d = "u64 (now - drain_start_usec s)"
  have "0 \<le> compute_drain_rate now reliable s \<and> compute_drain_rate now reliable s \<le> INT32_MAX"
  proof (cases "reliable \<and> ?d \<noteq> 0 \<and> \<not> (prev_drained_bytes s > INT32_MAX div 1000 \<or> prev_drained_bytes s div ?d > INT32_MAX div 1000)")
    case True
    have d: "0 < ?d" using True u64_range(1) [of "now - drain_start_usec s"] by linarith
    have p: "u32 (prev_drained_bytes s * 1000) = prev_drained_bytes s * 1000" "prev_drained_bytes s * 1000 \<le> INT32_MAX"
      using True assms by (auto intro!: u32_id)
    have "prev_drained_bytes s * 1000 div ?d \<le> INT32_MAX"
      using p(2) assms d div_by_1 order.trans [OF zdiv_mono2 [of "prev_drained_bytes s * 1000" 1 ?d]] by simp
    then have "max 1 (prev_drained_bytes s * 1000 div ?d) \<le> INT32_MAX" by simp
    then have "u32 (max 1 (u32 (prev_drained_bytes s * 1000) div ?d)) = max 1 (prev_drained_bytes s * 1000 div ?d)"
      using p(1) by (simp add: u32_id)
    then show ?thesis using True \<open>max 1 _ \<le> INT32_MAX\<close> by (simp add: compute_drain_rate_def Let_def)
  qed (auto simp: compute_drain_rate_def Let_def)
  then show "0 \<le> compute_drain_rate now reliable s" "compute_drain_rate now reliable s \<le> INT32_MAX" by auto
qed

lemma note_rate_ok:
  assumes "rates_ok s" "2 \<le> xon_ewma_cnt p" "xon_ewma_cnt p \<le> 100" "0 \<le> r" "r \<le> INT32_MAX"
  shows "rates_ok (xon_note_rate p r s)"
proof -
  have "0 \<le> n_count_ewma r (ewma_drain_rate s) (xon_ewma_cnt p) \<and> n_count_ewma r (ewma_drain_rate s) (xon_ewma_cnt p) < INT32_MAX + 1"
    using assms by (intro ewma_bound) (auto simp: rates_ok_def RTT_LIMIT_def)
  then show ?thesis using assms(1) by (auto simp: xon_note_rate_def rates_ok_def u32_id)
qed

lemma first_drain_ok: "rates_ok s \<Longrightarrow> rates_ok (xon_first_drain s)"
  by (simp add: xon_first_drain_def rates_ok_def)

lemma update_rate_ok:
  assumes "rates_ok s" "2 \<le> xon_ewma_cnt p" "xon_ewma_cnt p \<le> 100"
  shows "rates_ok (xon_update_rate p now reliable s)"
proof -
  note f = first_drain_ok [OF assms(1)]
  have "0 \<le> prev_drained_bytes (xon_first_drain s)" using f by (simp add: rates_ok_def)
  note d = drain_rate_bounds [OF this, of now reliable]
  show ?thesis using assms note_rate_ok [OF f assms(2,3) d] by (simp add: xon_update_rate_def)
qed

lemma xon_prefix_same_sent:
  "xoff_sent (xon_count_drained now n s) = xoff_sent s"
  "xoff_sent (xon_check_clock now reliable b s) = xoff_sent s"
  "xoff_sent (xon_update_rate p now reliable s) = xoff_sent s"
  "xoff_sent (xon_queue_empty p b s) = xoff_sent s"
  by (auto simp: xon_count_drained_def xon_check_clock_def xon_update_rate_def xon_note_rate_def xon_first_drain_def xon_queue_empty_def)

lemma count_drained_ok: "rates_ok s \<Longrightarrow> rates_ok (xon_count_drained now n s)"
  using u32_range by (auto simp: xon_count_drained_def rates_ok_def)

lemma check_clock_ok: "rates_ok s \<Longrightarrow> rates_ok (xon_check_clock now reliable b s)"
  by (auto simp: xon_check_clock_def rates_ok_def)

lemma queue_empty_ok: "rates_ok s \<Longrightarrow> rates_ok (xon_queue_empty p b s)"
  using u32_range by (auto simp: xon_queue_empty_def rates_ok_def)

lemma send_xon_ok:
  assumes "rates_ok s"
  shows "circuit_send_stream_xon send_ok s = (s', out) \<Longrightarrow> output_ok s s' out"
proof -
  assume a: "circuit_send_stream_xon send_ok s = (s', out)"
  obtain m where m: "xon_cell_encode CELL_PAYLOAD_SIZE 0 (ewma_drain_rate s) = Some m" using xon_cell_encodes by blast
  have "xon_cell_parse m = Some (0, ewma_drain_rate s)" using m assms by (intro xon_cell_roundtrip) (auto simp: rates_ok_def)
  then show ?thesis
    using a m assms commands_differ by (auto simp: circuit_send_stream_xon_def output_ok_def cell_ok_def rates_ok_def split: if_split_asm)
qed

lemma send_xoff_ok:
  assumes "rates_ok s" "\<not> xoff_sent s"
  shows "circuit_send_stream_xoff send_ok s = (s', out) \<Longrightarrow> output_ok s s' out"
  using assms xoff_cell_encodes commands_differ
  by (auto simp: circuit_send_stream_xoff_def output_ok_def cell_ok_def rates_ok_def split: if_split_asm option.splits)

lemma consider_xon_ok:
  assumes "rates_ok s" "xon_consider_sending p reliable send_ok b s = (s', out)"
  shows "output_ok s s' out"
proof -
  have "output_ok s s []" using assms(1) by (simp add: output_ok_def)
  then show ?thesis using assms(2) send_xon_ok [OF assms(1)] by (auto simp: xon_consider_sending_def split: if_split_asm)
qed

lemma decide_xon_ok:
  assumes "rates_ok s" "2 \<le> xon_ewma_cnt p" "xon_ewma_cnt p \<le> 100"
    "flow_control_decide_xon p now reliable send_ok b n s = (s', out)"
  shows "output_ok s s' out"
proof -
  let ?t = "xon_update_rate p now reliable (xon_check_clock now reliable b (xon_count_drained now n s))"
  obtain u where u: "xon_consider_sending p reliable send_ok b ?t = (u, out)" "s' = xon_queue_empty p b u"
    using assms(4) by (cases "xon_consider_sending p reliable send_ok b ?t") (auto simp: flow_control_decide_xon_def)
  have "rates_ok ?t" using assms(1-3) by (intro update_rate_ok check_clock_ok count_drained_ok)
  then have "output_ok ?t u out" using u(1) by (rule consider_xon_ok)
  then show ?thesis using u(2) queue_empty_ok by (auto simp: output_ok_def xon_prefix_same_sent)
qed

lemma decide_xoff_ok:
  assumes "rates_ok s" "2 \<le> xon_ewma_cnt p" "xon_ewma_cnt p \<le> 100"
    "flow_control_decide_xoff p now reliable send_ok b s = (r, s', out)"
  shows "output_ok s s' out"
proof (cases "edge_uses_flow_control s")
  case True
  obtain t out1 where t: "xoff_consider_sending p now send_ok b s = (t, out1)" by fastforce
  have o1: "output_ok s t out1"
  proof (cases "circuit_send_stream_xoff send_ok s")
    case (Pair v out2)
    then have "\<not> xoff_sent s \<Longrightarrow> output_ok s v out2" using send_xoff_ok assms(1) by blast
    then show ?thesis
      using t Pair assms(1) by (auto simp: xoff_consider_sending_def output_ok_def rates_ok_def split: if_split_asm)
  qed
  show ?thesis
  proof (cases "b > MAX_EXPECTED_CELL_BURST * int RELAY_PAYLOAD_SIZE_MIN")
    case burst: True
    obtain v out2 where v: "flow_control_decide_xon p now reliable send_ok b 0 t = (v, out2)" by fastforce
    have "rates_ok t" using o1 by (simp add: output_ok_def)
    then have "output_ok t v out2" using v assms(2,3) decide_xon_ok by blast
    moreover have "s' = v" "out = out1 @ out2" using assms(4) True t v burst by (auto simp: flow_control_decide_xoff_def)
    ultimately show ?thesis using o1 output_ok_trans by blast
  next
    case False
    then show ?thesis using assms(4) True t o1 by (auto simp: flow_control_decide_xoff_def)
  qed
qed (use assms in \<open>auto simp: flow_control_decide_xoff_def output_ok_def\<close>)

lemma drained_resumes: "\<not> xoff_sent (fst (flow_control_decide_xon p now reliable True 0 n s))"
proof -
  have x: "xon_finish p 0 r = (xon_queue_empty p 0 (fst r), snd r)" for r by (cases r) simp
  have "\<not> xoff_sent (fst (xon_consider_sending p reliable True 0 t))" for t
    by (cases "xon_cell_encode CELL_PAYLOAD_SIZE 0 (ewma_drain_rate t)")
      (use xon_cell_encodes [of "ewma_drain_rate t"] in \<open>auto simp: xon_consider_sending_def circuit_send_stream_xon_def\<close>)
  then show ?thesis by (simp add: flow_control_decide_xon_def x xon_prefix_same_sent(4))
qed

section \<open>Both ends\<close>

text \<open>The near end buffers what arrives on the circuit; the far end packages data for it. Clocks, buffer
  levels, failures to send and the amounts of data are arbitrary.\<close>

record stream_link =
  near_end :: edge_connection
  far_end :: edge_connection
  wire :: "sent_cell list"

inductive stream_step :: "flow_params \<Rightarrow> nat option \<Rightarrow> stream_link \<Rightarrow> stream_link \<Rightarrow> bool"
  for p :: flow_params and hint :: "nat option" where
  near_data: "flow_control_decide_xoff p now reliable send_ok buffered (near_end l) = (r, n, out) \<Longrightarrow>
    stream_step p hint l (l\<lparr>near_end := n, wire := wire l @ out\<rparr>)"
| near_drain: "flow_control_decide_xon p now reliable send_ok buffered n_written (near_end l) = (n, out) \<Longrightarrow>
    stream_step p hint l (l\<lparr>near_end := n, wire := wire l @ out\<rparr>)"
| far_sent: "stream_step p hint l (l\<lparr>far_end := flow_control_note_sent_data (far_end l) len\<rparr>)"
| far_xoff: "wire l = (RELAY_COMMAND_XOFF, m) # w \<Longrightarrow> circuit_process_stream_xoff p (Some (far_end l)) hint = (v, Some f) \<Longrightarrow>
    stream_step p hint l (l\<lparr>far_end := f, wire := w\<rparr>)"
| far_xon: "wire l = (RELAY_COMMAND_XON, m) # w \<Longrightarrow> circuit_process_stream_xon p (Some (far_end l)) hint m = (v, Some f) \<Longrightarrow>
    stream_step p hint l (l\<lparr>far_end := f, wire := w\<rparr>)"

inductive stream_run :: "flow_params \<Rightarrow> nat option \<Rightarrow> stream_link \<Rightarrow> stream_link \<Rightarrow> bool"
  for p :: flow_params and hint :: "nat option" and l :: stream_link where
  run_here: "stream_run p hint l l"
| run_step: "stream_run p hint l l' \<Longrightarrow> stream_step p hint l' l'' \<Longrightarrow> stream_run p hint l l''"

definition fresh_link :: "nat option \<Rightarrow> stream_link \<Rightarrow> bool" where
  "fresh_link hint l \<longleftrightarrow> wire l = [] \<and> \<not> xoff_sent (near_end l) \<and> \<not> xoff_received (far_end l) \<and> is_reading (far_end l)
    \<and> edge_uses_flow_control (far_end l) \<and> edge_uses_cpath (far_end l) hint
    \<and> ewma_drain_rate (near_end l) = 0 \<and> drained_bytes (near_end l) = 0 \<and> prev_drained_bytes (near_end l) = 0
    \<and> rw_ok (stream_bucket (far_end l))"

definition link_ok :: "nat option \<Rightarrow> stream_link \<Rightarrow> bool" where
  "link_ok hint l \<longleftrightarrow> replay (xoff_received (far_end l)) (wire l) = Some (xoff_sent (near_end l))
    \<and> (\<forall>c \<in> set (wire l). cell_ok c) \<and> rates_ok (near_end l)
    \<and> edge_uses_flow_control (far_end l) \<and> edge_uses_cpath (far_end l) hint
    \<and> is_reading (far_end l) = (\<not> xoff_received (far_end l)) \<and> rw_ok (stream_bucket (far_end l))"

lemma near_keeps_link_ok:
  "link_ok hint l \<Longrightarrow> output_ok (near_end l) n out \<Longrightarrow> link_ok hint (l\<lparr>near_end := n, wire := wire l @ out\<rparr>)"
  by (auto simp: link_ok_def output_ok_def replay_append)

lemma same_uses:
  assumes "on_circuit a = on_circuit b" "cpath_layer a = cpath_layer b"
    "on_circuit_ccontrol a = on_circuit_ccontrol b" "cpath_layer_ccontrol a = cpath_layer_ccontrol b"
  shows "edge_uses_flow_control a = edge_uses_flow_control b" "edge_uses_cpath a h = edge_uses_cpath b h"
  using assms by (simp_all add: edge_uses_flow_control_def edge_uses_cpath_def split: option.split edge_circuit.split)

lemma counted_same:
  "edge_uses_flow_control (xoff_counted s) = edge_uses_flow_control s" "edge_uses_cpath (xoff_counted s) h = edge_uses_cpath s h"
  "edge_uses_flow_control (xon_counted s) = edge_uses_flow_control s" "edge_uses_cpath (xon_counted s) h = edge_uses_cpath s h"
  "xoff_received (xoff_counted s) = xoff_received s" "xoff_received (xon_counted s) = xoff_received s"
  "is_reading (xoff_counted s) = is_reading s" "is_reading (xon_counted s) = is_reading s"
  "stream_bucket (xoff_counted s) = stream_bucket s" "stream_bucket (xon_counted s) = stream_bucket s"
  by (rule same_uses; simp add: xoff_counted_def xon_counted_def scale_down_def Let_def)+
     (simp_all add: xoff_counted_def xon_counted_def scale_down_def Let_def)

lemma uses_update [simp]:
  "edge_uses_flow_control (s\<lparr>is_reading := a, xoff_received := b\<rparr>) = edge_uses_flow_control s"
  "edge_uses_cpath (s\<lparr>is_reading := a, xoff_received := b\<rparr>) h = edge_uses_cpath s h"
  "edge_uses_flow_control (s\<lparr>stream_bucket := c, xoff_received := b, is_reading := a\<rparr>) = edge_uses_flow_control s"
  "edge_uses_cpath (s\<lparr>stream_bucket := c, xoff_received := b, is_reading := a\<rparr>) h = edge_uses_cpath s h"
  "edge_uses_flow_control (s\<lparr>stream_bucket := c\<rparr>) = edge_uses_flow_control s"
  "edge_uses_cpath (s\<lparr>stream_bucket := c\<rparr>) h = edge_uses_cpath s h"
  by (rule same_uses; simp)+

text \<open>Handling a cell: the flags of the far end, if the cell is the one it should be.\<close>

lemma process_xoff_effect:
  assumes "edge_uses_flow_control s" "edge_uses_cpath s hint" "\<not> xoff_received s"
    "circuit_process_stream_xoff p (Some s) hint = (v, Some f)"
  shows "xoff_received f" "\<not> is_reading f" "edge_uses_flow_control f" "edge_uses_cpath f hint"
    "stream_bucket f = stream_bucket s"
  using assms by (auto simp: circuit_process_stream_xoff_def counted_same Let_def)

text \<open>The bytes per second an XON with \<open>k\<close> kilobytes per second stands for: all there are if \<open>k\<close> is 0 or too large
  for the bucket.\<close>

definition xon_bytes_per_second :: "int \<Rightarrow> int" where
  "xon_bytes_per_second k = (if k = 0 then INT32_MAX else min INT32_MAX (k * 1000))"

lemma xon_rate_clamped:
  assumes "0 \<le> k" "k \<le> INT32_MAX"
  shows "u32 (if u64 (k * 1000) = 0 \<or> INT32_MAX < u64 (k * 1000) then INT32_MAX else u64 (k * 1000)) = xon_bytes_per_second k"
  using assms by (simp add: u64_id u32_id xon_bytes_per_second_def min_def)

lemma xon_bytes_range: "0 \<le> k \<Longrightarrow> 0 < xon_bytes_per_second k \<and> xon_bytes_per_second k \<le> INT32_MAX"
  by (simp add: xon_bytes_per_second_def)

lemma rw_adjust_ok:
  assumes "rw_ok b" "0 < burst"
  shows "rw_ok (token_bucket_rw_adjust b rate burst)"
  using assms raw_adjust_ok cfg_init_ok [OF rate_per_step_pos assms(2)]
  by (auto simp: token_bucket_rw_adjust_def rw_ok_def raw_ok_def [of "rw_cfg b"] Let_def)

lemma process_xon_shape:
  assumes "edge_uses_flow_control s" "edge_uses_cpath s hint" "xon_cell_parse m = Some (0, k)" "0 \<le> k" "k \<le> INT32_MAX"
    "circuit_process_stream_xon p (Some s) hint m = (v, Some f)"
  shows "f = (let g = (xon_counted s)\<lparr>stream_bucket :=
                token_bucket_rw_adjust (stream_bucket s) (xon_bytes_per_second k) (xon_bytes_per_second k)\<rparr>
              in if xoff_received s then g\<lparr>xoff_received := False, is_reading := True\<rparr> else g)"
proof -
  define b where "b = token_bucket_rw_adjust (stream_bucket s) (xon_bytes_per_second k) (xon_bytes_per_second k)"
  have "\<exists>r. circuit_process_stream_xon p (Some s) hint m
    = (r, Some (let g = (xon_counted s)\<lparr>stream_bucket := b\<rparr>
        in if xoff_received s then g\<lparr>xoff_received := False, is_reading := True\<rparr> else g))"
    unfolding circuit_process_stream_xon_def Let_def assms(3) option.case prod.case xon_rate_clamped [OF assms(4,5)]
    by (simp add: assms(1,2) counted_same b_def)
  then show ?thesis using assms(6) unfolding b_def by auto
qed

lemma process_xon_effect:
  assumes "edge_uses_flow_control s" "edge_uses_cpath s hint" "xon_cell_parse m = Some (0, k)" "0 \<le> k" "k \<le> INT32_MAX"
    "is_reading s = (\<not> xoff_received s)" "rw_ok (stream_bucket s)" "circuit_process_stream_xon p (Some s) hint m = (v, Some f)"
  shows "\<not> xoff_received f" "is_reading f" "edge_uses_flow_control f" "edge_uses_cpath f hint"
    "stream_bucket f = token_bucket_rw_adjust (stream_bucket s) (xon_bytes_per_second k) (xon_bytes_per_second k)"
    "rw_ok (stream_bucket f)"
  using process_xon_shape [OF assms(1-5,8)] assms(1,2,6) rw_adjust_ok [OF assms(7)] xon_bytes_range [OF assms(4)]
  by (auto simp: counted_same Let_def split: if_split_asm)

text \<open>What an XON in flight will do to the far end.\<close>

definition xon_sets_rate :: "flow_params \<Rightarrow> nat option \<Rightarrow> edge_connection \<Rightarrow> bytes \<Rightarrow> bool" where
  "xon_sets_rate p hint s m \<longleftrightarrow>
    (\<exists>kbps. xon_cell_parse m = Some (0, kbps) \<and> 0 \<le> kbps
      \<and> (case circuit_process_stream_xon p (Some s) hint m of
           (_, None) \<Rightarrow> False
         | (_, Some f) \<Rightarrow> is_reading f \<and> rw_ok (stream_bucket f)
             \<and> rw_cfg (stream_bucket f) = \<lparr>cfg_rate = rate_per_sec_to_rate_per_step (xon_bytes_per_second kbps),
                                            cfg_burst = xon_bytes_per_second kbps\<rparr>))"

lemma process_xon_some:
  "\<exists>v f. circuit_process_stream_xon p (Some s) hint m = (v, Some f)"
  by (cases "xon_cell_parse m") (auto simp: circuit_process_stream_xon_def Let_def)

lemma cfg_init_xon: "0 \<le> k \<Longrightarrow> token_bucket_cfg_init r (xon_bytes_per_second k) = \<lparr>cfg_rate = r, cfg_burst = xon_bytes_per_second k\<rparr>"
  using xon_bytes_range [of k] by (simp add: token_bucket_cfg_init_def TOKEN_BUCKET_MAX_BURST_def Let_def i32_id)

lemma ok_cell_sets_rate:
  assumes "link_ok hint l" "(RELAY_COMMAND_XON, m) \<in> set (wire l)"
  shows "xon_sets_rate p hint (far_end l) m"
proof -
  obtain k where k: "xon_cell_parse m = Some (0, k)" "0 \<le> k" "k \<le> INT32_MAX"
    using assms by (auto simp: link_ok_def cell_ok_def)
  obtain v f where f: "circuit_process_stream_xon p (Some (far_end l)) hint m = (v, Some f)" using process_xon_some by blast
  have "edge_uses_flow_control (far_end l)" "edge_uses_cpath (far_end l) hint"
    "is_reading (far_end l) = (\<not> xoff_received (far_end l))" "rw_ok (stream_bucket (far_end l))"
    using assms(1) by (simp_all add: link_ok_def)
  note e = process_xon_effect [OF this(1,2) k this(3,4) f]
  show ?thesis
    using k f e(2,6) cfg_init_xon [OF k(2)] by (auto simp: xon_sets_rate_def e(5) token_bucket_rw_adjust_def Let_def)
qed

lemma stream_step_ok:
  assumes "stream_step p hint l l'" "link_ok hint l" "2 \<le> xon_ewma_cnt p" "xon_ewma_cnt p \<le> 100"
  shows "link_ok hint l'"
  using assms
proof (induction rule: stream_step.induct)
  case (near_data now reliable send_ok buffered l r n out)
  have "rates_ok (near_end l)" using near_data.prems by (simp add: link_ok_def)
  then show ?case using near_data decide_xoff_ok near_keeps_link_ok by metis
next
  case (near_drain now reliable send_ok buffered n_written l n out)
  have "rates_ok (near_end l)" using near_drain.prems by (simp add: link_ok_def)
  then show ?case using near_drain decide_xon_ok near_keeps_link_ok by metis
next
  case (far_sent l len)
  have "edge_uses_flow_control (flow_control_note_sent_data s len) = edge_uses_flow_control s"
    "edge_uses_cpath (flow_control_note_sent_data s len) hint = edge_uses_cpath s hint"
    "xoff_received (flow_control_note_sent_data s len) = xoff_received s"
    "is_reading (flow_control_note_sent_data s len) = is_reading s"
    "stream_bucket (flow_control_note_sent_data s len) = stream_bucket s" for s
    by (rule same_uses; simp add: flow_control_note_sent_data_def scale_down_def Let_def)+
      (simp_all add: flow_control_note_sent_data_def scale_down_def Let_def)
  then show ?case using far_sent by (simp add: link_ok_def)
next
  case (far_xoff l m w v f)
  have "\<not> xoff_received (far_end l)" using far_xoff by (auto simp: link_ok_def split: if_split_asm)
  then show ?case using far_xoff process_xoff_effect [of "far_end l" hint p v f] by (auto simp: link_ok_def)
next
  case (far_xon l m w v f)
  have "cell_ok (RELAY_COMMAND_XON, m)" using far_xon by (simp add: link_ok_def)
  then obtain k where "xon_cell_parse m = Some (0, k)" "0 \<le> k" "k \<le> INT32_MAX" by (auto simp: cell_ok_def)
  then show ?case using far_xon process_xon_effect [of "far_end l" hint m k p v f] commands_differ by (auto simp: link_ok_def)
qed

lemma stream_run_ok:
  "stream_run p hint l l' \<Longrightarrow> link_ok hint l \<Longrightarrow> 2 \<le> xon_ewma_cnt p \<Longrightarrow> xon_ewma_cnt p \<le> 100 \<Longrightarrow> link_ok hint l'"
  by (induction rule: stream_run.induct) (auto intro: stream_step_ok)

section \<open>Property\<close>

text \<open>C6: Over any run of a stream, the end that packages data never gets a second XOFF before an XON
  and is stopped exactly while the last cell it handled was an XOFF; when no cell is in flight it is
  stopped exactly if the other end means it to be. Every XON in flight, if that end handles it now, lets it read on and
  sets its well-formed bucket to a burst of exactly 1000 times the rate in the cell, capped at the largest
  signed 32-bit value, which also stands for 0, and to the rate per step that stands for it. Writing out the last byte of
  the buffer always lets it go on.\<close>

theorem stream_xoff_xon_agree:
  assumes "fresh_link hint l" "2 \<le> xon_ewma_cnt p" "xon_ewma_cnt p \<le> 100" "stream_run p hint l l'"
  shows "is_reading (far_end l') = (\<not> xoff_received (far_end l'))
    \<and> (wire l' = [] \<longrightarrow> xoff_received (far_end l') = xoff_sent (near_end l'))
    \<and> (\<forall>m w. wire l' = (RELAY_COMMAND_XOFF, m) # w \<longrightarrow> \<not> xoff_received (far_end l'))
    \<and> (\<forall>m. (RELAY_COMMAND_XON, m) \<in> set (wire l') \<longrightarrow> xon_sets_rate p hint (far_end l') m)
    \<and> rw_ok (stream_bucket (far_end l'))
    \<and> 0 \<le> ewma_drain_rate (near_end l') \<and> ewma_drain_rate (near_end l') \<le> INT32_MAX
    \<and> (\<forall>now reliable n. \<not> xoff_sent (fst (flow_control_decide_xon p now reliable True 0 n (near_end l'))))"
proof -
  have "link_ok hint l" using assms(1) by (auto simp: fresh_link_def link_ok_def rates_ok_def)
  then have "link_ok hint l'" using stream_run_ok assms by blast
  then show ?thesis
    using drained_resumes ok_cell_sets_rate by (auto simp: link_ok_def rates_ok_def split: if_split_asm)
qed

definition sample_edge :: edge_connection where
  "sample_edge = \<lparr>package_window = 500, deliver_window = 500, on_circuit = Some Or_circ, on_circuit_ccontrol = True,
     cpath_layer = None, cpath_layer_ccontrol = False, type_ap = False, hs_ident = False,
     stream_bucket = \<lparr>rw_cfg = \<lparr>cfg_rate = 1, cfg_burst = 1\<rparr>, read_bucket = \<lparr>bucket = 1\<rparr>, write_bucket = \<lparr>bucket = 1\<rparr>, rw_last_refilled_at = 0\<rparr>,
     is_reading = True, drain_start_usec = 0, xoff_grace_period_start_usec = 0, drained_bytes = 0, prev_drained_bytes = 0,
     ewma_drain_rate = 0, ewma_rate_last_sent = 0, total_bytes_xmit = 0, num_xoff_recv = 0, num_xon_recv = 0,
     xoff_sent = False, xoff_received = False\<rparr>"

definition sample_flow_params :: flow_params where
  "sample_flow_params = \<lparr>xoff_client = 245000, xoff_exit = 245000, xon_change_pct = 25, xon_ewma_cnt = 2, xon_rate_bytes = 249000\<rparr>"

definition sample_link :: stream_link where
  "sample_link = \<lparr>near_end = sample_edge, far_end = sample_edge, wire = []\<rparr>"

text \<open>The buffer stays above the limit past the grace period, and the XOFF arrives.\<close>

definition after_xoff :: stream_link where
  "after_xoff = sample_link\<lparr>near_end := sample_edge\<lparr>xoff_sent := True, drain_start_usec := 1\<rparr>,
     far_end := sample_edge\<lparr>num_xoff_recv := 1, is_reading := False, xoff_received := True\<rparr>\<rparr>"

lemma sample_run: "stream_run sample_flow_params None sample_link after_xoff"
proof -
  let ?P = sample_flow_params
  let ?n1 = "sample_edge\<lparr>xoff_grace_period_start_usec := 1, drain_start_usec := 1\<rparr>"
  let ?n2 = "sample_edge\<lparr>xoff_sent := True, drain_start_usec := 1\<rparr>"
  have d: "flow_control_decide_xoff ?P 1 True True 300000 sample_edge = (0, ?n1, [])"
    "flow_control_decide_xoff ?P 6000 True True 300000 ?n1 = (0, ?n2, [(RELAY_COMMAND_XOFF, [0])])"
    "circuit_process_stream_xoff ?P (Some sample_edge) None
      = (True, Some (sample_edge\<lparr>num_xoff_recv := 1, is_reading := False, xoff_received := True\<rparr>))"
    by code_simp+
  have e: "near_end sample_link = sample_edge" "far_end sample_link = sample_edge" by (simp_all add: sample_link_def)
  let ?l1 = "sample_link\<lparr>near_end := ?n1, wire := wire sample_link @ []\<rparr>"
  let ?l2 = "?l1\<lparr>near_end := ?n2, wire := wire ?l1 @ [(RELAY_COMMAND_XOFF, [0])]\<rparr>"
  let ?l3 = "?l2\<lparr>far_end := sample_edge\<lparr>num_xoff_recv := 1, is_reading := False, xoff_received := True\<rparr>, wire := []\<rparr>"
  have s1: "stream_step ?P None sample_link ?l1" by (rule near_data, subst e, rule d(1))
  have s2: "stream_step ?P None ?l1 ?l2" by (rule near_data) (use d(2) in simp)
  have s3: "stream_step ?P None ?l2 ?l3" by (rule far_xoff) (use d(3) in \<open>simp_all add: sample_link_def\<close>)
  have "?l3 = after_xoff" by (simp add: after_xoff_def sample_link_def)
  then show ?thesis using run_step [OF run_step [OF run_step [OF run_here s1] s2] s3] by simp
qed

lemma stream_xoff_xon_agree_witness:
  "is_reading (far_end after_xoff) = (\<not> xoff_received (far_end after_xoff))
    \<and> xoff_received (far_end after_xoff) = xoff_sent (near_end after_xoff) \<and> ewma_drain_rate (near_end after_xoff) \<le> INT32_MAX
    \<and> \<not> xoff_sent (fst (flow_control_decide_xon sample_flow_params 7000 True True 0 300000 (near_end after_xoff)))"
proof -
  have "fresh_link None sample_link" by code_simp
  moreover have "2 \<le> xon_ewma_cnt sample_flow_params" "xon_ewma_cnt sample_flow_params \<le> 100"
    by (simp_all add: sample_flow_params_def)
  moreover have "wire after_xoff = []" by (simp add: after_xoff_def sample_link_def)
  ultimately show ?thesis using stream_xoff_xon_agree [OF _ _ _ sample_run] by blast
qed

end
