(* ===== verification/Sendme.thy ===== *)
theory Sendme
  imports FlowControl
begin

text \<open>
  SENDME cells, \<^verbatim>\<open>src/core/or/sendme.c\<close>: the windows of circuits and streams, the tags a
  sender remembers and the SENDMEs that must repeat them, with the cell format of
  \<^verbatim>\<open>src/trunnel/sendme_cell.c\<close> and the callers in \<^verbatim>\<open>src/core/or/relay.c\<close>. A hop of an
  origin circuit is its index in the path; a circuit at a relay has its own windows. The tags come from
  the onion layers. \<^const>\<open>None\<close> is a failed assertion.
\<close>

section \<open>State\<close>

record hop_flow =
  hop_package_window :: int
  hop_deliver_window :: int
  hop_ccontrol :: "congestion_control option"
  hop_crypto :: relay_crypto

record circuit_flow =
  circ_is_origin :: bool
  circ_own :: hop_flow
  circ_cpath :: "hop_flow list"
  sendme_last_digests :: "bytes list option"
  sendme_digest_hop :: "nat option"
  used_legacy_circuit_handshake :: bool
  used_obsolete_sendme :: bool

definition CIRCWINDOW_START :: int where "CIRCWINDOW_START = 1000"
definition CIRCWINDOW_START_MIN :: int where "CIRCWINDOW_START_MIN = 100"
definition CIRCWINDOW_START_MAX :: int where "CIRCWINDOW_START_MAX = 1000"
definition CIRCWINDOW_INCREMENT :: int where "CIRCWINDOW_INCREMENT = 100"
definition STREAMWINDOW_START :: int where "STREAMWINDOW_START = 500"
definition STREAMWINDOW_START_MAX :: int where "STREAMWINDOW_START_MAX = 500"
definition STREAMWINDOW_INCREMENT :: int where "STREAMWINDOW_INCREMENT = 50"
definition SENDME_MAX_SUPPORTED_VERSION :: int where "SENDME_MAX_SUPPORTED_VERSION = 1"
definition END_CIRC_REASON_TORPROTOCOL :: int where "END_CIRC_REASON_TORPROTOCOL = 1"

text \<open>The object a layer hint stands for.\<close>

fun flow_at :: "circuit_flow \<Rightarrow> nat option \<Rightarrow> hop_flow" where
  "flow_at circ None = circ_own circ"
| "flow_at circ (Some h) = circ_cpath circ ! h"

fun set_flow :: "nat option \<Rightarrow> hop_flow \<Rightarrow> circuit_flow \<Rightarrow> circuit_flow" where
  "set_flow None f circ = circ\<lparr>circ_own := f\<rparr>"
| "set_flow (Some h) f circ = circ\<lparr>circ_cpath := (circ_cpath circ)[h := f]\<rparr>"

definition circuit_initial_package_window :: "networkstatus option \<Rightarrow> int option" where
  "circuit_initial_package_window latest = do {
     num \<leftarrow> networkstatus_get_param latest None ''circwindow'' CIRCWINDOW_START CIRCWINDOW_START_MIN CIRCWINDOW_START_MAX;
     Some (if num < 0 then CIRCWINDOW_START else num)
   }"

section \<open>Windows\<close>

definition congestion_control_get_package_window :: "circuit_flow \<Rightarrow> nat option \<Rightarrow> int" where
  "congestion_control_get_package_window circ cpath =
    (case hop_ccontrol (flow_at circ cpath) of
       None \<Rightarrow> hop_package_window (flow_at circ cpath)
     | Some cc \<Rightarrow> congestion_control_package_window cc)"

definition sendme_get_inc_count :: "circuit_flow \<Rightarrow> nat option \<Rightarrow> int" where
  "sendme_get_inc_count circ layer_hint =
    (case hop_ccontrol (flow_at circ layer_hint) of None \<Rightarrow> CIRCWINDOW_INCREMENT | Some cc \<Rightarrow> sendme_inc cc)"

definition circuit_sent_cell_for_sendme :: "circuit_flow \<Rightarrow> nat option \<Rightarrow> bool" where
  "circuit_sent_cell_for_sendme circ layer_hint \<longleftrightarrow>
    (case hop_ccontrol (flow_at circ layer_hint) of
       Some cc \<Rightarrow> cc_sent_cell_for_sendme cc
     | None \<Rightarrow>
         (let window = hop_package_window (flow_at circ layer_hint)
          in window \<noteq> CIRCWINDOW_START \<and> (window - 1) mod CIRCWINDOW_INCREMENT = 0))"

section \<open>The cell\<close>

record sendme_cell =
  sendme_version :: byte
  sendme_data_len :: "16 word"
  data_v1_digest :: bytes

definition sendme_cell_check :: "sendme_cell \<Rightarrow> bool" where
  "sendme_cell_check obj \<longleftrightarrow> (sendme_version obj = 0 \<or> sendme_version obj = 1) \<and> (sendme_data_len obj = 16 \<or> sendme_data_len obj = 20)"

definition sendme_cell_encode :: "nat \<Rightarrow> sendme_cell \<Rightarrow> bytes option" where
  "sendme_cell_encode avail obj =
    (if \<not> sendme_cell_check obj then None
     else if avail < 1 then None
     else if avail - 1 < 2 then None
     else
       let dat = (if sendme_version obj = 0 then [] else data_v1_digest obj)
       in if avail - 3 < length dat then None
          else if length dat > 65535 then None
          else Some (sendme_version obj # htons (word_of_nat (length dat)) @ dat))"

definition sendme_cell_parse :: "bytes \<Rightarrow> sendme_cell option" where
  "sendme_cell_parse input =
    (if length input < 1 then None
     else
       let version = input ! 0
       in if \<not> (version = 0 \<or> version = 1) then None
          else if length input - 1 < 2 then None
          else
            let len = ntohs (take 2 (drop 1 input))
            in if \<not> (len = 16 \<or> len = 20) then None
               else if length input - 3 < unat len then None
               else Some \<lparr>sendme_version = version, sendme_data_len = len,
                          data_v1_digest = (if version = 0 then [] else take (unat len) (drop 3 input))\<rparr>)"

section \<open>Versions and tags\<close>

definition tag_len_ok :: "nat \<Rightarrow> bool" where
  "tag_len_ok tag_len \<longleftrightarrow> tag_len = SENDME_TAG_LEN_CGO \<or> tag_len = SENDME_TAG_LEN_TOR1"

definition get_emit_min_version :: "networkstatus option \<Rightarrow> int option" where
  "get_emit_min_version latest = networkstatus_get_param latest None ''sendme_emit_min_version'' 1 0 255"

definition get_accept_min_version :: "networkstatus option \<Rightarrow> int option" where
  "get_accept_min_version latest = networkstatus_get_param latest None ''sendme_accept_min_version'' 0 0 255"

definition pop_first_cell_digest :: "circuit_flow \<Rightarrow> nat option \<Rightarrow> bytes option \<times> circuit_flow" where
  "pop_first_cell_digest circ layer =
    (case sendme_last_digests circ of
       None \<Rightarrow> (None, circ)
     | Some [] \<Rightarrow> (None, circ)
     | Some (d # ds) \<Rightarrow>
         if layer \<noteq> sendme_digest_hop circ then (None, circ)
         else (Some d, circ\<lparr>sendme_last_digests := Some ds\<rparr>))"

definition v1_tag_matches :: "bytes \<Rightarrow> bytes \<Rightarrow> nat \<Rightarrow> bool" where
  "v1_tag_matches circ_digest cell_tag tag_len \<longleftrightarrow> take tag_len circ_digest = take tag_len cell_tag"

definition cell_v1_is_valid :: "sendme_cell \<Rightarrow> bytes \<Rightarrow> nat \<Rightarrow> bool" where
  "cell_v1_is_valid cell circ_digest circ_digest_len \<longleftrightarrow>
    (let tag_len = unat (sendme_data_len cell)
     in tag_len_ok tag_len \<and> \<not> length (data_v1_digest cell) < tag_len \<and> tag_len = circ_digest_len
        \<and> v1_tag_matches circ_digest (data_v1_digest cell) tag_len)"

definition cell_version_can_be_handled :: "networkstatus option \<Rightarrow> byte \<Rightarrow> bool option" where
  "cell_version_can_be_handled latest cell_version = do {
     accept_version \<leftarrow> get_accept_min_version latest;
     Some (\<not> accept_version > SENDME_MAX_SUPPORTED_VERSION \<and> \<not> uint cell_version < accept_version
           \<and> \<not> uint cell_version > SENDME_MAX_SUPPORTED_VERSION)
   }"

section \<open>Receiving a SENDME\<close>

text \<open>The length of the tag to expect; \<^const>\<open>None\<close> is the nonfatal assertion.\<close>

definition circ_expects_tag_len :: "circuit_flow \<Rightarrow> nat option \<Rightarrow> nat option" where
  "circ_expects_tag_len circ layer_hint =
    (if layer_hint \<noteq> None \<or> \<not> circ_is_origin circ then Some (relay_crypto_sendme_tag_len (hop_crypto (flow_at circ layer_hint)))
     else None)"

text \<open>The tag is popped whatever the version is.\<close>

definition sendme_tag_is_valid :: "circuit_flow \<Rightarrow> nat option \<Rightarrow> byte \<Rightarrow> sendme_cell option \<Rightarrow> bool \<times> circuit_flow" where
  "sendme_tag_is_valid circ layer_hint version cell =
    (case circ_expects_tag_len circ layer_hint of
       None \<Rightarrow> (False, circ)
     | Some tag_len \<Rightarrow>
         (case pop_first_cell_digest circ layer_hint of
            (None, circ) \<Rightarrow> (False, circ)
          | (Some circ_digest, circ) \<Rightarrow>
              (case cell of
                 None \<Rightarrow> (True, circ)
               | Some cell \<Rightarrow> (version = 1 \<longrightarrow> cell_v1_is_valid cell circ_digest tag_len, circ))))"

definition sendme_parse :: "bytes \<Rightarrow> (byte \<times> sendme_cell option) option" where
  "sendme_parse body =
    (if body = [] then Some (0, None) else map_option (\<lambda>c. (sendme_version c, Some c)) (sendme_cell_parse body))"

definition sendme_is_valid :: "networkstatus option \<Rightarrow> circuit_flow \<Rightarrow> nat option \<Rightarrow> bytes \<Rightarrow> (bool \<times> circuit_flow) option" where
  "sendme_is_valid latest circ layer_hint body =
    (case sendme_parse body of
       None \<Rightarrow> Some (False, circ)
     | Some (version, cell) \<Rightarrow>
         if \<not> circ_is_origin circ \<and> used_legacy_circuit_handshake circ \<and> version = 0
         then Some (sendme_tag_is_valid (circ\<lparr>used_obsolete_sendme := True\<rparr>) layer_hint version cell)
         else (case cell_version_can_be_handled latest version of
           None \<Rightarrow> None
         | Some ok \<Rightarrow> if \<not> ok then Some (False, circ) else Some (sendme_tag_is_valid circ layer_hint version cell)))"

definition sendme_process_circuit_level_impl :: "nat option \<Rightarrow> circuit_flow \<Rightarrow> int \<times> circuit_flow" where
  "sendme_process_circuit_level_impl layer_hint circ =
    (if circ_is_origin circ \<and> layer_hint = None then (- END_CIRC_REASON_TORPROTOCOL, circ)
     else
       let hint = (if circ_is_origin circ then layer_hint else None);
           f = flow_at circ hint
       in if hop_package_window f + CIRCWINDOW_INCREMENT > CIRCWINDOW_START_MAX then (- END_CIRC_REASON_TORPROTOCOL, circ)
          else (0, set_flow hint (f\<lparr>hop_package_window := hop_package_window f + CIRCWINDOW_INCREMENT\<rparr>) circ))"

definition sendme_process_circuit_level :: "networkstatus option \<Rightarrow> int \<Rightarrow> int \<Rightarrow> bool \<Rightarrow> nat option \<Rightarrow> bytes
    \<Rightarrow> cc_globals \<times> circuit_flow \<Rightarrow> (int \<times> cc_globals \<times> circuit_flow) option" where
  "sendme_process_circuit_level latest now_usec chan_q blocked_on_chan layer_hint body s =
    (case sendme_is_valid latest (snd s) layer_hint body of
       None \<Rightarrow> None
     | Some (False, circ) \<Rightarrow> Some (- END_CIRC_REASON_TORPROTOCOL, fst s, circ)
     | Some (True, circ) \<Rightarrow>
         (case hop_ccontrol (flow_at circ layer_hint) of
            None \<Rightarrow> (case sendme_process_circuit_level_impl layer_hint circ of (r, circ) \<Rightarrow> Some (r, fst s, circ))
          | Some cc \<Rightarrow>
              (case congestion_control_dispatch_cc_alg now_usec chan_q blocked_on_chan (fst s, cc) of
                 None \<Rightarrow> None
               | Some (_, g, cc) \<Rightarrow> Some (0, g, set_flow layer_hint ((flow_at circ layer_hint)\<lparr>hop_ccontrol := Some cc\<rparr>) circ))))"

section \<open>Sending a SENDME\<close>

definition build_cell_payload_v1 :: "bytes \<Rightarrow> nat \<Rightarrow> bytes option option" where
  "build_cell_payload_v1 cell_tag tag_len =
    (if \<not> tag_len_ok tag_len then None
     else Some (sendme_cell_encode RELAY_PAYLOAD_SIZE_MAX
       \<lparr>sendme_version = 1, sendme_data_len = word_of_nat tag_len, data_v1_digest = take tag_len cell_tag\<rparr>))"

text \<open>The body sent; \<open>Some None\<close> means that the circuit closes. \<open>queue_ok\<close> tells whether the cell
  can be queued.\<close>

definition send_circuit_level_sendme :: "networkstatus option \<Rightarrow> bool \<Rightarrow> bytes \<Rightarrow> nat \<Rightarrow> bytes option option" where
  "send_circuit_level_sendme latest queue_ok cell_tag tag_len = do {
     emit_version \<leftarrow> get_emit_min_version latest;
     body \<leftarrow> (if emit_version = 1 then build_cell_payload_v1 cell_tag tag_len else Some (Some []));
     Some (if body \<noteq> None \<and> queue_ok then body else None)
   }"

text \<open>The bodies sent and whether the circuit is still open. A circuit of the origin without a hop has
  no layer to take the tag from.\<close>

partial_function (option) consider_loop :: "networkstatus option \<Rightarrow> bool \<Rightarrow> int \<Rightarrow> nat option \<Rightarrow> circuit_flow
    \<Rightarrow> (bytes list \<times> bool \<times> circuit_flow) option" where
  "consider_loop latest queue_ok inc layer_hint circ =
    (let f = flow_at circ layer_hint
     in if hop_deliver_window f \<le> CIRCWINDOW_START - inc
        then
          let circ = set_flow layer_hint (f\<lparr>hop_deliver_window := hop_deliver_window f + inc\<rparr>) circ
          in if layer_hint = None \<and> circ_is_origin circ then None
             else (case send_circuit_level_sendme latest queue_ok (relay_crypto_get_sendme_tag (hop_crypto f))
                          (relay_crypto_sendme_tag_len (hop_crypto f)) of
               None \<Rightarrow> None
             | Some None \<Rightarrow> Some ([], False, circ)
             | Some (Some body) \<Rightarrow>
                 Option.bind (consider_loop latest queue_ok inc layer_hint circ)
                   (\<lambda>(bodies, opened, circ). Some (body # bodies, opened, circ)))
        else Some ([], True, circ))"

declare consider_loop.simps [code]

definition sendme_circuit_consider_sending :: "networkstatus option \<Rightarrow> bool \<Rightarrow> nat option \<Rightarrow> circuit_flow
    \<Rightarrow> (bytes list \<times> bool \<times> circuit_flow) option" where
  "sendme_circuit_consider_sending latest queue_ok layer_hint circ =
    consider_loop latest queue_ok (sendme_get_inc_count circ layer_hint) layer_hint circ"

section \<open>Cells of data\<close>

definition sendme_circuit_data_received :: "nat option \<Rightarrow> circuit_flow \<Rightarrow> (int \<times> circuit_flow) option" where
  "sendme_circuit_data_received layer_hint circ =
    (if circ_is_origin circ \<noteq> (layer_hint \<noteq> None) then None
     else let f = flow_at circ layer_hint;
              w = hop_deliver_window f - 1
          in Some (w, set_flow layer_hint (f\<lparr>hop_deliver_window := w\<rparr>) circ))"

definition sendme_note_circuit_data_packaged :: "int \<Rightarrow> nat option \<Rightarrow> circuit_flow \<Rightarrow> (int \<times> circuit_flow) option" where
  "sendme_note_circuit_data_packaged now_usec layer_hint circ =
    (let f = flow_at circ layer_hint
     in case hop_ccontrol f of
          Some cc \<Rightarrow>
            let circ = set_flow layer_hint (f\<lparr>hop_ccontrol := Some (congestion_control_note_cell_sent now_usec cc)\<rparr>) circ
            in Some (congestion_control_get_package_window circ layer_hint, circ)
        | None \<Rightarrow>
            if circ_is_origin circ \<noteq> (layer_hint \<noteq> None) then None
            else
              let circ = set_flow layer_hint (f\<lparr>hop_package_window := hop_package_window f - 1\<rparr>) circ
              in Some (congestion_control_get_package_window circ layer_hint, circ))"

definition record_cell_digest_on_circ :: "bytes \<Rightarrow> nat \<Rightarrow> nat option \<Rightarrow> circuit_flow \<Rightarrow> circuit_flow option" where
  "record_cell_digest_on_circ sendme_tag tag_len layer circ =
    (if sendme_last_digests circ \<noteq> None \<and> sendme_digest_hop circ \<noteq> layer then Some circ
     else
       let circ = (case sendme_last_digests circ of
                     None \<Rightarrow> circ\<lparr>sendme_last_digests := Some [], sendme_digest_hop := layer\<rparr>
                   | Some _ \<Rightarrow> circ);
           add = (\<lambda>tag. circ\<lparr>sendme_last_digests := Some (the (sendme_last_digests circ) @ [tag])\<rparr>)
       in if tag_len = SENDME_TAG_LEN_CGO
          then Some (add (take tag_len sendme_tag @ replicate (SENDME_TAG_LEN_TOR1 - SENDME_TAG_LEN_CGO) 0))
          else if tag_len = SENDME_TAG_LEN_TOR1 then Some (add (take tag_len sendme_tag))
          else None)"

definition sendme_record_cell_digest_on_circ :: "nat option \<Rightarrow> circuit_flow \<Rightarrow> circuit_flow option" where
  "sendme_record_cell_digest_on_circ cpath circ =
    (if \<not> circuit_sent_cell_for_sendme circ cpath then Some circ
     else if cpath = None \<and> circ_is_origin circ then None
     else let crypto = hop_crypto (flow_at circ cpath)
          in record_cell_digest_on_circ (relay_crypto_get_sendme_tag crypto) (relay_crypto_sendme_tag_len crypto) cpath circ)"

text \<open>What \<^verbatim>\<open>relay.c\<close> does after a DATA cell is queued, and when one arrives; the number is
  negative if the circuit closes.\<close>

definition note_data_cell_sent :: "int \<Rightarrow> nat option \<Rightarrow> circuit_flow \<Rightarrow> (int \<times> circuit_flow) option" where
  "note_data_cell_sent now_usec layer circ = do {
     circ \<leftarrow> sendme_record_cell_digest_on_circ layer circ;
     (w, circ) \<leftarrow> sendme_note_circuit_data_packaged now_usec layer circ;
     Some (if w < 0 then -1 else 0, circ)
   }"

definition note_data_cell_received :: "networkstatus option \<Rightarrow> bool \<Rightarrow> nat option \<Rightarrow> circuit_flow
    \<Rightarrow> (int \<times> bytes list \<times> bool \<times> circuit_flow) option" where
  "note_data_cell_received latest queue_ok layer_hint circ = do {
     (w, circ) \<leftarrow> sendme_circuit_data_received layer_hint circ;
     if w < 0 then Some (- END_CIRC_REASON_TORPROTOCOL, [], True, circ)
     else do {
       r \<leftarrow> sendme_circuit_consider_sending latest queue_ok layer_hint circ;
       Some (0, r)
     }
   }"

section \<open>Streams\<close>

text \<open>The number of SENDMEs handed over before the loop ends.\<close>

partial_function (option) edge_consider_loop :: "bool \<Rightarrow> nat \<Rightarrow> edge_connection \<Rightarrow> (nat \<times> edge_connection) option" where
  "edge_consider_loop send_ok n conn =
    (if deliver_window conn \<le> STREAMWINDOW_START - STREAMWINDOW_INCREMENT
     then let conn = conn\<lparr>deliver_window := deliver_window conn + STREAMWINDOW_INCREMENT\<rparr>
          in if send_ok then edge_consider_loop send_ok (n + 1) conn else Some (n, conn)
     else Some (n, conn))"

declare edge_consider_loop.simps [code]

definition sendme_connection_edge_consider_sending :: "bool \<Rightarrow> bool \<Rightarrow> bool \<Rightarrow> edge_connection \<Rightarrow> (nat \<times> edge_connection) option" where
  "sendme_connection_edge_consider_sending send_ok outbuf_too_full has_circuit conn =
    (if edge_uses_flow_control conn then Some (0, conn)
     else if outbuf_too_full then Some (0, conn)
     else if \<not> has_circuit then Some (0, conn)
     else edge_consider_loop send_ok 0 conn)"

definition sendme_process_stream_level :: "edge_connection \<Rightarrow> int \<times> edge_connection" where
  "sendme_process_stream_level conn =
    (if edge_uses_flow_control conn then (- END_CIRC_REASON_TORPROTOCOL, conn)
     else if package_window conn + STREAMWINDOW_INCREMENT > STREAMWINDOW_START_MAX then (- END_CIRC_REASON_TORPROTOCOL, conn)
     else (0, conn\<lparr>package_window := package_window conn + STREAMWINDOW_INCREMENT\<rparr>))"

definition sendme_stream_data_received :: "flow_params \<Rightarrow> int \<Rightarrow> bool \<Rightarrow> bool \<Rightarrow> int \<Rightarrow> edge_connection
    \<Rightarrow> int \<times> edge_connection \<times> sent_cell list" where
  "sendme_stream_data_received p now reliable send_ok total_buffered conn =
    (if edge_uses_flow_control conn then flow_control_decide_xoff p now reliable send_ok total_buffered conn
     else (deliver_window conn - 1, conn\<lparr>deliver_window := deliver_window conn - 1\<rparr>, []))"

definition sendme_note_stream_data_packaged :: "edge_connection \<Rightarrow> int \<Rightarrow> int \<times> edge_connection" where
  "sendme_note_stream_data_packaged conn len =
    (if edge_uses_flow_control conn
     then let conn = flow_control_note_sent_data conn len in (if xoff_received conn then -1 else 1, conn)
     else (package_window conn - 1, conn\<lparr>package_window := package_window conn - 1\<rparr>))"

end
