(* ===== verification/SendmeSync.thy ===== *)
theory SendmeSync
  imports Sendme
begin

text \<open>
  The two ends of a circuit between which DATA cells and SENDMEs travel, as a step relation: with
  either kind of window, the tags a sender waits for are the tags that come back, the receiver sends
  one SENDME at a time, and the windows count exactly what is in flight. This needs increments of at least
  two cells or fixed windows that are multiples of 100; without it the first SENDME closes the circuit.
\<close>

section \<open>Ends\<close>

definition valid_end :: "circuit_flow \<Rightarrow> nat option \<Rightarrow> bool" where
  "valid_end circ hint \<longleftrightarrow> circ_is_origin circ = (hint \<noteq> None)
    \<and> (case hint of None \<Rightarrow> True | Some h \<Rightarrow> h < length (circ_cpath circ))"

lemma flow_at_set_flow [simp]: "valid_end c h \<Longrightarrow> flow_at (set_flow h f c) h = f"
  by (cases h) (auto simp: valid_end_def)

lemma set_flow_same [simp]:
  "circ_is_origin (set_flow h f c) = circ_is_origin c" "valid_end (set_flow h f c) k = valid_end c k"
  "sendme_last_digests (set_flow h f c) = sendme_last_digests c" "sendme_digest_hop (set_flow h f c) = sendme_digest_hop c"
  "used_legacy_circuit_handshake (set_flow h f c) = used_legacy_circuit_handshake c"
  by (cases h; cases k; simp add: valid_end_def)+

lemma set_flow_twice [simp]: "set_flow h f (set_flow h f' c) = set_flow h f c"
  by (cases h) auto

lemma flow_at_digests [simp]:
  "flow_at (c\<lparr>sendme_last_digests := d\<rparr>) h = flow_at c h" "flow_at (c\<lparr>sendme_last_digests := d, sendme_digest_hop := k\<rparr>) h = flow_at c h"
  "flow_at (c\<lparr>used_obsolete_sendme := b\<rparr>) h = flow_at c h" "flow_at (c\<lparr>sendme_digest_hop := k\<rparr>) h = flow_at c h"
  "flow_at (c\<lparr>sendme_last_digests := d, used_obsolete_sendme := b\<rparr>) h = flow_at c h"
  by (cases h; simp)+

lemma valid_end_digests [simp]:
  "valid_end (c\<lparr>sendme_last_digests := d\<rparr>) h = valid_end c h"
  "valid_end (c\<lparr>sendme_last_digests := d, sendme_digest_hop := k\<rparr>) h = valid_end c h"
  "valid_end (c\<lparr>used_obsolete_sendme := b\<rparr>) h = valid_end c h" "valid_end (c\<lparr>sendme_digest_hop := k\<rparr>) h = valid_end c h"
  "valid_end (c\<lparr>sendme_last_digests := d, used_obsolete_sendme := b\<rparr>) h = valid_end c h"
  by (cases h; simp add: valid_end_def)+

section \<open>Congestion control of one end\<close>

lemma update_rtt_frame:
  assumes "congestion_control_update_circuit_rtt now (g, cc) = (rtt, g', cc')"
  shows "same_params cc' cc" "cc_inflight cc' = cc_inflight cc" "cwnd_max g' = cwnd_max g"
proof -
  obtain t ts where d: "dequeue_timestamp (sendme_pending_timestamps cc) = (t, ts)" by fastforce
  let ?cc1 = "cc\<lparr>sendme_pending_timestamps := ts\<rparr>" and ?r = "u64 (now - t)"
  obtain f g1 where s: "time_delta_stalled_or_jumped g ?cc1 (ewma_rtt_usec ?cc1) ?r = (f, g1)" by fastforce
  have g: "cwnd_max g1 = cwnd_max g" using stalled_keeps [OF s] by (simp add: same_globals_def)
  show "same_params cc' cc" "cc_inflight cc' = cc_inflight cc" "cwnd_max g' = cwnd_max g"
    using assms d s g
    by (auto simp: congestion_control_update_circuit_rtt_def Let_def same_params_def split: if_split_asm)
qed

lemma update_bdp_frame:
  assumes "congestion_control_update_circuit_bdp q b rtt cc = (upd, cc')"
  shows "same_params cc' cc" "cc_inflight cc' = cc_inflight cc"
  using assms by (auto simp: congestion_control_update_circuit_bdp_def Let_def same_params_def split: if_split_asm)

lemma update_cwnd_frame: "same_params (vegas_update_cwnd cc q) cc \<and> cc_inflight (vegas_update_cwnd cc q) = cc_inflight cc"
  by (simp add: vegas_update_cwnd_def vegas_slow_start_def vegas_steady_state_def Let_def same_params_def)

lemma process_sendme_frame:
  assumes "congestion_control_vegas_process_sendme now q b (g, cc) = (g', cc')"
  shows "same_params cc' cc" "cc_inflight cc' = u64 (cc_inflight cc - sendme_inc cc)" "cwnd_max g' = cwnd_max g"
proof -
  let ?cc1 = "vegas_count_event cc"
  obtain rtt g1 cc2 where r: "congestion_control_update_circuit_rtt now (g, ?cc1) = (rtt, g1, cc2)" by (metis prod_cases3)
  obtain upd cc3 where u: "congestion_control_update_circuit_bdp q b rtt cc2 = (upd, cc3)" by fastforce
  note fr = update_rtt_frame [OF r] and fu = update_bdp_frame [OF u]
  have c1: "same_params ?cc1 cc" "cc_inflight ?cc1 = cc_inflight cc"
    by (simp_all add: vegas_count_event_def same_params_def)
  have s: "same_params cc3 cc" using fu(1) fr(1) c1(1) same_params_trans by blast
  have i: "cc_inflight cc3 = cc_inflight cc" using fu(2) fr(2) c1(2) by simp
  let ?d = "vegas_update_cwnd (vegas_update_full g1 cc3) (vegas_queue_use cc3)"
  have f: "same_params (vegas_update_full g1 cc3) cc3" "cc_inflight (vegas_update_full g1 cc3) = cc_inflight cc3"
    by (auto simp: vegas_update_full_def same_params_def)
  have sd: "same_params ?d cc" "cc_inflight ?d = cc_inflight cc"
    using update_cwnd_frame [of "vegas_update_full g1 cc3" "vegas_queue_use cc3"] f s i same_params_trans by metis+
  have res: "(g', cc') = (if \<not> upd then (g1, vegas_ack cc3) else (g1, tail_of g1 ?d))"
    using assms [symmetric] unfolding process_sendme_parts Let_def r prod.case u .
  have e: "sendme_inc cc3 = sendme_inc cc" "sendme_inc ?d = sendme_inc cc" using s sd same_params_facts(6) by auto
  show "cwnd_max g' = cwnd_max g" using res fr(3) by (auto split: if_splits)
  show "same_params cc' cc"
    using res s sd(1) vegas_ack_same(1) tail_same(1) same_params_trans by (metis prod.inject)
  show "cc_inflight cc' = u64 (cc_inflight cc - sendme_inc cc)"
    using res i sd(2) e vegas_ack_same(5) tail_same(5) by (metis prod.inject)
qed

text \<open>What a sender relies on.\<close>

definition cc_flow_ok :: "int \<Rightarrow> congestion_control \<Rightarrow> bool" where
  "cc_flow_ok inc cc \<longleftrightarrow> sendme_inc cc = inc \<and> cc_alg_used cc = CC_ALG_VEGAS \<and> cc_cwnd cc \<le> INT32_MAX"

lemma dispatch_frame:
  assumes "cc_flow_ok inc cc" "cwnd_max g \<le> INT32_MAX" "0 \<le> cc_inflight cc - inc" "cc_inflight cc - inc \<le> UINT64_MAX"
  shows "\<exists>r g' cc'. congestion_control_dispatch_cc_alg now q b (g, cc) = Some (r, g', cc') \<and> cc_flow_ok inc cc'
    \<and> cwnd_max g' = cwnd_max g \<and> cc_inflight cc' = cc_inflight cc - inc"
proof -
  obtain g' cc' where p: "congestion_control_vegas_process_sendme now q b (g, cc) = (g', cc')" by fastforce
  note f = process_sendme_frame [OF p]
  have "sendme_inc cc' = inc" "cc_alg_used cc' = CC_ALG_VEGAS" using f(1) assms(1) by (simp_all add: same_params_def cc_flow_ok_def)
  moreover have "cc_inflight cc' = cc_inflight cc - inc" using f(2) assms by (simp add: u64_id cc_flow_ok_def)
  ultimately show ?thesis
    using assms p f(3) by (auto simp: congestion_control_dispatch_cc_alg_def Let_def cc_flow_ok_def)
qed

section \<open>SENDME cells\<close>

definition sendme_body :: "int \<Rightarrow> nat \<Rightarrow> bytes \<Rightarrow> bytes" where
  "sendme_body emit tag_len tag = (if emit = 1 then 1 # htons (word_of_nat tag_len) @ take tag_len tag else [])"

definition padded :: "nat \<Rightarrow> bytes \<Rightarrow> bytes" where
  "padded tag_len tag = take tag_len tag @ replicate (SENDME_TAG_LEN_TOR1 - tag_len) 0"

lemma tag_lens: "tag_len_ok n \<Longrightarrow> n = 16 \<or> n = 20"
  by (auto simp: tag_len_ok_def SENDME_TAG_LEN_CGO_def SENDME_TAG_LEN_TOR1_def)

lemma crypto_tag_len: "tag_len_ok (relay_crypto_sendme_tag_len k)"
  by (cases k) (auto simp: tag_len_ok_def)

lemma send_sendme_body:
  assumes "get_emit_min_version ns = Some e" "tag_len_ok n" "length tag = n"
  shows "send_circuit_level_sendme ns True tag n = Some (Some (sendme_body e n tag))"
proof -
  have "sendme_cell_encode RELAY_PAYLOAD_SIZE_MAX \<lparr>sendme_version = 1, sendme_data_len = word_of_nat n, data_v1_digest = take n tag\<rparr>
    = Some (1 # htons (word_of_nat n) @ take n tag)"
    using tag_lens [OF assms(2)] assms(3)
    by (auto simp: sendme_cell_encode_def sendme_cell_check_def RELAY_PAYLOAD_SIZE_MAX_def CELL_PAYLOAD_SIZE_def RELAY_HEADER_SIZE_V0_def)
  then show ?thesis
    using assms by (auto simp: send_circuit_level_sendme_def build_cell_payload_v1_def sendme_body_def)
qed

lemma parse_sendme_body:
  assumes "tag_len_ok n" "length tag = n"
  shows "sendme_parse (sendme_body 1 n tag) = Some (1, Some \<lparr>sendme_version = 1, sendme_data_len = word_of_nat n, data_v1_digest = tag\<rparr>)"
    "e \<noteq> 1 \<Longrightarrow> sendme_parse (sendme_body e n tag) = Some (0, None)"
  using tag_lens [OF assms(1)] assms(2)
  by (auto simp: sendme_parse_def sendme_body_def sendme_cell_parse_def Let_def ntohs_htons length_htons)

text \<open>A SENDME with the tag at the head of the list of its receiver is accepted.\<close>

lemma sendme_accepted:
  assumes "valid_end c h" "tag_len_ok n" "length tag = n" "relay_crypto_sendme_tag_len (hop_crypto (flow_at c h)) = n"
    "sendme_last_digests c = Some (padded n tag # ds)" "sendme_digest_hop c = h"
    "get_accept_min_version ns = Some a" "a \<le> 1" "e = 1 \<or> a \<le> 0"
  shows "\<exists>b. sendme_is_valid ns c h (sendme_body e n tag) = Some (True, c\<lparr>sendme_last_digests := Some ds, used_obsolete_sendme := b\<rparr>)"
proof -
  have t: "circ_expects_tag_len (c\<lparr>used_obsolete_sendme := b\<rparr>) h = Some n" for b
    using assms(1,4) by (auto simp: circ_expects_tag_len_def valid_end_def)
  have p: "pop_first_cell_digest (c\<lparr>used_obsolete_sendme := b\<rparr>) h = (Some (padded n tag), c\<lparr>used_obsolete_sendme := b, sendme_last_digests := Some ds\<rparr>)" for b
    using assms(5,6) by (simp add: pop_first_cell_digest_def)
  have same: "c\<lparr>used_obsolete_sendme := used_obsolete_sendme c\<rparr> = c" by simp
  have u: "unat (word_of_nat n :: 16 word) = n" using tag_lens [OF assms(2)] by auto
  have v: "cell_v1_is_valid \<lparr>sendme_version = 1, sendme_data_len = word_of_nat n, data_v1_digest = tag\<rparr> (padded n tag) n"
    using assms(2,3) u by (simp add: cell_v1_is_valid_def v1_tag_matches_def padded_def)
  have tag: "sendme_tag_is_valid (c\<lparr>used_obsolete_sendme := b\<rparr>) h ver (if e = 1 then Some \<lparr>sendme_version = 1, sendme_data_len = word_of_nat n, data_v1_digest = tag\<rparr> else None)
    = (True, c\<lparr>sendme_last_digests := Some ds, used_obsolete_sendme := b\<rparr>)" for b ver
    using t [of b] p [of b] v by (simp add: sendme_tag_is_valid_def)
  show ?thesis
  proof (cases "e = 1")
    case True
    then have "cell_version_can_be_handled ns 1 = Some True"
      using assms(7,8) by (simp add: cell_version_can_be_handled_def SENDME_MAX_SUPPORTED_VERSION_def)
    then show ?thesis
      using True parse_sendme_body(1) [OF assms(2,3)] tag [of "used_obsolete_sendme c" 1, unfolded same]
      by (intro exI [of _ "used_obsolete_sendme c"]) (simp add: sendme_is_valid_def)
  next
    case False
    then have "cell_version_can_be_handled ns 0 = Some True"
      using assms(7,9) by (simp add: cell_version_can_be_handled_def SENDME_MAX_SUPPORTED_VERSION_def)
    then show ?thesis
      using False parse_sendme_body(2) [OF assms(2,3) False] tag [of "used_obsolete_sendme c" 0, unfolded same] tag [of True 0]
      by (intro exI [of _ "(\<not> circ_is_origin c \<and> used_legacy_circuit_handshake c) \<or> used_obsolete_sendme c"])
        (simp add: sendme_is_valid_def)
  qed
qed

section \<open>Every increment-th tag\<close>

definition marks :: "nat \<Rightarrow> 'a list \<Rightarrow> 'a list" where
  "marks inc H = map (\<lambda>k. H ! (k * inc + (inc - 1))) [0..<length H div inc]"

lemma length_marks [simp]: "length (marks inc H) = length H div inc"
  by (simp add: marks_def)

lemma mark_in_range: "0 < inc \<Longrightarrow> k < n div inc \<Longrightarrow> k * inc + (inc - 1) < (n :: nat)"
proof -
  assume a: "0 < inc" "k < n div inc"
  then have "Suc k * inc \<le> n div inc * inc" by (intro mult_right_mono) auto
  also have "\<dots> \<le> n" by simp
  finally show ?thesis using a(1) by simp
qed

lemma marks_snoc:
  assumes "0 < inc"
  shows "marks inc (H @ [t]) = marks inc H @ (if (length H + 1) mod inc = 0 then [t] else [])"
proof -
  have old: "map (\<lambda>k. (H @ [t]) ! (k * inc + (inc - 1))) [0..<length H div inc] = marks inc H"
    using mark_in_range [OF assms] by (auto simp: marks_def nth_append)
  show ?thesis
  proof (cases "(length H + 1) mod inc = 0")
    case True
    then have d: "Suc (length H) div inc = Suc (length H div inc)" by (simp add: div_Suc)
    have "Suc (length H) = Suc (length H) div inc * inc" using True div_mult_mod_eq [of "Suc (length H)" inc] by simp
    then have "length H = length H div inc * inc + (inc - 1)" unfolding d using assms by simp
    then have "(H @ [t]) ! (length H div inc * inc + (inc - 1)) = t" by (metis nth_append_length)
    then show ?thesis using True d old by (simp add: marks_def)
  next
    case False
    then have "Suc (length H) div inc = length H div inc" by (simp add: div_Suc)
    then show ?thesis using False old by (simp add: marks_def)
  qed
qed

lemma marks_take:
  assumes "0 < inc" "m \<le> length H"
  shows "marks inc (take m H) = take (m div inc) (marks inc H)"
proof -
  have "m div inc \<le> length H div inc" using assms(2) by (rule div_le_mono)
  moreover have "take m H ! (k * inc + (inc - 1)) = H ! (k * inc + (inc - 1))" if "k < m div inc" for k
    using mark_in_range [OF assms(1) that] by simp
  ultimately show ?thesis using assms(2) by (auto simp: marks_def take_map min_def)
qed

lemma marks_of_tags: "0 < inc \<Longrightarrow> \<forall>t \<in> set H. P t \<Longrightarrow> \<forall>t \<in> set (marks inc H). P t"
  using mark_in_range by (fastforce simp: marks_def)

section \<open>Both ends\<close>

record flow_link =
  snd_globals :: cc_globals
  snd_circ :: circuit_flow
  rcv_circ :: circuit_flow
  data_wire :: "bytes list"
  sendme_wire :: "bytes list"
  link_closed :: bool

text \<open>The latest consensus and the layer hint at each end.\<close>

record flow_env =
  snd_ns :: "networkstatus option"
  rcv_ns :: "networkstatus option"
  snd_hint :: "nat option"
  rcv_hint :: "nat option"

definition with_crypto :: "nat option \<Rightarrow> relay_crypto \<Rightarrow> circuit_flow \<Rightarrow> circuit_flow" where
  "with_crypto h k circ = set_flow h ((flow_at circ h)\<lparr>hop_crypto := k\<rparr>) circ"

text \<open>A cell of data is its tag: the onion layers of both ends have it after the cell is sent and after
  it has arrived. A failed assertion closes the link.\<close>

definition flow_send :: "flow_env \<Rightarrow> int \<Rightarrow> relay_crypto \<Rightarrow> flow_link \<Rightarrow> flow_link" where
  "flow_send E now k l =
    (case note_data_cell_sent now (snd_hint E) (with_crypto (snd_hint E) k (snd_circ l)) of
       None \<Rightarrow> l\<lparr>link_closed := True\<rparr>
     | Some (r, c) \<Rightarrow> l\<lparr>snd_circ := c, data_wire := data_wire l @ [relay_crypto_get_sendme_tag k], link_closed := link_closed l \<or> r < 0\<rparr>)"

definition flow_receive :: "flow_env \<Rightarrow> relay_crypto \<Rightarrow> flow_link \<Rightarrow> flow_link" where
  "flow_receive E k l =
    (case note_data_cell_received (rcv_ns E) True (rcv_hint E) (with_crypto (rcv_hint E) k (rcv_circ l)) of
       None \<Rightarrow> l\<lparr>link_closed := True\<rparr>
     | Some (r, bodies, opened, c) \<Rightarrow>
         l\<lparr>rcv_circ := c, data_wire := tl (data_wire l), sendme_wire := sendme_wire l @ bodies,
           link_closed := link_closed l \<or> r < 0 \<or> \<not> opened\<rparr>)"

definition flow_ack :: "flow_env \<Rightarrow> int \<Rightarrow> int \<Rightarrow> bool \<Rightarrow> flow_link \<Rightarrow> flow_link" where
  "flow_ack E now q blocked l =
    (case sendme_process_circuit_level (snd_ns E) now q blocked (snd_hint E) (hd (sendme_wire l)) (snd_globals l, snd_circ l) of
       None \<Rightarrow> l\<lparr>link_closed := True\<rparr>
     | Some (r, g, c) \<Rightarrow>
         l\<lparr>snd_globals := g, snd_circ := c, sendme_wire := tl (sendme_wire l), link_closed := link_closed l \<or> r < 0\<rparr>)"

definition tag_fits :: "nat \<Rightarrow> relay_crypto \<Rightarrow> bool" where
  "tag_fits n k \<longleftrightarrow> relay_crypto_sendme_tag_len k = n \<and> length (relay_crypto_get_sendme_tag k) = n"

inductive flow_step :: "flow_env \<Rightarrow> nat \<Rightarrow> flow_link \<Rightarrow> flow_link \<Rightarrow> bool" for E :: flow_env and n :: nat where
  step_send: "0 < congestion_control_get_package_window (snd_circ l) (snd_hint E) \<Longrightarrow> tag_fits n k \<Longrightarrow>
    flow_step E n l (flow_send E now k l)"
| step_receive: "data_wire l = relay_crypto_get_sendme_tag k # w \<Longrightarrow> tag_fits n k \<Longrightarrow> flow_step E n l (flow_receive E k l)"
| step_ack: "sendme_wire l \<noteq> [] \<Longrightarrow> flow_step E n l (flow_ack E now q blocked l)"

inductive flow_run :: "flow_env \<Rightarrow> nat \<Rightarrow> flow_link \<Rightarrow> flow_link \<Rightarrow> bool" for E :: flow_env and n :: nat and l :: flow_link where
  flow_here: "flow_run E n l l"
| flow_next: "flow_run E n l l' \<Longrightarrow> flow_step E n l' l'' \<Longrightarrow> flow_run E n l l''"

section \<open>The invariant\<close>

text \<open>The sender has sent the tags \<open>H\<close> and handled \<open>a\<close> SENDMEs; \<open>w0\<close> is its first window.\<close>

definition sender_ok :: "flow_env \<Rightarrow> nat \<Rightarrow> nat \<Rightarrow> int \<Rightarrow> bytes list \<Rightarrow> nat \<Rightarrow> cc_globals \<Rightarrow> circuit_flow \<Rightarrow> bool" where
  "sender_ok E n inc w0 H a g c \<longleftrightarrow> valid_end c (snd_hint E)
    \<and> relay_crypto_sendme_tag_len (hop_crypto (flow_at c (snd_hint E))) = n
    \<and> (case sendme_last_digests c of
         None \<Rightarrow> marks inc H = []
       | Some ds \<Rightarrow> ds = map (padded n) (drop a (marks inc H)) \<and> sendme_digest_hop c = snd_hint E)
    \<and> (case hop_ccontrol (flow_at c (snd_hint E)) of
         None \<Rightarrow> inc = 100 \<and> w0 mod 100 = 0 \<and> w0 \<le> 1000
           \<and> hop_package_window (flow_at c (snd_hint E)) = w0 - (int (length H) - int a * 100)
           \<and> 0 \<le> hop_package_window (flow_at c (snd_hint E))
       | Some cc \<Rightarrow> 2 \<le> inc \<and> cc_flow_ok (int inc) cc \<and> cwnd_max g \<le> INT32_MAX
           \<and> cc_inflight cc = int (length H) - int a * int inc \<and> cc_inflight cc \<le> INT32_MAX)"

definition receiver_ok :: "flow_env \<Rightarrow> nat \<Rightarrow> nat \<Rightarrow> nat \<Rightarrow> circuit_flow \<Rightarrow> bool" where
  "receiver_ok E n inc m c \<longleftrightarrow> valid_end c (rcv_hint E)
    \<and> relay_crypto_sendme_tag_len (hop_crypto (flow_at c (rcv_hint E))) = n
    \<and> sendme_get_inc_count c (rcv_hint E) = int inc \<and> 0 < inc \<and> inc \<le> 254
    \<and> hop_deliver_window (flow_at c (rcv_hint E)) = CIRCWINDOW_START - int (m mod inc)"

definition flow_ok :: "flow_env \<Rightarrow> int \<Rightarrow> nat \<Rightarrow> nat \<Rightarrow> int \<Rightarrow> bytes list \<Rightarrow> nat \<Rightarrow> nat \<Rightarrow> flow_link \<Rightarrow> bool" where
  "flow_ok E e n inc w0 H m a l \<longleftrightarrow> \<not> link_closed l \<and> m \<le> length H \<and> a \<le> m div inc \<and> (\<forall>t \<in> set H. length t = n)
    \<and> data_wire l = drop m H \<and> sendme_wire l = map (sendme_body e n) (drop a (marks inc (take m H)))
    \<and> sender_ok E n inc w0 H a (snd_globals l) (snd_circ l) \<and> receiver_ok E n inc m (rcv_circ l)"

lemma flow_at_with_crypto [simp]: "valid_end c h \<Longrightarrow> flow_at (with_crypto h k c) h = (flow_at c h)\<lparr>hop_crypto := k\<rparr>"
  by (simp add: with_crypto_def)

lemma with_crypto_same [simp]:
  "valid_end (with_crypto h k c) h' = valid_end c h'" "sendme_last_digests (with_crypto h k c) = sendme_last_digests c"
  "sendme_digest_hop (with_crypto h k c) = sendme_digest_hop c" "circ_is_origin (with_crypto h k c) = circ_is_origin c"
  by (simp_all add: with_crypto_def)

lemma window_with_crypto [simp]:
  "valid_end c h \<Longrightarrow> congestion_control_get_package_window (with_crypto h k c) h = congestion_control_get_package_window c h"
  "valid_end c h \<Longrightarrow> sendme_get_inc_count (with_crypto h k c) h = sendme_get_inc_count c h"
  by (simp_all add: congestion_control_get_package_window_def sendme_get_inc_count_def split: option.split)

lemma sender_ok_crypto:
  "sender_ok E n inc w0 H a g c \<Longrightarrow> relay_crypto_sendme_tag_len k = n \<Longrightarrow> sender_ok E n inc w0 H a g (with_crypto (snd_hint E) k c)"
  by (simp add: sender_ok_def cong: option.case_cong)

lemma receiver_ok_crypto:
  "receiver_ok E n inc m c \<Longrightarrow> relay_crypto_sendme_tag_len k = n \<Longrightarrow> receiver_ok E n inc m (with_crypto (rcv_hint E) k c)"
  by (simp add: receiver_ok_def)

section \<open>The sender\<close>

lemma mod_back: "(int n - int a * int inc + 1) mod int inc = int ((n + 1) mod inc)"
proof -
  have "int n - int a * int inc + 1 = int (n + 1) + (- int a) * int inc" by simp
  then show ?thesis by (simp only: mod_mult_self1 zmod_int)
qed

lemma window_mod_iff:
  assumes "w0 mod 100 = 0" "(w :: int) = w0 - (int n - int a * 100)"
  shows "(w - 1) mod 100 = 0 \<longleftrightarrow> (n + 1) mod 100 = 0"
proof -
  obtain k where "w0 = 100 * k" using assms(1) by (auto simp: mod_eq_0_iff_dvd)
  then have "w - 1 = (k + int a) * 100 - int (n + 1)" using assms(2) by simp
  then have "100 dvd w - 1 \<longleftrightarrow> (100 :: int) dvd int (n + 1)" by (simp only: dvd_diff_right_iff dvd_triv_right)
  also have "\<dots> \<longleftrightarrow> 100 dvd n + 1" by (metis int_dvd_int_iff of_nat_numeral)
  finally show ?thesis by (simp add: mod_eq_0_iff_dvd)
qed

lemma sent_for_sendme_iff:
  assumes "sender_ok E n inc w0 H a g c" "a * inc \<le> length H" "0 < congestion_control_get_package_window c (snd_hint E)"
  shows "circuit_sent_cell_for_sendme c (snd_hint E) \<longleftrightarrow> (length H + 1) mod inc = 0"
proof (cases "hop_ccontrol (flow_at c (snd_hint E))")
  case None
  let ?w = "hop_package_window (flow_at c (snd_hint E))"
  have s: "inc = 100" "w0 mod 100 = 0" "w0 \<le> 1000" "?w = w0 - (int (length H) - int a * 100)"
    using assms(1) None by (simp_all add: sender_ok_def)
  have m: "(?w - 1) mod 100 = 0 \<longleftrightarrow> (length H + 1) mod 100 = 0" by (rule window_mod_iff [OF s(2,4)])
  moreover have "?w = 1000 \<Longrightarrow> (length H + 1) mod 100 \<noteq> 0"
  proof -
    assume "?w = 1000"
    moreover have "a * 100 \<le> length H" using assms(2) s(1) by simp
    ultimately have "length H = a * 100" using s by linarith
    then show ?thesis by (simp add: mod_Suc)
  qed
  ultimately show ?thesis
    using None m s(1) by (auto simp: circuit_sent_cell_for_sendme_def CIRCWINDOW_START_def CIRCWINDOW_INCREMENT_def Let_def)
next
  case (Some cc)
  then have s: "2 \<le> inc" "cc_flow_ok (int inc) cc" "cc_inflight cc = int (length H) - int a * int inc"
    using assms(1) by (simp_all add: sender_ok_def)
  have "cc_inflight cc < cc_cwnd cc" using assms(3) Some
    by (simp add: congestion_control_get_package_window_def congestion_control_package_window_def split: if_split_asm)
  then have b: "0 \<le> cc_inflight cc" "cc_inflight cc < INT32_MAX" using s assms(2) by (auto simp: cc_flow_ok_def simp flip: of_nat_mult)
  have i: "int (length H - a * inc) = cc_inflight cc" using s(3) assms(2) by (simp add: of_nat_diff)
  have "(cc_inflight cc + 1) mod int inc = int ((length H + 1) mod inc)" using mod_back [of "length H" a inc] s(3) by simp
  moreover have "cc_inflight cc = 0 \<Longrightarrow> (length H + 1) mod inc \<noteq> 0"
  proof -
    assume "cc_inflight cc = 0"
    then have "int (length H) = int (a * inc)" using s(3) by simp
    then have "length H = a * inc" by (simp only: of_nat_eq_iff)
    then show ?thesis using s(1) by (simp add: mod_Suc)
  qed
  ultimately show ?thesis
    using Some s(2) b by (auto simp: circuit_sent_cell_for_sendme_def cc_sent_cell_for_sendme_def cc_flow_ok_def u64_id)
qed

lemma record_tag:
  assumes "valid_end c h" "relay_crypto_sendme_tag_len (hop_crypto (flow_at c h)) = n"
    "length (relay_crypto_get_sendme_tag (hop_crypto (flow_at c h))) = n" "sendme_last_digests c = None \<or> sendme_digest_hop c = h"
  shows "sendme_record_cell_digest_on_circ h c = Some (if \<not> circuit_sent_cell_for_sendme c h then c else
    c\<lparr>sendme_last_digests := Some ((case sendme_last_digests c of None \<Rightarrow> [] | Some ds \<Rightarrow> ds)
        @ [padded n (relay_crypto_get_sendme_tag (hop_crypto (flow_at c h)))]), sendme_digest_hop := h\<rparr>)"
proof -
  have "tag_len_ok n" using crypto_tag_len assms(2) by metis
  then have n: "n = SENDME_TAG_LEN_CGO \<or> n = SENDME_TAG_LEN_TOR1" "SENDME_TAG_LEN_CGO \<noteq> SENDME_TAG_LEN_TOR1"
    by (auto simp: tag_len_ok_def SENDME_TAG_LEN_CGO_def SENDME_TAG_LEN_TOR1_def)
  show ?thesis
    using assms n by (auto simp: sendme_record_cell_digest_on_circ_def record_cell_digest_on_circ_def padded_def Let_def valid_end_def
      split: option.splits)
qed

lemma data_cell_sent_ok:
  assumes "sender_ok E n inc w0 H a g c" "a \<le> length H div inc" "0 < inc" "0 < congestion_control_get_package_window c (snd_hint E)"
    "tag = relay_crypto_get_sendme_tag (hop_crypto (flow_at c (snd_hint E)))" "length tag = n"
  shows "\<exists>c'. note_data_cell_sent now (snd_hint E) c = Some (0, c') \<and> sender_ok E n inc w0 (H @ [tag]) a g c'"
proof -
  let ?h = "snd_hint E" and ?f = "flow_at c (snd_hint E)" and ?marked = "(length H + 1) mod inc = 0"
  have v: "valid_end c ?h" "relay_crypto_sendme_tag_len (hop_crypto ?f) = n" using assms(1) by (simp_all add: sender_ok_def)
  have al: "a * inc \<le> length H" using mult_le_mono1 [OF assms(2), of inc] div_times_less_eq_dividend order_trans by blast
  have "sendme_last_digests c = None \<or> sendme_digest_hop c = ?h" using assms(1) by (auto simp: sender_ok_def split: option.splits)
  note rec = record_tag [OF v assms(6) [unfolded assms(5)] this, folded assms(5), unfolded sent_for_sendme_iff [OF assms(1) al assms(4)]]
  define c1 where "c1 = (if \<not> ?marked then c else c\<lparr>sendme_last_digests :=
    Some ((case sendme_last_digests c of None \<Rightarrow> [] | Some ds \<Rightarrow> ds) @ [padded n tag]), sendme_digest_hop := ?h\<rparr>)"
  have r: "sendme_record_cell_digest_on_circ ?h c = Some c1" using rec by (simp add: c1_def)
  have f1: "valid_end c1 ?h" "flow_at c1 ?h = ?f" "circ_is_origin c1 = circ_is_origin c" using v(1) by (simp_all add: c1_def)
  have d1: "case sendme_last_digests c1 of None \<Rightarrow> marks inc (H @ [tag]) = []
       | Some ds \<Rightarrow> ds = map (padded n) (drop a (marks inc (H @ [tag]))) \<and> sendme_digest_hop c1 = ?h"
  proof (cases "sendme_last_digests c")
    case None
    then have "marks inc H = []" using assms(1) by (simp add: sender_ok_def)
    then have "marks inc H = [] \<and> a = 0" using assms(2) length_marks [of inc H] by simp
    then show ?thesis using None by (simp add: c1_def marks_snoc [OF assms(3)])
  next
    case (Some ds)
    then show ?thesis using assms(1,2) by (simp add: c1_def sender_ok_def marks_snoc [OF assms(3)])
  qed
  show ?thesis
  proof (cases "hop_ccontrol ?f")
    case None
    let ?c2 = "set_flow ?h (?f\<lparr>hop_package_window := hop_package_window ?f - 1\<rparr>) c1"
    have w: "0 < hop_package_window ?f" using assms(4) None by (simp add: congestion_control_get_package_window_def)
    have "sendme_note_circuit_data_packaged now ?h c1 = Some (hop_package_window ?f - 1, ?c2)"
      using None f1 by (auto simp: sendme_note_circuit_data_packaged_def congestion_control_get_package_window_def Let_def valid_end_def)
    moreover have "sender_ok E n inc w0 (H @ [tag]) a g ?c2"
      using assms(1) None f1 d1 v w by (auto simp: sender_ok_def split: option.splits)
    ultimately show ?thesis using r w by (simp add: note_data_cell_sent_def)
  next
    case (Some cc)
    let ?cc = "congestion_control_note_cell_sent now cc"
    let ?c2 = "set_flow ?h (?f\<lparr>hop_ccontrol := Some ?cc\<rparr>) c1"
    have s: "cc_flow_ok (int inc) cc" "cc_inflight cc = int (length H) - int a * int inc" using assms(1) Some by (simp_all add: sender_ok_def)
    have "cc_inflight cc < cc_cwnd cc" using assms(4) Some
      by (simp add: congestion_control_get_package_window_def congestion_control_package_window_def split: if_split_asm)
    moreover have "0 \<le> cc_inflight cc" using s(2) al by (simp flip: of_nat_mult)
    ultimately have i: "u64 (cc_inflight cc + 1) = cc_inflight cc + 1" "cc_inflight cc + 1 \<le> INT32_MAX"
      using s(1) by (auto simp: cc_flow_ok_def u64_id)
    have cc': "cc_inflight ?cc = cc_inflight cc + 1" "cc_flow_ok (int inc) ?cc"
      using s(1) i by (auto simp: congestion_control_note_cell_sent_def cc_flow_ok_def)
    have "sendme_note_circuit_data_packaged now ?h c1 = Some (congestion_control_package_window ?cc, ?c2)"
      using Some f1 by (simp add: sendme_note_circuit_data_packaged_def congestion_control_get_package_window_def Let_def)
    moreover have "0 \<le> congestion_control_package_window ?cc" by (simp add: congestion_control_package_window_def)
    moreover have "sender_ok E n inc w0 (H @ [tag]) a g ?c2"
      using assms(1) Some f1 d1 v cc' s(2) i(2) by (auto simp: sender_ok_def split: option.splits)
    ultimately show ?thesis using r by (simp add: note_data_cell_sent_def)
  qed
qed

lemma flow_send_ok:
  assumes "flow_ok E e n inc w0 H m a l" "0 < congestion_control_get_package_window (snd_circ l) (snd_hint E)" "tag_fits n k"
  shows "flow_ok E e n inc w0 (H @ [relay_crypto_get_sendme_tag k]) m a (flow_send E now k l)"
proof -
  let ?c = "with_crypto (snd_hint E) k (snd_circ l)" and ?t = "relay_crypto_get_sendme_tag k"
  have f: "sender_ok E n inc w0 H a (snd_globals l) (snd_circ l)" "m \<le> length H" "a \<le> m div inc" "0 < inc"
    using assms(1) by (simp_all add: flow_ok_def receiver_ok_def)
  have k: "relay_crypto_sendme_tag_len k = n" "length ?t = n" using assms(3) by (simp_all add: tag_fits_def)
  have v: "valid_end (snd_circ l) (snd_hint E)" using f(1) by (simp add: sender_ok_def)
  have al: "a \<le> length H div inc" using f(2,3) div_le_mono order_trans by blast
  have "?t = relay_crypto_get_sendme_tag (hop_crypto (flow_at ?c (snd_hint E)))" using v by simp
  moreover have "0 < congestion_control_get_package_window ?c (snd_hint E)" using assms(2) v by simp
  ultimately obtain c' where c': "note_data_cell_sent now (snd_hint E) ?c = Some (0, c')" "sender_ok E n inc w0 (H @ [?t]) a (snd_globals l) c'"
    using data_cell_sent_ok [OF sender_ok_crypto [OF f(1) k(1)] al f(4) _ _ k(2)] by blast
  show ?thesis using assms(1) c' k(2) f(2) by (simp add: flow_ok_def flow_send_def)
qed

section \<open>The receiver\<close>

lemma consider_stops: "CIRCWINDOW_START - inc < hop_deliver_window (flow_at c h) \<Longrightarrow> consider_loop ns ok inc h c = Some ([], True, c)"
  by (subst consider_loop.simps) (simp add: Let_def)

lemma consider_sends_one:
  assumes "valid_end c h" "hop_deliver_window (flow_at c h) = CIRCWINDOW_START - inc" "0 < inc"
    "tag_fits n (hop_crypto (flow_at c h))" "get_emit_min_version ns = Some e"
  shows "consider_loop ns True inc h c = Some ([sendme_body e n (relay_crypto_get_sendme_tag (hop_crypto (flow_at c h)))], True,
    set_flow h ((flow_at c h)\<lparr>hop_deliver_window := CIRCWINDOW_START\<rparr>) c)"
proof -
  let ?f = "flow_at c h"
  let ?c = "set_flow h (?f\<lparr>hop_deliver_window := hop_deliver_window ?f + inc\<rparr>) c"
  have n: "relay_crypto_sendme_tag_len (hop_crypto ?f) = n" "length (relay_crypto_get_sendme_tag (hop_crypto ?f)) = n"
    using assms(4) by (simp_all add: tag_fits_def)
  have "send_circuit_level_sendme ns True (relay_crypto_get_sendme_tag (hop_crypto ?f)) n
    = Some (Some (sendme_body e n (relay_crypto_get_sendme_tag (hop_crypto ?f))))"
    using send_sendme_body assms(5) n crypto_tag_len by metis
  moreover have "\<not> (h = None \<and> circ_is_origin c)" using assms(1) by (auto simp: valid_end_def)
  moreover have "consider_loop ns True inc h ?c = Some ([], True, ?c)" using assms(1,2,3) by (intro consider_stops) simp
  ultimately show ?thesis using assms(1,2) n(1) by (subst consider_loop.simps) (simp add: Let_def)
qed

lemma note_received_ok:
  assumes "receiver_ok E n inc m c" "tag = relay_crypto_get_sendme_tag (hop_crypto (flow_at c (rcv_hint E)))" "length tag = n"
    "get_emit_min_version (rcv_ns E) = Some e"
  shows "\<exists>c'. note_data_cell_received (rcv_ns E) True (rcv_hint E) c
      = Some (0, if (m + 1) mod inc = 0 then [sendme_body e n tag] else [], True, c') \<and> receiver_ok E n inc (m + 1) c'"
proof -
  let ?h = "rcv_hint E"
  let ?f = "flow_at c ?h"
  have r: "valid_end c ?h" "relay_crypto_sendme_tag_len (hop_crypto ?f) = n" "sendme_get_inc_count c ?h = int inc" "0 < inc" "inc \<le> 254"
    "hop_deliver_window ?f = CIRCWINDOW_START - int (m mod inc)"
    using assms(1) by (simp_all add: receiver_ok_def)
  let ?w = "CIRCWINDOW_START - int (m mod inc) - 1"
  let ?c1 = "set_flow ?h (?f\<lparr>hop_deliver_window := ?w\<rparr>) c"
  have mlt: "m mod inc < inc" using r(4) by simp
  then have w: "0 \<le> ?w" using r(5) by (simp add: CIRCWINDOW_START_def)
  have d: "sendme_circuit_data_received ?h c = Some (?w, ?c1)"
    using r by (simp add: sendme_circuit_data_received_def valid_end_def Let_def)
  have f1: "flow_at ?c1 ?h = ?f\<lparr>hop_deliver_window := ?w\<rparr>" "valid_end ?c1 ?h" "sendme_get_inc_count ?c1 ?h = int inc"
    using r(1,3) by (simp_all add: sendme_get_inc_count_def)
  show ?thesis
  proof (cases "(m + 1) mod inc = 0")
    case True
    then have e: "int (m mod inc) + 1 = int inc" using mlt by (simp add: mod_Suc split: if_split_asm)
    let ?c2 = "set_flow ?h (?f\<lparr>hop_deliver_window := CIRCWINDOW_START\<rparr>) c"
    have "tag_fits n (hop_crypto (flow_at ?c1 ?h))" using f1 r(2) assms(2,3) by (simp add: tag_fits_def)
    then have "consider_loop (rcv_ns E) True (int inc) ?h ?c1 = Some ([sendme_body e n tag], True, ?c2)"
      using consider_sends_one [of ?c1 ?h "int inc" n "rcv_ns E" e] f1 e r(4) assms(2,4) by simp
    moreover have "receiver_ok E n inc (m + 1) ?c2"
      using r True by (simp add: receiver_ok_def sendme_get_inc_count_def)
    ultimately show ?thesis
      using True d w f1(3) by (simp add: note_data_cell_received_def sendme_circuit_consider_sending_def)
  next
    case False
    then have e: "int ((m + 1) mod inc) = int (m mod inc) + 1" "int (m mod inc) + 1 < int inc" using mlt by (auto simp: mod_Suc split: if_split_asm)
    have "consider_loop (rcv_ns E) True (int inc) ?h ?c1 = Some ([], True, ?c1)" using f1(1) e(2) by (intro consider_stops) simp
    moreover have "receiver_ok E n inc (m + 1) ?c1"
      using r f1 e(1) by (simp add: receiver_ok_def)
    ultimately show ?thesis
      using False d w f1(3) by (simp add: note_data_cell_received_def sendme_circuit_consider_sending_def)
  qed
qed

lemma flow_receive_ok:
  assumes "flow_ok E e n inc w0 H m a l" "data_wire l = relay_crypto_get_sendme_tag k # w" "tag_fits n k"
    "get_emit_min_version (rcv_ns E) = Some e"
  shows "flow_ok E e n inc w0 H (m + 1) a (flow_receive E k l)"
proof -
  let ?c = "with_crypto (rcv_hint E) k (rcv_circ l)" and ?t = "relay_crypto_get_sendme_tag k"
  have f: "receiver_ok E n inc m (rcv_circ l)" "m \<le> length H" "a \<le> m div inc" "0 < inc" "data_wire l = drop m H"
    "sendme_wire l = map (sendme_body e n) (drop a (marks inc (take m H)))"
    using assms(1) by (simp_all add: flow_ok_def receiver_ok_def)
  have k: "relay_crypto_sendme_tag_len k = n" "length ?t = n" using assms(3) by (simp_all add: tag_fits_def)
  have v: "valid_end (rcv_circ l) (rcv_hint E)" using f(1) by (simp add: receiver_ok_def)
  have d: "drop m H = ?t # w" using f(5) assms(2) by simp
  then have m: "m < length H" by (metis drop_all list.distinct(1) not_le)
  have t: "take (Suc m) H = take m H @ [?t]" "drop (Suc m) H = w"
    using d m Cons_nth_drop_Suc [OF m] by (simp_all add: take_Suc_conv_app_nth)
  have "?t = relay_crypto_get_sendme_tag (hop_crypto (flow_at ?c (rcv_hint E)))" using v by simp
  then obtain c' where c': "note_data_cell_received (rcv_ns E) True (rcv_hint E) ?c
      = Some (0, if (m + 1) mod inc = 0 then [sendme_body e n ?t] else [], True, c')" "receiver_ok E n inc (m + 1) c'"
    using note_received_ok [OF receiver_ok_crypto [OF f(1) k(1)] _ k(2) assms(4)] by blast
  have "sendme_wire l @ (if (m + 1) mod inc = 0 then [sendme_body e n ?t] else [])
    = map (sendme_body e n) (drop a (marks inc (take (m + 1) H)))"
    using m f(2,3,6) by (simp add: t(1) marks_snoc [OF f(4)])
  moreover have "a \<le> (m + 1) div inc" by (rule order_trans [OF f(3) div_le_mono]) simp
  moreover have "tl (data_wire l) = w" using assms(2) by simp
  ultimately show ?thesis
    using assms(1) c' m t by (simp add: flow_ok_def flow_receive_def)
qed

section \<open>Acknowledging\<close>

lemma process_level_ok:
  assumes "sender_ok E n inc w0 H a g c" "0 < inc" "a < m div inc" "m \<le> length H" "\<forall>t \<in> set H. length t = n"
    "get_accept_min_version (snd_ns E) = Some v" "v \<le> 1" "e = 1 \<or> v \<le> 0"
  shows "\<exists>g' c'. sendme_process_circuit_level (snd_ns E) now q blocked (snd_hint E) (sendme_body e n (marks inc H ! a)) (g, c)
      = Some (0, g', c') \<and> sender_ok E n inc w0 H (a + 1) g' c'"
proof -
  let ?h = "snd_hint E" and ?f = "flow_at c (snd_hint E)"
  have w: "valid_end c ?h" "relay_crypto_sendme_tag_len (hop_crypto ?f) = n" using assms(1) by (simp_all add: sender_ok_def)
  have al: "a < length H div inc" using assms(3) div_le_mono [OF assms(4), of inc] by simp
  have "Suc a * inc \<le> length H div inc * inc" using al by (intro mult_le_mono1) simp
  also have "\<dots> \<le> length H" by simp
  finally have b: "Suc a * inc \<le> length H" .
  have ne: "marks inc H \<noteq> []" using al by (metis length_marks list.size(3) not_less_zero)
  then obtain ds where ds: "sendme_last_digests c = Some ds" "ds = map (padded n) (drop a (marks inc H))" "sendme_digest_hop c = ?h"
    using assms(1) by (auto simp: sender_ok_def split: option.splits)
  have hd: "ds = padded n (marks inc H ! a) # map (padded n) (drop (a + 1) (marks inc H))"
    using al ds(2) Cons_nth_drop_Suc [of a "marks inc H"] by (metis Suc_eq_plus1 length_marks list.simps(9))
  have len: "length (marks inc H ! a) = n" using marks_of_tags [OF assms(2,5)] al by simp
  have tl: "tag_len_ok n" using crypto_tag_len w(2) by metis
  let ?c1 = "\<lambda>b. c\<lparr>sendme_last_digests := Some (map (padded n) (drop (a + 1) (marks inc H))), used_obsolete_sendme := b\<rparr>"
  obtain ob where ok: "sendme_is_valid (snd_ns E) c ?h (sendme_body e n (marks inc H ! a)) = Some (True, ?c1 ob)"
    using sendme_accepted [OF w(1) tl len w(2) _ ds(3) assms(6,7,8)] ds(1) hd by blast
  have f1: "flow_at (?c1 ob) ?h = ?f" "valid_end (?c1 ob) ?h" "circ_is_origin (?c1 ob) = circ_is_origin c"
    using w(1) by simp_all
  show ?thesis
  proof (cases "hop_ccontrol ?f")
    case None
    let ?f2 = "?f\<lparr>hop_package_window := hop_package_window ?f + CIRCWINDOW_INCREMENT\<rparr>"
    have s: "inc = 100" "w0 \<le> 1000" "hop_package_window ?f = w0 - (int (length H) - int a * 100)" "0 \<le> hop_package_window ?f"
      using assms(1) None by (simp_all add: sender_ok_def)
    have "int (Suc a * 100) \<le> int (length H)" using b s(1) by (simp only: of_nat_le_iff)
    then have "\<not> hop_package_window ?f + CIRCWINDOW_INCREMENT > CIRCWINDOW_START_MAX"
      using s by (simp add: CIRCWINDOW_INCREMENT_def CIRCWINDOW_START_MAX_def)
    moreover have "(if circ_is_origin (?c1 ob) then ?h else None) = ?h" "\<not> (circ_is_origin (?c1 ob) \<and> ?h = None)"
      using w(1) by (auto simp: valid_end_def)
    ultimately have "sendme_process_circuit_level_impl ?h (?c1 ob) = (0, set_flow ?h ?f2 (?c1 ob))"
      unfolding sendme_process_circuit_level_impl_def Let_def by (simp only: f1 if_False simp_thms)
    then have "sendme_process_circuit_level (snd_ns E) now q blocked ?h (sendme_body e n (marks inc H ! a)) (g, c)
      = Some (0, g, set_flow ?h ?f2 (?c1 ob))"
      using ok None f1(1) by (simp add: sendme_process_circuit_level_def)
    moreover have "sender_ok E n inc w0 H (a + 1) g (set_flow ?h ?f2 (?c1 ob))"
      using assms(1) None f1 w ds(3) s by (simp add: sender_ok_def CIRCWINDOW_INCREMENT_def)
    ultimately show ?thesis by blast
  next
    case (Some cc)
    have s: "cc_flow_ok (int inc) cc" "cwnd_max g \<le> INT32_MAX" "cc_inflight cc = int (length H) - int a * int inc" "cc_inflight cc \<le> INT32_MAX"
      using assms(1) Some by (simp_all add: sender_ok_def)
    have i: "0 \<le> cc_inflight cc - int inc"
    proof -
      have "int (Suc a * inc) \<le> int (length H)" using b by (simp only: of_nat_le_iff)
      then show ?thesis using s(3) by (simp add: algebra_simps)
    qed
    obtain r g' cc' where d: "congestion_control_dispatch_cc_alg now q blocked (g, cc) = Some (r, g', cc')" "cc_flow_ok (int inc) cc'"
      "cwnd_max g' = cwnd_max g" "cc_inflight cc' = cc_inflight cc - int inc"
      using dispatch_frame [OF s(1,2) i, of now q blocked] s(4) assms(2) by auto
    then have "sendme_process_circuit_level (snd_ns E) now q blocked ?h (sendme_body e n (marks inc H ! a)) (g, c)
      = Some (0, g', set_flow ?h (?f\<lparr>hop_ccontrol := Some cc'\<rparr>) (?c1 ob))"
      using ok Some f1(1) by (simp add: sendme_process_circuit_level_def)
    moreover have "sender_ok E n inc w0 H (a + 1) g' (set_flow ?h (?f\<lparr>hop_ccontrol := Some cc'\<rparr>) (?c1 ob))"
      using assms(1) Some f1 w ds(3) s d by (simp add: sender_ok_def algebra_simps)
    ultimately show ?thesis by blast
  qed
qed

lemma flow_ack_ok:
  assumes "flow_ok E e n inc w0 H m a l" "sendme_wire l \<noteq> []"
    "get_accept_min_version (snd_ns E) = Some v" "v \<le> 1" "e = 1 \<or> v \<le> 0"
  shows "flow_ok E e n inc w0 H m (a + 1) (flow_ack E now q blocked l)"
proof -
  have f: "sender_ok E n inc w0 H a (snd_globals l) (snd_circ l)" "m \<le> length H" "a \<le> m div inc" "0 < inc" "\<forall>t \<in> set H. length t = n"
    "sendme_wire l = map (sendme_body e n) (drop a (marks inc (take m H)))"
    using assms(1) by (simp_all add: flow_ok_def receiver_ok_def)
  have len: "length (marks inc (take m H)) = m div inc" using f(2) by simp
  have a: "a < m div inc" using assms(2) f(3,6) len by (metis drop_all le_neq_implies_less list.simps(8) order_refl)
  have t: "marks inc (take m H) ! a = marks inc H ! a" using a by (simp add: marks_take [OF f(4,2)])
  have w: "sendme_wire l = sendme_body e n (marks inc H ! a) # map (sendme_body e n) (drop (a + 1) (marks inc (take m H)))"
    using Cons_nth_drop_Suc [of a "marks inc (take m H)"] a len f(6) t by (metis Suc_eq_plus1 list.simps(9))
  obtain g' c' where "sendme_process_circuit_level (snd_ns E) now q blocked (snd_hint E) (sendme_body e n (marks inc H ! a)) (snd_globals l, snd_circ l)
      = Some (0, g', c')" "sender_ok E n inc w0 H (a + 1) g' c'"
    using process_level_ok [OF f(1,4) a f(2,5) assms(3-5)] by blast
  moreover from this have "flow_ack E now q blocked l = l\<lparr>snd_globals := g', snd_circ := c', sendme_wire := tl (sendme_wire l), link_closed := link_closed l\<rparr>"
    by (simp add: flow_ack_def w)
  ultimately show ?thesis using assms(1) a by (simp add: flow_ok_def w)
qed

section \<open>Runs\<close>

definition fresh_flow :: "flow_env \<Rightarrow> nat \<Rightarrow> nat \<Rightarrow> flow_link \<Rightarrow> bool" where
  "fresh_flow E n inc l \<longleftrightarrow> \<not> link_closed l \<and> data_wire l = [] \<and> sendme_wire l = [] \<and> inc \<le> 254
    \<and> valid_end (snd_circ l) (snd_hint E) \<and> valid_end (rcv_circ l) (rcv_hint E)
    \<and> relay_crypto_sendme_tag_len (hop_crypto (flow_at (snd_circ l) (snd_hint E))) = n
    \<and> relay_crypto_sendme_tag_len (hop_crypto (flow_at (rcv_circ l) (rcv_hint E))) = n
    \<and> sendme_last_digests (snd_circ l) = None
    \<and> sendme_get_inc_count (snd_circ l) (snd_hint E) = int inc \<and> sendme_get_inc_count (rcv_circ l) (rcv_hint E) = int inc
    \<and> hop_deliver_window (flow_at (rcv_circ l) (rcv_hint E)) = CIRCWINDOW_START
    \<and> (case hop_ccontrol (flow_at (snd_circ l) (snd_hint E)) of
         None \<Rightarrow> hop_package_window (flow_at (snd_circ l) (snd_hint E)) mod 100 = 0
           \<and> 0 \<le> hop_package_window (flow_at (snd_circ l) (snd_hint E)) \<and> hop_package_window (flow_at (snd_circ l) (snd_hint E)) \<le> 1000
       | Some cc \<Rightarrow> 2 \<le> inc \<and> cc_flow_ok (int inc) cc \<and> cc_inflight cc = 0 \<and> cwnd_max (snd_globals l) \<le> INT32_MAX)"

text \<open>The version the receiver emits is one the sender accepts.\<close>

definition versions_agree :: "flow_env \<Rightarrow> int \<Rightarrow> bool" where
  "versions_agree E e \<longleftrightarrow> get_emit_min_version (rcv_ns E) = Some e
    \<and> (\<exists>v. get_accept_min_version (snd_ns E) = Some v \<and> v \<le> 1 \<and> (e = 1 \<or> v \<le> 0))"

inductive_cases flow_stepE: "flow_step E n l l'"

lemma fresh_flow_ok:
  assumes "fresh_flow E n inc l"
  shows "flow_ok E e n inc (hop_package_window (flow_at (snd_circ l) (snd_hint E))) [] 0 0 l"
proof -
  have i: "sendme_get_inc_count (snd_circ l) (snd_hint E) = int inc" "inc \<le> 254" using assms by (simp_all add: fresh_flow_def)
  have pos: "0 < inc \<and> (hop_ccontrol (flow_at (snd_circ l) (snd_hint E)) = None \<longrightarrow> inc = 100)"
  proof (cases "hop_ccontrol (flow_at (snd_circ l) (snd_hint E))")
    case None
    then show ?thesis using i by (simp add: sendme_get_inc_count_def CIRCWINDOW_INCREMENT_def)
  next
    case (Some cc)
    then show ?thesis using assms by (simp add: fresh_flow_def)
  qed
  then have "sender_ok E n inc (hop_package_window (flow_at (snd_circ l) (snd_hint E))) [] 0 (snd_globals l) (snd_circ l)"
    using assms by (auto simp: sender_ok_def fresh_flow_def marks_def split: option.splits)
  then show ?thesis using assms pos by (simp add: flow_ok_def receiver_ok_def fresh_flow_def marks_def)
qed

lemma flow_step_ok:
  assumes "flow_step E n l l'" "flow_ok E e n inc w0 H m a l" "versions_agree E e"
  shows "\<exists>H' m' a'. flow_ok E e n inc w0 H' m' a' l'"
proof -
  obtain v where v: "get_emit_min_version (rcv_ns E) = Some e" "get_accept_min_version (snd_ns E) = Some v" "v \<le> 1" "e = 1 \<or> v \<le> 0"
    using assms(3) by (auto simp: versions_agree_def)
  show ?thesis
    using assms(1) flow_send_ok [OF assms(2)] flow_receive_ok [OF assms(2) _ _ v(1)] flow_ack_ok [OF assms(2) _ v(2-4)]
    by (elim flow_stepE) blast+
qed

lemma flow_run_ok:
  assumes "flow_run E n l l'" "flow_ok E e n inc w0 H m a l" "versions_agree E e"
  shows "\<exists>H' m' a'. flow_ok E e n inc w0 H' m' a' l'"
  using assms
proof (induction rule: flow_run.induct)
  case (flow_next l' l'')
  then obtain H' m' a' where "flow_ok E e n inc w0 H' m' a' l'" by blast
  then show ?case using flow_step_ok flow_next by blast
qed blast

text \<open>What is in flight, counted at the sender.\<close>

lemma flow_ok_counts:
  assumes "flow_ok E e n inc w0 H m a l"
  shows "int (length H) - int a * int inc = int (length (data_wire l))
    + (CIRCWINDOW_START - hop_deliver_window (flow_at (rcv_circ l) (rcv_hint E))) + int inc * int (length (sendme_wire l))"
    "0 \<le> CIRCWINDOW_START - hop_deliver_window (flow_at (rcv_circ l) (rcv_hint E))"
    "CIRCWINDOW_START - hop_deliver_window (flow_at (rcv_circ l) (rcv_hint E)) < int inc"
proof -
  have f: "m \<le> length H" "a \<le> m div inc" "data_wire l = drop m H" "length (sendme_wire l) = m div inc - a" "0 < inc"
    "CIRCWINDOW_START - hop_deliver_window (flow_at (rcv_circ l) (rcv_hint E)) = int (m mod inc)"
    using assms by (simp_all add: flow_ok_def receiver_ok_def)
  have "int m = int (m div inc) * int inc + int (m mod inc)" by (metis div_mult_mod_eq of_nat_add of_nat_mult)
  then show "int (length H) - int a * int inc = int (length (data_wire l))
    + (CIRCWINDOW_START - hop_deliver_window (flow_at (rcv_circ l) (rcv_hint E))) + int inc * int (length (sendme_wire l))"
    using f by (simp add: of_nat_diff algebra_simps)
  show "0 \<le> CIRCWINDOW_START - hop_deliver_window (flow_at (rcv_circ l) (rcv_hint E))"
    "CIRCWINDOW_START - hop_deliver_window (flow_at (rcv_circ l) (rcv_hint E)) < int inc" using f(5,6) by simp_all
qed

section \<open>Properties\<close>

text \<open>C4: Whatever the interleaving, no end closes a fresh circuit over a SENDME if the version that one end emits
  is one the other accepts and if either the windows are fixed and the first is a multiple of 100 and at most 1000,
  or there is congestion control (Vegas, windows of 32 bits) with the same increment, between two and 254 cells,
  at both ends. The
  sender's count is then exactly the cells in flight, received since the last SENDME and covered by SENDMEs in
  flight, and when nothing is in flight the sender may go on if its window is at least an increment.\<close>

theorem sendme_flow_exact:
  assumes "fresh_flow E n inc l" "versions_agree E e" "flow_run E n l l'"
  shows "\<not> link_closed l' \<and> (let unacked = int (length (data_wire l'))
      + (CIRCWINDOW_START - hop_deliver_window (flow_at (rcv_circ l') (rcv_hint E))) + int inc * int (length (sendme_wire l'))
    in (case hop_ccontrol (flow_at (snd_circ l') (snd_hint E)) of
          None \<Rightarrow> hop_package_window (flow_at (snd_circ l') (snd_hint E))
            = hop_package_window (flow_at (snd_circ l) (snd_hint E)) - unacked
        | Some cc \<Rightarrow> cc_inflight cc = unacked)
     \<and> (data_wire l' = [] \<longrightarrow> sendme_wire l' = [] \<longrightarrow>
          int inc \<le> (case hop_ccontrol (flow_at (snd_circ l') (snd_hint E)) of
             None \<Rightarrow> hop_package_window (flow_at (snd_circ l) (snd_hint E)) | Some cc \<Rightarrow> cc_cwnd cc) \<longrightarrow>
          0 < congestion_control_get_package_window (snd_circ l') (snd_hint E)))"
proof -
  let ?w0 = "hop_package_window (flow_at (snd_circ l) (snd_hint E))"
  obtain H m a where ok: "flow_ok E e n inc ?w0 H m a l'"
    using flow_run_ok [OF assms(3) fresh_flow_ok [OF assms(1)] assms(2)] by blast
  note c = flow_ok_counts [OF ok]
  have s: "sender_ok E n inc ?w0 H a (snd_globals l') (snd_circ l')" "\<not> link_closed l'" using ok by (simp_all add: flow_ok_def)
  show ?thesis
  proof (cases "hop_ccontrol (flow_at (snd_circ l') (snd_hint E))")
    case None
    then show ?thesis using s c by (simp add: sender_ok_def Let_def congestion_control_get_package_window_def)
  next
    case (Some cc)
    then have "cc_inflight cc = int (length H) - int a * int inc" using s(1) by (simp add: sender_ok_def)
    then show ?thesis
      using Some s(2) c by (simp add: Let_def congestion_control_get_package_window_def congestion_control_package_window_def)
  qed
qed

definition sample_crypto :: relay_crypto where
  "sample_crypto = RCK_TOR1 (let c = aes_new_cipher [] []; d = \<lparr>dg_alg = DIGEST_SHA1, dg_bytes = []\<rparr>
     in \<lparr>f_crypto = c, b_crypto = c, f_digest = d, b_digest = d, sendme_digest = replicate 20 7\<rparr>)"

definition sample_cc :: "int \<Rightarrow> congestion_control" where
  "sample_cc inc = (snd sample_window)\<lparr>sendme_inc := inc\<rparr>"

definition sample_hop :: "congestion_control option \<Rightarrow> hop_flow" where
  "sample_hop cc = \<lparr>hop_package_window = 1000, hop_deliver_window = 1000, hop_ccontrol = cc, hop_crypto = sample_crypto\<rparr>"

text \<open>An exit that sends to a client of one hop, with an increment of \<open>inc\<close>.\<close>

definition sample_flow :: "int \<Rightarrow> flow_link" where
  "sample_flow inc = \<lparr>snd_globals = default_globals,
     snd_circ = \<lparr>circ_is_origin = False, circ_own = sample_hop (Some (sample_cc inc)), circ_cpath = [], sendme_last_digests = None,
       sendme_digest_hop = None, used_legacy_circuit_handshake = False, used_obsolete_sendme = False\<rparr>,
     rcv_circ = \<lparr>circ_is_origin = True, circ_own = sample_hop None, circ_cpath = [sample_hop (Some (sample_cc inc))], sendme_last_digests = None,
       sendme_digest_hop = None, used_legacy_circuit_handshake = False, used_obsolete_sendme = False\<rparr>,
     data_wire = [], sendme_wire = [], link_closed = False\<rparr>"

definition sample_env :: flow_env where
  "sample_env = \<lparr>snd_ns = None, rcv_ns = None, snd_hint = None, rcv_hint = Some 0\<rparr>"

definition sent_two :: "int \<Rightarrow> flow_link" where
  "sent_two inc = flow_send sample_env 2000 sample_crypto (flow_send sample_env 1000 sample_crypto (sample_flow inc))"

lemma sample_fits: "tag_fits 20 sample_crypto" by code_simp

text \<open>Two cells sent and received, and the SENDME for them handled.\<close>

definition received_two :: "int \<Rightarrow> flow_link" where
  "received_two inc = flow_receive sample_env sample_crypto (flow_receive sample_env sample_crypto (sent_two inc))"

definition acked_two :: flow_link where
  "acked_two = flow_ack sample_env 3000 0 False (received_two 2)"

lemma sample_flow_run: "flow_run sample_env 20 (sample_flow 2) acked_two"
proof -
  let ?E = sample_env and ?k = sample_crypto
  let ?l1 = "flow_send ?E 1000 ?k (sample_flow 2)" and ?l2 = "sent_two 2"
  let ?l3 = "flow_receive ?E ?k ?l2" and ?l4 = "received_two 2"
  have w: "0 < congestion_control_get_package_window (snd_circ (sample_flow 2)) (snd_hint ?E)"
    "0 < congestion_control_get_package_window (snd_circ ?l1) (snd_hint ?E)" by code_simp+
  have s: "flow_step ?E 20 (sample_flow 2) ?l1" "flow_step ?E 20 ?l1 ?l2"
    unfolding sent_two_def by (rule step_send [OF w(1) sample_fits], rule step_send [OF w(2) sample_fits])
  have "data_wire ?l2 = relay_crypto_get_sendme_tag ?k # [relay_crypto_get_sendme_tag ?k]"
    "data_wire ?l3 = relay_crypto_get_sendme_tag ?k # []" by code_simp+
  then have r: "flow_step ?E 20 ?l2 ?l3" "flow_step ?E 20 ?l3 ?l4"
    unfolding received_two_def by (auto intro: step_receive sample_fits)
  have "sendme_wire ?l4 \<noteq> []" by code_simp
  then have a: "flow_step ?E 20 ?l4 acked_two" unfolding acked_two_def by (rule step_ack)
  show ?thesis
    by (rule flow_next [OF flow_next [OF flow_next [OF flow_next [OF flow_next [OF flow_here s(1)] s(2)] r(1)] r(2)] a])
qed

lemma sendme_flow_exact_witness:
  "\<not> link_closed acked_two
    \<and> map_option cc_inflight (hop_ccontrol (flow_at (snd_circ acked_two) (snd_hint sample_env)))
      = Some (int (length (data_wire acked_two)) + (CIRCWINDOW_START - hop_deliver_window (flow_at (rcv_circ acked_two) (rcv_hint sample_env)))
          + int 2 * int (length (sendme_wire acked_two)))
    \<and> 0 < congestion_control_get_package_window (snd_circ acked_two) (snd_hint sample_env)"
proof -
  have f: "fresh_flow sample_env 20 2 (sample_flow 2)" by code_simp
  have v: "versions_agree sample_env 1"
    by (simp add: versions_agree_def sample_env_def get_emit_min_version_def get_accept_min_version_def networkstatus_get_param_def)
  have w: "data_wire acked_two = []" "sendme_wire acked_two = []" by code_simp+
  obtain cc where cc: "hop_ccontrol (flow_at (snd_circ acked_two) (snd_hint sample_env)) = Some cc" "2 \<le> cc_cwnd cc"
  proof -
    have "(case hop_ccontrol (flow_at (snd_circ acked_two) (snd_hint sample_env)) of None \<Rightarrow> False | Some cc \<Rightarrow> 2 \<le> cc_cwnd cc)"
      by code_simp
    then show thesis using that by (auto split: option.splits)
  qed
  show ?thesis using sendme_flow_exact [OF f v sample_flow_run] w cc by (simp add: Let_def)
qed

section \<open>Cells relayed one by one\<close>

text \<open>Each cell, with its time and the onion layers after it, is received before the next is sent.\<close>

fun relay_cells :: "flow_env \<Rightarrow> (int \<times> relay_crypto) list \<Rightarrow> flow_link \<Rightarrow> flow_link" where
  "relay_cells E [] l = l"
| "relay_cells E ((now, k) # ks) l = relay_cells E ks (flow_receive E k (flow_send E now k l))"

definition tags_of :: "(int \<times> relay_crypto) list \<Rightarrow> bytes list" where
  "tags_of ks = map (\<lambda>(now, k). relay_crypto_get_sendme_tag k) ks"

text \<open>The tags the sender remembers for a hop.\<close>

definition remembers :: "nat \<Rightarrow> nat option \<Rightarrow> bytes list \<Rightarrow> circuit_flow \<Rightarrow> bool" where
  "remembers n h D c \<longleftrightarrow> (case sendme_last_digests c of
       None \<Rightarrow> D = []
     | Some ds \<Rightarrow> ds = map (padded n) D \<and> sendme_digest_hop c = h)"

lemma remembers_same [simp]:
  "remembers n h D (set_flow h' f c) = remembers n h D c" "remembers n h D (with_crypto h' k c) = remembers n h D c"
  by (simp_all add: remembers_def split: option.split)

text \<open>One cell counted in the windows of a hop.\<close>

definition packaged :: "int \<Rightarrow> hop_flow \<Rightarrow> hop_flow" where
  "packaged now f = (case hop_ccontrol f of
       None \<Rightarrow> f\<lparr>hop_package_window := hop_package_window f - 1\<rparr>
     | Some cc \<Rightarrow> f\<lparr>hop_ccontrol := Some (congestion_control_note_cell_sent now cc)\<rparr>)"

lemma note_sent_remembers:
  assumes "valid_end c h" "tag_fits n (hop_crypto (flow_at c h))" "remembers n h D c" "0 < congestion_control_get_package_window c h"
  shows "\<exists>c'. note_data_cell_sent now h c = Some (0, c') \<and> valid_end c' h \<and> flow_at c' h = packaged now (flow_at c h)
    \<and> remembers n h (D @ (if circuit_sent_cell_for_sendme c h then [relay_crypto_get_sendme_tag (hop_crypto (flow_at c h))] else [])) c'"
proof -
  let ?t = "relay_crypto_get_sendme_tag (hop_crypto (flow_at c h))"
  have "sendme_last_digests c = None \<or> sendme_digest_hop c = h" using assms(3) by (auto simp: remembers_def split: option.splits)
  note rec = record_tag [OF assms(1) _ _ this, of n] 
  define c1 where "c1 = (if \<not> circuit_sent_cell_for_sendme c h then c else c\<lparr>sendme_last_digests :=
    Some ((case sendme_last_digests c of None \<Rightarrow> [] | Some ds \<Rightarrow> ds) @ [padded n ?t]), sendme_digest_hop := h\<rparr>)"
  have r: "sendme_record_cell_digest_on_circ h c = Some c1" using rec assms(2) by (simp add: c1_def tag_fits_def)
  have f1: "valid_end c1 h" "flow_at c1 h = flow_at c h" "circ_is_origin c1 = circ_is_origin c" using assms(1) by (simp_all add: c1_def)
  have d1: "remembers n h (D @ (if circuit_sent_cell_for_sendme c h then [?t] else [])) c1"
    using assms(3) by (auto simp: remembers_def c1_def split: option.splits)
  let ?c2 = "set_flow h (packaged now (flow_at c h)) c1"
  have "\<exists>w. sendme_note_circuit_data_packaged now h c1 = Some (w, ?c2) \<and> \<not> w < 0"
  proof (cases "hop_ccontrol (flow_at c h)")
    case None
    then show ?thesis using f1 assms(4)
      by (auto simp: sendme_note_circuit_data_packaged_def congestion_control_get_package_window_def packaged_def Let_def valid_end_def)
  next
    case (Some cc)
    then show ?thesis using f1
      by (simp add: sendme_note_circuit_data_packaged_def congestion_control_get_package_window_def congestion_control_package_window_def
        packaged_def Let_def)
  qed
  moreover have "remembers n h (D @ (if circuit_sent_cell_for_sendme c h then [?t] else [])) ?c2"
    using d1 by (simp only: remembers_same)
  ultimately show ?thesis using r f1(1) by (auto simp: note_data_cell_sent_def)
qed

text \<open>Between cells: the tags \<open>H\<close> have been sent and received, and the sender remembers \<open>D\<close>.\<close>

definition between_cells :: "flow_env \<Rightarrow> int \<Rightarrow> nat \<Rightarrow> nat \<Rightarrow> bytes list \<Rightarrow> bytes list \<Rightarrow> flow_link \<Rightarrow> bool" where
  "between_cells E e n inc H D l \<longleftrightarrow> \<not> link_closed l \<and> data_wire l = [] \<and> sendme_wire l = map (sendme_body e n) (marks inc H)
    \<and> valid_end (snd_circ l) (snd_hint E) \<and> relay_crypto_sendme_tag_len (hop_crypto (flow_at (snd_circ l) (snd_hint E))) = n
    \<and> remembers n (snd_hint E) D (snd_circ l) \<and> receiver_ok E n inc (length H) (rcv_circ l)"

lemma sent_for_with_crypto [simp]:
  "valid_end c h \<Longrightarrow> circuit_sent_cell_for_sendme (with_crypto h k c) h = circuit_sent_cell_for_sendme c h"
  by (simp add: circuit_sent_cell_for_sendme_def cong: option.case_cong)

lemma packaged_crypto: "hop_crypto (packaged now f) = hop_crypto f"
  by (simp add: packaged_def split: option.split)

lemma relay_cell_step:
  assumes "between_cells E e n inc H D l" "get_emit_min_version (rcv_ns E) = Some e" "tag_fits n k"
    "0 < congestion_control_get_package_window (snd_circ l) (snd_hint E)"
  shows "let l1 = flow_receive E k (flow_send E now k l); t = relay_crypto_get_sendme_tag k
    in between_cells E e n inc (H @ [t]) (D @ (if circuit_sent_cell_for_sendme (snd_circ l) (snd_hint E) then [t] else [])) l1
      \<and> flow_at (snd_circ l1) (snd_hint E) = packaged now ((flow_at (snd_circ l) (snd_hint E))\<lparr>hop_crypto := k\<rparr>)"
proof -
  let ?h = "snd_hint E" and ?t = "relay_crypto_get_sendme_tag k"
  let ?c = "with_crypto ?h k (snd_circ l)" and ?d = "with_crypto (rcv_hint E) k (rcv_circ l)"
  have b: "valid_end (snd_circ l) ?h" "remembers n ?h D (snd_circ l)" "receiver_ok E n inc (length H) (rcv_circ l)" "0 < inc"
    "data_wire l = []" "sendme_wire l = map (sendme_body e n) (marks inc H)" "\<not> link_closed l"
    using assms(1) by (simp_all add: between_cells_def receiver_ok_def)
  have k: "relay_crypto_sendme_tag_len k = n" "length ?t = n" using assms(3) by (simp_all add: tag_fits_def)
  have f: "flow_at ?c ?h = (flow_at (snd_circ l) ?h)\<lparr>hop_crypto := k\<rparr>"
    "hop_crypto ((flow_at (snd_circ l) ?h)\<lparr>hop_crypto := k\<rparr>) = k"
    "circuit_sent_cell_for_sendme ?c ?h = circuit_sent_cell_for_sendme (snd_circ l) ?h" using b(1) by simp_all
  have "remembers n ?h D ?c" using b(2) by simp
  then obtain c' where c': "note_data_cell_sent now ?h ?c = Some (0, c')" "valid_end c' ?h"
    "flow_at c' ?h = packaged now ((flow_at (snd_circ l) ?h)\<lparr>hop_crypto := k\<rparr>)"
    "remembers n ?h (D @ (if circuit_sent_cell_for_sendme (snd_circ l) ?h then [?t] else [])) c'"
    using note_sent_remembers [of ?c ?h n D now, unfolded f] assms(3,4) b(1) by auto
  have v: "valid_end (rcv_circ l) (rcv_hint E)" using b(3) by (simp add: receiver_ok_def)
  then have "?t = relay_crypto_get_sendme_tag (hop_crypto (flow_at ?d (rcv_hint E)))" by simp
  then obtain d' where d': "note_data_cell_received (rcv_ns E) True (rcv_hint E) ?d
      = Some (0, if (length H + 1) mod inc = 0 then [sendme_body e n ?t] else [], True, d')" "receiver_ok E n inc (length H + 1) d'"
    using note_received_ok [OF receiver_ok_crypto [OF b(3) k(1)] _ k(2) assms(2)] by blast
  have s: "flow_send E now k l = l\<lparr>snd_circ := c', data_wire := [?t], link_closed := False\<rparr>"
    using c'(1) b(5,7) by (simp add: flow_send_def)
  have r: "flow_receive E k (flow_send E now k l) = l\<lparr>snd_circ := c', rcv_circ := d', data_wire := [],
      sendme_wire := map (sendme_body e n) (marks inc (H @ [?t])), link_closed := False\<rparr>"
    using d'(1) b(6) by (simp add: s flow_receive_def marks_snoc [OF b(4)])
  show ?thesis using c' d'(2) k(1) by (simp add: r between_cells_def packaged_crypto Let_def)
qed

text \<open>A SENDME whose tag is not the one remembered first closes the circuit.\<close>

lemma sendme_refused:
  assumes "valid_end c h" "relay_crypto_sendme_tag_len (hop_crypto (flow_at c h)) = n" "length tag = n" "remembers n h D c"
    "D = [] \<or> (e = 1 \<and> length (hd D) = n \<and> hd D \<noteq> tag)"
  shows "case sendme_is_valid ns c h (sendme_body e n tag) of None \<Rightarrow> True | Some (ok, _) \<Rightarrow> \<not> ok"
proof -
  have n: "tag_len_ok n" using crypto_tag_len assms(2) by metis
  have u: "unat (word_of_nat n :: 16 word) = n" using tag_lens [OF n] by auto
  have t: "circ_expects_tag_len (c\<lparr>used_obsolete_sendme := b\<rparr>) h = Some n" for b
    using assms(1,2) by (auto simp: circ_expects_tag_len_def valid_end_def)
  have same: "c\<lparr>used_obsolete_sendme := used_obsolete_sendme c\<rparr> = c" by simp
  have tag: "\<not> fst (sendme_tag_is_valid (c\<lparr>used_obsolete_sendme := b\<rparr>) h (if e = 1 then 1 else 0)
      (if e = 1 then Some \<lparr>sendme_version = 1, sendme_data_len = word_of_nat n, data_v1_digest = tag\<rparr> else None))" for b
  proof (cases D)
    case Nil
    then have "fst (pop_first_cell_digest (c\<lparr>used_obsolete_sendme := b\<rparr>) h) = None"
      using assms(4) by (auto simp: remembers_def pop_first_cell_digest_def split: option.splits list.splits)
    then show ?thesis by (auto simp: sendme_tag_is_valid_def t split: prod.split)
  next
    case (Cons d D')
    then have d: "e = 1" "length d = n" "d \<noteq> tag" using assms(5) by auto
    have "\<exists>ds. sendme_last_digests c = Some (padded n d # ds) \<or> sendme_last_digests c = None"
      using assms(4) Cons by (auto simp: remembers_def split: option.splits)
    then have p: "fst (pop_first_cell_digest (c\<lparr>used_obsolete_sendme := b\<rparr>) h) \<in> {None, Some (padded n d)}"
      by (auto simp: pop_first_cell_digest_def)
    have "\<not> cell_v1_is_valid \<lparr>sendme_version = 1, sendme_data_len = word_of_nat n, data_v1_digest = tag\<rparr> (padded n d) n"
      using d assms(3) u by (simp add: cell_v1_is_valid_def v1_tag_matches_def padded_def)
    then show ?thesis using p d(1) by (auto simp: sendme_tag_is_valid_def t split: prod.split option.split)
  qed
  show ?thesis
  proof (cases "e = 1")
    case True
    then show ?thesis
      using parse_sendme_body(1) [OF n assms(3)] tag [of "used_obsolete_sendme c", unfolded same]
      by (auto simp: sendme_is_valid_def split: option.split)
  next
    case False
    then show ?thesis
      using parse_sendme_body(2) [OF n assms(3) False] tag [of "used_obsolete_sendme c", unfolded same] tag [of True]
      by (auto simp: sendme_is_valid_def split: option.split)
  qed
qed

lemma first_ack_closes:
  assumes "between_cells E e n inc H D l" "marks inc H \<noteq> []" "\<forall>t \<in> set H. length t = n"
    "D = [] \<or> (e = 1 \<and> length (hd D) = n \<and> hd D \<noteq> hd (marks inc H))"
  shows "link_closed (flow_ack E now q blocked l)"
proof -
  have b: "valid_end (snd_circ l) (snd_hint E)" "relay_crypto_sendme_tag_len (hop_crypto (flow_at (snd_circ l) (snd_hint E))) = n"
    "remembers n (snd_hint E) D (snd_circ l)" "0 < inc" "hd (sendme_wire l) = sendme_body e n (hd (marks inc H))"
    using assms(1,2) by (simp_all add: between_cells_def receiver_ok_def hd_map)
  have "length (hd (marks inc H)) = n" using marks_of_tags [OF b(4) assms(3)] assms(2) by simp
  from sendme_refused [OF b(1,2) this b(3) assms(4), of "snd_ns E"] show ?thesis
    by (auto simp: flow_ack_def b(5) sendme_process_circuit_level_def END_CIRC_REASON_TORPROTOCOL_def split: option.split prod.split bool.split)
qed

text \<open>A circuit before its first cell, with increments of one cell or with fixed windows.\<close>

definition unused_flow :: "flow_env \<Rightarrow> nat \<Rightarrow> nat \<Rightarrow> flow_link \<Rightarrow> bool" where
  "unused_flow E n inc l \<longleftrightarrow> \<not> link_closed l \<and> data_wire l = [] \<and> sendme_wire l = []
    \<and> valid_end (snd_circ l) (snd_hint E) \<and> valid_end (rcv_circ l) (rcv_hint E)
    \<and> relay_crypto_sendme_tag_len (hop_crypto (flow_at (snd_circ l) (snd_hint E))) = n
    \<and> relay_crypto_sendme_tag_len (hop_crypto (flow_at (rcv_circ l) (rcv_hint E))) = n
    \<and> sendme_last_digests (snd_circ l) = None
    \<and> sendme_get_inc_count (snd_circ l) (snd_hint E) = int inc \<and> sendme_get_inc_count (rcv_circ l) (rcv_hint E) = int inc
    \<and> hop_deliver_window (flow_at (rcv_circ l) (rcv_hint E)) = CIRCWINDOW_START"

lemma unused_between: "unused_flow E n inc l \<Longrightarrow> 0 < inc \<Longrightarrow> inc \<le> 254 \<Longrightarrow> between_cells E e n inc [] [] l"
  by (simp add: unused_flow_def between_cells_def receiver_ok_def remembers_def marks_def)

lemma marks_one: "marks 1 H = H"
  by (simp add: marks_def map_nth)

lemma relay_cells_append: "relay_cells E (is @ js) l = relay_cells E js (relay_cells E is l)"
  by (induction E "is" l rule: relay_cells.induct) auto

lemma tags_of_append [simp]: "tags_of (ks @ js) = tags_of ks @ tags_of js" "length (tags_of ks) = length ks"
  by (simp_all add: tags_of_def)

lemma tags_fit: "\<forall>(now, k) \<in> set ks. tag_fits n k \<Longrightarrow> \<forall>t \<in> set (tags_of ks). length t = n"
  by (auto simp: tags_of_def tag_fits_def)

text \<open>Increments of one cell: every tag but the first is remembered.\<close>

lemma unit_cells:
  assumes "unused_flow E n 1 l" "get_emit_min_version (rcv_ns E) = Some e"
    "hop_ccontrol (flow_at (snd_circ l) (snd_hint E)) = Some cc" "cc_inflight cc = 0" "cc_cwnd cc \<le> INT32_MAX"
    "\<forall>(now, k) \<in> set ks. tag_fits n k" "int (length ks) \<le> cc_cwnd cc"
  shows "between_cells E e n 1 (tags_of ks) (tl (tags_of ks)) (relay_cells E ks l)
    \<and> (\<exists>cc'. hop_ccontrol (flow_at (snd_circ (relay_cells E ks l)) (snd_hint E)) = Some cc'
        \<and> cc_inflight cc' = int (length ks) \<and> cc_cwnd cc' = cc_cwnd cc \<and> sendme_inc cc' = 1)"
  using assms(6,7)
proof (induction ks rule: rev_induct)
  case Nil
  then show ?case using unused_between [OF assms(1)] assms(1,3,4) by (simp add: tags_of_def unused_flow_def sendme_get_inc_count_def)
next
  case (snoc x ks)
  obtain now k where x: "x = (now, k)" by fastforce
  let ?l = "relay_cells E ks l"
  obtain c1 where ih: "between_cells E e n 1 (tags_of ks) (tl (tags_of ks)) ?l"
    "hop_ccontrol (flow_at (snd_circ ?l) (snd_hint E)) = Some c1"
    "cc_inflight c1 = int (length ks)" "cc_cwnd c1 = cc_cwnd cc" "sendme_inc c1 = 1"
    using snoc by auto
  have w: "0 < congestion_control_get_package_window (snd_circ ?l) (snd_hint E)"
    using ih(2-4) snoc.prems(2) by (simp add: congestion_control_get_package_window_def congestion_control_package_window_def)
  have s: "circuit_sent_cell_for_sendme (snd_circ ?l) (snd_hint E) \<longleftrightarrow> ks \<noteq> []"
    using ih(2,3,5) by (simp add: circuit_sent_cell_for_sendme_def cc_sent_cell_for_sendme_def)
  have "tl (tags_of ks) @ (if ks \<noteq> [] then [relay_crypto_get_sendme_tag k] else []) = tl (tags_of (ks @ [x]))"
    by (cases ks) (auto simp: tags_of_def x)
  moreover have "u64 (int (length ks) + 1) = int (length ks) + 1" using snoc.prems(2) assms(5) by (simp add: u64_id)
  ultimately show ?case
    using relay_cell_step [OF ih(1) assms(2) _ w, of k now] snoc.prems(1) s ih(2-5)
    by (simp add: x relay_cells_append Let_def packaged_def congestion_control_note_cell_sent_def) (simp add: tags_of_def)
qed

lemma small_mod_zero:
  assumes "\<bar>x\<bar> < m"
  shows "x mod m = 0 \<longleftrightarrow> x = (0 :: int)"
proof
  assume "x mod m = 0"
  then have "m dvd x" by (simp add: mod_eq_0_iff_dvd)
  then show "x = 0" using assms dvd_imp_le_int [of x m] by fastforce
qed simp

text \<open>Fixed windows: in the first hundred cells only the tag that brings the window to a multiple of the increment
  is remembered.\<close>

lemma fixed_cells:
  assumes "unused_flow E n 100 l" "get_emit_min_version (rcv_ns E) = Some e"
    "hop_ccontrol (flow_at (snd_circ l) (snd_hint E)) = None" "hop_package_window (flow_at (snd_circ l) (snd_hint E)) = w0"
    "\<forall>(now, k) \<in> set ks. tag_fits n k" "length ks \<le> 100" "w0 mod 100 = int r" "0 < r" "100 < w0" "w0 < 1000"
  shows "between_cells E e n 100 (tags_of ks) (if length ks < r then [] else [tags_of ks ! (r - 1)]) (relay_cells E ks l)
    \<and> hop_ccontrol (flow_at (snd_circ (relay_cells E ks l)) (snd_hint E)) = None
    \<and> hop_package_window (flow_at (snd_circ (relay_cells E ks l)) (snd_hint E)) = w0 - int (length ks)"
  using assms(5,6)
proof (induction ks rule: rev_induct)
  case Nil
  then show ?case using unused_between [OF assms(1)] assms(3,4,8) by (simp add: tags_of_def)
next
  case (snoc x ks)
  obtain now k where x: "x = (now, k)" by fastforce
  let ?l = "relay_cells E ks l" and ?D = "\<lambda>ks. if length ks < r then [] else [tags_of ks ! (r - 1)]"
  have ih: "between_cells E e n 100 (tags_of ks) (?D ks) ?l"
    "hop_ccontrol (flow_at (snd_circ ?l) (snd_hint E)) = None"
    "hop_package_window (flow_at (snd_circ ?l) (snd_hint E)) = w0 - int (length ks)"
    using snoc by auto
  have len: "length ks < 100" using snoc.prems(2) by simp
  have w: "0 < congestion_control_get_package_window (snd_circ ?l) (snd_hint E)"
    using ih(2,3) len assms(9) by (simp add: congestion_control_get_package_window_def)
  have m: "(w0 - int (length ks) - 1) mod 100 = (int r - int (length ks) - 1) mod 100"
    using assms(7) by (metis mod_diff_left_eq)
  have "r < 100" using assms(7) pos_mod_bound [of 100 w0] by simp
  then have z: "(int r - int (length ks) - 1) mod 100 = 0 \<longleftrightarrow> int r - int (length ks) - 1 = 0"
    using len assms(8) by (intro small_mod_zero) linarith
  have "(w0 - int (length ks) - 1) mod 100 = 0 \<longleftrightarrow> length ks + 1 = r" unfolding m z by linarith
  then have s: "circuit_sent_cell_for_sendme (snd_circ ?l) (snd_hint E) \<longleftrightarrow> length ks + 1 = r"
    using ih(2,3) assms(10) by (simp add: circuit_sent_cell_for_sendme_def CIRCWINDOW_START_def CIRCWINDOW_INCREMENT_def)
  have "?D ks @ (if length ks + 1 = r then [relay_crypto_get_sendme_tag k] else []) = ?D (ks @ [x])"
    using assms(8) by (auto simp: nth_append tags_of_def x)
  moreover have "tags_of ks @ [relay_crypto_get_sendme_tag k] = tags_of (ks @ [x])" by (simp add: tags_of_def x)
  moreover have "tag_fits n k" using snoc.prems(1) by (simp add: x)
  moreover have "relay_cells E (ks @ [x]) l = flow_receive E k (flow_send E now k ?l)" by (simp add: x relay_cells_append)
  ultimately show ?case
    using relay_cell_step [OF ih(1) assms(2) _ w, of k now] ih(2,3) by (simp only: s Let_def) (simp add: packaged_def)
qed

text \<open>The consensus may set the increment to one cell, and a handshake accepts it.\<close>

lemma unit_increment_admitted:
  "map_option cc_sendme_inc (congestion_control_new_consensus_params (Some \<lparr>net_params = Some [''cc_sendme_inc=1'']\<rparr>) None default_globals) = Some 1"
  "congestion_control_validate_sendme_increment (g\<lparr>cc_sendme_inc := 1\<rparr>) 1"
  by (code_simp, simp add: congestion_control_validate_sendme_increment_def)

text \<open>C36: With an increment of one cell at both ends the circuit breaks: however many cells the window lets
  through before the first SENDME is handled, they are received and acknowledged, but the first SENDME closes the
  circuit at the sender, which does not remember the tag of the first cell. With more than one cell sent this needs
  SENDMEs that have a tag and different tags of the first two cells.\<close>

theorem single_cell_increment_closes:
  assumes "unused_flow E n 1 l" "get_emit_min_version (rcv_ns E) = Some e"
    "hop_ccontrol (flow_at (snd_circ l) (snd_hint E)) = Some cc" "cc_inflight cc = 0" "cc_cwnd cc \<le> INT32_MAX"
    "\<forall>(now, k) \<in> set ks. tag_fits n k" "ks \<noteq> []" "int (length ks) \<le> cc_cwnd cc"
    "length ks = 1 \<or> e = 1 \<and> tags_of ks ! 1 \<noteq> tags_of ks ! 0"
  shows "let l1 = relay_cells E ks l
    in \<not> link_closed l1 \<and> length (sendme_wire l1) = length ks \<and> link_closed (flow_ack E now q blocked l1)"
proof -
  let ?D = "tl (tags_of ks)"
  have b: "between_cells E e n 1 (tags_of ks) ?D (relay_cells E ks l)" using unit_cells [OF assms(1-6,8)] by blast
  have f: "\<forall>t \<in> set (tags_of ks). length t = n" using tags_fit [OF assms(6)] .
  have "?D = [] \<or> e = 1 \<and> length (hd ?D) = n \<and> hd ?D \<noteq> hd (marks 1 (tags_of ks))"
  proof (cases "tags_of ks")
    case (Cons t ts)
    have "length (tags_of ks) = length ks" by simp
    then show ?thesis using Cons assms(9) f unfolding marks_one by (cases ts) auto
  qed simp
  moreover have "tags_of ks \<noteq> []" using assms(7) by (simp add: tags_of_def)
  ultimately have "link_closed (flow_ack E now q blocked (relay_cells E ks l))"
    using first_ack_closes [OF b _ f] marks_one [of "tags_of ks"] by metis
  then show ?thesis using b by (simp add: between_cells_def Let_def marks_one [unfolded One_nat_def])
qed

text \<open>Cells with tags of their own, and a circuit with fixed windows.\<close>

definition crypto_nr :: "nat \<Rightarrow> relay_crypto" where
  "crypto_nr i = (case sample_crypto of RCK_TOR1 t \<Rightarrow> RCK_TOR1 (t\<lparr>sendme_digest := replicate 20 (word_of_nat i)\<rparr>) | RCK_CGO p \<Rightarrow> RCK_CGO p)"

definition fixed_flow :: "int \<Rightarrow> flow_link" where
  "fixed_flow w = (sample_flow 1)\<lparr>snd_circ := (snd_circ (sample_flow 1))\<lparr>circ_own := (sample_hop None)\<lparr>hop_package_window := w\<rparr>\<rparr>,
     rcv_circ := (rcv_circ (sample_flow 1))\<lparr>circ_cpath := [sample_hop None]\<rparr>\<rparr>"

lemma crypto_nr_tag: "relay_crypto_get_sendme_tag (crypto_nr i) = replicate 20 (word_of_nat i)"
  "relay_crypto_sendme_tag_len (crypto_nr i) = 20"
  by (simp_all add: crypto_nr_def sample_crypto_def Let_def SENDME_TAG_LEN_TOR1_def)

definition numbered_cells :: "nat \<Rightarrow> (int \<times> relay_crypto) list" where
  "numbered_cells m = map (\<lambda>i. (1000 * int i, crypto_nr i)) [1..<Suc m]"

lemma numbered_cells_fit: "\<forall>(now, k) \<in> set (numbered_cells m). tag_fits 20 k"
  by (auto simp: numbered_cells_def tag_fits_def crypto_nr_tag)

lemma numbered_cells_tags:
  "length (numbered_cells m) = m" "numbered_cells m = [] \<longleftrightarrow> m = 0" "i < m \<Longrightarrow> tags_of (numbered_cells m) ! i = replicate 20 (word_of_nat (Suc i))"
  by (simp_all add: numbered_cells_def tags_of_def crypto_nr_tag nth_upt del: upt_Suc)

lemma sample_env_emits: "get_emit_min_version (rcv_ns sample_env) = Some 1"
  by (simp add: sample_env_def get_emit_min_version_def networkstatus_get_param_def)

lemma single_cell_increment_closes_witness:
  "let l1 = relay_cells sample_env (numbered_cells 2) (sample_flow 1)
   in \<not> link_closed l1 \<and> length (sendme_wire l1) = 2 \<and> link_closed (flow_ack sample_env 9000 0 False l1)"
proof -
  have "unused_flow sample_env 20 1 (sample_flow 1)"
    "hop_ccontrol (flow_at (snd_circ (sample_flow 1)) (snd_hint sample_env)) = Some (sample_cc 1)"
    "cc_inflight (sample_cc 1) = 0" "cc_cwnd (sample_cc 1) \<le> INT32_MAX" "2 \<le> cc_cwnd (sample_cc 1)"
    by code_simp+
  then show ?thesis
    using single_cell_increment_closes [OF _ sample_env_emits _ _ _ numbered_cells_fit [of 2], of "sample_flow 1" "sample_cc 1" 9000 0 False]
    by (simp add: numbered_cells_tags)
qed

text \<open>C37: With a fixed first window, as the consensus may set it, that is not a multiple of the increment of 100
  cells, the first hundred cells are received and bring back one SENDME, with the tag of the hundredth; the sender
  remembers the tag of the cell that made its window a multiple of 100, and the SENDME closes the circuit. This
  is for SENDMEs that have a tag, and if the two tags differ.\<close>

theorem odd_circwindow_closes:
  assumes "unused_flow E n 100 l" "get_emit_min_version (rcv_ns E) = Some 1"
    "hop_ccontrol (flow_at (snd_circ l) (snd_hint E)) = None"
    "circuit_initial_package_window ns = Some (hop_package_window (flow_at (snd_circ l) (snd_hint E)))"
    "hop_package_window (flow_at (snd_circ l) (snd_hint E)) mod 100 = int r" "0 < r"
    "\<forall>(now, k) \<in> set ks. tag_fits n k" "length ks = 100" "tags_of ks ! (r - 1) \<noteq> tags_of ks ! 99"
  shows "let l1 = relay_cells E ks l
    in \<not> link_closed l1 \<and> length (sendme_wire l1) = 1 \<and> link_closed (flow_ack E now q blocked l1)"
proof -
  let ?w = "hop_package_window (flow_at (snd_circ l) (snd_hint E))"
  have "100 \<le> ?w \<and> ?w \<le> 1000" using assms(4) networkstatus_get_param_value
    by (fastforce simp: circuit_initial_package_window_def CIRCWINDOW_START_def CIRCWINDOW_START_MIN_def CIRCWINDOW_START_MAX_def
      bind_eq_Some_conv split: if_splits)
  moreover have "?w \<noteq> 100" "?w \<noteq> 1000" using assms(5,6) by auto
  ultimately have w: "100 < ?w" "?w < 1000" by auto
  have r: "r < 100" using assms(5) pos_mod_bound [of 100 ?w] by simp
  let ?D = "[tags_of ks ! (r - 1)]"
  have b: "between_cells E 1 n 100 (tags_of ks) ?D (relay_cells E ks l)"
    using fixed_cells [OF assms(1-3) refl assms(7) _ assms(5,6) w] assms(8) r by simp
  have f: "\<forall>t \<in> set (tags_of ks). length t = n" using tags_fit [OF assms(7)] .
  have m: "marks 100 (tags_of ks) = [tags_of ks ! 99]" using assms(8) by (simp add: marks_def)
  have "length (tags_of ks ! (r - 1)) = n" using f assms(8) r by simp
  then have "link_closed (flow_ack E now q blocked (relay_cells E ks l))"
    using first_ack_closes [OF b _ f, unfolded m] assms(9) by simp
  then show ?thesis using b by (simp add: between_cells_def Let_def m)
qed

lemma odd_circwindow_closes_witness:
  "let l1 = relay_cells sample_env (numbered_cells 100) (fixed_flow 101)
   in \<not> link_closed l1 \<and> length (sendme_wire l1) = 1 \<and> link_closed (flow_ack sample_env 0 0 False l1)"
proof (rule odd_circwindow_closes)
  show "unused_flow sample_env 20 100 (fixed_flow 101)"
    "hop_ccontrol (flow_at (snd_circ (fixed_flow 101)) (snd_hint sample_env)) = None"
    "circuit_initial_package_window (Some \<lparr>net_params = Some [''circwindow=101'']\<rparr>)
      = Some (hop_package_window (flow_at (snd_circ (fixed_flow 101)) (snd_hint sample_env)))"
    "hop_package_window (flow_at (snd_circ (fixed_flow 101)) (snd_hint sample_env)) mod 100 = int 1" by code_simp+
qed (simp_all add: sample_env_emits numbered_cells_fit numbered_cells_tags)

section \<open>The loop that sends SENDMEs ends\<close>

lemma consider_loop_ends:
  assumes "valid_end c h" "0 < inc" "relay_crypto_sendme_tag_len (hop_crypto (flow_at c h)) = n"
    "length (relay_crypto_get_sendme_tag (hop_crypto (flow_at c h))) = n" "get_emit_min_version ns = Some e"
  shows "\<exists>bodies c'. consider_loop ns True inc h c = Some (bodies, True, c')
    \<and> hop_deliver_window (flow_at c' h) = hop_deliver_window (flow_at c h) + inc * int (length bodies)
    \<and> CIRCWINDOW_START - inc < hop_deliver_window (flow_at c' h)
    \<and> hop_deliver_window (flow_at c' h) \<le> max (hop_deliver_window (flow_at c h)) CIRCWINDOW_START"
  using assms
proof (induction "nat (CIRCWINDOW_START - hop_deliver_window (flow_at c h))" arbitrary: c rule: less_induct)
  case less
  let ?f = "flow_at c h"
  show ?case
  proof (cases "hop_deliver_window ?f \<le> CIRCWINDOW_START - inc")
    case False
    then show ?thesis by (simp add: consider_stops)
  next
    case True
    let ?c = "set_flow h (?f\<lparr>hop_deliver_window := hop_deliver_window ?f + inc\<rparr>) c"
    have f: "flow_at ?c h = ?f\<lparr>hop_deliver_window := hop_deliver_window ?f + inc\<rparr>" "valid_end ?c h" using less.prems(1) by simp_all
    have "nat (CIRCWINDOW_START - hop_deliver_window (flow_at ?c h)) < nat (CIRCWINDOW_START - hop_deliver_window ?f)"
      using True less.prems(2) f(1) by simp
    from less.hyps [OF this f(2) less.prems(2)] f(1) less.prems(3-5)
    obtain bs c' where ih: "consider_loop ns True inc h ?c = Some (bs, True, c')"
      "hop_deliver_window (flow_at c' h) = hop_deliver_window ?f + inc + inc * int (length bs)"
      "CIRCWINDOW_START - inc < hop_deliver_window (flow_at c' h)"
      "hop_deliver_window (flow_at c' h) \<le> max (hop_deliver_window ?f + inc) CIRCWINDOW_START"
      by auto
    have "send_circuit_level_sendme ns True (relay_crypto_get_sendme_tag (hop_crypto ?f)) n
      = Some (Some (sendme_body e n (relay_crypto_get_sendme_tag (hop_crypto ?f))))"
      using send_sendme_body less.prems crypto_tag_len by metis
    moreover have "\<not> (h = None \<and> circ_is_origin c)" using less.prems(1) by (auto simp: valid_end_def)
    ultimately have "consider_loop ns True inc h c
      = Some (sendme_body e n (relay_crypto_get_sendme_tag (hop_crypto ?f)) # bs, True, c')"
      using True ih(1) less.prems(3) by (subst consider_loop.simps) (simp add: Let_def)
    then show ?thesis using ih(2-4) True by (intro exI [of _ "_ # bs"] exI [of _ c']) (auto simp: algebra_simps)
  qed
qed

text \<open>C24: The loop that sends SENDMEs ends for every increment of at least one cell, however far the window
  has fallen: it sends as many SENDMEs as bring the window above its start less an increment, and never
  past its start.\<close>

theorem sendme_loop_ends:
  assumes "valid_end c h" "0 < sendme_get_inc_count c h" "tag_fits n (hop_crypto (flow_at c h))" "get_emit_min_version ns = Some e"
  shows "\<exists>bodies c'. sendme_circuit_consider_sending ns True h c = Some (bodies, True, c')
    \<and> hop_deliver_window (flow_at c' h) = hop_deliver_window (flow_at c h) + sendme_get_inc_count c h * int (length bodies)
    \<and> CIRCWINDOW_START - sendme_get_inc_count c h < hop_deliver_window (flow_at c' h)
    \<and> hop_deliver_window (flow_at c' h) \<le> max (hop_deliver_window (flow_at c h)) CIRCWINDOW_START"
  using consider_loop_ends [OF assms(1,2) _ _ assms(4)] assms(3)
  by (simp add: sendme_circuit_consider_sending_def tag_fits_def)

lemma sendme_loop_ends_witness:
  "\<exists>bodies c'. sendme_circuit_consider_sending None True (Some 0) (rcv_circ (sample_flow 7)) = Some (bodies, True, c')
    \<and> hop_deliver_window (flow_at c' (Some 0)) = hop_deliver_window (flow_at (rcv_circ (sample_flow 7)) (Some 0))
        + sendme_get_inc_count (rcv_circ (sample_flow 7)) (Some 0) * int (length bodies)
    \<and> CIRCWINDOW_START - sendme_get_inc_count (rcv_circ (sample_flow 7)) (Some 0) < hop_deliver_window (flow_at c' (Some 0))
    \<and> hop_deliver_window (flow_at c' (Some 0)) \<le> max (hop_deliver_window (flow_at (rcv_circ (sample_flow 7)) (Some 0))) CIRCWINDOW_START"
proof (rule sendme_loop_ends)
  show "valid_end (rcv_circ (sample_flow 7)) (Some 0)" "0 < sendme_get_inc_count (rcv_circ (sample_flow 7)) (Some 0)"
    "tag_fits 20 (hop_crypto (flow_at (rcv_circ (sample_flow 7)) (Some 0)))" by code_simp+
  show "get_emit_min_version None = Some 1" by (simp add: get_emit_min_version_def networkstatus_get_param_def)
qed

section \<open>A window smaller than the increment\<close>

definition cwnd_at :: "circuit_flow \<Rightarrow> nat option \<Rightarrow> int option" where
  "cwnd_at c h = map_option cc_cwnd (hop_ccontrol (flow_at c h))"

lemma note_sent_cwnd:
  assumes "note_data_cell_sent now h c = Some (r, c')" "valid_end c h"
  shows "cwnd_at c' h = cwnd_at c h"
proof -
  obtain c1 where c1: "sendme_record_cell_digest_on_circ h c = Some c1" using assms(1)
    by (auto simp: note_data_cell_sent_def bind_eq_Some_conv)
  have f: "flow_at c1 h = flow_at c h" "valid_end c1 h" using c1 assms(2)
    by (auto simp: sendme_record_cell_digest_on_circ_def record_cell_digest_on_circ_def Let_def split: if_split_asm option.splits)
  have "cc_cwnd (congestion_control_note_cell_sent now cc) = cc_cwnd cc" for cc by (simp add: congestion_control_note_cell_sent_def)
  then show ?thesis using assms(1) c1 f
    by (auto simp: note_data_cell_sent_def sendme_note_circuit_data_packaged_def cwnd_at_def Let_def
      simp del: set_flow.simps flow_at.simps split: if_split_asm option.split_asm)
qed

text \<open>With nothing acknowledged yet, the sender has sent at most its window.\<close>

definition stalled_ok :: "flow_env \<Rightarrow> int \<Rightarrow> nat \<Rightarrow> nat \<Rightarrow> int \<Rightarrow> int \<Rightarrow> flow_link \<Rightarrow> bool" where
  "stalled_ok E e n inc w0 w l \<longleftrightarrow> (\<exists>H m. flow_ok E e n inc w0 H m 0 l \<and> int (length H) \<le> w) \<and> cwnd_at (snd_circ l) (snd_hint E) = Some w"

lemma stalled_no_sendme: "stalled_ok E e n inc w0 w l \<Longrightarrow> w < int inc \<Longrightarrow> sendme_wire l = []"
  by (auto simp: stalled_ok_def flow_ok_def marks_def)

lemma stalled_step:
  assumes "flow_step E n l l'" "stalled_ok E e n inc w0 w l" "w < int inc" "versions_agree E e"
  shows "stalled_ok E e n inc w0 w l'"
proof -
  obtain H m where ok: "flow_ok E e n inc w0 H m 0 l" "int (length H) \<le> w" and cw: "cwnd_at (snd_circ l) (snd_hint E) = Some w"
    using assms(2) by (auto simp: stalled_ok_def)
  have emit: "get_emit_min_version (rcv_ns E) = Some e" using assms(4) by (simp add: versions_agree_def)
  have s: "sender_ok E n inc w0 H 0 (snd_globals l) (snd_circ l)" using ok(1) by (simp add: flow_ok_def)
  have v: "valid_end (snd_circ l) (snd_hint E)" using s by (simp add: sender_ok_def)
  obtain cc where cc: "hop_ccontrol (flow_at (snd_circ l) (snd_hint E)) = Some cc" "cc_cwnd cc = w"
    using cw by (auto simp: cwnd_at_def)
  have i: "cc_inflight cc = int (length H)" using s cc(1) by (simp add: sender_ok_def)
  from assms(1) show ?thesis
  proof (cases rule: flow_step.cases)
    case (step_send k now)
    have "int (length H) < w" using step_send(2) cc i
      by (simp add: congestion_control_get_package_window_def congestion_control_package_window_def split: if_split_asm)
    moreover have ok': "flow_ok E e n inc w0 (H @ [relay_crypto_get_sendme_tag k]) m 0 l'"
      using flow_send_ok [OF ok(1) step_send(2,3)] step_send(1) by simp
    moreover have "cwnd_at (snd_circ l') (snd_hint E) = Some w"
    proof (cases "note_data_cell_sent now (snd_hint E) (with_crypto (snd_hint E) k (snd_circ l))")
      case None
      then show ?thesis using ok' step_send(1) by (simp add: flow_send_def flow_ok_def)
    next
      case (Some rc)
      then obtain r c where "note_data_cell_sent now (snd_hint E) (with_crypto (snd_hint E) k (snd_circ l)) = Some (r, c)" by (cases rc) auto
      moreover from note_sent_cwnd [OF this] v have "cwnd_at c (snd_hint E) = cwnd_at (with_crypto (snd_hint E) k (snd_circ l)) (snd_hint E)" by simp
      ultimately show ?thesis using cw v step_send(1) by (simp add: flow_send_def cwnd_at_def)
    qed
    ultimately show ?thesis unfolding stalled_ok_def by (intro conjI exI [of _ "H @ [relay_crypto_get_sendme_tag k]"] exI [of _ m]) auto
  next
    case (step_receive k u)
    have "flow_ok E e n inc w0 H (m + 1) 0 l'" using flow_receive_ok [OF ok(1) step_receive(2,3) emit] step_receive(1) by simp
    moreover have "snd_circ l' = snd_circ l" using step_receive(1) by (simp add: flow_receive_def split: option.split prod.split)
    ultimately show ?thesis using ok(2) cw unfolding stalled_ok_def by auto
  next
    case (step_ack now q blocked)
    then show ?thesis using stalled_no_sendme [OF assms(2,3)] by simp
  qed
qed

text \<open>C25: A window smaller than the increment, which the ranges of the consensus values allow, stops the
  circuit for good: over any run, no SENDME is ever sent, and the cells ever sent, in flight or received,
  are at most the window.\<close>

theorem small_window_stalls:
  assumes "fresh_flow E n inc l" "versions_agree E e" "flow_run E n l l'"
    "cwnd_at (snd_circ l) (snd_hint E) = Some w" "0 \<le> w" "w < int inc"
  shows "sendme_wire l' = [] \<and> cwnd_at (snd_circ l') (snd_hint E) = Some w
    \<and> int (length (data_wire l')) + (CIRCWINDOW_START - hop_deliver_window (flow_at (rcv_circ l') (rcv_hint E))) \<le> w"
proof -
  let ?w0 = "hop_package_window (flow_at (snd_circ l) (snd_hint E))"
  have "stalled_ok E e n inc ?w0 w l" using fresh_flow_ok [OF assms(1)] assms(4,5) by (fastforce simp: stalled_ok_def)
  with assms(3) have s: "stalled_ok E e n inc ?w0 w l'"
    by (induction rule: flow_run.induct) (use stalled_step assms(2,6) in blast)+
  then obtain H m where ok: "flow_ok E e n inc ?w0 H m 0 l'" "int (length H) \<le> w" by (auto simp: stalled_ok_def)
  show ?thesis
    using flow_ok_counts(1) [OF ok(1)] ok(2) stalled_no_sendme [OF s assms(6)] s by (simp add: stalled_ok_def)
qed

definition small_window :: "cc_globals \<times> congestion_control" where
  "small_window = the (congestion_control_new (Some \<lparr>net_params = Some [''cc_cwnd_init=31'', ''cc_sendme_inc=254'']\<rparr>)
     False 254 CC_PATH_EXIT default_globals)"

definition small_flow :: flow_link where
  "small_flow = (sample_flow 1)\<lparr>snd_globals := fst small_window,
     snd_circ := (snd_circ (sample_flow 1))\<lparr>circ_own := sample_hop (Some (snd small_window))\<rparr>,
     rcv_circ := (rcv_circ (sample_flow 1))\<lparr>circ_cpath := [sample_hop (Some (snd small_window))]\<rparr>\<rparr>"

definition small_flow_sent :: flow_link where
  "small_flow_sent = flow_send sample_env 1000 sample_crypto small_flow"

lemma small_window_stalls_witness:
  "sendme_wire small_flow_sent = [] \<and> cwnd_at (snd_circ small_flow_sent) (snd_hint sample_env) = Some 31
    \<and> int (length (data_wire small_flow_sent))
      + (CIRCWINDOW_START - hop_deliver_window (flow_at (rcv_circ small_flow_sent) (rcv_hint sample_env))) \<le> 31"
proof (rule small_window_stalls)
  show "fresh_flow sample_env 20 254 small_flow" "cwnd_at (snd_circ small_flow) (snd_hint sample_env) = Some 31" by code_simp+
  have "0 < congestion_control_get_package_window (snd_circ small_flow) (snd_hint sample_env)" by code_simp
  then show "flow_run sample_env 20 small_flow small_flow_sent"
    unfolding small_flow_sent_def by (rule flow_next [OF flow_here step_send [OF _ sample_fits]])
  show "versions_agree sample_env 1"
    by (simp add: versions_agree_def sample_env_def get_emit_min_version_def get_accept_min_version_def networkstatus_get_param_def)
qed simp_all

end
