(* ===== verification/CtMem.thy ===== *)
theory CtMem
  imports TorPrelude
begin

unbundle bit_operations_syntax

text \<open>
  The data-independent memory comparisons of \<^verbatim>\<open>src/lib/ctime/di_ops.c\<close>: \<^verbatim>\<open>tor_memcmp\<close>, which
  walks both arrays from the end and keeps or replaces its result by masking, \<^verbatim>\<open>tor_memeq\<close> and
  \<^verbatim>\<open>safe_mem_is_zero\<close>, which collect differing bits. They are proved equal to the obvious
  early-exit comparisons.
\<close>

type_synonym mem_bytes = "8 word list"

section \<open>The operations\<close>

text \<open>One round of the loop of \<^verbatim>\<open>tor_memcmp\<close>. The values are C ints: the exclusive or of two bytes,
  less one, shifted right with its sign, is the mask.\<close>

definition memcmp_byte :: "8 word \<Rightarrow> 8 word \<Rightarrow> int \<Rightarrow> int" where
  "memcmp_byte x y retval =
    (let v1 = uint x; v2 = uint y; equal_p = drop_bit 8 ((v1 XOR v2) - 1)
     in (retval AND equal_p) + (v1 - v2))"

fun memcmp_loop :: "mem_bytes \<Rightarrow> mem_bytes \<Rightarrow> nat \<Rightarrow> int \<Rightarrow> int" where
  "memcmp_loop x y 0 retval = retval"
| "memcmp_loop x y (Suc i) retval = memcmp_loop x y i (memcmp_byte (x ! i) (y ! i) retval)"

definition tor_memcmp :: "mem_bytes \<Rightarrow> mem_bytes \<Rightarrow> nat \<Rightarrow> int" where
  "tor_memcmp a b len = memcmp_loop a b len 0"

text \<open>The accumulator is a \<^verbatim>\<open>uint32_t\<close>.\<close>

fun memeq_loop :: "mem_bytes \<Rightarrow> mem_bytes \<Rightarrow> nat \<Rightarrow> nat \<Rightarrow> 32 word \<Rightarrow> 32 word" where
  "memeq_loop a b pos 0 any_difference = any_difference"
| "memeq_loop a b pos (Suc sz) any_difference =
    memeq_loop a b (pos + 1) sz (any_difference OR ucast (a ! pos XOR b ! pos))"

definition zero_to_one :: "32 word \<Rightarrow> 32 word" where
  "zero_to_one d = 1 AND drop_bit 8 (d - 1)"

definition tor_memeq :: "mem_bytes \<Rightarrow> mem_bytes \<Rightarrow> nat \<Rightarrow> bool" where
  "tor_memeq a b sz \<longleftrightarrow> zero_to_one (memeq_loop a b 0 sz 0) \<noteq> 0"

fun zero_loop :: "mem_bytes \<Rightarrow> nat \<Rightarrow> nat \<Rightarrow> 32 word \<Rightarrow> 32 word" where
  "zero_loop mem pos 0 acc = acc"
| "zero_loop mem pos (Suc sz) acc = zero_loop mem (pos + 1) sz (acc OR ucast (mem ! pos))"

definition safe_mem_is_zero :: "mem_bytes \<Rightarrow> nat \<Rightarrow> bool" where
  "safe_mem_is_zero mem sz \<longleftrightarrow> zero_to_one (zero_loop mem 0 sz 0) \<noteq> 0"

section \<open>The comparison one would write\<close>

text \<open>The difference at the first place where the two arrays differ.\<close>

fun first_difference :: "mem_bytes \<Rightarrow> mem_bytes \<Rightarrow> int" where
  "first_difference (x # xs) (y # ys) = (if x = y then first_difference xs ys else uint x - uint y)"
| "first_difference _ _ = 0"

lemma xor_zero_iff: "(x :: 'a::len word) XOR y = 0 \<longleftrightarrow> x = y"
  by (metis xor_self_eq xor.right_neutral xor.assoc)

lemma xor_bytes: "0 \<le> uint (x :: 8 word) XOR uint (y :: 8 word)" "uint x XOR uint y < 256"
proof -
  show "0 \<le> uint x XOR uint y" by simp
  have "uint x XOR uint y = uint (x XOR y)" by (simp add: unsigned_xor_eq)
  also have "\<dots> < 256" using uint_bounded [of "x XOR y"] by simp
  finally show "uint x XOR uint y < 256" .
qed

lemma memcmp_byte_eq:
  "memcmp_byte x y r = (if x = y then r else uint x - uint y)"
proof (cases "x = y")
  case True
  then show ?thesis by (simp add: memcmp_byte_def drop_bit_eq_div)
next
  case False
  then have "uint (x XOR y) \<noteq> 0" by (simp add: uint_0_iff xor_zero_iff)
  then have "uint x XOR uint y \<noteq> 0" by (simp only: unsigned_xor_eq) simp
  then have "drop_bit 8 ((uint x XOR uint y) - 1) = 0"
  proof -
    assume "uint x XOR uint y \<noteq> 0"
    with xor_bytes [of x y] have "0 \<le> (uint x XOR uint y) - 1" "(uint x XOR uint y) - 1 < 2 ^ 8"
      unfolding power_numeral by (simp_all add: le_diff_eq int_one_le_iff_zero_less less_le)
    then show ?thesis unfolding drop_bit_eq_div by (rule div_pos_pos_trivial)
  qed
  with False show ?thesis by (simp add: memcmp_byte_def)
qed

lemma first_difference_snoc:
  "length xs = length ys \<Longrightarrow>
    first_difference (xs @ [x]) (ys @ [y]) =
      (if xs = ys then memcmp_byte x y 0 else first_difference xs ys)"
  by (induction xs ys rule: list_induct2) (auto simp: memcmp_byte_eq)

lemma first_difference_same: "first_difference xs xs = 0"
  by (induction xs) auto

lemma first_difference_zero:
  "length xs = length ys \<Longrightarrow> first_difference xs ys = 0 \<longleftrightarrow> xs = ys"
  by (induction xs ys rule: list_induct2) (auto simp: word_uint_eq_iff)

lemma memcmp_loop_eq:
  assumes "n \<le> length x" "n \<le> length y"
  shows "memcmp_loop x y n r =
    (if take n x = take n y then r else first_difference (take n x) (take n y))"
  using assms
proof (induction n arbitrary: r)
  case (Suc n)
  have t: "take (Suc n) x = take n x @ [x ! n]" "take (Suc n) y = take n y @ [y ! n]"
    using Suc.prems by (simp_all add: take_Suc_conv_app_nth)
  have l: "length (take n x) = length (take n y)" using Suc.prems by simp
  show ?case
    using Suc by (simp add: t first_difference_snoc [OF l] memcmp_byte_eq)
qed simp

lemma tor_memcmp_first:
  assumes "n \<le> length x" "n \<le> length y"
  shows "tor_memcmp x y n = first_difference (take n x) (take n y)"
  using memcmp_loop_eq [OF assms, of 0] by (auto simp: tor_memcmp_def first_difference_same)

lemma tor_memcmp_zero_iff:
  "n \<le> length x \<Longrightarrow> n \<le> length y \<Longrightarrow> tor_memcmp x y n = 0 \<longleftrightarrow> take n x = take n y"
  by (simp add: tor_memcmp_first first_difference_zero)

section \<open>Equality and zero\<close>

lemma or_zero_iff: "(a :: 32 word) OR b = 0 \<longleftrightarrow> a = 0 \<and> b = 0"
  by (metis or.left_neutral or_eq_0_iff)

lemma ucast_zero_iff: "(ucast (x :: 8 word) :: 32 word) = 0 \<longleftrightarrow> x = 0"
  using uint_bounded [of x] by (simp add: word_uint_eq_iff unsigned_ucast_eq take_bit_int_eq_self)

lemma memeq_loop_zero:
  "pos + sz \<le> length a \<Longrightarrow> pos + sz \<le> length b \<Longrightarrow>
    memeq_loop a b pos sz d = 0 \<longleftrightarrow> d = 0 \<and> take sz (drop pos a) = take sz (drop pos b)"
proof (induction a b pos sz d rule: memeq_loop.induct)
  case (2 a b pos sz d)
  have *: "drop pos a = a ! pos # drop (Suc pos) a" "drop pos b = b ! pos # drop (Suc pos) b"
    using "2.prems" by (simp_all add: Cons_nth_drop_Suc)
  have x: "a ! pos XOR b ! pos = 0 \<longleftrightarrow> a ! pos = b ! pos" by (simp add: xor_zero_iff)
  show ?case
    using 2 by (auto simp: or_zero_iff ucast_zero_iff x *)
qed simp

lemma zero_loop_zero:
  "pos + sz \<le> length m \<Longrightarrow> zero_loop m pos sz d = 0 \<longleftrightarrow> d = 0 \<and> (\<forall>x \<in> set (take sz (drop pos m)). x = 0)"
proof (induction m pos sz d rule: zero_loop.induct)
  case (2 m pos sz d)
  have *: "drop pos m = m ! pos # drop (Suc pos) m"
    using "2.prems" by (simp add: Cons_nth_drop_Suc)
  show ?case
    using 2 by (simp add: or_zero_iff ucast_zero_iff *)
qed simp

lemma byte_or:
  "take_bit 8 d = (d :: 32 word) \<Longrightarrow> take_bit 8 (d OR ucast (x :: 8 word)) = d OR ucast x"
proof -
  assume d: "take_bit 8 d = d"
  have x: "take_bit 8 (ucast x :: 32 word) = ucast x"
    using uint_bounded [of x]
    by (simp add: word_uint_eq_iff unsigned_take_bit_eq unsigned_ucast_eq take_bit_int_eq_self)
  show "take_bit 8 (d OR ucast x) = d OR ucast x" by (simp only: take_bit_or d x)
qed

lemma memeq_loop_byte: "take_bit 8 d = d \<Longrightarrow> take_bit 8 (memeq_loop a b pos sz d) = memeq_loop a b pos sz d"
proof (induction a b pos sz d rule: memeq_loop.induct)
  case (2 a b pos sz d)
  show ?case unfolding memeq_loop.simps by (rule "2.IH" [OF byte_or [OF "2.prems"]])
qed simp

lemma zero_loop_byte: "take_bit 8 d = d \<Longrightarrow> take_bit 8 (zero_loop m pos sz d) = zero_loop m pos sz d"
proof (induction m pos sz d rule: zero_loop.induct)
  case (2 m pos sz d)
  show ?case unfolding zero_loop.simps by (rule "2.IH" [OF byte_or [OF "2.prems"]])
qed simp

lemma zero_to_one_iff:
  assumes "take_bit 8 d = d"
  shows "zero_to_one d \<noteq> 0 \<longleftrightarrow> d = 0"
proof (cases "d = 0")
  case True
  have "zero_to_one 0 \<noteq> 0" by code_simp
  with True show ?thesis by simp
next
  case False
  have "uint d = take_bit 8 (uint d)" using assms by (simp flip: unsigned_take_bit_eq)
  then have "uint d < 256" using take_bit_int_less_exp [of 8 "uint d"] by simp
  then have "uint (d - 1) < 256"
  proof -
    assume d: "uint d < 256"
    have "0 < uint d" using False by (metis uint_0_iff uint_ge_0 order_le_less)
    then show "uint (d - 1) < 256" using d by (simp add: uint_word_ariths take_bit_int_eq_self)
  qed
  then have "unat (d - 1) < 2 ^ 8" unfolding uint_nat by (simp only: power_numeral Num.pow.simps Num.sqr.simps)
  moreover have "unat (drop_bit 8 (d - 1)) = unat (d - 1) div 2 ^ 8"
    by (subst unat_drop_bit_eq) (rule drop_bit_eq_div)
  ultimately have "unat (drop_bit 8 (d - 1)) = 0" by (simp only: div_less)
  then have "drop_bit 8 (d - 1) = 0" by (rule unat_eq_zero [THEN iffD1])
  with False show ?thesis by (simp add: zero_to_one_def)
qed

lemma all_zero:
  assumes "n \<le> length x"
  shows "(\<forall>b \<in> set (take n x). b = 0) \<longleftrightarrow> take n x = replicate n (0 :: 8 word)"
proof
  assume "\<forall>b \<in> set (take n x). b = 0"
  then show "take n x = replicate n 0" using assms by (intro replicate_eqI) auto
qed (auto dest: arg_cong [where f = set])

lemma ct_memory_facts:
  assumes "n \<le> length x" "n \<le> length y"
  shows "tor_memcmp x y n = first_difference (take n x) (take n y)"
    and "tor_memcmp x y n = 0 \<longleftrightarrow> take n x = take n y"
    and "tor_memeq x y n \<longleftrightarrow> take n x = take n y"
    and "safe_mem_is_zero x n \<longleftrightarrow> take n x = replicate n 0"
proof -
  show "tor_memcmp x y n = first_difference (take n x) (take n y)"
    "tor_memcmp x y n = 0 \<longleftrightarrow> take n x = take n y"
    using assms by (simp_all add: tor_memcmp_first tor_memcmp_zero_iff first_difference_zero)
  show "tor_memeq x y n \<longleftrightarrow> take n x = take n y"
    using assms by (simp add: tor_memeq_def zero_to_one_iff memeq_loop_byte memeq_loop_zero)
  show "safe_mem_is_zero x n \<longleftrightarrow> take n x = replicate n 0"
    using assms by (simp add: safe_mem_is_zero_def zero_to_one_iff zero_loop_byte zero_loop_zero
        all_zero)
qed

text \<open>C30: The three data-independent operations give what their early-exit forms give, on arrays of
  every content and at every length within the arrays: \<^verbatim>\<open>tor_memcmp\<close> the difference of the bytes
  at the first place where the arrays differ, and 0 exactly when they agree; \<^verbatim>\<open>tor_memeq\<close> whether
  they agree; \<^verbatim>\<open>safe_mem_is_zero\<close> whether every byte is zero.\<close>

theorem ct_memory_exact:
  assumes "n \<le> length x" "n \<le> length y"
  shows "tor_memcmp x y n = first_difference (take n x) (take n y)
    \<and> (tor_memcmp x y n = 0 \<longleftrightarrow> take n x = take n y)
    \<and> (tor_memeq x y n \<longleftrightarrow> take n x = take n y)
    \<and> (safe_mem_is_zero x n \<longleftrightarrow> take n x = replicate n 0)"
  using ct_memory_facts [OF assms] by blast

theorem ct_memory_exact_witness:
  "tor_memcmp [1, 2, 3] [1, 255, 3] 3 = - 253 \<and> tor_memeq [1, 2, 3] [1, 255, 3] 1
    \<and> \<not> safe_mem_is_zero [1, 2, 3] 2"
proof -
  have "first_difference [1, 2, 3] [1, 255, 3] = - 253" by code_simp
  then show ?thesis
    using ct_memory_exact [of 3 "[1, 2, 3]" "[1, 255, 3]"]
      ct_memory_exact [of 1 "[1, 2, 3]" "[1, 255, 3]"] ct_memory_exact [of 2 "[1, 2, 3]" "[1, 255, 3]"]
    by (simp del: first_difference.simps add: numeral_2_eq_2)
qed

end
