(* ===== verification/Address.thy ===== *)
theory Address
  imports CtMem
begin

unbundle bit_operations_syntax

text \<open>
  Network addresses, \<^verbatim>\<open>src/lib/net/address.c\<close> and \<^verbatim>\<open>address.h\<close>: the address record, what its
  accessors give for the other families, the predicates on addresses and the masked comparison.
  An IPv4 address is a 32-bit word in host order, an IPv6 address its 16 bytes.
\<close>

section \<open>The data\<close>

text \<open>A \<^verbatim>\<open>tor_addr_t\<close> is a family and a union. The comparison of two \<^verbatim>\<open>AF_UNIX\<close> addresses compares
  the pointers it was given, so such an address carries the place where it is stored.\<close>

datatype tor_addr_t = Unspec | Inet "32 word" | Inet6 "8 word list" | Unix_at nat

abbreviation AF_UNSPEC :: nat where "AF_UNSPEC \<equiv> 0"
abbreviation AF_UNIX :: nat where "AF_UNIX \<equiv> 1"
abbreviation AF_INET :: nat where "AF_INET \<equiv> 2"
abbreviation AF_INET6 :: nat where "AF_INET6 \<equiv> 10"

fun tor_addr_family :: "tor_addr_t \<Rightarrow> nat" where
  "tor_addr_family Unspec = AF_UNSPEC"
| "tor_addr_family (Inet _) = AF_INET"
| "tor_addr_family (Inet6 _) = AF_INET6"
| "tor_addr_family (Unix_at _) = AF_UNIX"

text \<open>The size of the IPv6 member of the union.\<close>

fun addr_ok :: "tor_addr_t \<Rightarrow> bool" where
  "addr_ok (Inet6 b) \<longleftrightarrow> length b = 16"
| "addr_ok _ \<longleftrightarrow> True"

fun tor_addr_to_ipv4h :: "tor_addr_t \<Rightarrow> 32 word" where
  "tor_addr_to_ipv4h (Inet w) = w"
| "tor_addr_to_ipv4h _ = 0"

text \<open>The \<^verbatim>\<open>i\<close>-th 32-bit group of an IPv6 address, in host order (\<^verbatim>\<open>ntohl\<close> of the group).\<close>

definition in6_addr32 :: "8 word list \<Rightarrow> nat \<Rightarrow> 32 word" where
  "in6_addr32 b i =
    of_nat (unat (b ! (4 * i)) * 2 ^ 24 + unat (b ! (4 * i + 1)) * 2 ^ 16
      + unat (b ! (4 * i + 2)) * 2 ^ 8 + unat (b ! (4 * i + 3)))"

fun tor_addr_to_mapped_ipv4h :: "tor_addr_t \<Rightarrow> 32 word" where
  "tor_addr_to_mapped_ipv4h (Inet6 b) = in6_addr32 b 3"
| "tor_addr_to_mapped_ipv4h _ = 0"

abbreviation tor_addr_from_ipv4h :: "32 word \<Rightarrow> tor_addr_t" where
  "tor_addr_from_ipv4h \<equiv> Inet"

abbreviation tor_addr_from_ipv6_bytes :: "8 word list \<Rightarrow> tor_addr_t" where
  "tor_addr_from_ipv6_bytes \<equiv> Inet6"

section \<open>Predicates\<close>

fun tor_addr_is_v4 :: "tor_addr_t \<Rightarrow> bool" where
  "tor_addr_is_v4 (Inet _) \<longleftrightarrow> True"
| "tor_addr_is_v4 (Inet6 b) \<longleftrightarrow>
    in6_addr32 b 0 = 0 \<and> in6_addr32 b 1 = 0 \<and> in6_addr32 b 2 = 0x0000ffff"
| "tor_addr_is_v4 _ \<longleftrightarrow> False"

fun tor_addr_is_null :: "tor_addr_t \<Rightarrow> bool" where
  "tor_addr_is_null (Inet6 b) \<longleftrightarrow>
    in6_addr32 b 0 = 0 \<and> in6_addr32 b 1 = 0 \<and> in6_addr32 b 2 = 0 \<and> in6_addr32 b 3 = 0"
| "tor_addr_is_null (Inet w) \<longleftrightarrow> w = 0"
| "tor_addr_is_null (Unix_at _) \<longleftrightarrow> True"
| "tor_addr_is_null Unspec \<longleftrightarrow> True"

fun tor_addr_is_loopback :: "tor_addr_t \<Rightarrow> bool" where
  "tor_addr_is_loopback (Inet6 b) \<longleftrightarrow>
    in6_addr32 b 0 = 0 \<and> in6_addr32 b 1 = 0 \<and> in6_addr32 b 2 = 0 \<and> in6_addr32 b 3 = 1"
| "tor_addr_is_loopback (Inet w) \<longleftrightarrow> w AND 0xff000000 = 0x7f000000"
| "tor_addr_is_loopback _ \<longleftrightarrow> False"

fun tor_addr_is_multicast :: "tor_addr_t \<Rightarrow> bool" where
  "tor_addr_is_multicast (Inet w) \<longleftrightarrow> drop_bit 24 w = 0xe0"
| "tor_addr_is_multicast (Inet6 b) \<longleftrightarrow> b ! 0 = 0xff"
| "tor_addr_is_multicast _ \<longleftrightarrow> False"

definition ipv4_is_internal :: "32 word \<Rightarrow> bool \<Rightarrow> bool" where
  "ipv4_is_internal ip for_listening \<longleftrightarrow>
    \<not> (for_listening \<and> (ip = 0 \<or> ip AND 0xffc00000 = 0x64400000)) \<and>
    (ip AND 0xff000000 = 0x0a000000 \<or> ip AND 0xff000000 = 0x00000000
      \<or> ip AND 0xff000000 = 0x7f000000 \<or> ip AND 0xffc00000 = 0x64400000
      \<or> ip AND 0xffff0000 = 0xa9fe0000 \<or> ip AND 0xfff00000 = 0xac100000
      \<or> ip AND 0xffff0000 = 0xc0a80000)"

definition ipv6_is_internal :: "8 word list \<Rightarrow> bool \<Rightarrow> bool" where
  "ipv6_is_internal b for_listening \<longleftrightarrow>
    (let i0 = in6_addr32 b 0; i1 = in6_addr32 b 1; i2 = in6_addr32 b 2; i3 = in6_addr32 b 3 in
     \<not> (for_listening \<and> i0 = 0 \<and> i1 = 0 \<and> i2 = 0 \<and> i3 = 0) \<and>
     (i0 AND 0xfe000000 = 0xfc000000 \<or> i0 AND 0xffc00000 = 0xfe800000
       \<or> i0 AND 0xffc00000 = 0xfec00000
       \<or> (i0 = 0 \<and> i1 = 0 \<and> i2 = 0 \<and> i3 AND 0xfffffffe = 0)))"

text \<open>An address of another family is taken for an internal one.\<close>

fun tor_addr_is_internal :: "tor_addr_t \<Rightarrow> bool \<Rightarrow> bool" where
  "tor_addr_is_internal (Inet w) for_listening = ipv4_is_internal w for_listening"
| "tor_addr_is_internal (Inet6 b) for_listening =
    (if tor_addr_is_v4 (Inet6 b) then ipv4_is_internal (in6_addr32 b 3) for_listening
     else ipv6_is_internal b for_listening)"
| "tor_addr_is_internal _ _ = True"

section \<open>The masked comparison\<close>

datatype tor_addr_comparison = CMP_EXACT | CMP_SEMANTIC

definition TRISTATE :: "'a::linorder \<Rightarrow> 'a \<Rightarrow> int" where
  "TRISTATE a b = (if a < b then - 1 else if a = b then 0 else 1)"

definition compare_ipv4 :: "32 word \<Rightarrow> 32 word \<Rightarrow> nat \<Rightarrow> int" where
  "compare_ipv4 a1 a2 mbits =
    (let m = min 32 mbits in TRISTATE (drop_bit (32 - m) a1) (drop_bit (32 - m) a2))"

definition compare_ipv6 :: "8 word list \<Rightarrow> 8 word list \<Rightarrow> nat \<Rightarrow> int" where
  "compare_ipv6 a1 a2 mbits =
    (let m = min 128 mbits; bytes = drop_bit 3 m; leftover_bits = m AND 7;
         r = (if bytes \<noteq> 0 then tor_memcmp a1 a2 bytes else 0) in
     if r \<noteq> 0 then r
     else if leftover_bits \<noteq> 0
       then TRISTATE (drop_bit (8 - leftover_bits) (a1 ! bytes)) (drop_bit (8 - leftover_bits) (a2 ! bytes))
     else 0)"

fun compare_same_family :: "tor_addr_t \<Rightarrow> tor_addr_t \<Rightarrow> nat \<Rightarrow> int" where
  "compare_same_family (Inet a1) (Inet a2) mbits =
    (if mbits = 0 then 0 else compare_ipv4 a1 a2 mbits)"
| "compare_same_family (Inet6 a1) (Inet6 a2) mbits = compare_ipv6 a1 a2 mbits"
| "compare_same_family (Unix_at p1) (Unix_at p2) mbits = TRISTATE p1 p2"
| "compare_same_family _ _ mbits = 0"

text \<open>The IPv4 address in an address that may be a mapped one, with the bits that remain of the
  mask: \<^verbatim>\<open>None\<close> when the mask ends inside the first 96 bits of the mapped address.\<close>

definition compare_mapped :: "tor_addr_t \<Rightarrow> tor_addr_t \<Rightarrow> nat \<Rightarrow> int" where
  "compare_mapped addr1 addr2 mbits =
    (let v4 = (\<lambda>a. if tor_addr_family a = AF_INET6 then tor_addr_to_mapped_ipv4h a else tor_addr_to_ipv4h a) in
     if tor_addr_family addr1 = AF_INET6 \<and> mbits \<le> 96 then 0
     else compare_ipv4 (v4 addr1) (v4 addr2)
            (if tor_addr_family addr1 = AF_INET6 then mbits - 96 else mbits))"

definition v_family :: "tor_addr_t \<Rightarrow> nat" where
  "v_family a = (if tor_addr_family a = AF_INET6 \<and> tor_addr_is_v4 a then AF_INET else tor_addr_family a)"

definition tor_addr_compare_masked ::
    "tor_addr_t \<Rightarrow> tor_addr_t \<Rightarrow> nat \<Rightarrow> tor_addr_comparison \<Rightarrow> int" where
  "tor_addr_compare_masked addr1 addr2 mbits how =
    (let family1 = tor_addr_family addr1; family2 = tor_addr_family addr2 in
     if family1 = family2 then compare_same_family addr1 addr2 mbits
     else if how = CMP_EXACT then TRISTATE family1 family2
     else if mbits = 0 then 0
     else if v_family addr1 = v_family addr2 then compare_mapped addr1 addr2 mbits
     else TRISTATE family1 family2)"

definition tor_addr_compare :: "tor_addr_t \<Rightarrow> tor_addr_t \<Rightarrow> tor_addr_comparison \<Rightarrow> int" where
  "tor_addr_compare addr1 addr2 how = tor_addr_compare_masked addr1 addr2 128 how"

section \<open>Networks\<close>

text \<open>
  What the users of an exact masked comparison rely on: for each number of bits it is an
  equivalence, and comparing fewer bits equates more. A rule that gives a network by an address
  and a number of bits then covers another, or is disjoint from it, exactly when the comparison
  of the two addresses says so.
\<close>

locale masked_equality =
  fixes same :: "nat \<Rightarrow> 'a \<Rightarrow> 'a \<Rightarrow> bool" and ok :: "'a \<Rightarrow> bool"
  assumes same_refl: "same m a a"
    and same_sym: "ok a \<Longrightarrow> ok b \<Longrightarrow> same m a b \<Longrightarrow> same m b a"
    and same_trans: "ok a \<Longrightarrow> ok b \<Longrightarrow> ok c \<Longrightarrow> same m a b \<Longrightarrow> same m b c \<Longrightarrow> same m a c"
    and same_fewer: "ok a \<Longrightarrow> ok b \<Longrightarrow> same n a b \<Longrightarrow> m \<le> n \<Longrightarrow> same m a b"
begin

lemma covered_network:
  "ok x \<Longrightarrow> ok a \<Longrightarrow> ok b \<Longrightarrow> same m a b \<Longrightarrow> m \<le> n \<Longrightarrow> same n x b \<Longrightarrow> same m x a"
  by (meson same_fewer same_sym same_trans)

lemma disjoint_networks:
  "ok x \<Longrightarrow> ok a \<Longrightarrow> ok b \<Longrightarrow> \<not> same (min m n) a b \<Longrightarrow> same m x a \<Longrightarrow> \<not> same n x b"
  by (meson min.cobounded1 min.cobounded2 same_fewer same_sym same_trans)

end

lemma TRISTATE_zero [simp]: "TRISTATE a b = 0 \<longleftrightarrow> a = b"
  by (simp add: TRISTATE_def)

lemma TRISTATE_sgn: "sgn (TRISTATE a b) = TRISTATE a b"
  by (simp add: TRISTATE_def)

lemma and_7: "m AND 7 = (m :: nat) mod 8"
  using take_bit_eq_mask [of 3 m] by (simp add: mask_eq_exp_minus_1 take_bit_eq_mod)

text \<open>What an exact comparison of two addresses of a family looks at.\<close>

definition masked_bytes :: "nat \<Rightarrow> 8 word list \<Rightarrow> 8 word list" where
  "masked_bytes m a =
    (let k = min 128 m div 8; l = min 128 m mod 8
     in take k a @ [if l = 0 then 0 else drop_bit (8 - l) (a ! k)])"

lemma length_masked_bytes: "length a = 16 \<Longrightarrow> length (masked_bytes m a) = min 128 m div 8 + 1"
  by (simp add: masked_bytes_def Let_def)

lemma first_difference_append:
  "length xs = length ys \<Longrightarrow> first_difference (xs @ [x]) (ys @ [y]) =
    (if xs = ys then uint x - uint y else first_difference xs ys)"
  by (simp add: first_difference_snoc memcmp_byte_eq)

lemma TRISTATE_byte: "TRISTATE x y = sgn (uint x - uint (y :: 8 word))"
  by (auto simp: TRISTATE_def word_less_def sgn_if word_uint_eq_iff)

lemma compare_ipv6_masked:
  assumes "length a = 16" "length b = 16"
  shows "sgn (compare_ipv6 a b m) = sgn (first_difference (masked_bytes m a) (masked_bytes m b))"
proof -
  define k l where "k = min 128 m div 8" and "l = min 128 m mod 8"
  have k: "k \<le> length a" "k \<le> length b" using assms by (auto simp: k_def)
  then have t: "length (take k a) = length (take k b)" by simp
  have r: "(if k \<noteq> 0 then tor_memcmp a b k else 0) = first_difference (take k a) (take k b)"
    by (simp add: tor_memcmp_first k)
  have d: "drop_bit 3 (min 128 m) = k" "min 128 m AND 7 = l"
    unfolding k_def l_def and_7 by (simp_all add: drop_bit_eq_div)
  have c: "compare_ipv6 a b m =
      (if first_difference (take k a) (take k b) \<noteq> 0 then first_difference (take k a) (take k b)
       else if l \<noteq> 0 then TRISTATE (drop_bit (8 - l) (a ! k)) (drop_bit (8 - l) (b ! k)) else 0)"
    unfolding compare_ipv6_def Let_def d r ..
  show ?thesis
    unfolding c masked_bytes_def Let_def k_def [symmetric] l_def [symmetric] first_difference_append [OF t]
    by (simp add: first_difference_zero [OF t] TRISTATE_byte)
qed

lemma first_difference_flip: "first_difference ys xs = - first_difference xs ys"
  by (induction xs ys rule: first_difference.induct) auto

lemma first_difference_trans:
  assumes "length xs = length ys" "length ys = length zs"
    "first_difference xs ys \<le> 0" "first_difference ys zs \<le> 0"
  shows "first_difference xs zs \<le> 0"
  using assms
proof (induction xs ys zs rule: list_induct3)
  case (Cons x xs y ys z zs)
  then show ?case
    by (auto split: if_splits simp: word_uint_eq_iff)
qed simp

lemma sgn_le_0: "sgn (x :: int) = sgn y \<Longrightarrow> x \<le> 0 \<longleftrightarrow> y \<le> 0"
  by (auto simp: sgn_if split: if_splits)

lemma sgn_0: "sgn (x :: int) = sgn y \<Longrightarrow> x = 0 \<longleftrightarrow> y = 0"
  by (auto simp: sgn_if split: if_splits)

lemma compare_ipv6_zero:
  assumes "length a = 16" "length b = 16"
  shows "compare_ipv6 a b m = 0 \<longleftrightarrow> masked_bytes m a = masked_bytes m b"
  using sgn_0 [OF compare_ipv6_masked [OF assms, of m]] assms
  by (simp add: first_difference_zero length_masked_bytes)

lemma TRISTATE_flip: "TRISTATE b a = - TRISTATE a b"
  by (auto simp: TRISTATE_def)

lemma TRISTATE_le_0: "TRISTATE a b \<le> 0 \<longleftrightarrow> a \<le> b"
  by (auto simp: TRISTATE_def)

lemma exact_other_family:
  "tor_addr_family a \<noteq> tor_addr_family b \<Longrightarrow>
    tor_addr_compare_masked a b m CMP_EXACT = TRISTATE (tor_addr_family a) (tor_addr_family b)"
  by (simp add: tor_addr_compare_masked_def)

lemma exact_same_family:
  "tor_addr_family a = tor_addr_family b \<Longrightarrow>
    tor_addr_compare_masked a b m how = compare_same_family a b m"
  by (simp add: tor_addr_compare_masked_def)

lemma same_family_flip:
  assumes "addr_ok a" "addr_ok b" "tor_addr_family a = tor_addr_family b"
  shows "sgn (compare_same_family b a m) = - sgn (compare_same_family a b m)"
proof (cases a)
  case (Inet6 x)
  then obtain y where b: "b = Inet6 y" using assms(3) by (cases b) auto
  have "sgn (first_difference (masked_bytes m y) (masked_bytes m x))
      = - sgn (first_difference (masked_bytes m x) (masked_bytes m y))"
    by (subst first_difference_flip) (simp add: sgn_minus)
  then show ?thesis using assms(1,2) Inet6 b by (simp add: compare_ipv6_masked)
next
  case (Inet x)
  then show ?thesis using assms(3)
    by (cases b) (auto simp: compare_ipv4_def Let_def TRISTATE_flip [of "drop_bit _ x"] TRISTATE_sgn)
next
  case (Unix_at x)
  then show ?thesis using assms(3) by (cases b) (auto simp: TRISTATE_flip [of x] TRISTATE_sgn)
next
  case Unspec
  then show ?thesis by simp
qed

lemma same_family_trans:
  assumes "addr_ok a" "addr_ok b" "addr_ok c"
    "tor_addr_family a = tor_addr_family b" "tor_addr_family b = tor_addr_family c"
    "compare_same_family a b m \<le> 0" "compare_same_family b c m \<le> 0"
  shows "compare_same_family a c m \<le> 0"
proof (cases a)
  case (Inet6 x)
  then obtain y z where bc: "b = Inet6 y" "c = Inet6 z" using assms(4,5) by (cases b; cases c) auto
  have l: "length x = 16" "length y = 16" "length z = 16" using assms(1-3) Inet6 bc by simp_all
  have "first_difference (masked_bytes m x) (masked_bytes m z) \<le> 0"
    by (rule first_difference_trans [where ys = "masked_bytes m y"])
      (use assms(6,7) Inet6 bc l in \<open>simp_all add: length_masked_bytes sgn_le_0 [OF compare_ipv6_masked]\<close>)
  then show ?thesis using Inet6 bc l by (simp add: sgn_le_0 [OF compare_ipv6_masked])
next
  case (Inet x)
  then show ?thesis using assms(4-7)
    by (cases b; cases c) (auto simp: compare_ipv4_def Let_def TRISTATE_le_0 split: if_splits)
next
  case (Unix_at x)
  then show ?thesis using assms(4-7) by (cases b; cases c) (auto simp: TRISTATE_le_0)
next
  case Unspec
  then show ?thesis by simp
qed


text \<open>The exact comparison, as a relation.\<close>

definition same_net :: "nat \<Rightarrow> tor_addr_t \<Rightarrow> tor_addr_t \<Rightarrow> bool" where
  "same_net m a b \<longleftrightarrow> tor_addr_compare_masked a b m CMP_EXACT = 0"

lemma same_net_family: "same_net m a b \<Longrightarrow> tor_addr_family a = tor_addr_family b"
  by (cases "tor_addr_family a = tor_addr_family b") (simp_all add: same_net_def exact_other_family)

lemma drop_bit_more:
  "drop_bit i x = drop_bit i (y :: 'a::len word) \<Longrightarrow> i \<le> j \<Longrightarrow> drop_bit j x = drop_bit j y"
  by (metis drop_bit_drop_bit le_add_diff_inverse2)

lemma take_fewer: "take k xs = take k ys \<Longrightarrow> j \<le> k \<Longrightarrow> take j xs = take j ys"
  using take_take [of j k xs] take_take [of j k ys] by (simp add: min_absorb1)

lemma masked_fewer:
  assumes "length a = 16" "length b = 16" "masked_bytes n a = masked_bytes n b" "m \<le> n"
  shows "masked_bytes m a = masked_bytes m b"
proof -
  let ?m = "min 128 m" and ?n = "min 128 n"
  have n: "take (?n div 8) a = take (?n div 8) b"
    "?n mod 8 \<noteq> 0 \<Longrightarrow> drop_bit (8 - ?n mod 8) (a ! (?n div 8)) = drop_bit (8 - ?n mod 8) (b ! (?n div 8))"
    using assms(1-3) by (auto simp: masked_bytes_def Let_def)
  have mn: "?m \<le> ?n" "?m div 8 \<le> ?n div 8" using assms(4) by (auto intro: div_le_mono)
  have t: "take (?m div 8) a = take (?m div 8) b"
    using n(1) mn(2) by (rule take_fewer)
  have "drop_bit (8 - ?m mod 8) (a ! (?m div 8)) = drop_bit (8 - ?m mod 8) (b ! (?m div 8))"
    if l: "?m mod 8 \<noteq> 0"
  proof (cases "?m div 8 = ?n div 8")
    case True
    then have le: "?m mod 8 \<le> ?n mod 8"
      using mn(1) by (metis add_le_cancel_left div_mult_mod_eq)
    then have "?n mod 8 \<noteq> 0" using l by linarith
    from n(2) [OF this] True
    have "drop_bit (8 - ?n mod 8) (a ! (?m div 8)) = drop_bit (8 - ?n mod 8) (b ! (?m div 8))" by simp
    then show ?thesis by (rule drop_bit_more) (use le in linarith)
  next
    case False
    with mn(2) have "?m div 8 < ?n div 8" by (rule le_neq_trans)
    then have "a ! (?m div 8) = b ! (?m div 8)" using n(1) by (metis nth_take)
    then show ?thesis by simp
  qed
  with t show ?thesis by (simp add: masked_bytes_def Let_def)
qed

lemma ipv4_fewer:
  assumes "drop_bit (32 - min 32 n) a = drop_bit (32 - min 32 n) (b :: 32 word)" "m \<le> n"
  shows "drop_bit (32 - min 32 m) a = drop_bit (32 - min 32 m) b"
  using assms(1) by (rule drop_bit_more) (use assms(2) in linarith)

lemma same_net_unspec [simp]: "same_net m Unspec b \<longleftrightarrow> b = Unspec" "same_net m b Unspec \<longleftrightarrow> b = Unspec"
  by (cases b; simp add: same_net_def exact_other_family exact_same_family)+

lemma same_net_other [simp]:
  "\<not> same_net m (Inet v) (Inet6 x)" "\<not> same_net m (Inet6 x) (Inet v)"
  "\<not> same_net m (Inet v) (Unix_at p)" "\<not> same_net m (Unix_at p) (Inet v)"
  "\<not> same_net m (Inet6 x) (Unix_at p)" "\<not> same_net m (Unix_at p) (Inet6 x)"
  by (simp_all add: same_net_def exact_other_family)

lemma same_net_ipv4 [simp]:
  "same_net m (Inet v) (Inet w) \<longleftrightarrow> m = 0 \<or> drop_bit (32 - min 32 m) v = drop_bit (32 - min 32 m) w"
  by (simp add: same_net_def exact_same_family compare_ipv4_def Let_def)

lemma same_net_ipv6 [simp]:
  "length x = 16 \<Longrightarrow> length y = 16 \<Longrightarrow> same_net m (Inet6 x) (Inet6 y) \<longleftrightarrow> masked_bytes m x = masked_bytes m y"
  by (simp add: same_net_def exact_same_family compare_ipv6_zero)

lemma same_net_unix [simp]: "same_net m (Unix_at p) (Unix_at q) \<longleftrightarrow> p = q"
  by (simp add: same_net_def exact_same_family)

lemma same_net_refl: "same_net m a a"
proof (cases a)
  case (Inet6 x)
  have "memcmp_loop x x n 0 = 0" for n
    by (induction n) (simp_all add: memcmp_byte_eq)
  then show ?thesis
    using Inet6 by (simp add: same_net_def tor_addr_compare_masked_def compare_ipv6_def Let_def
        tor_memcmp_def)
qed simp_all

lemma exact_flip:
  assumes "addr_ok a" "addr_ok b"
  shows "sgn (tor_addr_compare_masked b a m CMP_EXACT) = - sgn (tor_addr_compare_masked a b m CMP_EXACT)"
proof (cases "tor_addr_family a = tor_addr_family b")
  case True
  then show ?thesis using same_family_flip [OF assms True] by (simp add: exact_same_family)
next
  case False
  then show ?thesis
    by (simp add: exact_other_family TRISTATE_flip [of "tor_addr_family a"] TRISTATE_sgn)
qed

lemma exact_trans:
  assumes "addr_ok a" "addr_ok b" "addr_ok c"
    "tor_addr_compare_masked a b m CMP_EXACT \<le> 0" "tor_addr_compare_masked b c m CMP_EXACT \<le> 0"
  shows "tor_addr_compare_masked a c m CMP_EXACT \<le> 0"
proof -
  have le: "tor_addr_family x \<le> tor_addr_family y"
    if "tor_addr_compare_masked x y m CMP_EXACT \<le> 0" for x y
    using that by (cases "tor_addr_family x = tor_addr_family y") (auto simp: exact_other_family TRISTATE_le_0)
  show ?thesis
  proof (cases "tor_addr_family a = tor_addr_family c")
    case True
    with le [OF assms(4)] le [OF assms(5)]
    have "tor_addr_family a = tor_addr_family b" "tor_addr_family b = tor_addr_family c" by linarith+
    with assms show ?thesis
      using same_family_trans [of a b c m] by (simp add: exact_same_family)
  next
    case False
    with le [OF assms(4)] le [OF assms(5)] show ?thesis by (simp add: exact_other_family TRISTATE_le_0)
  qed
qed

interpretation net: masked_equality same_net addr_ok
proof unfold_locales
  show "same_net m a a" for m a by (rule same_net_refl)
  show "same_net m b a" if "addr_ok a" "addr_ok b" "same_net m a b" for m a b
    using exact_flip [OF that(1,2), of m] that(3) by (simp add: same_net_def sgn_0_0)
  show "same_net m a c" if "addr_ok a" "addr_ok b" "addr_ok c" "same_net m a b" "same_net m b c" for m a b c
    using that by (cases a; cases b; cases c) (auto simp: same_net_family)
  show "same_net m a b" if "addr_ok a" "addr_ok b" "same_net n a b" "m \<le> n" for m n a b
    using that by (cases a; cases b) (auto intro: masked_fewer ipv4_fewer)
qed


section \<open>The order\<close>

lemma exact_comparison_facts:
  assumes "addr_ok a" "addr_ok b" "addr_ok c"
  shows "tor_addr_compare_masked a b m CMP_EXACT < 0 \<longleftrightarrow> 0 < tor_addr_compare_masked b a m CMP_EXACT"
    and "tor_addr_compare_masked a b m CMP_EXACT \<le> 0 \<Longrightarrow> tor_addr_compare_masked b c m CMP_EXACT \<le> 0
      \<Longrightarrow> tor_addr_compare_masked a c m CMP_EXACT \<le> 0"
    and "tor_addr_compare_masked a b m CMP_EXACT = 0 \<Longrightarrow> tor_addr_family a = tor_addr_family b"
  using exact_flip [OF assms(1,2), of m] exact_trans [OF assms] same_net_family [of m a b]
  by (simp_all add: same_net_def sgn_if split: if_splits)

text \<open>C29: \<^verbatim>\<open>tor_addr_compare_masked\<close> promises a total order on addresses. The exact comparison keeps
  the promise for every mask, over all families: swapping the arguments swaps the sign, it is
  transitive, and two addresses compare equal only within one family.\<close>

theorem exact_comparison_total:
  assumes "addr_ok a" "addr_ok b" "addr_ok c"
  shows "(tor_addr_compare_masked a b m CMP_EXACT < 0 \<longleftrightarrow> 0 < tor_addr_compare_masked b a m CMP_EXACT)
    \<and> (tor_addr_compare_masked a b m CMP_EXACT \<le> 0 \<longrightarrow> tor_addr_compare_masked b c m CMP_EXACT \<le> 0
      \<longrightarrow> tor_addr_compare_masked a c m CMP_EXACT \<le> 0)
    \<and> (tor_addr_compare_masked a b m CMP_EXACT = 0 \<longrightarrow> tor_addr_family a = tor_addr_family b)"
  using exact_comparison_facts [OF assms] by blast

definition loopback6 :: tor_addr_t where
  "loopback6 = Inet6 [0, 0, 0, 0, 0, 0, 0, 0, 0, 0, 0, 0, 0, 0, 0, 1]"

definition mapped_1_2_3_4 :: tor_addr_t where
  "mapped_1_2_3_4 = Inet6 [0, 0, 0, 0, 0, 0, 0, 0, 0, 0, 0xff, 0xff, 1, 2, 3, 4]"

lemma sample_order:
  "tor_addr_compare_masked loopback6 mapped_1_2_3_4 128 CMP_EXACT < 0"
  "tor_addr_compare_masked mapped_1_2_3_4 loopback6 80 CMP_EXACT = 0"
proof -
  let ?l = "[0, 0, 0, 0, 0, 0, 0, 0, 0, 0, 0, 0, 0, 0, 0, 1] :: 8 word list"
  let ?m = "[0, 0, 0, 0, 0, 0, 0, 0, 0, 0, 0xff, 0xff, 1, 2, 3, 4] :: 8 word list"
  have l: "length ?l = 16" "length ?m = 16" by simp_all
  have "first_difference (masked_bytes 128 ?l) (masked_bytes 128 ?m) < 0" by code_simp
  then show "tor_addr_compare_masked loopback6 mapped_1_2_3_4 128 CMP_EXACT < 0"
    using compare_ipv6_masked [OF l, of 128]
    by (simp add: exact_same_family loopback6_def mapped_1_2_3_4_def sgn_if split: if_splits)
  have "masked_bytes 80 ?m = masked_bytes 80 ?l" by code_simp
  then show "tor_addr_compare_masked mapped_1_2_3_4 loopback6 80 CMP_EXACT = 0"
    using compare_ipv6_zero [OF l(2,1), of 80]
    by (simp add: exact_same_family loopback6_def mapped_1_2_3_4_def)
qed

theorem exact_comparison_total_witness:
  "tor_addr_compare_masked (Inet 0x01020304) mapped_1_2_3_4 128 CMP_EXACT < 0
    \<and> tor_addr_compare_masked mapped_1_2_3_4 loopback6 80 CMP_EXACT \<le> 0
    \<and> tor_addr_compare_masked (Inet 0x01020304) loopback6 80 CMP_EXACT \<le> 0"
proof -
  have ok: "addr_ok (Inet 0x01020304)" "addr_ok mapped_1_2_3_4" "addr_ok loopback6"
    by (simp_all add: mapped_1_2_3_4_def loopback6_def)
  have v: "0 < tor_addr_compare_masked mapped_1_2_3_4 (Inet 0x01020304) 128 CMP_EXACT"
    "tor_addr_compare_masked (Inet 0x01020304) mapped_1_2_3_4 80 CMP_EXACT \<le> 0"
    by code_simp+
  from exact_comparison_total [OF ok, of 128] exact_comparison_total [OF ok, of 80] v sample_order(2)
  show ?thesis by simp
qed

text \<open>The semantic comparison does not keep the promise. It takes a mapped IPv4 address for the
  IPv4 address, orders it as an IPv6 address among those, and every IPv6 address after every IPv4
  one: \<open>::1\<close> is before \<open>::ffff:1.2.3.4\<close>, which equals \<open>1.2.3.4\<close>, which is before \<open>::1\<close>.\<close>

theorem semantic_comparison_not_transitive:
  "tor_addr_compare loopback6 mapped_1_2_3_4 CMP_SEMANTIC < 0
    \<and> tor_addr_compare mapped_1_2_3_4 (Inet 0x01020304) CMP_SEMANTIC = 0
    \<and> tor_addr_compare (Inet 0x01020304) loopback6 CMP_SEMANTIC < 0"
proof (intro conjI)
  show "tor_addr_compare loopback6 mapped_1_2_3_4 CMP_SEMANTIC < 0"
    using sample_order(1)
    by (simp add: tor_addr_compare_def tor_addr_compare_masked_def loopback6_def mapped_1_2_3_4_def)
  show "tor_addr_compare mapped_1_2_3_4 (Inet 0x01020304) CMP_SEMANTIC = 0" by code_simp
  show "tor_addr_compare (Inet 0x01020304) loopback6 CMP_SEMANTIC < 0" by code_simp
qed

end
