(* ===== verification/Policies.thy ===== *)
theory Policies
  imports Address
begin

unbundle bit_operations_syntax

text \<open>
  Address policies, \<^verbatim>\<open>src/core/or/policies.c\<close>: the entries of a policy, how a policy answers for
  an address and a port when either may be unknown, how a policy is expanded, simplified and
  put together from the configuration of a relay, and the tests for general exits and for
  policies that reject everything. A policy is the list of its entries.
\<close>

section \<open>Entries\<close>

datatype addr_policy_action = ADDR_POLICY_ACCEPT | ADDR_POLICY_REJECT

datatype addr_policy_result = ADDR_POLICY_ACCEPTED | ADDR_POLICY_REJECTED
  | ADDR_POLICY_PROBABLY_ACCEPTED | ADDR_POLICY_PROBABLY_REJECTED

text \<open>The reference count and the mark of the canonical copy only serve to share equal entries.\<close>

record addr_policy =
  policy_type :: addr_policy_action
  is_private :: bool
  maskbits :: nat
  entry_addr :: tor_addr_t
  prt_min :: nat
  prt_max :: nat

type_synonym policy = "addr_policy list"

definition single_addr_policy_eq :: "addr_policy \<Rightarrow> addr_policy \<Rightarrow> bool" where
  "single_addr_policy_eq a b \<longleftrightarrow>
    policy_type a = policy_type b \<and> is_private a = is_private b
    \<and> tor_addr_compare (entry_addr a) (entry_addr b) CMP_EXACT = 0
    \<and> maskbits a = maskbits b \<and> prt_min a = prt_min b \<and> prt_max a = prt_max b"

fun addr_policies_eq_from :: "policy \<Rightarrow> policy \<Rightarrow> bool" where
  "addr_policies_eq_from (a # as) (b # bs) \<longleftrightarrow> single_addr_policy_eq a b \<and> addr_policies_eq_from as bs"
| "addr_policies_eq_from _ _ \<longleftrightarrow> True"

text \<open>A missing policy has no entries.\<close>

fun policy_entries :: "policy option \<Rightarrow> policy" where
  "policy_entries None = []"
| "policy_entries (Some p) = p"

definition addr_policies_eq :: "policy option \<Rightarrow> policy option \<Rightarrow> bool" where
  "addr_policies_eq a b \<longleftrightarrow>
    length (policy_entries a) = length (policy_entries b)
    \<and> addr_policies_eq_from (policy_entries a) (policy_entries b)"

section \<open>The answers of a policy\<close>

definition entry_matches_addr :: "tor_addr_t \<Rightarrow> addr_policy \<Rightarrow> bool" where
  "entry_matches_addr a e \<longleftrightarrow>
    tor_addr_compare_masked a (entry_addr e) (maskbits e) CMP_EXACT = 0"

fun definite_result :: "addr_policy_action \<Rightarrow> addr_policy_result" where
  "definite_result ADDR_POLICY_ACCEPT = ADDR_POLICY_ACCEPTED"
| "definite_result ADDR_POLICY_REJECT = ADDR_POLICY_REJECTED"

fun compare_known_tor_addr_to_addr_policy :: "tor_addr_t \<Rightarrow> nat \<Rightarrow> policy \<Rightarrow> addr_policy_result" where
  "compare_known_tor_addr_to_addr_policy a port [] = ADDR_POLICY_ACCEPTED"
| "compare_known_tor_addr_to_addr_policy a port (e # es) =
    (if entry_matches_addr a e \<and> prt_min e \<le> port \<and> port \<le> prt_max e
     then definite_result (policy_type e)
     else compare_known_tor_addr_to_addr_policy a port es)"

text \<open>The scan of both functions that know one half of the address: \<open>might\<close> says whether an entry
  may match, \<open>certain\<close> whether it then surely does.\<close>

fun certain_result :: "addr_policy_action \<Rightarrow> bool \<Rightarrow> bool \<Rightarrow> addr_policy_result" where
  "certain_result ADDR_POLICY_ACCEPT maybe_accept maybe_reject =
    (if maybe_reject then ADDR_POLICY_PROBABLY_ACCEPTED else ADDR_POLICY_ACCEPTED)"
| "certain_result ADDR_POLICY_REJECT maybe_accept maybe_reject =
    (if maybe_accept then ADDR_POLICY_PROBABLY_REJECTED else ADDR_POLICY_REJECTED)"

fun noport_scan :: "tor_addr_t \<Rightarrow> bool \<Rightarrow> bool \<Rightarrow> policy \<Rightarrow> addr_policy_result" where
  "noport_scan a maybe_accept maybe_reject [] =
    (if maybe_reject then ADDR_POLICY_PROBABLY_ACCEPTED else ADDR_POLICY_ACCEPTED)"
| "noport_scan a maybe_accept maybe_reject (e # es) =
    (if entry_matches_addr a e then
       if prt_min e \<le> 1 \<and> 65535 \<le> prt_max e then certain_result (policy_type e) maybe_accept maybe_reject
       else if policy_type e = ADDR_POLICY_REJECT then noport_scan a maybe_accept True es
       else noport_scan a True maybe_reject es
     else noport_scan a maybe_accept maybe_reject es)"

definition compare_known_tor_addr_to_addr_policy_noport :: "tor_addr_t \<Rightarrow> policy \<Rightarrow> addr_policy_result" where
  "compare_known_tor_addr_to_addr_policy_noport a policy = noport_scan a False False policy"

fun unknown_scan :: "nat \<Rightarrow> bool \<Rightarrow> bool \<Rightarrow> policy \<Rightarrow> addr_policy_result" where
  "unknown_scan port maybe_accept maybe_reject [] =
    (if maybe_reject then ADDR_POLICY_PROBABLY_ACCEPTED else ADDR_POLICY_ACCEPTED)"
| "unknown_scan port maybe_accept maybe_reject (e # es) =
    (if prt_min e \<le> port \<and> port \<le> prt_max e then
       if maskbits e = 0 then certain_result (policy_type e) maybe_accept maybe_reject
       else if policy_type e = ADDR_POLICY_REJECT then unknown_scan port maybe_accept True es
       else unknown_scan port True maybe_reject es
     else unknown_scan port maybe_accept maybe_reject es)"

definition compare_unknown_tor_addr_to_addr_policy :: "nat \<Rightarrow> policy \<Rightarrow> addr_policy_result" where
  "compare_unknown_tor_addr_to_addr_policy port policy = unknown_scan port False False policy"

text \<open>No address is \<^verbatim>\<open>NULL\<close>, no policy is \<^verbatim>\<open>NULL\<close>; port 0 is an unknown port.\<close>

definition compare_tor_addr_to_addr_policy ::
    "tor_addr_t option \<Rightarrow> nat \<Rightarrow> policy option \<Rightarrow> addr_policy_result" where
  "compare_tor_addr_to_addr_policy addr port policy =
    (case policy of
       None \<Rightarrow> ADDR_POLICY_ACCEPTED
     | Some p \<Rightarrow>
         (case addr of
            None \<Rightarrow> if port = 0 then ADDR_POLICY_REJECTED else compare_unknown_tor_addr_to_addr_policy port p
          | Some a \<Rightarrow>
              if tor_addr_is_null a then
                if port = 0 then ADDR_POLICY_REJECTED else compare_unknown_tor_addr_to_addr_policy port p
              else if port = 0 then compare_known_tor_addr_to_addr_policy_noport a p
              else compare_known_tor_addr_to_addr_policy a port p))"

section \<open>Redundant entries\<close>

definition addr_policy_covers :: "addr_policy \<Rightarrow> addr_policy \<Rightarrow> bool" where
  "addr_policy_covers a b \<longleftrightarrow>
    tor_addr_family (entry_addr a) = tor_addr_family (entry_addr b)
    \<and> maskbits a \<le> maskbits b
    \<and> tor_addr_compare_masked (entry_addr a) (entry_addr b) (maskbits a) CMP_EXACT = 0
    \<and> prt_min a \<le> prt_min b \<and> prt_max b \<le> prt_max a"

definition addr_policy_intersects :: "addr_policy \<Rightarrow> addr_policy \<Rightarrow> bool" where
  "addr_policy_intersects a b \<longleftrightarrow>
    (let minbits = (if maskbits a < maskbits b then maskbits a else maskbits b) in
     tor_addr_compare_masked (entry_addr a) (entry_addr b) minbits CMP_EXACT = 0
     \<and> \<not> (prt_max a < prt_min b \<or> prt_max b < prt_min a))"

definition is_catch_all :: "addr_policy \<Rightarrow> bool" where
  "is_catch_all e \<longleftrightarrow> maskbits e = 0 \<and> prt_min e \<le> 1 \<and> 65535 \<le> prt_max e"

text \<open>Step one drops what follows a catch-all entry of its family; the flags say which families
  are caught.\<close>

fun remove_unreachable :: "bool \<Rightarrow> bool \<Rightarrow> policy \<Rightarrow> policy" where
  "remove_unreachable kill_v4 kill_v6 [] = []"
| "remove_unreachable kill_v4 kill_v6 (e # es) =
    (let family = tor_addr_family (entry_addr e) in
     if (family = AF_INET \<and> kill_v4) \<or> (family = AF_INET6 \<and> kill_v6)
     then remove_unreachable kill_v4 kill_v6 es
     else e # remove_unreachable (kill_v4 \<or> is_catch_all e \<and> family = AF_INET)
                                (kill_v6 \<or> is_catch_all e \<and> family = AF_INET6) es)"

text \<open>Step two drops, after each entry, the entries it covers.\<close>

fun remove_covered :: "policy \<Rightarrow> policy" where
  "remove_covered [] = []"
| "remove_covered (e # es) = e # remove_covered (filter (\<lambda>t. \<not> addr_policy_covers e t) es)"

text \<open>Step three drops an entry that a later one of its kind covers, unless an entry of the other
  kind in between intersects it.\<close>

fun covered_later :: "addr_policy \<Rightarrow> policy \<Rightarrow> bool" where
  "covered_later e [] \<longleftrightarrow> False"
| "covered_later e (t # ts) \<longleftrightarrow>
    (if policy_type e \<noteq> policy_type t then \<not> addr_policy_intersects e t \<and> covered_later e ts
     else addr_policy_covers t e \<or> covered_later e ts)"

fun remove_covered_later :: "policy \<Rightarrow> policy" where
  "remove_covered_later [] = []"
| "remove_covered_later (e # es) =
    (if covered_later e es then remove_covered_later es else e # remove_covered_later es)"

definition exit_policy_remove_redundancies :: "policy \<Rightarrow> policy" where
  "exit_policy_remove_redundancies dest =
    remove_covered_later (remove_covered (remove_unreachable False False dest))"

section \<open>Expanding and building policies\<close>

definition ipv6_net :: "8 word list \<Rightarrow> tor_addr_t" where
  "ipv6_net prefix = Inet6 (prefix @ replicate (16 - length prefix) 0)"

text \<open>The table \<^verbatim>\<open>private_nets\<close>, its entries parsed.\<close>

definition private_nets :: "(tor_addr_t \<times> nat) list" where
  "private_nets =
    [(Inet 0x00000000, 8), (Inet 0xa9fe0000, 16), (Inet 0x7f000000, 8), (Inet 0xc0a80000, 16),
     (Inet 0x0a000000, 8), (Inet 0xac100000, 12), (ipv6_net [], 8), (ipv6_net [0xfc], 7),
     (ipv6_net [0xfe, 0x80], 10), (ipv6_net [0xfe, 0xc0], 10), (ipv6_net [0xff], 8), (ipv6_net [], 127)]"

definition expand_private_entry :: "addr_policy \<Rightarrow> policy" where
  "expand_private_entry p =
    (if \<not> is_private p then [p]
     else map (\<lambda>net. p\<lparr>is_private := False, entry_addr := fst net, maskbits := snd net\<rparr>) private_nets)"

definition policy_expand_private :: "policy \<Rightarrow> policy" where
  "policy_expand_private policy = concat (map expand_private_entry policy)"

definition expand_unspec_entry :: "addr_policy \<Rightarrow> policy" where
  "expand_unspec_entry p =
    (let family = tor_addr_family (entry_addr p) in
     if family = AF_INET6 \<or> family = AF_INET \<or> is_private p then [p]
     else if family = AF_UNSPEC then
       [p\<lparr>maskbits := 0, entry_addr := tor_addr_from_ipv4h 0\<rparr>,
        p\<lparr>maskbits := 0, entry_addr := tor_addr_from_ipv6_bytes (replicate 16 0)\<rparr>]
     else [p])"

definition policy_expand_unspec :: "policy \<Rightarrow> policy" where
  "policy_expand_unspec policy = concat (map expand_unspec_entry policy)"

text \<open>
  A pointer to a policy under construction may be \<^verbatim>\<open>NULL\<close>: the first addition creates the list.
  The lines of an option are absent, or what the parser of entries made of them: a malformed
  line fails the whole option.
\<close>

datatype policy_lines = No_lines | Malformed | Lines policy

fun parse_addr_policy :: "policy_lines \<Rightarrow> policy option \<Rightarrow> policy option assertable" where
  "parse_addr_policy No_lines dest = Returns dest"
| "parse_addr_policy Malformed dest = Fails"
| "parse_addr_policy (Lines result) dest =
    Returns (Some (policy_entries dest @ policy_expand_unspec (policy_expand_private result)))"

text \<open>The constant lines that are appended are well formed.\<close>

definition append_exit_policy_string :: "policy option \<Rightarrow> policy \<Rightarrow> policy option" where
  "append_exit_policy_string dest parsed =
    (case parse_addr_policy (Lines parsed) dest of Returns d \<Rightarrow> d | _ \<Rightarrow> dest)"

definition entry :: "addr_policy_action \<Rightarrow> tor_addr_t \<Rightarrow> nat \<Rightarrow> nat \<Rightarrow> nat \<Rightarrow> addr_policy" where
  "entry action a bits lo hi =
    \<lparr>policy_type = action, is_private = False, maskbits = bits, entry_addr = a, prt_min = lo, prt_max = hi\<rparr>"

text \<open>The entries of the constant lines: \<^verbatim>\<open>*:lo-hi\<close>, \<^verbatim>\<open>*4:*\<close>, \<^verbatim>\<open>*6:*\<close> and \<^verbatim>\<open>private:*\<close>.\<close>

definition star_entry :: "addr_policy_action \<Rightarrow> nat \<Rightarrow> nat \<Rightarrow> addr_policy" where
  "star_entry action lo hi = entry action Unspec 0 lo hi"

definition reject_star4 :: addr_policy where
  "reject_star4 = entry ADDR_POLICY_REJECT (Inet 0) 0 1 65535"

definition reject_star6 :: addr_policy where
  "reject_star6 = entry ADDR_POLICY_REJECT (Inet6 (replicate 16 0)) 0 1 65535"

definition reject_private_star :: addr_policy where
  "reject_private_star = (entry ADDR_POLICY_REJECT Unspec 0 1 65535)\<lparr>is_private := True\<rparr>"

definition DEFAULT_EXIT_POLICY :: policy where
  "DEFAULT_EXIT_POLICY =
    map (\<lambda>(lo, hi). star_entry ADDR_POLICY_REJECT lo hi)
      [(25, 25), (119, 119), (135, 139), (445, 445), (563, 563), (1214, 1214), (4661, 4666),
       (6346, 6429), (6699, 6699), (6881, 6999)]
    @ [star_entry ADDR_POLICY_ACCEPT 1 65535]"

definition REDUCED_EXIT_POLICY :: policy where
  "REDUCED_EXIT_POLICY =
    map (\<lambda>(lo, hi). star_entry ADDR_POLICY_ACCEPT lo hi)
      [(20, 23), (43, 43), (53, 53), (79, 81), (88, 88), (110, 110), (143, 143), (194, 194),
       (220, 220), (389, 389), (443, 443), (464, 464), (465, 465), (531, 531), (543, 544),
       (554, 554), (563, 563), (587, 587), (636, 636), (706, 706), (749, 749), (873, 873),
       (902, 904), (981, 981), (989, 995), (1194, 1194), (1220, 1220), (1293, 1293), (1500, 1500),
       (1533, 1533), (1677, 1677), (1723, 1723), (1755, 1755), (1863, 1863), (2082, 2083),
       (2086, 2087), (2095, 2096), (2102, 2104), (3128, 3128), (3389, 3389), (3690, 3690),
       (4321, 4321), (4643, 4643), (5050, 5050), (5190, 5190), (5222, 5223), (5228, 5228),
       (5900, 5900), (6660, 6669), (6679, 6679), (6697, 6697), (8000, 8000), (8008, 8008),
       (8074, 8074), (8080, 8080), (8082, 8082), (8087, 8088), (8232, 8233), (8332, 8333),
       (8443, 8443), (8888, 8888), (9418, 9418), (9999, 9999), (10000, 10000), (11371, 11371),
       (18080, 18081), (18089, 18089), (19294, 19294), (19638, 19638), (50002, 50002), (64738, 64738)]
    @ [star_entry ADDR_POLICY_REJECT 1 65535]"

definition addr_policy_append_reject_addr :: "policy option \<Rightarrow> tor_addr_t \<Rightarrow> policy option" where
  "addr_policy_append_reject_addr dest a =
    Some (policy_entries dest
      @ [entry ADDR_POLICY_REJECT a (if tor_addr_family a = AF_INET6 then 128 else 32) 1 65535])"

definition tor_addr_is_public_for_reject :: "tor_addr_t \<Rightarrow> bool" where
  "tor_addr_is_public_for_reject a \<longleftrightarrow>
    \<not> tor_addr_is_null a \<and> \<not> tor_addr_is_internal a False \<and> \<not> tor_addr_is_multicast a"

definition addr_policy_append_reject_addr_filter ::
    "bool \<Rightarrow> bool \<Rightarrow> policy option \<Rightarrow> tor_addr_t \<Rightarrow> policy option" where
  "addr_policy_append_reject_addr_filter ipv4_rules ipv6_rules dest a =
    (if tor_addr_is_public_for_reject a \<and>
        (tor_addr_is_v4 a \<and> ipv4_rules \<or> \<not> tor_addr_is_v4 a \<and> ipv6_rules)
     then addr_policy_append_reject_addr dest a else dest)"

definition addr_policy_append_reject_addr_list :: "policy option \<Rightarrow> tor_addr_t list \<Rightarrow> policy option" where
  "addr_policy_append_reject_addr_list dest addrs = foldl addr_policy_append_reject_addr dest addrs"

definition addr_policy_append_reject_addr_list_filter ::
    "policy option \<Rightarrow> tor_addr_t list \<Rightarrow> bool \<Rightarrow> bool \<Rightarrow> policy option" where
  "addr_policy_append_reject_addr_list_filter dest addrs ipv4_rules ipv6_rules =
    foldl (addr_policy_append_reject_addr_filter ipv4_rules ipv6_rules) dest addrs"

text \<open>What the policy takes from the rest of the relay: the addresses it is configured with, those
  of the ports it listens on (not the Unix sockets) and those of its interfaces in each family.\<close>

record own_addresses =
  configured_addresses :: "tor_addr_t list"
  port_addresses :: "tor_addr_t list"
  interface_ipv4 :: "tor_addr_t list"
  interface_ipv6 :: "tor_addr_t list"

definition policies_parse_exit_policy_reject_private ::
    "policy option \<Rightarrow> bool \<Rightarrow> own_addresses \<Rightarrow> bool \<Rightarrow> bool \<Rightarrow> policy option" where
  "policies_parse_exit_policy_reject_private dest ipv6_exit own
      reject_interface_addresses reject_configured_port_addresses =
    (let d1 = addr_policy_append_reject_addr_list_filter dest (configured_addresses own) True ipv6_exit;
         d2 = (if reject_configured_port_addresses
               then addr_policy_append_reject_addr_list_filter d1 (port_addresses own) True ipv6_exit else d1);
         d3 = (if reject_interface_addresses
               then addr_policy_append_reject_addr_list_filter d2 (interface_ipv4 own) True False else d2);
         d4 = (if reject_interface_addresses \<and> ipv6_exit
               then addr_policy_append_reject_addr_list_filter d3 (interface_ipv6 own) False True else d3)
     in map_option exit_policy_remove_redundancies d4)"

text \<open>The warning about entries after a wildcard for both families: the flags of an entry are local
  to it. The result is the index of the first entry called redundant, if any.\<close>

fun first_redundant_from :: "nat \<Rightarrow> nat \<Rightarrow> policy \<Rightarrow> nat option" where
  "first_redundant_from i n [] = None"
| "first_redundant_from i n (p # ps) =
    (let wildcard = (prt_min p \<le> 1 \<and> prt_max p = 65535 \<and> maskbits p = 0);
         family = tor_addr_family (entry_addr p);
         found_ipv4_wildcard = (wildcard \<and> (family = AF_INET \<or> family = AF_UNSPEC));
         found_ipv6_wildcard = (wildcard \<and> (family = AF_INET6 \<or> family = AF_UNSPEC)) in
     if found_ipv4_wildcard \<and> found_ipv6_wildcard
     then if i + 1 < n then Some (i + 1) else None
     else first_redundant_from (i + 1) n ps)"

definition policies_log_first_redundant_entry :: "policy option \<Rightarrow> nat option assertable" where
  "policies_log_first_redundant_entry policy =
    (case policy of None \<Rightarrow> Aborts | Some p \<Rightarrow> Returns (first_redundant_from 0 (length p) p))"

record exit_policy_cfg =
  EXIT_POLICY_IPV6_ENABLED :: bool
  EXIT_POLICY_REJECT_PRIVATE :: bool
  EXIT_POLICY_ADD_DEFAULT :: bool
  EXIT_POLICY_REJECT_LOCAL_INTERFACES :: bool
  EXIT_POLICY_ADD_REDUCED :: bool

text \<open>The entries in front of those of the operator, and what ends the policy.\<close>

definition exit_policy_front :: "policy option \<Rightarrow> bool \<Rightarrow> bool \<Rightarrow> own_addresses \<Rightarrow> bool \<Rightarrow> bool \<Rightarrow> policy option" where
  "exit_policy_front dest ipv6_exit rejectprivate own reject_interface_addresses
      reject_configured_port_addresses =
    (let d1 = (if \<not> ipv6_exit then append_exit_policy_string dest [reject_star6] else dest);
         d2 = (if rejectprivate then append_exit_policy_string d1 [reject_private_star] else d1)
     in policies_parse_exit_policy_reject_private d2 ipv6_exit own
          reject_interface_addresses reject_configured_port_addresses)"

definition policies_exit_policy_append_reject_star :: "policy option \<Rightarrow> policy option" where
  "policies_exit_policy_append_reject_star dest =
    append_exit_policy_string (append_exit_policy_string dest [reject_star4]) [reject_star6]"

definition exit_policy_end :: "policy option \<Rightarrow> bool \<Rightarrow> bool \<Rightarrow> policy option" where
  "exit_policy_end dest add_default_policy add_reduced_policy =
    (if add_reduced_policy then append_exit_policy_string dest REDUCED_EXIT_POLICY
     else if add_default_policy then append_exit_policy_string dest DEFAULT_EXIT_POLICY
     else append_exit_policy_string (append_exit_policy_string dest [reject_star4]) [reject_star6])"

definition policies_parse_exit_policy_internal ::
    "policy_lines \<Rightarrow> policy option \<Rightarrow> bool \<Rightarrow> bool \<Rightarrow> own_addresses \<Rightarrow> bool \<Rightarrow> bool \<Rightarrow> bool \<Rightarrow> bool
      \<Rightarrow> policy option assertable" where
  "policies_parse_exit_policy_internal cfg dest ipv6_exit rejectprivate own
      reject_interface_addresses reject_configured_port_addresses add_default_policy add_reduced_policy =
    and_then (parse_addr_policy cfg (exit_policy_front dest ipv6_exit rejectprivate own
                reject_interface_addresses reject_configured_port_addresses)) (\<lambda>d.
    and_then (policies_log_first_redundant_entry d) (\<lambda>_.
    Returns (map_option exit_policy_remove_redundancies
      (exit_policy_end d add_default_policy add_reduced_policy))))"

definition policies_parse_exit_policy ::
    "policy_lines \<Rightarrow> policy option \<Rightarrow> exit_policy_cfg \<Rightarrow> own_addresses \<Rightarrow> policy option assertable" where
  "policies_parse_exit_policy cfg dest opts own =
    policies_parse_exit_policy_internal cfg dest (EXIT_POLICY_IPV6_ENABLED opts)
      (EXIT_POLICY_REJECT_PRIVATE opts) own (EXIT_POLICY_REJECT_LOCAL_INTERFACES opts)
      (EXIT_POLICY_REJECT_LOCAL_INTERFACES opts) (EXIT_POLICY_ADD_DEFAULT opts) (EXIT_POLICY_ADD_REDUCED opts)"

section \<open>The exit policy of a relay\<close>

text \<open>The options that decide about it; \<^verbatim>\<open>ExitRelay\<close> is 0, 1 or -1 (automatic).\<close>

record exit_options =
  ExitRelay :: int
  ExitPolicy :: policy_lines
  ReducedExitPolicy :: bool
  IPv6Exit :: bool
  ExitPolicyRejectPrivate :: bool
  ExitPolicyRejectLocalInterfaces :: bool
  BridgeRelay :: bool
  OutboundBindAddresses :: "tor_addr_t list"

definition policy_using_default_exit_options :: "exit_options \<Rightarrow> bool" where
  "policy_using_default_exit_options opt \<longleftrightarrow>
    ExitPolicy opt = No_lines \<and> ExitRelay opt = - 1 \<and> \<not> ReducedExitPolicy opt \<and> \<not> IPv6Exit opt"

definition policies_copy_addr_to_smartlist :: "tor_addr_t list \<Rightarrow> tor_addr_t option \<Rightarrow> tor_addr_t list" where
  "policies_copy_addr_to_smartlist addr_list a =
    (case a of None \<Rightarrow> addr_list
     | Some x \<Rightarrow> if tor_addr_is_null x then addr_list else addr_list @ [x])"

definition policies_copy_outbound_addresses_to_smartlist ::
    "tor_addr_t list \<Rightarrow> exit_options \<Rightarrow> tor_addr_t list" where
  "policies_copy_outbound_addresses_to_smartlist addr_list opt =
    foldl (\<lambda>l a. if tor_addr_is_null a then l else policies_copy_addr_to_smartlist l (Some a))
      addr_list (OutboundBindAddresses opt)"

definition exit_configured_addresses ::
    "exit_options \<Rightarrow> tor_addr_t option \<Rightarrow> tor_addr_t option \<Rightarrow> tor_addr_t list" where
  "exit_configured_addresses opt ipv4_local_address ipv6_local_address =
    (let l1 = (if ExitPolicyRejectPrivate opt
               then policies_copy_addr_to_smartlist
                      (policies_copy_addr_to_smartlist [] ipv4_local_address) ipv6_local_address
               else [])
     in if ExitPolicyRejectLocalInterfaces opt
        then policies_copy_outbound_addresses_to_smartlist l1 opt else l1)"

definition policies_parse_exit_policy_from_options ::
    "exit_options \<Rightarrow> own_addresses \<Rightarrow> tor_addr_t option \<Rightarrow> tor_addr_t option \<Rightarrow> policy option
      \<Rightarrow> policy option assertable" where
  "policies_parse_exit_policy_from_options opt own ipv4_local_address ipv6_local_address result =
    (if ExitRelay opt = 0 \<or> policy_using_default_exit_options opt
     then Returns (append_exit_policy_string (append_exit_policy_string result [reject_star4]) [reject_star6])
     else policies_parse_exit_policy (ExitPolicy opt) result
       \<lparr>EXIT_POLICY_IPV6_ENABLED = IPv6Exit opt,
        EXIT_POLICY_REJECT_PRIVATE = ExitPolicyRejectPrivate opt,
        EXIT_POLICY_ADD_DEFAULT = \<not> BridgeRelay opt \<and> \<not> ReducedExitPolicy opt,
        EXIT_POLICY_REJECT_LOCAL_INTERFACES = ExitPolicyRejectLocalInterfaces opt,
        EXIT_POLICY_ADD_REDUCED = \<not> BridgeRelay opt \<and> ReducedExitPolicy opt\<rparr>
       (own\<lparr>configured_addresses := exit_configured_addresses opt ipv4_local_address ipv6_local_address\<rparr>))"

section \<open>General exits and policies that reject everything\<close>

text \<open>For each /8 whether it is rejected or undecided. The inner loop runs over the /8s that the
  entry touches; \<open>Inl\<close> is its early return.\<close>

definition entry_mask :: "nat \<Rightarrow> 32 word" where
  "entry_mask bits = (if bits = 0 then 0 else push_bit (32 - bits) (- 1))"

definition first_subnet :: "addr_policy \<Rightarrow> nat" where
  "first_subnet p = unat (drop_bit 24 (entry_mask (maskbits p) AND tor_addr_to_ipv4h (entry_addr p)))"

definition last_subnet :: "addr_policy \<Rightarrow> nat" where
  "last_subnet p =
    unat (drop_bit 24 (NOT ((entry_mask (maskbits p) AND tor_addr_to_ipv4h (entry_addr p))
      XOR entry_mask (maskbits p))))"

fun subnet_loop :: "bool \<Rightarrow> addr_policy \<Rightarrow> nat list \<Rightarrow> bool list \<Rightarrow> unit + bool list" where
  "subnet_loop allow_private p [] status = Inr status"
| "subnet_loop allow_private p (i # is) status =
    (if status ! i then subnet_loop allow_private p is status
     else if tor_addr_is_internal (tor_addr_from_ipv4h (of_nat (i * 2 ^ 24))) False \<and> \<not> allow_private
       then subnet_loop allow_private p is status
     else if policy_type p = ADDR_POLICY_ACCEPT then
       if 8 < maskbits p then subnet_loop allow_private p is status else Inl ()
     else subnet_loop allow_private p is (status[i := True]))"

fun general_exit_scan :: "bool \<Rightarrow> nat \<Rightarrow> bool list \<Rightarrow> policy \<Rightarrow> bool assertable" where
  "general_exit_scan allow_private port status [] = Returns False"
| "general_exit_scan allow_private port status (p # ps) =
    (if tor_addr_family (entry_addr p) \<noteq> AF_INET \<or> port < prt_min p \<or> prt_max p < port
     then general_exit_scan allow_private port status ps
     else if 32 < maskbits p then Aborts
     else case subnet_loop allow_private p [first_subnet p..<last_subnet p + 1] status of
            Inl _ \<Rightarrow> Returns True
          | Inr status' \<Rightarrow> general_exit_scan allow_private port status' ps)"

definition exit_policy_is_general_exit_helper :: "bool \<Rightarrow> policy \<Rightarrow> nat \<Rightarrow> bool assertable" where
  "exit_policy_is_general_exit_helper allow_private policy port =
    general_exit_scan allow_private port (replicate 256 False) policy"

definition exit_policy_is_general_exit :: "bool \<Rightarrow> policy option \<Rightarrow> bool assertable" where
  "exit_policy_is_general_exit allow_private policy =
    (case policy of None \<Rightarrow> Returns False
     | Some p \<Rightarrow>
         and_then (exit_policy_is_general_exit_helper allow_private p 80) (\<lambda>b.
         if b then exit_policy_is_general_exit_helper allow_private p 443 else Returns False))"

fun reject_star_scan :: "nat \<Rightarrow> bool \<Rightarrow> policy \<Rightarrow> bool" where
  "reject_star_scan family default_reject [] = default_reject"
| "reject_star_scan family default_reject (p # ps) =
    (let f = tor_addr_family (entry_addr p); same = (f = family \<or> f = AF_UNSPEC) in
     if policy_type p = ADDR_POLICY_ACCEPT \<and> same then False
     else if policy_type p = ADDR_POLICY_REJECT \<and> prt_min p \<le> 1 \<and> prt_max p = 65535 \<and> maskbits p = 0 \<and> same
       then True
     else reject_star_scan family default_reject ps)"

definition policy_is_reject_star :: "policy option \<Rightarrow> nat \<Rightarrow> bool \<Rightarrow> bool" where
  "policy_is_reject_star policy family default_reject =
    (case policy of None \<Rightarrow> default_reject | Some p \<Rightarrow> reject_star_scan family default_reject p)"

end
