(* ===== verification/PolicyLaws.thy ===== *)
theory PolicyLaws
  imports Policies
begin

text \<open>
  What the answers of a policy mean, and that simplifying a policy keeps them: the first entry
  that matches an address and a port decides; removing redundant entries changes no decision;
  the answers for an unknown port, and for an unknown address under entries of one family, are
  right whenever they are definite.
\<close>

section \<open>The deciding entry\<close>

definition matches :: "tor_addr_t \<Rightarrow> nat \<Rightarrow> addr_policy \<Rightarrow> bool" where
  "matches a port e \<longleftrightarrow> same_net (maskbits e) a (entry_addr e) \<and> prt_min e \<le> port \<and> port \<le> prt_max e"

definition policy_entry_ok :: "addr_policy \<Rightarrow> bool" where
  "policy_entry_ok e \<longleftrightarrow> addr_ok (entry_addr e)"

definition policy_ok :: "policy \<Rightarrow> bool" where
  "policy_ok es \<longleftrightarrow> list_all policy_entry_ok es"

fun decide :: "tor_addr_t \<Rightarrow> nat \<Rightarrow> policy \<Rightarrow> addr_policy_action option" where
  "decide a port [] = None"
| "decide a port (e # es) = (if matches a port e then Some (policy_type e) else decide a port es)"

lemma entry_matches_same_net: "entry_matches_addr a e \<longleftrightarrow> same_net (maskbits e) a (entry_addr e)"
  by (simp add: entry_matches_addr_def same_net_def)

lemma known_decide:
  "compare_known_tor_addr_to_addr_policy a port es =
    (case decide a port es of None \<Rightarrow> ADDR_POLICY_ACCEPTED | Some t \<Rightarrow> definite_result t)"
  by (induction es) (auto simp: matches_def entry_matches_same_net)

lemma policy_ok_simps [simp]:
  "policy_ok []" "policy_ok (e # es) \<longleftrightarrow> policy_entry_ok e \<and> policy_ok es"
  "policy_ok (es @ fs) \<longleftrightarrow> policy_ok es \<and> policy_ok fs"
  by (simp_all add: policy_ok_def)

lemma policy_ok_filter: "policy_ok es \<Longrightarrow> policy_ok (filter P es)"
  by (induction es) auto

lemma covers_matches:
  assumes "addr_ok a" "policy_entry_ok e" "policy_entry_ok t" "addr_policy_covers e t" "matches a port t"
  shows "matches a port e"
  using net.covered_network [of a "entry_addr e" "entry_addr t" "maskbits e" "maskbits t"] assms
  by (auto simp: addr_policy_covers_def matches_def policy_entry_ok_def same_net_def)

lemma disjoint_matches:
  assumes "addr_ok a" "policy_entry_ok e" "policy_entry_ok t" "\<not> addr_policy_intersects e t" "matches a port e"
  shows "\<not> matches a port t"
proof -
  have "(if maskbits e < maskbits t then maskbits e else maskbits t) = min (maskbits e) (maskbits t)"
    by simp
  then show ?thesis
    using net.disjoint_networks [of a "entry_addr e" "entry_addr t" "maskbits e" "maskbits t"] assms
    by (auto simp: addr_policy_intersects_def matches_def policy_entry_ok_def same_net_def Let_def)
qed

section \<open>Removing redundant entries\<close>

lemma decide_filter: "(\<And>t. t \<in> set es \<Longrightarrow> \<not> P t \<Longrightarrow> \<not> matches a port t) \<Longrightarrow>
    decide a port (filter P es) = decide a port es"
  by (induction es) auto

lemma catch_all_matches:
  assumes "is_catch_all e" "tor_addr_family (entry_addr e) = tor_addr_family a"
    "tor_addr_family a = AF_INET \<or> tor_addr_family a = AF_INET6" "1 \<le> port" "port \<le> 65535"
    "addr_ok a" "policy_entry_ok e"
  shows "matches a port e"
proof -
  have "same_net 0 a (entry_addr e)"
    using assms(2,3,6,7) by (cases a; cases "entry_addr e")
      (auto simp: policy_entry_ok_def masked_bytes_def)
  with assms show ?thesis by (auto simp: is_catch_all_def matches_def)
qed

lemma remove_unreachable_decide:
  assumes "addr_ok a" "1 \<le> port" "port \<le> 65535" "policy_ok es"
    "\<not> (v4 \<and> tor_addr_family a = AF_INET)" "\<not> (v6 \<and> tor_addr_family a = AF_INET6)"
  shows "decide a port (remove_unreachable v4 v6 es) = decide a port es"
  using assms
proof (induction es arbitrary: v4 v6)
  case (Cons e es)
  let ?f = "tor_addr_family (entry_addr e)"
  show ?case
  proof (cases "(?f = AF_INET \<and> v4) \<or> (?f = AF_INET6 \<and> v6)")
    case True
    with Cons.prems have "\<not> matches a port e"
      by (auto simp: matches_def dest: same_net_family)
    with True Cons show ?thesis by (auto simp: Let_def)
  next
    case False
    have "decide a port (remove_unreachable (v4 \<or> is_catch_all e \<and> ?f = AF_INET)
        (v6 \<or> is_catch_all e \<and> ?f = AF_INET6) es) = decide a port es" if "\<not> matches a port e"
      using Cons.prems that catch_all_matches [of e a port] by (intro Cons.IH) auto
    moreover have "remove_unreachable v4 v6 (e # es) =
        e # remove_unreachable (v4 \<or> is_catch_all e \<and> ?f = AF_INET) (v6 \<or> is_catch_all e \<and> ?f = AF_INET6) es"
      using False by (simp only: remove_unreachable.simps Let_def if_False)
    ultimately show ?thesis by (simp del: remove_unreachable.simps)
  qed
qed simp

lemma remove_unreachable_ok: "policy_ok es \<Longrightarrow> policy_ok (remove_unreachable v4 v6 es)"
  by (induction es arbitrary: v4 v6) (auto simp: Let_def)

lemma remove_covered_decide:
  "addr_ok a \<Longrightarrow> policy_ok es \<Longrightarrow> decide a port (remove_covered es) = decide a port es"
proof (induction es rule: remove_covered.induct)
  case (2 e es)
  have "decide a port (filter (\<lambda>t. \<not> addr_policy_covers e t) es) = decide a port es"
    if "\<not> matches a port e"
    using that 2 covers_matches [of a e] by (intro decide_filter) (auto simp: policy_ok_def list_all_iff)
  with 2 show ?case by (auto simp: policy_ok_filter)
qed simp

lemma remove_covered_ok: "policy_ok es \<Longrightarrow> policy_ok (remove_covered es)"
  by (induction es rule: remove_covered.induct) (auto simp: policy_ok_filter)

lemma covered_later_decide:
  "addr_ok a \<Longrightarrow> policy_entry_ok e \<Longrightarrow> policy_ok es \<Longrightarrow> covered_later e es \<Longrightarrow> matches a port e \<Longrightarrow>
    decide a port es = Some (policy_type e)"
  by (induction es) (auto split: if_splits dest: covers_matches disjoint_matches)

lemma remove_covered_later_decide:
  "addr_ok a \<Longrightarrow> policy_ok es \<Longrightarrow> decide a port (remove_covered_later es) = decide a port es"
  by (induction es) (auto simp: covered_later_decide)

lemma remove_covered_later_ok: "policy_ok es \<Longrightarrow> policy_ok (remove_covered_later es)"
  by (induction es) auto

lemma remove_redundancies_decide:
  assumes "addr_ok a" "1 \<le> port" "port \<le> 65535" "policy_ok es"
  shows "decide a port (exit_policy_remove_redundancies es) = decide a port es"
  using assms
  by (simp add: exit_policy_remove_redundancies_def remove_covered_later_decide remove_covered_decide
      remove_unreachable_decide remove_unreachable_ok remove_covered_ok)

lemma remove_redundancies_ok: "policy_ok es \<Longrightarrow> policy_ok (exit_policy_remove_redundancies es)"
  by (simp add: exit_policy_remove_redundancies_def remove_covered_later_ok remove_covered_ok
      remove_unreachable_ok)


text \<open>C10: Taking the dead entries out of a policy, in the three steps of the code, changes no answer:
  every address of any family gets at every port the verdict it got before, whatever the order,
  the nesting and the overlaps of the entries.\<close>

theorem redundancy_removal_keeps_answers:
  assumes "addr_ok a" "1 \<le> port" "port \<le> 65535" "policy_ok es"
  shows "compare_known_tor_addr_to_addr_policy a port (exit_policy_remove_redundancies es)
    = compare_known_tor_addr_to_addr_policy a port es"
  using assms by (simp add: known_decide remove_redundancies_decide)

definition sample_policy :: policy where
  "sample_policy =
    [entry ADDR_POLICY_ACCEPT (Inet 0x0a010000) 16 80 80, entry ADDR_POLICY_REJECT (Inet 0x0a000000) 8 1 65535,
     entry ADDR_POLICY_REJECT (Inet 0x0a020000) 16 22 22, entry ADDR_POLICY_ACCEPT (Inet 0x01000000) 8 80 90,
     entry ADDR_POLICY_ACCEPT (Inet 0) 0 1 65535, entry ADDR_POLICY_REJECT (Inet 0x02000000) 8 1 65535]"

lemma sample_policy_shorter:
  "exit_policy_remove_redundancies sample_policy =
    [entry ADDR_POLICY_ACCEPT (Inet 0x0a010000) 16 80 80, entry ADDR_POLICY_REJECT (Inet 0x0a000000) 8 1 65535,
     entry ADDR_POLICY_ACCEPT (Inet 0) 0 1 65535]"
  by code_simp

theorem redundancy_removal_keeps_answers_witness:
  "compare_known_tor_addr_to_addr_policy (Inet 0x0a020304) 22 sample_policy = ADDR_POLICY_REJECTED"
proof -
  have "policy_ok sample_policy" by (simp add: sample_policy_def policy_entry_ok_def entry_def)
  moreover have "compare_known_tor_addr_to_addr_policy (Inet 0x0a020304) 22
      (exit_policy_remove_redundancies sample_policy) = ADDR_POLICY_REJECTED"
    unfolding sample_policy_shorter by code_simp
  ultimately show ?thesis
    using redundancy_removal_keeps_answers [of "Inet 0x0a020304" 22 sample_policy] by simp
qed

section \<open>Answers that know one half\<close>

lemma certain_definite:
  "certain_result t ma mr = ADDR_POLICY_ACCEPTED \<longleftrightarrow> t = ADDR_POLICY_ACCEPT \<and> \<not> mr"
  "certain_result t ma mr = ADDR_POLICY_REJECTED \<longleftrightarrow> t = ADDR_POLICY_REJECT \<and> \<not> ma"
  by (cases t; simp)+

lemma noport_accepted:
  "noport_scan a ma mr es = ADDR_POLICY_ACCEPTED \<Longrightarrow> 1 \<le> port \<Longrightarrow> port \<le> 65535 \<Longrightarrow>
    \<not> mr \<and> decide a port es \<noteq> Some ADDR_POLICY_REJECT"
  by (induction es arbitrary: ma mr)
    (auto simp: entry_matches_same_net matches_def certain_definite split: if_splits
      intro: addr_policy_action.exhaust)

lemma noport_rejected:
  "noport_scan a ma mr es = ADDR_POLICY_REJECTED \<Longrightarrow> 1 \<le> port \<Longrightarrow> port \<le> 65535 \<Longrightarrow>
    \<not> ma \<and> decide a port es = Some ADDR_POLICY_REJECT"
  by (induction es arbitrary: ma mr)
    (auto simp: entry_matches_same_net matches_def certain_definite split: if_splits)

lemma same_net_0:
  "addr_ok a \<Longrightarrow> addr_ok b \<Longrightarrow> tor_addr_family a = tor_addr_family b \<Longrightarrow>
    tor_addr_family a = AF_INET \<or> tor_addr_family a = AF_INET6 \<Longrightarrow> same_net 0 a b"
  by (cases a; cases b) (auto simp: masked_bytes_def)

definition of_family :: "nat \<Rightarrow> policy \<Rightarrow> bool" where
  "of_family f es \<longleftrightarrow> (\<forall>e \<in> set es. tor_addr_family (entry_addr e) = f)"

lemma of_family_Cons [simp]:
  "of_family f [] " "of_family f (e # es) \<longleftrightarrow> tor_addr_family (entry_addr e) = f \<and> of_family f es"
  by (auto simp: of_family_def)

lemma unknown_accepted:
  assumes "tor_addr_family a = AF_INET \<or> tor_addr_family a = AF_INET6" "addr_ok a"
  shows "unknown_scan port ma mr es = ADDR_POLICY_ACCEPTED \<Longrightarrow> policy_ok es \<Longrightarrow>
    of_family (tor_addr_family a) es \<Longrightarrow> \<not> mr \<and> decide a port es \<noteq> Some ADDR_POLICY_REJECT"
  using assms
  by (induction es arbitrary: ma mr)
    (auto simp: matches_def certain_definite policy_entry_ok_def same_net_0 split: if_splits)

lemma unknown_rejected:
  assumes "tor_addr_family a = AF_INET \<or> tor_addr_family a = AF_INET6" "addr_ok a"
  shows "unknown_scan port ma mr es = ADDR_POLICY_REJECTED \<Longrightarrow> policy_ok es \<Longrightarrow>
    of_family (tor_addr_family a) es \<Longrightarrow> \<not> ma \<and> decide a port es = Some ADDR_POLICY_REJECT"
  using assms
  by (induction es arbitrary: ma mr)
    (auto simp: matches_def certain_definite policy_entry_ok_def same_net_0 split: if_splits)

lemma reject_star_rejected:
  assumes "tor_addr_family a = AF_INET \<or> tor_addr_family a = AF_INET6" "addr_ok a"
    "1 \<le> port" "port \<le> 65535"
  shows "reject_star_scan (tor_addr_family a) False es \<Longrightarrow> policy_ok es \<Longrightarrow>
    \<forall>e \<in> set es. tor_addr_family (entry_addr e) \<noteq> AF_UNSPEC \<Longrightarrow> decide a port es = Some ADDR_POLICY_REJECT"
proof (induction es)
  case (Cons e es)
  show ?case
  proof (cases "tor_addr_family (entry_addr e) = tor_addr_family a")
    case True
    have "matches a port e" if "is_catch_all e"
      using catch_all_matches [OF that True assms(1,3,4,2)] Cons.prems by simp
    moreover have "policy_type e = ADDR_POLICY_REJECT"
      using Cons.prems(1) True by (cases "policy_type e") (simp_all add: Let_def)
    ultimately show ?thesis
      using Cons True by (auto simp: Let_def is_catch_all_def split: if_splits)
  next
    case False
    then have "\<not> matches a port e" by (auto simp: matches_def dest: same_net_family)
    with False Cons show ?thesis by (auto simp: Let_def split: if_splits)
  qed
qed simp

lemma definite_accept: "t \<noteq> ADDR_POLICY_REJECT \<Longrightarrow> definite_result t = ADDR_POLICY_ACCEPTED"
  by (cases t) simp_all

definition definite :: "addr_policy_result \<Rightarrow> bool" where
  "definite r \<longleftrightarrow> r = ADDR_POLICY_ACCEPTED \<or> r = ADDR_POLICY_REJECTED"

lemma definite_answers:
  assumes "addr_ok a" "\<not> tor_addr_is_null a" "1 \<le> port" "port \<le> 65535" "policy_ok es"
    and family: "tor_addr_family a = AF_INET \<or> tor_addr_family a = AF_INET6"
  shows "definite (compare_tor_addr_to_addr_policy (Some a) 0 (Some es)) \<Longrightarrow>
      compare_tor_addr_to_addr_policy (Some a) port (Some es) = compare_tor_addr_to_addr_policy (Some a) 0 (Some es)"
    and "of_family (tor_addr_family a) es \<Longrightarrow> definite (compare_tor_addr_to_addr_policy None port (Some es)) \<Longrightarrow>
      compare_tor_addr_to_addr_policy (Some a) port (Some es) = compare_tor_addr_to_addr_policy None port (Some es)"
    and "\<forall>e \<in> set es. tor_addr_family (entry_addr e) \<noteq> AF_UNSPEC \<Longrightarrow>
      policy_is_reject_star (Some es) (tor_addr_family a) False \<Longrightarrow>
      compare_tor_addr_to_addr_policy (Some a) port (Some es) = ADDR_POLICY_REJECTED"
proof -
  have known: "compare_tor_addr_to_addr_policy (Some a) port (Some es) =
      (case decide a port es of None \<Rightarrow> ADDR_POLICY_ACCEPTED | Some t \<Rightarrow> definite_result t)"
    using assms by (simp add: compare_tor_addr_to_addr_policy_def known_decide)
  have accepted: "decide a port es \<noteq> Some ADDR_POLICY_REJECT \<Longrightarrow>
      compare_tor_addr_to_addr_policy (Some a) port (Some es) = ADDR_POLICY_ACCEPTED"
    unfolding known by (cases "decide a port es") (auto simp: definite_accept)
  have rejected: "decide a port es = Some ADDR_POLICY_REJECT \<Longrightarrow>
      compare_tor_addr_to_addr_policy (Some a) port (Some es) = ADDR_POLICY_REJECTED"
    unfolding known by simp
  show "definite (compare_tor_addr_to_addr_policy (Some a) 0 (Some es)) \<Longrightarrow>
      compare_tor_addr_to_addr_policy (Some a) port (Some es) = compare_tor_addr_to_addr_policy (Some a) 0 (Some es)"
    using noport_accepted [of a False False es port] noport_rejected [of a False False es port]
      accepted rejected assms
    by (auto simp: definite_def compare_tor_addr_to_addr_policy_def
        compare_known_tor_addr_to_addr_policy_noport_def)
  show "of_family (tor_addr_family a) es \<Longrightarrow> definite (compare_tor_addr_to_addr_policy None port (Some es)) \<Longrightarrow>
      compare_tor_addr_to_addr_policy (Some a) port (Some es) = compare_tor_addr_to_addr_policy None port (Some es)"
    using unknown_accepted [OF family, of port False False es] unknown_rejected [OF family, of port False False es]
      accepted rejected assms
    by (auto simp: definite_def compare_tor_addr_to_addr_policy_def
        compare_unknown_tor_addr_to_addr_policy_def)
  show "\<forall>e \<in> set es. tor_addr_family (entry_addr e) \<noteq> AF_UNSPEC \<Longrightarrow>
      policy_is_reject_star (Some es) (tor_addr_family a) False \<Longrightarrow>
      compare_tor_addr_to_addr_policy (Some a) port (Some es) = ADDR_POLICY_REJECTED"
    using reject_star_rejected [OF family] rejected assms by (auto simp: policy_is_reject_star_def)
qed


definition v4_policy :: policy where
  "v4_policy =
    [entry ADDR_POLICY_REJECT (Inet 0x0a000000) 8 1 65535, entry ADDR_POLICY_REJECT (Inet 0) 0 25 25,
     entry ADDR_POLICY_ACCEPT (Inet 0x01000000) 8 80 90, entry ADDR_POLICY_REJECT (Inet 0) 0 1 65535]"


end
