(* ===== verification/PolicySubnets.thy ===== *)
theory PolicySubnets
  imports PolicyLaws
begin

unbundle bit_operations_syntax

text \<open>
  The test for general exits: an entry of a policy touches the /8 networks from its first to its
  last address, and when the test succeeds there is a whole /8 network that the policy accepts.
\<close>

section \<open>The /8 networks of an entry\<close>

definition net8 :: "32 word \<Rightarrow> nat" where
  "net8 w = unat (drop_bit 24 w)"

lemma unat_drop: "unat (drop_bit n (a :: 32 word)) = unat a div 2 ^ n"
  by (subst unat_drop_bit_eq) (rule drop_bit_eq_div)

lemma drop_bit_mono: "(a :: 32 word) \<le> b \<Longrightarrow> unat (drop_bit n a) \<le> unat (drop_bit n b)"
  unfolding unat_drop by (simp add: word_le_nat_alt div_le_mono)

lemma net8_less: "net8 w < 256"
  using unat_bound [of w] unfolding net8_def unat_drop by simp

lemma mask_and_eq:
  assumes "m \<le> 32" "m = 0 \<or> drop_bit (32 - m) w = drop_bit (32 - m) ip"
  shows "entry_mask m AND ip = entry_mask m AND w"
proof (cases "m = 0")
  case False
  then have d: "drop_bit (32 - m) w = drop_bit (32 - m) ip" using assms(2) by simp
  have "push_bit (32 - m) (- 1) AND x = push_bit (32 - m) (drop_bit (32 - m) x)" for x :: "32 word"
    by (rule bit_word_eqI) (auto simp: bit_simps)
  with d False show ?thesis by (simp add: entry_mask_def)
qed (simp add: entry_mask_def)

lemma touched:
  assumes "maskbits p \<le> 32" "maskbits p = 0 \<or> drop_bit (32 - maskbits p) w = drop_bit (32 - maskbits p) ip"
    "entry_addr p = Inet ip"
  shows "first_subnet p \<le> net8 w" "net8 w \<le> last_subnet p"
proof -
  let ?k = "entry_mask (maskbits p)"
  have eq: "?k AND ip = ?k AND w" using mask_and_eq [OF assms(1,2)] .
  show "first_subnet p \<le> net8 w"
    unfolding first_subnet_def net8_def assms(3) tor_addr_to_ipv4h.simps eq
    by (rule drop_bit_mono) (rule word_and_le1)
  have "w \<le> w OR NOT ?k" by (rule le_word_or2)
  also have "w OR NOT ?k = NOT ((?k AND w) XOR ?k)"
    by (rule bit_word_eqI) (auto simp: bit_simps)
  finally have "w \<le> NOT ((?k AND w) XOR ?k)" .
  then show "net8 w \<le> last_subnet p"
    unfolding last_subnet_def net8_def assms(3) tor_addr_to_ipv4h.simps eq by (rule drop_bit_mono)
qed

lemma last_subnet_less: "last_subnet p < 256"
  using net8_less unfolding last_subnet_def net8_def .

lemma covers_net8:
  assumes "maskbits p \<le> 8" "entry_addr p = Inet ip" "first_subnet p \<le> net8 w" "net8 w \<le> last_subnet p"
  shows "maskbits p = 0 \<or> drop_bit (32 - maskbits p) w = drop_bit (32 - maskbits p) ip"
proof (cases "maskbits p = 0")
  case False
  let ?m = "maskbits p" and ?k = "entry_mask (maskbits p)"
  let ?base = "?k AND ip"
  have split: "unat (drop_bit (32 - ?m) x) = net8 x div 2 ^ (8 - ?m)" for x :: "32 word"
  proof -
    have "24 + (8 - ?m) = 32 - ?m" using assms(1) by simp
    then have "(2 :: nat) ^ (32 - ?m) = 2 ^ 24 * 2 ^ (8 - ?m)" by (metis power_add)
    then show ?thesis unfolding net8_def unat_drop by (simp only: div_mult2_eq)
  qed
  have base: "drop_bit (32 - ?m) ?base = drop_bit (32 - ?m) ip"
    using False assms(1) by (intro bit_word_eqI) (auto simp: bit_simps entry_mask_def dest: bit_imp_le_length)
  have top: "drop_bit (32 - ?m) (NOT (?base XOR ?k)) = drop_bit (32 - ?m) ip"
    using False assms(1) by (intro bit_word_eqI) (auto simp: bit_simps entry_mask_def dest: bit_imp_le_length)
  have "net8 ?base \<le> net8 w" "net8 w \<le> net8 (NOT (?base XOR ?k))"
    using assms(3,4) by (simp_all add: first_subnet_def last_subnet_def assms(2) net8_def)
  then have "net8 ?base div 2 ^ (8 - ?m) \<le> net8 w div 2 ^ (8 - ?m)"
    "net8 w div 2 ^ (8 - ?m) \<le> net8 (NOT (?base XOR ?k)) div 2 ^ (8 - ?m)"
    by (auto intro: div_le_mono)
  then have "unat (drop_bit (32 - ?m) w) = unat (drop_bit (32 - ?m) ip)"
    using base top by (simp flip: split)
  then show ?thesis by (metis unsigned_word_eqI)
qed simp

section \<open>The scan\<close>

definition skipped :: "bool \<Rightarrow> nat \<Rightarrow> bool" where
  "skipped allow_private i \<longleftrightarrow>
    tor_addr_is_internal (tor_addr_from_ipv4h (of_nat (i * 2 ^ 24))) False \<and> \<not> allow_private"

lemma subnet_loop_simp:
  "subnet_loop allow p (i # is) status =
    (if status ! i \<or> skipped allow i then subnet_loop allow p is status
     else if policy_type p = ADDR_POLICY_ACCEPT then
       if 8 < maskbits p then subnet_loop allow p is status else Inl ()
     else subnet_loop allow p is (status[i := True]))"
  by (simp add: skipped_def)

lemma subnet_loop_reject:
  assumes "policy_type p = ADDR_POLICY_REJECT"
  shows "\<exists>st. subnet_loop allow p is status = Inr st \<and> length st = length status \<and>
    (\<forall>i < length status. st ! i \<longleftrightarrow> status ! i \<or> i \<in> set is \<and> \<not> skipped allow i)"
proof (induction "is" arbitrary: status)
  case (Cons i "is")
  show ?case
  proof (cases "status ! i \<or> skipped allow i")
    case True
    then have "subnet_loop allow p (i # is) status = subnet_loop allow p is status"
      by (simp only: subnet_loop_simp if_True)
    with Cons [of status] True show ?thesis by (auto simp del: subnet_loop.simps(2))
  next
    case False
    then have "subnet_loop allow p (i # is) status = subnet_loop allow p is (status[i := True])"
      using assms by (simp only: subnet_loop_simp if_False addr_policy_action.simps)
    moreover have "status[i := True] ! j \<longleftrightarrow> status ! j \<or> j = i" if "j < length status" for j
      using that by (cases "i = j") auto
    ultimately show ?thesis
      using Cons [of "status[i := True]"] False by (auto simp del: subnet_loop.simps(2))
  qed
qed simp

lemma subnet_loop_accept:
  assumes "policy_type p = ADDR_POLICY_ACCEPT"
  shows "subnet_loop allow p is status = Inr status \<or>
    subnet_loop allow p is status = Inl () \<and> maskbits p \<le> 8 \<and>
      (\<exists>i \<in> set is. \<not> status ! i \<and> \<not> skipped allow i)"
  using assms by (induction "is") (auto simp: subnet_loop_simp simp del: subnet_loop.simps(2))

lemma ipv4_matches:
  assumes "entry_addr p = Inet ip"
  shows "matches (Inet w) port p \<longleftrightarrow> prt_min p \<le> port \<and> port \<le> prt_max p \<and>
    (maskbits p = 0 \<or> drop_bit (32 - min 32 (maskbits p)) w = drop_bit (32 - min 32 (maskbits p)) ip)"
  by (auto simp: matches_def assms)

lemma general_exit_accepts:
  assumes "general_exit_scan allow port status ps = Returns True" "length status = 256"
  shows "\<exists>i < 256. \<not> status ! i \<and> \<not> skipped allow i \<and>
    (\<forall>w. net8 w = i \<longrightarrow> decide (Inet w) port ps = Some ADDR_POLICY_ACCEPT)"
  using assms
proof (induction ps arbitrary: status)
  case (Cons p ps)
  show ?case
  proof (cases "tor_addr_family (entry_addr p) \<noteq> AF_INET \<or> port < prt_min p \<or> prt_max p < port")
    case True
    then have "\<not> matches (Inet w) port p" for w
      by (auto simp: matches_def dest: same_net_family)
    with True Cons show ?thesis by auto
  next
    case False
    then obtain ip where ip: "entry_addr p = Inet ip" by (cases "entry_addr p") auto
    have port: "prt_min p \<le> port" "port \<le> prt_max p" using False by auto
    have m: "maskbits p \<le> 32" using Cons.prems(1) False by (auto split: if_splits)
    let ?is = "[first_subnet p..<last_subnet p + 1]"
    have scan: "(case subnet_loop allow p ?is status of Inl _ \<Rightarrow> Returns True
        | Inr st \<Rightarrow> general_exit_scan allow port st ps) = Returns True"
      using Cons.prems(1) False m by auto
    have touch: "i \<in> set ?is" if "net8 w = i" "matches (Inet w) port p" for w i
      using touched [OF m _ ip, of w] that ipv4_matches [OF ip] m by (auto simp: min_absorb2)
    show ?thesis
    proof (cases "policy_type p")
      case ADDR_POLICY_ACCEPT
      from subnet_loop_accept [OF this, of allow ?is status] show ?thesis
      proof (elim disjE conjE bexE)
        assume "subnet_loop allow p ?is status = Inr status"
        with scan Cons.IH [of status] Cons.prems(2) ADDR_POLICY_ACCEPT show ?thesis by auto
      next
        fix i assume i: "maskbits p \<le> 8" "i \<in> set ?is" "\<not> status ! i" "\<not> skipped allow i"
        have "matches (Inet w) port p" if "net8 w = i" for w
          using covers_net8 [OF i(1) ip, of w] i(1,2) that port
          by (auto simp: ipv4_matches [OF ip] min_absorb2)
        moreover have "i < 256"
          using i(2) last_subnet_less [of p] by auto
        ultimately show ?thesis using i(3,4) ADDR_POLICY_ACCEPT by auto
      qed
    next
      case ADDR_POLICY_REJECT
      obtain st where st: "subnet_loop allow p ?is status = Inr st" "length st = length status"
        "\<And>i. i < 256 \<Longrightarrow> st ! i \<longleftrightarrow> status ! i \<or> i \<in> set ?is \<and> \<not> skipped allow i"
        using subnet_loop_reject [OF ADDR_POLICY_REJECT, of allow ?is status] Cons.prems(2) by auto
      obtain i where i: "i < 256" "\<not> st ! i" "\<not> skipped allow i"
        "\<And>w. net8 w = i \<Longrightarrow> decide (Inet w) port ps = Some ADDR_POLICY_ACCEPT"
        using Cons.IH [of st] scan st(1,2) Cons.prems(2) by auto
      then have "i \<notin> set ?is" "\<not> status ! i" using st(3) [OF i(1)] by auto
      then have "\<not> matches (Inet w) port p" if "net8 w = i" for w using touch [OF that] by blast
      with i \<open>\<not> status ! i\<close> show ?thesis by auto
    qed
  qed
qed simp



definition web_policy :: policy where
  "web_policy =
    [entry ADDR_POLICY_REJECT (Inet 0x08020000) 16 1 65535, entry ADDR_POLICY_ACCEPT (Inet 0x08000000) 7 80 443,
     entry ADDR_POLICY_REJECT (Inet 0) 0 1 65535]"

lemma web_subnets:
  "first_subnet (entry ADDR_POLICY_REJECT (Inet 0x08020000) 16 1 65535) = 8"
  "last_subnet (entry ADDR_POLICY_REJECT (Inet 0x08020000) 16 1 65535) = 8"
  "first_subnet (entry ADDR_POLICY_ACCEPT (Inet 0x08000000) 7 80 443) = 8"
  "last_subnet (entry ADDR_POLICY_ACCEPT (Inet 0x08000000) 7 80 443) = 9"
  "\<not> skipped False 8" "\<not> skipped False 9"
  by code_simp+

lemma entry_sel:
  "policy_type (entry t a m lo hi) = t" "maskbits (entry t a m lo hi) = m" "entry_addr (entry t a m lo hi) = a"
  "prt_min (entry t a m lo hi) = lo" "prt_max (entry t a m lo hi) = hi"
  by (simp_all add: entry_def)

lemma web_general: "exit_policy_is_general_exit False (Some web_policy) = Returns True"
proof -
  have upt: "[8..<8 + 1] = [8]" "[8..<9 + 1] = [8, 9]" by (simp_all add: upt_rec)
  have st: "replicate 256 False ! 8 = False" "length (replicate 256 False) = 256"
    "(replicate 256 False)[8 := True] ! 8" "(replicate 256 False)[8 := True] ! 9 = False"
    by (simp_all del: replicate_Suc)
  have "general_exit_scan False port (replicate 256 False) web_policy = Returns True"
    if "80 \<le> port" "port \<le> 443" for port
    using that st unfolding web_policy_def
    by (simp add: web_subnets upt subnet_loop_simp entry_sel
        del: subnet_loop.simps(2) upt_Suc replicate_Suc One_nat_def)
  then show ?thesis
    by (simp add: exit_policy_is_general_exit_def exit_policy_is_general_exit_helper_def)
qed


end
