(* ===== verification/PolicyExit.thy ===== *)
theory PolicyExit
  imports PolicyLaws
begin

text \<open>
  The exit policy a relay builds from its options: what it rejects whatever the operator writes,
  and where the code does not do what it says.
\<close>

section \<open>Expanded entries\<close>

text \<open>What a policy holds once its entries are expanded.\<close>

definition concrete :: "addr_policy \<Rightarrow> bool" where
  "concrete e \<longleftrightarrow> policy_entry_ok e \<and> tor_addr_family (entry_addr e) \<noteq> AF_UNSPEC"

lemma private_nets_ok: "(a, m) \<in> set private_nets \<Longrightarrow> addr_ok a"
  by (auto simp: private_nets_def ipv6_net_def)

lemma expand_private_entry_ok:
  "policy_entry_ok e \<Longrightarrow> e' \<in> set (expand_private_entry e) \<Longrightarrow> policy_entry_ok e' \<and> \<not> is_private e'"
  by (auto simp: expand_private_entry_def policy_entry_ok_def private_nets_ok split: if_splits)

lemma expand_private_ok:
  "policy_ok es \<Longrightarrow> list_all (\<lambda>e. policy_entry_ok e \<and> \<not> is_private e) (policy_expand_private es)"
  by (auto simp: policy_expand_private_def list_all_iff policy_ok_def dest: expand_private_entry_ok)

lemma expand_unspec_concrete:
  assumes "policy_entry_ok e" "\<not> is_private e" "e' \<in> set (expand_unspec_entry e)"
  shows "concrete e'"
  using assms by (cases "entry_addr e") (auto simp: expand_unspec_entry_def concrete_def policy_entry_ok_def Let_def)

lemma expand_concrete:
  "policy_ok es \<Longrightarrow> list_all concrete (policy_expand_unspec (policy_expand_private es))"
  using expand_private_ok [of es] expand_unspec_concrete
  by (auto simp: policy_expand_unspec_def list_all_iff)

lemma decide_append:
  "decide a port (es @ fs) = (case decide a port es of None \<Rightarrow> decide a port fs | Some t \<Rightarrow> Some t)"
  by (induction es) auto

lemma decide_append_Some: "decide a port es = Some t \<Longrightarrow> decide a port (es @ fs) = Some t"
  by (simp add: decide_append)

section \<open>The front of the policy\<close>

definition expanded :: "policy \<Rightarrow> policy" where
  "expanded es = policy_expand_unspec (policy_expand_private es)"

lemma expanded_ok: "policy_ok es \<Longrightarrow> policy_ok (expanded es)"
  using expand_concrete [of es] by (auto simp: expanded_def policy_ok_def list_all_iff concrete_def)

lemma append_string: "append_exit_policy_string dest es = Some (policy_entries dest @ expanded es)"
  by (simp add: append_exit_policy_string_def expanded_def)

text \<open>The entry that rejects an address of the relay, when there is one.\<close>

definition own_reject :: "tor_addr_t \<Rightarrow> addr_policy" where
  "own_reject a = entry ADDR_POLICY_REJECT a (if tor_addr_family a = AF_INET6 then 128 else 32) 1 65535"

definition own_entry :: "bool \<Rightarrow> bool \<Rightarrow> tor_addr_t \<Rightarrow> policy" where
  "own_entry ipv4_rules ipv6_rules a =
    (if tor_addr_is_public_for_reject a \<and>
        (tor_addr_is_v4 a \<and> ipv4_rules \<or> \<not> tor_addr_is_v4 a \<and> ipv6_rules)
     then [own_reject a] else [])"

definition own_entries :: "tor_addr_t list \<Rightarrow> bool \<Rightarrow> bool \<Rightarrow> policy" where
  "own_entries addrs ipv4_rules ipv6_rules = concat (map (own_entry ipv4_rules ipv6_rules) addrs)"

definition added :: "policy \<Rightarrow> policy option \<Rightarrow> policy option" where
  "added es dest = (if dest = None \<and> es = [] then None else Some (policy_entries dest @ es))"

lemma added_simps [simp]:
  "added [] dest = dest" "added fs (added es dest) = added (es @ fs) dest"
  "policy_entries (added es dest) = policy_entries dest @ es" "added es (Some l) = Some (l @ es)"
  by (cases dest; auto simp: added_def)+

lemma append_list_added:
  "addr_policy_append_reject_addr_list_filter dest addrs v4 v6 = added (own_entries addrs v4 v6) dest"
proof -
  have "addr_policy_append_reject_addr_filter v4 v6 dest a = added (own_entry v4 v6 a) dest" for dest a
    by (cases dest) (auto simp: addr_policy_append_reject_addr_filter_def own_entry_def own_reject_def
        addr_policy_append_reject_addr_def added_def)
  then show ?thesis
    unfolding addr_policy_append_reject_addr_list_filter_def own_entries_def
    by (induction addrs arbitrary: dest) simp_all
qed

definition front_entries :: "bool \<Rightarrow> bool \<Rightarrow> own_addresses \<Rightarrow> bool \<Rightarrow> bool \<Rightarrow> policy" where
  "front_entries ipv6_exit rejectprivate own interfaces ports =
    (if \<not> ipv6_exit then expanded [reject_star6] else [])
    @ (if rejectprivate then expanded [reject_private_star] else [])
    @ own_entries (configured_addresses own) True ipv6_exit
    @ (if ports then own_entries (port_addresses own) True ipv6_exit else [])
    @ (if interfaces then own_entries (interface_ipv4 own) True False else [])
    @ (if interfaces \<and> ipv6_exit then own_entries (interface_ipv6 own) False True else [])"

lemma exit_policy_front_eq:
  "exit_policy_front None ipv6_exit rejectprivate own interfaces ports =
    (if ipv6_exit \<and> \<not> rejectprivate \<and> front_entries ipv6_exit rejectprivate own interfaces ports = [] then None
     else Some (exit_policy_remove_redundancies (front_entries ipv6_exit rejectprivate own interfaces ports)))"
  by (simp add: exit_policy_front_def policies_parse_exit_policy_reject_private_def Let_def
      append_list_added append_string front_entries_def added_def)

lemma exit_policy_front_entries:
  "policy_entries (exit_policy_front None ipv6_exit rejectprivate own interfaces ports) =
    exit_policy_remove_redundancies (front_entries ipv6_exit rejectprivate own interfaces ports)"
  by (auto simp: exit_policy_front_eq exit_policy_remove_redundancies_def)

definition rejecting :: "policy \<Rightarrow> bool" where
  "rejecting es \<longleftrightarrow> (\<forall>e \<in> set es. policy_type e = ADDR_POLICY_REJECT)"

lemma rejecting_decide:
  "rejecting es \<Longrightarrow> e \<in> set es \<Longrightarrow> matches a port e \<Longrightarrow> decide a port es = Some ADDR_POLICY_REJECT"
  by (induction es) (auto simp: rejecting_def)

lemma rejecting_append [simp]:
  "rejecting []" "rejecting (es @ fs) \<longleftrightarrow> rejecting es \<and> rejecting fs"
  by (auto simp: rejecting_def)

lemma rejecting_expanded: "rejecting es \<Longrightarrow> rejecting (expanded es)"
  by (auto simp: rejecting_def expanded_def policy_expand_unspec_def policy_expand_private_def
      expand_unspec_entry_def expand_private_entry_def Let_def split: if_splits)

lemma own_entries_facts:
  "rejecting (own_entries addrs v4 v6)"
  "list_all addr_ok addrs \<Longrightarrow> policy_ok (own_entries addrs v4 v6)"
  by (induction addrs) (auto simp: own_entries_def own_entry_def own_reject_def rejecting_def entry_def policy_entry_ok_def)

definition own_ok :: "own_addresses \<Rightarrow> bool" where
  "own_ok own \<longleftrightarrow> list_all addr_ok (configured_addresses own @ port_addresses own
    @ interface_ipv4 own @ interface_ipv6 own)"

lemma star_facts:
  "policy_ok [reject_star6]" "policy_ok [reject_star4]" "policy_ok [reject_private_star]"
  "rejecting [reject_star6]" "rejecting [reject_private_star]"
  by (simp_all add: reject_star6_def reject_star4_def reject_private_star_def entry_def policy_entry_ok_def rejecting_def)

lemma front_facts:
  "rejecting (front_entries ipv6_exit rejectprivate own interfaces ports)"
  "own_ok own \<Longrightarrow> policy_ok (front_entries ipv6_exit rejectprivate own interfaces ports)"
  using expanded_ok [OF star_facts(1)] expanded_ok [OF star_facts(3)]
  by (simp_all add: front_entries_def own_entries_facts rejecting_expanded star_facts own_ok_def)

lemma front_decides:
  assumes "own_ok own" "addr_ok a" "1 \<le> port" "port \<le> 65535"
    "e \<in> set (front_entries ipv6_exit rejectprivate own interfaces ports)" "matches a port e"
  shows "decide a port (policy_entries (exit_policy_front None ipv6_exit rejectprivate own interfaces ports))
    = Some ADDR_POLICY_REJECT"
  unfolding exit_policy_front_entries
  using rejecting_decide [OF front_facts(1) assms(5,6)] assms
  by (simp add: remove_redundancies_decide front_facts)


lemma expanded_star6: "expanded [reject_star6] = [reject_star6]"
  by (simp add: expanded_def policy_expand_private_def expand_private_entry_def policy_expand_unspec_def
      expand_unspec_entry_def reject_star6_def entry_def)

lemma star6_matches:
  "tor_addr_family a = AF_INET6 \<Longrightarrow> addr_ok a \<Longrightarrow> 1 \<le> port \<Longrightarrow> port \<le> 65535 \<Longrightarrow> matches a port reject_star6"
  by (rule catch_all_matches) (simp_all add: is_catch_all_def reject_star6_def entry_def policy_entry_ok_def)

lemma private_families: "(n, m) \<in> set private_nets \<Longrightarrow> tor_addr_family n = AF_INET \<or> tor_addr_family n = AF_INET6"
  by (auto simp: private_nets_def ipv6_net_def)

lemma private_entry_in:
  assumes "(n, m) \<in> set private_nets"
  shows "entry ADDR_POLICY_REJECT n m 1 65535 \<in> set (expanded [reject_private_star])"
proof -
  have "entry ADDR_POLICY_REJECT n m 1 65535 \<in> set (expand_private_entry reject_private_star)"
    using assms by (force simp: expand_private_entry_def reject_private_star_def entry_def)
  moreover have "expand_unspec_entry (entry ADDR_POLICY_REJECT n m 1 65535) = [entry ADDR_POLICY_REJECT n m 1 65535]"
    using private_families [OF assms] by (auto simp: expand_unspec_entry_def entry_def)
  ultimately show ?thesis
    by (force simp: expanded_def policy_expand_private_def policy_expand_unspec_def)
qed

lemma own_entry_in:
  assumes "a \<in> set addrs" "tor_addr_is_public_for_reject a"
    "tor_addr_is_v4 a \<and> v4 \<or> \<not> tor_addr_is_v4 a \<and> v6"
  shows "own_reject a
    \<in> set (own_entries addrs v4 v6)"
  using assms by (force simp: own_entries_def own_entry_def)

lemma entry_matches:
  "1 \<le> port \<Longrightarrow> port \<le> 65535 \<Longrightarrow> same_net m a n \<Longrightarrow> matches a port (entry t n m 1 65535)"
  by (simp add: matches_def entry_def)

section \<open>The end of the policy\<close>

lemma parse_extends:
  assumes "parse_addr_policy cfg dest = Returns d"
  shows "\<exists>es. policy_entries d = policy_entries dest @ es \<and> ((\<forall>l. cfg = Lines l \<longrightarrow> policy_ok l) \<longrightarrow> policy_ok es)"
  using assms expanded_ok by (cases cfg) (auto simp: expanded_def)

lemma star_line_ok: "policy_ok (map (\<lambda>(lo, hi). star_entry t lo hi) ranges @ [star_entry t' 1 65535])"
  by (auto simp: policy_ok_def list_all_iff star_entry_def entry_def policy_entry_ok_def)

lemma constant_ok:
  "policy_ok (expanded DEFAULT_EXIT_POLICY)" "policy_ok (expanded REDUCED_EXIT_POLICY)"
  unfolding DEFAULT_EXIT_POLICY_def REDUCED_EXIT_POLICY_def by (intro expanded_ok star_line_ok)+

lemma end_extends:
  "\<exists>es. exit_policy_end d add_default add_reduced = Some (policy_entries d @ es) \<and> policy_ok es"
  using constant_ok expanded_ok [OF star_facts(1)] expanded_ok [OF star_facts(2)]
  by (auto simp: exit_policy_end_def append_string)

text \<open>A policy that the code builds starts, but for its redundant entries, with the front.\<close>

lemma internal_shape:
  assumes "policies_parse_exit_policy_internal cfg None ipv6_exit rejectprivate own interfaces ports
      add_default add_reduced = Returns (Some es)"
    "own_ok own" "\<forall>l. cfg = Lines l \<longrightarrow> policy_ok l"
  shows "\<exists>rest. policy_ok rest \<and> es = exit_policy_remove_redundancies
    (policy_entries (exit_policy_front None ipv6_exit rejectprivate own interfaces ports) @ rest)"
proof -
  let ?front = "exit_policy_front None ipv6_exit rejectprivate own interfaces ports"
  obtain d where d: "parse_addr_policy cfg ?front = Returns d"
    and es: "map_option exit_policy_remove_redundancies (exit_policy_end d add_default add_reduced) = Some es"
    using assms(1) by (auto simp: policies_parse_exit_policy_internal_def and_then_Returns_iff)
  obtain l where l: "policy_entries d = policy_entries ?front @ l" "policy_ok l"
    using parse_extends [OF d] assms(3) by blast
  obtain r where "exit_policy_end d add_default add_reduced = Some (policy_entries d @ r)" "policy_ok r"
    using end_extends by blast
  with es l show ?thesis by (intro exI [of _ "l @ r"]) simp
qed

lemma internal_decides:
  assumes "policies_parse_exit_policy_internal cfg None ipv6_exit rejectprivate own interfaces ports
      add_default add_reduced = Returns (Some es)"
    "own_ok own" "\<forall>l. cfg = Lines l \<longrightarrow> policy_ok l" "addr_ok a" "1 \<le> port" "port \<le> 65535"
    "e \<in> set (front_entries ipv6_exit rejectprivate own interfaces ports)" "matches a port e"
  shows "compare_known_tor_addr_to_addr_policy a port es = ADDR_POLICY_REJECTED"
proof -
  let ?front = "policy_entries (exit_policy_front None ipv6_exit rejectprivate own interfaces ports)"
  obtain rest where rest: "policy_ok rest" "es = exit_policy_remove_redundancies (?front @ rest)"
    using internal_shape [OF assms(1-3)] by blast
  have "decide a port (?front @ rest) = Some ADDR_POLICY_REJECT"
    by (rule decide_append_Some [OF front_decides [OF assms(2,4-8)]])
  moreover have "policy_ok (?front @ rest)"
    using rest(1) assms(2) by (simp add: exit_policy_front_entries remove_redundancies_ok front_facts)
  ultimately show ?thesis
    unfolding rest(2) using assms(4-6) by (simp add: known_decide remove_redundancies_decide del: policy_ok_simps)
qed

lemma own_in_front:
  assumes "tor_addr_is_public_for_reject a" "tor_addr_is_v4 a \<or> ipv6_exit"
    "a \<in> set (configured_addresses own) \<or> ports \<and> a \<in> set (port_addresses own)
      \<or> interfaces \<and> tor_addr_is_v4 a \<and> a \<in> set (interface_ipv4 own)
      \<or> interfaces \<and> \<not> tor_addr_is_v4 a \<and> a \<in> set (interface_ipv6 own)"
  shows "own_reject a \<in> set (front_entries ipv6_exit rejectprivate own interfaces ports)"
  using assms(2,3) own_entry_in [OF _ assms(1)] unfolding front_entries_def set_append Un_iff by auto

lemma exit_policy_rejects:
  assumes "policies_parse_exit_policy_internal cfg None ipv6_exit rejectprivate own interfaces ports
      add_default add_reduced = Returns (Some es)"
    "own_ok own" "\<forall>l. cfg = Lines l \<longrightarrow> policy_ok l" "addr_ok a" "1 \<le> port" "port \<le> 65535"
  shows "\<not> ipv6_exit \<Longrightarrow> tor_addr_family a = AF_INET6 \<Longrightarrow>
      compare_known_tor_addr_to_addr_policy a port es = ADDR_POLICY_REJECTED"
    and "rejectprivate \<Longrightarrow> (n, m) \<in> set private_nets \<Longrightarrow> same_net m a n \<Longrightarrow>
      compare_known_tor_addr_to_addr_policy a port es = ADDR_POLICY_REJECTED"
    and "tor_addr_is_public_for_reject a \<Longrightarrow> tor_addr_is_v4 a \<or> ipv6_exit \<Longrightarrow>
      a \<in> set (configured_addresses own) \<or> ports \<and> a \<in> set (port_addresses own)
        \<or> interfaces \<and> tor_addr_is_v4 a \<and> a \<in> set (interface_ipv4 own)
        \<or> interfaces \<and> \<not> tor_addr_is_v4 a \<and> a \<in> set (interface_ipv6 own) \<Longrightarrow>
      compare_known_tor_addr_to_addr_policy a port es = ADDR_POLICY_REJECTED"
proof -
  show "\<not> ipv6_exit \<Longrightarrow> tor_addr_family a = AF_INET6 \<Longrightarrow>
      compare_known_tor_addr_to_addr_policy a port es = ADDR_POLICY_REJECTED"
    by (rule internal_decides [OF assms, of reject_star6])
      (use assms(4-6) in \<open>simp_all only: front_entries_def expanded_star6 star6_matches set_append Un_iff
          if_True simp_thms list.set_intros\<close>)
  show "compare_known_tor_addr_to_addr_policy a port es = ADDR_POLICY_REJECTED"
    if "rejectprivate" "(n, m) \<in> set private_nets" "same_net m a n"
  proof (rule internal_decides [OF assms])
    show "entry ADDR_POLICY_REJECT n m 1 65535 \<in> set (front_entries ipv6_exit rejectprivate own interfaces ports)"
      using that(1) private_entry_in [OF that(2)] unfolding front_entries_def by simp
    show "matches a port (entry ADDR_POLICY_REJECT n m 1 65535)"
      by (rule entry_matches [OF assms(5,6) that(3)])
  qed
  let ?e = "own_reject a"
  show "compare_known_tor_addr_to_addr_policy a port es = ADDR_POLICY_REJECTED"
    if p: "tor_addr_is_public_for_reject a" "tor_addr_is_v4 a \<or> ipv6_exit"
      and own: "a \<in> set (configured_addresses own) \<or> ports \<and> a \<in> set (port_addresses own)
        \<or> interfaces \<and> tor_addr_is_v4 a \<and> a \<in> set (interface_ipv4 own)
        \<or> interfaces \<and> \<not> tor_addr_is_v4 a \<and> a \<in> set (interface_ipv6 own)"
  proof (rule internal_decides [OF assms, of ?e])
    show "?e \<in> set (front_entries ipv6_exit rejectprivate own interfaces ports)"
      by (rule own_in_front [OF p own])
    show "matches a port ?e" using assms(5,6) unfolding own_reject_def by (intro entry_matches same_net_refl)
  qed
qed


text \<open>C11: Whatever the operator writes in the lines of the exit policy, the policy a relay builds from them rejects at
  every port: every IPv6 address unless the relay exits to IPv6; if private networks are to be rejected (the
  default), every address of them; the relay's configured addresses that count as public; and, only with the
  option that rejects local interfaces and ports (off by default), those of its ports and of its interfaces. An IPv6
  address of the relay's own is meant only if the relay exits to IPv6, where the first case does not apply.\<close>

theorem exit_policy_always_rejects:
  assumes "policies_parse_exit_policy_internal cfg None ipv6_exit rejectprivate own interfaces ports
      add_default add_reduced = Returns (Some es)"
    "own_ok own" "\<forall>l. cfg = Lines l \<longrightarrow> policy_ok l" "addr_ok a" "1 \<le> port" "port \<le> 65535"
    and "\<not> ipv6_exit \<and> tor_addr_family a = AF_INET6
      \<or> rejectprivate \<and> (\<exists>(n, m) \<in> set private_nets. same_net m a n)
      \<or> tor_addr_is_public_for_reject a \<and> (tor_addr_is_v4 a \<or> ipv6_exit) \<and>
        (a \<in> set (configured_addresses own) \<or> ports \<and> a \<in> set (port_addresses own)
          \<or> interfaces \<and> tor_addr_is_v4 a \<and> a \<in> set (interface_ipv4 own)
          \<or> interfaces \<and> \<not> tor_addr_is_v4 a \<and> a \<in> set (interface_ipv6 own))"
  shows "compare_known_tor_addr_to_addr_policy a port es = ADDR_POLICY_REJECTED"
  using exit_policy_rejects [OF assms(1-6)] assms(7) by blast

section \<open>A policy to try\<close>

text \<open>The operator accepts everything; the relay's own address is in the block shared by providers.\<close>

definition accept_star :: addr_policy where
  "accept_star = star_entry ADDR_POLICY_ACCEPT 1 65535"

definition shared_address :: tor_addr_t where
  "shared_address = Inet 0x64400001"

definition sample_own :: own_addresses where
  "sample_own = \<lparr>configured_addresses = [shared_address, Inet 0x08080404], port_addresses = [],
    interface_ipv4 = [], interface_ipv6 = []\<rparr>"

definition sample_exit :: "policy option assertable" where
  "sample_exit = policies_parse_exit_policy_internal (Lines [accept_star]) None False True sample_own
    False False False False"

definition sample_entries :: policy where
  "sample_entries =
    exit_policy_remove_redundancies (exit_policy_remove_redundancies (front_entries False True sample_own False False)
      @ expanded [accept_star] @ expanded [reject_star4] @ expanded [reject_star6])"

lemma sample_exit_eq: "sample_exit = Returns (Some sample_entries)"
  by (simp add: sample_exit_def policies_parse_exit_policy_internal_def exit_policy_front_eq exit_policy_end_def
      append_string policies_log_first_redundant_entry_def sample_entries_def flip: expanded_def)

lemma sample_ok: "own_ok sample_own" "policy_ok [accept_star]"
  by (simp_all add: own_ok_def sample_own_def shared_address_def accept_star_def star_entry_def entry_def policy_entry_ok_def)

lemma sample_decide:
  assumes "addr_ok a" "1 \<le> port" "port \<le> 65535"
  shows "decide a port sample_entries = decide a port (front_entries False True sample_own False False
    @ expanded [accept_star] @ expanded [reject_star4] @ expanded [reject_star6])"
proof -
  have e: "policy_ok (expanded [accept_star])" "policy_ok (expanded [reject_star4])" "policy_ok (expanded [reject_star6])"
    by (intro expanded_ok star_facts sample_ok)+
  show ?thesis
    unfolding sample_entries_def using assms e
    by (simp add: remove_redundancies_decide remove_redundancies_ok front_facts sample_ok decide_append)
qed

lemma sample_answers:
  "compare_known_tor_addr_to_addr_policy shared_address 80 sample_entries = ADDR_POLICY_ACCEPTED"
  "compare_known_tor_addr_to_addr_policy (Inet 0x08080808) 80 sample_entries = ADDR_POLICY_ACCEPTED"
proof -
  let ?es = "front_entries False True sample_own False False
    @ expanded [accept_star] @ expanded [reject_star4] @ expanded [reject_star6]"
  have "decide shared_address 80 ?es = Some ADDR_POLICY_ACCEPT" "decide (Inet 0x08080808) 80 ?es = Some ADDR_POLICY_ACCEPT"
    by code_simp+
  then show "compare_known_tor_addr_to_addr_policy shared_address 80 sample_entries = ADDR_POLICY_ACCEPTED"
    "compare_known_tor_addr_to_addr_policy (Inet 0x08080808) 80 sample_entries = ADDR_POLICY_ACCEPTED"
    by (simp_all add: known_decide sample_decide shared_address_def)
qed


text \<open>The addresses of the relay that are not public are left to the entries for private networks.
  The block \<^verbatim>\<open>100.64.0.0/10\<close> is internal for one test and not among the private networks of the
  other: a relay told to reject private addresses and its own, whose own address is in that block,
  accepts connections to itself.\<close>

theorem shared_address_accepted:
  "tor_addr_is_internal shared_address False \<and> shared_address \<in> set (configured_addresses sample_own)
    \<and> (\<exists>es. policies_parse_exit_policy_internal (Lines [accept_star]) None False True sample_own
          False False False False = Returns (Some es)
        \<and> compare_known_tor_addr_to_addr_policy shared_address 80 es = ADDR_POLICY_ACCEPTED)"
proof (intro conjI exI)
  show "tor_addr_is_internal shared_address False" by code_simp
  show "shared_address \<in> set (configured_addresses sample_own)" by (simp add: sample_own_def)
  show "policies_parse_exit_policy_internal (Lines [accept_star]) None False True sample_own
      False False False False = Returns (Some sample_entries)"
    using sample_exit_eq by (simp only: sample_exit_def)
  show "compare_known_tor_addr_to_addr_policy shared_address 80 sample_entries = ADDR_POLICY_ACCEPTED"
    by (rule sample_answers)
qed

section \<open>Without IPv6\<close>

lemma unreachable_drops:
  "e \<in> set (remove_unreachable v4 v6 es) \<Longrightarrow> v6 \<Longrightarrow> tor_addr_family (entry_addr e) \<noteq> AF_INET6"
  by (induction es arbitrary: v4) (auto simp: Let_def split: if_splits)

lemma covered_subset: "set (remove_covered es) \<subseteq> set es"
  by (induction es rule: remove_covered.induct) auto

lemma covered_later_family:
  "covered_later e es \<Longrightarrow> \<exists>t \<in> set es. tor_addr_family (entry_addr t) = tor_addr_family (entry_addr e)"
  by (induction es) (auto simp: addr_policy_covers_def split: if_splits)

lemma star6_stays: "\<exists>es'. exit_policy_remove_redundancies (reject_star6 # es) = reject_star6 # es'"
proof -
  let ?u = "remove_unreachable False True es"
  let ?c = "remove_covered (filter (\<lambda>t. \<not> addr_policy_covers reject_star6 t) ?u)"
  have f: "tor_addr_family (entry_addr reject_star6) = AF_INET6" "is_catch_all reject_star6"
    by (simp_all add: reject_star6_def entry_def is_catch_all_def)
  have "\<not> covered_later reject_star6 ?c"
  proof
    assume "covered_later reject_star6 ?c"
    then obtain t where "t \<in> set ?u" "tor_addr_family (entry_addr t) = AF_INET6"
      using covered_later_family [of reject_star6 ?c] covered_subset f(1) by fastforce
    then show False using unreachable_drops by blast
  qed
  then show ?thesis by (simp add: exit_policy_remove_redundancies_def f)
qed

text \<open>C33: An entry with no address bits is taken to cover every address, also those of the other family.
  A relay that does not exit to IPv6 puts a rejection of all IPv6 addresses first, and from then on
  its policy answers for an unknown address, at every port, that the connection is definitely
  rejected, whatever it accepts for IPv4.\<close>

theorem unknown_address_rejected:
  assumes "policies_parse_exit_policy_internal cfg None False rejectprivate own interfaces ports
      add_default add_reduced = Returns (Some es)"
    and "1 \<le> port" "port \<le> 65535" "own_ok own" "\<forall>l. cfg = Lines l \<longrightarrow> policy_ok l"
  shows "compare_tor_addr_to_addr_policy None port (Some es) = ADDR_POLICY_REJECTED"
proof -
  obtain fs where fs: "policy_entries (exit_policy_front None False rejectprivate own interfaces ports)
      = reject_star6 # fs"
    using star6_stays by (auto simp: exit_policy_front_entries front_entries_def expanded_star6)
  obtain rest where "es = exit_policy_remove_redundancies (reject_star6 # fs @ rest)"
    using internal_shape [OF assms(1,4,5)] fs by auto
  then obtain es' where "es = reject_star6 # es'" using star6_stays by blast
  then show ?thesis
    using assms(2,3) by (simp add: compare_tor_addr_to_addr_policy_def
        compare_unknown_tor_addr_to_addr_policy_def reject_star6_def entry_def)
qed

theorem unknown_address_rejected_witness:
  "\<exists>es. sample_exit = Returns (Some es)
    \<and> compare_tor_addr_to_addr_policy None 80 (Some es) = ADDR_POLICY_REJECTED
    \<and> compare_tor_addr_to_addr_policy (Some (Inet 0x08080808)) 80 (Some es) = ADDR_POLICY_ACCEPTED"
proof (intro exI conjI)
  show "sample_exit = Returns (Some sample_entries)" by (rule sample_exit_eq)
  show "compare_tor_addr_to_addr_policy None 80 (Some sample_entries) = ADDR_POLICY_REJECTED"
    using unknown_address_rejected [OF sample_exit_eq [unfolded sample_exit_def], of 80] sample_ok by simp
  show "compare_tor_addr_to_addr_policy (Some (Inet 0x08080808)) 80 (Some sample_entries) = ADDR_POLICY_ACCEPTED"
    using sample_answers(2) by (simp add: compare_tor_addr_to_addr_policy_def)
qed

theorem exit_policy_always_rejects_witness:
  "compare_known_tor_addr_to_addr_policy loopback6 80 sample_entries = ADDR_POLICY_REJECTED
    \<and> compare_known_tor_addr_to_addr_policy (Inet 0x0a010203) 80 sample_entries = ADDR_POLICY_REJECTED
    \<and> compare_known_tor_addr_to_addr_policy (Inet 0x08080404) 80 sample_entries = ADDR_POLICY_REJECTED"
proof (intro conjI)
  note internal = sample_exit_eq [unfolded sample_exit_def]
  have cfg: "\<forall>l. Lines [accept_star] = Lines l \<longrightarrow> policy_ok l" using sample_ok(2) by simp
  note rejects = exit_policy_always_rejects [OF internal sample_ok(1) cfg, of _ 80]
  show "compare_known_tor_addr_to_addr_policy loopback6 80 sample_entries = ADDR_POLICY_REJECTED"
    by (rule rejects) (simp_all add: loopback6_def)
  have "\<exists>(n, m) \<in> set private_nets. same_net m (Inet 0x0a010203) n"
    by (rule bexI [of _ "(Inet 0x0a000000, 8)"]) (simp_all add: private_nets_def)
  then show "compare_known_tor_addr_to_addr_policy (Inet 0x0a010203) 80 sample_entries = ADDR_POLICY_REJECTED"
    by (intro rejects disjI2 [OF disjI1] conjI) simp_all
  have "tor_addr_is_public_for_reject (Inet 0x08080404)" by code_simp
  then show "compare_known_tor_addr_to_addr_policy (Inet 0x08080404) 80 sample_entries = ADDR_POLICY_REJECTED"
    by (intro rejects) (simp_all add: sample_own_def)
qed

section \<open>The warning about redundant lines\<close>

lemma concrete_no_wildcard: "list_all concrete es \<Longrightarrow> first_redundant_from i n es = None"
  by (induction es arbitrary: i) (auto simp: concrete_def Let_def)


lemma redundancies_subset: "set (exit_policy_remove_redundancies es) \<subseteq> set es"
proof -
  have u: "set (remove_unreachable v4 v6 fs) \<subseteq> set fs" for v4 v6 fs
    by (induction fs arbitrary: v4 v6) (auto simp: Let_def)
  have l: "set (remove_covered_later fs) \<subseteq> set fs" for fs
    by (induction fs) auto
  show ?thesis
    unfolding exit_policy_remove_redundancies_def using u l covered_subset by (meson order_trans)
qed

lemma own_entries_concrete: "list_all addr_ok addrs \<Longrightarrow> list_all concrete (own_entries addrs v4 v6)"
proof (induction addrs)
  case (Cons a addrs)
  then show ?case
    by (cases a) (auto simp: own_entries_def own_entry_def own_reject_def entry_def concrete_def policy_entry_ok_def
        tor_addr_is_public_for_reject_def)
qed (simp add: own_entries_def)

lemma front_concrete:
  assumes "own_ok own"
  shows "list_all concrete (front_entries ipv6_exit rejectprivate own interfaces ports)"
  using assms expand_concrete [OF star_facts(1)] expand_concrete [OF star_facts(3)]
  by (simp add: front_entries_def own_ok_def own_entries_concrete flip: expanded_def)

text \<open>C40: The warning for lines after a wildcard for both families never comes: a line with such a
  wildcard has become one entry for each family before the search, and the search forgets what it
  found after each entry.\<close>

theorem redundancy_warning_silent:
  assumes "own_ok own" "\<forall>l. cfg = Lines l \<longrightarrow> policy_ok l"
    and "parse_addr_policy cfg (exit_policy_front None ipv6_exit rejectprivate own interfaces ports) = Returns (Some d)"
  shows "policies_log_first_redundant_entry (Some d) = Returns None"
proof -
  let ?front = "policy_entries (exit_policy_front None ipv6_exit rejectprivate own interfaces ports)"
  have front: "list_all concrete ?front"
    unfolding exit_policy_front_entries list_all_iff
    using front_concrete [OF assms(1), unfolded list_all_iff] redundancies_subset by blast
  have "list_all concrete d"
  proof (cases cfg)
    case No_lines
    then have "?front = d" using assms(3) by simp
    with front show ?thesis by simp
  next
    case Malformed
    with assms(3) show ?thesis by simp
  next
    case (Lines l)
    then have "d = ?front @ policy_expand_unspec (policy_expand_private l)" using assms(3) by simp
    moreover have "policy_ok l" using assms(2) Lines by simp
    ultimately show ?thesis using front expand_concrete by simp
  qed
  then show ?thesis by (simp add: policies_log_first_redundant_entry_def concrete_no_wildcard)
qed

theorem redundancy_warning_silent_witness:
  "\<exists>d. parse_addr_policy (Lines [accept_star, entry ADDR_POLICY_REJECT (Inet 0x01020304) 32 1 65535])
      (exit_policy_front None True False sample_own False False) = Returns (Some d)
    \<and> policies_log_first_redundant_entry (Some d) = Returns None"
proof -
  let ?l = "[accept_star, entry ADDR_POLICY_REJECT (Inet 0x01020304) 32 1 65535]"
  have ok: "\<forall>l. Lines ?l = Lines l \<longrightarrow> policy_ok l"
    by (simp add: accept_star_def star_entry_def entry_def policy_entry_ok_def)
  obtain d where d: "parse_addr_policy (Lines ?l) (exit_policy_front None True False sample_own False False)
      = Returns (Some d)" by simp
  from redundancy_warning_silent [OF sample_ok(1) ok d] d show ?thesis by blast
qed

section \<open>Options that leave no policy\<close>

text \<open>The entries of the relay's own addresses under options that do not reject private networks.\<close>

definition local_entries :: "exit_options \<Rightarrow> own_addresses \<Rightarrow> policy" where
  "local_entries opt own =
    (if ExitPolicyRejectLocalInterfaces opt then
       own_entries (policies_copy_outbound_addresses_to_smartlist [] opt) True True
       @ own_entries (port_addresses own) True True
       @ own_entries (interface_ipv4 own) True False @ own_entries (interface_ipv6 own) False True
     else [])"

lemma end_not_None: "exit_policy_end d add_default add_reduced \<noteq> None"
  by (simp add: exit_policy_end_def append_string)

lemma parse_aborts: "parse_addr_policy cfg d \<noteq> Aborts"
  by (cases cfg) auto

lemma internal_aborts:
  "policies_parse_exit_policy_internal cfg None ipv6_exit rejectprivate own interfaces ports add_default add_reduced
      = Aborts
    \<longleftrightarrow> cfg = No_lines \<and> exit_policy_front None ipv6_exit rejectprivate own interfaces ports = None"
  by (cases cfg) (auto simp: policies_parse_exit_policy_internal_def policies_log_first_redundant_entry_def
      split: option.splits)

text \<open>C32: The search for redundant lines asserts that there is a policy. A relay that is told to exit
  to IPv6, not to reject private addresses and not its interfaces, and that gives no lines of its
  own, has none at that point and stops at the assertion; these are, but for interfaces without a
  public address, the only options that do.\<close>

theorem empty_exit_policy_aborts:
  "(policies_parse_exit_policy_from_options opt own ipv4 ipv6 None = Aborts
    \<longleftrightarrow> ExitRelay opt \<noteq> 0 \<and> ExitPolicy opt = No_lines \<and> IPv6Exit opt \<and> \<not> ExitPolicyRejectPrivate opt
      \<and> local_entries opt own = [])
    \<and> policies_parse_exit_policy_from_options
      (opt\<lparr>ExitRelay := 1, ExitPolicy := No_lines, IPv6Exit := True, ExitPolicyRejectPrivate := False,
        ExitPolicyRejectLocalInterfaces := False\<rparr>) own ipv4 ipv6 None = Aborts"
proof (intro conjI)
  show *: "policies_parse_exit_policy_from_options opt own ipv4 ipv6 None = Aborts
    \<longleftrightarrow> ExitRelay opt \<noteq> 0 \<and> ExitPolicy opt = No_lines \<and> IPv6Exit opt \<and> \<not> ExitPolicyRejectPrivate opt
      \<and> local_entries opt own = []" for opt
    by (cases "ExitPolicyRejectLocalInterfaces opt")
      (auto simp: policies_parse_exit_policy_from_options_def policies_parse_exit_policy_def internal_aborts
        exit_policy_front_eq front_entries_def local_entries_def exit_configured_addresses_def
        policy_using_default_exit_options_def own_entries_def)
  show "policies_parse_exit_policy_from_options
      (opt\<lparr>ExitRelay := 1, ExitPolicy := No_lines, IPv6Exit := True, ExitPolicyRejectPrivate := False,
        ExitPolicyRejectLocalInterfaces := False\<rparr>) own ipv4 ipv6 None = Aborts"
    unfolding * by (simp add: local_entries_def)
qed

end
