(* ===== verification/PolicySummary.thy ===== *)
theory PolicySummary
  imports Policies CText
begin

text \<open>
  Exit policy summaries, \<^verbatim>\<open>src/core/or/policies.c\<close>: the table of port ranges that a relay's policy
  is reduced to, the line printed from it, and the short policies that clients parse from such
  lines and compare ports with.
\<close>

section \<open>The table of port ranges\<close>

record policy_summary_item =
  item_min :: nat
  item_max :: nat
  reject_count :: nat
  accepted :: bool

type_synonym policy_summary = "policy_summary_item list"

definition policy_summary_create :: policy_summary where
  "policy_summary_create = [\<lparr>item_min = 1, item_max = 65535, reject_count = 0, accepted = False\<rparr>]"

text \<open>The old item up to \<^verbatim>\<open>new_starts - 1\<close> and the new one; the assertions want both to be ranges.\<close>

definition policy_summary_item_split ::
    "policy_summary_item \<Rightarrow> nat \<Rightarrow> (policy_summary_item \<times> policy_summary_item) option" where
  "policy_summary_item_split old new_starts =
    (let cut = (new_starts + 65535) mod 65536 in
     if item_min old \<le> cut \<and> new_starts \<le> item_max old
     then Some (old\<lparr>item_max := cut\<rparr>, old\<lparr>item_min := new_starts\<rparr>) else None)"

text \<open>A position in the table is the items before it and the items from it on; to run past the end is
  a failure. The first loop looks for the item in which the range starts, the second one for the
  item in which it ends.\<close>

fun split_start :: "nat \<Rightarrow> policy_summary \<Rightarrow> (policy_summary \<times> policy_summary) option" where
  "split_start lo [] = None"
| "split_start lo (it # s) =
    (if item_max it < lo then map_option (\<lambda>(before, from). (it # before, from)) (split_start lo s)
     else if item_min it \<noteq> lo
       then map_option (\<lambda>(old, new). ([old], new # s)) (policy_summary_item_split it lo)
     else Some ([], it # s))"

fun split_end :: "nat \<Rightarrow> policy_summary \<Rightarrow> policy_summary option" where
  "split_end hi [] = None"
| "split_end hi (it # s) =
    (if item_max it < hi then map_option ((#) it) (split_end hi s)
     else if item_max it \<noteq> hi
       then map_option (\<lambda>(old, new). old # new # s) (policy_summary_item_split it ((hi + 1) mod 65536))
     else Some (it # s))"

definition policy_summary_split ::
    "policy_summary \<Rightarrow> nat \<Rightarrow> nat \<Rightarrow> (policy_summary \<times> policy_summary) option" where
  "policy_summary_split summary lo hi =
    Option.bind (split_start lo summary) (\<lambda>(before, from).
    map_option (\<lambda>s. (before, s)) (split_end hi from))"

text \<open>The loop over the items of the range; the final assertion wants an item after them unless the
  range goes to the last port.\<close>

fun update_range :: "(policy_summary_item \<Rightarrow> policy_summary_item) \<Rightarrow> nat \<Rightarrow> policy_summary \<Rightarrow> policy_summary" where
  "update_range f hi [] = []"
| "update_range f hi (it # s) = (if item_max it \<le> hi then f it # update_range f hi s else it # s)"

fun item_after :: "nat \<Rightarrow> policy_summary \<Rightarrow> bool" where
  "item_after hi [] \<longleftrightarrow> False"
| "item_after hi (it # s) \<longleftrightarrow> (if item_max it \<le> hi then item_after hi s else True)"

definition finish_range ::
    "(policy_summary_item \<Rightarrow> policy_summary_item) \<Rightarrow> nat \<Rightarrow> policy_summary \<times> policy_summary \<Rightarrow> policy_summary option" where
  "finish_range f hi = (\<lambda>(before, from).
    if item_after hi from \<or> hi = 65535 then Some (before @ update_range f hi from) else None)"

definition REJECT_CUTOFF_COUNT :: "nat \<Rightarrow> nat" where
  "REJECT_CUTOFF_COUNT family = (if family = AF_INET then 2 ^ (32 - 0 - 7) else 2 ^ (128 - 64 - 16))"

definition accept_item :: "nat \<Rightarrow> policy_summary_item \<Rightarrow> policy_summary_item" where
  "accept_item family it =
    (if \<not> accepted it \<and> reject_count it \<le> REJECT_CUTOFF_COUNT family then it\<lparr>accepted := True\<rparr> else it)"

definition policy_summary_accept :: "policy_summary \<Rightarrow> nat \<Rightarrow> nat \<Rightarrow> nat \<Rightarrow> policy_summary option" where
  "policy_summary_accept summary lo hi family =
    Option.bind (policy_summary_split summary lo hi) (finish_range (accept_item family) hi)"

text \<open>\<^verbatim>\<open>UINT64_MAX\<close> as a count.\<close>

abbreviation COUNT_MAX :: nat where "COUNT_MAX \<equiv> 18446744073709551615"

text \<open>What a network of an IPv4 or IPv6 prefix counts; \<^verbatim>\<open>None\<close> for an IPv6 network that is too small.\<close>

definition network_count :: "nat \<Rightarrow> nat \<Rightarrow> nat option" where
  "network_count family bits =
    (let addrbits = (if family = AF_INET then 32 else 128); scale = (if family = AF_INET then 0 else 64) in
     if addrbits - scale < bits then None
     else if 64 \<le> addrbits - scale - bits then Some COUNT_MAX
     else Some (2 ^ (addrbits - scale - bits)))"

definition reject_item :: "nat \<Rightarrow> policy_summary_item \<Rightarrow> policy_summary_item" where
  "reject_item n it =
    (if reject_count it \<le> COUNT_MAX - n then it\<lparr>reject_count := reject_count it + n\<rparr>
     else it\<lparr>reject_count := COUNT_MAX\<rparr>)"

definition policy_summary_reject :: "policy_summary \<Rightarrow> nat \<Rightarrow> nat \<Rightarrow> nat \<Rightarrow> nat \<Rightarrow> policy_summary option" where
  "policy_summary_reject summary bits lo hi family =
    Option.bind (policy_summary_split summary lo hi) (\<lambda>(before, from).
    case network_count family bits of
      None \<Rightarrow> Some (before @ from)
    | Some n \<Rightarrow> finish_range (reject_item n) hi (before, from))"

definition is_private_net :: "addr_policy \<Rightarrow> bool" where
  "is_private_net p \<longleftrightarrow>
    list_ex (\<lambda>net. tor_addr_compare (entry_addr p) (fst net) CMP_EXACT = 0 \<and> maskbits p = snd net) private_nets"

definition policy_summary_add_item :: "policy_summary \<Rightarrow> addr_policy \<Rightarrow> policy_summary option" where
  "policy_summary_add_item summary p =
    (case policy_type p of
       ADDR_POLICY_ACCEPT \<Rightarrow>
         if maskbits p = 0
         then policy_summary_accept summary (prt_min p) (prt_max p) (tor_addr_family (entry_addr p))
         else Some summary
     | ADDR_POLICY_REJECT \<Rightarrow>
         if \<not> is_private_net p
         then policy_summary_reject summary (maskbits p) (prt_min p) (prt_max p) (tor_addr_family (entry_addr p))
         else Some summary)"

fun summary_of :: "nat \<Rightarrow> policy_summary \<Rightarrow> policy \<Rightarrow> policy_summary option" where
  "summary_of family summary [] = Some summary"
| "summary_of family summary (p # ps) =
    (if tor_addr_family (entry_addr p) \<noteq> family then summary_of family summary ps
     else Option.bind (policy_summary_add_item summary p) (\<lambda>s. summary_of family s ps))"

section \<open>The line\<close>

text \<open>Neighbouring items with one verdict are merged: the verdict, the first and the last port.\<close>

fun merged_ranges :: "nat \<Rightarrow> policy_summary \<Rightarrow> (bool \<times> nat \<times> nat) list" where
  "merged_ranges start_prt [] = []"
| "merged_ranges start_prt [it] = [(accepted it, start_prt, item_max it)]"
| "merged_ranges start_prt (it # it' # s) =
    (if accepted it \<noteq> accepted it'
     then (accepted it, start_prt, item_max it) # merged_ranges (item_min it') (it' # s)
     else merged_ranges start_prt (it' # s))"

definition range_string :: "nat \<Rightarrow> nat \<Rightarrow> string" where
  "range_string lo hi = (if lo = hi then show_nat lo else show_nat lo @ ''-'' @ show_nat hi)"

definition ranges_with :: "bool \<Rightarrow> (bool \<times> nat \<times> nat) list \<Rightarrow> (nat \<times> nat) list" where
  "ranges_with b rs = map snd (filter (\<lambda>r. fst r = b) rs)"

definition range_strings :: "(nat \<times> nat) list \<Rightarrow> string list" where
  "range_strings rs = map (\<lambda>r. range_string (fst r) (snd r)) rs"

abbreviation MAX_EXITPOLICY_SUMMARY_LEN :: nat where "MAX_EXITPOLICY_SUMMARY_LEN \<equiv> 1000"

text \<open>The walk back to a comma: where it stops, or a failed assertion at the start of the string.\<close>

fun last_comma :: "string \<Rightarrow> nat \<Rightarrow> nat option" where
  "last_comma s 0 = (if s ! 0 = CHR '','' then Some 0 else None)"
| "last_comma s (Suc c) = (if s ! Suc c = CHR '','' then Some (Suc c) else last_comma s c)"

definition summary_line :: "(nat \<times> nat) list \<Rightarrow> (nat \<times> nat) list \<Rightarrow> string option" where
  "summary_line accepts rejects =
    (if accepts = [] then Some ''reject 1-65535''
     else if rejects = [] then Some ''accept 1-65535''
     else
       let accepts_str = smartlist_join_strings (range_strings accepts) '','' False;
           rejects_str = smartlist_join_strings (range_strings rejects) '','' False in
       if MAX_EXITPOLICY_SUMMARY_LEN - 6 - 1 < length rejects_str
          \<and> MAX_EXITPOLICY_SUMMARY_LEN - 6 - 1 < length accepts_str
       then map_option (\<lambda>c. ''accept '' @ take c accepts_str)
              (last_comma accepts_str (MAX_EXITPOLICY_SUMMARY_LEN - 6 - 1))
       else if length rejects_str < length accepts_str then Some (''reject '' @ rejects_str)
       else Some (''accept '' @ accepts_str))"

definition policy_summarize :: "policy \<Rightarrow> nat \<Rightarrow> string option" where
  "policy_summarize policy family =
    Option.bind (summary_of family policy_summary_create policy) (\<lambda>summary.
    let rs = merged_ranges 1 summary in summary_line (ranges_with True rs) (ranges_with False rs))"

section \<open>Short policies\<close>

record short_policy =
  is_accept :: bool
  entries :: "(nat \<times> nat) list"

definition tor_parse_ulong :: "string \<Rightarrow> nat \<Rightarrow> nat \<Rightarrow> nat \<times> bool \<times> string" where
  "tor_parse_ulong s mn mx =
    (case check_strtox s (int mn) (int mx) True (strtoull10 s) of (v, ok, rest) \<Rightarrow> (nat v, ok, rest))"

text \<open>One turn of the loop: a bad entry, an entry of an unknown format (what is left after its comma,
  or \<^verbatim>\<open>None\<close> when it is the last one), or a range and what is left.\<close>

datatype short_step = Bad_ent | Skip_ent "string option" | Range_ent nat nat string

definition after_comma :: "string \<Rightarrow> string option" where
  "after_comma s = (case dropWhile (\<lambda>c. c \<noteq> CHR '','') s of [] \<Rightarrow> None | _ # t \<Rightarrow> Some t)"

fun parse_high :: "nat \<Rightarrow> nat \<times> bool \<times> string \<Rightarrow> short_step" where
  "parse_high low (high, ok, rest) =
    (if \<not> ok then Bad_ent
     else case rest of
        [] \<Rightarrow> Range_ent low high []
      | c # t \<Rightarrow> if c = CHR '','' then Range_ent low high t else Bad_ent)"

fun parse_low :: "string \<Rightarrow> nat \<times> bool \<times> string \<Rightarrow> short_step" where
  "parse_low summary (low, ok, rest) =
    (if \<not> ok then
       (case summary of
          [] \<Rightarrow> Skip_ent (after_comma rest)
        | c # _ \<Rightarrow> if \<not> TOR_ISDIGIT c \<or> c = CHR '','' then Skip_ent (after_comma rest) else Bad_ent)
     else case rest of
        [] \<Rightarrow> Range_ent low low []
      | c # t \<Rightarrow>
          if c = CHR '','' then Range_ent low low t
          else if c = CHR ''-'' then parse_high low (tor_parse_ulong t low 65535)
          else Bad_ent)"

definition short_entry :: "string \<Rightarrow> short_step" where
  "short_entry summary = parse_low summary (tor_parse_ulong summary 1 65535)"

lemma strto_rest_shorter: "strto_parts s = (neg, ds, rest) \<Longrightarrow> length rest \<le> length s"
proof -
  assume p: "strto_parts s = (neg, ds, rest)"
  define t where "t = dropWhile TOR_ISSPACE s"
  have t: "length t \<le> length s" unfolding t_def by (rule length_dropWhile_le)
  have "rest = dropWhile TOR_ISDIGIT t \<or> rest = dropWhile TOR_ISDIGIT (tl t)"
    using p unfolding strto_parts_def t_def [symmetric] Let_def
    by (cases t) (simp_all split: if_splits)
  then have "length rest \<le> length t"
    using length_dropWhile_le [of TOR_ISDIGIT t] length_dropWhile_le [of TOR_ISDIGIT "tl t"]
    by (cases t) (elim disjE, simp_all)+
  then show ?thesis using t by simp
qed

lemma parse_ulong_shorter: "tor_parse_ulong s mn mx = (v, ok, rest) \<Longrightarrow> length rest \<le> length s"
proof -
  assume *: "tor_parse_ulong s mn mx = (v, ok, rest)"
  obtain neg ds u where p: "strto_parts s = (neg, ds, u)" by (cases "strto_parts s") auto
  obtain r e er where e: "strtoull10 s = (r, e, er)" by (cases "strtoull10 s") auto
  then have "e = s \<or> e = u" by (auto simp: strtoull10_def p Let_def split: if_splits)
  moreover have "rest = e" using * by (auto simp: tor_parse_ulong_def e check_strtox_def split: if_splits)
  ultimately show ?thesis using strto_rest_shorter [OF p] by auto
qed

lemma after_comma_shorter: "after_comma s = Some t \<Longrightarrow> length t < length s"
proof -
  assume "after_comma s = Some t"
  then obtain c where "dropWhile (\<lambda>c. c \<noteq> CHR '','') s = c # t"
    by (auto simp: after_comma_def split: list.splits)
  then show ?thesis using length_dropWhile_le [of "\<lambda>c. c \<noteq> CHR '',''" s] by simp
qed

lemma parse_high_shorter: "parse_high low (high, ok, rest) = Range_ent a b t \<Longrightarrow> rest = [] \<and> t = [] \<or> length t < length rest"
  by (auto split: if_splits list.splits)

lemma short_entry_shorter:
  "short_entry s = Skip_ent (Some t) \<Longrightarrow> length t < length s"
  "short_entry s = Range_ent lo hi t \<Longrightarrow> s \<noteq> [] \<Longrightarrow> length t < length s"
proof -
  obtain v ok rest where p: "tor_parse_ulong s 1 65535 = (v, ok, rest)" by (cases "tor_parse_ulong s 1 65535")
  have le: "length rest \<le> length s" using parse_ulong_shorter [OF p] .
  have nohigh: "parse_high a x \<noteq> Skip_ent y" for a x y
    by (cases x) (auto split: list.splits)
  show "length t < length s" if "short_entry s = Skip_ent (Some t)"
    using that le after_comma_shorter [of rest t]
    by (auto simp: short_entry_def p nohigh simp del: One_nat_def split: if_splits list.splits)
  show "length t < length s" if "short_entry s = Range_ent lo hi t" "s \<noteq> []"
  proof (cases rest)
    case Nil
    with that show ?thesis by (auto simp: short_entry_def p simp del: One_nat_def split: if_splits list.splits)
  next
    case (Cons c u)
    obtain h ok' r where h: "tor_parse_ulong u v 65535 = (h, ok', r)" by (cases "tor_parse_ulong u v 65535")
    show ?thesis
      using that(1) Cons le parse_ulong_shorter [OF h] parse_high_shorter [of v h ok' r lo hi t]
      by (auto simp: short_entry_def p h simp del: parse_high.simps One_nat_def split: if_splits list.splits)
  qed
qed

function parse_short_loop :: "nat \<Rightarrow> string \<Rightarrow> (nat \<times> nat) list option" where
  "parse_short_loop n_entries summary =
    (if summary = [] then Some []
     else if n_entries = MAX_EXITPOLICY_SUMMARY_LEN then None
     else case short_entry summary of
        Bad_ent \<Rightarrow> None
      | Skip_ent None \<Rightarrow> Some []
      | Skip_ent (Some next) \<Rightarrow> parse_short_loop n_entries next
      | Range_ent low high next \<Rightarrow> map_option ((#) (low, high)) (parse_short_loop (n_entries + 1) next))"
  by pat_completeness auto

termination
  by (relation "measure (\<lambda>(n, s). length s)") (auto dest: short_entry_shorter)

declare parse_short_loop.simps [simp del]

definition short_policy_from :: "bool \<Rightarrow> string \<Rightarrow> short_policy option" where
  "short_policy_from acc summary =
    Option.bind (parse_short_loop 0 summary) (\<lambda>es. if es = [] then None else Some \<lparr>is_accept = acc, entries = es\<rparr>)"

definition parse_short_policy :: "string \<Rightarrow> short_policy option" where
  "parse_short_policy summary =
    (if strcmpstart summary ''accept '' = 0 then short_policy_from True (drop 7 summary)
     else if strcmpstart summary ''reject '' = 0 then short_policy_from False (drop 7 summary)
     else None)"

definition write_short_policy :: "short_policy \<Rightarrow> string" where
  "write_short_policy policy =
    (if is_accept policy then ''accept '' else ''reject '')
    @ smartlist_join_strings (range_strings (entries policy)) '','' False"

text \<open>The port is not 0, which is asserted.\<close>

definition compare_tor_addr_to_short_policy ::
    "bool \<Rightarrow> tor_addr_t option \<Rightarrow> nat \<Rightarrow> short_policy \<Rightarrow> addr_policy_result option" where
  "compare_tor_addr_to_short_policy reject_internal addr port policy =
    (if port = 0 then None
     else
       let known = (case addr of None \<Rightarrow> None | Some a \<Rightarrow> if tor_addr_is_null a then None else Some a) in
       if (case known of None \<Rightarrow> False
           | Some a \<Rightarrow> reject_internal \<and> (tor_addr_is_internal a False \<or> tor_addr_is_loopback a))
       then Some ADDR_POLICY_REJECTED
       else
         let found_match = list_ex (\<lambda>e. fst e \<le> port \<and> port \<le> snd e) (entries policy);
             acc = (if found_match then is_accept policy else \<not> is_accept policy)
         in Some (if acc then ADDR_POLICY_PROBABLY_ACCEPTED else ADDR_POLICY_REJECTED))"

definition short_policy_is_reject_star :: "short_policy \<Rightarrow> bool" where
  "short_policy_is_reject_star policy \<longleftrightarrow> \<not> is_accept policy \<and> entries policy = [(1, 65535)]"

section \<open>The policy of a node\<close>

text \<open>What a client knows of a relay: its descriptor or its microdescriptor, with the policies in them.\<close>

datatype node_policies =
    No_policies
  | Descriptor_policies "policy option" "short_policy option"
  | Microdesc_policies "short_policy option" "short_policy option"

fun ipv6_exit_policy :: "node_policies \<Rightarrow> short_policy option" where
  "ipv6_exit_policy No_policies = None"
| "ipv6_exit_policy (Descriptor_policies _ p) = p"
| "ipv6_exit_policy (Microdesc_policies _ p) = p"

definition compare_tor_addr_to_node_policy ::
    "bool \<Rightarrow> tor_addr_t option \<Rightarrow> nat \<Rightarrow> bool \<Rightarrow> node_policies \<Rightarrow> addr_policy_result option" where
  "compare_tor_addr_to_node_policy reject_internal addr port rejects_all node =
    (if rejects_all then Some ADDR_POLICY_REJECTED
     else if (case addr of None \<Rightarrow> False | Some a \<Rightarrow> tor_addr_family a = AF_INET6) then
       (case ipv6_exit_policy node of
          Some p \<Rightarrow> compare_tor_addr_to_short_policy reject_internal addr port p
        | None \<Rightarrow> Some ADDR_POLICY_REJECTED)
     else
       (case node of
          Descriptor_policies p _ \<Rightarrow> Some (compare_tor_addr_to_addr_policy addr port p)
        | Microdesc_policies None _ \<Rightarrow> Some ADDR_POLICY_REJECTED
        | Microdesc_policies (Some p) _ \<Rightarrow> compare_tor_addr_to_short_policy reject_internal addr port p
        | No_policies \<Rightarrow> Some ADDR_POLICY_PROBABLY_REJECTED))"

end
