(* ===== verification/PolicyTable.thy ===== *)
theory PolicyTable
  imports PolicySummary PolicyLaws
begin

text \<open>
  The table of a policy summary keeps, for each port, what a direct count for that port gives: the
  ranges stay a partition of the ports, splitting a range changes nothing, and each entry of the
  policy updates exactly the ports it names. From the counts follows how many addresses a port
  said to be accepted can have rejected.
\<close>

section \<open>The count for one port\<close>

type_synonym port_status = "bool \<times> nat"

definition in_ports :: "addr_policy \<Rightarrow> nat \<Rightarrow> bool" where
  "in_ports p port \<longleftrightarrow> prt_min p \<le> port \<and> port \<le> prt_max p"

fun accept_status :: "nat \<Rightarrow> port_status \<Rightarrow> port_status" where
  "accept_status family (acc, n) = (acc \<or> n \<le> REJECT_CUTOFF_COUNT family, n)"

fun reject_status :: "nat \<Rightarrow> port_status \<Rightarrow> port_status" where
  "reject_status k (acc, n) = (acc, min COUNT_MAX (n + k))"

text \<open>An entry for all addresses of the family accepts the port while few enough are rejected; an
  entry that rejects adds the size of its network, but for private networks and tiny ones.\<close>

definition entry_status :: "nat \<Rightarrow> nat \<Rightarrow> addr_policy \<Rightarrow> port_status \<Rightarrow> port_status" where
  "entry_status family port p st =
    (if tor_addr_family (entry_addr p) \<noteq> family \<or> \<not> in_ports p port then st
     else case policy_type p of
       ADDR_POLICY_ACCEPT \<Rightarrow> if maskbits p = 0 then accept_status family st else st
     | ADDR_POLICY_REJECT \<Rightarrow>
         if is_private_net p then st
         else case network_count family (maskbits p) of None \<Rightarrow> st | Some k \<Rightarrow> reject_status k st)"

definition port_status :: "nat \<Rightarrow> nat \<Rightarrow> policy \<Rightarrow> port_status" where
  "port_status family port es = foldl (\<lambda>st p. entry_status family port p st) (False, 0) es"

section \<open>The table as a partition\<close>

fun seg :: "nat \<Rightarrow> policy_summary \<Rightarrow> nat \<Rightarrow> bool" where
  "seg a [] b \<longleftrightarrow> a = b"
| "seg a (it # s) b \<longleftrightarrow> item_min it = a \<and> a \<le> item_max it \<and> seg (item_max it + 1) s b"

abbreviation status_of :: "policy_summary_item \<Rightarrow> port_status" where
  "status_of it \<equiv> (accepted it, reject_count it)"

fun lookup :: "policy_summary \<Rightarrow> nat \<Rightarrow> port_status" where
  "lookup [] port = (False, 0)"
| "lookup (it # s) port = (if port \<le> item_max it then status_of it else lookup s port)"

lemma seg_le: "seg a s b \<Longrightarrow> a \<le> b"
  by (induction s arbitrary: a) (auto, fastforce)

lemma seg_append: "seg a (s @ t) b \<longleftrightarrow> (\<exists>m. seg a s m \<and> seg m t b)"
  by (induction s arbitrary: a) auto

lemma seg_max: "seg a s b \<Longrightarrow> it \<in> set s \<Longrightarrow> item_max it < b"
  by (induction s arbitrary: a) (auto dest: seg_le)

lemma lookup_append:
  "seg a s b \<Longrightarrow> a \<le> port \<Longrightarrow> lookup (s @ t) port = (if port < b then lookup s port else lookup t port)"
proof (induction s arbitrary: a)
  case (Cons it s)
  then show ?case using seg_le [of "item_max it + 1" s b] by auto
qed simp

lemma split_item:
  assumes "item_min it < at" "at \<le> item_max it" "item_max it \<le> 65535"
  shows "policy_summary_item_split it at = Some (it\<lparr>item_max := at - 1\<rparr>, it\<lparr>item_min := at\<rparr>)"
proof -
  have "(at + 65535) mod 65536 = at - 1"
    using assms by (simp add: mod_if)
  then show ?thesis using assms unfolding policy_summary_item_split_def Let_def by simp
qed

lemma split_start_ok:
  assumes "seg a s 65536" "a \<le> lo" "lo \<le> 65535"
  shows "\<exists>before from. split_start lo s = Some (before, from) \<and> seg a before lo \<and> seg lo from 65536
    \<and> (\<forall>port \<ge> a. lookup (before @ from) port = lookup s port)"
  using assms
proof (induction s arbitrary: a)
  case (Cons it s)
  have mx: "item_max it \<le> 65535" using seg_le [of "item_max it + 1" s 65536] Cons.prems(1) by simp
  show ?case
  proof (cases "item_max it < lo")
    case True
    then obtain before "from" where "split_start lo s = Some (before, from)" "seg (item_max it + 1) before lo"
      "seg lo from 65536" "\<forall>port \<ge> item_max it + 1. lookup (before @ from) port = lookup s port"
      using Cons.IH [of "item_max it + 1"] Cons.prems by auto
    with True Cons.prems show ?thesis by auto
  next
    case False
    show ?thesis
    proof (cases "item_min it = lo")
      case True
      with False Cons.prems show ?thesis by auto
    next
      case False
      with \<open>\<not> item_max it < lo\<close> Cons.prems mx show ?thesis by (auto simp: split_item)
    qed
  qed
qed simp

lemma split_end_ok:
  assumes "seg a s 65536" "a \<le> hi" "hi \<le> 65535"
  shows "\<exists>mid after. split_end hi s = Some (mid @ after) \<and> seg a mid (hi + 1) \<and> seg (hi + 1) after 65536
    \<and> (\<forall>port \<ge> a. lookup (mid @ after) port = lookup s port)"
  using assms
proof (induction s arbitrary: a)
  case (Cons it s)
  have mx: "item_max it \<le> 65535" using seg_le [of "item_max it + 1" s 65536] Cons.prems(1) by simp
  show ?case
  proof (cases "item_max it < hi")
    case True
    then obtain mid after where m: "split_end hi s = Some (mid @ after)" "seg (item_max it + 1) mid (hi + 1)"
      "seg (hi + 1) after 65536" "\<forall>port \<ge> item_max it + 1. lookup (mid @ after) port = lookup s port"
      using Cons.IH [of "item_max it + 1"] Cons.prems by auto
    with True Cons.prems show ?thesis by (intro exI [of _ "it # mid"] exI [of _ after]) auto
  next
    case False
    show ?thesis
    proof (cases "item_max it = hi")
      case True
      with Cons.prems show ?thesis by (intro exI [of _ "[it]"] exI [of _ s]) auto
    next
      case False
      with \<open>\<not> item_max it < hi\<close> Cons.prems mx show ?thesis
        by (intro exI [of _ "[it\<lparr>item_max := hi\<rparr>]"] exI [of _ "it\<lparr>item_min := hi + 1\<rparr> # s"])
          (auto simp: split_item)
    qed
  qed
qed simp

text \<open>Splitting gives the items before the range, those of the range and those after it.\<close>

lemma split_ok:
  assumes "seg 1 s 65536" "1 \<le> lo" "lo \<le> hi" "hi \<le> 65535"
  shows "\<exists>before mid after. policy_summary_split s lo hi = Some (before, mid @ after)
    \<and> seg 1 before lo \<and> seg lo mid (hi + 1) \<and> seg (hi + 1) after 65536
    \<and> (\<forall>port \<ge> 1. lookup (before @ mid @ after) port = lookup s port)"
proof -
  obtain before "from" where b: "split_start lo s = Some (before, from)" "seg 1 before lo"
    "seg lo from 65536" "\<forall>port \<ge> 1. lookup (before @ from) port = lookup s port"
    using split_start_ok [OF assms(1,2)] assms(3,4) by auto
  obtain mid after where m: "split_end hi from = Some (mid @ after)" "seg lo mid (hi + 1)"
    "seg (hi + 1) after 65536" "\<forall>port \<ge> lo. lookup (mid @ after) port = lookup from port"
    using split_end_ok [OF b(3) assms(3,4)] by auto
  have "lookup (before @ mid @ after) port = lookup s port" if "1 \<le> port" for port
    using b(4) [rule_format, OF that] m(4) [rule_format, of port] lookup_append [OF b(2) that]
    by (simp split: if_splits)
  with b m show ?thesis by (auto simp: policy_summary_split_def)
qed

lemma update_range_mid:
  assumes "seg a mid (hi + 1)" "seg (hi + 1) after 65536"
  shows "update_range f hi (mid @ after) = map f mid @ after"
proof -
  have "update_range f hi (xs @ after) = map f xs @ after" if "\<forall>it \<in> set xs. item_max it \<le> hi" for xs
    using that assms(2) by (induction xs) (cases after; auto)+
  moreover have "\<forall>it \<in> set mid. item_max it \<le> hi" using seg_max [OF assms(1)] by (simp add: less_Suc_eq_le)
  ultimately show ?thesis by blast
qed

lemma item_after_ok:
  assumes "seg (hi + 1) after 65536"
  shows "item_after hi (mid @ after) \<or> hi = 65535"
proof (cases after)
  case Nil
  with assms show ?thesis by simp
next
  case (Cons it s)
  with assms have "hi < item_max it" by auto
  then have "item_after hi (xs @ it # s)" for xs by (induction xs) auto
  with Cons show ?thesis by simp
qed

lemma seg_map:
  "(\<And>it. item_min (f it) = item_min it \<and> item_max (f it) = item_max it) \<Longrightarrow> seg a (map f s) b = seg a s b"
  by (induction s arbitrary: a) auto

lemma lookup_map:
  assumes "\<And>it. item_max (f it) = item_max it" "\<And>it. status_of (f it) = g (status_of it)"
  shows "seg a s b \<Longrightarrow> a \<le> port \<Longrightarrow> port < b \<Longrightarrow> lookup (map f s) port = g (lookup s port)"
proof (induction s arbitrary: a)
  case (Cons it s)
  show ?case
  proof (cases "port \<le> item_max it")
    case True
    then show ?thesis using assms by simp
  next
    case False
    then show ?thesis using Cons.IH [of "item_max it + 1"] Cons.prems assms by simp
  qed
qed simp

lemma finish_range_ok:
  assumes "seg 1 before lo" "seg lo mid (hi + 1)" "seg (hi + 1) after 65536"
    and f: "\<And>it. item_min (f it) = item_min it \<and> item_max (f it) = item_max it"
      "\<And>it. status_of (f it) = g (status_of it)"
  shows "\<exists>t. finish_range f hi (before, mid @ after) = Some t \<and> seg 1 t 65536 \<and>
    (\<forall>port \<ge> 1. lookup t port =
      (if lo \<le> port \<and> port \<le> hi then g (lookup (before @ mid @ after) port) else lookup (before @ mid @ after) port))"
proof -
  let ?t = "before @ map f mid @ after"
  have m: "seg lo (map f mid) (hi + 1)" using assms(2) f(1) by (simp add: seg_map)
  have "finish_range f hi (before, mid @ after) = Some ?t"
    using item_after_ok [OF assms(3), of mid] by (simp add: finish_range_def update_range_mid [OF assms(2,3)])
  moreover have "seg 1 ?t 65536" using assms(1,3) m by (auto simp: seg_append)
  moreover have "lookup ?t port = (if lo \<le> port \<and> port \<le> hi then g (lookup (before @ mid @ after) port)
      else lookup (before @ mid @ after) port)" if "1 \<le> port" for port
    using lookup_map [of f g lo mid "hi + 1" port] f assms(2)
    by (auto simp: lookup_append [OF assms(1) that] lookup_append [OF m] lookup_append [OF assms(2)])
  ultimately show ?thesis by blast
qed


section \<open>Entries\<close>

definition ports_ok :: "addr_policy \<Rightarrow> bool" where
  "ports_ok p \<longleftrightarrow> 1 \<le> prt_min p \<and> prt_min p \<le> prt_max p \<and> prt_max p \<le> 65535"

lemma network_count_le: "network_count family bits = Some k \<Longrightarrow> k \<le> COUNT_MAX"
proof -
  have "(2 :: nat) ^ n \<le> COUNT_MAX" if "n < 64" for n
  proof -
    have "(2 :: nat) ^ n \<le> 2 ^ 63" using that by (intro power_increasing) auto
    then show ?thesis by simp
  qed
  then show "network_count family bits = Some k \<Longrightarrow> k \<le> COUNT_MAX"
    by (auto simp: network_count_def Let_def split: if_splits)
qed

lemma accept_item_facts:
  "item_min (accept_item family it) = item_min it \<and> item_max (accept_item family it) = item_max it"
  "status_of (accept_item family it) = accept_status family (status_of it)"
  by (auto simp: accept_item_def)

lemma reject_item_facts:
  "item_min (reject_item k it) = item_min it \<and> item_max (reject_item k it) = item_max it"
  "k \<le> COUNT_MAX \<Longrightarrow> status_of (reject_item k it) = reject_status k (status_of it)"
  by (auto simp: reject_item_def)

text \<open>What the operations promise: the table \<open>t\<close> made of \<open>s\<close> is a partition, and the status of a port
  has changed by \<open>g\<close> in the range and not outside.\<close>

definition updated :: "nat \<Rightarrow> nat \<Rightarrow> (port_status \<Rightarrow> port_status) \<Rightarrow> policy_summary \<Rightarrow> policy_summary \<Rightarrow> bool" where
  "updated lo hi g s t \<longleftrightarrow> seg 1 t 65536 \<and>
    (\<forall>port \<ge> 1. lookup t port = (if lo \<le> port \<and> port \<le> hi then g (lookup s port) else lookup s port))"

lemma accept_ok:
  assumes "seg 1 s 65536" "1 \<le> lo" "lo \<le> hi" "hi \<le> 65535"
  shows "\<exists>t. policy_summary_accept s lo hi family = Some t \<and> updated lo hi (accept_status family) s t"
proof -
  obtain before mid after where b: "policy_summary_split s lo hi = Some (before, mid @ after)"
    "seg 1 before lo" "seg lo mid (hi + 1)" "seg (hi + 1) after 65536"
    "\<forall>port \<ge> 1. lookup (before @ mid @ after) port = lookup s port"
    using split_ok [OF assms] by blast
  obtain t where "finish_range (accept_item family) hi (before, mid @ after) = Some t" "seg 1 t 65536"
    "\<forall>port \<ge> 1. lookup t port = (if lo \<le> port \<and> port \<le> hi
      then accept_status family (lookup (before @ mid @ after) port) else lookup (before @ mid @ after) port)"
    using finish_range_ok [OF b(2-4), of "accept_item family" "accept_status family"] accept_item_facts by blast
  with b(1,5) show ?thesis by (simp add: policy_summary_accept_def updated_def)
qed

lemma reject_ok:
  assumes "seg 1 s 65536" "1 \<le> lo" "lo \<le> hi" "hi \<le> 65535"
  shows "\<exists>t. policy_summary_reject s bits lo hi family = Some t \<and>
    updated lo hi (\<lambda>st. case network_count family bits of None \<Rightarrow> st | Some k \<Rightarrow> reject_status k st) s t"
proof -
  obtain before mid after where b: "policy_summary_split s lo hi = Some (before, mid @ after)"
    "seg 1 before lo" "seg lo mid (hi + 1)" "seg (hi + 1) after 65536"
    "\<forall>port \<ge> 1. lookup (before @ mid @ after) port = lookup s port"
    using split_ok [OF assms] by blast
  show ?thesis
  proof (cases "network_count family bits")
    case None
    moreover have "seg 1 (before @ mid @ after) 65536" using b(2-4) by (auto simp: seg_append)
    ultimately show ?thesis using b(1,5) by (simp add: policy_summary_reject_def updated_def)
  next
    case (Some k)
    obtain t where "finish_range (reject_item k) hi (before, mid @ after) = Some t" "seg 1 t 65536"
      "\<forall>port \<ge> 1. lookup t port = (if lo \<le> port \<and> port \<le> hi
        then reject_status k (lookup (before @ mid @ after) port) else lookup (before @ mid @ after) port)"
      using finish_range_ok [OF b(2-4), of "reject_item k" "reject_status k"] reject_item_facts
        network_count_le [OF Some] by blast
    with b(1,5) Some show ?thesis by (simp add: policy_summary_reject_def updated_def)
  qed
qed

lemma add_item_ok:
  assumes "seg 1 s 65536" "ports_ok p" "tor_addr_family (entry_addr p) = family"
  shows "\<exists>t. policy_summary_add_item s p = Some t \<and> seg 1 t 65536
    \<and> (\<forall>port \<ge> 1. lookup t port = entry_status family port p (lookup s port))"
proof -
  note ports = assms(2) [unfolded ports_ok_def]
  obtain ta where ta: "policy_summary_accept s (prt_min p) (prt_max p) family = Some ta"
    "updated (prt_min p) (prt_max p) (accept_status family) s ta"
    using accept_ok [OF assms(1)] ports by blast
  obtain tr where tr: "policy_summary_reject s (maskbits p) (prt_min p) (prt_max p) family = Some tr"
    "updated (prt_min p) (prt_max p)
      (\<lambda>st. case network_count family (maskbits p) of None \<Rightarrow> st | Some k \<Rightarrow> reject_status k st) s tr"
    using reject_ok [OF assms(1)] ports by blast
  show ?thesis
    using ta tr assms(1,3)
    by (cases "policy_type p") (auto simp: policy_summary_add_item_def entry_status_def in_ports_def updated_def)
qed

lemma summary_of_ok:
  assumes "seg 1 s 65536" "\<forall>p \<in> set es. tor_addr_family (entry_addr p) = family \<longrightarrow> ports_ok p"
  shows "\<exists>t. summary_of family s es = Some t \<and> seg 1 t 65536 \<and>
    (\<forall>port \<ge> 1. lookup t port = foldl (\<lambda>st p. entry_status family port p st) (lookup s port) es)"
  using assms
proof (induction es arbitrary: s)
  case (Cons p es)
  show ?case
  proof (cases "tor_addr_family (entry_addr p) = family")
    case True
    with Cons.prems obtain t where t: "policy_summary_add_item s p = Some t" "seg 1 t 65536"
      "\<forall>port \<ge> 1. lookup t port = entry_status family port p (lookup s port)"
      using add_item_ok [of s p family] by auto
    with Cons.IH [of t] Cons.prems True show ?thesis by simp
  next
    case False
    with Cons.IH [of s] Cons.prems show ?thesis by (simp add: entry_status_def)
  qed
qed simp

text \<open>Every policy has a table, and the table knows every port.\<close>

lemma table_ok:
  assumes "\<forall>p \<in> set es. tor_addr_family (entry_addr p) = family \<longrightarrow> ports_ok p"
  shows "\<exists>t. summary_of family policy_summary_create es = Some t \<and> seg 1 t 65536 \<and>
    (\<forall>port. 1 \<le> port \<longrightarrow> port \<le> 65535 \<longrightarrow> lookup t port = port_status family port es)"
proof -
  have "seg 1 policy_summary_create 65536" by (simp add: policy_summary_create_def)
  from summary_of_ok [OF this assms] show ?thesis
    by (auto simp: port_status_def policy_summary_create_def)
qed


section \<open>How much an accepted port can reject\<close>

definition private_address :: "32 word \<Rightarrow> bool" where
  "private_address w \<longleftrightarrow> (\<exists>(n, m) \<in> set private_nets. same_net m (Inet w) n)"

definition rejected_addresses :: "nat \<Rightarrow> policy \<Rightarrow> 32 word set" where
  "rejected_addresses port es = {w. decide (Inet w) port es = Some ADDR_POLICY_REJECT \<and> \<not> private_address w}"

lemma card_network: "card {w :: 32 word. drop_bit k w = drop_bit k ip} \<le> 2 ^ k"
proof -
  let ?A = "{w :: 32 word. drop_bit k w = drop_bit k ip}"
  let ?c = "unat ip div 2 ^ k"
  have "unat ` ?A \<subseteq> {?c * 2 ^ k..<?c * 2 ^ k + 2 ^ k}"
  proof
    fix x assume "x \<in> unat ` ?A"
    then obtain w where w: "x = unat w" "drop_bit k w = drop_bit k ip" by blast
    have "unat w div 2 ^ k = ?c"
      using w(2) by (metis unat_drop_bit_eq drop_bit_eq_div)
    then have "?c * 2 ^ k + x mod 2 ^ k = x" using w(1) div_mult_mod_eq [of x "2 ^ k"] by simp
    moreover have "x mod 2 ^ k < 2 ^ k" by simp
    ultimately have "?c * 2 ^ k \<le> x" "x < ?c * 2 ^ k + 2 ^ k" by linarith+
    then show "x \<in> {?c * 2 ^ k..<?c * 2 ^ k + 2 ^ k}" by simp
  qed
  then have "card (unat ` ?A) \<le> 2 ^ k" using card_mono [of "{?c * 2 ^ k..<?c * 2 ^ k + 2 ^ k}"] by force
  moreover have "card (unat ` ?A) = card ?A" by (rule card_image) (auto intro!: inj_onI simp: word_unat_eq_iff)
  ultimately show ?thesis by simp
qed

lemma matched_card:
  assumes "tor_addr_family (entry_addr p) = AF_INET" "maskbits p \<le> 32"
  shows "card {w. matches (Inet w) port p} \<le> 2 ^ (32 - maskbits p)"
proof -
  obtain ip where ip: "entry_addr p = Inet ip" using assms(1) by (cases "entry_addr p") auto
  have "drop_bit 32 w = 0" for w :: "32 word" by (rule bit_word_eqI) (auto simp: bit_simps)
  then have "{w. matches (Inet w) port p} \<subseteq> {w. drop_bit (32 - maskbits p) w = drop_bit (32 - maskbits p) ip}"
    using assms(2) by (auto simp: matches_def ip min_absorb2)
  then have "card {w. matches (Inet w) port p} \<le> card {w. drop_bit (32 - maskbits p) w = drop_bit (32 - maskbits p) ip}"
    by (intro card_mono) auto
  then show ?thesis using card_network order_trans by blast
qed

lemma private_nets_small: "(n, m) \<in> set private_nets \<Longrightarrow> m \<le> 128 \<and> addr_ok n"
  by (auto simp: private_nets_def ipv6_net_def)

lemma private_matches:
  assumes "is_private_net p" "policy_entry_ok p" "matches (Inet w) port p"
  shows "private_address w"
proof -
  obtain n m where n: "(n, m) \<in> set private_nets" "same_net 128 (entry_addr p) n" "maskbits p = m"
    using assms(1) by (fastforce simp: is_private_net_def list_ex_iff tor_addr_compare_def same_net_def)
  have "same_net m (entry_addr p) n"
    using net.same_fewer [OF _ _ n(2), of m] private_nets_small [OF n(1)] assms(2) by (simp add: policy_entry_ok_def)
  moreover have "same_net m (Inet w) (entry_addr p)" using assms(3) n(3) by (simp add: matches_def)
  ultimately have "same_net m (Inet w) n"
    using net.same_trans [of "Inet w" "entry_addr p" n m] private_nets_small [OF n(1)] assms(2)
    by (simp add: policy_entry_ok_def)
  with n(1) show ?thesis by (auto simp: private_address_def)
qed

definition ipv4_entry_ok :: "addr_policy \<Rightarrow> bool" where
  "ipv4_entry_ok p \<longleftrightarrow> policy_entry_ok p \<and> (tor_addr_family (entry_addr p) = AF_INET \<longrightarrow> maskbits p \<le> 32)"

lemma rejected_step:
  "rejected_addresses port (p # es) \<subseteq>
    (if policy_type p = ADDR_POLICY_REJECT then {w. matches (Inet w) port p \<and> \<not> private_address w} else {})
    \<union> rejected_addresses port es"
  by (auto simp: rejected_addresses_def split: if_splits)

lemma not_matching: "tor_addr_family (entry_addr p) \<noteq> AF_INET \<or> \<not> in_ports p port \<Longrightarrow> \<not> matches (Inet w) port p"
  by (auto simp: matches_def in_ports_def dest: same_net_family)

lemma rejected_bound:
  assumes "list_all ipv4_entry_ok es" "fst (foldl (\<lambda>st p. entry_status AF_INET port p st) (False, n) es)"
  shows "n + card (rejected_addresses port es) \<le> 2 ^ 25"
  using assms
proof (induction es arbitrary: n)
  case (Cons p es)
  have ok: "policy_entry_ok p" "tor_addr_family (entry_addr p) = AF_INET \<Longrightarrow> maskbits p \<le> 32" "list_all ipv4_entry_ok es"
    using Cons.prems(1) ipv4_entry_ok_def [of p] by auto
  have fin: "finite (A :: 32 word set)" for A by simp
  have mono: "card (rejected_addresses port (p # es)) \<le> card (rejected_addresses port es)"
    if "policy_type p = ADDR_POLICY_REJECT \<Longrightarrow> \<forall>w. matches (Inet w) port p \<longrightarrow> private_address w"
    using rejected_step [of port p es] that by (intro card_mono fin) (auto split: if_splits)
  show ?case
  proof (cases "tor_addr_family (entry_addr p) \<noteq> AF_INET \<or> \<not> in_ports p port")
    case True
    then have "entry_status AF_INET port p (False, n) = (False, n)" by (auto simp: entry_status_def)
    then show ?thesis
      using Cons.IH [OF ok(3), of n] Cons.prems(2) mono not_matching [OF True] by auto
  next
    case relevant: False
    show ?thesis
    proof (cases "policy_type p")
      case ADDR_POLICY_ACCEPT
      show ?thesis
      proof (cases "maskbits p = 0 \<and> n \<le> REJECT_CUTOFF_COUNT AF_INET")
        case True
        then have "matches (Inet w) port p" for w
          using relevant ok(1) same_net_0 [of "Inet w" "entry_addr p"]
          by (auto simp: matches_def in_ports_def policy_entry_ok_def)
        then have "rejected_addresses port (p # es) = {}"
          using ADDR_POLICY_ACCEPT by (auto simp: rejected_addresses_def)
        with True show ?thesis by (simp add: REJECT_CUTOFF_COUNT_def)
      next
        case False
        then have "entry_status AF_INET port p (False, n) = (False, n)"
          using ADDR_POLICY_ACCEPT by (auto simp: entry_status_def)
        then show ?thesis using Cons.IH [OF ok(3), of n] Cons.prems(2) mono ADDR_POLICY_ACCEPT by auto
      qed
    next
      case ADDR_POLICY_REJECT
      show ?thesis
      proof (cases "is_private_net p")
        case True
        then have "entry_status AF_INET port p (False, n) = (False, n)"
          using ADDR_POLICY_REJECT by (auto simp: entry_status_def)
        then show ?thesis
          using Cons.IH [OF ok(3), of n] Cons.prems(2) mono private_matches [OF True ok(1)] by auto
      next
        case False
        let ?k = "2 ^ (32 - maskbits p) :: nat"
        have "network_count AF_INET (maskbits p) = Some ?k" using ok(2) relevant by (simp add: network_count_def)
        then have st: "entry_status AF_INET port p (False, n) = (False, min COUNT_MAX (n + ?k))"
          using ADDR_POLICY_REJECT relevant False by (auto simp: entry_status_def)
        have "min COUNT_MAX (n + ?k) + card (rejected_addresses port es) \<le> 2 ^ 25"
          using Cons.IH [OF ok(3)] Cons.prems(2) st by simp
        then have le: "n + ?k + card (rejected_addresses port es) \<le> 2 ^ 25" by (simp add: min_def split: if_splits)
        have "card (rejected_addresses port (p # es))
            \<le> card ({w. matches (Inet w) port p} \<union> rejected_addresses port es)"
          using rejected_step [of port p es] by (intro card_mono fin) (auto split: if_splits)
        also have "\<dots> \<le> card {w. matches (Inet w) port p} + card (rejected_addresses port es)" by (rule card_Un_le)
        also have "\<dots> \<le> ?k + card (rejected_addresses port es)"
          using matched_card [of p port] relevant ok(2) by simp
        finally show ?thesis using le by simp
      qed
    qed
  qed
qed simp


lemma accepted_bound:
  assumes "list_all ipv4_entry_ok es" "fst (port_status AF_INET port es)"
  shows "card {w. compare_known_tor_addr_to_addr_policy (Inet w) port es = ADDR_POLICY_REJECTED
    \<and> \<not> private_address w} \<le> 2 ^ 25"
proof -
  have bound: "card (rejected_addresses port es) \<le> 2 ^ 25"
    using rejected_bound [OF assms(1), of port 0] assms(2) by (simp add: port_status_def)
  have "{w. compare_known_tor_addr_to_addr_policy (Inet w) port es = ADDR_POLICY_REJECTED
    \<and> \<not> private_address w} \<subseteq> rejected_addresses port es"
  proof
    fix w assume "w \<in> {w. compare_known_tor_addr_to_addr_policy (Inet w) port es = ADDR_POLICY_REJECTED
      \<and> \<not> private_address w}"
    then show "w \<in> rejected_addresses port es"
      using definite_accept by (cases "decide (Inet w) port es")
        (force simp: known_decide rejected_addresses_def)+
  qed
  then have "card {w. compare_known_tor_addr_to_addr_policy (Inet w) port es = ADDR_POLICY_REJECTED
    \<and> \<not> private_address w} \<le> card (rejected_addresses port es)" by (intro card_mono) simp_all
  then show ?thesis using bound by (rule order_trans)
qed

text \<open>C19: The count behind the summary of IPv4 is right for what it is there for: when the IPv4 table of a policy
  of well-formed IPv4 entries says that a port is accepted, the policy rejects at that port at most as many IPv4
  addresses outside the private networks as two /8 networks hold, however its entries overlap. Nothing is
  claimed of the table for IPv6.\<close>

theorem summary_bounds_rejections:
  assumes "list_all ipv4_entry_ok es"
    "\<forall>p \<in> set es. tor_addr_family (entry_addr p) = AF_INET \<longrightarrow> ports_ok p"
    "summary_of AF_INET policy_summary_create es = Some t" "1 \<le> port" "port \<le> 65535"
    "fst (lookup t port)"
  shows "card {w. compare_known_tor_addr_to_addr_policy (Inet w) port es = ADDR_POLICY_REJECTED
    \<and> \<not> private_address w} \<le> 2 ^ 25"
  using accepted_bound [OF assms(1)] table_ok [OF assms(2)] assms(3-6) by auto

definition table_policy :: policy where
  "table_policy =
    [entry ADDR_POLICY_REJECT (Inet 0x0a000000) 8 1 65535, entry ADDR_POLICY_REJECT (Inet 0x01000000) 8 80 90,
     entry ADDR_POLICY_REJECT (Inet 0x01020000) 16 80 80, entry ADDR_POLICY_REJECT (Inet 0x40000000) 2 25 25,
     entry ADDR_POLICY_ACCEPT (Inet 0) 0 20 443, entry ADDR_POLICY_REJECT (Inet 0) 0 1 65535]"

lemma table_policy_ok:
  "list_all ipv4_entry_ok table_policy"
  "\<forall>p \<in> set table_policy. tor_addr_family (entry_addr p) = AF_INET \<longrightarrow> ports_ok p"
  by (simp_all add: table_policy_def entry_def ipv4_entry_ok_def policy_entry_ok_def ports_ok_def)

lemma table_policy_status:
  "port_status AF_INET 80 table_policy = (True, 4311810048)" "port_status AF_INET 25 table_policy = (False, 5368709120)"
  by code_simp+

theorem summary_bounds_rejections_witness:
  "card {w. compare_known_tor_addr_to_addr_policy (Inet w) 80 table_policy = ADDR_POLICY_REJECTED
    \<and> \<not> private_address w} \<le> 2 ^ 25"
proof -
  obtain t where t: "summary_of AF_INET policy_summary_create table_policy = Some t"
    "lookup t 80 = port_status AF_INET 80 table_policy"
    using table_ok [OF table_policy_ok(2)] by auto
  then show ?thesis
    using summary_bounds_rejections [OF table_policy_ok t(1), of 80] table_policy_status(1) by simp
qed

end
