(* ===== verification/PolicyLine.thy ===== *)
theory PolicyLine
  imports PolicyTable
begin

text \<open>
  From the table of a summary to what a client makes of it: the ranges that are printed, the line
  when it fits and when it is cut, and the short policy parsed back from it.
\<close>

section \<open>Ranges\<close>

definition in_ranges :: "nat \<Rightarrow> (nat \<times> nat) list \<Rightarrow> bool" where
  "in_ranges port rs \<longleftrightarrow> list_ex (\<lambda>r. fst r \<le> port \<and> port \<le> snd r) rs"

definition range_ok :: "nat \<times> nat \<Rightarrow> bool" where
  "range_ok r \<longleftrightarrow> 1 \<le> fst r \<and> fst r \<le> snd r \<and> snd r \<le> 65535"

lemma merged_bounds:
  "seg a s b \<Longrightarrow> start \<le> a \<Longrightarrow> r \<in> set (merged_ranges start s) \<Longrightarrow>
    start \<le> fst (snd r) \<and> fst (snd r) \<le> snd (snd r) \<and> snd (snd r) < b"
proof (induction start s arbitrary: a rule: merged_ranges.induct)
  case (3 start it it' s)
  have b: "seg (item_max it + 1) (it' # s) b" "a \<le> item_max it" "item_min it' = item_max it + 1" "item_max it < b"
    using "3.prems"(1) seg_le [of "item_max it' + 1" s b] by auto
  show ?case
  proof (cases "accepted it = accepted it'")
    case True
    then show ?thesis using "3.IH"(2) [OF _ b(1)] "3.prems" b by simp
  next
    case False
    then have "r = (accepted it, start, item_max it) \<or> r \<in> set (merged_ranges (item_min it') (it' # s))"
      using "3.prems"(3) by simp
    then show ?thesis using "3.IH"(1) [OF False b(1)] "3.prems"(2) b by auto
  qed
qed auto

text \<open>The merged ranges run on from \<open>start\<close>, and each has the verdict of its items.\<close>

lemma merged_verdict:
  assumes "seg a s b" "s \<noteq> []" "start \<le> a" "start \<le> port" "port < b"
  shows "(\<exists>r \<in> set (merged_ranges start s). fst r = v \<and> fst (snd r) \<le> port \<and> port \<le> snd (snd r)) \<longleftrightarrow>
    v = (if port < a then accepted (hd s) else fst (lookup s port))"
  using assms
proof (induction start s arbitrary: a rule: merged_ranges.induct)
  case (2 start it)
  then show ?case by auto
next
  case (3 start it it' s)
  have b: "seg (item_max it + 1) (it' # s) b" "item_min it = a" "a \<le> item_max it" "item_min it' = item_max it + 1"
    using "3.prems"(1) by auto
  show ?case
  proof (cases "accepted it = accepted it'")
    case True
    then have "(\<exists>r \<in> set (merged_ranges start (it' # s)). fst r = v \<and> fst (snd r) \<le> port \<and> port \<le> snd (snd r)) \<longleftrightarrow>
        v = (if port < item_max it + 1 then accepted it' else fst (lookup (it' # s) port))"
      using "3.IH"(2) [OF _ b(1)] "3.prems" b by simp
    with True b(3) show ?thesis by auto
  next
    case False
    have m: "set (merged_ranges start (it # it' # s)) =
        insert (accepted it, start, item_max it) (set (merged_ranges (item_max it + 1) (it' # s)))"
      using False b(4) by simp
    show ?thesis
    proof (cases "port \<le> item_max it")
      case True
      then have "\<not> fst (snd r) \<le> port" if "r \<in> set (merged_ranges (item_max it + 1) (it' # s))" for r
        using merged_bounds [OF b(1) order_refl that] by simp
      then show ?thesis using True "3.prems" unfolding m by auto
    next
      case False': False
      have "(\<exists>r \<in> set (merged_ranges (item_max it + 1) (it' # s)). fst r = v \<and> fst (snd r) \<le> port \<and> port \<le> snd (snd r))
          \<longleftrightarrow> v = fst (lookup (it' # s) port)"
        using "3.IH"(1) [OF False, of "item_max it + 1"] False' "3.prems" b by simp
      then show ?thesis using False' b unfolding m by auto
    qed
  qed
qed simp

lemma in_ranges_with:
  "in_ranges port (ranges_with v rs) \<longleftrightarrow> (\<exists>r \<in> set rs. fst r = v \<and> fst (snd r) \<le> port \<and> port \<le> snd (snd r))"
  by (induction rs) (auto simp: in_ranges_def ranges_with_def)

lemma ranges_with_verdict:
  assumes "seg 1 s 65536" "1 \<le> port" "port \<le> 65535"
  shows "in_ranges port (ranges_with v (merged_ranges 1 s)) \<longleftrightarrow> fst (lookup s port) = v"
proof -
  have "s \<noteq> []" using assms(1) by auto
  from merged_verdict [OF assms(1) this, of 1 port v] assms show ?thesis
    by (auto simp: in_ranges_with)
qed

lemma ranges_with_ok:
  assumes "seg 1 s 65536"
  shows "list_all range_ok (ranges_with v (merged_ranges 1 s))"
  using merged_bounds [OF assms order_refl] by (fastforce simp: list_all_iff ranges_with_def range_ok_def)

section \<open>Parsing a line back\<close>

lemma parse_ulong_number:
  assumes "rest = [] \<or> \<not> TOR_ISDIGIT (hd rest)" "mn \<le> n" "n \<le> mx" "mx \<le> 65535"
  shows "tor_parse_ulong (show_nat n @ rest) mn mx = (n, True, rest)"
  using assms by (simp add: tor_parse_ulong_def strtoull10_def check_strtox_def strto_parts_show_nat)

lemma comma_minus: "\<not> TOR_ISDIGIT (CHR '','')" "\<not> TOR_ISDIGIT (CHR ''-'')"
  by (simp_all add: TOR_ISDIGIT_def)

lemma short_entry_range:
  assumes "range_ok r" "rest = [] \<or> hd rest = CHR '',''"
  shows "short_entry (range_string (fst r) (snd r) @ rest) = Range_ent (fst r) (snd r) (tl rest)"
proof -
  have r: "1 \<le> fst r" "fst r \<le> snd r" "snd r \<le> 65535" using assms(1) by (auto simp: range_ok_def)
  have d: "rest = [] \<or> \<not> TOR_ISDIGIT (hd rest)" using assms(2) comma_minus by metis
  show ?thesis
  proof (cases "fst r = snd r")
    case True
    then have p: "tor_parse_ulong (range_string (fst r) (snd r) @ rest) 1 65535 = (fst r, True, rest)"
      unfolding range_string_def using parse_ulong_number [OF d, of 1 "fst r" 65535] r by simp
    show ?thesis
      unfolding short_entry_def p using assms(2) True by (cases rest) simp_all
  next
    case False
    have p: "tor_parse_ulong (range_string (fst r) (snd r) @ rest) 1 65535
        = (fst r, True, CHR ''-'' # show_nat (snd r) @ rest)"
      unfolding range_string_def
      using parse_ulong_number [of "CHR ''-'' # show_nat (snd r) @ rest" 1 "fst r" 65535] r comma_minus False by simp
    have h: "tor_parse_ulong (show_nat (snd r) @ rest) (fst r) 65535 = (snd r, True, rest)"
      using parse_ulong_number [OF d] r by simp
    show ?thesis
      unfolding short_entry_def p using assms(2) h by (cases rest) simp_all
  qed
qed

lemma range_string_not_empty: "range_string lo hi \<noteq> []"
  by (simp add: range_string_def)

abbreviation line_of :: "(nat \<times> nat) list \<Rightarrow> string" where
  "line_of rs \<equiv> smartlist_join_strings (range_strings rs) '','' False"

lemma parse_short_step:
  assumes "range_ok r" "n < MAX_EXITPOLICY_SUMMARY_LEN" "rest = [] \<or> hd rest = CHR '',''"
  shows "parse_short_loop n (range_string (fst r) (snd r) @ rest) =
    map_option ((#) r) (parse_short_loop (n + 1) (tl rest))"
  by (subst parse_short_loop.simps)
    (use assms in \<open>simp add: short_entry_range range_string_not_empty\<close>)

lemma parse_line_of:
  "list_all range_ok rs \<Longrightarrow> n + length rs \<le> MAX_EXITPOLICY_SUMMARY_LEN \<Longrightarrow>
    parse_short_loop n (line_of rs) = Some rs"
proof (induction rs arbitrary: n)
  case Nil
  then show ?case by (simp add: range_strings_def parse_short_loop.simps)
next
  case (Cons r rs)
  show ?case
  proof (cases rs)
    case Nil
    then have "line_of (r # rs) = range_string (fst r) (snd r) @ []" by (simp add: range_strings_def)
    then show ?thesis
      using parse_short_step [of r n "[]"] Cons.prems Nil by (simp add: parse_short_loop.simps)
  next
    case (Cons r' rs')
    then have "line_of (r # rs) = range_string (fst r) (snd r) @ CHR '','' # line_of rs"
      by (simp add: range_strings_def)
    then show ?thesis
      using parse_short_step [of r n "CHR '','' # line_of rs"] Cons.IH [of "n + 1"] Cons.prems by simp
  qed
qed


section \<open>Cutting a line\<close>

lemma show_port_length: "n \<le> 65535 \<Longrightarrow> length (show_nat n) \<le> 5"
proof -
  have step: "length (show_nat n) \<le> Suc k" if "n < 10 ^ Suc k" for n k
    using that
  proof (induction k arbitrary: n)
    case 0
    then show ?case by (simp add: show_nat.simps)
  next
    case (Suc k)
    have "n div 10 < 10 ^ Suc k" using Suc.prems by auto
    from Suc.IH [OF this] show ?case by (subst show_nat.simps) simp
  qed
  show "n \<le> 65535 \<Longrightarrow> length (show_nat n) \<le> 5" using step [of n 4] by simp
qed

lemma range_string_length: "range_ok r \<Longrightarrow> length (range_string (fst r) (snd r)) \<le> 11"
  using show_port_length [of "fst r"] show_port_length [of "snd r"] by (simp add: range_string_def range_ok_def)

lemma range_string_no_comma: "CHR '','' \<notin> set (range_string lo hi)"
  using show_nat_digits [of lo] show_nat_digits [of hi] comma_minus(1)
  by (auto simp: range_string_def list_all_iff)

lemma last_comma_props:
  "last_comma s k = Some c \<Longrightarrow> c \<le> k \<and> s ! c = CHR '','' \<and> (\<forall>i. c < i \<longrightarrow> i \<le> k \<longrightarrow> s ! i \<noteq> CHR '','')"
proof (induction k)
  case (Suc k)
  then show ?case by (cases "s ! Suc k = CHR '',''") (auto simp: le_Suc_eq)
qed (auto split: if_splits)

lemma last_comma_exists: "i \<le> k \<Longrightarrow> s ! i = CHR '','' \<Longrightarrow> \<exists>c. last_comma s k = Some c"
proof (induction k)
  case (Suc k)
  then show ?case by (cases "i = Suc k") auto
qed auto

text \<open>A comma in a line ends a number of its ranges; another range follows.\<close>

lemma line_of_comma:
  "c < length (line_of rs) \<Longrightarrow> line_of rs ! c = CHR '','' \<Longrightarrow>
    \<exists>j. 0 < j \<and> j < length rs \<and> take c (line_of rs) = line_of (take j rs)
      \<and> line_of rs = line_of (take j rs) @ '','' @ line_of (drop j rs)"
proof (induction rs arbitrary: c)
  case Nil
  then show ?case by (simp add: range_strings_def)
next
  case (Cons r rs)
  let ?w = "range_string (fst r) (snd r)"
  show ?case
  proof (cases rs)
    case Nil
    then have "line_of (r # rs) = ?w" by (simp add: range_strings_def)
    then show ?thesis using Cons.prems range_string_no_comma nth_mem by metis
  next
    case (Cons r' rs')
    have l: "line_of (r # xs) = ?w @ '','' @ line_of xs" if "xs \<noteq> []" for xs
      using that by (cases xs) (simp_all add: range_strings_def)
    have one: "line_of [r] = ?w" by (simp add: range_strings_def)
    have ne: "rs \<noteq> []" using Cons by simp
    note lr = l [OF ne]
    consider "c < length ?w" | "c = length ?w" | d where "c = length ?w + 1 + d"
      by (metis add.assoc less_iff_Suc_add linorder_neqE_nat add_Suc_right add.right_neutral One_nat_def plus_1_eq_Suc)
    then show ?thesis
    proof cases
      case 1
      then show ?thesis using Cons.prems lr range_string_no_comma nth_mem by (metis nth_append)
    next
      case 2
      then have "take c (line_of (r # rs)) = line_of (take 1 (r # rs))" using lr one by simp
      then show ?thesis using ne lr one by (intro exI [of _ 1]) simp
    next
      case 3
      have "d < length (line_of rs)" "line_of rs ! d = CHR '',''"
        using Cons.prems 3 lr by (simp_all add: nth_append)
      then obtain j where j: "0 < j" "j < length rs" "take d (line_of rs) = line_of (take j rs)"
        "line_of rs = line_of (take j rs) @ '','' @ line_of (drop j rs)"
        using Cons.IH by blast
      have t: "line_of (take (Suc j) (r # rs)) = ?w @ '','' @ line_of (take j rs)"
        using l [of "take j rs"] j(1) ne by simp
      have "take c (line_of (r # rs)) = line_of (take (Suc j) (r # rs))" unfolding t lr using 3 j(3) by simp
      moreover have "line_of (r # rs) = line_of (take (Suc j) (r # rs)) @ '','' @ line_of (drop (Suc j) (r # rs))"
        unfolding t lr using j(4) by simp
      ultimately show ?thesis using j(2) by (intro exI [of _ "Suc j"]) simp
    qed
  qed
qed

lemma line_of_split:
  "rs \<noteq> [] \<Longrightarrow> \<exists>rest. line_of rs = range_string (fst (hd rs)) (snd (hd rs)) @ rest \<and> (rest = [] \<or> hd rest = CHR '','')"
  by (cases rs rule: list.exhaust; cases "tl rs") (auto simp: range_strings_def)

lemma line_of_length: "length rs \<le> Suc (length (line_of rs))"
proof (induction rs)
  case (Cons r rs)
  have "line_of (r # rs) = range_string (fst r) (snd r) @ (if rs = [] then [] else '','' @ line_of rs)"
    by (cases rs) (simp_all add: range_strings_def)
  with Cons range_string_not_empty [of "fst r" "snd r"] show ?case
    by (cases "range_string (fst r) (snd r)") auto
qed simp

text \<open>A line that is too long has a comma to be cut at, close before the limit.\<close>

lemma cut_line:
  assumes "list_all range_ok rs" "993 < length (line_of rs)"
  shows "\<exists>c j. last_comma (line_of rs) 993 = Some c \<and> 0 < j \<and> j < length rs \<and> take c (line_of rs) = line_of (take j rs)
    \<and> 982 \<le> c \<and> c \<le> 993"
proof -
  have ne: "rs \<noteq> []" using assms(2) by (auto simp: range_strings_def)
  have first: "length (range_string (fst (hd xs)) (snd (hd xs))) \<le> 11" if "xs \<noteq> []" "set xs \<subseteq> set rs" for xs
    using range_string_length assms(1) that by (metis hd_in_set list_all_iff subsetD)
  have comma: "\<exists>i \<le> 11. line_of xs ! i = CHR '','' \<or> length (line_of xs) = i" if "xs \<noteq> []" "set xs \<subseteq> set rs" for xs
  proof -
    obtain rest where rest: "line_of xs = range_string (fst (hd xs)) (snd (hd xs)) @ rest" "rest = [] \<or> hd rest = CHR '',''"
      using line_of_split [OF \<open>xs \<noteq> []\<close>] by blast
    let ?n = "length (range_string (fst (hd xs)) (snd (hd xs)))"
    have "line_of xs ! ?n = CHR '','' \<or> length (line_of xs) = ?n"
      using rest(2) unfolding rest(1) by (cases rest) simp_all
    then show ?thesis using first [OF that] by blast
  qed
  obtain c where c: "last_comma (line_of rs) 993 = Some c"
  proof -
    obtain i where i: "i \<le> 11" "line_of rs ! i = CHR '','' \<or> length (line_of rs) = i"
      using comma [OF ne order_refl] by blast
    then have "i \<le> 993" "line_of rs ! i = CHR '',''" using assms(2) by auto
    from last_comma_exists [OF this] show thesis using that by blast
  qed
  note props = last_comma_props [OF c]
  obtain j where j: "0 < j" "j < length rs" "take c (line_of rs) = line_of (take j rs)"
    "line_of rs = line_of (take j rs) @ '','' @ line_of (drop j rs)"
    using line_of_comma [of c rs] props assms(2) by auto
  have len: "length (line_of (take j rs)) = c" using arg_cong [OF j(3), of length] props assms(2) by simp
  obtain i where i: "i \<le> 11" "line_of (drop j rs) ! i = CHR '','' \<or> length (line_of (drop j rs)) = i"
    using comma [of "drop j rs"] j(2) set_drop_subset [of j rs] by auto
  have "982 \<le> c"
  proof (rule ccontr)
    assume "\<not> 982 \<le> c"
    then have small: "c + 1 + i \<le> 993" using i(1) by simp
    from i(2) show False
    proof
      assume "line_of (drop j rs) ! i = CHR '',''"
      then have "line_of rs ! (c + 1 + i) = CHR '',''"
        using len by (subst j(4)) (simp add: nth_append)
      then show False using props small by simp
    next
      assume "length (line_of (drop j rs)) = i"
      then have "length (line_of rs) = c + 1 + i" using len by (subst j(4)) simp
      then show False using small assms(2) by simp
    qed
  qed
  with c j props show ?thesis by blast
qed


section \<open>What a client understands\<close>

definition keyword :: "bool \<Rightarrow> string" where
  "keyword acc = (if acc then ''accept '' else ''reject '')"

lemma strcmpstart_keyword:
  "strcmpstart (''accept '' @ s) ''accept '' = 0" "strcmpstart (''reject '' @ s) ''reject '' = 0"
  "strcmpstart (''reject '' @ s) ''accept '' \<noteq> 0"
  by (simp_all add: strcmpstart_def)

lemma parse_keyword_line:
  assumes "list_all range_ok rs" "rs \<noteq> []" "length (line_of rs) \<le> 999"
  shows "parse_short_policy (keyword acc @ line_of rs) = Some \<lparr>is_accept = acc, entries = rs\<rparr>"
proof -
  have "length rs \<le> MAX_EXITPOLICY_SUMMARY_LEN" using line_of_length [of rs] assms(3) by simp
  then have loop: "parse_short_loop 0 (line_of rs) = Some rs" using parse_line_of [OF assms(1), of 0] by simp
  show ?thesis
  proof (cases acc)
    case True
    then have "parse_short_policy (keyword acc @ line_of rs) = short_policy_from True (line_of rs)"
      unfolding parse_short_policy_def keyword_def using strcmpstart_keyword(1) by simp
    with True loop assms(2) show ?thesis by (simp add: short_policy_from_def)
  next
    case False
    then have "parse_short_policy (keyword acc @ line_of rs) = short_policy_from False (line_of rs)"
      unfolding parse_short_policy_def keyword_def using strcmpstart_keyword(2,3) by simp
    with False loop assms(2) show ?thesis by (simp add: short_policy_from_def)
  qed
qed

lemma line_of_all: "line_of [(1, 65535)] = ''1-65535''"
  by (simp add: range_strings_def range_string_def) code_simp

text \<open>The line holds ranges of one verdict: all of them, or, when it is an accepting line near the limit,
  the first of them.\<close>

lemma summary_line_shape:
  assumes "list_all range_ok accepts" "list_all range_ok rejects"
    "accepts \<noteq> [] \<or> rejects \<noteq> []"
    "accepts = [] \<Longrightarrow> \<forall>port. 1 \<le> port \<longrightarrow> port \<le> 65535 \<longrightarrow> in_ranges port rejects"
    "rejects = [] \<Longrightarrow> \<forall>port. 1 \<le> port \<longrightarrow> port \<le> 65535 \<longrightarrow> in_ranges port accepts"
  shows "\<exists>acc rs. summary_line accepts rejects = Some (keyword acc @ line_of rs) \<and> rs \<noteq> [] \<and> list_all range_ok rs
    \<and> length (line_of rs) \<le> 993
    \<and> (\<forall>port. 1 \<le> port \<longrightarrow> port \<le> 65535 \<longrightarrow>
        (in_ranges port rs \<longleftrightarrow> in_ranges port (if acc then accepts else rejects))
        \<or> acc \<and> 982 \<le> length (line_of rs) \<and> \<not> in_ranges port rs)"
proof -
  have all: "range_ok (1, 65535)" "length (line_of [(1, 65535)]) \<le> 993"
    "in_ranges port [(1, 65535)] \<longleftrightarrow> 1 \<le> port \<and> port \<le> 65535" for port
    unfolding line_of_all by (simp_all add: range_ok_def in_ranges_def)
  consider "accepts = []" | "accepts \<noteq> []" "rejects = []"
    | "accepts \<noteq> []" "rejects \<noteq> []" "993 < length (line_of rejects)" "993 < length (line_of accepts)"
    | "accepts \<noteq> []" "rejects \<noteq> []" "\<not> (993 < length (line_of rejects) \<and> 993 < length (line_of accepts))"
    by blast
  then show ?thesis
  proof cases
    case 1
    then have "summary_line accepts rejects = Some (keyword False @ line_of [(1, 65535)])"
      unfolding line_of_all by (simp add: summary_line_def keyword_def)
    with all assms(4) 1 show ?thesis by (intro exI [of _ False] exI [of _ "[(1, 65535)]"]) auto
  next
    case 2
    then have "summary_line accepts rejects = Some (keyword True @ line_of [(1, 65535)])"
      unfolding line_of_all by (simp add: summary_line_def keyword_def)
    with all assms(5) 2 show ?thesis by (intro exI [of _ True] exI [of _ "[(1, 65535)]"]) auto
  next
    case 3
    obtain c j where c: "last_comma (line_of accepts) 993 = Some c" "0 < j" "j < length accepts"
      "take c (line_of accepts) = line_of (take j accepts)" "982 \<le> c" "c \<le> 993"
      using cut_line [OF assms(1) 3(4)] by blast
    have "summary_line accepts rejects = Some (keyword True @ line_of (take j accepts))"
      using 3 c(1,4) by (simp add: summary_line_def keyword_def Let_def)
    moreover have "length (line_of (take j accepts)) = c"
      using arg_cong [OF c(4), of length] 3(4) c(6) by simp
    moreover have "in_ranges port (take j accepts) \<Longrightarrow> in_ranges port accepts" for port
      by (auto simp: in_ranges_def list_ex_iff dest: in_set_takeD)
    moreover have "list_all range_ok (take j accepts)" using assms(1) by (auto simp: list_all_iff dest: in_set_takeD)
    ultimately show ?thesis using c 3(1)
      by (intro exI [of _ True] exI [of _ "take j accepts"]) auto
  next
    case 4
    let ?acc = "\<not> length (line_of rejects) < length (line_of accepts)"
    let ?rs = "if ?acc then accepts else rejects"
    have "summary_line accepts rejects = Some (keyword ?acc @ line_of ?rs)"
      using 4 unfolding summary_line_def Let_def by (auto simp: keyword_def)
    moreover have "length (line_of ?rs) \<le> 993" using 4(3) by auto
    moreover have "list_all range_ok ?rs" "?rs \<noteq> []" using assms(1,2) 4 by auto
    ultimately show ?thesis by (intro exI [of _ ?acc] exI [of _ ?rs]) auto
  qed
qed

text \<open>The line of a policy, in terms of the count for each port.\<close>

lemma policy_line:
  assumes "\<forall>p \<in> set es. tor_addr_family (entry_addr p) = family \<longrightarrow> ports_ok p"
  shows "\<exists>acc rs. policy_summarize es family = Some (keyword acc @ line_of rs) \<and> rs \<noteq> [] \<and> list_all range_ok rs
    \<and> length (line_of rs) \<le> 993
    \<and> (\<forall>port. 1 \<le> port \<longrightarrow> port \<le> 65535 \<longrightarrow>
        (in_ranges port rs \<longleftrightarrow> fst (port_status family port es) = acc)
        \<or> acc \<and> 982 \<le> length (line_of rs) \<and> \<not> in_ranges port rs)"
proof -
  obtain t where t: "summary_of family policy_summary_create es = Some t" "seg 1 t 65536"
    "\<And>port. 1 \<le> port \<Longrightarrow> port \<le> 65535 \<Longrightarrow> lookup t port = port_status family port es"
    using table_ok [OF assms] by blast
  define A R where "A = ranges_with True (merged_ranges 1 t)" and "R = ranges_with False (merged_ranges 1 t)"
  have verdict: "in_ranges port A \<longleftrightarrow> fst (port_status family port es)"
    "in_ranges port R \<longleftrightarrow> \<not> fst (port_status family port es)" if "1 \<le> port" "port \<le> 65535" for port
    using ranges_with_verdict [OF t(2) that] t(3) [OF that] by (simp_all add: A_def R_def)
  have none: "\<not> in_ranges port []" for port by (simp add: in_ranges_def)
  have ok: "list_all range_ok A" "list_all range_ok R" unfolding A_def R_def by (rule ranges_with_ok [OF t(2)])+
  have "A \<noteq> [] \<or> R \<noteq> []" using verdict [of 1] none by auto
  moreover have "A = [] \<Longrightarrow> \<forall>port. 1 \<le> port \<longrightarrow> port \<le> 65535 \<longrightarrow> in_ranges port R"
    "R = [] \<Longrightarrow> \<forall>port. 1 \<le> port \<longrightarrow> port \<le> 65535 \<longrightarrow> in_ranges port A" using verdict none by blast+
  ultimately obtain acc rs where l: "summary_line A R = Some (keyword acc @ line_of rs)" "rs \<noteq> []" "list_all range_ok rs"
    "length (line_of rs) \<le> 993"
    "\<forall>port. 1 \<le> port \<longrightarrow> port \<le> 65535 \<longrightarrow> (in_ranges port rs \<longleftrightarrow> in_ranges port (if acc then A else R))
      \<or> acc \<and> 982 \<le> length (line_of rs) \<and> \<not> in_ranges port rs"
    using summary_line_shape [OF ok] by blast
  have "in_ranges port (if acc then A else R) \<longleftrightarrow> fst (port_status family port es) = acc"
    if "1 \<le> port" "port \<le> 65535" for port
    using verdict [OF that] by (cases acc) simp_all
  moreover have "policy_summarize es family = summary_line A R"
    using t(1) by (simp add: policy_summarize_def Let_def A_def R_def)
  ultimately show ?thesis using l by (intro exI [of _ acc] exI [of _ rs]) simp
qed

lemma compare_short_verdict:
  "1 \<le> port \<Longrightarrow> compare_tor_addr_to_short_policy b None port \<lparr>is_accept = acc, entries = rs\<rparr> =
    Some (if in_ranges port rs = acc then ADDR_POLICY_PROBABLY_ACCEPTED else ADDR_POLICY_REJECTED)"
  by (auto simp: compare_tor_addr_to_short_policy_def in_ranges_def Let_def)

lemma client_line:
  assumes "\<forall>p \<in> set es. tor_addr_family (entry_addr p) = family \<longrightarrow> ports_ok p"
  shows "\<exists>line sp. policy_summarize es family = Some line \<and> length line \<le> MAX_EXITPOLICY_SUMMARY_LEN
    \<and> parse_short_policy line = Some sp
    \<and> (\<forall>port \<in> {1..65535}.
        compare_tor_addr_to_short_policy b None port sp = Some ADDR_POLICY_REJECTED
        \<or> compare_tor_addr_to_short_policy b None port sp = Some ADDR_POLICY_PROBABLY_ACCEPTED
          \<and> fst (port_status family port es))
    \<and> (length line < 989 \<longrightarrow> (\<forall>port \<in> {1..65535}.
        compare_tor_addr_to_short_policy b None port sp = Some ADDR_POLICY_PROBABLY_ACCEPTED
        \<longleftrightarrow> fst (port_status family port es)))"
proof -
  obtain acc rs where summary: "policy_summarize es family = Some (keyword acc @ line_of rs)"
    and rs: "rs \<noteq> []" "list_all range_ok rs" "length (line_of rs) \<le> 993"
    and ports: "\<And>port. 1 \<le> port \<Longrightarrow> port \<le> 65535 \<Longrightarrow> (in_ranges port rs \<longleftrightarrow> fst (port_status family port es) = acc)
        \<or> acc \<and> 982 \<le> length (line_of rs) \<and> \<not> in_ranges port rs"
    using policy_line [OF assms] by blast
  have parsed: "parse_short_policy (keyword acc @ line_of rs) = Some \<lparr>is_accept = acc, entries = rs\<rparr>"
    by (rule parse_keyword_line) (use rs in simp_all)
  have len: "length (keyword acc @ line_of rs) = 7 + length (line_of rs)" by (simp add: keyword_def)
  have cmp: "compare_tor_addr_to_short_policy b None port \<lparr>is_accept = acc, entries = rs\<rparr> = Some ADDR_POLICY_REJECTED
      \<and> (982 \<le> length (line_of rs) \<or> \<not> fst (port_status family port es))
    \<or> compare_tor_addr_to_short_policy b None port \<lparr>is_accept = acc, entries = rs\<rparr> = Some ADDR_POLICY_PROBABLY_ACCEPTED
      \<and> fst (port_status family port es)" if "1 \<le> port" "port \<le> 65535" for port
    using ports [OF that] compare_short_verdict [OF that(1), of b acc rs] by (cases acc) auto
  show ?thesis
  proof (intro exI conjI impI ballI)
    show "policy_summarize es family = Some (keyword acc @ line_of rs)" by (rule summary)
    show "parse_short_policy (keyword acc @ line_of rs) = Some \<lparr>is_accept = acc, entries = rs\<rparr>" by (rule parsed)
    show "length (keyword acc @ line_of rs) \<le> MAX_EXITPOLICY_SUMMARY_LEN" unfolding len using rs(3) by simp
  next
    fix port assume "port \<in> {1..65535 :: nat}"
    then show "compare_tor_addr_to_short_policy b None port \<lparr>is_accept = acc, entries = rs\<rparr> = Some ADDR_POLICY_REJECTED
        \<or> compare_tor_addr_to_short_policy b None port \<lparr>is_accept = acc, entries = rs\<rparr> = Some ADDR_POLICY_PROBABLY_ACCEPTED
          \<and> fst (port_status family port es)"
      using cmp [of port] by auto
  next
    fix port assume "length (keyword acc @ line_of rs) < 989" "port \<in> {1..65535 :: nat}"
    then show "compare_tor_addr_to_short_policy b None port \<lparr>is_accept = acc, entries = rs\<rparr>
        = Some ADDR_POLICY_PROBABLY_ACCEPTED \<longleftrightarrow> fst (port_status family port es)"
      using cmp [of port] unfolding len by auto
  qed
qed

text \<open>C13: Every policy has a summary line, within the limit, and a client parses it. The client takes a
  port for accepted only when the direct count for that port accepts it; and when the line is not
  close to the limit, exactly when it does. The assertions of the table, of the printing and of
  the cut never fail.\<close>

theorem summary_understood:
  assumes "\<forall>p \<in> set es. tor_addr_family (entry_addr p) = family \<longrightarrow> ports_ok p"
  shows "\<exists>line sp. policy_summarize es family = Some line \<and> length line \<le> MAX_EXITPOLICY_SUMMARY_LEN
    \<and> parse_short_policy line = Some sp
    \<and> (\<forall>port \<in> {1..65535}.
        compare_tor_addr_to_short_policy b None port sp = Some ADDR_POLICY_REJECTED
        \<or> compare_tor_addr_to_short_policy b None port sp = Some ADDR_POLICY_PROBABLY_ACCEPTED
          \<and> fst (port_status family port es))
    \<and> (length line < 989 \<longrightarrow> (\<forall>port \<in> {1..65535}.
        compare_tor_addr_to_short_policy b None port sp = Some ADDR_POLICY_PROBABLY_ACCEPTED
        \<longleftrightarrow> fst (port_status family port es)))"
  by (rule client_line [OF assms])

theorem summary_understood_witness:
  "\<exists>line sp. policy_summarize table_policy AF_INET = Some line \<and> parse_short_policy line = Some sp
    \<and> compare_tor_addr_to_short_policy True None 25 sp = Some ADDR_POLICY_REJECTED"
proof -
  obtain line sp where l: "policy_summarize table_policy AF_INET = Some line" "parse_short_policy line = Some sp"
    "\<forall>port \<in> {1..65535}. compare_tor_addr_to_short_policy True None port sp = Some ADDR_POLICY_REJECTED
        \<or> compare_tor_addr_to_short_policy True None port sp = Some ADDR_POLICY_PROBABLY_ACCEPTED
          \<and> fst (port_status AF_INET port table_policy)"
    using summary_understood [OF table_policy_ok(2), of True] by blast
  then show ?thesis using table_policy_status(2) by force
qed

section \<open>Round trip of short policies\<close>

text \<open>A short policy that is written out is parsed back as it was, for any number of ranges that fits
  the limit on a line.\<close>

theorem short_policy_roundtrip:
  assumes "list_all range_ok (entries sp)" "entries sp \<noteq> []" "length (write_short_policy sp) \<le> MAX_EXITPOLICY_SUMMARY_LEN"
  shows "parse_short_policy (write_short_policy sp) = Some sp"
proof -
  have w: "write_short_policy sp = keyword (is_accept sp) @ line_of (entries sp)"
    by (simp add: write_short_policy_def keyword_def)
  then have "length (line_of (entries sp)) \<le> 999" using assms(3) by (simp add: keyword_def split: if_splits)
  from parse_keyword_line [OF assms(1,2) this] show ?thesis unfolding w by simp
qed

theorem short_policy_roundtrip_witness:
  "parse_short_policy (write_short_policy \<lparr>is_accept = False, entries = [(25, 25), (135, 139)]\<rparr>)
    = Some \<lparr>is_accept = False, entries = [(25, 25), (135, 139)]\<rparr>"
proof (rule short_policy_roundtrip)
  let ?sp = "\<lparr>is_accept = False, entries = [(25, 25), (135, 139)]\<rparr>"
  show "list_all range_ok (entries ?sp)" "entries ?sp \<noteq> []" by (simp_all add: range_ok_def)
  show "length (write_short_policy ?sp) \<le> MAX_EXITPOLICY_SUMMARY_LEN"
    by (simp add: write_short_policy_def range_strings_def range_string_def show_nat.simps)
qed

text \<open>A port that no entry names is accepted by a policy and rejected by its summary.\<close>

lemma unmatched_ports_differ:
  "policy_summarize [] AF_INET = Some ''reject 1-65535''"
  "compare_known_tor_addr_to_addr_policy a port [] = ADDR_POLICY_ACCEPTED"
  by (simp_all add: policy_summarize_def policy_summary_create_def ranges_with_def summary_line_def)

end
