(* ===== verification/PolicyCompose.thy ===== *)
theory PolicyCompose
  imports PolicyExit PolicyLine
begin

text \<open>
  From the options of a relay to the client: the policy a relay builds is well typed, so that its
  summary exists, and a client that reads the summary is right about the ports it may use.
\<close>

section \<open>Well-typed entries\<close>

text \<open>What the parser of entries makes, and what is left after expanding.\<close>

fun address_typed :: "tor_addr_t \<Rightarrow> nat \<Rightarrow> bool" where
  "address_typed (Inet _) bits \<longleftrightarrow> bits \<le> 32"
| "address_typed (Inet6 b) bits \<longleftrightarrow> length b = 16 \<and> bits \<le> 128"
| "address_typed _ _ \<longleftrightarrow> False"

definition line_typed :: "addr_policy \<Rightarrow> bool" where
  "line_typed e \<longleftrightarrow> ports_ok e \<and> (entry_addr e = Unspec \<or> address_typed (entry_addr e) (maskbits e))"

definition typed_entry :: "addr_policy \<Rightarrow> bool" where
  "typed_entry e \<longleftrightarrow> ports_ok e \<and> \<not> is_private e \<and> address_typed (entry_addr e) (maskbits e)"

lemma typed_facts:
  "typed_entry e \<Longrightarrow> policy_entry_ok e" "typed_entry e \<Longrightarrow> ports_ok e" "typed_entry e \<Longrightarrow> ipv4_entry_ok e"
  by (cases "entry_addr e"; simp add: typed_entry_def policy_entry_ok_def ipv4_entry_ok_def)+

lemma private_nets_typed: "(n, m) \<in> set private_nets \<Longrightarrow> address_typed n m"
  by (auto simp: private_nets_def ipv6_net_def)

lemma expand_private_typed:
  "line_typed e \<Longrightarrow> e' \<in> set (expand_private_entry e) \<Longrightarrow> line_typed e' \<and> \<not> is_private e'"
  by (auto simp: expand_private_entry_def line_typed_def ports_ok_def private_nets_typed split: if_splits)

lemma expand_unspec_typed:
  "line_typed e \<Longrightarrow> \<not> is_private e \<Longrightarrow> e' \<in> set (expand_unspec_entry e) \<Longrightarrow> typed_entry e'"
  by (cases "entry_addr e")
    (auto simp: expand_unspec_entry_def line_typed_def typed_entry_def ports_ok_def Let_def)

lemma expanded_typed: "list_all line_typed es \<Longrightarrow> list_all typed_entry (expanded es)"
  using expand_private_typed expand_unspec_typed
  by (fastforce simp: expanded_def policy_expand_unspec_def policy_expand_private_def list_all_iff)

lemma own_reject_typed:
  "addr_ok a \<Longrightarrow> tor_addr_is_public_for_reject a \<Longrightarrow> typed_entry (own_reject a)"
  by (cases a) (auto simp: own_reject_def entry_def typed_entry_def ports_ok_def tor_addr_is_public_for_reject_def)

lemma own_entries_typed: "list_all addr_ok addrs \<Longrightarrow> list_all typed_entry (own_entries addrs v4 v6)"
  by (induction addrs) (auto simp: own_entries_def own_entry_def own_reject_typed)

lemma line_typed_entry: "1 \<le> lo \<Longrightarrow> lo \<le> hi \<Longrightarrow> hi \<le> 65535 \<Longrightarrow> line_typed (star_entry t lo hi)"
  by (simp add: star_entry_def entry_def line_typed_def ports_ok_def)

lemma constants_typed:
  "list_all line_typed [reject_star4]" "list_all line_typed [reject_star6]" "list_all line_typed [reject_private_star]"
  "list_all line_typed DEFAULT_EXIT_POLICY" "list_all line_typed REDUCED_EXIT_POLICY"
  by (simp_all add: reject_star4_def reject_star6_def reject_private_star_def entry_def line_typed_def ports_ok_def
      DEFAULT_EXIT_POLICY_def REDUCED_EXIT_POLICY_def star_entry_def)

lemma front_typed:
  assumes "own_ok own"
  shows "list_all typed_entry (front_entries ipv6_exit rejectprivate own interfaces ports)"
  using assms expanded_typed [OF constants_typed(2)] expanded_typed [OF constants_typed(3)]
  by (simp add: front_entries_def own_ok_def own_entries_typed)

lemma typed_remove: "list_all typed_entry es \<Longrightarrow> list_all typed_entry (exit_policy_remove_redundancies es)"
  using redundancies_subset [of es] by (auto simp: list_all_iff)

definition lines_typed :: "policy_lines \<Rightarrow> bool" where
  "lines_typed cfg \<longleftrightarrow> (case cfg of Lines l \<Rightarrow> list_all line_typed l | _ \<Rightarrow> True)"

text \<open>C18: The policy a relay builds is well typed, whatever its options: every entry is for one of the two
  families, has no pseudo-address left, a mask that fits its family, and a nonempty range of valid
  ports. A relay that gets past its options always has a policy.\<close>

theorem exit_policy_well_typed:
  assumes "policies_parse_exit_policy_from_options opt own ipv4 ipv6 None = Returns es"
    "own_ok (own\<lparr>configured_addresses := exit_configured_addresses opt ipv4 ipv6\<rparr>)" "lines_typed (ExitPolicy opt)"
  shows "es \<noteq> None \<and> list_all typed_entry (policy_entries es)"
proof -
  let ?own = "own\<lparr>configured_addresses := exit_configured_addresses opt ipv4 ipv6\<rparr>"
  note stars = expanded_typed [OF constants_typed(1)] expanded_typed [OF constants_typed(2)]
  have e: "\<exists>r. exit_policy_end d a b = Some (policy_entries d @ r) \<and> list_all typed_entry r" for d a b
    using stars expanded_typed [OF constants_typed(4)] expanded_typed [OF constants_typed(5)]
    by (auto simp: exit_policy_end_def append_string)
  have p: "list_all typed_entry (policy_entries d)"
    if "parse_addr_policy (ExitPolicy opt) (exit_policy_front None i r ?own f g) = Returns d" for d i r f g
    using that assms(3) typed_remove [OF front_typed [OF assms(2), of i r f g]]
    by (cases "ExitPolicy opt") (auto simp: lines_typed_def exit_policy_front_entries expanded_typed simp flip: expanded_def)
  have "es \<noteq> None \<and> list_all typed_entry (policy_entries es)"
    if "policies_parse_exit_policy_internal (ExitPolicy opt) None i r ?own f g a b = Returns es" for i r f g a b
  proof -
    obtain d where d: "parse_addr_policy (ExitPolicy opt) (exit_policy_front None i r ?own f g) = Returns d"
      "es = map_option exit_policy_remove_redundancies (exit_policy_end d a b)"
      using \<open>policies_parse_exit_policy_internal (ExitPolicy opt) None i r ?own f g a b = Returns es\<close>
      by (auto simp: policies_parse_exit_policy_internal_def and_then_Returns_iff)
    obtain x where "exit_policy_end d a b = Some (policy_entries d @ x)" "list_all typed_entry x" using e by blast
    with d p [OF d(1)] show ?thesis by (simp add: typed_remove)
  qed
  then show ?thesis
    using assms(1) stars
    by (auto simp: policies_parse_exit_policy_from_options_def policies_parse_exit_policy_def append_string
        split: if_splits)
qed


theorem exit_policy_well_typed_witness:
  "\<exists>es. policies_parse_exit_policy_from_options
      \<lparr>ExitRelay = 1, ExitPolicy = Lines [accept_star], ReducedExitPolicy = False, IPv6Exit = False,
        ExitPolicyRejectPrivate = True, ExitPolicyRejectLocalInterfaces = False, BridgeRelay = False,
        OutboundBindAddresses = []\<rparr> sample_own (Some (Inet 0x08080404)) None None = Returns es
    \<and> es \<noteq> None \<and> list_all typed_entry (policy_entries es)"
proof -
  let ?opt = "\<lparr>ExitRelay = 1, ExitPolicy = Lines [accept_star], ReducedExitPolicy = False, IPv6Exit = False,
        ExitPolicyRejectPrivate = True, ExitPolicyRejectLocalInterfaces = False, BridgeRelay = False,
        OutboundBindAddresses = []\<rparr>"
  obtain es where es: "policies_parse_exit_policy_from_options ?opt sample_own (Some (Inet 0x08080404)) None None
      = Returns es"
    by (simp add: policies_parse_exit_policy_from_options_def policies_parse_exit_policy_def
        policies_parse_exit_policy_internal_def policy_using_default_exit_options_def
        exit_policy_front_eq policies_log_first_redundant_entry_def)
  have "own_ok (sample_own\<lparr>configured_addresses := exit_configured_addresses ?opt (Some (Inet 0x08080404)) None\<rparr>)"
    by (simp add: own_ok_def sample_own_def exit_configured_addresses_def policies_copy_addr_to_smartlist_def)
  moreover have "lines_typed (ExitPolicy ?opt)"
    by (simp add: lines_typed_def accept_star_def line_typed_entry)
  ultimately show ?thesis using exit_policy_well_typed [OF es] es by blast
qed

section \<open>The summary a client reads\<close>

text \<open>C12: A relay's summary can be relied on. Of every well-typed policy the relay publishes an IPv4 line
  that clients parse; and at each port that a client then takes for accepted, the policy itself
  rejects at most the addresses of two /8 networks, the private networks apart.\<close>

theorem published_summary_reliable:
  assumes "list_all typed_entry es"
  shows "\<exists>line sp. policy_summarize es AF_INET = Some line \<and> parse_short_policy line = Some sp
    \<and> (\<forall>port \<in> {1..65535}.
        compare_tor_addr_to_short_policy b None port sp = Some ADDR_POLICY_PROBABLY_ACCEPTED \<longrightarrow>
        card {w. compare_known_tor_addr_to_addr_policy (Inet w) port es = ADDR_POLICY_REJECTED
          \<and> \<not> private_address w} \<le> 2 ^ 25)"
proof -
  have ports: "\<forall>p \<in> set es. tor_addr_family (entry_addr p) = AF_INET \<longrightarrow> ports_ok p"
    and ok: "list_all ipv4_entry_ok es"
    using assms typed_facts by (auto simp: list_all_iff)
  obtain line sp where l: "policy_summarize es AF_INET = Some line" "parse_short_policy line = Some sp"
    "\<forall>port \<in> {1..65535}. compare_tor_addr_to_short_policy b None port sp = Some ADDR_POLICY_REJECTED
        \<or> compare_tor_addr_to_short_policy b None port sp = Some ADDR_POLICY_PROBABLY_ACCEPTED
          \<and> fst (port_status AF_INET port es)"
    using client_line [OF ports, of b] by blast
  then have "fst (port_status AF_INET port es)"
    if "port \<in> {1..65535}" "compare_tor_addr_to_short_policy b None port sp = Some ADDR_POLICY_PROBABLY_ACCEPTED" for port
    using that by fastforce
  with l(1,2) accepted_bound [OF ok] show ?thesis by blast
qed

theorem published_summary_reliable_witness:
  "\<exists>line sp. policy_summarize table_policy AF_INET = Some line \<and> parse_short_policy line = Some sp"
proof -
  have "list_all typed_entry table_policy"
    by (simp add: table_policy_def entry_def typed_entry_def ports_ok_def)
  from published_summary_reliable [OF this, of True] show ?thesis by blast
qed

end
