(* ===== verification/Spec2Isabelle.thy ===== *)
theory Spec2Isabelle
  imports IntMath TokenBucket CText Binascii ConsDiff NetParams DosInvariant HsDos Smartlist ConfluxOrder BuffersFifo RelayMsg CongestionWindow FlowControlSync SendmeSync PolicySubnets PolicyCompose
begin

text \<open>
  A verification development for the C core of the Tor tree under \<^verbatim>\<open>src/linux/tor/src\<close>, which the Go
  package of the repository compiles and wraps. Paths below are relative to that directory.

  \<^bold>\<open>The program.\<close> Applications hand a Tor client streams of bytes. The client packs them into
  relay messages, wraps each message in the onion layers of a circuit, and sends the cells through
  three or more relays; the last relay, if its exit policy allows, connects to the destination. The
  modelled path of the data is: byte buffers of a connection (\<^verbatim>\<open>lib/buf\<close>), messages
  (\<^verbatim>\<open>core/or/relay_msg.c\<close>), onion layers (\<^verbatim>\<open>core/crypto\<close>), the choice among several circuits
  (\<^verbatim>\<open>core/or/conflux.c\<close>), and the three mechanisms that hold a sender back: the congestion window
  of a circuit, the SENDME cells that acknowledge its cells, and XOFF and XON for a stream. Around
  it are modelled: what a relay allows (\<^verbatim>\<open>core/or/policies.c\<close>) and how much of it an address may use
  (\<^verbatim>\<open>core/or/dos.c\<close>, \<^verbatim>\<open>feature/hs/hs_dos.c\<close>), and the differences by which the consensus documents,
  from which all of them take their parameters, are distributed (\<^verbatim>\<open>feature/dircommon/consdiff.c\<close>).

  \<^bold>\<open>Theories and sources.\<close>

  \<^descr> \<^theory_text>\<open>TorPrelude\<close>: C integer conversions, results of comparison functions, values of
    functions that may fail or abort, and the locale \<open>comparison\<close> that sorted containers expect.
  \<^descr> \<^theory_text>\<open>IntMath\<close>: \<^verbatim>\<open>lib/intmath/bits.c\<close>, \<^verbatim>\<open>muldiv.c\<close>, \<^verbatim>\<open>addsub.c\<close>.
  \<^descr> \<^theory_text>\<open>CtMem\<close>: the data-independent operations of \<^verbatim>\<open>lib/ctime/di_ops.c\<close>.
  \<^descr> \<^theory_text>\<open>CText\<close>, \<^theory_text>\<open>Binascii\<close>: C strings, number parsing, splitting and joining
    (\<^verbatim>\<open>lib/string\<close>, \<^verbatim>\<open>lib/smartlist_core/smartlist_split.c\<close>); base 16, 32 and 64
    (\<^verbatim>\<open>lib/encoding/binascii.c\<close>).
  \<^descr> \<^theory_text>\<open>Smartlist\<close>, \<^theory_text>\<open>PQueue\<close>: the arrays of \<^verbatim>\<open>lib/smartlist_core\<close> and
    \<^verbatim>\<open>lib/container/smartlist.c\<close> and the heaps in them; the locale \<open>priority_queue\<close>, given by every
    total comparison.
  \<^descr> \<^theory_text>\<open>Buffers\<close>, \<^theory_text>\<open>BuffersFifo\<close>: \<^verbatim>\<open>lib/buf/buffers.c\<close> and the loops of
    \<^verbatim>\<open>lib/net/buffers_net.c\<close> over the memory of the chunks; the locale \<open>implementation\<close>, by which
    two buffers without empty chunks, and moves between them, refine two queues of bytes.
  \<^descr> \<^theory_text>\<open>TokenBucket\<close>: \<^verbatim>\<open>lib/evloop/token_bucket.c\<close>; the locale \<open>token_meter\<close> for its users.
  \<^descr> \<^theory_text>\<open>NetParams\<close>: consensus parameters (\<^verbatim>\<open>feature/nodelist/networkstatus.c\<close>).
  \<^descr> \<^theory_text>\<open>RelayCrypto\<close>, \<^theory_text>\<open>RelayCryptoSync\<close>: the onion layers, both kinds
    (\<^verbatim>\<open>core/crypto/relay_crypto.c\<close>, \<^verbatim>\<open>relay_crypto_tor1.c\<close>, \<^verbatim>\<open>relay_crypto_cgo.c\<close>), and a client and
    its relays in step.
  \<^descr> \<^theory_text>\<open>RelayMsg\<close>: \<^verbatim>\<open>core/or/relay_msg.c\<close>, composed with the layers.
  \<^descr> \<^theory_text>\<open>Conflux\<close>, \<^theory_text>\<open>ConfluxOrder\<close>: \<^verbatim>\<open>core/or/conflux.c\<close>, its cell and its callers in
    \<^verbatim>\<open>relay.c\<close>; a sender, the circuits as channels and a receiver as a step relation.
  \<^descr> \<^theory_text>\<open>CongestionControl\<close>, \<^theory_text>\<open>CongestionWindow\<close>:
    \<^verbatim>\<open>core/or/congestion_control_common.c\<close> and \<^verbatim>\<open>congestion_control_vegas.c\<close>; the bounds of the window.
  \<^descr> \<^theory_text>\<open>FlowControl\<close>, \<^theory_text>\<open>FlowControlSync\<close>: \<^verbatim>\<open>core/or/congestion_control_flow.c\<close> with
    its cells; both ends of a stream as a step relation.
  \<^descr> \<^theory_text>\<open>Sendme\<close>, \<^theory_text>\<open>SendmeSync\<close>: \<^verbatim>\<open>core/or/sendme.c\<close> with its cell and its callers in
    \<^verbatim>\<open>relay.c\<close>; both ends of a circuit as a step relation.
  \<^descr> \<^theory_text>\<open>Dos\<close>, \<^theory_text>\<open>DosClients\<close>, \<^theory_text>\<open>DosInvariant\<close>: \<^verbatim>\<open>core/or/dos.c\<close> and the
    client map of \<^verbatim>\<open>feature/stats/geoip_stats.c\<close>; runs of a relay.
  \<^descr> \<^theory_text>\<open>HsDos\<close>: \<^verbatim>\<open>feature/hs/hs_dos.c\<close> and the extension in \<^verbatim>\<open>hs_intropoint.c\<close> that sets it.
  \<^descr> \<^theory_text>\<open>Address\<close>: the predicates and comparisons of \<^verbatim>\<open>lib/net/address.c\<close>; the locale
    \<open>masked_equality\<close> of what the policies use of them.
  \<^descr> \<^theory_text>\<open>Policies\<close>, \<^theory_text>\<open>PolicySummary\<close>: \<^verbatim>\<open>core/or/policies.c\<close>, the policies themselves and
    their summaries.
  \<^descr> \<^theory_text>\<open>PolicyLaws\<close>, \<^theory_text>\<open>PolicyExit\<close>, \<^theory_text>\<open>PolicySubnets\<close>, \<^theory_text>\<open>PolicyTable\<close>,
    \<^theory_text>\<open>PolicyLine\<close>, \<^theory_text>\<open>PolicyCompose\<close>: the answers and their simplification, the policy a relay
    builds, general exits, the table of a summary, its line and the client, and all of it together.
  \<^descr> \<^theory_text>\<open>ConsDiffLines\<close>, \<^theory_text>\<open>ConsDiffGen\<close>, \<^theory_text>\<open>Lcs\<close>, \<^theory_text>\<open>ConsDiffCalc\<close>,
    \<^theory_text>\<open>ConsDiffScan\<close>, \<^theory_text>\<open>ConsDiffApply\<close>, \<^theory_text>\<open>ConsDiff\<close>:
    \<^verbatim>\<open>feature/dircommon/consdiff.c\<close>: lines, the generator, longest common subsequences, the changed
    lines, the scan over routers, the applier, and whole documents with their digests.

  \<^bold>\<open>How the code is translated.\<close> A definition has the name of the C function it stands for; part
  of a long function has a name of its own and stands just before it. A struct is a record or, for a
  union with a tag, a datatype; the pointer to a struct that an operation updates is an argument and
  part of the result; the global variables of a module are a record. A value of a C integer type is a
  machine word, or an integer in the range of its type with each conversion and wrap-around written
  with \<open>u32\<close>, \<open>i64\<close> and the like; ports, masks and lengths that are never computed with are natural
  numbers. A failed assertion is \<^const>\<open>None\<close>, or \<open>Aborts\<close> where returning an error has to be told
  from it; each theory says which. Clocks, random numbers, the consensus, the state of sockets and
  channels, and the results of other modules are arguments. Logging, freeing, wiping and statistics
  that nothing modelled reads are left out.

  \<^bold>\<open>What the lemmas show.\<close> For the data path: what is sent arrives, once, in order, unchanged, over
  any interleaving (layers, messages, conflux, buffers), and both ends of a flow-control mechanism
  agree about it (tags, windows, stops). For the limiters: bounds over all runs (token buckets, the
  congestion window, the rejected addresses behind a summary) and exact counts (connections of an
  address, queued bytes). For the optimised routines: equality with the obvious ones (constant-time
  comparisons, removal of redundant policy entries, longest common subsequences, heaps). For
  documents and lines: what one end writes the other understands (differences, summaries, binary
  encodings). Each of these holds under conditions that the statement names, and some theorems state what
  the code does outside them: a circuit with an increment of one cell, or with a fixed window that is not a
  multiple of 100, is closed by its first SENDME; an increment above the window turns a congestion signal into
  the largest window; the search of a buffer that a blocked read left with an empty chunk looks at memory without
  data; a connection with a pluggable transport is counted under one entry and released from another.

  \<^bold>\<open>Loops and bounds.\<close> Every loop is structural or has a measure, with two exceptions: the loops
  that send SENDMEs for a circuit and for a stream are partial functions, since with an increment of 0
  the first would not end; that it ends for every other is a theorem. Two loops count
  their rounds: the search for a string in a buffer, for which the length of the buffer and the number of its
  chunks are shown to be enough, also with an empty chunk at the end, and the delivery from the queue of a conflux
  set, which takes a message off the queue in every round. Lists are shorter than \<open>2 ^ 31\<close> where an
  \<^verbatim>\<open>int\<close> indexes them, which the statements say when it matters; the congestion window has round trips under 71 minutes; runs of conflux are bounded by the
  capacity of a list.

  \<^bold>\<open>Parameters.\<close> The primitives of \<^verbatim>\<open>lib/crypt_ops\<close> (block cipher, key stream, POLYVAL, digests)
  are a record of functions, with lengths of results and the inverse of the block cipher as
  hypotheses, and an instance of it in the witnesses; the two digests of a consensus, the generated
  parser of the ESTABLISH_INTRO extension, and the parser of policy entries are parameters or enter as
  their results.

  \<^bold>\<open>Not modelled.\<close> The vendored libraries (\<^verbatim>\<open>src/linux/openssl\<close>, \<^verbatim>\<open>libevent\<close>, \<^verbatim>\<open>zlib\<close>,
  \<^verbatim>\<open>ext\<close>), the generated parsers of \<^verbatim>\<open>trunnel\<close> but for the cells named above, and the Go package,
  which starts the program. Of Tor itself: the event loop, connections and their transport (effects
  on sockets, TLS and files are most of them); channels, their scheduling and the multiplexing of
  circuits; building circuits, choosing paths and guards; the directory (parsing, voting, serving,
  fetching); onion services but for the limits at introduction points; configuration, the control
  port and the operating system. These keep their state in linked structures over the whole program,
  or are input and output; the manifest lists them.
\<close>

end
